(* ===== verification/Prelude.thy ===== *)
theory Prelude
  imports Complex_Main "HOL-Library.AList" "HOL-Library.Multiset"
begin

text \<open>
  The shared vocabulary of the development.
  \<^item> \<open>number\<close> is the JavaScript number: a finite value with exact arithmetic (a rational).
    Unit counts and cents are integers, on which doubles are exact up to 2^53.
  \<^item> \<open>error\<close> is what a \<open>throw\<close> carries (src/src/domain/exceptions/DomainErrors.ts, and
    \<open>new Error(..)\<close>, whose template string and interpolated values are kept apart).
  \<^item> \<open>'a result\<close> is a call that returns or throws; \<open>('s, 'a) oper\<close> is a method that
    reads and writes the state \<open>'s\<close> and returns or throws. The state after a throw is
    kept, since JavaScript does not roll back what was assigned before the throw.
  \<^item> A JavaScript \<open>Map\<close> is an association list in insertion order: \<open>AList.update\<close> is
    \<open>Map.set\<close> and \<open>map_of\<close> is \<open>Map.get\<close>.
\<close>

section \<open>Values\<close>

type_synonym number = rat
type_synonym time = int
type_synonym ident = string
type_synonym ('k, 'v) js_map = "('k \<times> 'v) list"

datatype arg = S string | N number

datatype error =
    Error string "arg list"
  | InsufficientStockError string number number
  | InvalidOperationError string "arg list"
  | InsufficientAvailableStockError string number number
  | OnboardingAlreadySubmittedError string
  | OpeningBalanceConflictError string string
  | ConcurrencyError string string
  | CapacityExceededError string string number number
  | ValidationError string "arg list"

type_synonym 'a result = "error + 'a"
type_synonym ('s, 'a) oper = "'s \<Rightarrow> 'a result \<times> 's"

named_theorems oper_simps \<open>evaluation of the operation combinators\<close>
named_theorems keeps_intros \<open>preservation of a state predicate by operations\<close>
named_theorems atomic_intros \<open>operations that leave the state alone when they throw\<close>
named_theorems model_defs \<open>definitions the components unfold to evaluate a closed term\<close>

section \<open>Numbers\<close>

definition is_integer :: "number \<Rightarrow> bool" where
  "is_integer x \<longleftrightarrow> of_int \<lfloor>x\<rfloor> = x"

definition js_round :: "number \<Rightarrow> number" where
  "js_round x = of_int \<lfloor>x + 1 / 2\<rfloor>"

definition js_ceil :: "number \<Rightarrow> number" where
  "js_ceil x = of_int \<lceil>x\<rceil>"

definition js_floor :: "number \<Rightarrow> number" where
  "js_floor x = of_int \<lfloor>x\<rfloor>"

lemma is_integer_iff_Ints: "is_integer x \<longleftrightarrow> x \<in> \<int>"
  unfolding is_integer_def by (metis Ints_cases Ints_of_int floor_of_int)

lemma is_integer_of_int [simp]: "is_integer (of_int k)"
  by (simp add: is_integer_def)

lemma is_integer_numeral [simp]: "is_integer (numeral k)" "is_integer 0" "is_integer 1"
  by (simp_all add: is_integer_def)

lemma is_integer_add [intro]: "is_integer x \<Longrightarrow> is_integer y \<Longrightarrow> is_integer (x + y)"
  by (simp add: is_integer_iff_Ints)

lemma is_integer_diff [intro]: "is_integer x \<Longrightarrow> is_integer y \<Longrightarrow> is_integer (x - y)"
  by (simp add: is_integer_iff_Ints)

lemma is_integer_mult [intro]: "is_integer x \<Longrightarrow> is_integer y \<Longrightarrow> is_integer (x * y)"
  by (simp add: is_integer_iff_Ints)

lemma is_integer_minus [simp]: "is_integer (- x) = is_integer x"
  by (simp add: is_integer_iff_Ints)

lemma js_round_integer [simp]: "is_integer (js_round x)"
  by (simp add: js_round_def)

lemma js_round_of_integer: "is_integer x \<Longrightarrow> js_round x = x"
proof -
  assume "is_integer x"
  then obtain k where k: "x = of_int k" by (auto simp: is_integer_iff_Ints elim: Ints_cases)
  have "\<lfloor>(of_int k :: rat) + 1 / 2\<rfloor> = k" by (simp add: floor_eq_iff)
  then show ?thesis by (simp add: js_round_def k)
qed

lemma js_round_bounds: "js_round x \<le> x + 1 / 2" "x - 1 / 2 < js_round x"
  by (simp_all add: js_round_def) linarith+

lemma js_round_mono: "x \<le> y \<Longrightarrow> js_round x \<le> js_round y"
  by (simp add: js_round_def floor_mono)

lemma js_round_nonneg: "0 \<le> x \<Longrightarrow> 0 \<le> js_round x"
  by (simp add: js_round_def)

lemma js_ceil_bounds: "x \<le> js_ceil x" "js_ceil x < x + 1"
  by (simp_all add: js_ceil_def) linarith+

lemma js_ceil_integer [simp]: "is_integer (js_ceil x)"
  by (simp add: js_ceil_def)

lemma js_ceil_nonneg: "0 \<le> x \<Longrightarrow> 0 \<le> js_ceil x"
  using js_ceil_bounds(1) order_trans by blast

text \<open>Evaluation of floors and ceilings of fractions.\<close>

lemma floor_rat_numeral [simp]:
  "\<lfloor>numeral a / numeral b :: rat\<rfloor> = numeral a div numeral b"
  "\<lfloor>1 / numeral b :: rat\<rfloor> = 1 div numeral b"
  "\<lfloor>- numeral a / numeral b :: rat\<rfloor> = - numeral a div numeral b"
  using floor_divide_of_int_eq [of "numeral a" "numeral b", where ?'a = rat]
    floor_divide_of_int_eq [of 1 "numeral b", where ?'a = rat]
    floor_divide_of_int_eq [of "- numeral a" "numeral b", where ?'a = rat]
  by simp_all

lemma ceiling_rat_numeral [simp]:
  "\<lceil>numeral a / numeral b :: rat\<rceil> = - (- numeral a div numeral b)"
  "\<lceil>1 / numeral b :: rat\<rceil> = - (- 1 div numeral b)"
  using floor_divide_of_int_eq [of "- numeral a" "numeral b", where ?'a = rat]
    floor_divide_of_int_eq [of "- 1" "numeral b", where ?'a = rat]
  by (simp_all add: ceiling_def)

section \<open>Strings\<close>

text \<open>
  \<open>trim\<close> removes white space at both ends, \<open>toUpperCase\<close> raises the letters of ASCII;
  strings are modelled on the ASCII range.
\<close>

definition is_space :: "char \<Rightarrow> bool" where
  "is_space c \<longleftrightarrow> of_char c \<in> {9, 10, 11, 12, 13, 32 :: nat}"

definition trim :: "string \<Rightarrow> string" where
  "trim s = rev (dropWhile is_space (rev (dropWhile is_space s)))"

definition upper_char :: "char \<Rightarrow> char" where
  "upper_char c = (if 97 \<le> (of_char c :: nat) \<and> (of_char c :: nat) \<le> 122
     then char_of ((of_char c :: nat) - 32) else c)"

definition to_upper :: "string \<Rightarrow> string" where
  "to_upper s = map upper_char s"

definition is_digit :: "char \<Rightarrow> bool" where
  "is_digit c \<longleftrightarrow> 48 \<le> (of_char c :: nat) \<and> (of_char c :: nat) \<le> 57"

definition is_upper :: "char \<Rightarrow> bool" where
  "is_upper c \<longleftrightarrow> 65 \<le> (of_char c :: nat) \<and> (of_char c :: nat) \<le> 90"

definition is_letter :: "char \<Rightarrow> bool" where
  "is_letter c \<longleftrightarrow> is_upper c \<or> (97 \<le> (of_char c :: nat) \<and> (of_char c :: nat) \<le> 122)"

definition is_blank :: "string \<Rightarrow> bool" where
  "is_blank s \<longleftrightarrow> trim s = []"

lemma of_char_upper_char:
  "(of_char (upper_char c) :: nat) = (if 97 \<le> (of_char c :: nat) \<and> (of_char c :: nat) \<le> 122
     then of_char c - 32 else of_char c)"
proof -
  have "97 \<le> (of_char c :: nat) \<and> (of_char c :: nat) \<le> 122 \<Longrightarrow> (of_char c - 32 :: nat) mod 256 = of_char c - 32"
    by (intro mod_less) linarith
  then show ?thesis by (auto simp: upper_char_def)
qed

lemma upper_char_idem [simp]: "upper_char (upper_char c) = upper_char c"
  using of_char_upper_char [of c] by (subst upper_char_def) (auto split: if_splits)

lemma to_upper_idem [simp]: "to_upper (to_upper s) = to_upper s"
  by (simp add: to_upper_def)

lemma length_to_upper [simp]: "length (to_upper s) = length s"
  by (simp add: to_upper_def)

lemma dropWhile_idem [simp]: "dropWhile P (dropWhile P xs) = dropWhile P xs"
  by (induction xs) auto

lemma rev_dropWhile_rev_Cons:
  "\<not> P y \<Longrightarrow> rev (dropWhile P (rev (y # ys))) = y # rev (dropWhile P (rev ys))"
  by (simp add: dropWhile_append)

lemma dropWhile_rev_dropWhile:
  "dropWhile P (rev (dropWhile P (rev (dropWhile P xs)))) = rev (dropWhile P (rev (dropWhile P xs)))"
proof (cases "dropWhile P xs")
  case Nil
  then show ?thesis by (simp only: Nil) simp
next
  case (Cons y ys)
  then have "\<not> P y" by (metis hd_dropWhile list.discI list.sel(1))
  then show ?thesis unfolding Cons by (subst (1 2) rev_dropWhile_rev_Cons) simp_all
qed

lemma trim_idem [simp]: "trim (trim s) = trim s"
  unfolding trim_def dropWhile_rev_dropWhile by simp

lemma not_blank: "c \<in> set s \<Longrightarrow> \<not> is_space c \<Longrightarrow> \<not> is_blank s"
proof (cases "dropWhile is_space s")
  case (Cons y ys)
  then have "\<not> is_space y" by (metis hd_dropWhile list.discI list.sel(1))
  then have "trim s = y # rev (dropWhile is_space (rev ys))"
    unfolding trim_def Cons by (rule rev_dropWhile_rev_Cons)
  then show ?thesis by (simp add: is_blank_def)
qed (simp add: dropWhile_eq_Nil_conv)

section \<open>Operations that may throw\<close>

definition op_return :: "'a \<Rightarrow> ('s, 'a) oper" where
  "op_return a s = (Inr a, s)"

definition op_throw :: "error \<Rightarrow> ('s, 'a) oper" where
  "op_throw e s = (Inl e, s)"

definition op_lift :: "'a result \<Rightarrow> ('s, 'a) oper" where
  "op_lift r s = (r, s)"

definition op_modify :: "('s \<Rightarrow> 's) \<Rightarrow> ('s, unit) oper" where
  "op_modify f s = (Inr (), f s)"

definition op_bind :: "('s, 'a) oper \<Rightarrow> ('a \<Rightarrow> ('s, 'b) oper) \<Rightarrow> ('s, 'b) oper" where
  "op_bind m k s = (case m s of (Inl e, s') \<Rightarrow> (Inl e, s') | (Inr a, s') \<Rightarrow> k a s')"

definition op_get :: "('s \<Rightarrow> ('s, 'a) oper) \<Rightarrow> ('s, 'a) oper" where
  "op_get k s = k s s"

definition op_seq :: "('s, unit) oper \<Rightarrow> ('s, 'a) oper \<Rightarrow> ('s, 'a) oper" where
  "op_seq m k = op_bind m (\<lambda>_. k)"

definition op_reject :: "bool \<Rightarrow> error \<Rightarrow> ('s, unit) oper" where
  "op_reject c e = (if c then op_throw e else op_return ())"

fun op_each :: "('a \<Rightarrow> ('s, unit) oper) \<Rightarrow> 'a list \<Rightarrow> ('s, unit) oper" where
  "op_each f [] = op_return ()"
| "op_each f (x # xs) = op_seq (f x) (op_each f xs)"

text \<open>A call on one component of a larger state.\<close>

definition op_zoom :: "('w \<Rightarrow> 's) \<Rightarrow> ('s \<Rightarrow> 'w \<Rightarrow> 'w) \<Rightarrow> ('s, 'a) oper \<Rightarrow> ('w, 'a) oper" where
  "op_zoom g p m w = (case m (g w) of (r, s') \<Rightarrow> (r, p s' w))"

lemma op_zoom_eval [oper_simps]: "op_zoom g p m w = (case m (g w) of (r, s') \<Rightarrow> (r, p s' w))"
  by (simp add: op_zoom_def)

lemma op_return_eval [oper_simps]: "op_return a s = (Inr a, s)"
  by (simp add: op_return_def)

lemma op_throw_eval [oper_simps]: "op_throw e s = (Inl e, s)"
  by (simp add: op_throw_def)

lemma op_lift_eval [oper_simps]: "op_lift r s = (r, s)"
  by (simp add: op_lift_def)

lemma op_modify_eval [oper_simps]: "op_modify f s = (Inr (), f s)"
  by (simp add: op_modify_def)

lemma op_get_eval [oper_simps]: "op_get k s = k s s"
  by (simp add: op_get_def)

lemma op_bind_eval [oper_simps]:
  "op_bind m k s = (case m s of (Inl e, s') \<Rightarrow> (Inl e, s') | (Inr a, s') \<Rightarrow> k a s')"
  by (simp add: op_bind_def)

lemma op_seq_eval [oper_simps]:
  "op_seq m k s = (case m s of (Inl e, s') \<Rightarrow> (Inl e, s') | (Inr a, s') \<Rightarrow> k s')"
  by (simp add: op_seq_def op_bind_def)

lemma op_reject_eval [oper_simps]: "op_reject c e s = (if c then (Inl e, s) else (Inr (), s))"
  by (simp add: op_reject_def op_throw_def op_return_def)

text \<open>
  \<open>keeps P m\<close>: the operation takes states with \<open>P\<close> to states with \<open>P\<close>, whether it returns
  or throws. \<open>atomic m\<close>: when it throws, the state is the one it was called in.
\<close>

definition keeps :: "('s \<Rightarrow> bool) \<Rightarrow> ('s, 'a) oper \<Rightarrow> bool" where
  "keeps P m \<longleftrightarrow> (\<forall>s. P s \<longrightarrow> P (snd (m s)))"

definition atomic :: "('s, 'a) oper \<Rightarrow> bool" where
  "atomic m \<longleftrightarrow> (\<forall>s e s'. m s = (Inl e, s') \<longrightarrow> s' = s)"

lemma keepsD: "keeps P m \<Longrightarrow> P s \<Longrightarrow> m s = (r, s') \<Longrightarrow> P s'"
  by (metis keeps_def snd_conv)

lemma keepsD_snd: "keeps P m \<Longrightarrow> P s \<Longrightarrow> P (snd (m s))"
  by (simp add: keeps_def)

lemma keeps_return [keeps_intros]: "keeps P (op_return a)"
  and keeps_throw [keeps_intros]: "keeps P (op_throw e)"
  and keeps_lift [keeps_intros]: "keeps P (op_lift r)"
  and keeps_reject [keeps_intros]: "keeps P (op_reject c e)"
  by (simp_all add: keeps_def oper_simps)

lemma keeps_modify [keeps_intros]: "(\<And>s. P s \<Longrightarrow> P (f s)) \<Longrightarrow> keeps P (op_modify f)"
  by (simp add: keeps_def oper_simps)

lemma keeps_bind [keeps_intros]: "keeps P m \<Longrightarrow> (\<And>a. keeps P (k a)) \<Longrightarrow> keeps P (op_bind m k)"
  unfolding keeps_def op_bind_eval
  by (simp split: prod.splits sum.splits) (metis snd_conv)

lemma keeps_seq [keeps_intros]: "keeps P m \<Longrightarrow> keeps P k \<Longrightarrow> keeps P (op_seq m k)"
  by (simp add: op_seq_def keeps_bind)

lemma keeps_get [keeps_intros]: "(\<And>a. P a \<Longrightarrow> keeps P (k a)) \<Longrightarrow> keeps P (op_get k)"
  by (simp add: keeps_def oper_simps)

lemma keeps_if [keeps_intros]:
  "(c \<Longrightarrow> keeps P m) \<Longrightarrow> (\<not> c \<Longrightarrow> keeps P n) \<Longrightarrow> keeps P (if c then m else n)"
  by simp

lemma keeps_zoom [keeps_intros]: "(\<And>s w. P w \<Longrightarrow> P (p s w)) \<Longrightarrow> keeps P (op_zoom g p m)"
  by (auto simp: keeps_def op_zoom_def split: prod.splits)

lemma keeps_each [keeps_intros]: "(\<And>x. x \<in> set xs \<Longrightarrow> keeps P (f x)) \<Longrightarrow> keeps P (op_each f xs)"
  by (induction xs) (auto intro!: keeps_intros)

text \<open>A history of calls, each returning or throwing, whose caller goes on with the object.\<close>

lemma keeps_fold: "(\<And>c. keeps P (f c)) \<Longrightarrow> P s \<Longrightarrow> P (fold (\<lambda>c s. snd (f c s)) cs s)"
  by (induction cs arbitrary: s) (auto simp: keeps_def)

lemma atomic_return [atomic_intros]: "atomic (op_return a)"
  and atomic_throw [atomic_intros]: "atomic (op_throw e)"
  and atomic_lift [atomic_intros]: "atomic (op_lift r)"
  and atomic_modify [atomic_intros]: "atomic (op_modify f)"
  and atomic_reject [atomic_intros]: "atomic (op_reject c e)"
  by (auto simp: atomic_def oper_simps split: if_splits)

lemma atomic_get [atomic_intros]: "(\<And>a. atomic (k a)) \<Longrightarrow> atomic (op_get k)"
  by (auto simp: atomic_def oper_simps)

lemma atomic_reject_seq [atomic_intros]: "atomic k \<Longrightarrow> atomic (op_seq (op_reject c e) k)"
  by (auto simp: atomic_def oper_simps split: if_splits)

lemma atomic_lift_bind [atomic_intros]:
  "(\<And>a. atomic (k a)) \<Longrightarrow> atomic (op_bind (op_lift r) k)"
  by (auto simp: atomic_def oper_simps split: sum.splits)

lemma atomic_modify_last [atomic_intros]: "atomic m \<Longrightarrow> atomic (op_seq m (op_modify f))"
  by (auto simp: atomic_def oper_simps split: prod.splits sum.splits)

lemma op_each_append:
  "op_each f (xs @ ys) = op_seq (op_each f xs) (op_each f ys)"
  by (induction xs) (auto simp: fun_eq_iff oper_simps split: prod.splits sum.splits)

lemma run_seqE:
  assumes "op_seq m k w = (Inr b, w')"
  obtains w1 where "m w = (Inr (), w1)" and "k w1 = (Inr b, w')"
  using assms by (cases "m w") (auto simp: oper_simps split: sum.splits)

lemma run_bindE:
  assumes "op_bind m k w = (Inr b, w')"
  obtains a w1 where "m w = (Inr a, w1)" and "k a w1 = (Inr b, w')"
  using assms by (cases "m w") (auto simp: oper_simps split: sum.splits)

text \<open>A pure loop that stops at the first throw: \<open>for (const x of xs) { ... }\<close> over a value.\<close>

fun result_fold :: "('a \<Rightarrow> 'b \<Rightarrow> 'b result) \<Rightarrow> 'a list \<Rightarrow> 'b \<Rightarrow> 'b result" where
  "result_fold f [] b = Inr b"
| "result_fold f (x # xs) b = (case f x b of Inl e \<Rightarrow> Inl e | Inr b' \<Rightarrow> result_fold f xs b')"

fun result_map :: "('a \<Rightarrow> 'b result) \<Rightarrow> 'a list \<Rightarrow> 'b list result" where
  "result_map f [] = Inr []"
| "result_map f (x # xs) = (case f x of Inl e \<Rightarrow> Inl e
     | Inr y \<Rightarrow> (case result_map f xs of Inl e \<Rightarrow> Inl e | Inr ys \<Rightarrow> Inr (y # ys)))"

definition result_bind :: "'a result \<Rightarrow> ('a \<Rightarrow> 'b result) \<Rightarrow> 'b result" where
  "result_bind r k = (case r of Inl e \<Rightarrow> Inl e | Inr a \<Rightarrow> k a)"

lemma result_bind_simps [simp]: "result_bind (Inl e) k = Inl e" "result_bind (Inr a) k = k a"
  by (simp_all add: result_bind_def)

lemma result_bind_Inr_iff: "result_bind r k = Inr b \<longleftrightarrow> (\<exists>a. r = Inr a \<and> k a = Inr b)"
  by (auto simp: result_bind_def split: sum.splits)

lemma result_fold_invariant:
  assumes step: "\<And>x b b'. x \<in> set xs \<Longrightarrow> P b \<Longrightarrow> f x b = Inr b' \<Longrightarrow> P b'"
    and start: "P b" and run: "result_fold f xs b = Inr b'"
  shows "P b'"
  using start run step
proof (induction xs arbitrary: b)
  case Nil
  then show ?case by simp
next
  case (Cons x xs)
  then obtain c where "f x b = Inr c" and "result_fold f xs c = Inr b'"
    by (auto split: sum.splits)
  with Cons show ?case by (metis list.set_intros)
qed

lemma result_map_Inr_length: "result_map f xs = Inr ys \<Longrightarrow> length ys = length xs"
  by (induction xs arbitrary: ys) (auto split: sum.splits)

lemma result_map_Inr_iff:
  "result_map f xs = Inr ys \<longleftrightarrow> list_all2 (\<lambda>x y. f x = Inr y) xs ys"
proof (induction xs arbitrary: ys)
  case Nil
  then show ?case by auto
next
  case (Cons x xs)
  show ?case
    by (cases "f x") (auto simp: list_all2_Cons1 Cons.IH [symmetric] split: sum.splits)
qed

lemma result_map_member:
  "result_map f xs = Inr ys \<Longrightarrow> x \<in> set xs \<Longrightarrow> \<exists>y\<in>set ys. f x = Inr y"
  by (induction xs arbitrary: ys) (auto split: sum.splits)

section \<open>Lists and maps\<close>

lemma sum_list_filter_split:
  fixes f :: "'a \<Rightarrow> 'b::comm_monoid_add"
  shows "(\<Sum>x\<leftarrow>filter P xs. f x) + (\<Sum>x\<leftarrow>filter (\<lambda>x. \<not> P x) xs. f x) = (\<Sum>x\<leftarrow>xs. f x)"
  by (induction xs) (auto simp: add.assoc add.left_commute)

lemma sum_list_mset_cong:
  fixes f :: "'a \<Rightarrow> 'b::comm_monoid_add"
  assumes "mset xs = mset ys"
  shows "(\<Sum>x\<leftarrow>xs. f x) = (\<Sum>x\<leftarrow>ys. f x)"
  by (metis assms mset_map sum_mset_sum_list)

lemma sum_list_sort_key [simp]:
  fixes f :: "'a \<Rightarrow> 'b::comm_monoid_add"
  shows "(\<Sum>x\<leftarrow>sort_key k xs. f x) = (\<Sum>x\<leftarrow>xs. f x)"
  by (rule sum_list_mset_cong) simp

lemma find_append: "find P (xs @ ys) = (case find P xs of None \<Rightarrow> find P ys | Some x \<Rightarrow> Some x)"
  by (induction xs) auto

lemma find_SomeD: "find P xs = Some x \<Longrightarrow> x \<in> set xs \<and> P x"
  by (induction xs) (auto split: if_splits)

lemma find_map: "find P (map f xs) = map_option f (find (\<lambda>x. P (f x)) xs)"
  by (induction xs) auto

definition lookup_or :: "'v \<Rightarrow> ('k, 'v) js_map \<Rightarrow> 'k \<Rightarrow> 'v" where
  "lookup_or d m k = (case map_of m k of None \<Rightarrow> d | Some v \<Rightarrow> v)"

lemma map_of_js_set [simp]: "map_of (AList.update k v m) = (map_of m)(k \<mapsto> v)"
  by (rule update_conv')

lemma lookup_or_update [simp]:
  "lookup_or d (AList.update k v m) k' = (if k' = k then v else lookup_or d m k')"
  by (simp add: lookup_or_def)

lemma lookup_or_Nil [simp]: "lookup_or d [] k = d"
  by (simp add: lookup_or_def)

end
