(* ===== verification/Identifiers.thy ===== *)
theory Identifiers
  imports Prelude
begin

text \<open>
  The validated strings of src/src/domain/valueObjects: the identifier classes, Sku, SerialNumber,
  Barcode, Lot, the attributes of a variant and the coordinates of a GeoLocation (its
  haversine distance is floating-point trigonometry and is not modelled). An identifier object is its
  \<open>value\<close>, so \<open>equals\<close> is equality.
\<close>

section \<open>Identifier classes\<close>

definition make_id :: "string \<Rightarrow> string \<Rightarrow> ident result" where
  "make_id message v = (if v = [] \<or> is_blank v then Inl (Error message []) else Inr v)"

definition ActorId :: "string \<Rightarrow> ident result" where
  "ActorId v = make_id ''ActorId cannot be empty.'' v"

definition AuditDiscrepancyId :: "string \<Rightarrow> ident result" where
  "AuditDiscrepancyId v = make_id ''AuditDiscrepancyId cannot be empty.'' v"

definition BarcodeAssignmentId :: "string \<Rightarrow> ident result" where
  "BarcodeAssignmentId v = make_id ''BarcodeAssignmentId cannot be empty.'' v"

definition ConversionRuleId :: "string \<Rightarrow> ident result" where
  "ConversionRuleId v = make_id ''ConversionRuleId cannot be empty.'' v"

definition DemandForecastId :: "string \<Rightarrow> ident result" where
  "DemandForecastId v = make_id ''DemandForecastId cannot be empty.'' v"

definition InventoryItemId :: "string \<Rightarrow> ident result" where
  "InventoryItemId v = make_id ''InventoryItemId cannot be empty.'' v"

definition JournalEntryId :: "string \<Rightarrow> ident result" where
  "JournalEntryId v = make_id ''JournalEntryId cannot be empty.'' v"

definition KitId :: "string \<Rightarrow> ident result" where
  "KitId v = make_id ''KitId cannot be empty.'' v"

definition LedgerEntryId :: "string \<Rightarrow> ident result" where
  "LedgerEntryId v = make_id ''LedgerEntryId cannot be empty.'' v"

definition LocationId :: "string \<Rightarrow> ident result" where
  "LocationId v = make_id ''LocationId cannot be empty.'' v"

definition LotBatchId :: "string \<Rightarrow> ident result" where
  "LotBatchId v = make_id ''LotBatchId cannot be empty.'' v"

definition ProductId :: "string \<Rightarrow> ident result" where
  "ProductId v = make_id ''ProductId cannot be empty.'' v"

definition ProductVariantId :: "string \<Rightarrow> ident result" where
  "ProductVariantId v = make_id ''ProductVariantId cannot be empty.'' v"

definition PurchaseOrderId :: "string \<Rightarrow> ident result" where
  "PurchaseOrderId v = make_id ''PurchaseOrderId cannot be empty.'' v"

definition QuarantineItemId :: "string \<Rightarrow> ident result" where
  "QuarantineItemId v = make_id ''QuarantineItemId cannot be empty.'' v"

definition ReplenishmentRuleId :: "string \<Rightarrow> ident result" where
  "ReplenishmentRuleId v = make_id ''ReplenishmentRuleId cannot be empty.'' v"

definition SerializedItemId :: "string \<Rightarrow> ident result" where
  "SerializedItemId v = make_id ''SerializedItemId cannot be empty.'' v"

definition StockOnboardingId :: "string \<Rightarrow> ident result" where
  "StockOnboardingId v = make_id ''StockOnboardingId cannot be empty.'' v"

definition StockTransferId :: "string \<Rightarrow> ident result" where
  "StockTransferId v = make_id ''StockTransferId cannot be empty.'' v"

definition TenantId :: "string \<Rightarrow> ident result" where
  "TenantId v = make_id ''TenantId cannot be empty.'' v"

definition WarehouseId :: "string \<Rightarrow> ident result" where
  "WarehouseId v = make_id ''WarehouseId cannot be empty.'' v"

lemmas id_class_defs [model_defs] =
  ActorId_def AuditDiscrepancyId_def BarcodeAssignmentId_def ConversionRuleId_def
  DemandForecastId_def InventoryItemId_def JournalEntryId_def KitId_def
  LedgerEntryId_def LocationId_def LotBatchId_def ProductId_def
  ProductVariantId_def PurchaseOrderId_def QuarantineItemId_def ReplenishmentRuleId_def
  SerializedItemId_def StockOnboardingId_def StockTransferId_def TenantId_def
  WarehouseId_def

lemma make_id_Inr_iff: "make_id m v = Inr i \<longleftrightarrow> i = v \<and> \<not> is_blank v"
  by (auto simp: make_id_def is_blank_def trim_def)

lemma make_id_not_blank [simp]: "\<not> is_blank v \<Longrightarrow> make_id m v = Inr v"
  by (simp add: make_id_Inr_iff)

section \<open>Stock keeping units and serial numbers\<close>

definition is_sku_char :: "char \<Rightarrow> bool" where
  "is_sku_char c \<longleftrightarrow> is_letter c \<or> is_digit c \<or> c = CHR ''-''"

definition Sku :: "string \<Rightarrow> string result" where
  "Sku v =
     (if v = [] \<or> is_blank v then Inl (Error ''SKU cannot be empty.'' [])
      else if \<not> list_all is_sku_char v
      then Inl (Error ''SKU must contain only alphanumeric characters and hyphens.'' [])
      else Inr (to_upper v))"

definition is_serial_char :: "char \<Rightarrow> bool" where
  "is_serial_char c \<longleftrightarrow> is_upper c \<or> is_digit c \<or> c \<in> {CHR ''-'', CHR ''.'', CHR ''/''}"

definition SerialNumber :: "string \<Rightarrow> string result" where
  "SerialNumber raw =
     (let normalized = to_upper (trim raw)
      in if normalized = [] then Inl (Error ''Serial number cannot be empty.'' [])
         else if 100 < length normalized
         then Inl (Error ''Serial number cannot exceed 100 characters.'' [])
         else if \<not> list_all is_serial_char normalized
         then Inl (Error ''Serial number contains invalid characters: {}'' [S normalized])
         else Inr normalized)"

section \<open>Barcodes\<close>

datatype barcode_symbology = UPC_A | UPC_E | EAN_13 | EAN_8 | CODE_128 | QR | ITF_14 | GS1_128

datatype barcode_source = Supplier_source | Internal_source | GS1_source

fun BarcodeSymbologyLabels :: "barcode_symbology \<Rightarrow> string" where
  "BarcodeSymbologyLabels UPC_A = ''UPC-A''"
| "BarcodeSymbologyLabels UPC_E = ''UPC-E''"
| "BarcodeSymbologyLabels EAN_13 = ''EAN-13''"
| "BarcodeSymbologyLabels EAN_8 = ''EAN-8''"
| "BarcodeSymbologyLabels CODE_128 = ''Code 128''"
| "BarcodeSymbologyLabels QR = ''QR Code''"
| "BarcodeSymbologyLabels ITF_14 = ''ITF-14''"
| "BarcodeSymbologyLabels GS1_128 = ''GS1-128''"

record barcode =
  symbology :: barcode_symbology
  bvalue :: string

definition validateFixedLength :: "nat \<Rightarrow> string \<Rightarrow> string \<Rightarrow> unit result" where
  "validateFixedLength len label v =
     (if length v \<noteq> len
      then Inl (Error ''Invalid {} length. Expected {}.'' [S label, N (of_nat len)])
      else Inr ())"

definition validateNumeric :: "string \<Rightarrow> string \<Rightarrow> unit result" where
  "validateNumeric label v =
     (if v = [] \<or> \<not> list_all is_digit v
      then Inl (Error ''{} must contain only digits: {}'' [S label, S v])
      else Inr ())"

definition validateAlphanumeric :: "string \<Rightarrow> string \<Rightarrow> unit result" where
  "validateAlphanumeric label v =
     (if length v = 0 then Inl (Error ''{} cannot be empty.'' [S label]) else Inr ())"

definition validate_digits :: "nat \<Rightarrow> string \<Rightarrow> string \<Rightarrow> unit result" where
  "validate_digits len label v =
     result_bind (validateFixedLength len label v) (\<lambda>_. validateNumeric label v)"

definition validate_barcode :: "barcode_symbology \<Rightarrow> string \<Rightarrow> unit result" where
  "validate_barcode sy v = (let label = BarcodeSymbologyLabels sy in
     case sy of
       UPC_A \<Rightarrow> validate_digits 12 label v
     | EAN_13 \<Rightarrow> validate_digits 13 label v
     | UPC_E \<Rightarrow> validate_digits 8 label v
     | EAN_8 \<Rightarrow> validate_digits 8 label v
     | ITF_14 \<Rightarrow> validate_digits 14 label v
     | CODE_128 \<Rightarrow> validateAlphanumeric label v
     | GS1_128 \<Rightarrow> validateAlphanumeric label v
     | QR \<Rightarrow> Inr ())"

definition Barcode :: "barcode_symbology \<Rightarrow> string \<Rightarrow> barcode result" where
  "Barcode sy raw = (let v = to_upper (trim raw) in
     result_bind (validate_barcode sy v) (\<lambda>_. Inr \<lparr>symbology = sy, bvalue = v\<rparr>))"

definition barcode_equals :: "barcode \<Rightarrow> barcode \<Rightarrow> bool" where
  "barcode_equals b c \<longleftrightarrow> bvalue b = bvalue c"

section \<open>Lots, attributes, coordinates\<close>

record lot =
  lotNumber :: string
  expirationDate :: time

text \<open>A \<open>Date\<close> whose \<open>getTime()\<close> is NaN is \<open>None\<close>.\<close>

definition Lot :: "string \<Rightarrow> time option \<Rightarrow> lot result" where
  "Lot n d =
     (if n = [] \<or> is_blank n then Inl (Error ''Lot number cannot be empty.'' [])
      else case d of None \<Rightarrow> Inl (Error ''Invalid expiration date.'' [])
        | Some t \<Rightarrow> Inr \<lparr>lotNumber = n, expirationDate = t\<rparr>)"

record variant_attribute =
  attr_name :: string
  attr_value :: string

definition VariantAttribute :: "string \<Rightarrow> string \<Rightarrow> variant_attribute result" where
  "VariantAttribute n v =
     (if is_blank n \<or> is_blank v
      then Inl (Error ''Attribute name and value must be non-empty.'' [])
      else Inr \<lparr>attr_name = n, attr_value = v\<rparr>)"

record geo_location =
  latitude :: number
  longitude :: number

definition GeoLocation :: "number \<Rightarrow> number \<Rightarrow> geo_location result" where
  "GeoLocation lat lon =
     (if lat < - 90 \<or> 90 < lat
      then Inl (Error ''Latitude must be a valid number between -90 and 90'' [])
      else if lon < - 180 \<or> 180 < lon
      then Inl (Error ''Longitude must be a valid number between -180 and 180'' [])
      else Inr \<lparr>latitude = lat, longitude = lon\<rparr>)"

section \<open>Normal forms\<close>

text \<open>The stored value of a Sku, SerialNumber or Barcode is a normal form of what was typed.\<close>

lemma is_space_upper_char [simp]: "is_space (upper_char c) = is_space c"
  by (auto simp: is_space_def of_char_upper_char)

lemma dropWhile_space_upper [simp]:
  "dropWhile is_space (map upper_char s) = map upper_char (dropWhile is_space s)"
  by (simp add: dropWhile_map comp_def)

lemma trim_to_upper: "trim (to_upper s) = to_upper (trim s)"
  by (simp add: trim_def to_upper_def rev_map)

lemma normal_form_idem [simp]: "to_upper (trim (to_upper (trim s))) = to_upper (trim s)"
  by (simp add: trim_to_upper)

lemma is_sku_char_upper: "is_sku_char c \<Longrightarrow> is_sku_char (upper_char c)"
  by (auto simp: is_sku_char_def is_letter_def is_upper_def is_digit_def of_char_upper_char
      upper_char_def)

lemma is_sku_char_not_space: "is_sku_char c \<Longrightarrow> \<not> is_space c"
  by (auto simp: is_sku_char_def is_letter_def is_upper_def is_digit_def is_space_def)

lemma dropWhile_none: "list_all (\<lambda>c. \<not> P c) s \<Longrightarrow> dropWhile P s = s"
  by (cases s) auto

lemma list_all_not_space_trim: "list_all (\<lambda>c. \<not> is_space c) s \<Longrightarrow> trim s = s"
  using dropWhile_none [of is_space s] dropWhile_none [of is_space "rev s"]
  by (simp add: trim_def)

lemma Sku_Inr_iff:
  "Sku v = Inr w \<longleftrightarrow> v \<noteq> [] \<and> list_all is_sku_char v \<and> w = to_upper v"
proof -
  have "v \<noteq> [] \<Longrightarrow> list_all is_sku_char v \<Longrightarrow> \<not> is_blank v"
    using list_all_not_space_trim [of v] is_sku_char_not_space
    by (auto simp: is_blank_def list_all_iff)
  then show ?thesis by (auto simp: Sku_def)
qed

end
