(* ===== verification/Quantities.thy ===== *)
theory Quantities
  imports Prelude
begin

text \<open>
  Units of measure and quantities: src/src/domain/valueObjects/UnitOfMeasure.ts and Quantity.ts,
  src/src/domain/enums/UomCategory.ts and src/src/domain/services/StandardUnits.ts. A constructor
  that validates its arguments is a function into \<open>'a result\<close>.
\<close>

section \<open>Units\<close>

datatype uom_category = Discrete | Weight | Volume

record unit_of_measure =
  u_name :: string
  u_abbreviation :: string
  u_category :: uom_category

definition UnitOfMeasure :: "string \<Rightarrow> string \<Rightarrow> uom_category \<Rightarrow> unit_of_measure result" where
  "UnitOfMeasure name abbreviation category =
     (if is_blank name \<or> is_blank abbreviation
      then Inl (Error ''UnitOfMeasure name and abbreviation must be non-empty.'' [])
      else Inr \<lparr>u_name = name, u_abbreviation = abbreviation, u_category = category\<rparr>)"

definition unit_equals :: "unit_of_measure \<Rightarrow> unit_of_measure \<Rightarrow> bool" where
  "unit_equals u v \<longleftrightarrow> u_name u = u_name v \<and> u_category u = u_category v"

definition isCompatibleWith :: "unit_of_measure \<Rightarrow> unit_of_measure \<Rightarrow> bool" where
  "isCompatibleWith u v \<longleftrightarrow> u_category u = u_category v"

definition each :: unit_of_measure where
  "each = \<lparr>u_name = ''Each'', u_abbreviation = ''ea'', u_category = Discrete\<rparr>"

definition dozen :: unit_of_measure where
  "dozen = \<lparr>u_name = ''Dozen'', u_abbreviation = ''dz'', u_category = Discrete\<rparr>"

definition gram :: unit_of_measure where
  "gram = \<lparr>u_name = ''Gram'', u_abbreviation = ''g'', u_category = Weight\<rparr>"

definition kilogram :: unit_of_measure where
  "kilogram = \<lparr>u_name = ''Kilogram'', u_abbreviation = ''kg'', u_category = Weight\<rparr>"

definition ounce :: unit_of_measure where
  "ounce = \<lparr>u_name = ''Ounce'', u_abbreviation = ''oz'', u_category = Weight\<rparr>"

definition pound :: unit_of_measure where
  "pound = \<lparr>u_name = ''Pound'', u_abbreviation = ''lb'', u_category = Weight\<rparr>"

definition milliliter :: unit_of_measure where
  "milliliter = \<lparr>u_name = ''Milliliter'', u_abbreviation = ''ml'', u_category = Volume\<rparr>"

definition liter :: unit_of_measure where
  "liter = \<lparr>u_name = ''Liter'', u_abbreviation = ''l'', u_category = Volume\<rparr>"

definition fluidOunce :: unit_of_measure where
  "fluidOunce = \<lparr>u_name = ''Fluid Ounce'', u_abbreviation = ''fl oz'', u_category = Volume\<rparr>"

definition gallon :: unit_of_measure where
  "gallon = \<lparr>u_name = ''Gallon'', u_abbreviation = ''gal'', u_category = Volume\<rparr>"

definition weightFactorToGrams :: "unit_of_measure \<Rightarrow> number result" where
  "weightFactorToGrams u =
     (if u_name u = ''Gram'' then Inr 1
      else if u_name u = ''Kilogram'' then Inr 1000
      else if u_name u = ''Ounce'' then Inr (283495 / 10000)
      else if u_name u = ''Pound'' then Inr (453592 / 1000)
      else Inl (Error ''Unknown weight unit: {}'' [S (u_name u)]))"

definition volumeFactorToMilliliters :: "unit_of_measure \<Rightarrow> number result" where
  "volumeFactorToMilliliters u =
     (if u_name u = ''Milliliter'' then Inr 1
      else if u_name u = ''Liter'' then Inr 1000
      else if u_name u = ''Fluid Ounce'' then Inr (295735 / 10000)
      else if u_name u = ''Gallon'' then Inr (378541 / 100)
      else Inl (Error ''Unknown volume unit: {}'' [S (u_name u)]))"

lemmas standard_unit_defs [model_defs] = each_def dozen_def gram_def kilogram_def ounce_def pound_def
  milliliter_def liter_def fluidOunce_def gallon_def

lemma unit_equals_refl [simp]: "unit_equals u u"
  by (simp add: unit_equals_def)

lemma unit_equals_sym: "unit_equals u v \<longleftrightarrow> unit_equals v u"
  by (auto simp: unit_equals_def)

lemma unit_equals_trans: "unit_equals u v \<Longrightarrow> unit_equals v w \<Longrightarrow> unit_equals u w"
  by (simp add: unit_equals_def)

lemma unit_equals_compatible: "unit_equals u v \<Longrightarrow> isCompatibleWith u v"
  by (simp add: unit_equals_def isCompatibleWith_def)

lemma isCompatibleWith_refl [simp]: "isCompatibleWith u u"
  by (simp add: isCompatibleWith_def)

lemma weightFactor_cong: "u_name u = u_name v \<Longrightarrow> weightFactorToGrams u = weightFactorToGrams v"
  by (simp add: weightFactorToGrams_def)

lemma volumeFactor_cong:
  "u_name u = u_name v \<Longrightarrow> volumeFactorToMilliliters u = volumeFactorToMilliliters v"
  by (simp add: volumeFactorToMilliliters_def)

lemma weightFactor_pos: "weightFactorToGrams u = Inr f \<Longrightarrow> 0 < f"
  by (auto simp: weightFactorToGrams_def split: if_splits)

lemma volumeFactor_pos: "volumeFactorToMilliliters u = Inr f \<Longrightarrow> 0 < f"
  by (auto simp: volumeFactorToMilliliters_def split: if_splits)

section \<open>Quantities\<close>

record quantity =
  amount :: number
  qunit :: unit_of_measure

definition Quantity :: "number \<Rightarrow> unit_of_measure \<Rightarrow> quantity result" where
  "Quantity a u =
     (if a < 0 then Inl (Error ''Quantity amount cannot be negative.'' [])
      else Inr \<lparr>amount = a, qunit = u\<rparr>)"

definition assertSameUnit :: "quantity \<Rightarrow> quantity \<Rightarrow> unit result" where
  "assertSameUnit p q =
     (if unit_equals (qunit p) (qunit q) then Inr ()
      else Inl (Error ''Cannot operate on different units: {} vs {}''
                 [S (u_name (qunit p)), S (u_name (qunit q))]))"

definition q_add :: "quantity \<Rightarrow> quantity \<Rightarrow> quantity result" where
  "q_add p q = result_bind (assertSameUnit p q) (\<lambda>_. Quantity (amount p + amount q) (qunit p))"

definition q_subtract :: "quantity \<Rightarrow> quantity \<Rightarrow> quantity result" where
  "q_subtract p q = result_bind (assertSameUnit p q) (\<lambda>_.
     let result = amount p - amount q
     in if result < 0 then Inl (Error ''Resulting quantity would be negative.'' [])
        else Quantity result (qunit p))"

definition multiplyBy :: "quantity \<Rightarrow> number \<Rightarrow> quantity result" where
  "multiplyBy p factor = Quantity (amount p * factor) (qunit p)"

definition toBaseInteger :: "quantity \<Rightarrow> number result" where
  "toBaseInteger p =
     (if u_category (qunit p) \<noteq> Discrete
      then Inl (Error ''Use toBaseInteger() only for discrete quantities.'' [])
      else if \<not> is_integer (amount p)
      then Inl (Error ''Discrete quantity must be a whole number; got {} {}.''
                 [N (amount p), S (u_abbreviation (qunit p))])
      else Inr (amount p))"

definition q_equals :: "quantity \<Rightarrow> quantity \<Rightarrow> bool" where
  "q_equals p q \<longleftrightarrow> amount p = amount q \<and> unit_equals (qunit p) (qunit q)"

definition q_each :: "number \<Rightarrow> quantity" where
  "q_each a = \<lparr>amount = a, qunit = each\<rparr>"

lemma q_each_sel [simp]: "amount (q_each a) = a" "qunit (q_each a) = each"
  by (simp_all add: q_each_def)

lemma q_each_eq_iff [simp]: "q_each a = q_each b \<longleftrightarrow> a = b"
  by (simp add: q_each_def)

lemma Quantity_Inr_iff: "Quantity a u = Inr q \<longleftrightarrow> 0 \<le> a \<and> q = \<lparr>amount = a, qunit = u\<rparr>"
  by (auto simp: Quantity_def)

lemma Quantity_each: "0 \<le> a \<Longrightarrow> Quantity a each = Inr (q_each a)"
  by (simp add: Quantity_def q_each_def)

text \<open>A quantity built by the constructor is never negative; every operation keeps this.\<close>

definition q_ok :: "quantity \<Rightarrow> bool" where
  "q_ok q \<longleftrightarrow> 0 \<le> amount q"

lemma q_ok_each [simp]: "q_ok (q_each a) \<longleftrightarrow> 0 \<le> a"
  by (simp add: q_ok_def)

lemma q_add_Inr_iff:
  "q_add p q = Inr r \<longleftrightarrow> unit_equals (qunit p) (qunit q) \<and> 0 \<le> amount p + amount q
     \<and> r = \<lparr>amount = amount p + amount q, qunit = qunit p\<rparr>"
  by (auto simp: q_add_def assertSameUnit_def Quantity_Inr_iff)

lemma q_subtract_Inr_iff:
  "q_subtract p q = Inr r \<longleftrightarrow> unit_equals (qunit p) (qunit q) \<and> amount q \<le> amount p
     \<and> r = \<lparr>amount = amount p - amount q, qunit = qunit p\<rparr>"
  by (auto simp: q_subtract_def assertSameUnit_def Quantity_Inr_iff Let_def)

lemma q_add_each:
  "0 \<le> a + b \<Longrightarrow> q_add (q_each a) (q_each b) = Inr (q_each (a + b))"
  by (simp add: q_add_Inr_iff q_each_def)

lemma q_subtract_each:
  "b \<le> a \<Longrightarrow> q_subtract (q_each a) (q_each b) = Inr (q_each (a - b))"
  by (simp add: q_subtract_Inr_iff q_each_def)

lemma q_ok_results:
  "Quantity a u = Inr r \<Longrightarrow> q_ok r"
  "q_add p q = Inr r \<Longrightarrow> q_ok r"
  "q_subtract p q = Inr r \<Longrightarrow> q_ok r"
  "multiplyBy p f = Inr r \<Longrightarrow> q_ok r"
  by (auto simp: q_ok_def Quantity_Inr_iff q_add_Inr_iff q_subtract_Inr_iff multiplyBy_def)

lemma q_subtract_add:
  "q_add p q = Inr r \<Longrightarrow> 0 \<le> amount p \<Longrightarrow> q_subtract r q = Inr p"
  by (auto simp: q_add_Inr_iff q_subtract_Inr_iff)

end
