(* ===== verification/UnitConversion.thy ===== *)
theory UnitConversion
  imports Quantities Identifiers
begin

text \<open>
  Conversion between the units of a product: src/src/domain/entities/ConversionRule.ts,
  src/src/domain/entities/ProductUomConfiguration.ts and src/src/domain/services/UomConverter.ts.
  The random identifier of a new rule is an argument.
\<close>

section \<open>Configuration\<close>

record conversion_rule =
  rule_id :: ident
  rule_unit :: unit_of_measure
  rule_factor :: number
  rule_label :: "string option"

definition ConversionRule ::
    "ident \<Rightarrow> unit_of_measure \<Rightarrow> number \<Rightarrow> string option \<Rightarrow> conversion_rule result" where
  "ConversionRule i u f l =
     (if f \<le> 0 then Inl (Error ''Factor to base must be positive.'' [])
      else Inr \<lparr>rule_id = i, rule_unit = u, rule_factor = f, rule_label = l\<rparr>)"

record uom_config =
  cfg_sku :: string
  baseUnit :: unit_of_measure
  conversionRules :: "conversion_rule list"
  purchaseUnit_opt :: "unit_of_measure option"
  saleUnit_opt :: "unit_of_measure option"

definition ProductUomConfiguration :: "string \<Rightarrow> unit_of_measure \<Rightarrow> uom_config" where
  "ProductUomConfiguration sku b =
     \<lparr>cfg_sku = sku, baseUnit = b, conversionRules = [], purchaseUnit_opt = None, saleUnit_opt = None\<rparr>"

definition find_rule :: "uom_config \<Rightarrow> unit_of_measure \<Rightarrow> conversion_rule option" where
  "find_rule cfg u = find (\<lambda>r. unit_equals (rule_unit r) u) (conversionRules cfg)"

definition addConversionRule ::
    "ident \<Rightarrow> unit_of_measure \<Rightarrow> number \<Rightarrow> string option \<Rightarrow> (uom_config, unit) oper" where
  "addConversionRule newId u f l = op_get (\<lambda>cfg.
     op_seq (op_reject (\<not> isCompatibleWith u (baseUnit cfg))
       (Error ''Unit {} is not compatible with base unit {}.''
          [S (u_name u), S (u_name (baseUnit cfg))]))
     (op_seq (op_reject (unit_equals u (baseUnit cfg))
       (Error ''Cannot add a conversion rule for the base unit itself.'' []))
     (op_seq (op_reject (find_rule cfg u \<noteq> None)
       (Error ''A conversion rule for {} already exists.'' [S (u_name u)]))
     (op_bind (op_lift (result_bind (ConversionRuleId newId) (\<lambda>i. ConversionRule i u f l))) (\<lambda>r.
       op_modify (\<lambda>c. c\<lparr>conversionRules := conversionRules c @ [r]\<rparr>))))))"

definition removeConversionRule :: "unit_of_measure \<Rightarrow> (uom_config, unit) oper" where
  "removeConversionRule u = op_modify (\<lambda>c.
     c\<lparr>conversionRules := filter (\<lambda>r. \<not> unit_equals (rule_unit r) u) (conversionRules c)\<rparr>)"

definition assertUnitIsKnown :: "uom_config \<Rightarrow> unit_of_measure \<Rightarrow> unit result" where
  "assertUnitIsKnown cfg u =
     (if unit_equals u (baseUnit cfg) then Inr ()
      else if list_ex (\<lambda>r. unit_equals (rule_unit r) u) (conversionRules cfg) then Inr ()
      else Inl (Error ''Unit {} has no conversion rule defined.'' [S (u_name u)]))"

definition setPurchaseUnit :: "unit_of_measure \<Rightarrow> (uom_config, unit) oper" where
  "setPurchaseUnit u = op_get (\<lambda>cfg. op_seq (op_lift (assertUnitIsKnown cfg u))
     (op_modify (\<lambda>c. c\<lparr>purchaseUnit_opt := Some u\<rparr>)))"

definition setSaleUnit :: "unit_of_measure \<Rightarrow> (uom_config, unit) oper" where
  "setSaleUnit u = op_get (\<lambda>cfg. op_seq (op_lift (assertUnitIsKnown cfg u))
     (op_modify (\<lambda>c. c\<lparr>saleUnit_opt := Some u\<rparr>)))"

definition purchaseUnit :: "uom_config \<Rightarrow> unit_of_measure" where
  "purchaseUnit cfg = (case purchaseUnit_opt cfg of None \<Rightarrow> baseUnit cfg | Some u \<Rightarrow> u)"

definition saleUnit :: "uom_config \<Rightarrow> unit_of_measure" where
  "saleUnit cfg = (case saleUnit_opt cfg of None \<Rightarrow> baseUnit cfg | Some u \<Rightarrow> u)"

definition factorToBase :: "uom_config \<Rightarrow> unit_of_measure \<Rightarrow> number result" where
  "factorToBase cfg u =
     (if unit_equals u (baseUnit cfg) then Inr 1
      else if u_category u = Weight
      then result_bind (weightFactorToGrams u) (\<lambda>f.
             result_bind (weightFactorToGrams (baseUnit cfg)) (\<lambda>b. Inr (f / b)))
      else if u_category u = Volume
      then result_bind (volumeFactorToMilliliters u) (\<lambda>f.
             result_bind (volumeFactorToMilliliters (baseUnit cfg)) (\<lambda>b. Inr (f / b)))
      else case find_rule cfg u of Some r \<Rightarrow> Inr (rule_factor r)
        | None \<Rightarrow> Inl (Error ''No conversion rule found for {} -> {}.''
                     [S (u_name u), S (u_name (baseUnit cfg))]))"

section \<open>Conversion\<close>

definition category_arg :: "uom_category \<Rightarrow> arg" where
  "category_arg c = S (case c of Discrete \<Rightarrow> ''discrete'' | Weight \<Rightarrow> ''weight'' | Volume \<Rightarrow> ''volume'')"

definition convert :: "quantity \<Rightarrow> unit_of_measure \<Rightarrow> uom_config \<Rightarrow> quantity result" where
  "convert q toUnit cfg =
     (if unit_equals (qunit q) toUnit then Inr q
      else if \<not> isCompatibleWith (qunit q) toUnit
      then Inl (Error ''Cannot convert {} to {}.''
             [category_arg (u_category (qunit q)), category_arg (u_category toUnit)])
      else result_bind (factorToBase cfg (qunit q)) (\<lambda>f. let inBase = amount q * f in
           result_bind (factorToBase cfg toUnit) (\<lambda>targetFactor.
           Quantity (inBase / targetFactor) toUnit)))"

definition toBaseUnit :: "quantity \<Rightarrow> uom_config \<Rightarrow> quantity result" where
  "toBaseUnit q cfg = convert q (baseUnit cfg) cfg"

definition convertCost ::
    "number \<Rightarrow> unit_of_measure \<Rightarrow> unit_of_measure \<Rightarrow> uom_config \<Rightarrow> number result" where
  "convertCost cost perUnit targetUnit cfg =
     (if unit_equals perUnit targetUnit then Inr cost
      else result_bind (factorToBase cfg perUnit) (\<lambda>p.
           result_bind (factorToBase cfg targetUnit) (\<lambda>t.
             let ratio = p / t in Inr (js_round (cost / ratio)))))"

section \<open>Invariant of a configuration\<close>

definition rules_ok :: "unit_of_measure \<Rightarrow> conversion_rule list \<Rightarrow> bool" where
  "rules_ok b rs \<longleftrightarrow>
     (\<forall>r \<in> set rs. 0 < rule_factor r \<and> isCompatibleWith (rule_unit r) b \<and> \<not> unit_equals (rule_unit r) b)
     \<and> distinct (map (u_name \<circ> rule_unit) rs)"

definition uom_ok :: "uom_config \<Rightarrow> bool" where
  "uom_ok cfg \<longleftrightarrow> rules_ok (baseUnit cfg) (conversionRules cfg)"

lemma find_rule_Some: "find_rule cfg u = Some r \<Longrightarrow> r \<in> set (conversionRules cfg) \<and> unit_equals (rule_unit r) u"
  by (auto simp: find_rule_def find_Some_iff)

lemma find_rule_None: "find_rule cfg u = None \<longleftrightarrow> (\<forall>r \<in> set (conversionRules cfg). \<not> unit_equals (rule_unit r) u)"
  by (auto simp: find_rule_def find_None_iff)

lemma find_rule_cong: "unit_equals u v \<Longrightarrow> find_rule cfg u = find_rule cfg v"
  by (simp add: find_rule_def unit_equals_def)

lemma uom_ok_new [simp]: "uom_ok (ProductUomConfiguration sku b)"
  by (simp add: uom_ok_def rules_ok_def ProductUomConfiguration_def)

lemma uom_ok_add:
  assumes "uom_ok cfg" and "addConversionRule i u f l cfg = (res, cfg')"
  shows "uom_ok cfg'"
  using assms
  by (auto simp: addConversionRule_def oper_simps ConversionRule_def uom_ok_def rules_ok_def
      find_rule_None unit_equals_def isCompatibleWith_def result_bind_Inr_iff
      split: if_splits sum.splits) blast

lemma keeps_uom_ok_add [keeps_intros]: "keeps uom_ok (addConversionRule i u f l)"
  unfolding keeps_def by (metis uom_ok_add surjective_pairing)

lemma keeps_uom_ok_remove [keeps_intros]: "keeps uom_ok (removeConversionRule u)"
  unfolding removeConversionRule_def
  by (rule keeps_intros) (auto simp: uom_ok_def rules_ok_def distinct_map_filter)

lemma keeps_uom_ok_set_units [keeps_intros]:
  "keeps uom_ok (setPurchaseUnit u)" "keeps uom_ok (setSaleUnit u)"
  unfolding setPurchaseUnit_def setSaleUnit_def
  by (auto intro!: keeps_intros simp: uom_ok_def)

section \<open>Factors\<close>

lemma factorToBase_cong:
  assumes "unit_equals u v"
  shows "factorToBase cfg u = factorToBase cfg v"
proof -
  from assms have "u_name u = u_name v" and "u_category u = u_category v"
    and "unit_equals u (baseUnit cfg) = unit_equals v (baseUnit cfg)"
    by (simp_all add: unit_equals_def)
  moreover have "weightFactorToGrams u = weightFactorToGrams v"
    and "volumeFactorToMilliliters u = volumeFactorToMilliliters v"
    and "find_rule cfg u = find_rule cfg v"
    using assms by (simp_all add: weightFactorToGrams_def volumeFactorToMilliliters_def
        find_rule_def unit_equals_def)
  ultimately show ?thesis by (simp only: factorToBase_def)
qed

lemma factorToBase_base [simp]: "unit_equals u (baseUnit cfg) \<Longrightarrow> factorToBase cfg u = Inr 1"
  by (simp add: factorToBase_def)

lemma factorToBase_pos:
  assumes "uom_ok cfg" and "factorToBase cfg u = Inr f"
  shows "0 < f"
proof (cases "unit_equals u (baseUnit cfg)")
  case True
  with assms show ?thesis by simp
next
  case False
  show ?thesis
  proof (cases "u_category u")
    case Discrete
    with False assms(2) obtain r where "find_rule cfg u = Some r" and "f = rule_factor r"
      by (auto simp: factorToBase_def split: option.splits)
    with assms(1) show ?thesis by (auto simp: uom_ok_def rules_ok_def dest: find_rule_Some)
  next
    case Weight
    with False assms(2) obtain g h where "weightFactorToGrams u = Inr g"
      and "weightFactorToGrams (baseUnit cfg) = Inr h" and "f = g / h"
      by (auto simp: factorToBase_def result_bind_Inr_iff)
    then show ?thesis by (simp add: weightFactor_pos)
  next
    case Volume
    with False assms(2) obtain g h where "volumeFactorToMilliliters u = Inr g"
      and "volumeFactorToMilliliters (baseUnit cfg) = Inr h" and "f = g / h"
      by (auto simp: factorToBase_def result_bind_Inr_iff)
    then show ?thesis by (simp add: volumeFactor_pos)
  qed
qed

lemma convert_Inr_iff:
  assumes "uom_ok cfg" and "\<not> unit_equals (qunit q) u"
  shows "convert q u cfg = Inr r \<longleftrightarrow> isCompatibleWith (qunit q) u \<and> 0 \<le> amount q \<and>
    (\<exists>f g. factorToBase cfg (qunit q) = Inr f \<and> factorToBase cfg u = Inr g
       \<and> r = \<lparr>amount = amount q * f / g, qunit = u\<rparr>)"
proof -
  have "0 \<le> amount q * f / g \<longleftrightarrow> 0 \<le> amount q"
    if "factorToBase cfg (qunit q) = Inr f" "factorToBase cfg u = Inr g" for f g
    using factorToBase_pos [OF assms(1)] that
    by (metis divide_pos_pos less_le_not_le linorder_not_less mult_neg_pos mult_nonneg_nonneg
        divide_neg_pos divide_nonneg_pos)
  with assms(2) show ?thesis
    by (auto simp: convert_def result_bind_Inr_iff Quantity_Inr_iff)
qed

text \<open>What a conversion keeps: the amount in the base unit.\<close>

lemma convert_base_amount:
  assumes "uom_ok cfg" and "convert q u cfg = Inr r" and "factorToBase cfg (qunit q) = Inr f"
  shows "\<exists>g. factorToBase cfg (qunit r) = Inr g \<and> amount r * g = amount q * f"
proof (cases "unit_equals (qunit q) u")
  case True
  with assms show ?thesis by (simp add: convert_def)
next
  case False
  with assms obtain g where g: "factorToBase cfg u = Inr g" and r: "r = \<lparr>amount = amount q * f / g, qunit = u\<rparr>"
    by (auto simp: convert_Inr_iff)
  from g assms(1) have "0 < g" by (simp add: factorToBase_pos)
  with g r show ?thesis by simp
qed

section \<open>Properties\<close>

text \<open>
  A conversion loses nothing: converting the result back to the unit it came from gives a
  quantity equal to the original one.
\<close>

theorem convert_roundtrip:
  assumes "uom_ok cfg" and "convert q u cfg = Inr r"
  shows "\<exists>q'. convert r (qunit q) cfg = Inr q' \<and> q_equals q' q"
proof (cases "unit_equals (qunit q) u")
  case True
  with assms have "r = q" by (simp add: convert_def)
  then show ?thesis by (simp add: convert_def q_equals_def)
next
  case False
  with assms obtain f g where f: "factorToBase cfg (qunit q) = Inr f"
    and g: "factorToBase cfg u = Inr g" and r: "r = \<lparr>amount = amount q * f / g, qunit = u\<rparr>"
    and pos: "0 \<le> amount q" and comp: "isCompatibleWith (qunit q) u"
    by (auto simp: convert_Inr_iff)
  from assms(1) f g have "0 < f" and "0 < g" by (simp_all add: factorToBase_pos)
  moreover have "\<not> unit_equals u (qunit q)" using False by (simp add: unit_equals_sym)
  ultimately have "convert r (qunit q) cfg = Inr \<lparr>amount = amount q, qunit = qunit q\<rparr>"
    using assms(1) f g r pos comp by (subst convert_Inr_iff) (auto simp: isCompatibleWith_def)
  then show ?thesis by (auto simp: q_equals_def)
qed

definition dozen_config :: uom_config where
  "dozen_config = snd (addConversionRule ''r1'' dozen 12 None (ProductUomConfiguration ''WIDGET-1'' each))"

lemma not_blank_r1 [simp]: "\<not> is_blank ''r1''"
  by (simp add: is_blank_def trim_def is_space_def)

lemma dozen_config_eval: "dozen_config =
    \<lparr>cfg_sku = ''WIDGET-1'', baseUnit = each,
     conversionRules = [\<lparr>rule_id = ''r1'', rule_unit = dozen, rule_factor = 12, rule_label = None\<rparr>],
     purchaseUnit_opt = None, saleUnit_opt = None\<rparr>"
  by (simp add: dozen_config_def addConversionRule_def oper_simps ProductUomConfiguration_def
      ConversionRule_def ConversionRuleId_def find_rule_def isCompatibleWith_def unit_equals_def
      each_def dozen_def)

lemma dozen_config_ok: "uom_ok dozen_config"
  by (simp add: dozen_config_def keepsD_snd [OF keeps_uom_ok_add])

lemma convert_two_dozen:
  "convert \<lparr>amount = 2, qunit = dozen\<rparr> each dozen_config = Inr \<lparr>amount = 24, qunit = each\<rparr>"
  by (simp add: dozen_config_eval convert_def factorToBase_def find_rule_def unit_equals_def
      isCompatibleWith_def Quantity_def each_def dozen_def)

theorem convert_roundtrip_witness:
  "\<exists>q'. convert \<lparr>amount = 24, qunit = each\<rparr> dozen dozen_config = Inr q'
     \<and> q_equals q' \<lparr>amount = 2, qunit = dozen\<rparr>"
  using convert_roundtrip [OF dozen_config_ok convert_two_dozen] by simp

text \<open>
  Converting a unit cost keeps the cost of a given amount of goods up to half a cent per
  target unit: the converted cost differs by at most 1/2 from the cost divided by the number of
  target units in one source unit.
\<close>

theorem convertCost_within_half_cent:
  assumes "uom_ok cfg" and "convertCost cost u v cfg = Inr c"
    and "factorToBase cfg u = Inr f" and "factorToBase cfg v = Inr g"
  shows "\<bar>c - cost * g / f\<bar> \<le> 1 / 2"
proof (cases "unit_equals u v")
  case True
  with assms have "c = cost" and "f = g"
    using factorToBase_cong [OF True, of cfg] by (simp_all add: convertCost_def)
  moreover from assms have "0 < g" by (simp add: factorToBase_pos)
  ultimately show ?thesis by simp
next
  case False
  with assms have "c = js_round (cost * g / f)"
    by (simp add: convertCost_def)
  then show ?thesis using js_round_bounds [of "cost * g / f"] by linarith
qed

theorem convertCost_within_half_cent_witness:
  "\<bar>(121 :: number) - 1451 * 1 / 12\<bar> \<le> 1 / 2"
proof -
  have "convertCost 1451 dozen each dozen_config = Inr 121" "factorToBase dozen_config dozen = Inr 12"
    "factorToBase dozen_config each = Inr 1"
    by (simp_all add: dozen_config_eval convertCost_def factorToBase_def find_rule_def unit_equals_def
        each_def dozen_def js_round_def)
  then show ?thesis by (rule convertCost_within_half_cent [OF dozen_config_ok])
qed

text \<open>
  A conversion rule for a weight unit is never used: whatever rule is added for a weight
  unit, every factor of the configuration is what it was, so that a unit outside the four standard
  ones keeps throwing although \<open>setPurchaseUnit\<close> now accepts it.
\<close>

theorem weight_rules_are_ignored:
  assumes "u_category u = Weight" and "addConversionRule i u f l cfg = (Inr (), cfg')"
  shows "factorToBase cfg' w = factorToBase cfg w \<and> fst (setPurchaseUnit u cfg') = Inr ()"
proof -
  have cat: "u_category (baseUnit cfg) = Weight"
    and cfg': "cfg' = cfg\<lparr>conversionRules := conversionRules cfg @
       [\<lparr>rule_id = i, rule_unit = u, rule_factor = f, rule_label = l\<rparr>]\<rparr>"
    using assms
    by (auto simp: addConversionRule_def oper_simps ConversionRule_def ConversionRuleId_def
        isCompatibleWith_def result_bind_def make_id_Inr_iff split: if_splits sum.splits)
  have "find_rule cfg' w = find_rule cfg w" if "u_category w = Discrete"
    using that assms(1) by (simp add: cfg' find_rule_def unit_equals_def find_append split: option.split)
  then have "factorToBase cfg' w = factorToBase cfg w"
    by (cases "u_category w") (simp_all add: factorToBase_def cfg' split: option.split)
  moreover have "fst (setPurchaseUnit u cfg') = Inr ()"
    by (simp add: setPurchaseUnit_def oper_simps assertUnitIsKnown_def cfg')
  ultimately show ?thesis ..
qed

theorem weight_rules_are_ignored_witness:
  "\<exists>cfg'. fst (setPurchaseUnit \<lparr>u_name = ''Sack'', u_abbreviation = ''sk'', u_category = Weight\<rparr> cfg') = Inr ()
    \<and> factorToBase cfg' \<lparr>u_name = ''Sack'', u_abbreviation = ''sk'', u_category = Weight\<rparr>
      = Inl (Error ''Unknown weight unit: {}'' [S ''Sack''])"
proof -
  let ?sack = "\<lparr>u_name = ''Sack'', u_abbreviation = ''sk'', u_category = Weight\<rparr>"
  let ?cfg = "ProductUomConfiguration ''RICE'' kilogram"
  obtain cfg' where add: "addConversionRule ''r1'' ?sack 25 None ?cfg = (Inr (), cfg')"
    by (simp add: addConversionRule_def oper_simps ProductUomConfiguration_def ConversionRule_def
        ConversionRuleId_def find_rule_def isCompatibleWith_def unit_equals_def kilogram_def)
  have "factorToBase ?cfg ?sack = Inl (Error ''Unknown weight unit: {}'' [S ''Sack''])"
    by (simp add: factorToBase_def ProductUomConfiguration_def unit_equals_def kilogram_def
        weightFactorToGrams_def)
  with weight_rules_are_ignored [OF _ add, of ?sack] show ?thesis by auto
qed

end
