(* ===== verification/Inventory.thy ===== *)
theory Inventory
  imports Quantities Identifiers
begin

text \<open>
  The stock aggregate of src/src/domain/entities/InventoryItem.ts with its events
  (src/src/domain/events/InventoryEvents.ts): physical stock, reservations and incoming stock of
  one SKU at one location, under a version counter. Each method is an operation on the aggregate;
  \<open>now\<close> is the value of \<open>new Date()\<close> in the event it pushes.
\<close>

section \<open>State\<close>

datatype inventory_event =
    InventoryDecremented string string ident number string time
  | LowStockAlertEvent string string number time
  | InventoryReconciledEvent string string number number number time
  | ShopifyStockSyncRequested string string string string time

record inventory_item =
  iid :: ident
  isku :: string
  ilocationId :: ident
  on_hand :: quantity
  allocated :: quantity
  inTransit :: quantity
  iversion :: int
  ievents :: "inventory_event list"

definition InventoryItem ::
    "ident \<Rightarrow> string \<Rightarrow> ident \<Rightarrow> quantity \<Rightarrow> quantity \<Rightarrow> quantity \<Rightarrow> int \<Rightarrow> inventory_item" where
  "InventoryItem i sku loc q a t v =
     \<lparr>iid = i, isku = sku, ilocationId = loc, on_hand = q, allocated = a, inTransit = t,
      iversion = v, ievents = []\<rparr>"

definition inventory_createNew :: "string \<Rightarrow> string \<Rightarrow> string \<Rightarrow> inventory_item result" where
  "inventory_createNew i sku loc =
     result_bind (InventoryItemId i) (\<lambda>i'. result_bind (Sku sku) (\<lambda>s. result_bind (LocationId loc) (\<lambda>l.
     result_bind (Quantity 0 each) (\<lambda>zero. Inr (InventoryItem i' s l zero zero zero 1)))))"

definition available :: "inventory_item \<Rightarrow> quantity" where
  "available s = (let v = amount (on_hand s) - amount (allocated s) + amount (inTransit s)
     in q_each (if v < 0 then 0 else v))"

definition incrementVersion :: "(inventory_item, unit) oper" where
  "incrementVersion = op_modify (\<lambda>s. s\<lparr>iversion := iversion s + 1\<rparr>)"

section \<open>Operations\<close>

definition receiveStock :: "quantity \<Rightarrow> (inventory_item, unit) oper" where
  "receiveStock a = op_get (\<lambda>s.
     op_bind (op_lift (q_add (on_hand s) a)) (\<lambda>q.
     op_seq (op_modify (\<lambda>s. s\<lparr>on_hand := q\<rparr>)) incrementVersion))"

definition dispatchStock :: "time \<Rightarrow> quantity \<Rightarrow> (inventory_item, unit) oper" where
  "dispatchStock now a = op_get (\<lambda>s.
     op_seq (op_reject (amount (on_hand s) < amount a)
       (InsufficientStockError (isku s) (amount a) (amount (on_hand s))))
     (op_bind (op_lift (q_subtract (on_hand s) a)) (\<lambda>q.
     op_seq (op_modify (\<lambda>s. s\<lparr>on_hand := q\<rparr>))
     (op_seq incrementVersion
     (op_modify (\<lambda>s. if amount (on_hand s) < 10
        then s\<lparr>ievents := ievents s @
          [LowStockAlertEvent (isku s) (ilocationId s) (amount (on_hand s)) now]\<rparr>
        else s))))))"

definition allocateStock :: "quantity \<Rightarrow> (inventory_item, unit) oper" where
  "allocateStock a = op_get (\<lambda>s.
     op_seq (op_reject (amount (available s) < amount a)
       (InsufficientAvailableStockError (isku s) (amount a) (amount (available s))))
     (op_bind (op_lift (q_add (allocated s) a)) (\<lambda>q.
     op_seq (op_modify (\<lambda>s. s\<lparr>allocated := q\<rparr>)) incrementVersion)))"

definition releaseAllocation :: "quantity \<Rightarrow> (inventory_item, unit) oper" where
  "releaseAllocation a = op_get (\<lambda>s.
     op_seq (op_reject (amount (allocated s) < amount a)
       (Error ''Cannot release allocation of {} because only {} is allocated.''
          [N (amount a), N (amount (allocated s))]))
     (op_bind (op_lift (q_subtract (allocated s) a)) (\<lambda>q.
     op_seq (op_modify (\<lambda>s. s\<lparr>allocated := q\<rparr>)) incrementVersion)))"

definition fulfillAllocation :: "quantity \<Rightarrow> (inventory_item, unit) oper" where
  "fulfillAllocation a = op_get (\<lambda>s.
     op_seq (op_reject (amount (allocated s) < amount a)
       (Error ''Cannot fulfill allocation of {} because only {} is allocated.''
          [N (amount a), N (amount (allocated s))]))
     (op_seq (op_reject (amount (on_hand s) < amount a)
       (InsufficientStockError (isku s) (amount a) (amount (on_hand s))))
     (op_bind (op_lift (q_subtract (allocated s) a)) (\<lambda>q.
     op_seq (op_modify (\<lambda>s. s\<lparr>allocated := q\<rparr>))
     (op_bind (op_lift (q_subtract (on_hand s) a)) (\<lambda>p.
     op_seq (op_modify (\<lambda>s. s\<lparr>on_hand := p\<rparr>)) incrementVersion))))))"

definition createInTransit :: "quantity \<Rightarrow> (inventory_item, unit) oper" where
  "createInTransit a = op_get (\<lambda>s.
     op_bind (op_lift (q_add (inTransit s) a)) (\<lambda>q.
     op_seq (op_modify (\<lambda>s. s\<lparr>inTransit := q\<rparr>)) incrementVersion))"

definition receiveInTransit :: "quantity \<Rightarrow> (inventory_item, unit) oper" where
  "receiveInTransit a = op_get (\<lambda>s.
     op_seq (op_reject (amount (inTransit s) < amount a)
       (Error ''Cannot receive in transit of {} because only {} is in transit.''
          [N (amount a), N (amount (inTransit s))]))
     (op_bind (op_lift (q_subtract (inTransit s) a)) (\<lambda>q.
     op_seq (op_modify (\<lambda>s. s\<lparr>inTransit := q\<rparr>))
     (op_bind (op_lift (q_add (on_hand s) a)) (\<lambda>p.
     op_seq (op_modify (\<lambda>s. s\<lparr>on_hand := p\<rparr>)) incrementVersion)))))"

definition cancelInTransit :: "quantity \<Rightarrow> (inventory_item, unit) oper" where
  "cancelInTransit a = op_get (\<lambda>s.
     op_seq (op_reject (amount (inTransit s) < amount a)
       (Error ''Cannot cancel in transit of {} because only {} is in transit.''
          [N (amount a), N (amount (inTransit s))]))
     (op_bind (op_lift (q_subtract (inTransit s) a)) (\<lambda>q.
     op_seq (op_modify (\<lambda>s. s\<lparr>inTransit := q\<rparr>)) incrementVersion)))"

record reconciliation =
  expected :: number
  actual :: number
  variance :: number

definition reconcileStock :: "time \<Rightarrow> quantity \<Rightarrow> (inventory_item, reconciliation) oper" where
  "reconcileStock now q = op_get (\<lambda>s.
     let e = amount (on_hand s); a = amount q; v = a - e in
     op_seq (op_modify (\<lambda>s. s\<lparr>on_hand := q\<rparr>))
     (op_seq incrementVersion
     (op_seq (op_modify (\<lambda>s. s\<lparr>ievents := ievents s @
        [InventoryReconciledEvent (isku s) (ilocationId s) e a v now]\<rparr>))
     (op_return \<lparr>expected = e, actual = a, variance = v\<rparr>))))"

definition inventory_pullDomainEvents :: "(inventory_item, inventory_event list) oper" where
  "inventory_pullDomainEvents = op_get (\<lambda>s.
     op_seq (op_modify (\<lambda>s. s\<lparr>ievents := []\<rparr>)) (op_return (ievents s)))"

lemmas inventory_op_defs [model_defs] = incrementVersion_def receiveStock_def dispatchStock_def
  allocateStock_def releaseAllocation_def fulfillAllocation_def createInTransit_def
  receiveInTransit_def cancelInTransit_def reconcileStock_def inventory_pullDomainEvents_def

section \<open>Commands and runs\<close>

text \<open>
  The methods as commands, to speak about every history of an item. Their arguments are
  quantities, which the constructor of Quantity keeps non-negative.
\<close>

datatype inventory_command =
    Receive quantity | Dispatch time quantity | Allocate quantity | Release quantity
  | Fulfill quantity | CreateInTransit quantity | ReceiveInTransit quantity
  | CancelInTransit quantity | Reconcile time quantity | PullEvents

fun argument :: "inventory_command \<Rightarrow> quantity option" where
  "argument (Receive a) = Some a"
| "argument (Dispatch t a) = Some a"
| "argument (Allocate a) = Some a"
| "argument (Release a) = Some a"
| "argument (Fulfill a) = Some a"
| "argument (CreateInTransit a) = Some a"
| "argument (ReceiveInTransit a) = Some a"
| "argument (CancelInTransit a) = Some a"
| "argument (Reconcile t a) = Some a"
| "argument PullEvents = None"

fun inventory_exec :: "inventory_command \<Rightarrow> (inventory_item, unit) oper" where
  "inventory_exec (Receive a) = receiveStock a"
| "inventory_exec (Dispatch t a) = dispatchStock t a"
| "inventory_exec (Allocate a) = allocateStock a"
| "inventory_exec (Release a) = releaseAllocation a"
| "inventory_exec (Fulfill a) = fulfillAllocation a"
| "inventory_exec (CreateInTransit a) = createInTransit a"
| "inventory_exec (ReceiveInTransit a) = receiveInTransit a"
| "inventory_exec (CancelInTransit a) = cancelInTransit a"
| "inventory_exec (Reconcile t a) = op_bind (reconcileStock t a) (\<lambda>_. op_return ())"
| "inventory_exec PullEvents = op_bind inventory_pullDomainEvents (\<lambda>_. op_return ())"

definition command_ok :: "inventory_command \<Rightarrow> bool" where
  "command_ok c \<longleftrightarrow> (case argument c of None \<Rightarrow> True | Some a \<Rightarrow> q_ok a)"

text \<open>A step is a call that may return or throw; the caller goes on with the object either way.\<close>

inductive inventory_step :: "inventory_item \<Rightarrow> inventory_item \<Rightarrow> bool" where
  call: "command_ok c \<Longrightarrow> inventory_exec c s = (r, s') \<Longrightarrow> inventory_step s s'"

inductive inventory_reachable :: "inventory_item \<Rightarrow> bool" where
  fresh: "inventory_createNew i sku loc = Inr s \<Longrightarrow> inventory_reachable s"
| after: "inventory_reachable s \<Longrightarrow> inventory_step s s' \<Longrightarrow> inventory_reachable s'"

inductive_cases inventory_stepE: "inventory_step s s'"

section \<open>Invariant\<close>

definition item_ok :: "inventory_item \<Rightarrow> bool" where
  "item_ok s \<longleftrightarrow> q_ok (on_hand s) \<and> q_ok (allocated s) \<and> q_ok (inTransit s)"

lemma q_ok_addD: "q_add p q = Inr r \<Longrightarrow> q_ok r"
  and q_ok_subtractD: "q_subtract p q = Inr r \<Longrightarrow> q_ok r"
  by (rule q_ok_results, assumption)+

lemma item_ok_fresh: "inventory_createNew i sku loc = Inr s \<Longrightarrow> item_ok s"
  by (auto simp: inventory_createNew_def result_bind_Inr_iff InventoryItem_def item_ok_def
      Quantity_Inr_iff q_ok_def)

lemma inventory_exec_ok:
  assumes "item_ok s" and "command_ok c" and "inventory_exec c s = (r, s')"
  shows "item_ok s'"
  using assms
  by (cases c) (auto simp: inventory_op_defs oper_simps item_ok_def command_ok_def Let_def
      dest: q_ok_addD q_ok_subtractD split: if_splits sum.splits)

lemma inventory_reachable_ok: "inventory_reachable s \<Longrightarrow> item_ok s"
  by (induction rule: inventory_reachable.induct)
     (auto intro: item_ok_fresh elim!: inventory_stepE dest: inventory_exec_ok)

section \<open>Abstract specification\<close>

text \<open>
  What the aggregate promises, on three numbers: stock on hand, reserved and incoming. A
  command is refused (\<open>None\<close>) or moves them. The detailed methods implement it for items whose
  quantities are in one unit.
\<close>

record stock_view =
  hand :: number
  reserved :: number
  incoming :: number

definition view :: "inventory_item \<Rightarrow> stock_view" where
  "view s = \<lparr>hand = amount (on_hand s), reserved = amount (allocated s), incoming = amount (inTransit s)\<rparr>"

definition allow_if :: "bool \<Rightarrow> stock_view \<Rightarrow> stock_view option" where
  "allow_if c v = (if c then Some v else None)"

fun abs_step :: "inventory_command \<Rightarrow> stock_view \<Rightarrow> stock_view option" where
  "abs_step (Receive a) v = Some (v\<lparr>hand := hand v + amount a\<rparr>)"
| "abs_step (Dispatch t a) v = allow_if (amount a \<le> hand v) (v\<lparr>hand := hand v - amount a\<rparr>)"
| "abs_step (Allocate a) v =
     allow_if (amount a \<le> max 0 (hand v - reserved v + incoming v)) (v\<lparr>reserved := reserved v + amount a\<rparr>)"
| "abs_step (Release a) v = allow_if (amount a \<le> reserved v) (v\<lparr>reserved := reserved v - amount a\<rparr>)"
| "abs_step (Fulfill a) v = allow_if (amount a \<le> min (reserved v) (hand v))
     (v\<lparr>hand := hand v - amount a, reserved := reserved v - amount a\<rparr>)"
| "abs_step (CreateInTransit a) v = Some (v\<lparr>incoming := incoming v + amount a\<rparr>)"
| "abs_step (ReceiveInTransit a) v = allow_if (amount a \<le> incoming v)
     (v\<lparr>hand := hand v + amount a, incoming := incoming v - amount a\<rparr>)"
| "abs_step (CancelInTransit a) v = allow_if (amount a \<le> incoming v) (v\<lparr>incoming := incoming v - amount a\<rparr>)"
| "abs_step (Reconcile t a) v = Some (v\<lparr>hand := amount a\<rparr>)"
| "abs_step PullEvents v = Some v"

definition in_unit :: "unit_of_measure \<Rightarrow> inventory_item \<Rightarrow> bool" where
  "in_unit u s \<longleftrightarrow> unit_equals (qunit (on_hand s)) u \<and> unit_equals (qunit (allocated s)) u
     \<and> unit_equals (qunit (inTransit s)) u"

definition command_in_unit :: "unit_of_measure \<Rightarrow> inventory_command \<Rightarrow> bool" where
  "command_in_unit u c \<longleftrightarrow> (case argument c of None \<Rightarrow> True | Some a \<Rightarrow> unit_equals (qunit a) u)"

lemma q_add_in_unit:
  "unit_equals (qunit p) u \<Longrightarrow> unit_equals (qunit q) u \<Longrightarrow> 0 \<le> amount p \<Longrightarrow> 0 \<le> amount q \<Longrightarrow>
   q_add p q = Inr \<lparr>amount = amount p + amount q, qunit = qunit p\<rparr>"
  by (simp add: q_add_Inr_iff unit_equals_def)

lemma q_subtract_in_unit:
  "unit_equals (qunit p) u \<Longrightarrow> unit_equals (qunit q) u \<Longrightarrow> amount q \<le> amount p \<Longrightarrow>
   q_subtract p q = Inr \<lparr>amount = amount p - amount q, qunit = qunit p\<rparr>"
  by (simp add: q_subtract_Inr_iff unit_equals_def)

lemma amount_available: "amount (available s) = max 0 (amount (on_hand s) - amount (allocated s) + amount (inTransit s))"
  by (simp add: available_def Let_def max_def)

lemmas abs_sim_simps = inventory_op_defs oper_simps view_def allow_if_def amount_available
  q_add_in_unit q_subtract_in_unit Let_def

lemma inventory_exec_sim:
  assumes "item_ok s" and "command_ok c" and "in_unit u s" and "command_in_unit u c"
  shows "case inventory_exec c s of
      (Inl e, s') \<Rightarrow> abs_step c (view s) = None \<and> s' = s
    | (Inr r, s') \<Rightarrow> abs_step c (view s) = Some (view s')"
proof -
  note units = assms [unfolded item_ok_def q_ok_def in_unit_def command_ok_def command_in_unit_def]
  show ?thesis
  proof (cases c)
    case (Reconcile t a)
    with units show ?thesis by (simp add: abs_sim_simps)
  next
    case PullEvents
    then show ?thesis by (simp add: abs_sim_simps)
  qed (use units in \<open>auto simp: abs_sim_simps q_add_in_unit [of _ u] q_subtract_in_unit [of _ u]
        split: if_splits\<close>)
qed

text \<open>
  C1. The aggregate implements its abstract specification: on an item and a command in one
  unit, a call throws exactly when the specification refuses it, and then the item is
  untouched; otherwise the numbers after the call are the ones the specification gives.
\<close>

theorem inventory_exec_refines:
  assumes "item_ok s" and "command_ok c" and "in_unit u s" and "command_in_unit u c"
  shows "case inventory_exec c s of
      (Inl e, s') \<Rightarrow> abs_step c (view s) = None \<and> s' = s
    | (Inr r, s') \<Rightarrow> abs_step c (view s) = Some (view s')"
  by (rule inventory_exec_sim [OF assms])

definition sample_item :: inventory_item where
  "sample_item = InventoryItem ''i1'' ''WIDGET-1'' ''loc-1'' (q_each 12) (q_each 3) (q_each 5) 4"

theorem inventory_exec_refines_witness:
  "case inventory_exec (Dispatch 7 (q_each 4)) sample_item of
      (Inl e, s') \<Rightarrow> False
    | (Inr r, s') \<Rightarrow> abs_step (Dispatch 7 (q_each 4)) (view sample_item) = Some (view s')"
proof -
  have "abs_step (Dispatch 7 (q_each 4)) (view sample_item) \<noteq> None"
    by (simp add: sample_item_def InventoryItem_def view_def allow_if_def)
  moreover have "item_ok sample_item" "command_ok (Dispatch 7 (q_each 4))" "in_unit each sample_item"
    "command_in_unit each (Dispatch 7 (q_each 4))"
    by (simp_all add: sample_item_def InventoryItem_def item_ok_def command_ok_def in_unit_def
        command_in_unit_def)
  ultimately show ?thesis
    using inventory_exec_refines [of sample_item "Dispatch 7 (q_each 4)" each]
    by (auto split: prod.splits sum.splits)
qed

text \<open>
  In every state the methods can reach from \<open>createNew\<close>, after any calls that returned
  or threw, stock on hand, reserved stock and incoming stock are not negative, and what is
  offered for reservation is at most what is on hand or incoming.
\<close>

theorem inventory_never_negative:
  assumes "inventory_reachable s"
  shows "0 \<le> amount (on_hand s) \<and> 0 \<le> amount (allocated s) \<and> 0 \<le> amount (inTransit s)
    \<and> 0 \<le> amount (available s) \<and> amount (available s) \<le> amount (on_hand s) + amount (inTransit s)"
  using inventory_reachable_ok [OF assms]
  by (auto simp: item_ok_def q_ok_def amount_available)

theorem inventory_never_negative_witness:
  "\<exists>s. inventory_createNew ''i1'' ''widget-1'' ''loc-1'' = Inr s \<and> 0 \<le> amount (on_hand (snd (receiveStock (q_each 8) s)))"
proof -
  obtain s where s: "inventory_createNew ''i1'' ''widget-1'' ''loc-1'' = Inr s"
    by (simp add: inventory_createNew_def InventoryItemId_def LocationId_def make_id_def is_blank_def
        trim_def is_space_def Sku_Inr_iff Sku_def is_sku_char_def is_letter_def is_upper_def
        is_digit_def Quantity_def)
  have "inventory_step s (snd (receiveStock (q_each 8) s))"
    by (rule inventory_step.call [of "Receive (q_each 8)" s "fst (receiveStock (q_each 8) s)"])
       (simp_all add: command_ok_def)
  with s have "inventory_reachable (snd (receiveStock (q_each 8) s))"
    by (blast intro: inventory_reachable.intros)
  with s show ?thesis using inventory_never_negative by blast
qed

lemma inventory_exec_counts:
  "iversion (snd (inventory_exec c s)) = iversion s +
     (if isl (fst (inventory_exec c s)) \<or> c = PullEvents then 0 else 1)"
  by (cases c) (auto simp: inventory_op_defs oper_simps Let_def split: sum.splits)

text \<open>
  The version counter that optimistic locking relies on: a call that returns adds exactly
  one to it (pulling the events adds none), and a call that throws leaves it as it was.
\<close>

theorem inventory_exec_version:
  "iversion (snd (inventory_exec c s)) = iversion s +
     (if isl (fst (inventory_exec c s)) \<or> c = PullEvents then 0 else 1)"
  by (rule inventory_exec_counts)

text \<open>
  A throw can lose a reservation: when the reservation is in the unit of the call and the
  stock on hand is in another one, \<open>fulfillAllocation\<close> subtracts from the reservation, then
  throws on the stock, and nothing puts the reservation back.
\<close>

theorem fulfill_throw_loses_reservation:
  assumes "unit_equals (qunit (allocated s)) (qunit a)" and "\<not> unit_equals (qunit (on_hand s)) (qunit a)"
    and "amount a \<le> amount (allocated s)" and "amount a \<le> amount (on_hand s)"
  shows "isl (fst (fulfillAllocation a s))
    \<and> amount (allocated (snd (fulfillAllocation a s))) = amount (allocated s) - amount a
    \<and> on_hand (snd (fulfillAllocation a s)) = on_hand s"
proof -
  have "q_subtract (allocated s) a = Inr \<lparr>amount = amount (allocated s) - amount a, qunit = qunit (allocated s)\<rparr>"
    using assms by (simp add: q_subtract_Inr_iff)
  moreover have "isl (q_subtract (on_hand s) a)"
    using assms(2) by (simp add: q_subtract_def assertSameUnit_def)
  ultimately show ?thesis using assms(3,4)
    by (auto simp: fulfillAllocation_def oper_simps split: sum.splits)
qed

theorem fulfill_throw_loses_reservation_witness:
  "amount (allocated (snd (fulfillAllocation (q_each 2)
      (InventoryItem ''i1'' ''FLOUR'' ''loc-1'' \<lparr>amount = 500, qunit = gram\<rparr> (q_each 3) (q_each 0) 1)))) = 1"
  using fulfill_throw_loses_reservation
    [of "InventoryItem ''i1'' ''FLOUR'' ''loc-1'' \<lparr>amount = 500, qunit = gram\<rparr> (q_each 3) (q_each 0) 1" "q_each 2"]
  by (simp add: InventoryItem_def unit_equals_def gram_def each_def)

text \<open>
  The balance of a history: after any sequence of calls that all returned and did not
  reconcile, stock on hand is what it was, plus everything received (directly or from transit),
  minus everything dispatched or fulfilled.
\<close>

fun hand_delta :: "inventory_command \<Rightarrow> number" where
  "hand_delta (Receive a) = amount a"
| "hand_delta (Dispatch t a) = - amount a"
| "hand_delta (Fulfill a) = - amount a"
| "hand_delta (ReceiveInTransit a) = amount a"
| "hand_delta c = 0"

lemma hand_delta_step:
  assumes "inventory_exec c s = (Inr (), s')" and "\<And>t a. c \<noteq> Reconcile t a"
  shows "amount (on_hand s') = amount (on_hand s) + hand_delta c"
  using assms
  by (cases c) (auto simp: inventory_op_defs oper_simps Let_def q_add_Inr_iff q_subtract_Inr_iff
      split: if_splits sum.splits)

theorem inventory_balance:
  assumes "op_each inventory_exec cs s = (Inr (), s')" and "\<forall>t a. Reconcile t a \<notin> set cs"
  shows "amount (on_hand s') = amount (on_hand s) + (\<Sum>c\<leftarrow>cs. hand_delta c)"
  using assms
proof (induction cs arbitrary: s)
  case Nil
  then show ?case by (simp add: oper_simps)
next
  case (Cons c cs)
  then obtain s1 where "inventory_exec c s = (Inr (), s1)" and "op_each inventory_exec cs s1 = (Inr (), s')"
    by (auto simp: oper_simps split: prod.splits sum.splits)
  with Cons hand_delta_step [of c s s1] show ?case by auto
qed

theorem inventory_balance_witness:
  "amount (on_hand (snd (op_each inventory_exec
     [Receive (q_each 9), Dispatch 1 (q_each 15)] sample_item))) = 12 + (9 + (- 15))"
proof -
  have run: "fst (op_each inventory_exec [Receive (q_each 9), Dispatch 1 (q_each 15)] sample_item) = Inr ()"
    by (simp add: sample_item_def InventoryItem_def inventory_op_defs oper_simps q_add_each q_subtract_each)
  show ?thesis
    using inventory_balance [of "[Receive (q_each 9), Dispatch 1 (q_each 15)]" sample_item] run
    by (cases "op_each inventory_exec [Receive (q_each 9), Dispatch 1 (q_each 15)] sample_item")
       (simp add: sample_item_def InventoryItem_def)
qed

end
