(* ===== verification/Costing.thy ===== *)
theory Costing
  imports Identifiers
begin

text \<open>
  Cost layers and the costing strategies: src/src/domain/entities/InventoryCostLayer.ts,
  src/src/domain/valueObjects/CostBreakdown.ts, src/src/domain/enums/AccountingEnums.ts and
  src/src/domain/strategies. A strategy's \<open>consumeLayers\<close> mutates the layer objects it is
  given: it is an operation whose state is the list of those objects, in the strategy's order.
\<close>

section \<open>Layers\<close>

record cost_layer =
  lid :: ident
  lvariant :: ident
  initialQuantity :: number
  unitCostCents :: number
  receivedAt :: time
  lserial :: "string option"
  llot :: "lot option"
  consumedQuantity :: number

definition InventoryCostLayerId :: "string \<Rightarrow> ident result" where
  "InventoryCostLayerId v = make_id ''InventoryCostLayerId cannot be empty.'' v"

definition InventoryCostLayer ::
    "ident \<Rightarrow> ident \<Rightarrow> number \<Rightarrow> number \<Rightarrow> time \<Rightarrow> string option \<Rightarrow> lot option \<Rightarrow> cost_layer result" where
  "InventoryCostLayer i v q c t sn lt =
     (if q \<le> 0 then Inl (Error ''Initial quantity must be positive.'' [])
      else if c < 0 then Inl (Error ''Unit cost cannot be negative.'' [])
      else Inr \<lparr>lid = i, lvariant = v, initialQuantity = q, unitCostCents = c, receivedAt = t,
        lserial = sn, llot = lt, consumedQuantity = 0\<rparr>)"

definition remainingQuantity :: "cost_layer \<Rightarrow> number" where
  "remainingQuantity l = initialQuantity l - consumedQuantity l"

definition remainingCostCents :: "cost_layer \<Rightarrow> number" where
  "remainingCostCents l = remainingQuantity l * unitCostCents l"

definition consume :: "number \<Rightarrow> cost_layer \<Rightarrow> number \<times> cost_layer" where
  "consume q l = (let toConsume = min q (remainingQuantity l)
     in (toConsume, l\<lparr>consumedQuantity := consumedQuantity l + toConsume\<rparr>))"

definition isFullyConsumed :: "cost_layer \<Rightarrow> bool" where
  "isFullyConsumed l \<longleftrightarrow> remainingQuantity l = 0"

record cost_breakdown =
  bquantity :: number
  totalCostCents :: number

definition averageUnitCostCents :: "cost_breakdown \<Rightarrow> number" where
  "averageUnitCostCents b =
     (if 0 < bquantity b then js_round (totalCostCents b / bquantity b) else 0)"

datatype accounting_method = Cash | Accrual

datatype costing_method = FIFO | LIFO | WeightedAverageCost | SpecificIdentification | FEFO

section \<open>Instants\<close>

text \<open>The sort key of a layer without a lot is JavaScript's \<open>Infinity\<close>.\<close>

datatype instant = At time | Infinity

instantiation instant :: linorder
begin

fun less_eq_instant :: "instant \<Rightarrow> instant \<Rightarrow> bool" where
  "less_eq_instant (At a) (At b) = (a \<le> b)"
| "less_eq_instant (At a) Infinity = True"
| "less_eq_instant Infinity (At b) = False"
| "less_eq_instant Infinity Infinity = True"

definition less_instant :: "instant \<Rightarrow> instant \<Rightarrow> bool" where
  "less_instant a b \<longleftrightarrow> a \<le> b \<and> \<not> b \<le> (a :: instant)"

instance
proof
  fix a b c :: instant
  show "(a < b) = (a \<le> b \<and> \<not> b \<le> a)" by (simp add: less_instant_def)
  show "a \<le> a" by (cases a) simp_all
  show "a \<le> b \<Longrightarrow> b \<le> c \<Longrightarrow> a \<le> c" by (cases a; cases b; cases c) simp_all
  show "a \<le> b \<Longrightarrow> b \<le> a \<Longrightarrow> a = b" by (cases a; cases b) simp_all
  show "a \<le> b \<or> b \<le> a" by (cases a; cases b) auto
qed

end

definition expiry :: "cost_layer \<Rightarrow> instant" where
  "expiry l = (case llot l of None \<Rightarrow> Infinity | Some x \<Rightarrow> At (expirationDate x))"

section \<open>Strategies\<close>

text \<open>\<open>cost_loop\<close> and \<open>consume_loop\<close> are the loops that price and draw down layers in order.\<close>

fun cost_loop :: "cost_layer list \<Rightarrow> number \<Rightarrow> number \<Rightarrow> number \<times> number" where
  "cost_loop [] remaining totalCost = (remaining, totalCost)"
| "cost_loop (l # ls) remaining totalCost =
     (if remaining \<le> 0 then (remaining, totalCost)
      else let consumed = min remaining (remainingQuantity l)
           in cost_loop ls (remaining - consumed) (totalCost + consumed * unitCostCents l))"

fun consume_loop :: "cost_layer list \<Rightarrow> number \<Rightarrow> number \<Rightarrow> cost_layer list \<times> number \<times> number" where
  "consume_loop [] remaining totalCost = ([], remaining, totalCost)"
| "consume_loop (l # ls) remaining totalCost =
     (if remaining \<le> 0 then (l # ls, remaining, totalCost)
      else let (consumed, l') = consume remaining l;
               (ls', r, t) = consume_loop ls (remaining - consumed) (totalCost + consumed * unitCostCents l)
           in (l' # ls', r, t))"

definition insufficient_layers :: error where
  "insufficient_layers = Error ''Insufficient cost layers to cover the quantity.'' []"

definition price :: "cost_layer list \<Rightarrow> number \<Rightarrow> cost_breakdown result" where
  "price ls q = (let (remaining, totalCost) = cost_loop ls q 0
     in if 0 < remaining then Inl insufficient_layers
        else Inr \<lparr>bquantity = q, totalCostCents = totalCost\<rparr>)"

definition draw_down :: "number \<Rightarrow> (cost_layer list, cost_breakdown) oper" where
  "draw_down q ls = (let (ls', remaining, totalCost) = consume_loop ls q 0
     in if 0 < remaining then (Inl insufficient_layers, ls')
        else (Inr \<lparr>bquantity = q, totalCostCents = totalCost\<rparr>, ls'))"

definition fifo_order :: "cost_layer list \<Rightarrow> cost_layer list" where
  "fifo_order ls = sort_key receivedAt ls"

definition lifo_order :: "cost_layer list \<Rightarrow> cost_layer list" where
  "lifo_order ls = sort_key (\<lambda>l. - receivedAt l) ls"

definition fefo_order :: "cost_layer list \<Rightarrow> cost_layer list" where
  "fefo_order ls = sort_key expiry ls"

definition fifo_calculateCost :: "cost_layer list \<Rightarrow> number \<Rightarrow> ident \<Rightarrow> cost_breakdown result" where
  "fifo_calculateCost ls q v = price (fifo_order ls) q"

definition fifo_consumeLayers :: "number \<Rightarrow> ident \<Rightarrow> (cost_layer list, cost_breakdown) oper" where
  "fifo_consumeLayers q v ls = draw_down q (fifo_order ls)"

definition lifo_calculateCost :: "cost_layer list \<Rightarrow> number \<Rightarrow> ident \<Rightarrow> cost_breakdown result" where
  "lifo_calculateCost ls q v = price (lifo_order ls) q"

definition lifo_consumeLayers :: "number \<Rightarrow> ident \<Rightarrow> (cost_layer list, cost_breakdown) oper" where
  "lifo_consumeLayers q v ls = draw_down q (lifo_order ls)"

definition fefo_calculateCost :: "cost_layer list \<Rightarrow> number \<Rightarrow> ident \<Rightarrow> cost_breakdown result" where
  "fefo_calculateCost ls q v = price (fefo_order ls) q"

definition fefo_consumeLayers :: "number \<Rightarrow> ident \<Rightarrow> (cost_layer list, cost_breakdown) oper" where
  "fefo_consumeLayers q v ls = draw_down q (fefo_order ls)"

fun sum_layers :: "cost_layer list \<Rightarrow> number \<Rightarrow> number \<Rightarrow> number \<times> number" where
  "sum_layers [] units total_value = (units, total_value)"
| "sum_layers (l # ls) units total_value =
     sum_layers ls (units + remainingQuantity l) (total_value + remainingCostCents l)"

definition wac_calculateCost :: "cost_layer list \<Rightarrow> number \<Rightarrow> ident \<Rightarrow> cost_breakdown result" where
  "wac_calculateCost ls q v = (let (totalUnits, totalValue) = sum_layers ls 0 0
     in if totalUnits = 0 \<or> totalUnits < q
        then Inl (Error ''Insufficient inventory for variant {}'' [S v])
        else let avgCostCents = totalValue / totalUnits
             in Inr \<lparr>bquantity = q, totalCostCents = js_round (q * avgCostCents)\<rparr>)"

definition wac_consumeLayers :: "number \<Rightarrow> ident \<Rightarrow> (cost_layer list, cost_breakdown) oper" where
  "wac_consumeLayers q v ls = (case wac_calculateCost ls q v of
       Inl e \<Rightarrow> (Inl e, ls)
     | Inr breakdown \<Rightarrow> (Inr breakdown, fst (consume_loop (fifo_order ls) q 0)))"

record costing_strategy_object =
  calculateCost_of :: "cost_layer list \<Rightarrow> number \<Rightarrow> ident \<Rightarrow> cost_breakdown result"
  consumeLayers_of :: "number \<Rightarrow> ident \<Rightarrow> (cost_layer list, cost_breakdown) oper"

fun costing_method_name :: "costing_method \<Rightarrow> string" where
  "costing_method_name FIFO = ''fifo''"
| "costing_method_name LIFO = ''lifo''"
| "costing_method_name WeightedAverageCost = ''weighted_average_cost''"
| "costing_method_name SpecificIdentification = ''specific_identification''"
| "costing_method_name FEFO = ''fefo''"

fun registry_get :: "costing_method \<Rightarrow> costing_strategy_object result" where
  "registry_get FIFO = Inr \<lparr>calculateCost_of = fifo_calculateCost, consumeLayers_of = fifo_consumeLayers\<rparr>"
| "registry_get LIFO = Inr \<lparr>calculateCost_of = lifo_calculateCost, consumeLayers_of = lifo_consumeLayers\<rparr>"
| "registry_get WeightedAverageCost = Inr \<lparr>calculateCost_of = wac_calculateCost, consumeLayers_of = wac_consumeLayers\<rparr>"
| "registry_get FEFO = Inr \<lparr>calculateCost_of = fefo_calculateCost, consumeLayers_of = fefo_consumeLayers\<rparr>"
| "registry_get SpecificIdentification = Inl (Error ''Unsupported costing method: {}''
     [S (costing_method_name SpecificIdentification)])"

section \<open>Facts about the loops\<close>

definition layer_ok :: "cost_layer \<Rightarrow> bool" where
  "layer_ok l \<longleftrightarrow> 0 \<le> consumedQuantity l \<and> consumedQuantity l \<le> initialQuantity l \<and> 0 \<le> unitCostCents l"

definition layers_ok :: "cost_layer list \<Rightarrow> bool" where
  "layers_ok ls \<longleftrightarrow> (\<forall>l \<in> set ls. layer_ok l)"

definition units :: "cost_layer list \<Rightarrow> number" where
  "units ls = (\<Sum>l\<leftarrow>ls. remainingQuantity l)"

definition valuation :: "cost_layer list \<Rightarrow> number" where
  "valuation ls = (\<Sum>l\<leftarrow>ls. remainingCostCents l)"

text \<open>\<open>same_layer\<close>: the same object after drawing from it; only the consumed quantity grows.\<close>

definition same_layer :: "cost_layer \<Rightarrow> cost_layer \<Rightarrow> bool" where
  "same_layer l l' \<longleftrightarrow> (\<exists>c \<ge> consumedQuantity l. l' = l\<lparr>consumedQuantity := c\<rparr>)"

lemma layers_ok_simps [simp]:
  "layers_ok []" "layers_ok (l # ls) \<longleftrightarrow> layer_ok l \<and> layers_ok ls"
  by (auto simp: layers_ok_def)

lemma units_simps [simp]: "units [] = 0" "units (l # ls) = remainingQuantity l + units ls"
  by (simp_all add: units_def)

lemma valuation_simps [simp]:
  "valuation [] = 0" "valuation (l # ls) = remainingCostCents l + valuation ls"
  by (simp_all add: valuation_def)

lemma orders [simp]:
  "layers_ok (fifo_order ls) = layers_ok ls" "units (fifo_order ls) = units ls"
  "valuation (fifo_order ls) = valuation ls"
  "layers_ok (lifo_order ls) = layers_ok ls" "units (lifo_order ls) = units ls"
  "valuation (lifo_order ls) = valuation ls"
  "layers_ok (fefo_order ls) = layers_ok ls" "units (fefo_order ls) = units ls"
  "valuation (fefo_order ls) = valuation ls"
  by (simp_all add: layers_ok_def units_def valuation_def fifo_order_def lifo_order_def fefo_order_def)

lemma remaining_nonneg: "layer_ok l \<Longrightarrow> 0 \<le> remainingQuantity l"
  by (simp add: layer_ok_def remainingQuantity_def)

lemma units_nonneg: "layers_ok ls \<Longrightarrow> 0 \<le> units ls"
  by (induction ls) (auto dest: remaining_nonneg)

lemma same_layer_refl [simp]: "same_layer l l"
  by (auto simp: same_layer_def intro!: exI [of _ "consumedQuantity l"])

lemma consume_facts:
  assumes "layer_ok l" and "0 \<le> q" and "consume q l = (c, l')"
  shows "layer_ok l'" "0 \<le> c" "c \<le> q" "remainingQuantity l' = remainingQuantity l - c"
    "remainingCostCents l' = remainingCostCents l - c * unitCostCents l" "same_layer l l'"
    "c < q \<Longrightarrow> isFullyConsumed l'"
proof -
  have c: "c = min q (remainingQuantity l)" and l': "l' = l\<lparr>consumedQuantity := consumedQuantity l + c\<rparr>"
    using assms(3) by (auto simp: consume_def Let_def)
  show c0: "0 \<le> c" "c \<le> q" using assms(1,2) c by (simp_all add: remaining_nonneg)
  then show "layer_ok l'" using assms(1) c l' by (auto simp: layer_ok_def remainingQuantity_def)
  show rq: "remainingQuantity l' = remainingQuantity l - c"
    by (simp add: l' remainingQuantity_def)
  then show "remainingCostCents l' = remainingCostCents l - c * unitCostCents l"
    by (simp add: l' remainingCostCents_def left_diff_distrib)
  show "same_layer l l'" unfolding same_layer_def l'
    by (intro exI [of _ "consumedQuantity l + c"]) (simp add: c0)
  show "c < q \<Longrightarrow> isFullyConsumed l'" using c rq by (simp add: isFullyConsumed_def min_def split: if_splits)
qed

lemma consume_loop_nonpos [simp]: "q \<le> 0 \<Longrightarrow> consume_loop ls q t = (ls, q, t)"
  by (cases ls) simp_all

lemma cost_loop_eq: "cost_loop ls q t = snd (consume_loop ls q t)"
  by (induction ls arbitrary: q t) (auto simp: Let_def consume_def split: prod.splits)

lemma consume_loop_facts:
  assumes "layers_ok ls" and "0 \<le> q" and "consume_loop ls q t = (ls', r, t')"
  shows "layers_ok ls'" "r = max 0 (q - units ls)" "units ls' = units ls - (q - r)"
    "t' - t = valuation ls - valuation ls'" "list_all2 same_layer ls ls'"
  using assms
proof (atomize (full), induction ls arbitrary: q t ls' r t')
  case Nil
  then show ?case by simp
next
  case (Cons l ls)
  show ?case
  proof (cases "q = 0")
    case True
    have "list_all2 same_layer ls ls" by (simp add: list_all2_refl)
    moreover have "0 \<le> units ls" "0 \<le> remainingQuantity l"
      using Cons.prems by (simp_all add: units_nonneg remaining_nonneg)
    ultimately show ?thesis using True Cons.prems by auto
  next
    case False
    obtain c l' where c: "consume q l = (c, l')" by fastforce
    obtain ks u w where rest: "consume_loop ls (q - c) (t + c * unitCostCents l) = (ks, u, w)"
      by (metis prod_cases3)
    from False Cons.prems c rest have res: "ls' = l' # ks" "r = u" "t' = w"
      by (auto simp: Let_def)
    from Cons.prems have ok: "layer_ok l" "0 \<le> q" by simp_all
    note here = consume_facts [OF ok c]
    from Cons.IH [OF _ _ rest] here Cons.prems
    have ih: "layers_ok ks" "u = max 0 (q - c - units ls)" "units ks = units ls - (q - c - u)"
      "w - (t + c * unitCostCents l) = valuation ls - valuation ks" "list_all2 same_layer ls ks"
      by auto
    have "0 \<le> units ls" using Cons.prems by (simp add: units_nonneg)
    moreover have "c = min q (remainingQuantity l)" using c by (simp add: consume_def Let_def)
    ultimately have "u = max 0 (q - units (l # ls))"
      using ih(2) remaining_nonneg [OF ok(1)] by (auto simp: min_def max_def split: if_splits)
    with ih here res show ?thesis by auto
  qed
qed

lemma draw_down_eval:
  assumes "layers_ok ls" and "0 \<le> q" and "draw_down q ls = (res, ls')"
  shows "layers_ok ls'" "list_all2 same_layer ls ls'"
    "isl res \<longleftrightarrow> units ls < q"
    "units ls' = units ls - min q (units ls)"
    "res = Inr b \<Longrightarrow> bquantity b = q \<and> totalCostCents b = valuation ls - valuation ls'"
proof -
  obtain r t where run: "consume_loop ls q 0 = (ls', r, t)"
    using assms(3) by (auto simp: draw_down_def Let_def split: prod.splits if_splits)
  note facts = consume_loop_facts [OF assms(1,2) run]
  from assms(3) run have res: "res = (if 0 < r then Inl insufficient_layers
      else Inr \<lparr>bquantity = q, totalCostCents = t\<rparr>)"
    by (simp add: draw_down_def split: if_splits)
  from facts show "layers_ok ls'" "list_all2 same_layer ls ls'" by simp_all
  from res facts(2) show "isl res \<longleftrightarrow> units ls < q" by (auto simp: max_def)
  from facts(2,3) show "units ls' = units ls - min q (units ls)" by (auto simp: max_def min_def)
  from res facts(4) show "res = Inr b \<Longrightarrow> bquantity b = q \<and> totalCostCents b = valuation ls - valuation ls'"
    by (auto split: if_splits)
qed

lemma price_eq_draw_down: "price ls q = fst (draw_down q ls)"
  by (simp add: price_def draw_down_def cost_loop_eq Let_def split: prod.splits)

lemma sum_layers_eq: "sum_layers ls u v = (u + units ls, v + valuation ls)"
  by (induction ls arbitrary: u v) (simp_all add: add.assoc)

lemma wac_calculateCost_eq:
  "wac_calculateCost ls q v =
     (if units ls = 0 \<or> units ls < q then Inl (Error ''Insufficient inventory for variant {}'' [S v])
      else Inr \<lparr>bquantity = q, totalCostCents = js_round (q * (valuation ls / units ls))\<rparr>)"
  by (simp add: wac_calculateCost_def sum_layers_eq)

lemma consume_loop_order:
  assumes "layers_ok ls" and "0 \<le> q" and "consume_loop ls q t = (ks, r, t')"
    and "j < length ls" and "ks ! j \<noteq> ls ! j" and "i < j"
  shows "isFullyConsumed (ks ! i)"
  using assms
proof (induction ls arbitrary: q t ks r t' i j)
  case Nil
  then show ?case by simp
next
  case (Cons l ls)
  from Cons.prems have "q \<noteq> 0" by auto
  obtain c l' where c: "consume q l = (c, l')" by fastforce
  obtain ms u w where rest: "consume_loop ls (q - c) (t + c * unitCostCents l) = (ms, u, w)"
    by (metis prod_cases3)
  from \<open>q \<noteq> 0\<close> Cons.prems c rest have ks: "ks = l' # ms" by (auto simp: Let_def)
  from Cons.prems have ok: "layer_ok l" "0 \<le> q" by simp_all
  note here = consume_facts [OF ok c]
  from Cons.prems(4-6) ks obtain j' where j: "j = Suc j'" and changed: "ms ! j' \<noteq> ls ! j'" and "j' < length ls"
    by (cases j) auto
  show ?case
  proof (cases i)
    case 0
    have "c < q"
    proof (rule ccontr)
      assume "\<not> c < q"
      with rest have "ms = ls" by simp
      with changed show False by simp
    qed
    with here(7) ks 0 show ?thesis by simp
  next
    case (Suc i')
    with Cons.IH [OF _ _ rest \<open>j' < length ls\<close> changed] Cons.prems j here(2,3) ks
    show ?thesis by simp
  qed
qed

section \<open>The strategy interface\<close>

text \<open>
  src/src/domain/strategies/ICostingStrategy.ts: the price quoted for a quantity is the one charged
  when it is taken, taking keeps the layers sound and removes exactly that many units, and it is
  refused exactly when there are not enough.
\<close>

locale costing_strategy =
  fixes calc :: "cost_layer list \<Rightarrow> number \<Rightarrow> ident \<Rightarrow> cost_breakdown result"
    and cons :: "number \<Rightarrow> ident \<Rightarrow> (cost_layer list, cost_breakdown) oper"
  assumes quote_is_charge: "fst (cons q v ls) = calc ls q v"
    and cons_ok: "layers_ok ls \<Longrightarrow> 0 \<le> q \<Longrightarrow> layers_ok (snd (cons q v ls))"
    and cons_refused: "layers_ok ls \<Longrightarrow> 0 < q \<Longrightarrow> isl (fst (cons q v ls)) \<longleftrightarrow> units ls < q"
    and cons_drawn: "layers_ok ls \<Longrightarrow> 0 \<le> q \<Longrightarrow> fst (cons q v ls) = Inr b \<Longrightarrow>
      units (snd (cons q v ls)) = units ls - q"
begin

lemma take_once:
  assumes "layers_ok ls" and "0 < q" and "q \<le> units ls"
  obtains b ls' where "cons q v ls = (Inr b, ls')" and "layers_ok ls'" and "units ls' = units ls - q"
proof -
  obtain r ls' where run: "cons q v ls = (r, ls')" by fastforce
  with assms cons_refused [of ls q v] obtain b where "r = Inr b" by (cases r) auto
  with run assms cons_ok [of ls q v] cons_drawn [of ls q v b] show ?thesis
    by (intro that [of b ls']) simp_all
qed

lemma takes_succeed_iff:
  assumes "layers_ok ls" and "\<forall>q \<in> set qs. 0 < q"
  shows "fst (op_each (\<lambda>q. op_bind (cons q v) (\<lambda>_. op_return ())) qs ls) = Inr ()
    \<longleftrightarrow> qs = [] \<or> sum_list qs \<le> units ls"
  using assms
proof (induction qs arbitrary: ls)
  case Nil
  then show ?case by (simp add: oper_simps)
next
  case (Cons q qs)
  then have q: "0 < q" and "\<forall>q \<in> set qs. 0 < q" by simp_all
  then have pos: "0 \<le> sum_list qs" by (meson less_imp_le sum_list_nonneg)
  show ?case
  proof (cases "q \<le> units ls")
    case True
    from take_once [OF Cons.prems(1) q True, of v] obtain b ls' where
      run: "cons q v ls = (Inr b, ls')" and ok: "layers_ok ls'" and un: "units ls' = units ls - q" .
    from Cons.IH [OF ok] Cons.prems(2) show ?thesis
      by (cases "qs = []") (auto simp: oper_simps run un True)
  next
    case False
    with cons_refused [OF Cons.prems(1) q, of v] obtain e where "fst (cons q v ls) = Inl e"
      by (auto simp: isl_def)
    with False pos show ?thesis
      by (cases "cons q v ls") (simp add: oper_simps)
  qed
qed

end

lemma layer_strategy_laws:
  assumes "layers_ok (order ls) = layers_ok ls" and "units (order ls) = units ls"
  shows "layers_ok ls \<Longrightarrow> 0 \<le> q \<Longrightarrow> layers_ok (snd (draw_down q (order ls)))"
    and "layers_ok ls \<Longrightarrow> 0 \<le> q \<Longrightarrow> isl (fst (draw_down q (order ls))) \<longleftrightarrow> units ls < q"
    and "layers_ok ls \<Longrightarrow> 0 \<le> q \<Longrightarrow> fst (draw_down q (order ls)) = Inr b \<Longrightarrow>
      units (snd (draw_down q (order ls))) = units ls - q"
proof -
  obtain r ks where run: "draw_down q (order ls) = (r, ks)" by fastforce
  {
    assume "layers_ok ls" "0 \<le> q"
    with assms have "layers_ok (order ls)" by simp
    note facts = draw_down_eval [OF this \<open>0 \<le> q\<close> run]
    show "layers_ok (snd (draw_down q (order ls)))"
      and "isl (fst (draw_down q (order ls))) \<longleftrightarrow> units ls < q"
      and "fst (draw_down q (order ls)) = Inr b \<Longrightarrow> units (snd (draw_down q (order ls))) = units ls - q"
      using facts(1,3,4) assms run by (auto simp: min_def)
  }
qed

interpretation fifo: costing_strategy fifo_calculateCost fifo_consumeLayers
  by unfold_locales (simp_all add: fifo_calculateCost_def fifo_consumeLayers_def price_eq_draw_down
      layer_strategy_laws [where order = fifo_order])

interpretation lifo: costing_strategy lifo_calculateCost lifo_consumeLayers
  by unfold_locales (simp_all add: lifo_calculateCost_def lifo_consumeLayers_def price_eq_draw_down
      layer_strategy_laws [where order = lifo_order])

interpretation fefo: costing_strategy fefo_calculateCost fefo_consumeLayers
  by unfold_locales (simp_all add: fefo_calculateCost_def fefo_consumeLayers_def price_eq_draw_down
      layer_strategy_laws [where order = fefo_order])

lemma wac_drawn:
  assumes "layers_ok ls" and "0 \<le> q" and "q \<le> units ls"
  shows "units (fst (consume_loop (fifo_order ls) q t)) = units ls - q"
    and "layers_ok (fst (consume_loop (fifo_order ls) q t))"
proof -
  obtain ks r w where run: "consume_loop (fifo_order ls) q t = (ks, r, w)" by (metis prod_cases3)
  from assms have "layers_ok (fifo_order ls)" by simp
  from consume_loop_facts [OF this assms(2) run] assms(3) run
  show "units (fst (consume_loop (fifo_order ls) q t)) = units ls - q"
    and "layers_ok (fst (consume_loop (fifo_order ls) q t))"
    by (auto simp: max_def)
qed

interpretation wac: costing_strategy wac_calculateCost wac_consumeLayers
  by unfold_locales
     (auto simp: wac_consumeLayers_def wac_calculateCost_eq wac_drawn split: sum.splits if_splits)

section \<open>Properties\<close>

text \<open>
  C4. Whatever the costing method, a sequence of issues is served in full exactly when it asks
  for no more units than the layers hold together: the layers are never overdrawn, and no unit that
  is there is refused.
\<close>

theorem issues_served_iff_covered:
  assumes "registry_get m = Inr st" and "layers_ok ls" and "\<forall>q \<in> set qs. 0 < q"
  shows "fst (op_each (\<lambda>q. op_bind (consumeLayers_of st q v) (\<lambda>_. op_return ())) qs ls) = Inr ()
    \<longleftrightarrow> sum_list qs \<le> units ls"
proof -
  have "qs = [] \<or> sum_list qs \<le> units ls \<longleftrightarrow> sum_list qs \<le> units ls"
    using units_nonneg [OF assms(2)] by auto
  then show ?thesis
    using assms(1) fifo.takes_succeed_iff [OF assms(2,3), of v] lifo.takes_succeed_iff [OF assms(2,3), of v]
      fefo.takes_succeed_iff [OF assms(2,3), of v] wac.takes_succeed_iff [OF assms(2,3), of v]
    by (cases m) auto
qed

definition sample_layers :: "cost_layer list" where
  "sample_layers =
    [\<lparr>lid = ''b'', lvariant = ''v'', initialQuantity = 5, unitCostCents = 120, receivedAt = 20,
      lserial = None, llot = None, consumedQuantity = 0\<rparr>,
     \<lparr>lid = ''a'', lvariant = ''v'', initialQuantity = 10, unitCostCents = 100, receivedAt = 10,
      lserial = None, llot = Some \<lparr>lotNumber = ''L1'', expirationDate = 90\<rparr>, consumedQuantity = 4\<rparr>]"

lemma sample_layers_ok [simp]: "layers_ok sample_layers" "units sample_layers = 11"
  by (simp_all add: sample_layers_def layer_ok_def remainingQuantity_def)

theorem issues_served_iff_covered_witness:
  "fst (op_each (\<lambda>q. op_bind (consumeLayers_of
      \<lparr>calculateCost_of = fifo_calculateCost, consumeLayers_of = fifo_consumeLayers\<rparr> q ''v'')
      (\<lambda>_. op_return ())) [4, 7] sample_layers) = Inr ()"
  using issues_served_iff_covered [of FIFO _ sample_layers "[4, 7]" "''v''"] by simp

text \<open>
  The price quoted is the price charged: for every registered strategy,
  \<open>calculateCost\<close> gives what \<open>consumeLayers\<close> goes on to give, or throws the error it goes on
  to throw.
\<close>

theorem quote_equals_charge:
  assumes "registry_get m = Inr st"
  shows "fst (consumeLayers_of st q v ls) = calculateCost_of st ls q v"
  using assms fifo.quote_is_charge lifo.quote_is_charge fefo.quote_is_charge wac.quote_is_charge
  by (cases m) auto

theorem quote_equals_charge_witness:
  "\<exists>st. registry_get FEFO = Inr st
     \<and> fst (consumeLayers_of st 7 ''v'' sample_layers) = Inr \<lparr>bquantity = 7, totalCostCents = 720\<rparr>"
proof -
  obtain st where st: "registry_get FEFO = Inr st" by simp
  have "calculateCost_of st sample_layers 7 ''v'' = Inr \<lparr>bquantity = 7, totalCostCents = 720\<rparr>"
    using st by (auto simp: fefo_calculateCost_def price_def fefo_order_def sample_layers_def
        expiry_def remainingQuantity_def Let_def)
  with quote_equals_charge [OF st, of 7 "''v''" sample_layers] st show ?thesis by metis
qed

text \<open>
  C6. Issuing by layers conserves value: under FIFO, LIFO and FEFO the cost charged is exactly
  what the book value of the layers loses, and the units issued are exactly what they lose.
\<close>

theorem issue_conserves_value:
  assumes "registry_get m = Inr st" and "m \<noteq> WeightedAverageCost" and "layers_ok ls" and "0 \<le> q"
    and "consumeLayers_of st q v ls = (Inr b, ls')"
  shows "totalCostCents b = valuation ls - valuation ls' \<and> units ls' = units ls - q \<and> bquantity b = q"
proof -
  have *: "totalCostCents b = valuation ks - valuation ls' \<and> units ls' = units ks - q \<and> bquantity b = q"
    if "layers_ok ks" "draw_down q ks = (Inr b, ls')" for ks
    using draw_down_eval [OF that(1) assms(4) that(2)] by (auto simp: min_def)
  show ?thesis
    using assms *[of "fifo_order ls"] *[of "lifo_order ls"] *[of "fefo_order ls"]
    by (cases m) (auto simp: fifo_consumeLayers_def lifo_consumeLayers_def fefo_consumeLayers_def)
qed

theorem issue_conserves_value_witness:
  "\<exists>ls'. fifo_consumeLayers 7 ''v'' sample_layers = (Inr \<lparr>bquantity = 7, totalCostCents = 720\<rparr>, ls')
    \<and> 720 = valuation sample_layers - valuation ls' \<and> units ls' = 4"
proof -
  obtain ls' where run: "fifo_consumeLayers 7 ''v'' sample_layers = (Inr \<lparr>bquantity = 7, totalCostCents = 720\<rparr>, ls')"
    by (simp add: fifo_consumeLayers_def draw_down_def fifo_order_def sample_layers_def
        remainingQuantity_def consume_def Let_def)
  have g: "registry_get FIFO = Inr \<lparr>calculateCost_of = fifo_calculateCost, consumeLayers_of = fifo_consumeLayers\<rparr>"
    by simp
  from issue_conserves_value [OF g, of sample_layers 7 "''v''" _ ls'] run show ?thesis by simp
qed

text \<open>
  FEFO takes the goods that expire first: after an issue, returned or thrown, a layer was
  only drawn from if every layer that expires before it is empty.
\<close>

theorem fefo_expiry_order:
  assumes "layers_ok ls" and "0 \<le> q" and "fefo_consumeLayers q v ls = (r, ls')"
    and "k \<in> set ls'" and "l \<in> set ls'" and "expiry k < expiry l" and "l \<notin> set ls"
  shows "isFullyConsumed k"
proof -
  let ?xs = "fefo_order ls"
  obtain u t where run: "consume_loop ?xs q 0 = (ls', u, t)"
    using assms(3) by (auto simp: fefo_consumeLayers_def draw_down_def Let_def split: prod.splits if_splits)
  have ok: "layers_ok ?xs" using assms(1) by simp
  have same: "list_all2 same_layer ?xs ls'" by (rule consume_loop_facts(5) [OF ok assms(2) run])
  then have len: "length ls' = length ?xs" by (simp add: list_all2_lengthD)
  have exp: "expiry (ls' ! n) = expiry (?xs ! n)" if "n < length ls'" for n
    using list_all2_nthD2 [OF same that] by (auto simp: same_layer_def expiry_def)
  from assms(4,5) obtain i j where i: "i < length ls'" "k = ls' ! i" and j: "j < length ls'" "l = ls' ! j"
    by (auto simp: in_set_conv_nth)
  have "?xs ! j \<in> set ls" using j len by (metis fefo_order_def nth_mem set_sort)
  with assms(7) j have changed: "ls' ! j \<noteq> ?xs ! j" by auto
  have "i < j"
  proof (rule ccontr)
    assume "\<not> i < j"
    moreover have "sorted (map expiry ?xs)" by (simp add: fefo_order_def)
    ultimately have "expiry (?xs ! j) \<le> expiry (?xs ! i)"
      using i j len by (auto simp: sorted_iff_nth_mono)
    with exp i j assms(6) show False by simp
  qed
  with consume_loop_order [OF ok assms(2) run _ changed] j len i show ?thesis by simp
qed

theorem fefo_expiry_order_witness:
  "\<exists>k \<in> set (snd (fefo_consumeLayers 7 ''v'' sample_layers)). lid k = ''a'' \<and> isFullyConsumed k"
proof -
  let ?k = "\<lparr>lid = ''a'', lvariant = ''v'', initialQuantity = 10, unitCostCents = 100, receivedAt = 10,
      lserial = None, llot = Some \<lparr>lotNumber = ''L1'', expirationDate = 90\<rparr>, consumedQuantity = 10\<rparr>"
  let ?l = "\<lparr>lid = ''b'', lvariant = ''v'', initialQuantity = 5, unitCostCents = 120, receivedAt = 20,
      lserial = None, llot = None, consumedQuantity = 1\<rparr>"
  have run: "fefo_consumeLayers 7 ''v'' sample_layers = (Inr \<lparr>bquantity = 7, totalCostCents = 720\<rparr>, [?k, ?l])"
    by (simp add: fefo_consumeLayers_def draw_down_def fefo_order_def sample_layers_def expiry_def
        remainingQuantity_def consume_def Let_def)
  have "isFullyConsumed ?k"
    by (rule fefo_expiry_order [OF _ _ run, where l = ?l])
       (simp_all add: sample_layers_def expiry_def less_instant_def layer_ok_def)
  with run show ?thesis by simp
qed

text \<open>
  A refused issue still empties the layer objects: under FIFO, LIFO and FEFO, when there are
  not enough units the error is thrown after every layer in memory has been consumed in full.
\<close>

theorem refused_issue_drains_layers:
  assumes "registry_get m = Inr st" and "m \<noteq> WeightedAverageCost" and "layers_ok ls" and "units ls < q"
  shows "fst (consumeLayers_of st q v ls) = Inl insufficient_layers
    \<and> units (snd (consumeLayers_of st q v ls)) = 0"
proof -
  have q: "0 \<le> q" using units_nonneg [OF assms(3)] assms(4) by simp
  have *: "fst (draw_down q ks) = Inl insufficient_layers \<and> units (snd (draw_down q ks)) = 0"
    if ks: "layers_ok ks" "units ks = units ls" for ks
  proof -
    obtain r ys where run: "draw_down q ks = (r, ys)" by fastforce
    note facts = draw_down_eval [OF ks(1) q run]
    with ks assms(4) run show ?thesis
      by (auto simp: draw_down_def isl_def Let_def min_def split: prod.splits if_splits)
  qed
  show ?thesis
    using assms *[of "fifo_order ls"] *[of "lifo_order ls"] *[of "fefo_order ls"]
    by (cases m) (auto simp: fifo_consumeLayers_def lifo_consumeLayers_def fefo_consumeLayers_def)
qed

theorem refused_issue_drains_layers_witness:
  "\<exists>st. registry_get FIFO = Inr st \<and> units (snd (consumeLayers_of st 12 ''v'' sample_layers)) = 0"
  using refused_issue_drains_layers [OF registry_get.simps(1), of sample_layers 12 "''v''"] by simp

end
