(* ===== verification/CostLayers.thy ===== *)
theory CostLayers
  imports Costing
begin

text \<open>
  Costing of issues over stored layers: src/src/domain/services/CostLayerService.ts over the
  interface src/src/domain/repositories/IInventoryCostLayerRepository.ts, and its provider
  src/src/infrastructure/persistence/PostgresInventoryCostLayerRepository.ts. The service takes the
  repository as an argument, as its constructor does. The provider's state is the table
  \<open>inventory_cost_layers\<close>; rows that tie in the ORDER BY come in table order, and one
  INSERT .. ON CONFLICT DO UPDATE that names a row twice is an error, as PostgreSQL documents.
\<close>

section \<open>The repository interface\<close>

datatype layer_order = ExpirationAsc | ReceivedDesc | ReceivedAsc

record 's layer_repo =
  getActiveLayers :: "'s \<Rightarrow> ident \<Rightarrow> layer_order \<Rightarrow> cost_layer list"
  getActiveLayersBatch :: "'s \<Rightarrow> ident list \<Rightarrow> layer_order \<Rightarrow> (ident, cost_layer list) js_map"
  saveLayer :: "cost_layer \<Rightarrow> ('s, unit) oper"
  saveLayerBatch :: "cost_layer list \<Rightarrow> ('s, unit) oper"
  findLayerBySerial :: "'s \<Rightarrow> ident \<Rightarrow> string \<Rightarrow> cost_layer option"

record issue_item =
  it_variant :: ident
  it_quantity :: number

definition order_of :: "costing_method \<Rightarrow> layer_order" where
  "order_of m = (if m = FEFO then ExpirationAsc else if m = LIFO then ReceivedDesc else ReceivedAsc)"

section \<open>Quotes\<close>

definition calculateWeightedAverageCostSync :: "cost_layer list \<Rightarrow> number \<Rightarrow> string \<Rightarrow> cost_breakdown result" where
  "calculateWeightedAverageCostSync ls q v = (let (totalUnits, totalValue) = sum_layers ls 0 0
     in if totalUnits = 0 then Inl (Error ''Insufficient inventory for variant {}'' [S v])
        else let avgCostCents = totalValue / totalUnits
             in Inr \<lparr>bquantity = q, totalCostCents = js_round (q * avgCostCents)\<rparr>)"

definition calculateWeightedAverageCost ::
    "'s layer_repo \<Rightarrow> 's \<Rightarrow> ident \<Rightarrow> number \<Rightarrow> cost_breakdown result" where
  "calculateWeightedAverageCost repo s v q =
     (case calculateWeightedAverageCostSync (getActiveLayers repo s v ReceivedAsc) q v of
        Inl e \<Rightarrow> Inl (Error ''Insufficient inventory for variant {}'' [S v])
      | Inr b \<Rightarrow> Inr b)"

definition specific_identification_error :: error where
  "specific_identification_error =
     Error ''SpecificIdentification requires serial numbers. Use a dedicated path.'' []"

definition svc_calculateCost ::
    "'s layer_repo \<Rightarrow> 's \<Rightarrow> ident \<Rightarrow> number \<Rightarrow> costing_method \<Rightarrow> cost_breakdown result" where
  "svc_calculateCost repo s v q m =
     (if m = SpecificIdentification then Inl specific_identification_error
      else if m = WeightedAverageCost then calculateWeightedAverageCost repo s v q
      else let activeLayers = getActiveLayers repo s v (order_of m)
           in result_bind (registry_get m) (\<lambda>st. calculateCost_of st activeLayers q v))"

definition calculateConsumedCost :: "cost_layer list \<Rightarrow> number \<Rightarrow> cost_breakdown result" where
  "calculateConsumedCost ls q = (let (remaining, totalCost) = cost_loop ls q 0
     in if 0 < remaining then Inl insufficient_layers
        else Inr \<lparr>bquantity = q, totalCostCents = totalCost\<rparr>)"

definition costForSerial :: "'s layer_repo \<Rightarrow> 's \<Rightarrow> ident \<Rightarrow> string \<Rightarrow> cost_breakdown result" where
  "costForSerial repo s v sn = (case findLayerBySerial repo s v sn of
       None \<Rightarrow> Inl (Error ''No cost layer found for serial {}'' [S sn])
     | Some l \<Rightarrow> Inr \<lparr>bquantity = 1, totalCostCents = unitCostCents l\<rparr>)"

definition method_for :: "(ident, costing_method) js_map \<Rightarrow> costing_method \<Rightarrow> issue_item \<Rightarrow> costing_method" where
  "method_for methods dflt i = lookup_or dflt methods (it_variant i)"

text \<open>\<open>methodGroups\<close>: the items of a batch, grouped by costing method in order of first use.\<close>

definition group_by :: "('a \<Rightarrow> costing_method) \<Rightarrow> 'a list \<Rightarrow> (costing_method, 'a list) js_map" where
  "group_by f xs = fold (\<lambda>x g. AList.update (f x) (lookup_or [] g (f x) @ [x]) g) xs []"

definition quote_item ::
    "costing_method \<Rightarrow> (ident, cost_layer list) js_map \<Rightarrow> issue_item \<Rightarrow> cost_breakdown option" where
  "quote_item m active i = (let activeLayers = lookup_or [] active (it_variant i) in
     case (if m = WeightedAverageCost
           then calculateWeightedAverageCostSync activeLayers (it_quantity i) (it_variant i)
           else calculateConsumedCost activeLayers (it_quantity i)) of
       Inl e \<Rightarrow> None | Inr b \<Rightarrow> Some b)"

definition quote_group ::
    "'s layer_repo \<Rightarrow> 's \<Rightarrow> costing_method \<times> (issue_item \<times> nat) list
     \<Rightarrow> cost_breakdown option list \<Rightarrow> cost_breakdown option list" where
  "quote_group repo s g results = (let (m, groupItems) = g;
       active = getActiveLayersBatch repo s (map (it_variant \<circ> fst) groupItems) (order_of m)
     in fold (\<lambda>(i, index) rs. rs[index := quote_item m active i]) groupItems results)"

definition calculateCostBatch ::
    "'s layer_repo \<Rightarrow> 's \<Rightarrow> issue_item list \<Rightarrow> costing_method \<Rightarrow> (ident, costing_method) js_map
     \<Rightarrow> cost_breakdown option list" where
  "calculateCostBatch repo s items globalMethod methods =
     (let groups = group_by (\<lambda>(i, index). method_for methods globalMethod i) (zip items [0..<length items])
      in fold (quote_group repo s) groups (replicate (length items) None))"

section \<open>Issues\<close>

definition consume_with ::
    "'s layer_repo \<Rightarrow> ident \<Rightarrow> number \<Rightarrow> costing_method \<Rightarrow> ('s, cost_breakdown) oper" where
  "consume_with repo v q m = op_get (\<lambda>s.
     let activeLayers = getActiveLayers repo s v (order_of m) in
     op_bind (op_lift (registry_get m)) (\<lambda>st.
       case consumeLayers_of st q v activeLayers of
         (Inl e, sortedLayers) \<Rightarrow> op_throw e
       | (Inr breakdown, sortedLayers) \<Rightarrow>
           op_seq (if 0 < length sortedLayers then saveLayerBatch repo sortedLayers else op_return ())
             (op_return breakdown)))"

definition svc_consumeLayers ::
    "'s layer_repo \<Rightarrow> ident \<Rightarrow> number \<Rightarrow> costing_method \<Rightarrow> ('s, cost_breakdown) oper" where
  "svc_consumeLayers repo v q m =
     (if m = SpecificIdentification then op_throw specific_identification_error
      else if m = WeightedAverageCost then consume_with repo v q FIFO
      else consume_with repo v q m)"

text \<open>
  A batch keeps the loaded layer objects; items of one variant share them, and the list to save
  holds references to them, so it is saved with their last contents.
\<close>

record issue_batch =
  loaded :: "(ident, cost_layer list) js_map"
  breakdowns :: "(ident, cost_breakdown) js_map"
  batch_totalCostCents :: number
  layersToSave :: "ident list"

definition write_back :: "cost_layer list \<Rightarrow> cost_layer list \<Rightarrow> cost_layer list" where
  "write_back objects changed =
     map (\<lambda>l. case find (\<lambda>c. lid c = lid l) changed of None \<Rightarrow> l | Some c \<Rightarrow> c) objects"

definition add_breakdown :: "cost_breakdown \<Rightarrow> cost_breakdown option \<Rightarrow> cost_breakdown" where
  "add_breakdown b old = (case old of None \<Rightarrow> b
     | Some o' \<Rightarrow> \<lparr>bquantity = bquantity o' + bquantity b,
                    totalCostCents = totalCostCents o' + totalCostCents b\<rparr>)"

definition issue_one :: "costing_method \<Rightarrow> issue_item \<Rightarrow> (issue_batch, unit) oper" where
  "issue_one m i = op_get (\<lambda>w.
     let v = it_variant i; activeLayers = lookup_or [] (loaded w) v;
         activeMethod = (if m = WeightedAverageCost then FIFO else m) in
     op_bind (op_lift (registry_get activeMethod)) (\<lambda>st.
     let (r, sortedLayers) = consumeLayers_of st (it_quantity i) v activeLayers in
     op_seq (op_modify (\<lambda>w. w\<lparr>loaded := AList.update v (write_back activeLayers sortedLayers) (loaded w)\<rparr>))
     (op_bind (op_lift r) (\<lambda>b. op_modify (\<lambda>w.
        w\<lparr>breakdowns := AList.update v (add_breakdown b (map_of (breakdowns w) v)) (breakdowns w),
          batch_totalCostCents := batch_totalCostCents w + totalCostCents b,
          layersToSave := layersToSave w @ map lid sortedLayers\<rparr>)))))"

definition issue_group ::
    "'s layer_repo \<Rightarrow> 's \<Rightarrow> costing_method \<times> issue_item list \<Rightarrow> (issue_batch, unit) oper" where
  "issue_group repo s g = (let (m, groupItems) = g in
     op_seq (op_modify (\<lambda>w. w\<lparr>loaded :=
         fold (\<lambda>(v, ls) l. AList.update v ls l)
           (getActiveLayersBatch repo s (map it_variant groupItems) (order_of m)) (loaded w)\<rparr>))
     (op_each (issue_one m) groupItems))"

definition objects_to_save :: "issue_batch \<Rightarrow> cost_layer list" where
  "objects_to_save w = List.map_filter (\<lambda>i. find (\<lambda>l. lid l = i) (concat (map snd (loaded w)))) (layersToSave w)"

definition consumeLayersBatch ::
    "'s layer_repo \<Rightarrow> issue_item list \<Rightarrow> (ident, costing_method) js_map
     \<Rightarrow> ('s, (ident, cost_breakdown) js_map \<times> number) oper" where
  "consumeLayersBatch repo items methods = op_get (\<lambda>s.
     case op_each (issue_group repo s) (group_by (method_for methods FIFO) items)
            \<lparr>loaded = [], breakdowns = [], batch_totalCostCents = 0, layersToSave = []\<rparr> of
       (Inl e, w) \<Rightarrow> op_throw e
     | (Inr _, w) \<Rightarrow> op_seq (saveLayerBatch repo (objects_to_save w))
         (op_return (breakdowns w, batch_totalCostCents w)))"

text \<open>The calls that are kept for older callers.\<close>

definition calculateFifoCost :: "'s layer_repo \<Rightarrow> 's \<Rightarrow> ident \<Rightarrow> number \<Rightarrow> cost_breakdown result" where
  "calculateFifoCost repo s v q = svc_calculateCost repo s v q FIFO"

definition consumeFifoLayers :: "'s layer_repo \<Rightarrow> ident \<Rightarrow> number \<Rightarrow> ('s, cost_breakdown) oper" where
  "consumeFifoLayers repo v q = svc_consumeLayers repo v q FIFO"

definition consumeFifoLayersBatch ::
    "'s layer_repo \<Rightarrow> issue_item list \<Rightarrow> ('s, (ident, cost_breakdown) js_map \<times> number) oper" where
  "consumeFifoLayersBatch repo items = consumeLayersBatch repo items []"

section \<open>The table of layers\<close>

type_synonym layer_table = "cost_layer list"

definition pg_upsert :: "cost_layer \<Rightarrow> layer_table \<Rightarrow> layer_table" where
  "pg_upsert l tbl =
     (if lid l \<in> set (map lid tbl)
      then map (\<lambda>r. if lid r = lid l then r\<lparr>consumedQuantity := consumedQuantity l\<rparr> else r) tbl
      else tbl @ [l])"

definition pg_saveLayer :: "cost_layer \<Rightarrow> (layer_table, unit) oper" where
  "pg_saveLayer l = op_modify (pg_upsert l)"

definition pg_saveBatch :: "cost_layer list \<Rightarrow> (layer_table, unit) oper" where
  "pg_saveBatch ls =
     (if ls = [] then op_return ()
      else op_seq (op_reject (\<not> distinct (map lid ls))
             (Error ''ON CONFLICT DO UPDATE command cannot affect row a second time'' []))
           (op_modify (fold pg_upsert ls)))"

definition is_active :: "cost_layer \<Rightarrow> bool" where
  "is_active l \<longleftrightarrow> consumedQuantity l < initialQuantity l"

definition order_rows :: "layer_order \<Rightarrow> cost_layer list \<Rightarrow> cost_layer list" where
  "order_rows ord rows = (case ord of
       ExpirationAsc \<Rightarrow> sort_key expiry (sort_key receivedAt rows)
     | ReceivedDesc \<Rightarrow> sort_key (\<lambda>l. - receivedAt l) rows
     | ReceivedAsc \<Rightarrow> sort_key receivedAt rows)"

definition pg_getActiveLayers :: "layer_table \<Rightarrow> ident \<Rightarrow> layer_order \<Rightarrow> cost_layer list" where
  "pg_getActiveLayers tbl v ord = order_rows ord (filter (\<lambda>l. lvariant l = v \<and> is_active l) tbl)"

definition push_row :: "cost_layer \<Rightarrow> (ident, cost_layer list) js_map \<Rightarrow> (ident, cost_layer list) js_map" where
  "push_row l mp = (case map_of mp (lvariant l) of None \<Rightarrow> mp
     | Some arr \<Rightarrow> AList.update (lvariant l) (arr @ [l]) mp)"

definition pg_getActiveLayersBatch ::
    "layer_table \<Rightarrow> ident list \<Rightarrow> layer_order \<Rightarrow> (ident, cost_layer list) js_map" where
  "pg_getActiveLayersBatch tbl vs ord =
     (if vs = [] then []
      else fold push_row (order_rows ord (filter (\<lambda>l. lvariant l \<in> set vs \<and> is_active l) tbl))
             (fold (\<lambda>v m. AList.update v [] m) vs []))"

definition pg_findBySerial :: "layer_table \<Rightarrow> ident \<Rightarrow> string \<Rightarrow> cost_layer option" where
  "pg_findBySerial tbl v sn = find (\<lambda>l. lvariant l = v \<and> lserial l = Some sn) tbl"

definition pg_layers :: "layer_table layer_repo" where
  "pg_layers = \<lparr>getActiveLayers = pg_getActiveLayers, getActiveLayersBatch = pg_getActiveLayersBatch,
     saveLayer = pg_saveLayer, saveLayerBatch = pg_saveBatch, findLayerBySerial = pg_findBySerial\<rparr>"

section \<open>Facts about the table\<close>

definition table_ok :: "layer_table \<Rightarrow> bool" where
  "table_ok tbl \<longleftrightarrow> layers_ok tbl \<and> distinct (map lid tbl)"

abbreviation variant_units :: "layer_table \<Rightarrow> ident \<Rightarrow> number" where
  "variant_units tbl v \<equiv> units (filter (\<lambda>l. lvariant l = v) tbl)"

abbreviation layer_sum :: "(ident \<Rightarrow> bool) \<Rightarrow> (cost_layer \<Rightarrow> number) \<Rightarrow> layer_table \<Rightarrow> number" where
  "layer_sum Q f tbl \<equiv> \<Sum>l\<leftarrow>filter (\<lambda>l. Q (lvariant l)) tbl. f l"

lemma set_order_rows [simp]: "set (order_rows ord rows) = set rows"
  by (cases ord) (simp_all add: order_rows_def)

lemma mset_order_rows [simp]: "mset (order_rows ord rows) = mset rows"
  by (cases ord) (simp_all add: order_rows_def)

lemma units_order_rows [simp]: "units (order_rows ord rows) = units rows"
  unfolding units_def by (rule sum_list_mset_cong) simp

lemma filter_order_rows: "filter P (order_rows ord rows) = order_rows ord (filter P rows)"
  by (cases ord) (simp_all add: order_rows_def filter_sort)

lemma distinct_order_rows [simp]: "distinct (map f (order_rows ord rows)) = distinct (map f rows)"
  by (metis mset_map mset_order_rows mset_eq_imp_distinct_iff)

lemma sort_key_id: "sorted (map f xs) \<Longrightarrow> sort_key f xs = xs"
  by (rule sort_key_id_if_sorted)

lemma ordered_rows_fixed:
  "fifo_order (order_rows ReceivedAsc rows) = order_rows ReceivedAsc rows"
  "lifo_order (order_rows ReceivedDesc rows) = order_rows ReceivedDesc rows"
  "fefo_order (order_rows ExpirationAsc rows) = order_rows ExpirationAsc rows"
  by (simp_all add: fifo_order_def lifo_order_def fefo_order_def order_rows_def sort_key_id)

lemma units_active:
  "layers_ok tbl \<Longrightarrow> units (filter (\<lambda>l. lvariant l = v \<and> is_active l) tbl) = variant_units tbl v"
  by (induction tbl) (auto simp: is_active_def remainingQuantity_def layer_ok_def)

lemma active_ok: "table_ok tbl \<Longrightarrow> layers_ok (pg_getActiveLayers tbl v ord)"
  by (auto simp: table_ok_def layers_ok_def pg_getActiveLayers_def)

lemma pg_units: "table_ok tbl \<Longrightarrow> units (pg_getActiveLayers tbl v ord) = variant_units tbl v"
  by (simp add: pg_getActiveLayers_def units_active table_ok_def)

lemma fold_push_rows:
  "map_of (fold push_row rows mp) v = (case map_of mp v of None \<Rightarrow> None
     | Some arr \<Rightarrow> Some (arr @ filter (\<lambda>l. lvariant l = v) rows))"
  by (induction rows arbitrary: mp) (auto simp: push_row_def split: option.splits)

lemma fold_init_rows: "map_of (fold (\<lambda>v m. AList.update v [] m) vs m) v =
    (if v \<in> set vs then Some [] else map_of m v)"
  by (induction vs arbitrary: m) auto

lemma pg_batch_lookup:
  "v \<in> set vs \<Longrightarrow> lookup_or [] (pg_getActiveLayersBatch tbl vs ord) v = pg_getActiveLayers tbl v ord"
proof -
  assume "v \<in> set vs"
  moreover from this have "vs \<noteq> []" by auto
  moreover from \<open>v \<in> set vs\<close> have "filter (\<lambda>l. lvariant l = v) (filter (\<lambda>l. lvariant l \<in> set vs \<and> is_active l) tbl)
     = filter (\<lambda>l. lvariant l = v \<and> is_active l) tbl"
    by (induction tbl) auto
  ultimately show ?thesis
    by (simp add: pg_getActiveLayersBatch_def pg_getActiveLayers_def lookup_or_def fold_push_rows
        fold_init_rows filter_order_rows)
qed

lemma same_layerD:
  assumes "same_layer l l'"
  shows "lid l' = lid l" "lvariant l' = lvariant l" "l\<lparr>consumedQuantity := consumedQuantity l'\<rparr> = l'"
  using assms by (auto simp: same_layer_def)

lemma pg_upsert_row:
  assumes "table_ok tbl" and "l \<in> set tbl" and "same_layer l l'" and "layer_ok l'"
  shows "table_ok (pg_upsert l' tbl)"
    and "layer_sum Q f (pg_upsert l' tbl) = layer_sum Q f tbl - (if Q (lvariant l) then f l - f l' else 0)"
    and "k \<in> set tbl \<Longrightarrow> lid k \<noteq> lid l \<Longrightarrow> k \<in> set (pg_upsert l' tbl)"
    and "w \<noteq> lvariant l \<Longrightarrow> filter (\<lambda>r. lvariant r = w \<and> P r) (pg_upsert l' tbl) = filter (\<lambda>r. lvariant r = w \<and> P r) tbl"
    and "map lid (pg_upsert l' tbl) = map lid tbl"
proof -
  note l' = same_layerD [OF assms(3)]
  let ?f = "\<lambda>r. if lid r = lid l' then r\<lparr>consumedQuantity := consumedQuantity l'\<rparr> else r"
  have tbl: "pg_upsert l' tbl = map ?f tbl" using assms(2) l'(1) by (simp add: pg_upsert_def)
  have one: "r = l" if "r \<in> set tbl" "lid r = lid l'" for r
    using that assms(1,2) l'(1) by (auto simp: table_ok_def distinct_map dest: inj_onD)
  have f: "?f r = (if r = l then l' else r)" if "r \<in> set tbl" for r
    using one that l' by auto
  have mapf: "map ?f tbl = map (\<lambda>r. if r = l then l' else r) tbl"
    using f by (intro map_cong) auto
  have ids: "map lid (map (\<lambda>r. if r = l then l' else r) tbl) = map lid tbl" using l'(1) by simp
  then show "map lid (pg_upsert l' tbl) = map lid tbl" unfolding tbl mapf .
  have "distinct (map lid (map (\<lambda>r. if r = l then l' else r) tbl))"
    unfolding ids using assms(1) by (simp add: table_ok_def)
  moreover have "layers_ok (map (\<lambda>r. if r = l then l' else r) tbl)"
    using assms(1,4) by (auto simp: table_ok_def layers_ok_def)
  ultimately show "table_ok (pg_upsert l' tbl)"
    unfolding tbl mapf table_ok_def by (rule conjI [rotated])
  show "k \<in> set tbl \<Longrightarrow> lid k \<noteq> lid l \<Longrightarrow> k \<in> set (pg_upsert l' tbl)"
    unfolding tbl mapf by auto
  have "distinct tbl" using assms(1) by (simp add: table_ok_def distinct_map)
  with assms(2) show "layer_sum Q f (pg_upsert l' tbl) = layer_sum Q f tbl - (if Q (lvariant l) then f l - f l' else 0)"
    unfolding tbl mapf
  proof (induction tbl)
    case Nil
    then show ?case by simp
  next
    case (Cons r rs)
    show ?case
    proof (cases "r = l")
      case True
      with Cons.prems have "map (\<lambda>r. if r = l then l' else r) rs = rs" by (intro map_idI) auto
      with True l'(2) show ?thesis by simp
    next
      case False
      with Cons show ?thesis by simp
    qed
  qed
  show "w \<noteq> lvariant l \<Longrightarrow> filter (\<lambda>r. lvariant r = w \<and> P r) (pg_upsert l' tbl) = filter (\<lambda>r. lvariant r = w \<and> P r) tbl"
    unfolding tbl mapf using l'(2) by (induction tbl) auto
qed

lemma pg_upserts:
  assumes "table_ok tbl" and "set ls \<subseteq> set tbl" and "distinct (map lid ls)"
    and "list_all2 same_layer ls ls'" and "layers_ok ls'" and "\<forall>l \<in> set ls. lvariant l = v"
  shows "table_ok (fold pg_upsert ls' tbl)
    \<and> map lid (fold pg_upsert ls' tbl) = map lid tbl
    \<and> layer_sum Q f (fold pg_upsert ls' tbl) = layer_sum Q f tbl - (if Q v then (\<Sum>l\<leftarrow>ls. f l) - (\<Sum>l\<leftarrow>ls'. f l) else 0)
    \<and> (\<forall>w P. w \<noteq> v \<longrightarrow> filter (\<lambda>r. lvariant r = w \<and> P r) (fold pg_upsert ls' tbl) = filter (\<lambda>r. lvariant r = w \<and> P r) tbl)"
  using assms(4) assms(1-3) assms(5,6)
proof (induction arbitrary: tbl rule: list_all2_induct)
  case Nil
  then show ?case by simp
next
  case (Cons l ls l' ls')
  from Cons.prems have row: "table_ok tbl" "l \<in> set tbl" "same_layer l l'" "layer_ok l'"
    using Cons.hyps by auto
  note up = pg_upsert_row [OF row]
  have "set ls \<subseteq> set (pg_upsert l' tbl)"
  proof
    fix k assume k: "k \<in> set ls"
    with Cons.prems(3) have "lid k \<noteq> lid l" by (metis distinct.simps(2) image_eqI list.simps(9) set_map)
    with k Cons.prems(2) show "k \<in> set (pg_upsert l' tbl)" by (intro up(3)) auto
  qed
  with Cons.IH [OF up(1)] Cons.prems up(2) [of f Q] up(4,5) show ?case by auto
qed

lemma pg_save:
  assumes "table_ok tbl" and "list_all2 same_layer (pg_getActiveLayers tbl v ord) ls'" and "layers_ok ls'"
  obtains tbl' where "pg_saveBatch ls' tbl = (Inr (), tbl')" and "table_ok tbl'"
    and "variant_units tbl' v = units ls'"
    and "\<And>w o'. w \<noteq> v \<Longrightarrow> pg_getActiveLayers tbl' w o' = pg_getActiveLayers tbl w o'"
proof -
  let ?ls = "pg_getActiveLayers tbl v ord"
  have sub: "set ?ls \<subseteq> set tbl" "\<forall>l \<in> set ?ls. lvariant l = v" by (auto simp: pg_getActiveLayers_def)
  have d: "distinct (map lid ?ls)"
    using assms(1) by (simp add: pg_getActiveLayers_def table_ok_def distinct_map_filter)
  have ids: "map lid ls' = map lid ?ls"
    using assms(2) by (induction rule: list_all2_induct) (auto dest: same_layerD)
  from d ids have run: "pg_saveBatch ls' tbl = (Inr (), fold pg_upsert ls' tbl)"
    by (simp add: pg_saveBatch_def oper_simps)
  note up = pg_upserts [OF assms(1) sub(1) d assms(2,3) sub(2)]
  show ?thesis
  proof (rule that [OF run])
    show "table_ok (fold pg_upsert ls' tbl)" using up [of remainingQuantity "\<lambda>w. w = v"] by simp
    show "variant_units (fold pg_upsert ls' tbl) v = units ls'"
      using up [of remainingQuantity "\<lambda>w. w = v"] pg_units [OF assms(1), of v ord] by (simp add: units_def)
    show "w \<noteq> v \<Longrightarrow> pg_getActiveLayers (fold pg_upsert ls' tbl) w o' = pg_getActiveLayers tbl w o'" for w o'
      using up [of remainingQuantity "\<lambda>w. w = v"] by (simp add: pg_getActiveLayers_def)
  qed
qed

text \<open>The dispatching on the method in \<open>consumeLayers\<close>: WeightedAverageCost goes the FIFO way.\<close>

definition effective :: "costing_method \<Rightarrow> costing_method" where
  "effective m = (if m = WeightedAverageCost then FIFO else m)"

section \<open>What the service relies on\<close>

text \<open>
  The contract of IInventoryCostLayerRepository: the active layers of a variant are sound, come in
  the order asked for, add up to the stock of the variant whatever the order, are the same from the
  batch query, and can be saved after units were taken from them.
\<close>

locale layer_repository =
  fixes repo :: "'s layer_repo" and repo_ok :: "'s \<Rightarrow> bool" and stock_of :: "'s \<Rightarrow> ident \<Rightarrow> number"
  assumes active_layers_ok: "repo_ok s \<Longrightarrow> layers_ok (getActiveLayers repo s v ord)"
    and active_units: "repo_ok s \<Longrightarrow> units (getActiveLayers repo s v ord) = stock_of s v"
    and active_fifo: "fifo_order (getActiveLayers repo s v ReceivedAsc) = getActiveLayers repo s v ReceivedAsc"
    and active_lifo: "lifo_order (getActiveLayers repo s v ReceivedDesc) = getActiveLayers repo s v ReceivedDesc"
    and active_fefo: "fefo_order (getActiveLayers repo s v ExpirationAsc) = getActiveLayers repo s v ExpirationAsc"
    and active_batch: "v \<in> set vs \<Longrightarrow>
      lookup_or [] (getActiveLayersBatch repo s vs ord) v = getActiveLayers repo s v ord"
    and save_layers: "repo_ok s \<Longrightarrow> list_all2 same_layer (getActiveLayers repo s v ord) ls' \<Longrightarrow> layers_ok ls' \<Longrightarrow>
      \<exists>s'. saveLayerBatch repo ls' s = (Inr (), s') \<and> repo_ok s' \<and> stock_of s' = (stock_of s)(v := units ls')"
begin

lemma layered_strategy:
  assumes "m \<noteq> WeightedAverageCost" and "m \<noteq> SpecificIdentification"
  obtains st where "registry_get m = Inr st"
    and "\<And>s v q. consumeLayers_of st q v (getActiveLayers repo s v (order_of m))
          = draw_down q (getActiveLayers repo s v (order_of m))"
    and "\<And>s v q. calculateCost_of st (getActiveLayers repo s v (order_of m)) q v
          = price (getActiveLayers repo s v (order_of m)) q"
  using assms that
  by (cases m) (auto simp: order_of_def fifo_consumeLayers_def lifo_consumeLayers_def
      fefo_consumeLayers_def fifo_calculateCost_def lifo_calculateCost_def fefo_calculateCost_def
      active_fifo active_lifo active_fefo)

lemma consume_with_covered:
  assumes "repo_ok s" and "0 \<le> q" and "m \<noteq> WeightedAverageCost" and "m \<noteq> SpecificIdentification"
    and "q \<le> stock_of s v"
  shows "\<exists>b s'. consume_with repo v q m s = (Inr b, s') \<and> repo_ok s' \<and> bquantity b = q
    \<and> stock_of s' = (stock_of s)(v := stock_of s v - q) \<and> svc_calculateCost repo s v q m = Inr b"
proof -
  let ?act = "getActiveLayers repo s v (order_of m)"
  obtain st where st: "registry_get m = Inr st"
    and take_eq: "consumeLayers_of st q v ?act = draw_down q ?act"
    and quote_eq: "calculateCost_of st ?act q v = price ?act q"
    by (rule layered_strategy [OF assms(3,4)]) blast
  obtain r ls' where run: "draw_down q ?act = (r, ls')" by fastforce
  note facts = draw_down_eval [OF active_layers_ok [OF assms(1)] assms(2) run]
  have un: "units ?act = stock_of s v" by (rule active_units [OF assms(1)])
  with facts(3) assms(5) obtain b where r: "r = Inr b" by (cases r) auto
  have un': "units ls' = stock_of s v - q" using facts(4) un assms(5) by (simp add: min_def)
  from save_layers [OF assms(1) facts(2) facts(1)] un' obtain s' where
    saved: "saveLayerBatch repo ls' s = (Inr (), s')" "repo_ok s'" "stock_of s' = (stock_of s)(v := stock_of s v - q)"
    by auto
  have quote: "svc_calculateCost repo s v q m = Inr b"
    using st quote_eq run r assms(3,4) by (simp add: svc_calculateCost_def price_eq_draw_down)
  show ?thesis
  proof (cases "ls' = []")
    case True
    with un' have "stock_of s v - q = 0" by simp
    moreover from True facts(2) un have "stock_of s v = 0" by simp
    ultimately have "stock_of s = (stock_of s)(v := stock_of s v - q)" by (auto simp: fun_eq_iff)
    with True st take_eq run r quote assms(1) facts(5) [OF r] show ?thesis
      by (simp add: consume_with_def oper_simps Let_def)
  next
    case False
    with st take_eq run r quote saved facts(5) [OF r] show ?thesis
      by (simp add: consume_with_def oper_simps Let_def)
  qed
qed

lemma consume_with_short:
  assumes "repo_ok s" and "0 \<le> q" and "m \<noteq> WeightedAverageCost" and "m \<noteq> SpecificIdentification"
    and "stock_of s v < q"
  shows "\<exists>e. consume_with repo v q m s = (Inl e, s)"
proof -
  let ?act = "getActiveLayers repo s v (order_of m)"
  obtain st where st: "registry_get m = Inr st" and take_eq: "consumeLayers_of st q v ?act = draw_down q ?act"
    by (rule layered_strategy [OF assms(3,4)]) blast
  obtain r ls' where run: "draw_down q ?act = (r, ls')" by fastforce
  have "isl r"
    using draw_down_eval(3) [OF active_layers_ok [OF assms(1)] assms(2) run] active_units [OF assms(1)] assms(5)
    by simp
  then obtain e where "r = Inl e" by (auto simp: isl_def)
  with st take_eq run show ?thesis by (simp add: consume_with_def oper_simps Let_def)
qed

lemma svc_consume_effective:
  "m \<noteq> SpecificIdentification \<Longrightarrow> svc_consumeLayers repo v q m = consume_with repo v q (effective m)"
  by (simp add: svc_consumeLayers_def effective_def)

lemma svc_consume_spec:
  assumes "repo_ok s" and "0 \<le> q" and "m \<noteq> SpecificIdentification"
  shows "if q \<le> stock_of s v
    then \<exists>b s'. svc_consumeLayers repo v q m s = (Inr b, s') \<and> repo_ok s' \<and> bquantity b = q
      \<and> stock_of s' = (stock_of s)(v := stock_of s v - q)
    else \<exists>e. svc_consumeLayers repo v q m s = (Inl e, s)"
proof -
  have "effective m \<noteq> WeightedAverageCost" "effective m \<noteq> SpecificIdentification"
    using assms(3) by (simp_all add: effective_def)
  with consume_with_covered [OF assms(1,2), of "effective m" v]
    consume_with_short [OF assms(1,2), of "effective m" v] svc_consume_effective [OF assms(3)]
  show ?thesis by (auto simp: not_le)
qed

lemma quote_item_eq:
  assumes "it_variant i \<in> set vs" and "m \<noteq> SpecificIdentification"
  shows "quote_item m (getActiveLayersBatch repo s vs (order_of m)) i =
    (case svc_calculateCost repo s (it_variant i) (it_quantity i) m of Inl e \<Rightarrow> None | Inr b \<Rightarrow> Some b)"
proof (cases "m = WeightedAverageCost")
  case True
  then show ?thesis
    by (simp add: quote_item_def active_batch [OF assms(1)] svc_calculateCost_def
        calculateWeightedAverageCost_def order_of_def split: sum.split)
next
  case False
  obtain st where "registry_get m = Inr st"
    and "\<And>q. calculateCost_of st (getActiveLayers repo s (it_variant i) (order_of m)) q (it_variant i)
       = price (getActiveLayers repo s (it_variant i) (order_of m)) q"
    by (rule layered_strategy [OF False assms(2)]) blast
  with False assms(2) show ?thesis
    by (simp add: quote_item_def active_batch [OF assms(1)] svc_calculateCost_def price_def
        calculateConsumedCost_def Let_def split: sum.split)
qed

end

interpretation pg: layer_repository pg_layers table_ok variant_units
proof unfold_locales
  fix tbl :: layer_table and v ord ls'
  assume "table_ok tbl" and "list_all2 same_layer (getActiveLayers pg_layers tbl v ord) ls'" and "layers_ok ls'"
  then obtain tbl' where saved: "pg_saveBatch ls' tbl = (Inr (), tbl')" "table_ok tbl'"
    "variant_units tbl' v = units ls'"
    and frame: "\<And>w o'. w \<noteq> v \<Longrightarrow> pg_getActiveLayers tbl' w o' = pg_getActiveLayers tbl w o'"
    by (auto simp: pg_layers_def elim: pg_save)
  have "variant_units tbl' w = variant_units tbl w" if "w \<noteq> v" for w
    using frame [OF that, of ReceivedAsc] pg_units [OF saved(2), of w ReceivedAsc]
      pg_units [OF \<open>table_ok tbl\<close>, of w ReceivedAsc] by simp
  with saved show "\<exists>s'. saveLayerBatch pg_layers ls' tbl = (Inr (), s') \<and> table_ok s'
      \<and> variant_units s' = (variant_units tbl)(v := units ls')"
    by (auto simp: pg_layers_def fun_eq_iff)
qed (simp_all add: pg_layers_def active_ok pg_units pg_batch_lookup,
     simp_all add: pg_getActiveLayers_def ordered_rows_fixed)

section \<open>Grouping\<close>

lemma group_by_step:
  fixes g :: "(costing_method, 'a list) js_map"
  assumes "distinct (map fst g)"
  shows "distinct (map fst (fold (\<lambda>x g. AList.update (f x) (lookup_or [] g (f x) @ [x]) g) xs g))
    \<and> lookup_or [] (fold (\<lambda>x g. AList.update (f x) (lookup_or [] g (f x) @ [x]) g) xs g) m
      = lookup_or [] g m @ filter (\<lambda>x. f x = m) xs"
  using assms
proof (induction xs arbitrary: g)
  case Nil
  then show ?case by simp
next
  case (Cons x xs)
  from Cons.IH [OF distinct_update [OF Cons.prems]] show ?case by auto
qed

lemma group_by_lookup: "distinct (map fst (group_by f xs))"
  "lookup_or [] (group_by f xs) m = filter (\<lambda>x. f x = m) xs"
  using group_by_step [of "[]" f xs m] by (simp_all add: group_by_def)

lemma group_by_entry:
  assumes "(m, ys) \<in> set (group_by f xs)"
  shows "ys = filter (\<lambda>x. f x = m) xs"
proof -
  have "map_of (group_by f xs) m = Some ys" by (rule map_of_is_SomeI [OF group_by_lookup(1) assms])
  with group_by_lookup(2) [of f xs m] show ?thesis by (simp add: lookup_or_def)
qed

lemma group_by_covers:
  assumes "x \<in> set xs"
  shows "(f x, filter (\<lambda>y. f y = f x) xs) \<in> set (group_by f xs)"
proof -
  have "lookup_or [] (group_by f xs) (f x) \<noteq> []"
    using assms by (auto simp: group_by_lookup(2) filter_empty_conv)
  then obtain ys where "map_of (group_by f xs) (f x) = Some ys"
    by (auto simp: lookup_or_def split: option.splits)
  with group_by_entry [OF map_of_SomeD] show ?thesis by (metis map_of_SomeD)
qed

lemma fold_index_update:
  assumes "\<forall>(i, n) \<in> set gi. n = k \<longrightarrow> f i = X" and "k < length rs" and "rs ! k = X \<or> k \<in> snd ` set gi"
  shows "fold (\<lambda>(i, n) rs. rs[n := f i]) gi rs ! k = X
    \<and> length (fold (\<lambda>(i, n) rs. rs[n := f i]) gi rs) = length rs"
  using assms
proof (induction gi arbitrary: rs)
  case Nil
  then show ?case by simp
next
  case (Cons x gi)
  obtain i n where x: "x = (i, n)" by fastforce
  have "rs[n := f i] ! k = X \<or> k \<in> snd ` set gi"
    using Cons.prems x by (cases "n = k") auto
  with Cons.IH [of "rs[n := f i]"] Cons.prems x show ?case by simp
qed

lemma length_fold_index_update: "length (fold (\<lambda>(i, n) rs. rs[n := f i]) gi rs) = length rs"
  by (induction gi arbitrary: rs) (auto simp: case_prod_beta)

lemma quote_groups_at:
  assumes "\<forall>(m, gi) \<in> set gs. \<forall>(i, n) \<in> set gi. n = k \<longrightarrow>
      quote_item m (getActiveLayersBatch repo s (map (it_variant \<circ> fst) gi) (order_of m)) i = X"
    and "k < length rs" and "rs ! k = X \<or> (\<exists>(m, gi) \<in> set gs. k \<in> snd ` set gi)"
  shows "fold (quote_group repo s) gs rs ! k = X"
  using assms
proof (induction gs arbitrary: rs)
  case Nil
  then show ?case by simp
next
  case (Cons g gs)
  obtain m gi where g: "g = (m, gi)" by fastforce
  let ?f = "quote_item m (getActiveLayersBatch repo s (map (it_variant \<circ> fst) gi) (order_of m))"
  let ?rs = "quote_group repo s g rs"
  have rs: "?rs = fold (\<lambda>(i, n) rs. rs[n := ?f i]) gi rs"
    by (simp add: quote_group_def g Let_def)
  have here: "\<forall>(i, n) \<in> set gi. n = k \<longrightarrow> ?f i = X" using Cons.prems(1) by (simp add: g comp_def)
  have len: "length ?rs = length rs"
    unfolding rs by (rule length_fold_index_update)
  have "?rs ! k = X \<or> (\<exists>(m, gi) \<in> set gs. k \<in> snd ` set gi)"
  proof (cases "rs ! k = X \<or> k \<in> snd ` set gi")
    case True
    with fold_index_update [OF here Cons.prems(2)] show ?thesis by (simp only: rs) simp
  next
    case False
    with Cons.prems(3) show ?thesis by (auto simp: g)
  qed
  with Cons.IH [of ?rs] Cons.prems len show ?case by simp
qed

section \<open>Properties\<close>


lemma sample_table_ok: "table_ok sample_layers"
  using sample_layers_ok by (simp add: table_ok_def) (simp add: sample_layers_def)

lemma sample_table_units: "variant_units sample_layers ''v'' = 11"
  by (simp add: sample_layers_def remainingQuantity_def)


text \<open>
  The batch quote used by the valuation report agrees with the single quotes: at every
  position it holds what \<open>calculateCost\<close> gives for that item under its method, and null where
  that throws (for the methods with a single quote, that is, all but SpecificIdentification).
\<close>

theorem batch_quote_is_single_quotes:
  assumes "k < length items" and "method_for methods g (items ! k) \<noteq> SpecificIdentification"
  shows "calculateCostBatch pg_layers tbl items g methods ! k =
    (case svc_calculateCost pg_layers tbl (it_variant (items ! k)) (it_quantity (items ! k))
            (method_for methods g (items ! k)) of Inl e \<Rightarrow> None | Inr b \<Rightarrow> Some b)"
proof -
  let ?zs = "zip items [0..<length items]"
  let ?F = "\<lambda>(i :: issue_item, n :: nat). method_for methods g i"
  let ?m = "method_for methods g (items ! k)"
  have at: "(items ! k, k) \<in> set ?zs" using assms(1) by (auto simp: set_zip)
  have item: "i = items ! k" if "(i, k) \<in> set ?zs" for i using that by (auto simp: set_zip)
  show ?thesis
    unfolding calculateCostBatch_def Let_def
  proof (rule quote_groups_at)
    show "\<forall>(m, gi) \<in> set (group_by ?F ?zs). \<forall>(i, n) \<in> set gi. n = k \<longrightarrow>
      quote_item m (getActiveLayersBatch pg_layers tbl (map (it_variant \<circ> fst) gi) (order_of m)) i =
      (case svc_calculateCost pg_layers tbl (it_variant (items ! k)) (it_quantity (items ! k)) ?m of
         Inl e \<Rightarrow> None | Inr b \<Rightarrow> Some b)"
    proof (clarify)
      fix m gi i
      assume "(m, gi) \<in> set (group_by ?F ?zs)" and i: "(i, k) \<in> set gi"
      then have gi: "gi = filter (\<lambda>x. ?F x = m) ?zs" by (simp add: group_by_entry)
      with i item have "i = items ! k" "m = ?m" by auto
      moreover have "it_variant i \<in> set (map (it_variant \<circ> fst) gi)" using i by force
      ultimately show "quote_item m (getActiveLayersBatch pg_layers tbl (map (it_variant \<circ> fst) gi) (order_of m)) i =
        (case svc_calculateCost pg_layers tbl (it_variant (items ! k)) (it_quantity (items ! k)) ?m of
           Inl e \<Rightarrow> None | Inr b \<Rightarrow> Some b)"
        using pg.quote_item_eq [of i "map (it_variant \<circ> fst) gi" m tbl] assms(2) by simp
    qed
    show "k < length (replicate (length items) None)" using assms(1) by simp
    show "replicate (length items) None ! k = (case svc_calculateCost pg_layers tbl (it_variant (items ! k))
        (it_quantity (items ! k)) ?m of Inl e \<Rightarrow> None | Inr b \<Rightarrow> Some b)
      \<or> (\<exists>(m, gi) \<in> set (group_by ?F ?zs). k \<in> snd ` set gi)"
      using group_by_covers [OF at, of ?F] at by force
  qed
qed

theorem batch_quote_is_single_quotes_witness:
  "calculateCostBatch pg_layers sample_layers [\<lparr>it_variant = ''v'', it_quantity = 7\<rparr>] LIFO [] ! 0
     = Some \<lparr>bquantity = 7, totalCostCents = 800\<rparr>"
proof -
  have "svc_calculateCost pg_layers sample_layers ''v'' 7 LIFO = Inr \<lparr>bquantity = 7, totalCostCents = 800\<rparr>"
    by (simp add: svc_calculateCost_def pg_layers_def pg_getActiveLayers_def order_of_def order_rows_def
        lifo_calculateCost_def price_def lifo_order_def sample_layers_def is_active_def
        remainingQuantity_def Let_def)
  with batch_quote_is_single_quotes [of 0 "[\<lparr>it_variant = ''v'', it_quantity = 7\<rparr>]" "[]" LIFO sample_layers]
  show ?thesis by (simp add: method_for_def)
qed

text \<open>
  The weighted-average quote does not check the stock: with any stock at all, every
  quantity is quoted, and the issue that follows is refused when the quantity exceeds the stock
  (the registered strategy, which the service does not use here, refuses the quote).
\<close>

theorem weighted_average_quotes_beyond_stock:
  assumes "table_ok tbl" and "0 < variant_units tbl v" and "variant_units tbl v < q"
  shows "(\<exists>b. svc_calculateCost pg_layers tbl v q WeightedAverageCost = Inr b \<and> bquantity b = q)
    \<and> (\<exists>e. svc_consumeLayers pg_layers v q WeightedAverageCost tbl = (Inl e, tbl))
    \<and> isl (wac_calculateCost (getActiveLayers pg_layers tbl v ReceivedAsc) q v)"
proof -
  have un: "units (getActiveLayers pg_layers tbl v ReceivedAsc) = variant_units tbl v"
    by (rule pg.active_units [OF assms(1)])
  then have "\<exists>b. svc_calculateCost pg_layers tbl v q WeightedAverageCost = Inr b \<and> bquantity b = q"
    using assms(2) by (simp add: svc_calculateCost_def calculateWeightedAverageCost_def
        calculateWeightedAverageCostSync_def sum_layers_eq)
  moreover have "\<exists>e. svc_consumeLayers pg_layers v q WeightedAverageCost tbl = (Inl e, tbl)"
    using pg.svc_consume_spec [OF assms(1), of q WeightedAverageCost v] assms(2,3) by simp
  ultimately show ?thesis using un assms(3) by (simp add: wac_calculateCost_eq)
qed

theorem weighted_average_quotes_beyond_stock_witness:
  "\<exists>b. svc_calculateCost pg_layers sample_layers ''v'' 50 WeightedAverageCost = Inr b \<and> bquantity b = 50"
  using weighted_average_quotes_beyond_stock [OF sample_table_ok, of "''v''" 50]
  by (simp add: sample_table_units)

end
