(* ===== verification/Ledger.thy ===== *)
theory Ledger
  imports Inventory
begin

text \<open>
  The stock ledger: entries (src/src/domain/entities/LedgerEntry.ts), kits (Kit.ts, KitComponent.ts),
  the sale operations of src/src/domain/services/InventoryService.ts over the interface
  ILedgerRepository, and its provider
  src/src/infrastructure/persistence/InMemoryLedgerRepository.ts. \<open>uuid n\<close> is what the
  n-th call of \<open>crypto.randomUUID\<close> in an operation returns, \<open>now\<close> what \<open>new Date()\<close> returns, and the
  dispatched events are kept in an outbox.
\<close>

section \<open>Entries\<close>

datatype reason_code =
    Sale | KitSale | PurchaseReceipt | Restock | Return | Damage | Transfer | CountAdjustment
  | WriteOff | Shrinkage | OpeningBalance | KitAssembly | KitDisassembly

record ledger_entry =
  le_id :: ident
  le_tenant :: ident
  le_location :: ident
  le_variant :: ident
  le_quantity :: number
  le_reason :: reason_code
  le_actor :: ident
  le_occurredAt :: time
  le_reference :: "string option"
  le_metadata :: "(string, arg) js_map"

definition LedgerEntry ::
    "ident \<Rightarrow> ident \<Rightarrow> ident \<Rightarrow> ident \<Rightarrow> number \<Rightarrow> reason_code \<Rightarrow> ident \<Rightarrow> time \<Rightarrow> string option
     \<Rightarrow> (string, arg) js_map \<Rightarrow> ledger_entry result" where
  "LedgerEntry i tenant loc v q reason actor now ref meta =
     (if q = 0 then Inl (Error ''A ledger entry quantity cannot be zero.'' [])
      else if \<not> is_integer q then Inl (Error ''A ledger entry quantity must be an integer.'' [])
      else Inr \<lparr>le_id = i, le_tenant = tenant, le_location = loc, le_variant = v, le_quantity = q,
        le_reason = reason, le_actor = actor, le_occurredAt = now, le_reference = ref, le_metadata = meta\<rparr>)"

definition isDeduction :: "ledger_entry \<Rightarrow> bool" where
  "isDeduction e \<longleftrightarrow> le_quantity e < 0"

section \<open>Kits\<close>

type_synonym kit_component = "ident \<times> number"

definition KitComponent :: "ident \<Rightarrow> number \<Rightarrow> kit_component result" where
  "KitComponent v q = (if q < 1 then Inl (Error ''Kit component quantity must be at least 1.'' [])
     else Inr (v, q))"

record kit =
  kit_id :: ident
  kit_sku :: string
  kit_name :: string
  kit_components :: "kit_component list"

definition Kit :: "ident \<Rightarrow> string \<Rightarrow> string \<Rightarrow> kit" where
  "Kit i sku name = \<lparr>kit_id = i, kit_sku = sku, kit_name = name, kit_components = []\<rparr>"

fun find_index :: "('a \<Rightarrow> bool) \<Rightarrow> 'a list \<Rightarrow> nat option" where
  "find_index P [] = None"
| "find_index P (x # xs) = (if P x then Some 0 else map_option Suc (find_index P xs))"

definition splice_one :: "nat \<Rightarrow> 'a list \<Rightarrow> 'a list" where
  "splice_one i xs = take i xs @ drop (Suc i) xs"

definition addComponent :: "ident \<Rightarrow> number \<Rightarrow> (kit, unit) oper" where
  "addComponent v q = op_get (\<lambda>k.
     case find_index (\<lambda>c. fst c = v) (kit_components k) of
       Some i \<Rightarrow> op_bind (op_lift (KitComponent v (snd (kit_components k ! i) + q))) (\<lambda>c.
         op_modify (\<lambda>k. k\<lparr>kit_components := (kit_components k)[i := c]\<rparr>))
     | None \<Rightarrow> op_bind (op_lift (KitComponent v q)) (\<lambda>c.
         op_modify (\<lambda>k. k\<lparr>kit_components := kit_components k @ [c]\<rparr>)))"

definition removeComponent :: "ident \<Rightarrow> (kit, unit) oper" where
  "removeComponent v = op_get (\<lambda>k.
     case find_index (\<lambda>c. fst c = v) (kit_components k) of
       Some i \<Rightarrow> op_modify (\<lambda>k. k\<lparr>kit_components := splice_one i (kit_components k)\<rparr>)
     | None \<Rightarrow> op_throw (Error ''Component with variant ID '{}' not found in kit.'' [S v]))"

definition kit_isEmpty :: "kit \<Rightarrow> bool" where
  "kit_isEmpty k \<longleftrightarrow> length (kit_components k) = 0"

section \<open>The repository interface and the sales\<close>

record 's ledger_repo =
  append_entry :: "ledger_entry \<Rightarrow> ('s, unit) oper"
  appendBatch :: "ledger_entry list \<Rightarrow> ('s, unit) oper"
  currentQuantity :: "'s \<Rightarrow> ident \<Rightarrow> ident \<Rightarrow> number"
  currentQuantities :: "'s \<Rightarrow> ident list \<Rightarrow> ident \<Rightarrow> (ident, number) js_map"
  entriesFor :: "'s \<Rightarrow> ident \<Rightarrow> ident option \<Rightarrow> ledger_entry list"
  entriesForBatch :: "'s \<Rightarrow> ident list \<Rightarrow> ident option \<Rightarrow> (ident, ledger_entry list) js_map"
  findRecallEntries :: "'s \<Rightarrow> string \<Rightarrow> ledger_entry list"
  hasAnyEntries :: "'s \<Rightarrow> ident \<Rightarrow> ident \<Rightarrow> bool"
  hasAnyEntriesBatch :: "'s \<Rightarrow> ident list \<Rightarrow> ident \<Rightarrow> (ident, bool) js_map"

record 's shop =
  stock :: 's
  outbox :: "inventory_event list"

abbreviation on_stock :: "('s, 'a) oper \<Rightarrow> ('s shop, 'a) oper" where
  "on_stock m \<equiv> op_zoom stock (\<lambda>s w. w\<lparr>stock := s\<rparr>) m"

definition dispatch_event :: "inventory_event \<Rightarrow> ('s shop, unit) oper" where
  "dispatch_event e = op_modify (\<lambda>w. w\<lparr>outbox := outbox w @ [e]\<rparr>)"

definition shortage :: "ident \<Rightarrow> number \<Rightarrow> number \<Rightarrow> error" where
  "shortage v needed avail =
     Error ''Insufficient stock for variant {}. Requested: {}, Available: {}'' [S v, N needed, N avail]"

definition assertSufficientStock :: "'s ledger_repo \<Rightarrow> ident \<Rightarrow> ident \<Rightarrow> number \<Rightarrow> ('s shop, unit) oper" where
  "assertSufficientStock repo v loc needed = op_get (\<lambda>w.
     let avail = currentQuantity repo (stock w) v loc
     in op_reject (avail < needed) (shortage v needed avail))"

definition deduction ::
    "(nat \<Rightarrow> string) \<Rightarrow> ident \<Rightarrow> ident \<Rightarrow> reason_code \<Rightarrow> ident \<Rightarrow> time \<Rightarrow> string
     \<Rightarrow> nat \<times> ident \<times> number \<Rightarrow> ledger_entry result" where
  "deduction uuid tenant loc reason actor now ref = (\<lambda>(n, v, q).
     result_bind (LedgerEntryId (uuid n)) (\<lambda>i.
       LedgerEntry i tenant loc v (- q) reason actor now (Some ref) []))"

definition decrementForSale ::
    "(nat \<Rightarrow> string) \<Rightarrow> time \<Rightarrow> 's ledger_repo \<Rightarrow> ident \<Rightarrow> ident \<Rightarrow> ident \<Rightarrow> number \<Rightarrow> string \<Rightarrow> ident
     \<Rightarrow> ('s shop, unit) oper" where
  "decrementForSale uuid now repo tenant loc v q saleId actor =
     op_seq (assertSufficientStock repo v loc q)
     (op_bind (op_lift (deduction uuid tenant loc Sale actor now saleId (0, v, q))) (\<lambda>e.
     op_seq (on_stock (append_entry repo e))
     (dispatch_event (InventoryDecremented tenant loc v q saleId now))))"

text \<open>The three passes that a batch and a kit sale go through.\<close>

definition validate_items :: "(ident, number) js_map \<Rightarrow> (ident \<times> number) list \<Rightarrow> ('w, unit) oper" where
  "validate_items avail = op_each (\<lambda>(v, q).
     op_reject (lookup_or 0 avail v < q) (shortage v q (lookup_or 0 avail v)))"

definition sell_items ::
    "(nat \<Rightarrow> string) \<Rightarrow> time \<Rightarrow> 's ledger_repo \<Rightarrow> ident \<Rightarrow> ident \<Rightarrow> reason_code \<Rightarrow> (ident \<times> number) list
     \<Rightarrow> string \<Rightarrow> ident \<Rightarrow> ('s shop, unit) oper" where
  "sell_items uuid now repo tenant loc reason items saleId actor = op_get (\<lambda>w.
     let availableQuantities = currentQuantities repo (stock w) (map fst items) loc in
     op_seq (validate_items availableQuantities items)
     (op_bind (op_lift (result_map (deduction uuid tenant loc reason actor now saleId) (enumerate 0 items))) (\<lambda>entries.
     op_seq (on_stock (appendBatch repo entries))
     (op_each (\<lambda>(v, q). dispatch_event (InventoryDecremented tenant loc v q saleId now)) items))))"

definition decrementForSaleBatch ::
    "(nat \<Rightarrow> string) \<Rightarrow> time \<Rightarrow> 's ledger_repo \<Rightarrow> ident \<Rightarrow> ident \<Rightarrow> (ident \<times> number) list \<Rightarrow> string \<Rightarrow> ident
     \<Rightarrow> ('s shop, unit) oper" where
  "decrementForSaleBatch uuid now repo tenant loc items saleId actor =
     (if length items = 0 then op_return ()
      else sell_items uuid now repo tenant loc Sale items saleId actor)"

definition decrementForKitSale ::
    "(nat \<Rightarrow> string) \<Rightarrow> time \<Rightarrow> 's ledger_repo \<Rightarrow> ident \<Rightarrow> ident \<Rightarrow> kit \<Rightarrow> number \<Rightarrow> string \<Rightarrow> ident
     \<Rightarrow> ('s shop, unit) oper" where
  "decrementForKitSale uuid now repo tenant loc k kitQuantity saleId actor =
     op_seq (op_reject (kit_isEmpty k) (Error ''Cannot sell a kit with no components.'' []))
     (sell_items uuid now repo tenant loc KitSale
        (map (\<lambda>(v, q). (v, q * kitQuantity)) (kit_components k)) saleId actor)"

section \<open>The in-memory ledger\<close>

type_synonym ledger = "ledger_entry list"

definition mem_append :: "ledger_entry \<Rightarrow> (ledger, unit) oper" where
  "mem_append e = op_modify (\<lambda>es. es @ [e])"

definition mem_appendBatch :: "ledger_entry list \<Rightarrow> (ledger, unit) oper" where
  "mem_appendBatch es' = op_modify (\<lambda>es. es @ es')"

definition mem_currentQuantity :: "ledger \<Rightarrow> ident \<Rightarrow> ident \<Rightarrow> number" where
  "mem_currentQuantity es v loc =
     fold (\<lambda>e sum. if le_variant e = v \<and> le_location e = loc then sum + le_quantity e else sum) es 0"

definition mem_currentQuantityAt :: "ledger \<Rightarrow> ident \<Rightarrow> ident \<Rightarrow> time \<Rightarrow> number" where
  "mem_currentQuantityAt es v loc t =
     fold (\<lambda>e sum. if le_variant e = v \<and> le_location e = loc \<and> le_occurredAt e \<le> t
       then sum + le_quantity e else sum) es 0"

definition mem_currentQuantities :: "ledger \<Rightarrow> ident list \<Rightarrow> ident \<Rightarrow> (ident, number) js_map" where
  "mem_currentQuantities es vs loc = (let variantIdStrs = set vs in
     fold (\<lambda>e m. if le_location e = loc \<and> le_variant e \<in> variantIdStrs
       then AList.update (le_variant e) (lookup_or 0 m (le_variant e) + le_quantity e) m else m) es [])"

definition mem_entriesFor :: "ledger \<Rightarrow> ident \<Rightarrow> ident option \<Rightarrow> ledger_entry list" where
  "mem_entriesFor es v loc = filter (\<lambda>e. le_variant e = v \<and> (loc = None \<or> Some (le_location e) = loc)) es"

definition mem_entriesForBatch :: "ledger \<Rightarrow> ident list \<Rightarrow> ident option \<Rightarrow> (ident, ledger_entry list) js_map" where
  "mem_entriesForBatch es vs loc =
     fold (\<lambda>e m. if le_variant e \<in> set vs \<and> (loc = None \<or> Some (le_location e) = loc)
       then AList.update (le_variant e) (lookup_or [] m (le_variant e) @ [e]) m else m) es []"

definition mem_findRecallEntries :: "ledger \<Rightarrow> string \<Rightarrow> ledger_entry list" where
  "mem_findRecallEntries es lot = filter (\<lambda>e. map_of (le_metadata e) ''lotNumber'' = Some (S lot)) es"

definition mem_hasAnyEntries :: "ledger \<Rightarrow> ident \<Rightarrow> ident \<Rightarrow> bool" where
  "mem_hasAnyEntries es v loc = list_ex (\<lambda>e. le_variant e = v \<and> le_location e = loc) es"

definition mem_hasAnyEntriesBatch :: "ledger \<Rightarrow> ident list \<Rightarrow> ident \<Rightarrow> (ident, bool) js_map" where
  "mem_hasAnyEntriesBatch es vs loc =
     fold (\<lambda>e m. if le_location e = loc \<and> le_variant e \<in> set vs then AList.update (le_variant e) True m else m) es
       (fold (\<lambda>v m. AList.update v False m) vs [])"

definition mem_findRecentEntries ::
    "ledger \<Rightarrow> ident \<Rightarrow> time option \<Rightarrow> time option \<Rightarrow> nat \<Rightarrow> ledger_entry list" where
  "mem_findRecentEntries es tenant start end' limit =
     take limit (sort_key (\<lambda>e. - le_occurredAt e)
       (filter (\<lambda>e. le_tenant e = tenant
          \<and> (case start of None \<Rightarrow> True | Some t \<Rightarrow> \<not> le_occurredAt e < t)
          \<and> (case end' of None \<Rightarrow> True | Some t \<Rightarrow> \<not> le_occurredAt e > t)) es))"

definition mem_ledger :: "ledger ledger_repo" where
  "mem_ledger = \<lparr>append_entry = mem_append, appendBatch = mem_appendBatch,
     currentQuantity = mem_currentQuantity, currentQuantities = mem_currentQuantities,
     entriesFor = mem_entriesFor, entriesForBatch = mem_entriesForBatch, findRecallEntries = mem_findRecallEntries,
     hasAnyEntries = mem_hasAnyEntries, hasAnyEntriesBatch = mem_hasAnyEntriesBatch\<rparr>"

lemmas ledger_op_defs [model_defs] = decrementForSale_def decrementForSaleBatch_def
  decrementForKitSale_def sell_items_def validate_items_def deduction_def assertSufficientStock_def
  dispatch_event_def mem_append_def mem_appendBatch_def mem_currentQuantity_def
  mem_currentQuantities_def mem_ledger_def

section \<open>Balances\<close>

definition balance :: "ledger_entry list \<Rightarrow> ident \<Rightarrow> ident \<Rightarrow> number" where
  "balance es v loc = (\<Sum>e\<leftarrow>filter (\<lambda>e. le_variant e = v \<and> le_location e = loc) es. le_quantity e)"

lemma balance_Nil [simp]: "balance [] v loc = 0"
  and balance_append [simp]: "balance (es @ es') v loc = balance es v loc + balance es' v loc"
  and balance_Cons [simp]: "balance (e # es) v loc =
    (if le_variant e = v \<and> le_location e = loc then le_quantity e else 0) + balance es v loc"
  by (simp_all add: balance_def)

lemma fold_sum_if:
  "fold (\<lambda>e sum. if P e then sum + f e else sum) es (a::rat) = a + (\<Sum>e\<leftarrow>filter P es. f e)"
  by (induction es arbitrary: a) auto

lemma mem_currentQuantity_balance: "mem_currentQuantity es v loc = balance es v loc"
  by (simp add: mem_currentQuantity_def fold_sum_if balance_def)

lemma fold_quantities:
  "lookup_or 0 (fold (\<lambda>e m. if le_location e = loc \<and> le_variant e \<in> V
       then AList.update (le_variant e) (lookup_or 0 m (le_variant e) + le_quantity e) m else m) es m) v
   = lookup_or 0 m v + (if v \<in> V then balance es v loc else 0)"
  by (induction es arbitrary: m) auto

lemma mem_currentQuantities_balance:
  "lookup_or 0 (mem_currentQuantities es vs loc) v = (if v \<in> set vs then balance es v loc else 0)"
  by (simp add: mem_currentQuantities_def Let_def fold_quantities)

lemma fold_group_entries:
  "lookup_or [] (fold (\<lambda>e m. if le_variant e \<in> V \<and> P e
       then AList.update (le_variant e) (lookup_or [] m (le_variant e) @ [e]) m else m) es m) v
   = lookup_or [] m v @ (if v \<in> V then filter (\<lambda>e. le_variant e = v \<and> P e) es else [])"
  by (induction es arbitrary: m) auto

lemma fold_has_entries:
  "map_of (fold (\<lambda>e m. if le_location e = loc \<and> le_variant e \<in> V
       then AList.update (le_variant e) True m else m) es m) v
   = (if v \<in> V \<and> list_ex (\<lambda>e. le_variant e = v \<and> le_location e = loc) es then Some True else map_of m v)"
  by (induction es arbitrary: m) auto

lemma fold_init_map:
  "map_of (fold (\<lambda>v m. AList.update v c m) vs m) v = (if v \<in> set vs then Some c else map_of m v)"
  by (induction vs arbitrary: m) auto


section \<open>Lists of deductions\<close>

definition uuids_ok :: "(nat \<Rightarrow> string) \<Rightarrow> bool" where
  "uuids_ok uuid \<longleftrightarrow> (\<forall>n. \<not> is_blank (uuid n))"

definition sellable :: "number \<Rightarrow> bool" where
  "sellable q \<longleftrightarrow> q \<noteq> 0 \<and> is_integer q"

definition demand :: "(ident \<times> number) list \<Rightarrow> ident \<Rightarrow> number" where
  "demand items v = (\<Sum>(w, q)\<leftarrow>items. if w = v then q else 0)"

lemma demand_simps [simp]:
  "demand [] v = 0" "demand ((w, q) # items) v = (if w = v then q else 0) + demand items v"
  by (simp_all add: demand_def)

lemma is_blank_Nil [simp]: "is_blank []"
  by (simp add: is_blank_def trim_def)

lemma LedgerEntryId_uuid: "uuids_ok uuid \<Longrightarrow> LedgerEntryId (uuid n) = Inr (uuid n)"
  unfolding uuids_ok_def LedgerEntryId_def make_id_def by (metis is_blank_Nil)

lemma deduction_cases:
  assumes "uuids_ok uuid"
  shows "case deduction uuid tenant loc reason actor now ref (n, v, q) of
      Inl e \<Rightarrow> \<not> sellable q
    | Inr e \<Rightarrow> sellable q \<and> le_variant e = v \<and> le_location e = loc \<and> le_quantity e = - q
        \<and> le_reason e = reason \<and> le_reference e = Some ref"
  by (simp add: deduction_def LedgerEntryId_uuid [OF assms] LedgerEntry_def sellable_def)

lemma deductions_cases:
  assumes "uuids_ok uuid"
  shows "case result_map (deduction uuid tenant loc reason actor now ref) (enumerate n items) of
      Inl e \<Rightarrow> \<not> (\<forall>(v, q) \<in> set items. sellable q)
    | Inr es \<Rightarrow> (\<forall>(v, q) \<in> set items. sellable q)
        \<and> (\<forall>v l. balance es v l = (if l = loc then - demand items v else 0))"
proof (induction items arbitrary: n)
  case Nil
  then show ?case by simp
next
  case (Cons i items)
  obtain v q where i: "i = (v, q)" by fastforce
  show ?case
    using deduction_cases [OF assms, where tenant = tenant and loc = loc and reason = reason and actor = actor and now = now and ref = ref and n = n and v = v and q = q] Cons.IH [of "Suc n"]
    by (auto simp: i split: sum.splits)
qed

lemma validate_items_eval:
  "case validate_items avail items w of
      (Inl e, w') \<Rightarrow> w' = w \<and> \<not> (\<forall>(v, q) \<in> set items. q \<le> lookup_or 0 avail v)
    | (Inr _, w') \<Rightarrow> w' = w \<and> (\<forall>(v, q) \<in> set items. q \<le> lookup_or 0 avail v)"
  unfolding validate_items_def
  by (induction items) (auto simp: oper_simps split: prod.splits sum.splits if_splits)

lemma dispatch_items:
  "op_each (\<lambda>(v, q). dispatch_event (f v q)) items w =
     (Inr (), w\<lparr>outbox := outbox w @ map (\<lambda>(v, q). f v q) items\<rparr>)"
  by (induction items arbitrary: w) (auto simp: dispatch_event_def oper_simps)

section \<open>The contract of the repository, and the sales over it\<close>

locale ledger_repository =
  fixes repo :: "'s ledger_repo" and entries :: "'s \<Rightarrow> ledger_entry list"
  assumes append: "append_entry repo e s = (Inr (), s') \<Longrightarrow> entries s' = entries s @ [e]"
    and append_returns: "fst (append_entry repo e s) = Inr ()"
    and batch: "appendBatch repo es s = (Inr (), s') \<Longrightarrow> entries s' = entries s @ es"
    and batch_returns: "fst (appendBatch repo es s) = Inr ()"
    and quantity: "currentQuantity repo s v loc = balance (entries s) v loc"
    and quantities: "v \<in> set vs \<Longrightarrow>
      lookup_or 0 (currentQuantities repo s vs loc) v = balance (entries s) v loc"
begin

definition saleable :: "'s shop \<Rightarrow> ident \<Rightarrow> (ident \<times> number) list \<Rightarrow> bool" where
  "saleable w loc items \<longleftrightarrow>
     (\<forall>(v, q) \<in> set items. q \<le> balance (entries (stock w)) v loc \<and> sellable q)"

definition sold :: "ident \<Rightarrow> (ident \<times> number) list \<Rightarrow> 's shop \<Rightarrow> 's shop \<Rightarrow> bool" where
  "sold loc items w w' \<longleftrightarrow> (\<forall>v l. balance (entries (stock w')) v l =
     balance (entries (stock w)) v l - (if l = loc then demand items v else 0))"

lemma sale_cases:
  assumes "uuids_ok uuid"
  shows "case decrementForSale uuid now repo tenant loc v q saleId actor w of
      (Inl e, w') \<Rightarrow> w' = w \<and> \<not> saleable w loc [(v, q)]
    | (Inr _, w') \<Rightarrow> saleable w loc [(v, q)] \<and> sold loc [(v, q)] w w'
        \<and> outbox w' = outbox w @ [InventoryDecremented tenant loc v q saleId now]"
proof (cases "append_entry repo (projr (deduction uuid tenant loc Sale actor now saleId (0, v, q))) (stock w)")
  case (Pair r s')
  have r: "r = Inr ()" using append_returns Pair by (metis fst_conv)
  show ?thesis
    using deduction_cases [OF assms, where tenant = tenant and loc = loc and reason = Sale and actor = actor and now = now and ref = saleId and n = 0 and v = v and q = q] append [OF Pair [unfolded r]] Pair r
    by (auto simp: decrementForSale_def assertSufficientStock_def dispatch_event_def oper_simps quantity
        saleable_def sold_def Let_def split: sum.splits)
qed

lemma items_cases:
  assumes "uuids_ok uuid"
  shows "case sell_items uuid now repo tenant loc reason items saleId actor w of
      (Inl e, w') \<Rightarrow> w' = w \<and> \<not> saleable w loc items
    | (Inr _, w') \<Rightarrow> saleable w loc items \<and> sold loc items w w'
        \<and> outbox w' = outbox w @ map (\<lambda>(v, q). InventoryDecremented tenant loc v q saleId now) items"
proof -
  let ?avail = "currentQuantities repo (stock w) (map fst items) loc"
  let ?es = "result_map (deduction uuid tenant loc reason actor now saleId) (enumerate 0 items)"
  have avail: "(\<forall>(v, q) \<in> set items. q \<le> lookup_or 0 ?avail v)
      \<longleftrightarrow> (\<forall>(v, q) \<in> set items. q \<le> balance (entries (stock w)) v loc)"
    using quantities [of _ "map fst items"] by (force intro!: ball_cong)
  obtain r s' where p: "appendBatch repo (projr ?es) (stock w) = (r, s')" by fastforce
  have r: "r = Inr ()" using batch_returns p by (metis fst_conv)
  note es = batch [OF p [unfolded r]]
  show ?thesis
    using validate_items_eval [where avail = ?avail and items = items and w = w] deductions_cases [OF assms, where tenant = tenant and loc = loc and reason = reason and actor = actor and now = now and ref = saleId and n = 0
        and items = items]
      es p r
    unfolding avail
    by (auto simp: sell_items_def oper_simps Let_def dispatch_items saleable_def sold_def
        split: sum.splits prod.splits)
qed

lemma distinct_demand: "distinct (map fst items) \<Longrightarrow> (v, q) \<in> set items \<Longrightarrow> demand items v = q"
proof (induction items)
  case (Cons i items)
  have "v \<notin> fst ` set items \<Longrightarrow> demand items v = 0" for v items
    by (induction items) auto
  with Cons show ?case by (cases i) (auto simp: image_iff)
qed simp

lemma demand_absent: "v \<notin> fst ` set items \<Longrightarrow> demand items v = 0"
  by (induction items) auto

lemma sold_nonneg:
  assumes "saleable w loc items" and "distinct (map fst items)" and "sold loc items w w'"
    and "\<forall>v l. 0 \<le> balance (entries (stock w)) v l"
  shows "0 \<le> balance (entries (stock w')) v l"
proof (cases "v \<in> fst ` set items")
  case True
  then obtain q where "(v, q) \<in> set items" by auto
  with assms distinct_demand [OF assms(2) this] show ?thesis
    by (auto simp: saleable_def sold_def)
next
  case False
  with assms(3,4) demand_absent [OF False] show ?thesis by (auto simp: sold_def)
qed

end

interpretation ml: ledger_repository mem_ledger "\<lambda>es. es"
  by unfold_locales (auto simp: mem_ledger_def mem_append_def mem_appendBatch_def oper_simps
      mem_currentQuantity_balance mem_currentQuantities_balance)


section \<open>Kits keep one line per variant\<close>

definition kit_ok :: "kit \<Rightarrow> bool" where
  "kit_ok k \<longleftrightarrow> distinct (map fst (kit_components k)) \<and> (\<forall>(v, q) \<in> set (kit_components k). 1 \<le> q)"

inductive kit_reachable :: "kit \<Rightarrow> bool" where
  fresh: "kit_reachable (Kit i sku name)"
| add: "kit_reachable k \<Longrightarrow> addComponent v q k = (r, k') \<Longrightarrow> kit_reachable k'"
| remove: "kit_reachable k \<Longrightarrow> removeComponent v k = (r, k') \<Longrightarrow> kit_reachable k'"

lemma find_index_Some: "find_index P xs = Some i \<Longrightarrow> i < length xs \<and> P (xs ! i)"
  by (induction xs arbitrary: i) (auto split: if_splits)

lemma find_index_None: "find_index P xs = None \<longleftrightarrow> (\<forall>x \<in> set xs. \<not> P x)"
  by (induction xs) auto

lemma set_list_updateD: "x \<in> set (xs[i := y]) \<Longrightarrow> x \<in> set xs \<or> x = y"
  using set_update_subset_insert by fastforce

lemma addComponent_ok: "keeps kit_ok (addComponent v q)"
proof -
  have "kit_ok (snd (addComponent v q k))" if k: "kit_ok k" for k
  proof (cases "find_index (\<lambda>c. fst c = v) (kit_components k)")
    case None
    moreover from None have "\<forall>c \<in> set (kit_components k). fst c \<noteq> v" by (simp add: find_index_None)
    ultimately show ?thesis using k
      by (auto simp: addComponent_def KitComponent_def oper_simps kit_ok_def)
  next
    case (Some i)
    note i = find_index_Some [OF Some]
    have "map fst ((kit_components k)[i := (v, q')]) = map fst (kit_components k)" for q'
      using i by (simp add: map_update) (metis list_update_id nth_map)
    with k Some show ?thesis
      by (auto simp: addComponent_def KitComponent_def oper_simps kit_ok_def dest!: set_list_updateD)
  qed
  then show ?thesis by (simp add: keeps_def)
qed

lemma splice_one_props: "set (splice_one i xs) \<subseteq> set xs" "distinct xs \<Longrightarrow> distinct (splice_one i xs)"
proof -
  show "set (splice_one i xs) \<subseteq> set xs"
    by (auto simp: splice_one_def dest: in_set_takeD in_set_dropD)
  show "distinct xs \<Longrightarrow> distinct (splice_one i xs)"
    using set_take_disj_set_drop_if_distinct [of xs i "Suc i"] by (simp add: splice_one_def)
qed

lemma removeComponent_ok: "keeps kit_ok (removeComponent v)"
proof -
  have "kit_ok (k\<lparr>kit_components := splice_one i (kit_components k)\<rparr>)" if "kit_ok k" for k i
  proof -
    have "map fst (splice_one i xs) = splice_one i (map fst xs)" for xs :: "kit_component list"
      by (simp add: splice_one_def take_map drop_map)
    with that show ?thesis using splice_one_props [where i = i] by (fastforce simp: kit_ok_def)
  qed
  then show ?thesis by (auto simp: keeps_def removeComponent_def oper_simps split: option.splits)
qed

lemma kit_reachable_ok: "kit_reachable k \<Longrightarrow> kit_ok k"
proof (induction rule: kit_reachable.induct)
  case (fresh i sku name)
  then show ?case by (simp add: kit_ok_def Kit_def)
next
  case (add k v q r k')
  then show ?case using keepsD [OF addComponent_ok] by blast
next
  case (remove k v r k')
  then show ?case using keepsD [OF removeComponent_ok] by blast
qed

lemma map_fst_scaled: "map fst (map (\<lambda>(v, q). (v, q * n)) xs) = map fst xs"
  by (induction xs) auto

section \<open>Properties\<close>

text \<open>
  C8. A kit sale is all or nothing: for a kit built by its methods, either the call throws,
  the ledger and the outbox are as before, and the kit was empty or a component was short or its
  demand was no non-zero integer; or it returns, every component was in stock, and the balance of
  each component at the location fell by its quantity times the number of kits.
\<close>

theorem kit_sale_all_or_nothing:
  assumes "uuids_ok uuid" and "kit_reachable k"
  shows "case decrementForKitSale uuid now mem_ledger tenant loc k n saleId actor w of
      (Inl e, w') \<Rightarrow> w' = w \<and> (kit_components k = [] \<or> (\<exists>(v, q) \<in> set (kit_components k).
        balance (stock w) v loc < q * n \<or> \<not> sellable (q * n)))
    | (Inr _, w') \<Rightarrow> \<forall>(v, q) \<in> set (kit_components k). q * n \<le> balance (stock w) v loc
        \<and> balance (stock w') v loc = balance (stock w) v loc - q * n"
proof -
  let ?items = "map (\<lambda>(v, q). (v, q * n)) (kit_components k)"
  have d: "distinct (map fst ?items)"
    unfolding map_fst_scaled using kit_reachable_ok [OF assms(2)] by (simp add: kit_ok_def)
  have dem: "demand ?items v = q * n" if "(v, q) \<in> set (kit_components k)" for v q
    using that by (intro ml.distinct_demand [OF d]) force
  show ?thesis
    using ml.items_cases [OF assms(1), where now = now and tenant = tenant and loc = loc and reason = KitSale
        and items = ?items and saleId = saleId and actor = actor and w = w] dem
    by (fastforce simp: decrementForKitSale_def oper_simps kit_isEmpty_def ml.saleable_def ml.sold_def not_le
        split: prod.splits sum.splits if_splits)
qed

definition sample_kit :: kit where
  "sample_kit = snd (op_seq (addComponent ''mug'' 2) (addComponent ''tray'' 1) (Kit ''k1'' ''SET-1'' ''Tea set''))"

definition sample_entry :: "ident \<Rightarrow> number \<Rightarrow> ledger_entry" where
  "sample_entry v q = \<lparr>le_id = ''e'', le_tenant = ''t1'', le_location = ''loc-1'', le_variant = v, le_quantity = q,
     le_reason = PurchaseReceipt, le_actor = ''a1'', le_occurredAt = 1, le_reference = None, le_metadata = []\<rparr>"

definition sample_shop :: "ledger shop" where
  "sample_shop = \<lparr>stock = [sample_entry ''mug'' 10, sample_entry ''tray'' 3], outbox = []\<rparr>"

definition sample_uuid :: "nat \<Rightarrow> string" where
  "sample_uuid n = replicate (Suc n) (CHR ''u'')"

lemma sample_uuid_ok: "uuids_ok sample_uuid"
proof -
  have "trim (replicate (Suc n) (CHR ''u'')) \<noteq> []" for n
    by (simp add: trim_def is_space_def dropWhile_append)
  then show ?thesis by (simp add: uuids_ok_def sample_uuid_def is_blank_def)
qed

lemma sample_kit_reachable: "kit_reachable sample_kit"
proof -
  let ?k1 = "snd (addComponent ''mug'' 2 (Kit ''k1'' ''SET-1'' ''Tea set''))"
  have "kit_reachable ?k1"
    by (rule kit_reachable.add [OF kit_reachable.fresh]) (rule prod.collapse [symmetric])
  then have "kit_reachable (snd (addComponent ''tray'' 1 ?k1))"
    by (rule kit_reachable.add) (rule prod.collapse [symmetric])
  then show ?thesis
    by (simp add: sample_kit_def oper_simps addComponent_def KitComponent_def Kit_def)
qed

lemma sample_kit_components: "kit_components sample_kit = [(''mug'', 2), (''tray'', 1)]"
  by (simp add: sample_kit_def oper_simps addComponent_def KitComponent_def Kit_def)

theorem kit_sale_all_or_nothing_witness:
  "case decrementForKitSale sample_uuid 5 mem_ledger ''t1'' ''loc-1'' sample_kit 3 ''s1'' ''a1'' sample_shop of
     (Inl e, w') \<Rightarrow> False | (Inr _, w') \<Rightarrow> balance (stock w') ''mug'' ''loc-1'' = 4"
  using kit_sale_all_or_nothing [OF sample_uuid_ok sample_kit_reachable, where now = 5 and tenant = "''t1''"
      and loc = "''loc-1''" and n = 3 and saleId = "''s1''" and actor = "''a1''" and w = sample_shop]
  by (auto simp: sample_kit_components sample_shop_def sample_entry_def sellable_def
      split: prod.splits sum.splits)

text \<open>Sales as commands, to speak about every history of a shop.\<close>

datatype sale_command =
    SellOne ident ident number
  | SellBatch ident "(ident \<times> number) list"
  | SellKit ident kit number

fun sale_exec ::
    "(nat \<Rightarrow> string) \<Rightarrow> time \<Rightarrow> ident \<Rightarrow> string \<Rightarrow> ident \<Rightarrow> sale_command \<Rightarrow> (ledger shop, unit) oper" where
  "sale_exec uuid now tenant saleId actor (SellOne loc v q) =
     decrementForSale uuid now mem_ledger tenant loc v q saleId actor"
| "sale_exec uuid now tenant saleId actor (SellBatch loc items) =
     decrementForSaleBatch uuid now mem_ledger tenant loc items saleId actor"
| "sale_exec uuid now tenant saleId actor (SellKit loc k n) =
     decrementForKitSale uuid now mem_ledger tenant loc k n saleId actor"

fun sale_ok :: "sale_command \<Rightarrow> bool" where
  "sale_ok (SellBatch loc items) = distinct (map fst items)"
| "sale_ok (SellKit loc k n) = kit_ok k"
| "sale_ok (SellOne loc v q) = True"

definition in_stock :: "ledger shop \<Rightarrow> bool" where
  "in_stock w \<longleftrightarrow> (\<forall>v l. 0 \<le> balance (stock w) v l)"

lemma items_keep_stock:
  assumes "uuids_ok uuid" and "distinct (map fst items)" and "in_stock w"
  shows "in_stock (snd (sell_items uuid now mem_ledger tenant loc reason items saleId actor w))"
  using ml.items_cases [OF assms(1), where now = now and tenant = tenant and loc = loc and reason = reason
      and items = items and saleId = saleId and actor = actor and w = w]
    ml.sold_nonneg [OF _ assms(2)] assms(3)
  by (auto simp: in_stock_def split: prod.splits sum.splits)

lemma sale_keeps_stock:
  assumes "uuids_ok uuid" and "sale_ok c" and "in_stock w"
  shows "in_stock (snd (sale_exec uuid now tenant saleId actor c w))"
proof (cases c)
  case (SellOne loc v q)
  then show ?thesis
    using ml.sale_cases [OF assms(1), where now = now and tenant = tenant and loc = loc
        and v = v and q = q and saleId = saleId and actor = actor and w = w]
      ml.sold_nonneg [of _ loc "[(v, q)]"] assms(3)
    by (auto simp: in_stock_def split: prod.splits sum.splits)
next
  case (SellBatch loc items)
  with assms items_keep_stock show ?thesis by (simp add: decrementForSaleBatch_def oper_simps)
next
  case (SellKit loc k n)
  with assms have "distinct (map fst (map (\<lambda>(v, q). (v, q * n)) (kit_components k)))"
    unfolding map_fst_scaled by (simp add: kit_ok_def)
  from items_keep_stock [OF assms(1) this assms(3)] SellKit assms(3) show ?thesis
    by (simp add: decrementForKitSale_def oper_simps)
qed

text \<open>
  C12. No history of sales drives stock below zero: from a ledger whose balances are not
  negative, after any sequence of single sales, batches that name each variant once and sales of
  well-formed kits, in any quantities, returning or throwing, no balance is negative.
\<close>

theorem sales_never_oversell:
  assumes "uuids_ok uuid" and "\<forall>c \<in> set cs. sale_ok c" and "\<forall>v l. 0 \<le> balance (stock w) v l"
  shows "0 \<le> balance (stock (fold (\<lambda>c w. snd (sale_exec uuid now tenant saleId actor c w)) cs w)) v l"
proof -
  have "in_stock (fold (\<lambda>c w. snd (sale_exec uuid now tenant saleId actor c w)) cs w)"
    if "in_stock w" "\<forall>c \<in> set cs. sale_ok c" for w cs
    using that by (induction cs arbitrary: w) (auto intro: sale_keeps_stock [OF assms(1)])
  with assms show ?thesis by (simp add: in_stock_def)
qed

theorem sales_never_oversell_witness:
  "0 \<le> balance (stock (fold (\<lambda>c w. snd (sale_exec sample_uuid 5 ''t1'' ''s1'' ''a1'' c w))
     [SellOne ''loc-1'' ''mug'' 9, SellKit ''loc-1'' sample_kit 1, SellBatch ''loc-1'' [(''mug'', 1), (''tray'', 2)]] sample_shop)) ''mug'' ''loc-1''"
  by (rule sales_never_oversell [OF sample_uuid_ok])
     (auto simp: kit_ok_def sample_kit_components sample_shop_def sample_entry_def)

text \<open>
  A batch that names a variant twice oversells: each line is compared with the whole
  balance, so two lines that fit alone but not together are both written, and the balance is
  negative afterwards.
\<close>

theorem duplicate_lines_oversell:
  assumes "uuids_ok uuid" and "is_integer q" and "0 < q"
    and "q \<le> balance (stock w) v loc" and "balance (stock w) v loc < 2 * q"
  shows "case decrementForSaleBatch uuid now mem_ledger tenant loc [(v, q), (v, q)] saleId actor w of
      (Inl e, w') \<Rightarrow> False
    | (Inr _, w') \<Rightarrow> balance (stock w') v loc < 0"
  using ml.items_cases [OF assms(1), where now = now and tenant = tenant and loc = loc and reason = Sale
      and items = "[(v, q), (v, q)]" and saleId = saleId and actor = actor and w = w] assms
  by (auto simp: decrementForSaleBatch_def ml.saleable_def ml.sold_def sellable_def
      split: prod.splits sum.splits)

theorem duplicate_lines_oversell_witness:
  "case decrementForSaleBatch sample_uuid 5 mem_ledger ''t1'' ''loc-1'' [(''mug'', 7), (''mug'', 7)] ''s1'' ''a1'' sample_shop of
      (Inl e, w') \<Rightarrow> False
    | (Inr _, w') \<Rightarrow> balance (stock w') ''mug'' ''loc-1'' < 0"
  by (rule duplicate_lines_oversell [OF sample_uuid_ok]) (simp_all add: sample_shop_def sample_entry_def)

text \<open>
  The batch queries of the ledger answer, for every variant asked for, what the single
  queries answer: balances, entries and whether there are any.
\<close>

theorem ledger_batch_queries:
  assumes "v \<in> set vs"
  shows "lookup_or 0 (mem_currentQuantities es vs loc) v = mem_currentQuantity es v loc
    \<and> lookup_or [] (mem_entriesForBatch es vs at_loc) v = mem_entriesFor es v at_loc
    \<and> map_of (mem_hasAnyEntriesBatch es vs loc) v = Some (mem_hasAnyEntries es v loc)"
  using assms
  by (auto simp: mem_currentQuantity_balance mem_currentQuantities_balance mem_entriesForBatch_def
      mem_entriesFor_def fold_group_entries mem_hasAnyEntriesBatch_def mem_hasAnyEntries_def
      fold_has_entries fold_init_map)

theorem ledger_batch_queries_witness:
  "lookup_or 0 (mem_currentQuantities (stock sample_shop) [''tray'', ''mug''] ''loc-1'') ''mug'' =
     mem_currentQuantity (stock sample_shop) ''mug'' ''loc-1''"
  using ledger_batch_queries [of "''mug''" "[''tray'', ''mug'']" "stock sample_shop" "''loc-1''"] by simp

end
