(* ===== verification/SerializedItems.thy ===== *)
theory SerializedItems
  imports Ledger
begin

text \<open>
  Units tracked by serial number: the life cycle of src/src/domain/entities/SerializedItem.ts with
  the transition table of SerializedItemStatus.ts, the operations of
  src/src/domain/services/SerializedInventoryService.ts over ISerializedItemRepository and
  ILedgerRepository, and the provider
  src/src/infrastructure/persistence/InMemorySerializedItemRepository.ts. That provider hands out
  the objects it stores, so a mutation of a found object is a mutation of the store: \<open>write_through\<close>.
  The dash of the source's reason texts is written \<open>-\<close>.
\<close>

section \<open>Life cycle\<close>

datatype item_status =
  Pending | InStock | Sold | Returned | Quarantined | Transferred | Damaged | WrittenOff

fun status_text :: "item_status \<Rightarrow> string" where
  "status_text Pending = ''pending''"
| "status_text InStock = ''in_stock''"
| "status_text Sold = ''sold''"
| "status_text Returned = ''returned''"
| "status_text Quarantined = ''quarantined''"
| "status_text Transferred = ''transferred''"
| "status_text Damaged = ''damaged''"
| "status_text WrittenOff = ''written_off''"

fun AllowedTransitions :: "item_status \<Rightarrow> item_status list" where
  "AllowedTransitions Pending = [InStock, Quarantined, WrittenOff]"
| "AllowedTransitions InStock = [Sold, Transferred, Quarantined, Damaged, WrittenOff]"
| "AllowedTransitions Sold = [Returned]"
| "AllowedTransitions Returned = [InStock, Quarantined, Damaged, WrittenOff]"
| "AllowedTransitions Quarantined = [InStock, Damaged, WrittenOff]"
| "AllowedTransitions Transferred = [InStock, Quarantined, Damaged]"
| "AllowedTransitions Damaged = [Quarantined, WrittenOff]"
| "AllowedTransitions WrittenOff = []"

definition canTransitionTo :: "item_status \<Rightarrow> item_status \<Rightarrow> bool" where
  "canTransitionTo a b \<longleftrightarrow> b \<in> set (AllowedTransitions a)"

record status_transition =
  st_from :: item_status
  st_to :: item_status
  st_reason :: string
  st_actor :: ident
  st_occurredAt :: time
  st_reference :: "string option"

datatype serial_event = SerializedItemStatusChanged ident string item_status item_status time

record serialized_item =
  si_id :: ident
  si_variant :: ident
  si_serial :: string
  si_tenant :: ident
  si_location :: ident
  si_status :: item_status
  si_history :: "status_transition list"
  si_events :: "serial_event list"

definition SerializedItem ::
    "ident \<Rightarrow> ident \<Rightarrow> string \<Rightarrow> ident \<Rightarrow> ident \<Rightarrow> item_status \<Rightarrow> serialized_item" where
  "SerializedItem i v sn t loc st = \<lparr>si_id = i, si_variant = v, si_serial = sn, si_tenant = t,
     si_location = loc, si_status = st, si_history = [], si_events = []\<rparr>"

definition si_isAvailable :: "serialized_item \<Rightarrow> bool" where
  "si_isAvailable i \<longleftrightarrow> si_status i = InStock"

definition transitionTo ::
    "time \<Rightarrow> item_status \<Rightarrow> string \<Rightarrow> ident \<Rightarrow> string option \<Rightarrow> (serialized_item, unit) oper" where
  "transitionTo now target reason actor ref = op_get (\<lambda>i.
     if si_status i = target then op_return ()
     else op_seq (op_reject (\<not> canTransitionTo (si_status i) target)
            (Error ''Invalid status transition from {} to {}'' [S (status_text (si_status i)), S (status_text target)]))
       (op_modify (\<lambda>i. i\<lparr>
          si_history := si_history i @ [\<lparr>st_from = si_status i, st_to = target, st_reason = reason,
            st_actor = actor, st_occurredAt = now, st_reference = ref\<rparr>],
          si_status := target,
          si_events := si_events i @ [SerializedItemStatusChanged (si_variant i) (si_serial i) (si_status i) target now]\<rparr>)))"

definition si_receive :: "time \<Rightarrow> ident \<Rightarrow> ident \<Rightarrow> string \<Rightarrow> (serialized_item, unit) oper" where
  "si_receive now location actor purchaseOrderId =
     op_seq (transitionTo now InStock (''Received against PO '' @ purchaseOrderId) actor (Some purchaseOrderId))
       (op_modify (\<lambda>i. i\<lparr>si_location := location\<rparr>))"

definition si_sell :: "time \<Rightarrow> string \<Rightarrow> ident \<Rightarrow> (serialized_item, unit) oper" where
  "si_sell now saleId actor = transitionTo now Sold (''Sold - sale '' @ saleId) actor (Some saleId)"

definition si_pullDomainEvents :: "(serialized_item, serial_event list) oper" where
  "si_pullDomainEvents = op_get (\<lambda>i. op_seq (op_modify (\<lambda>i. i\<lparr>si_events := []\<rparr>)) (op_return (si_events i)))"

section \<open>The service\<close>

record 's serial_repo =
  save_serial :: "serialized_item \<Rightarrow> ('s, unit) oper"
  findBySerial :: "'s \<Rightarrow> string \<Rightarrow> ident \<Rightarrow> serialized_item option"
  isRegistered :: "'s \<Rightarrow> string \<Rightarrow> ident \<Rightarrow> bool"
  write_through :: "serialized_item \<Rightarrow> 's \<Rightarrow> 's"

record ('a, 'b) serial_world =
  serials :: 'a
  ledger_of :: 'b
  dispatched :: "serial_event list"

abbreviation on_serials :: "('a, 'r) oper \<Rightarrow> (('a, 'b) serial_world, 'r) oper" where
  "on_serials m \<equiv> op_zoom serials (\<lambda>s w. w\<lparr>serials := s\<rparr>) m"

abbreviation on_ledger :: "('b, 'r) oper \<Rightarrow> (('a, 'b) serial_world, 'r) oper" where
  "on_ledger m \<equiv> op_zoom ledger_of (\<lambda>s w. w\<lparr>ledger_of := s\<rparr>) m"

definition svc_register ::
    "(nat \<Rightarrow> string) \<Rightarrow> 'a serial_repo \<Rightarrow> string \<Rightarrow> ident \<Rightarrow> ident \<Rightarrow> ident
     \<Rightarrow> (('a, 'b) serial_world, serialized_item) oper" where
  "svc_register uuid srepo sn v t loc = op_get (\<lambda>w.
     op_seq (op_reject (isRegistered srepo (serials w) sn t)
       (Error ''Serial number {} is already registered.'' [S sn]))
     (op_bind (op_lift (SerializedItemId (uuid 0))) (\<lambda>i.
        let item = SerializedItem i v sn t loc Pending in
        op_seq (on_serials (save_serial srepo item)) (op_return item))))"

text \<open>
  What \<open>receive\<close>, \<open>sell\<close>, \<open>return\<close> and \<open>restock\<close> do around their transition: find the unit, change
  it, write its ledger entry, save it, dispatch its events. \<open>place\<close> is the location of the entry.
\<close>

definition dispatchEvents :: "'a serial_repo \<Rightarrow> serialized_item \<Rightarrow> (('a, 'b) serial_world, unit) oper" where
  "dispatchEvents srepo item = (case si_pullDomainEvents item of (r, item') \<Rightarrow>
     op_seq (op_modify (\<lambda>w. w\<lparr>serials := write_through srepo item' (serials w)\<rparr>))
     (op_bind (op_lift r) (\<lambda>es. op_modify (\<lambda>w. w\<lparr>dispatched := dispatched w @ es\<rparr>))))"

definition move_unit ::
    "(nat \<Rightarrow> string) \<Rightarrow> time \<Rightarrow> 'a serial_repo \<Rightarrow> 'b ledger_repo \<Rightarrow> string \<Rightarrow> ident
     \<Rightarrow> (serialized_item, unit) oper \<Rightarrow> (serialized_item \<Rightarrow> ident) \<Rightarrow> number \<Rightarrow> reason_code \<Rightarrow> ident
     \<Rightarrow> string \<Rightarrow> (string, arg) js_map \<Rightarrow> (('a, 'b) serial_world, unit) oper" where
  "move_unit uuid now srepo lrepo sn t change place q reason actor ref meta = op_get (\<lambda>w.
     case findBySerial srepo (serials w) sn t of
       None \<Rightarrow> op_throw (Error ''Serial number {} not found.'' [S sn])
     | Some found \<Rightarrow> (case change found of (r, item) \<Rightarrow>
         op_seq (op_modify (\<lambda>w. w\<lparr>serials := write_through srepo item (serials w)\<rparr>))
         (op_seq (op_lift r)
         (op_bind (op_lift (result_bind (LedgerEntryId (uuid 0)) (\<lambda>i.
            LedgerEntry i t (place item) (si_variant item) q reason actor now (Some ref) meta))) (\<lambda>entry.
         op_seq (on_ledger (append_entry lrepo entry))
         (op_seq (on_serials (save_serial srepo item))
         (dispatchEvents srepo item)))))))"

definition svc_receive ::
    "(nat \<Rightarrow> string) \<Rightarrow> time \<Rightarrow> 'a serial_repo \<Rightarrow> 'b ledger_repo \<Rightarrow> string \<Rightarrow> ident \<Rightarrow> ident \<Rightarrow> string
     \<Rightarrow> number \<Rightarrow> ident \<Rightarrow> (('a, 'b) serial_world, unit) oper" where
  "svc_receive uuid now srepo lrepo sn t location purchaseOrderId unitCostCents actor =
     move_unit uuid now srepo lrepo sn t (si_receive now location actor purchaseOrderId) (\<lambda>_. location) 1
       PurchaseReceipt actor purchaseOrderId [(''serialNumber'', S sn), (''unitCostCents'', N unitCostCents)]"

definition svc_sell ::
    "(nat \<Rightarrow> string) \<Rightarrow> time \<Rightarrow> 'a serial_repo \<Rightarrow> 'b ledger_repo \<Rightarrow> string \<Rightarrow> ident \<Rightarrow> string \<Rightarrow> ident
     \<Rightarrow> (('a, 'b) serial_world, unit) oper" where
  "svc_sell uuid now srepo lrepo sn t saleId actor =
     move_unit uuid now srepo lrepo sn t (si_sell now saleId actor) si_location (- 1)
       Sale actor saleId [(''serialNumber'', S sn)]"

definition svc_return ::
    "(nat \<Rightarrow> string) \<Rightarrow> time \<Rightarrow> 'a serial_repo \<Rightarrow> 'b ledger_repo \<Rightarrow> string \<Rightarrow> ident \<Rightarrow> string \<Rightarrow> ident
     \<Rightarrow> (('a, 'b) serial_world, unit) oper" where
  "svc_return uuid now srepo lrepo sn t ref actor =
     move_unit uuid now srepo lrepo sn t
       (transitionTo now Returned (''Returned - ref '' @ ref) actor (Some ref)) si_location 1
       Return actor ref [(''serialNumber'', S sn)]"

definition svc_restock ::
    "(nat \<Rightarrow> string) \<Rightarrow> time \<Rightarrow> 'a serial_repo \<Rightarrow> 'b ledger_repo \<Rightarrow> string \<Rightarrow> ident \<Rightarrow> ident \<Rightarrow> string \<Rightarrow> ident
     \<Rightarrow> (('a, 'b) serial_world, unit) oper" where
  "svc_restock uuid now srepo lrepo sn t loc ref actor =
     move_unit uuid now srepo lrepo sn t
       (transitionTo now InStock (''Restocked - ref '' @ ref) actor (Some ref)) (\<lambda>_. loc) 1
       PurchaseReceipt actor ref [(''serialNumber'', S sn)]"

section \<open>The in-memory repository\<close>

type_synonym serial_table = "serialized_item list"

definition put_item :: "serialized_item \<Rightarrow> serial_table \<Rightarrow> serial_table" where
  "put_item item items = (case find_index (\<lambda>i. si_id i = si_id item) items of
     Some index \<Rightarrow> items[index := item] | None \<Rightarrow> items @ [item])"

definition ms_save :: "serialized_item \<Rightarrow> (serial_table, unit) oper" where
  "ms_save item = op_modify (put_item item)"

definition ms_saveBatch :: "serialized_item list \<Rightarrow> (serial_table, unit) oper" where
  "ms_saveBatch items = op_each ms_save items"

definition ms_findBySerial :: "serial_table \<Rightarrow> string \<Rightarrow> ident \<Rightarrow> serialized_item option" where
  "ms_findBySerial items sn t = find (\<lambda>i. si_serial i = sn \<and> si_tenant i = t) items"

definition ms_isRegistered :: "serial_table \<Rightarrow> string \<Rightarrow> ident \<Rightarrow> bool" where
  "ms_isRegistered items sn t = list_ex (\<lambda>i. si_serial i = sn \<and> si_tenant i = t) items"

definition ms_countByStatus :: "serial_table \<Rightarrow> ident \<Rightarrow> item_status \<Rightarrow> nat" where
  "ms_countByStatus items v st = length (filter (\<lambda>i. si_variant i = v \<and> si_status i = st) items)"

definition ms_findBySerialsAndVariantsBatch :: "serial_table \<Rightarrow> (string \<times> ident) list \<Rightarrow> serialized_item list" where
  "ms_findBySerialsAndVariantsBatch items pairs =
     filter (\<lambda>i. list_ex (\<lambda>(sn, v). sn = si_serial i \<and> v = si_variant i) pairs) items"

definition ms_findBySerialAndVariant :: "serial_table \<Rightarrow> string \<Rightarrow> ident \<Rightarrow> serialized_item option" where
  "ms_findBySerialAndVariant items sn v = find (\<lambda>i. si_serial i = sn \<and> si_variant i = v) items"

definition ms_findManyBySerialsAndVariant :: "serial_table \<Rightarrow> string list \<Rightarrow> ident \<Rightarrow> serialized_item list" where
  "ms_findManyBySerialsAndVariant items sns v =
     filter (\<lambda>i. list_ex (\<lambda>sn. sn = si_serial i) sns \<and> si_variant i = v) items"

definition ms_findByVariantId :: "serial_table \<Rightarrow> ident \<Rightarrow> ident \<Rightarrow> serialized_item list" where
  "ms_findByVariantId items v t = filter (\<lambda>i. si_variant i = v \<and> si_tenant i = t) items"

definition all_statuses :: "item_status list" where
  "all_statuses = [Pending, InStock, Sold, Returned, Quarantined, Transferred, Damaged, WrittenOff]"

definition ms_countAllStatuses :: "serial_table \<Rightarrow> ident \<Rightarrow> (item_status, nat) js_map" where
  "ms_countAllStatuses items v = fold (\<lambda>st m. AList.update st (ms_countByStatus items v st) m) all_statuses []"

definition mem_serials :: "serial_table serial_repo" where
  "mem_serials = \<lparr>save_serial = ms_save, findBySerial = ms_findBySerial, isRegistered = ms_isRegistered,
     write_through = put_item\<rparr>"

section \<open>Items move along the table\<close>

fun chain :: "item_status \<Rightarrow> status_transition list \<Rightarrow> item_status \<Rightarrow> bool" where
  "chain a [] b \<longleftrightarrow> a = b"
| "chain a (t # ts) b \<longleftrightarrow> st_from t = a \<and> canTransitionTo a (st_to t) \<and> chain (st_to t) ts b"

lemma chain_snoc:
  "chain a ts b \<Longrightarrow> canTransitionTo b c \<Longrightarrow> st_from t = b \<Longrightarrow> st_to t = c \<Longrightarrow> chain a (ts @ [t]) c"
  by (induction ts arbitrary: a) auto

definition item_on_chain :: "item_status \<Rightarrow> serialized_item \<Rightarrow> bool" where
  "item_on_chain a i \<longleftrightarrow> chain a (si_history i) (si_status i)"

lemma transitionTo_chain [keeps_intros]: "keeps (item_on_chain a) (transitionTo now target reason actor ref)"
  by (auto simp: keeps_def transitionTo_def oper_simps item_on_chain_def intro: chain_snoc)

lemma si_receive_chain [keeps_intros]: "keeps (item_on_chain a) (si_receive now loc actor po)"
  unfolding si_receive_def by (intro keeps_intros) (simp add: item_on_chain_def)

lemma si_sell_chain [keeps_intros]: "keeps (item_on_chain a) (si_sell now saleId actor)"
  unfolding si_sell_def by (intro keeps_intros)

lemma si_pull_chain [keeps_intros]: "keeps (item_on_chain a) si_pullDomainEvents"
  unfolding si_pullDomainEvents_def by (intro keeps_intros) (simp add: item_on_chain_def)

datatype item_call =
    CallTransition time item_status string ident "string option"
  | CallReceive time ident ident string
  | CallSell time string ident
  | CallPull

fun item_exec :: "item_call \<Rightarrow> (serialized_item, unit) oper" where
  "item_exec (CallTransition now st reason actor ref) = transitionTo now st reason actor ref"
| "item_exec (CallReceive now loc actor po) = si_receive now loc actor po"
| "item_exec (CallSell now saleId actor) = si_sell now saleId actor"
| "item_exec CallPull = op_bind si_pullDomainEvents (\<lambda>_. op_return ())"

lemma item_exec_chain: "keeps (item_on_chain a) (item_exec c)"
  by (cases c) (auto intro!: keeps_intros)

lemma transitionTo_outcome:
  "transitionTo now target reason actor ref i =
    (if si_status i = target then (Inr (), i)
     else if canTransitionTo (si_status i) target
     then (Inr (), i\<lparr>si_history := si_history i @ [\<lparr>st_from = si_status i, st_to = target, st_reason = reason,
              st_actor = actor, st_occurredAt = now, st_reference = ref\<rparr>], si_status := target,
            si_events := si_events i @ [SerializedItemStatusChanged (si_variant i) (si_serial i) (si_status i) target now]\<rparr>)
     else (Inl (Error ''Invalid status transition from {} to {}'' [S (status_text (si_status i)), S (status_text target)]), i))"
  by (simp add: transitionTo_def oper_simps)

text \<open>
  A unit only moves along the transition table: after any calls on a fresh unit, returning
  or throwing, its history is a chain of allowed transitions from the initial status to the current
  one; and a unit that is written off stays written off.
\<close>

theorem serial_history_is_chain:
  "chain st (si_history (fold (\<lambda>c i. snd (item_exec c i)) cs (SerializedItem i v sn t loc st)))
     (si_status (fold (\<lambda>c i. snd (item_exec c i)) cs (SerializedItem i v sn t loc st)))
   \<and> si_status (fold (\<lambda>c i. snd (item_exec c i)) cs (SerializedItem i v sn t loc WrittenOff)) = WrittenOff"
proof -
  have chain: "item_on_chain a (fold (\<lambda>c i. snd (item_exec c i)) cs x)" if "item_on_chain a x" for a x
    by (rule keeps_fold [OF item_exec_chain that])
  have dead: "chain WrittenOff h s \<Longrightarrow> s = WrittenOff" for h s
    by (cases h) (auto simp: canTransitionTo_def)
  have start: "item_on_chain a (SerializedItem i v sn t loc a)" for a
    by (simp add: item_on_chain_def SerializedItem_def)
  show ?thesis
    using chain [OF start, of st] dead [OF chain [OF start, unfolded item_on_chain_def]]
    by (simp add: item_on_chain_def)
qed


section \<open>The contract of the repository, and the service over it\<close>

definition same_unit :: "serialized_item \<Rightarrow> serialized_item \<Rightarrow> bool" where
  "same_unit i j \<longleftrightarrow> si_id i = si_id j \<and> si_serial i = si_serial j \<and> si_tenant i = si_tenant j"

locale serial_repository =
  fixes srepo :: "'a serial_repo" and inv :: "'a \<Rightarrow> bool" and ids :: "'a \<Rightarrow> ident set"
  assumes save_returns: "fst (save_serial srepo i s) = Inr ()"
    and registered: "inv s \<Longrightarrow> isRegistered srepo s sn t \<longleftrightarrow> findBySerial srepo s sn t \<noteq> None"
    and found_key: "findBySerial srepo s sn t = Some i \<Longrightarrow> si_serial i = sn \<and> si_tenant i = t"
    and save_known: "inv s \<Longrightarrow> findBySerial srepo s (si_serial i) (si_tenant i) = Some j \<Longrightarrow> same_unit j i \<Longrightarrow>
      inv (snd (save_serial srepo i s)) \<and> findBySerial srepo (snd (save_serial srepo i s)) sn t =
        (if sn = si_serial i \<and> t = si_tenant i then Some i else findBySerial srepo s sn t)"
    and write_known: "inv s \<Longrightarrow> findBySerial srepo s (si_serial i) (si_tenant i) = Some j \<Longrightarrow> same_unit j i \<Longrightarrow>
      inv (write_through srepo i s) \<and> findBySerial srepo (write_through srepo i s) sn t =
        (if sn = si_serial i \<and> t = si_tenant i then Some i else findBySerial srepo s sn t)"
    and save_new: "inv s \<Longrightarrow> findBySerial srepo s (si_serial i) (si_tenant i) = None \<Longrightarrow> si_id i \<notin> ids s \<Longrightarrow>
      inv (snd (save_serial srepo i s)) \<and> findBySerial srepo (snd (save_serial srepo i s)) sn t =
        (if sn = si_serial i \<and> t = si_tenant i then Some i else findBySerial srepo s sn t)"

locale serialized_inventory = serial_repository srepo inv ids + ledger_repository lrepo entries
  for srepo :: "'a serial_repo" and inv :: "'a \<Rightarrow> bool" and ids :: "'a \<Rightarrow> ident set"
    and lrepo :: "'b ledger_repo" and entries :: "'b \<Rightarrow> ledger_entry list"
begin

definition moved ::
    "serialized_item \<Rightarrow> ident \<Rightarrow> number \<Rightarrow> ('a, 'b) serial_world \<Rightarrow> ('a, 'b) serial_world \<Rightarrow> bool" where
  "moved item place q w w' \<longleftrightarrow> inv (serials w')
     \<and> (\<forall>sn t. findBySerial srepo (serials w') sn t =
          (if sn = si_serial item \<and> t = si_tenant item then Some (item\<lparr>si_events := []\<rparr>)
           else findBySerial srepo (serials w) sn t))
     \<and> (\<forall>v l. balance (entries (ledger_of w')) v l = balance (entries (ledger_of w)) v l
          + (if v = si_variant item \<and> l = place then q else 0))
     \<and> dispatched w' = dispatched w @ si_events item"

lemma unit_entry:
  assumes "uuids_ok uuid" and "sellable q"
  obtains e where "result_bind (LedgerEntryId (uuid 0)) (\<lambda>i. LedgerEntry i t loc v q reason actor now ref meta) = Inr e"
    and "le_variant e = v" and "le_location e = loc" and "le_quantity e = q"
  using assms by (simp add: LedgerEntryId_uuid LedgerEntry_def sellable_def)

lemma save_known_eq:
  assumes "inv s" and "findBySerial srepo s (si_serial i) (si_tenant i) = Some j" and "same_unit j i"
  obtains s' where "save_serial srepo i s = (Inr (), s')" and "inv s'"
    and "\<And>sn t. findBySerial srepo s' sn t =
      (if sn = si_serial i \<and> t = si_tenant i then Some i else findBySerial srepo s sn t)"
  using save_known [OF assms] save_returns [of i s] by (metis prod.collapse)

lemma dispatchEvents_eval: "dispatchEvents srepo item w =
    (Inr (), w\<lparr>serials := write_through srepo (item\<lparr>si_events := []\<rparr>) (serials w),
       dispatched := dispatched w @ si_events item\<rparr>)"
  by (simp add: dispatchEvents_def si_pullDomainEvents_def oper_simps)

lemma move_unit_returns:
  assumes "uuids_ok uuid" and "sellable q" and "inv (serials w)"
    and found: "findBySerial srepo (serials w) sn t = Some i"
    and change: "change i = (Inr (), item)" and same: "same_unit i item"
  shows "\<exists>w'. move_unit uuid now srepo lrepo sn t change place q reason actor ref meta w = (Inr (), w')
    \<and> moved item (place item) q w w'"
proof -
  have key: "si_serial item = sn" "si_tenant item = t"
    using found_key [OF found] same by (simp_all add: same_unit_def)
  let ?s1 = "write_through srepo item (serials w)"
  let ?fin = "item\<lparr>si_events := []\<rparr>"
  have s1: "inv ?s1" "\<And>sn' t'. findBySerial srepo ?s1 sn' t' =
      (if sn' = sn \<and> t' = t then Some item else findBySerial srepo (serials w) sn' t')"
    using write_known [OF assms(3), of item i] found same key by auto
  obtain e where e: "result_bind (LedgerEntryId (uuid 0)) (\<lambda>i. LedgerEntry i t (place item) (si_variant item) q reason actor now (Some ref) meta) = Inr e"
      "le_variant e = si_variant item" "le_location e = place item" "le_quantity e = q"
    by (rule unit_entry [OF assms(1,2)])
  obtain l' where l': "append_entry lrepo e (ledger_of w) = (Inr (), l')"
    using append_returns by (metis prod.collapse)
  obtain s2 where s2: "save_serial srepo item ?s1 = (Inr (), s2)" "inv s2"
      "\<And>sn' t'. findBySerial srepo s2 sn' t' =
        (if sn' = si_serial item \<and> t' = si_tenant item then Some item else findBySerial srepo ?s1 sn' t')"
    by (rule save_known_eq [OF s1(1), of item item]) (use s1(2) key in \<open>auto simp: same_unit_def\<close>)
  have s3: "inv (write_through srepo ?fin s2)" "\<And>sn' t'. findBySerial srepo (write_through srepo ?fin s2) sn' t' =
      (if sn' = sn \<and> t' = t then Some ?fin else findBySerial srepo s2 sn' t')"
    using write_known [OF s2(2), of ?fin item] s2(3) key by (auto simp: same_unit_def)
  have "move_unit uuid now srepo lrepo sn t change place q reason actor ref meta w =
      (Inr (), w\<lparr>serials := write_through srepo ?fin s2, ledger_of := l', dispatched := dispatched w @ si_events item\<rparr>)"
    by (simp add: move_unit_def oper_simps found change e(1) l' s2(1) dispatchEvents_eval)
  moreover have "moved item (place item) q w
      (w\<lparr>serials := write_through srepo ?fin s2, ledger_of := l', dispatched := dispatched w @ si_events item\<rparr>)"
    using s1(2) s2(3) s3 key append [OF l'] e(2-4) by (simp add: moved_def)
  ultimately show ?thesis by blast
qed

lemma move_unit_refused:
  assumes "inv (serials w)" and found: "findBySerial srepo (serials w) sn t = Some i"
    and change: "change i = (Inl e, i)"
  shows "\<exists>w'. move_unit uuid now srepo lrepo sn t change place q reason actor ref meta w = (Inl e, w')
    \<and> findBySerial srepo (serials w') = findBySerial srepo (serials w)
    \<and> ledger_of w' = ledger_of w \<and> dispatched w' = dispatched w"
proof -
  have "findBySerial srepo (write_through srepo i (serials w)) = findBySerial srepo (serials w)"
    using write_known [OF assms(1), of i i] found found_key [OF found] by (auto simp: fun_eq_iff same_unit_def)
  then show ?thesis by (simp add: move_unit_def oper_simps found change)
qed

lemma register_cases:
  assumes "inv (serials w)" and "uuids_ok uuid" and "uuid 0 \<notin> ids (serials w)"
  shows "case svc_register uuid srepo sn v t loc w of
      (Inl e, w') \<Rightarrow> w' = w \<and> findBySerial srepo (serials w) sn t \<noteq> None
    | (Inr i, w') \<Rightarrow> findBySerial srepo (serials w) sn t = None \<and> si_status i = Pending \<and> inv (serials w')
        \<and> findBySerial srepo (serials w') sn t = Some i \<and> ledger_of w' = ledger_of w"
proof -
  have uid: "SerializedItemId (uuid 0) = Inr (uuid 0)"
    using assms(2) unfolding uuids_ok_def SerializedItemId_def make_id_def by (metis is_blank_Nil)
  let ?i = "SerializedItem (uuid 0) v sn t loc Pending"
  obtain s' where s': "save_serial srepo ?i (serials w) = (Inr (), s')"
    using save_returns by (metis prod.collapse)
  show ?thesis
  proof (cases "findBySerial srepo (serials w) sn t")
    case None
    with save_new [OF assms(1), of ?i sn t] s' assms(3) registered [OF assms(1)] uid show ?thesis
      by (simp add: svc_register_def oper_simps SerializedItem_def Let_def)
  next
    case (Some j)
    with registered [OF assms(1)] show ?thesis by (simp add: svc_register_def oper_simps)
  qed
qed

end

section \<open>The in-memory repository keeps the contract\<close>

definition table_inv :: "serial_table \<Rightarrow> bool" where
  "table_inv items \<longleftrightarrow> distinct (map si_id items) \<and> distinct (map (\<lambda>i. (si_serial i, si_tenant i)) items)"

lemma find_Some_mem: "find P xs = Some x \<Longrightarrow> x \<in> set xs \<and> P x"
  by (induction xs) (auto split: if_splits)

lemma find_key_update:
  assumes "distinct (map key xs)" and "k < length xs" and "key x = key (xs ! k)"
  shows "find (\<lambda>y. key y = c) (xs[k := x]) = (if key x = c then Some x else find (\<lambda>y. key y = c) xs)"
  using assms
proof (induction xs arbitrary: k)
  case (Cons y ys)
  show ?case
  proof (cases k)
    case 0
    with Cons.prems show ?thesis by simp
  next
    case (Suc j)
    with Cons.prems have "key x \<in> key ` set ys" "key y \<notin> key ` set ys" by (auto simp: image_iff)
    then have "key x \<noteq> key y" by metis
    with Cons Suc show ?thesis by auto
  qed
qed simp

lemma ms_find_key: "ms_findBySerial items sn t = find (\<lambda>i. (si_serial i, si_tenant i) = (sn, t)) items"
  by (simp add: ms_findBySerial_def)

lemma put_known:
  assumes "table_inv items" and "ms_findBySerial items (si_serial i) (si_tenant i) = Some j" and "same_unit j i"
  shows "table_inv (put_item i items) \<and> ms_findBySerial (put_item i items) sn t =
    (if sn = si_serial i \<and> t = si_tenant i then Some i else ms_findBySerial items sn t)"
proof -
  have j: "j \<in> set items" "si_id j = si_id i" "si_serial j = si_serial i" "si_tenant j = si_tenant i"
    using find_Some_mem [of _ items j] assms(2,3) by (simp_all add: ms_findBySerial_def same_unit_def)
  then obtain k where k: "find_index (\<lambda>x. si_id x = si_id i) items = Some k"
    by (metis (mono_tags, lifting) find_index_None not_Some_eq)
  note k' = find_index_Some [OF k]
  then have jk: "items ! k = j"
    using assms(1) j by (metis (no_types, lifting) distinct_map inj_on_contraD nth_mem table_inv_def)
  have "map si_id (items[k := i]) = map si_id items"
    "map (\<lambda>i. (si_serial i, si_tenant i)) (items[k := i]) = map (\<lambda>i. (si_serial i, si_tenant i)) items"
    using k' jk j by (auto simp: map_update list_update_same_conv)
  moreover have "find (\<lambda>x. (si_serial x, si_tenant x) = (sn, t)) (items[k := i]) =
      (if (si_serial i, si_tenant i) = (sn, t) then Some i else find (\<lambda>x. (si_serial x, si_tenant x) = (sn, t)) items)"
    using assms(1) k' jk j by (intro find_key_update) (auto simp: table_inv_def)
  ultimately show ?thesis using assms(1) k by (auto simp: put_item_def table_inv_def ms_find_key)
qed

lemma put_new:
  assumes "table_inv items" and "ms_findBySerial items (si_serial i) (si_tenant i) = None"
    and "si_id i \<notin> si_id ` set items"
  shows "table_inv (put_item i items) \<and> ms_findBySerial (put_item i items) sn t =
    (if sn = si_serial i \<and> t = si_tenant i then Some i else ms_findBySerial items sn t)"
proof -
  have "find_index (\<lambda>x. si_id x = si_id i) items = None"
    using assms(3) by (auto simp: find_index_None image_iff)
  moreover have "\<forall>x \<in> set items. \<not> (si_serial x = si_serial i \<and> si_tenant x = si_tenant i)"
    using assms(2) by (auto simp: ms_findBySerial_def find_None_iff)
  ultimately show ?thesis using assms
    by (auto simp: put_item_def table_inv_def ms_findBySerial_def find_append image_iff split: option.splits)
qed

lemma ms_registered: "ms_isRegistered items sn t \<longleftrightarrow> ms_findBySerial items sn t \<noteq> None"
  by (auto simp: ms_isRegistered_def ms_findBySerial_def find_None_iff list_ex_iff)

lemma ms_found_key: "ms_findBySerial items sn t = Some i \<Longrightarrow> si_serial i = sn \<and> si_tenant i = t"
  unfolding ms_findBySerial_def by (drule find_Some_mem) simp

interpretation ms: serial_repository mem_serials table_inv "\<lambda>items. si_id ` set items"
  by unfold_locales
     (simp_all add: mem_serials_def ms_save_def oper_simps put_known put_new ms_registered ms_found_key)

interpretation sm: serialized_inventory mem_serials table_inv "\<lambda>items. si_id ` set items" mem_ledger "\<lambda>es. es"
  by unfold_locales


section \<open>Properties of the service\<close>

lemma transition_step:
  assumes "si_status i \<noteq> st" and "canTransitionTo (si_status i) st"
  obtains item where "transitionTo now st reason actor ref i = (Inr (), item)" and "same_unit i item"
    and "si_variant item = si_variant i" and "si_location item = si_location i" and "si_status item = st"
proof -
  have "same_unit i (snd (transitionTo now st reason actor ref i))"
    "si_variant (snd (transitionTo now st reason actor ref i)) = si_variant i"
    "si_location (snd (transitionTo now st reason actor ref i)) = si_location i"
    "si_status (snd (transitionTo now st reason actor ref i)) = st"
    "fst (transitionTo now st reason actor ref i) = Inr ()"
    using assms by (simp_all add: transitionTo_outcome same_unit_def)
  then show thesis using that by (metis prod.collapse)
qed


definition sample_unit :: "item_status \<Rightarrow> serialized_item" where
  "sample_unit st = SerializedItem ''i1'' ''camera'' ''SN-1'' ''t1'' ''loc-1'' st"

definition sample_world :: "item_status \<Rightarrow> (serial_table, ledger) serial_world" where
  "sample_world st = \<lparr>serials = [sample_unit st], ledger_of = [], dispatched = []\<rparr>"

lemma sample_world_found: "ms_findBySerial (serials (sample_world st)) ''SN-1'' ''t1'' = Some (sample_unit st)"
  by (simp add: ms_findBySerial_def sample_world_def sample_unit_def SerializedItem_def)

lemma sample_world_inv: "table_inv (serials (sample_world st))"
  by (simp add: table_inv_def sample_world_def)


text \<open>
  Selling a unit that is already sold does not throw: the transition is skipped silently,
  and the ledger is charged again for the same physical unit.
\<close>

theorem resale_charges_again:
  assumes "uuids_ok uuid" and "table_inv (serials w)"
    and "ms_findBySerial (serials w) sn t = Some i" and "si_status i = Sold"
  shows "fst (svc_sell uuid now mem_serials mem_ledger sn t saleId actor w) = Inr ()
    \<and> balance (ledger_of (snd (svc_sell uuid now mem_serials mem_ledger sn t saleId actor w))) (si_variant i) (si_location i)
      = balance (ledger_of w) (si_variant i) (si_location i) - 1"
proof -
  have find: "findBySerial mem_serials (serials w) sn t = Some i" using assms(3) by (simp add: mem_serials_def)
  have "si_sell now saleId actor i = (Inr (), i)"
    using assms(4) by (simp add: si_sell_def transitionTo_outcome)
  from sm.move_unit_returns [where sn = sn and t = t and now = now and change = "si_sell now saleId actor" and place = si_location and q = "- 1"
      and reason = Sale and actor = actor and ref = saleId and meta = "[(''serialNumber'', S sn)]",
      OF assms(1) _ assms(2) find this]
  show ?thesis by (auto simp: svc_sell_def sellable_def same_unit_def sm.moved_def)
qed

theorem resale_charges_again_witness:
  "balance (ledger_of (snd (svc_sell sample_uuid 3 mem_serials mem_ledger ''SN-1'' ''t1'' ''s2'' ''a1'' (sample_world Sold))))
     ''camera'' ''loc-1'' = - 1"
  using resale_charges_again [OF sample_uuid_ok sample_world_inv sample_world_found, where now = 3 and saleId = "''s2''"
      and actor = "''a1''" and st1 = Sold]
  by (simp add: sample_unit_def SerializedItem_def sample_world_def)

text \<open>
  A unit that comes back is counted twice: \<open>return\<close> of a sold unit adds one to the ledger
  and the \<open>restock\<close> that must follow it adds one more, so one unit sold, returned and restocked
  leaves the balance one higher than before the sale.
\<close>

theorem return_and_restock_count_twice:
  assumes "uuids_ok uuid" and "table_inv (serials w)"
    and "ms_findBySerial (serials w) sn t = Some i" and "si_status i = Sold"
  shows "\<exists>w1 w2. svc_return uuid now mem_serials mem_ledger sn t ref actor w = (Inr (), w1)
    \<and> svc_restock uuid now mem_serials mem_ledger sn t (si_location i) ref actor w1 = (Inr (), w2)
    \<and> map_option si_status (ms_findBySerial (serials w2) sn t) = Some InStock
    \<and> balance (ledger_of w2) (si_variant i) (si_location i) = balance (ledger_of w) (si_variant i) (si_location i) + 2"
proof -
  have key: "si_serial i = sn" "si_tenant i = t" using ms_found_key [OF assms(3)] by auto
  have find: "findBySerial mem_serials (serials w) sn t = Some i" using assms(3) by (simp add: mem_serials_def)
  obtain i1 where i1: "transitionTo now Returned (''Returned - ref '' @ ref) actor (Some ref) i = (Inr (), i1)" "same_unit i i1"
      "si_variant i1 = si_variant i" "si_location i1 = si_location i" "si_status i1 = Returned"
    by (rule transition_step [of i Returned]) (use assms(4) in \<open>simp_all add: canTransitionTo_def\<close>)
  from sm.move_unit_returns [where sn = sn and t = t and now = now and change = "transitionTo now Returned (''Returned - ref '' @ ref) actor (Some ref)" and place = si_location and q = 1
      and reason = Return and actor = actor and ref = ref and meta = "[(''serialNumber'', S sn)]",
      OF assms(1) _ assms(2) find i1(1,2)]
  obtain w1 where w1: "svc_return uuid now mem_serials mem_ledger sn t ref actor w = (Inr (), w1)"
      "sm.moved i1 (si_location i) 1 w w1"
    using i1(4) by (auto simp: svc_return_def sellable_def)
  let ?i1 = "i1\<lparr>si_events := []\<rparr>"
  have find1: "findBySerial mem_serials (serials w1) sn t = Some ?i1" "table_inv (serials w1)"
    using w1(2) key i1(2) by (simp_all add: sm.moved_def same_unit_def)
  obtain i2 where i2: "transitionTo now InStock (''Restocked - ref '' @ ref) actor (Some ref) ?i1 = (Inr (), i2)"
      "same_unit ?i1 i2" "si_variant i2 = si_variant i" "si_status i2 = InStock"
    by (rule transition_step [of ?i1 InStock]) (use i1 in \<open>simp_all add: canTransitionTo_def\<close>)
  from sm.move_unit_returns [where sn = sn and t = t and now = now and change = "transitionTo now InStock (''Restocked - ref '' @ ref) actor (Some ref)" and place = "\<lambda>_. si_location i" and q = 1
      and reason = PurchaseReceipt and actor = actor and ref = ref and meta = "[(''serialNumber'', S sn)]",
      OF assms(1) _ find1(2) find1(1) i2(1,2)]
  obtain w2 where w2: "svc_restock uuid now mem_serials mem_ledger sn t (si_location i) ref actor w1 = (Inr (), w2)"
      "sm.moved i2 (si_location i) 1 w1 w2"
    by (auto simp: svc_restock_def sellable_def)
  have "ms_findBySerial (serials w2) sn t = Some (i2\<lparr>si_events := []\<rparr>)"
    using w2(2) key i1(2) i2(2) by (simp add: sm.moved_def same_unit_def) (simp add: mem_serials_def)
  moreover have "balance (ledger_of w2) (si_variant i) (si_location i) = balance (ledger_of w) (si_variant i) (si_location i) + 2"
    using w1(2) w2(2) i1(3) i2(3) by (simp add: sm.moved_def)
  ultimately show ?thesis using w1(1) w2(1) i2(4) by auto
qed

theorem return_and_restock_count_twice_witness:
  "\<exists>w1 w2. svc_return sample_uuid 3 mem_serials mem_ledger ''SN-1'' ''t1'' ''r1'' ''a1'' (sample_world Sold) = (Inr (), w1)
    \<and> svc_restock sample_uuid 3 mem_serials mem_ledger ''SN-1'' ''t1'' ''loc-1'' ''r1'' ''a1'' w1 = (Inr (), w2)
    \<and> balance (ledger_of w2) ''camera'' ''loc-1'' = 2"
  using return_and_restock_count_twice [OF sample_uuid_ok sample_world_inv sample_world_found, where now = 3
      and ref = "''r1''" and actor = "''a1''" and st1 = Sold]
  by (auto simp: sample_unit_def SerializedItem_def sample_world_def)

text \<open>
  A serial number is registered at most once per tenant: registering a known one throws
  and changes nothing; registering a new one stores one pending unit under it and writes no ledger
  entry.
\<close>

theorem register_once:
  assumes "table_inv (serials w)" and "uuids_ok uuid" and "uuid 0 \<notin> si_id ` set (serials w)"
  shows "case svc_register uuid mem_serials sn v t loc w of
      (Inl e, w') \<Rightarrow> w' = w \<and> ms_isRegistered (serials w) sn t
    | (Inr i, w') \<Rightarrow> \<not> ms_isRegistered (serials w) sn t \<and> si_status i = Pending
        \<and> ms_findBySerial (serials w') sn t = Some i \<and> table_inv (serials w') \<and> ledger_of w' = ledger_of w"
proof -
  have f: "findBySerial mem_serials = ms_findBySerial" by (simp add: mem_serials_def)
  show ?thesis
    using sm.register_cases [OF assms, where sn = sn and v = v and t = t and loc = loc] unfolding f
    by (auto simp: ms_registered split: prod.splits sum.splits)
qed

theorem register_once_witness:
  "case svc_register sample_uuid mem_serials ''SN-1'' ''camera'' ''t1'' ''loc-1'' (sample_world Sold) of
      (Inl e, w') \<Rightarrow> w' = sample_world Sold | (Inr i, w') \<Rightarrow> False"
  using register_once [OF sample_world_inv sample_uuid_ok, where st1 = Sold and sn = "''SN-1''" and v = "''camera''"
      and t = "''t1''" and loc = "''loc-1''"]
  by (auto simp: ms_registered ms_findBySerial_def sample_world_def sample_unit_def SerializedItem_def sample_uuid_def
      split: prod.splits sum.splits)

end
