(* ===== verification/Products.thy ===== *)
theory Products
  imports Costing
begin

text \<open>
  The product catalogue: attribute sets (src/src/domain/valueObjects/VariantAttributeSet.ts),
  variants and products (src/src/domain/entities/Product.ts, ProductVariant.ts) and
  src/src/infrastructure/persistence/InMemoryProductRepository.ts. \<open>collate\<close> is the rank that
  \<open>localeCompare\<close> gives a string in the run's locale. \<open>uuid n\<close> is the n-th value of
  \<open>crypto.randomUUID\<close>.
\<close>

section \<open>Attribute sets\<close>

definition VariantAttributeSet :: "(string \<Rightarrow> int) \<Rightarrow> variant_attribute list \<Rightarrow> variant_attribute list result" where
  "VariantAttributeSet collate attrs =
     (if length attrs = 0 then Inl (Error ''A variant must have at least one attribute.'' [])
      else Inr (sort_key (\<lambda>a. collate (attr_name a)) attrs))"

definition attribute_equals :: "variant_attribute \<Rightarrow> variant_attribute \<Rightarrow> bool" where
  "attribute_equals a b \<longleftrightarrow> attr_name a = attr_name b \<and> attr_value a = attr_value b"

definition attributes_equal :: "variant_attribute list \<Rightarrow> variant_attribute list \<Rightarrow> bool" where
  "attributes_equal as bs \<longleftrightarrow>
     (if length as \<noteq> length bs then False
      else list_all (\<lambda>i. attribute_equals (as ! i) (bs ! i)) [0..<length as])"

section \<open>Products\<close>

datatype tracking_mode = TrackQuantity | TrackLot | TrackSerial

record product_variant =
  pv_id :: ident
  pv_product :: ident
  pv_sku :: string
  pv_attributes :: "variant_attribute list"
  pv_tracking :: tracking_mode
  pv_weightGrams :: number
  pv_volumeCubicMeters :: number
  pv_costing :: costing_method

definition ProductVariant ::
    "ident \<Rightarrow> ident \<Rightarrow> string \<Rightarrow> variant_attribute list \<Rightarrow> tracking_mode \<Rightarrow> product_variant" where
  "ProductVariant i p sku attrs mode = \<lparr>pv_id = i, pv_product = p, pv_sku = sku, pv_attributes = attrs,
     pv_tracking = mode, pv_weightGrams = 0, pv_volumeCubicMeters = 0, pv_costing = FIFO\<rparr>"

record product =
  pr_id :: ident
  pr_name :: string
  pr_variants :: "(ident, product_variant) js_map"
  pr_bySku :: "(string, product_variant) js_map"

definition Product :: "ident \<Rightarrow> string \<Rightarrow> (ident, product_variant) js_map option \<Rightarrow> product" where
  "Product i name variants = \<lparr>pr_id = i, pr_name = name,
     pr_variants = (case variants of None \<Rightarrow> [] | Some vs \<Rightarrow> vs),
     pr_bySku = (case variants of None \<Rightarrow> []
       | Some vs \<Rightarrow> fold (\<lambda>v m. AList.update (pv_sku v) v m) (map snd vs) [])\<rparr>"

definition addVariant ::
    "(string \<Rightarrow> int) \<Rightarrow> (nat \<Rightarrow> string) \<Rightarrow> string \<Rightarrow> variant_attribute list \<Rightarrow> tracking_mode
     \<Rightarrow> (product, product_variant) oper" where
  "addVariant collate uuid sku attrs mode = op_get (\<lambda>p.
     op_bind (op_lift (VariantAttributeSet collate attrs)) (\<lambda>attributeSet.
     op_seq (op_reject (list_ex (\<lambda>(i, v). attributes_equal (pv_attributes v) attributeSet) (pr_variants p))
       (Error ''A variant with these attributes already exists on product {}.'' [S (pr_id p)]))
     (op_bind (op_lift (ProductVariantId (uuid 0))) (\<lambda>i.
        let v = ProductVariant i (pr_id p) sku attributeSet mode in
        op_seq (op_modify (\<lambda>p. p\<lparr>pr_variants := AList.update i v (pr_variants p),
                                 pr_bySku := AList.update sku v (pr_bySku p)\<rparr>))
          (op_return v)))))"

definition findVariant :: "product \<Rightarrow> ident \<Rightarrow> product_variant option" where
  "findVariant p i = map_of (pr_variants p) i"

definition findVariantBySku :: "product \<Rightarrow> string \<Rightarrow> product_variant option" where
  "findVariantBySku p sku = map_of (pr_bySku p) sku"

definition variants :: "product \<Rightarrow> product_variant list" where
  "variants p = map snd (pr_variants p)"

section \<open>The in-memory catalogue\<close>

type_synonym catalogue = "(ident, product) js_map"

definition js_set :: "'a list \<Rightarrow> 'a list" where
  "js_set xs = rev (remdups (rev xs))"

definition mp_save :: "product \<Rightarrow> (catalogue, unit) oper" where
  "mp_save p = op_modify (AList.update (pr_id p) p)"

definition mp_findById :: "catalogue \<Rightarrow> ident \<Rightarrow> product option" where
  "mp_findById ps i = map_of ps i"

definition mp_findByIds :: "catalogue \<Rightarrow> ident list \<Rightarrow> product list" where
  "mp_findByIds ps is = List.map_filter (map_of ps) is"

definition mp_findBySku :: "catalogue \<Rightarrow> string \<Rightarrow> product option" where
  "mp_findBySku ps sku = find (\<lambda>p. list_ex (\<lambda>v. pv_sku v = sku) (variants p)) (map snd ps)"

definition mp_findBySkus :: "catalogue \<Rightarrow> string list \<Rightarrow> product list" where
  "mp_findBySkus ps skus = fold (\<lambda>sku. fold (\<lambda>p results.
      if list_ex (\<lambda>v. pv_sku v = sku) (variants p) \<and> p \<notin> set results then results @ [p] else results)
    (map snd ps)) skus []"

fun mp_findSkuByVariantId :: "catalogue \<Rightarrow> string \<Rightarrow> string option result" where
  "mp_findSkuByVariantId [] i = Inr None"
| "mp_findSkuByVariantId ((k, p) # ps) i = result_bind (ProductVariantId i) (\<lambda>i'.
     case findVariant p i' of Some v \<Rightarrow> Inr (Some (pv_sku v)) | None \<Rightarrow> mp_findSkuByVariantId ps i)"

definition mp_findSkusByVariantIds :: "catalogue \<Rightarrow> string list \<Rightarrow> (string, string) js_map result" where
  "mp_findSkusByVariantIds ps is =
     result_fold (\<lambda>p. result_fold (\<lambda>i m. result_bind (ProductVariantId i) (\<lambda>i'.
         Inr (case findVariant p i' of Some v \<Rightarrow> AList.update i (pv_sku v) m | None \<Rightarrow> m)))
       (js_set is)) (map snd ps) []"

definition mp_findAll :: "catalogue \<Rightarrow> product list" where
  "mp_findAll ps = map snd ps"

section \<open>Two attribute lists are equal when they are the same set\<close>

lemma attributes_equal_iff: "attributes_equal as bs \<longleftrightarrow> as = bs"
proof -
  have "attribute_equals a b \<longleftrightarrow> a = b" for a b
    by (cases a, cases b) (simp add: attribute_equals_def)
  then show ?thesis by (simp add: attributes_equal_def list_all_iff atLeast0LessThan list_eq_iff_nth_eq [of as bs] Ball_def)
qed

definition names_ok :: "(string \<Rightarrow> int) \<Rightarrow> variant_attribute list \<Rightarrow> bool" where
  "names_ok collate as \<longleftrightarrow> distinct (map (\<lambda>a. collate (attr_name a)) as)"

lemma sort_key_set_eq:
  assumes "distinct (map f as)" and "distinct (map f bs)" and "set as = set bs"
  shows "sort_key f as = sort_key f bs"
proof (rule map_sorted_distinct_set_unique [of f])
  show "inj_on f (set (sort_key f as) \<union> set (sort_key f bs))"
    using assms by (simp add: distinct_map)
  have "mset (map f (sort_key f xs)) = mset (map f xs)" for xs by simp
  then have d: "distinct (map f (sort_key f xs)) = distinct (map f xs)" for xs
    by (metis mset_eq_imp_distinct_iff)
  show "distinct (map f (sort_key f as))" "distinct (map f (sort_key f bs))"
    unfolding d using assms by simp_all
qed (simp_all add: assms(3))

definition has_attributes :: "(string \<Rightarrow> int) \<Rightarrow> product_variant \<Rightarrow> bool" where
  "has_attributes collate v \<longleftrightarrow> names_ok collate (pv_attributes v)
     \<and> (\<exists>as. VariantAttributeSet collate as = Inr (pv_attributes v))"

lemma set_js_set: "x \<in> set (AList.update k v m) \<Longrightarrow> x = (k, v) \<or> x \<in> set m"
  by (induction m) (auto split: if_splits)

lemma attribute_set_match:
  assumes "has_attributes collate v" and "names_ok collate attrs"
  shows "pv_attributes v = sort_key (\<lambda>a. collate (attr_name a)) attrs \<longleftrightarrow> set (pv_attributes v) = set attrs"
proof -
  obtain as where as: "pv_attributes v = sort_key (\<lambda>a. collate (attr_name a)) as"
    using assms(1) by (simp add: has_attributes_def VariantAttributeSet_def split: if_splits) metis
  have "sort_key (\<lambda>a. collate (attr_name a)) (pv_attributes v) = pv_attributes v"
    unfolding as by (rule sort_key_id_if_sorted) simp
  with sort_key_set_eq [of "\<lambda>a. collate (attr_name a)" "pv_attributes v" attrs] assms show ?thesis
    by (auto simp: has_attributes_def names_ok_def)
qed

lemma names_ok_sort: "names_ok collate (sort_key (\<lambda>a. collate (attr_name a)) as) = names_ok collate as"
proof -
  have "mset (map f (sort_key g as)) = mset (map f as)" for f :: "variant_attribute \<Rightarrow> int" and g :: "variant_attribute \<Rightarrow> int"
    by simp
  then show ?thesis unfolding names_ok_def by (metis mset_eq_imp_distinct_iff)
qed

text \<open>
  A product has no two variants with the same attributes, in whatever order they were
  typed: if the variants hold attribute sets, \<open>addVariant\<close> with attributes whose names the locale
  tells apart throws and leaves the product as it is when some variant has that very set of
  attributes (or none are given), and adds a variant with it otherwise.
\<close>

theorem addVariant_unique:
  assumes "names_ok collate attrs" and "\<forall>(i, v) \<in> set (pr_variants p). has_attributes collate v"
    and "\<not> is_blank (uuid 0)"
  shows "case addVariant collate uuid sku attrs mode p of
      (Inl e, p') \<Rightarrow> p' = p \<and> (attrs = [] \<or> (\<exists>(i, v) \<in> set (pr_variants p). set (pv_attributes v) = set attrs))
    | (Inr v, p') \<Rightarrow> attrs \<noteq> [] \<and> (\<forall>(i, w) \<in> set (pr_variants p). set (pv_attributes w) \<noteq> set attrs)
        \<and> set (pv_attributes v) = set attrs \<and> findVariant p' (pv_id v) = Some v \<and> findVariantBySku p' sku = Some v
        \<and> (\<forall>(i, w) \<in> set (pr_variants p'). has_attributes collate w)"
proof -
  have "is_blank []" by (simp add: is_blank_def trim_def)
  then have uid: "ProductVariantId (uuid 0) = Inr (uuid 0)"
    using assms(3) unfolding ProductVariantId_def make_id_def by metis
  have dup: "list_ex (\<lambda>(i, v). attributes_equal (pv_attributes v) (sort_key (\<lambda>a. collate (attr_name a)) attrs)) (pr_variants p)
      \<longleftrightarrow> (\<exists>(i, v) \<in> set (pr_variants p). set (pv_attributes v) = set attrs)"
    unfolding list_ex_iff attributes_equal_iff using attribute_set_match [OF _ assms(1)] assms(2) by blast
  show ?thesis
  proof (cases "attrs = [] \<or> (\<exists>(i, v) \<in> set (pr_variants p). set (pv_attributes v) = set attrs)")
    case True
    with dup show ?thesis by (auto simp: addVariant_def VariantAttributeSet_def oper_simps)
  next
    case False
    then have "VariantAttributeSet collate attrs = Inr (sort_key (\<lambda>a. collate (attr_name a)) attrs)"
      by (simp add: VariantAttributeSet_def)
    with False dup uid assms(1,2) show ?thesis
      by (auto simp: addVariant_def oper_simps Let_def ProductVariant_def findVariant_def findVariantBySku_def
          has_attributes_def names_ok_sort dest!: set_js_set)
  qed
qed

theorem addVariant_unique_witness:
  "case addVariant (\<lambda>s. int (length s)) (\<lambda>n. ''v2'') ''SHIRT-2''
       [\<lparr>attr_name = ''color'', attr_value = ''red''\<rparr>, \<lparr>attr_name = ''size'', attr_value = ''M''\<rparr>] TrackQuantity
       (Product ''p1'' ''Shirt'' (Some [(''v1'', ProductVariant ''v1'' ''p1'' ''SHIRT-1''
          [\<lparr>attr_name = ''size'', attr_value = ''M''\<rparr>, \<lparr>attr_name = ''color'', attr_value = ''red''\<rparr>] TrackQuantity)])) of
      (Inl e, p') \<Rightarrow> True | (Inr v, p') \<Rightarrow> False"
proof -
  let ?size = "\<lparr>attr_name = ''size'', attr_value = ''M''\<rparr>"
  let ?color = "\<lparr>attr_name = ''color'', attr_value = ''red''\<rparr>"
  let ?p = "Product ''p1'' ''Shirt'' (Some [(''v1'', ProductVariant ''v1'' ''p1'' ''SHIRT-1'' [?size, ?color] TrackQuantity)])"
  have "VariantAttributeSet (\<lambda>s. int (length s)) [?size, ?color] = Inr [?size, ?color]"
    by (simp add: VariantAttributeSet_def)
  then have "\<forall>(i, v) \<in> set (pr_variants ?p). has_attributes (\<lambda>s. int (length s)) v"
    by (auto simp: Product_def ProductVariant_def has_attributes_def names_ok_def)
  moreover have "\<not> is_blank ''v2''" by (simp add: is_blank_def trim_def is_space_def)
  moreover have "names_ok (\<lambda>s. int (length s)) [?color, ?size]" by (simp add: names_ok_def)
  ultimately show ?thesis
    using addVariant_unique [of "\<lambda>s. int (length s)" "[?color, ?size]" ?p "\<lambda>n. ''v2''" "''SHIRT-2''" TrackQuantity]
    by (auto simp: Product_def ProductVariant_def insert_commute split: prod.splits sum.splits)
qed

end
