(* ===== verification/InventoryStore.thy ===== *)
theory InventoryStore
  imports Inventory
begin

text \<open>
  The stores of inventory items behind IInventoryRepository and the use cases that change one
  item: src/src/infrastructure/persistence/InMemoryInventoryRepository.ts,
  PostgresInventoryRepository.ts, and src/src/application/useCases/ReceiveStock.ts,
  DispatchStock.ts, ManageAllocations.ts.

  \<open>save\<close> returns the caller's object as the call leaves it: the Postgres store pulls its events
  into the outbox table; \<open>kept_events is\<close> are the events that the objects of a saved batch still hold.
  A Prisma transaction commits or changes nothing, and the unique key (sku, location) of the table makes
  an INSERT of a second such row fail. Both stores hand out copies; a caller does not change an object
  after saving it.
\<close>

section \<open>The interface\<close>

record 's inventory_repo =
  findBySkuAndLocation :: "'s \<Rightarrow> string \<Rightarrow> string \<Rightarrow> inventory_item option result"
  findBySkuAndLocationBatch :: "'s \<Rightarrow> (string \<times> string) list \<Rightarrow> inventory_item list result"
  save_item :: "inventory_item \<Rightarrow> ('s, inventory_item) oper"
  save_items :: "inventory_item list \<Rightarrow> ('s, unit) oper"
  findItemsAt :: "'s \<Rightarrow> string \<Rightarrow> inventory_item list result"
  findItemsAtBatch :: "'s \<Rightarrow> string list \<Rightarrow> inventory_item list result"
  findItemsOfSku :: "'s \<Rightarrow> string \<Rightarrow> inventory_item list result"
  findAllItems :: "'s \<Rightarrow> inventory_item list result"
  kept_events :: "inventory_item list \<Rightarrow> inventory_event list"

text \<open>What \<open>cloneItem\<close> and \<open>toDomain\<close> build: validated again, in the default unit, without events.\<close>

definition rebuild ::
    "string \<Rightarrow> string \<Rightarrow> string \<Rightarrow> number \<Rightarrow> number \<Rightarrow> number \<Rightarrow> int \<Rightarrow> inventory_item result" where
  "rebuild i sku loc q a t v =
     result_bind (Sku sku) (\<lambda>sku'. result_bind (LocationId loc) (\<lambda>loc'.
     result_bind (Quantity q each) (\<lambda>q'. result_bind (Quantity a each) (\<lambda>a'.
     result_bind (Quantity t each) (\<lambda>t'. result_bind (InventoryItemId i) (\<lambda>i'.
       Inr (InventoryItem i' sku' loc' q' a' t' v)))))))"

section \<open>In memory\<close>

type_synonym item_map = "(ident, inventory_item) js_map"

definition cloneItem :: "inventory_item \<Rightarrow> inventory_item result" where
  "cloneItem i = rebuild (iid i) (isku i) (ilocationId i) (amount (on_hand i)) (amount (allocated i))
     (amount (inTransit i)) (iversion i)"

definition mi_select :: "(inventory_item \<Rightarrow> bool) \<Rightarrow> item_map \<Rightarrow> inventory_item list result" where
  "mi_select P m = result_map cloneItem (filter P (map snd m))"

definition mi_findById :: "item_map \<Rightarrow> ident \<Rightarrow> inventory_item option result" where
  "mi_findById m i = (case map_of m i of None \<Rightarrow> Inr None | Some x \<Rightarrow> result_bind (cloneItem x) (Inr \<circ> Some))"

definition mi_findBySku :: "item_map \<Rightarrow> string \<Rightarrow> inventory_item list result" where
  "mi_findBySku m sku = mi_select (\<lambda>i. isku i = sku) m"

definition mi_findBySkuAndLocation :: "item_map \<Rightarrow> string \<Rightarrow> string \<Rightarrow> inventory_item option result" where
  "mi_findBySkuAndLocation m sku loc = (case find (\<lambda>i. isku i = sku \<and> ilocationId i = loc) (map snd m) of
     None \<Rightarrow> Inr None | Some x \<Rightarrow> result_bind (cloneItem x) (Inr \<circ> Some))"

definition mi_findBySkuAndLocationBatch :: "item_map \<Rightarrow> (string \<times> string) list \<Rightarrow> inventory_item list result" where
  "mi_findBySkuAndLocationBatch m pairs =
     (let pairKeys = set (map (\<lambda>(sku, loc). sku @ ''|'' @ loc) pairs)
      in mi_select (\<lambda>i. isku i @ ''|'' @ ilocationId i \<in> pairKeys) m)"

definition mi_save :: "inventory_item \<Rightarrow> (item_map, inventory_item) oper" where
  "mi_save i = op_get (\<lambda>m.
     op_seq (op_reject (case map_of m (iid i) of None \<Rightarrow> False | Some old \<Rightarrow> iversion old \<noteq> iversion i - 1)
       (ConcurrencyError (isku i) (ilocationId i)))
     (op_seq (op_modify (AList.update (iid i) i)) (op_return i)))"

definition mi_saveBatch :: "inventory_item list \<Rightarrow> (item_map, unit) oper" where
  "mi_saveBatch is = op_each (\<lambda>i. op_bind (mi_save i) (\<lambda>_. op_return ())) is"

definition mi_findByLocation :: "item_map \<Rightarrow> string \<Rightarrow> inventory_item list result" where
  "mi_findByLocation m loc = mi_select (\<lambda>i. ilocationId i = loc) m"

definition mi_findByLocationsBatch :: "item_map \<Rightarrow> string list \<Rightarrow> inventory_item list result" where
  "mi_findByLocationsBatch m locs = mi_select (\<lambda>i. ilocationId i \<in> set locs) m"

definition mi_findAll :: "item_map \<Rightarrow> inventory_item list result" where
  "mi_findAll m = mi_select (\<lambda>i. True) m"

definition mem_inventory :: "item_map inventory_repo" where
  "mem_inventory = \<lparr>findBySkuAndLocation = mi_findBySkuAndLocation,
     findBySkuAndLocationBatch = mi_findBySkuAndLocationBatch, save_item = mi_save, save_items = mi_saveBatch,
     findItemsAt = mi_findByLocation, findItemsAtBatch = mi_findByLocationsBatch, findItemsOfSku = mi_findBySku,
     findAllItems = mi_findAll, kept_events = (\<lambda>is. concat (map ievents is))\<rparr>"

section \<open>PostgreSQL\<close>

record inventory_row =
  row_id :: ident
  row_sku :: string
  row_location :: string
  row_quantity :: number
  row_allocated :: number
  row_inTransit :: number
  row_version :: int

record inventory_db =
  rows :: "inventory_row list"
  outbox_events :: "inventory_event list"

definition toDomain :: "inventory_row \<Rightarrow> inventory_item result" where
  "toDomain r = rebuild (row_id r) (row_sku r) (row_location r) (row_quantity r) (row_allocated r)
     (row_inTransit r) (row_version r)"

definition row_of :: "inventory_item \<Rightarrow> inventory_row" where
  "row_of i = \<lparr>row_id = iid i, row_sku = isku i, row_location = ilocationId i, row_quantity = amount (on_hand i),
     row_allocated = amount (allocated i), row_inTransit = amount (inTransit i), row_version = iversion i\<rparr>"

definition set_amounts :: "inventory_item \<Rightarrow> inventory_row \<Rightarrow> inventory_row" where
  "set_amounts i r = r\<lparr>row_quantity := amount (on_hand i), row_allocated := amount (allocated i),
     row_inTransit := amount (inTransit i), row_version := iversion i\<rparr>"

definition pi_select :: "(inventory_row \<Rightarrow> bool) \<Rightarrow> inventory_db \<Rightarrow> inventory_item list result" where
  "pi_select P s = result_map toDomain (filter P (rows s))"

definition pi_findById :: "inventory_db \<Rightarrow> ident \<Rightarrow> inventory_item option result" where
  "pi_findById s i = (case find (\<lambda>r. row_id r = i) (rows s) of
     None \<Rightarrow> Inr None | Some r \<Rightarrow> result_bind (toDomain r) (Inr \<circ> Some))"

definition pi_findBySku :: "inventory_db \<Rightarrow> string \<Rightarrow> inventory_item list result" where
  "pi_findBySku s sku = pi_select (\<lambda>r. row_sku r = sku) s"

definition pi_findBySkuAndLocation :: "inventory_db \<Rightarrow> string \<Rightarrow> string \<Rightarrow> inventory_item option result" where
  "pi_findBySkuAndLocation s sku loc = (case find (\<lambda>r. row_sku r = sku \<and> row_location r = loc) (rows s) of
     None \<Rightarrow> Inr None | Some r \<Rightarrow> result_bind (toDomain r) (Inr \<circ> Some))"

definition pi_findBySkuAndLocationBatch :: "inventory_db \<Rightarrow> (string \<times> string) list \<Rightarrow> inventory_item list result" where
  "pi_findBySkuAndLocationBatch s pairs = (if length pairs = 0 then Inr []
     else pi_select (\<lambda>r. list_ex (\<lambda>(sku, loc). row_sku r = sku \<and> row_location r = loc) pairs) s)"

definition pi_findByLocation :: "inventory_db \<Rightarrow> string \<Rightarrow> inventory_item list result" where
  "pi_findByLocation s loc = pi_select (\<lambda>r. row_location r = loc) s"

definition pi_findByLocationsBatch :: "inventory_db \<Rightarrow> string list \<Rightarrow> inventory_item list result" where
  "pi_findByLocationsBatch s locs = (if length locs = 0 then Inr [] else pi_select (\<lambda>r. row_location r \<in> set locs) s)"

definition pi_findAll :: "inventory_db \<Rightarrow> inventory_item list result" where
  "pi_findAll s = pi_select (\<lambda>r. True) s"

definition row_conflict :: "inventory_row \<Rightarrow> inventory_row \<Rightarrow> bool" where
  "row_conflict r r' \<longleftrightarrow> row_id r = row_id r' \<or> (row_sku r = row_sku r' \<and> row_location r = row_location r')"

definition insert_row :: "inventory_row \<Rightarrow> (inventory_db, unit) oper" where
  "insert_row r = op_get (\<lambda>s. op_seq
     (op_reject (list_ex (row_conflict r) (rows s)) (Error ''Unique constraint failed'' []))
     (op_modify (\<lambda>s. s\<lparr>rows := rows s @ [r]\<rparr>)))"

definition transaction :: "('s, 'a) oper \<Rightarrow> ('s, 'a) oper" where
  "transaction m s = (case m s of (Inl e, s') \<Rightarrow> (Inl e, s) | (Inr a, s') \<Rightarrow> (Inr a, s'))"

definition hits :: "inventory_item \<Rightarrow> inventory_row \<Rightarrow> bool" where
  "hits i r \<longleftrightarrow> row_id r = iid i \<and> row_version r = iversion i - 1"

definition to_outbox :: "inventory_event list \<Rightarrow> (inventory_db, unit) oper" where
  "to_outbox es = op_modify (\<lambda>s. s\<lparr>outbox_events := outbox_events s @ es\<rparr>)"

definition pi_save :: "inventory_item \<Rightarrow> (inventory_db, inventory_item) oper" where
  "pi_save i = op_seq (transaction (op_get (\<lambda>s.
       op_seq (case find (\<lambda>r. row_id r = iid i) (rows s) of
           None \<Rightarrow> insert_row (row_of i)
         | Some _ \<Rightarrow> op_seq (op_reject (\<not> list_ex (hits i) (rows s)) (ConcurrencyError (isku i) (ilocationId i)))
             (op_modify (\<lambda>s. s\<lparr>rows := map (\<lambda>r. if hits i r then set_amounts i r else r) (rows s)\<rparr>)))
         (to_outbox (ievents i)))))
     (op_return (i\<lparr>ievents := []\<rparr>))"

definition update_rows :: "inventory_item list \<Rightarrow> inventory_row list \<Rightarrow> inventory_row list" where
  "update_rows is rs = map (\<lambda>r. case find (\<lambda>i. hits i r) is of None \<Rightarrow> r | Some i \<Rightarrow> set_amounts i r) rs"

definition pi_saveBatch :: "inventory_item list \<Rightarrow> (inventory_db, unit) oper" where
  "pi_saveBatch is = (if length is = 0 then op_return () else op_get (\<lambda>s.
     let existingIds = set (map row_id (rows s));
         uniqueItems = map snd (fold (\<lambda>i m. AList.update (iid i) i m) is []);
         itemsToCreate = filter (\<lambda>i. iid i \<notin> existingIds) uniqueItems;
         itemsToUpdate = filter (\<lambda>i. iid i \<in> existingIds) uniqueItems in
     transaction
       (op_seq (op_each (insert_row \<circ> row_of) itemsToCreate)
       (op_get (\<lambda>s1.
        op_seq (op_modify (\<lambda>s. s\<lparr>rows := update_rows itemsToUpdate (rows s)\<rparr>))
       (op_seq (op_each (\<lambda>i. op_reject (\<not> list_ex (hits i) (rows s1)) (ConcurrencyError (isku i) (ilocationId i)))
          itemsToUpdate)
         (to_outbox (concat (map ievents is)))))))))"

definition pg_inventory :: "inventory_db inventory_repo" where
  "pg_inventory = \<lparr>findBySkuAndLocation = pi_findBySkuAndLocation,
     findBySkuAndLocationBatch = pi_findBySkuAndLocationBatch, save_item = pi_save, save_items = pi_saveBatch,
     findItemsAt = pi_findByLocation, findItemsAtBatch = pi_findByLocationsBatch, findItemsOfSku = pi_findBySku,
     findAllItems = pi_findAll, kept_events = (\<lambda>is. [])\<rparr>"

section \<open>Use cases on one item\<close>

record item_dto =
  dto_id :: string
  dto_sku :: string
  dto_locationId :: string
  dto_quantity :: number
  dto_allocated :: number
  dto_inTransit :: number
  dto_available :: number
  dto_version :: int

definition toDTO :: "inventory_item \<Rightarrow> item_dto" where
  "toDTO i = \<lparr>dto_id = iid i, dto_sku = isku i, dto_locationId = ilocationId i, dto_quantity = amount (on_hand i),
     dto_allocated = amount (allocated i), dto_inTransit = amount (inTransit i),
     dto_available = amount (available i), dto_version = iversion i\<rparr>"

text \<open>Change the loaded object and save it: \<open>item.method(..); await repository.save(item)\<close>.\<close>

definition change_and_save ::
    "'s inventory_repo \<Rightarrow> (inventory_item, unit) oper \<Rightarrow> inventory_item \<Rightarrow> ('s, inventory_item) oper" where
  "change_and_save repo change i = (case change i of
     (Inl e, i') \<Rightarrow> op_throw e
   | (Inr _, i') \<Rightarrow> save_item repo i')"

definition find_or_create :: "(nat \<Rightarrow> string) \<Rightarrow> string \<Rightarrow> string \<Rightarrow> inventory_item option \<Rightarrow> inventory_item result" where
  "find_or_create uuid sku loc found = (case found of
     None \<Rightarrow> inventory_createNew (uuid 0) sku loc | Some i \<Rightarrow> Inr i)"

definition existing_or_error :: "error \<Rightarrow> inventory_item option \<Rightarrow> inventory_item result" where
  "existing_or_error e found = (case found of None \<Rightarrow> Inl e | Some i \<Rightarrow> Inr i)"

definition item_not_found :: "string \<Rightarrow> string \<Rightarrow> error" where
  "item_not_found sku loc = Error ''Inventory item for SKU {} at location {} not found.'' [S sku, S loc]"

text \<open>\<open>capacity\<close> is the optional WMSCapacityService: \<open>validateCapacity(locationId, [{sku, 'relative', quantity}])\<close>.\<close>

definition ReceiveStockUseCase ::
    "(nat \<Rightarrow> string) \<Rightarrow> 's inventory_repo \<Rightarrow> (string \<Rightarrow> string \<Rightarrow> number \<Rightarrow> unit result) option
     \<Rightarrow> string \<Rightarrow> string \<Rightarrow> number \<Rightarrow> ('s, item_dto) oper" where
  "ReceiveStockUseCase uuid repo capacity sku loc a =
     op_seq (op_lift (case capacity of None \<Rightarrow> Inr () | Some validate \<Rightarrow> validate loc sku a))
     (op_bind (op_lift (Quantity a each)) (\<lambda>q.
     op_bind (op_get (\<lambda>s. op_lift (findBySkuAndLocation repo s sku loc))) (\<lambda>found.
     op_bind (op_lift (find_or_create uuid sku loc found)) (\<lambda>i.
     op_bind (change_and_save repo (receiveStock q) i) (\<lambda>i'. op_return (toDTO i'))))))"

definition DispatchStockUseCase ::
    "time \<Rightarrow> 's inventory_repo \<Rightarrow> string \<Rightarrow> string \<Rightarrow> number
     \<Rightarrow> ('s, item_dto \<times> inventory_event list) oper" where
  "DispatchStockUseCase now repo sku loc a =
     op_bind (op_get (\<lambda>s. op_lift (findBySkuAndLocation repo s sku loc))) (\<lambda>found.
     op_bind (op_lift (existing_or_error
       (Error ''Item with SKU {} at location {} not found.'' [S sku, S loc]) found)) (\<lambda>i.
     op_bind (op_lift (Quantity a each)) (\<lambda>q.
     op_bind (change_and_save repo (dispatchStock now q) i) (\<lambda>i'.
       case inventory_pullDomainEvents i' of
         (Inl e, i'') \<Rightarrow> op_throw e
       | (Inr published, i'') \<Rightarrow> op_return (toDTO i'', published)))))"

definition AllocateStockUseCase ::
    "(nat \<Rightarrow> string) \<Rightarrow> 's inventory_repo \<Rightarrow> string \<Rightarrow> string \<Rightarrow> number \<Rightarrow> ('s, item_dto) oper" where
  "AllocateStockUseCase uuid repo sku loc a =
     op_bind (op_lift (Quantity a each)) (\<lambda>q.
     op_bind (op_get (\<lambda>s. op_lift (findBySkuAndLocation repo s sku loc))) (\<lambda>found.
     op_bind (op_lift (find_or_create uuid sku loc found)) (\<lambda>i.
     op_bind (change_and_save repo (allocateStock q) i) (\<lambda>i'. op_return (toDTO i')))))"

text \<open>The use cases that need an existing item differ in the method they call.\<close>

definition on_existing ::
    "(quantity \<Rightarrow> (inventory_item, unit) oper) \<Rightarrow> 's inventory_repo \<Rightarrow> string \<Rightarrow> string \<Rightarrow> number
     \<Rightarrow> ('s, item_dto) oper" where
  "on_existing change repo sku loc a =
     op_bind (op_lift (Quantity a each)) (\<lambda>q.
     op_bind (op_get (\<lambda>s. op_lift (findBySkuAndLocation repo s sku loc))) (\<lambda>found.
     op_bind (op_lift (existing_or_error (item_not_found sku loc) found)) (\<lambda>i.
     op_bind (change_and_save repo (change q) i) (\<lambda>i'. op_return (toDTO i')))))"

definition ReleaseAllocationUseCase :: "'s inventory_repo \<Rightarrow> string \<Rightarrow> string \<Rightarrow> number \<Rightarrow> ('s, item_dto) oper" where
  "ReleaseAllocationUseCase = on_existing releaseAllocation"

definition FulfillAllocationUseCase :: "'s inventory_repo \<Rightarrow> string \<Rightarrow> string \<Rightarrow> number \<Rightarrow> ('s, item_dto) oper" where
  "FulfillAllocationUseCase = on_existing fulfillAllocation"

definition ReceiveInTransitUseCase :: "'s inventory_repo \<Rightarrow> string \<Rightarrow> string \<Rightarrow> number \<Rightarrow> ('s, item_dto) oper" where
  "ReceiveInTransitUseCase = on_existing receiveInTransit"

definition CreateInTransitUseCase ::
    "(nat \<Rightarrow> string) \<Rightarrow> 's inventory_repo \<Rightarrow> string \<Rightarrow> string \<Rightarrow> number \<Rightarrow> ('s, item_dto) oper" where
  "CreateInTransitUseCase uuid repo sku loc a =
     op_bind (op_lift (Quantity a each)) (\<lambda>q.
     op_bind (op_get (\<lambda>s. op_lift (findBySkuAndLocation repo s sku loc))) (\<lambda>found.
     op_bind (op_lift (find_or_create uuid sku loc found)) (\<lambda>i.
     op_bind (change_and_save repo (createInTransit q) i) (\<lambda>i'. op_return (toDTO i')))))"


section \<open>The use cases as calls\<close>

datatype stock_call =
    CallReceive number | CallDispatch time number | CallAllocate number | CallRelease number
  | CallFulfill number | CallCreateInTransit number | CallReceiveInTransit number

fun call_command :: "stock_call \<Rightarrow> inventory_command" where
  "call_command (CallReceive a) = Receive (q_each a)"
| "call_command (CallDispatch t a) = Dispatch t (q_each a)"
| "call_command (CallAllocate a) = Allocate (q_each a)"
| "call_command (CallRelease a) = Release (q_each a)"
| "call_command (CallFulfill a) = Fulfill (q_each a)"
| "call_command (CallCreateInTransit a) = CreateInTransit (q_each a)"
| "call_command (CallReceiveInTransit a) = ReceiveInTransit (q_each a)"

fun call_amount :: "stock_call \<Rightarrow> number" where
  "call_amount (CallReceive a) = a"
| "call_amount (CallDispatch t a) = a"
| "call_amount (CallAllocate a) = a"
| "call_amount (CallRelease a) = a"
| "call_amount (CallFulfill a) = a"
| "call_amount (CallCreateInTransit a) = a"
| "call_amount (CallReceiveInTransit a) = a"

definition call_creates :: "stock_call \<Rightarrow> bool" where
  "call_creates c = (case c of CallReceive a \<Rightarrow> True | CallAllocate a \<Rightarrow> True | CallCreateInTransit a \<Rightarrow> True | _ \<Rightarrow> False)"

fun run_call :: "(nat \<Rightarrow> string) \<Rightarrow> 's inventory_repo \<Rightarrow> string \<Rightarrow> string \<Rightarrow> stock_call \<Rightarrow> ('s, item_dto) oper" where
  "run_call uuid repo sku loc (CallReceive a) = ReceiveStockUseCase uuid repo None sku loc a"
| "run_call uuid repo sku loc (CallDispatch t a) =
     op_bind (DispatchStockUseCase t repo sku loc a) (\<lambda>(dto, published). op_return dto)"
| "run_call uuid repo sku loc (CallAllocate a) = AllocateStockUseCase uuid repo sku loc a"
| "run_call uuid repo sku loc (CallRelease a) = ReleaseAllocationUseCase repo sku loc a"
| "run_call uuid repo sku loc (CallFulfill a) = FulfillAllocationUseCase repo sku loc a"
| "run_call uuid repo sku loc (CallCreateInTransit a) = CreateInTransitUseCase uuid repo sku loc a"
| "run_call uuid repo sku loc (CallReceiveInTransit a) = ReceiveInTransitUseCase repo sku loc a"

lemma call_command_props [simp]: "command_ok (call_command c) \<longleftrightarrow> 0 \<le> call_amount c"
    "command_in_unit each (call_command c)" "call_command c \<noteq> PullEvents"
  by (cases c; simp add: command_ok_def command_in_unit_def)+

text \<open>What every call comes down to: find, create where allowed, change, save.\<close>

definition general_call ::
    "(nat \<Rightarrow> string) \<Rightarrow> 's inventory_repo \<Rightarrow> string \<Rightarrow> string \<Rightarrow> stock_call \<Rightarrow> 's \<Rightarrow> inventory_item result \<times> 's" where
  "general_call uuid repo sku loc c s =
     (case (if call_creates c then find_or_create uuid sku loc (projr (findBySkuAndLocation repo s sku loc))
            else existing_or_error (item_not_found sku loc) (projr (findBySkuAndLocation repo s sku loc))) of
        Inl e \<Rightarrow> (Inl e, s)
      | Inr i \<Rightarrow> change_and_save repo (inventory_exec (call_command c)) i s)"

lemma run_call_general:
  assumes "findBySkuAndLocation repo s sku loc = Inr found" and "0 \<le> call_amount c"
  shows "snd (run_call uuid repo sku loc c s) = snd (general_call uuid repo sku loc c s)
    \<and> isl (fst (run_call uuid repo sku loc c s)) = isl (fst (general_call uuid repo sku loc c s))"
  using assms
  by (cases c; cases found)
     (auto simp: general_call_def call_creates_def ReceiveStockUseCase_def DispatchStockUseCase_def
       AllocateStockUseCase_def ReleaseAllocationUseCase_def FulfillAllocationUseCase_def
       CreateInTransitUseCase_def ReceiveInTransitUseCase_def on_existing_def oper_simps Quantity_each
       existing_or_error_def inventory_pullDomainEvents_def split: prod.splits sum.splits)

lemma run_call_negative:
  assumes "findBySkuAndLocation repo s sku loc = Inr found" and "call_amount c < 0"
  shows "\<exists>e. run_call uuid repo sku loc c s = (Inl e, s)"
  using assms
  by (cases c)
     (auto simp: ReceiveStockUseCase_def DispatchStockUseCase_def AllocateStockUseCase_def
       ReleaseAllocationUseCase_def FulfillAllocationUseCase_def CreateInTransitUseCase_def
       ReceiveInTransitUseCase_def on_existing_def oper_simps Quantity_def split: sum.splits)

section \<open>Items as the stores hold them\<close>

definition norm_item :: "inventory_item \<Rightarrow> inventory_item" where
  "norm_item i = InventoryItem (iid i) (isku i) (ilocationId i) (q_each (amount (on_hand i)))
     (q_each (amount (allocated i))) (q_each (amount (inTransit i))) (iversion i)"

definition storable :: "inventory_item \<Rightarrow> bool" where
  "storable i \<longleftrightarrow> item_ok i \<and> Sku (isku i) = Inr (isku i) \<and> LocationId (ilocationId i) = Inr (ilocationId i)
     \<and> InventoryItemId (iid i) = Inr (iid i)"

definition same_stock :: "inventory_item \<Rightarrow> inventory_item \<Rightarrow> bool" where
  "same_stock i j \<longleftrightarrow> isku i = isku j \<and> ilocationId i = ilocationId j"

lemma norm_item_sel [simp]:
  "iid (norm_item i) = iid i" "isku (norm_item i) = isku i" "ilocationId (norm_item i) = ilocationId i"
  "amount (on_hand (norm_item i)) = amount (on_hand i)" "amount (allocated (norm_item i)) = amount (allocated i)"
  "amount (inTransit (norm_item i)) = amount (inTransit i)" "iversion (norm_item i) = iversion i"
  "norm_item (norm_item i) = norm_item i" "norm_item (i\<lparr>ievents := es\<rparr>) = norm_item i"
  by (simp_all add: norm_item_def InventoryItem_def)

lemma storable_norm [simp]: "storable i \<Longrightarrow> storable (norm_item i)"
  by (simp add: storable_def item_ok_def q_ok_def norm_item_def InventoryItem_def)

lemma view_norm [simp]: "view (norm_item i) = view i"
  by (simp add: view_def)

lemma in_unit_norm [simp]: "in_unit each (norm_item i)"
  by (simp add: in_unit_def norm_item_def InventoryItem_def)

lemma rebuild_storable: "storable i \<Longrightarrow> cloneItem i = Inr (norm_item i)"
  by (simp add: storable_def cloneItem_def rebuild_def norm_item_def Quantity_each item_ok_def q_ok_def)

lemma exec_identity:
  assumes "inventory_exec c i = (r, i')"
  shows "iid i' = iid i \<and> isku i' = isku i \<and> ilocationId i' = ilocationId i"
  using assms
  by (cases c) (auto simp: inventory_op_defs oper_simps Let_def split: if_splits sum.splits)

lemma exec_storable: "storable i \<Longrightarrow> command_ok c \<Longrightarrow> inventory_exec c i = (r, i') \<Longrightarrow> storable i'"
  using exec_identity [of c i r i'] inventory_exec_ok [of i c r i'] by (simp add: storable_def)

section \<open>The contract of the stores\<close>

locale inventory_repository =
  fixes repo :: "'s inventory_repo" and inv :: "'s \<Rightarrow> bool" and row :: "'s \<Rightarrow> ident \<Rightarrow> inventory_item option"
  assumes row_ok: "inv s \<Longrightarrow> row s k = Some i \<Longrightarrow> storable i \<and> norm_item i = i \<and> iid i = k"
    and find_total: "inv s \<Longrightarrow> \<exists>found. findBySkuAndLocation repo s sku loc = Inr found"
    and find_found: "inv s \<Longrightarrow> findBySkuAndLocation repo s sku loc = Inr (Some i) \<Longrightarrow>
      row s (iid i) = Some i \<and> isku i = sku \<and> ilocationId i = loc"
    and find_absent: "inv s \<Longrightarrow> findBySkuAndLocation repo s sku loc = Inr None \<Longrightarrow> row s k = Some i \<Longrightarrow>
      \<not> (isku i = sku \<and> ilocationId i = loc)"
    and save_known: "inv s \<Longrightarrow> storable i \<Longrightarrow> row s (iid i) = Some r \<Longrightarrow> same_stock i r \<Longrightarrow>
      iversion r = iversion i - 1 \<Longrightarrow>
      \<exists>i' s'. save_item repo i s = (Inr i', s') \<and> norm_item i' = norm_item i \<and> inv s'
        \<and> row s' = (row s)(iid i \<mapsto> norm_item i)"
    and save_stale: "inv s \<Longrightarrow> storable i \<Longrightarrow> row s (iid i) = Some r \<Longrightarrow> iversion r \<noteq> iversion i - 1 \<Longrightarrow>
      save_item repo i s = (Inl (ConcurrencyError (isku i) (ilocationId i)), s)"
    and save_new: "inv s \<Longrightarrow> storable i \<Longrightarrow> row s (iid i) = None \<Longrightarrow>
      (\<And>k r. row s k = Some r \<Longrightarrow> \<not> same_stock i r) \<Longrightarrow>
      \<exists>i' s'. save_item repo i s = (Inr i', s') \<and> norm_item i' = norm_item i \<and> inv s'
        \<and> row s' = (row s)(iid i \<mapsto> norm_item i)"
begin

definition committed :: "inventory_item \<Rightarrow> 's \<Rightarrow> 's \<Rightarrow> bool" where
  "committed i s s' \<longleftrightarrow> inv s' \<and> row s' = (row s)(iid i \<mapsto> norm_item i)"

text \<open>An item that may be saved after one change: a current copy, or a fresh item.\<close>

definition ready :: "'s \<Rightarrow> inventory_item \<Rightarrow> bool" where
  "ready s i \<longleftrightarrow> storable i \<and> norm_item i = i \<and> (row s (iid i) = Some i
     \<or> (row s (iid i) = None \<and> (\<forall>k r. row s k = Some r \<longrightarrow> \<not> same_stock i r)))"

lemma current_ready: "inv s \<Longrightarrow> row s (iid i) = Some i \<Longrightarrow> ready s i"
  using row_ok [of s "iid i" i] by (simp add: ready_def)

lemma save_changed:
  assumes "inv s" and "ready s i" and "storable j" and "iid j = iid i" and "same_stock j i"
    and "iversion j = iversion i + 1"
  shows "\<exists>i' s'. save_item repo j s = (Inr i', s') \<and> norm_item i' = norm_item j \<and> committed j s s'"
  using assms save_known [OF assms(1,3), of i] save_new [OF assms(1,3)]
  unfolding ready_def committed_def same_stock_def by auto

lemma change_ready:
  assumes "inv s" and "ready s i" and "command_ok c" and "c \<noteq> PullEvents"
  shows "case change_and_save repo (inventory_exec c) i s of
      (Inl e, s') \<Rightarrow> s' = s \<and> inventory_exec c i = (Inl e, snd (inventory_exec c i))
    | (Inr i', s') \<Rightarrow> \<exists>j. inventory_exec c i = (Inr (), j) \<and> norm_item i' = norm_item j \<and> committed j s s'"
proof (cases "inventory_exec c i")
  case (Pair r j)
  show ?thesis
  proof (cases r)
    case (Inl e)
    with Pair show ?thesis by (simp add: change_and_save_def oper_simps)
  next
    case (Inr u)
    have "storable j" using exec_storable [OF _ assms(3) Pair] assms(2) by (simp add: ready_def)
    moreover have "iversion j = iversion i + 1"
      using inventory_exec_counts [of c i] Pair Inr assms(4) by simp
    ultimately obtain i' s' where "save_item repo j s = (Inr i', s')" "norm_item i' = norm_item j" "committed j s s'"
      using save_changed [OF assms(1,2), of j] exec_identity [OF Pair] by (auto simp: same_stock_def)
    with Pair Inr show ?thesis by (simp add: change_and_save_def)
  qed
qed

lemma change_refines:
  assumes "inv s" and "ready s i" and "command_ok c" and "c \<noteq> PullEvents" and "command_in_unit each c"
  shows "case change_and_save repo (inventory_exec c) i s of
      (Inl e, s') \<Rightarrow> s' = s \<and> abs_step c (view i) = None
    | (Inr i', s') \<Rightarrow> \<exists>j. abs_step c (view i) = Some (view j) \<and> norm_item i' = norm_item j
        \<and> committed j s s' \<and> iid j = iid i \<and> same_stock j i"
proof -
  have "item_ok i" "in_unit each i"
    using assms(2) in_unit_norm [of i] by (simp_all add: ready_def storable_def)
  note sim = inventory_exec_sim [OF this(1) assms(3) this(2) assms(5)]
  show ?thesis
    using change_ready [OF assms(1-4)] sim exec_identity [of c i]
    by (fastforce simp: same_stock_def split: prod.splits sum.splits)
qed

definition stock_before :: "'s \<Rightarrow> string \<Rightarrow> string \<Rightarrow> stock_view" where
  "stock_before s sku loc = (case projr (findBySkuAndLocation repo s sku loc) of
     None \<Rightarrow> \<lparr>hand = 0, reserved = 0, incoming = 0\<rparr> | Some i \<Rightarrow> view i)"

lemma created_ready:
  assumes "inv s" and "findBySkuAndLocation repo s sku loc = Inr None" and "Sku sku = Inr sku"
    and "LocationId loc = Inr loc" and "InventoryItemId (uuid 0) = Inr (uuid 0)" and "row s (uuid 0) = None"
  obtains i where "find_or_create uuid sku loc None = Inr i" and "ready s i" and "isku i = sku"
    and "ilocationId i = loc" and "view i = \<lparr>hand = 0, reserved = 0, incoming = 0\<rparr>" and "iid i = uuid 0"
proof -
  let ?i = "InventoryItem (uuid 0) sku loc (q_each 0) (q_each 0) (q_each 0) 1"
  have "find_or_create uuid sku loc None = Inr ?i"
    by (simp add: find_or_create_def inventory_createNew_def assms(3-5) Quantity_each)
  moreover have "ready s ?i"
    using find_absent [OF assms(1,2)] assms(3-6)
    by (auto simp: ready_def storable_def item_ok_def norm_item_def InventoryItem_def same_stock_def)
  ultimately show thesis using that [of ?i] by (simp add: InventoryItem_def view_def)
qed

lemma run_call_refines:
  assumes "inv s" and "Sku sku = Inr sku" and "LocationId loc = Inr loc"
    and "InventoryItemId (uuid 0) = Inr (uuid 0)" and "row s (uuid 0) = None"
  shows "case run_call uuid repo sku loc c s of
      (Inl e, s') \<Rightarrow> s' = s \<and> (call_amount c < 0
        \<or> (findBySkuAndLocation repo s sku loc = Inr None \<and> \<not> call_creates c)
        \<or> abs_step (call_command c) (stock_before s sku loc) = None)
    | (Inr dto, s') \<Rightarrow> \<exists>j. abs_step (call_command c) (stock_before s sku loc) = Some (view j)
        \<and> committed j s s' \<and> isku j = sku \<and> ilocationId j = loc"
proof -
  obtain found where found: "findBySkuAndLocation repo s sku loc = Inr found"
    using find_total [OF assms(1)] by blast
  show ?thesis
  proof (cases "call_amount c < 0")
    case True
    with run_call_negative [OF found True, of uuid] show ?thesis by auto
  next
    case False
    then have nonneg: "0 \<le> call_amount c" by simp
    have step: ?thesis if i: "ready s i" "isku i = sku" "ilocationId i = loc" "view i = stock_before s sku loc"
      and g: "general_call uuid repo sku loc c s = change_and_save repo (inventory_exec (call_command c)) i s" for i
      using change_refines [OF assms(1) i(1), of "call_command c"] run_call_general [OF found nonneg, of uuid] nonneg i(2-4) g
      by (auto simp: same_stock_def split: prod.splits sum.splits)
    show ?thesis
    proof (cases found)
      case None
      show ?thesis
      proof (cases "call_creates c")
        case True
        obtain i where i: "find_or_create uuid sku loc None = Inr i" "ready s i" "isku i = sku" "ilocationId i = loc"
            "view i = \<lparr>hand = 0, reserved = 0, incoming = 0\<rparr>"
          by (rule created_ready [where uuid = uuid, OF assms(1) found [unfolded None] assms(2-5)])
        show ?thesis
          by (rule step [OF i(2-4)]) (simp_all add: i stock_before_def found None general_call_def True)
      next
        case False
        with run_call_general [OF found nonneg, of uuid] found None show ?thesis
          by (auto simp: general_call_def existing_or_error_def split: prod.splits sum.splits)
      qed
    next
      case (Some i)
      note i = find_found [OF assms(1) found [unfolded Some]]
      show ?thesis
        by (rule step [of i])
           (use i current_ready [OF assms(1), of i] in \<open>simp_all add: stock_before_def found Some general_call_def
             find_or_create_def existing_or_error_def\<close>)
    qed
  qed
qed

text \<open>Two writers of one copy: the second is refused and the first one's work stands.\<close>

lemma second_writer_refused:
  assumes "inv s" and "row s (iid i) = Some i" and "command_ok c" and "c \<noteq> PullEvents"
    and "command_ok d" and "d \<noteq> PullEvents"
    and first: "fst (change_and_save repo (inventory_exec c) i s) = Inr i'" and ok: "fst (inventory_exec d i) = Inr ()"
  shows "change_and_save repo (inventory_exec d) i (snd (change_and_save repo (inventory_exec c) i s)) =
    (Inl (ConcurrencyError (isku i) (ilocationId i)), snd (change_and_save repo (inventory_exec c) i s))"
proof -
  obtain s' where s': "change_and_save repo (inventory_exec c) i s = (Inr i', s')"
    using first by (metis prod.collapse)
  with change_ready [OF assms(1) current_ready [OF assms(1,2)] assms(3,4)] obtain j where j: "inventory_exec c i = (Inr (), j)" "committed j s s'"
    by auto
  obtain k where k: "inventory_exec d i = (Inr (), k)" using ok by (metis prod.collapse)
  have "storable k" using exec_storable [OF _ assms(5) k] row_ok [OF assms(1,2)] by simp
  moreover have "row s' (iid k) = Some (norm_item j)"
    using j exec_identity [OF j(1)] exec_identity [OF k] by (simp add: committed_def)
  moreover have "iversion (norm_item j) \<noteq> iversion k - 1"
    using inventory_exec_counts [of c i] inventory_exec_counts [of d i] j(1) k assms(4,6) by simp
  ultimately have "save_item repo k s' = (Inl (ConcurrencyError (isku k) (ilocationId k)), s')"
    using save_stale [of s' k] j(2) by (simp add: committed_def)
  then show ?thesis using s' k exec_identity [OF k] by (simp add: change_and_save_def)
qed

text \<open>A copy that was changed twice cannot be saved.\<close>

lemma two_changes_refused:
  assumes "inv s" and "row s (iid i) = Some i"
    and "command_ok c" and "c \<noteq> PullEvents" and "command_ok d" and "d \<noteq> PullEvents"
    and "inventory_exec c i = (Inr (), j)" and "inventory_exec d j = (Inr (), k)"
  shows "save_item repo k s = (Inl (ConcurrencyError (isku i) (ilocationId i)), s)"
proof -
  have "storable k"
    using exec_storable [OF exec_storable [OF _ assms(3,7)] assms(5,8)] row_ok [OF assms(1,2)] by simp
  moreover have "iversion k = iversion i + 2"
    using inventory_exec_counts [of c i] inventory_exec_counts [of d j] assms by simp
  moreover have "iid k = iid i \<and> isku k = isku i \<and> ilocationId k = ilocationId i"
    using exec_identity [OF assms(7)] exec_identity [OF assms(8)] by simp
  ultimately show ?thesis using save_stale [OF assms(1), of k i] assms(2) by simp
qed

end


section \<open>The in-memory store keeps the contract\<close>

definition mi_inv :: "item_map \<Rightarrow> bool" where
  "mi_inv m \<longleftrightarrow> distinct (map fst m) \<and> (\<forall>(k, x) \<in> set m. k = iid x \<and> storable x)"

definition mi_row :: "item_map \<Rightarrow> ident \<Rightarrow> inventory_item option" where
  "mi_row m k = map_option norm_item (map_of m k)"

lemma mi_inv_item: "mi_inv m \<Longrightarrow> x \<in> snd ` set m \<Longrightarrow> storable x \<and> map_of m (iid x) = Some x"
  by (auto simp: mi_inv_def)

lemma set_update_pair: "x \<in> set (AList.update k v m) \<Longrightarrow> x = (k, v) \<or> x \<in> set m"
  by (induction m) (auto split: if_splits)

lemma mi_save_committed:
  assumes "mi_inv m" and "storable i" and "case map_of m (iid i) of None \<Rightarrow> True | Some old \<Rightarrow> iversion old = iversion i - 1"
  shows "mi_save i m = (Inr i, AList.update (iid i) i m) \<and> mi_inv (AList.update (iid i) i m)
    \<and> mi_row (AList.update (iid i) i m) = (mi_row m)(iid i \<mapsto> norm_item i)"
proof -
  have "mi_save i m = (Inr i, AList.update (iid i) i m)"
    using assms(3) by (cases "map_of m (iid i)") (simp_all add: mi_save_def oper_simps)
  moreover have "mi_inv (AList.update (iid i) i m)"
    using assms(1,2) by (auto simp: mi_inv_def distinct_update dest!: set_update_pair)
  ultimately show ?thesis by (simp add: mi_row_def fun_eq_iff)
qed

interpretation mi: inventory_repository mem_inventory mi_inv mi_row
proof
  fix s :: item_map and k i sku loc r
  let ?find = "find (\<lambda>i. isku i = sku \<and> ilocationId i = loc) (map snd s)"
  assume s: "mi_inv s"
  have clone: "x \<in> snd ` set s \<Longrightarrow> cloneItem x = Inr (norm_item x)" for x
    using mi_inv_item [OF s] rebuild_storable by blast
  have found: "?find = Some x \<Longrightarrow> x \<in> snd ` set s \<and> isku x = sku \<and> ilocationId x = loc" for x
    using find_SomeD [of _ "map snd s" x] by auto
  show "mi_row s k = Some i \<Longrightarrow> storable i \<and> norm_item i = i \<and> iid i = k"
    using s by (auto simp: mi_row_def mi_inv_def dest: map_of_SomeD)
  show "\<exists>found. findBySkuAndLocation mem_inventory s sku loc = Inr found"
    using clone [OF conjunct1 [OF found]]
    by (cases ?find) (simp_all add: mem_inventory_def mi_findBySkuAndLocation_def)
  show "findBySkuAndLocation mem_inventory s sku loc = Inr (Some i) \<Longrightarrow>
      mi_row s (iid i) = Some i \<and> isku i = sku \<and> ilocationId i = loc"
  proof -
    assume "findBySkuAndLocation mem_inventory s sku loc = Inr (Some i)"
    then obtain x where x: "?find = Some x" "norm_item x = i"
      using clone [OF conjunct1 [OF found]] by (cases ?find) (simp_all add: mem_inventory_def mi_findBySkuAndLocation_def)
    show ?thesis
      using found [OF x(1)] mi_inv_item [OF s, of x] by (simp add: mi_row_def flip: x(2))
  qed
  show "findBySkuAndLocation mem_inventory s sku loc = Inr None \<Longrightarrow> mi_row s k = Some i \<Longrightarrow>
      \<not> (isku i = sku \<and> ilocationId i = loc)"
    using clone [OF conjunct1 [OF found]]
    by (cases ?find) (force simp: mem_inventory_def mi_findBySkuAndLocation_def mi_row_def find_None_iff
        dest: map_of_SomeD)+
  assume i: "storable i"
  note mi_save_committed [OF s i]
  then show "mi_row s (iid i) = Some r \<Longrightarrow> same_stock i r \<Longrightarrow> iversion r = iversion i - 1 \<Longrightarrow>
      \<exists>i' s'. save_item mem_inventory i s = (Inr i', s') \<and> norm_item i' = norm_item i \<and> mi_inv s'
        \<and> mi_row s' = (mi_row s)(iid i \<mapsto> norm_item i)"
    and "mi_row s (iid i) = None \<Longrightarrow> (\<And>k r. mi_row s k = Some r \<Longrightarrow> \<not> same_stock i r) \<Longrightarrow>
      \<exists>i' s'. save_item mem_inventory i s = (Inr i', s') \<and> norm_item i' = norm_item i \<and> mi_inv s'
        \<and> mi_row s' = (mi_row s)(iid i \<mapsto> norm_item i)"
    by (auto simp: mem_inventory_def mi_row_def)
  show "mi_row s (iid i) = Some r \<Longrightarrow> iversion r \<noteq> iversion i - 1 \<Longrightarrow>
      save_item mem_inventory i s = (Inl (ConcurrencyError (isku i) (ilocationId i)), s)"
    by (auto simp: mem_inventory_def mi_save_def mi_row_def oper_simps)
qed

section \<open>The PostgreSQL store keeps the contract\<close>

definition row_item :: "inventory_row \<Rightarrow> inventory_item" where
  "row_item r = InventoryItem (row_id r) (row_sku r) (row_location r) (q_each (row_quantity r))
     (q_each (row_allocated r)) (q_each (row_inTransit r)) (row_version r)"

definition pi_inv :: "inventory_db \<Rightarrow> bool" where
  "pi_inv s \<longleftrightarrow> distinct (map row_id (rows s))
     \<and> distinct (map (\<lambda>r. (row_sku r, row_location r)) (rows s)) \<and> (\<forall>r \<in> set (rows s). storable (row_item r))"

definition pi_row :: "inventory_db \<Rightarrow> ident \<Rightarrow> inventory_item option" where
  "pi_row s k = map_option row_item (find (\<lambda>r. row_id r = k) (rows s))"

lemma row_item_sel [simp]: "iid (row_item r) = row_id r" "isku (row_item r) = row_sku r"
  "ilocationId (row_item r) = row_location r" "iversion (row_item r) = row_version r"
  "norm_item (row_item r) = row_item r" "row_item (row_of i) = norm_item i"
  by (simp_all add: row_item_def InventoryItem_def norm_item_def row_of_def)

lemma row_of_sel [simp]: "row_id (row_of i) = iid i" "row_sku (row_of i) = isku i" "row_location (row_of i) = ilocationId i"
  by (simp_all add: row_of_def)

lemma toDomain_row: "storable (row_item r) \<Longrightarrow> toDomain r = Inr (row_item r)"
  using rebuild_storable [of "row_item r"]
  by (simp add: toDomain_def cloneItem_def row_item_def InventoryItem_def norm_item_def)

lemma find_by_key: "distinct (map f xs) \<Longrightarrow> x \<in> set xs \<Longrightarrow> find (\<lambda>y. f y = f x) xs = Some x"
  by (induction xs) auto

lemma find_map_key: "(\<And>x. f (g x) = f x) \<Longrightarrow> find (\<lambda>y. f y = k) (map g xs) = map_option g (find (\<lambda>y. f y = k) xs)"
  by (induction xs) auto

lemma set_amounts_sel [simp]: "row_id (set_amounts i r) = row_id r" "row_sku (set_amounts i r) = row_sku r"
  "row_location (set_amounts i r) = row_location r"
  by (simp_all add: set_amounts_def)

lemma set_amounts_item: "row_id r = iid i \<Longrightarrow> same_stock i (row_item r) \<Longrightarrow> row_item (set_amounts i r) = norm_item i"
  by (simp add: same_stock_def set_amounts_def row_item_def norm_item_def InventoryItem_def)

lemma pi_save_update:
  assumes "pi_inv s" and "storable i" and "find (\<lambda>r. row_id r = iid i) (rows s) = Some r"
    and "same_stock i (row_item r)" and "row_version r = iversion i - 1"
  shows "\<exists>s'. pi_save i s = (Inr (i\<lparr>ievents := []\<rparr>), s') \<and> pi_inv s' \<and> pi_row s' = (pi_row s)(iid i \<mapsto> norm_item i)"
proof -
  let ?g = "\<lambda>x. if hits i x then set_amounts i x else x"
  have r: "r \<in> set (rows s)" "row_id r = iid i" using find_SomeD [OF assms(3)] by auto
  have one: "hits i x \<longleftrightarrow> x = r" if "x \<in> set (rows s)" for x
  proof -
    have "inj_on row_id (set (rows s))" using assms(1) by (simp add: pi_inv_def distinct_map)
    with that r have "row_id x = iid i \<longleftrightarrow> x = r" by (metis inj_onD)
    with assms(5) show ?thesis by (auto simp: hits_def)
  qed
  have g: "map ?g (rows s) = map (\<lambda>x. if x = r then set_amounts i r else x) (rows s)"
    using one by (intro map_cong) auto
  have item: "row_item (set_amounts i r) = norm_item i" using set_amounts_item r(2) assms(4) by simp
  have "list_ex (hits i) (rows s)" using one r(1) by (auto simp: list_ex_iff)
  then have save: "pi_save i s = (Inr (i\<lparr>ievents := []\<rparr>), s\<lparr>rows := map ?g (rows s), outbox_events := outbox_events s @ ievents i\<rparr>)"
    using assms(3) by (simp add: pi_save_def oper_simps transaction_def to_outbox_def)
  have ids: "map row_id (map ?g (rows s)) = map row_id (rows s)"
    "map (\<lambda>r. (row_sku r, row_location r)) (map ?g (rows s)) = map (\<lambda>r. (row_sku r, row_location r)) (rows s)"
    by auto
  have "\<forall>x \<in> set (map ?g (rows s)). storable (row_item x)"
    unfolding g using assms(1,2) item by (auto simp: pi_inv_def)
  with ids assms(1) have inv: "pi_inv (s\<lparr>rows := map ?g (rows s), outbox_events := outbox_events s @ ievents i\<rparr>)"
    unfolding pi_inv_def by (simp del: map_map)
  have "find (\<lambda>x. row_id x = k) (map ?g (rows s)) = map_option ?g (find (\<lambda>x. row_id x = k) (rows s))" for k
    by (rule find_map_key) simp
  moreover have "map_option ?g (find (\<lambda>x. row_id x = k) (rows s)) =
      (if k = iid i then Some (set_amounts i r) else find (\<lambda>x. row_id x = k) (rows s))" for k
  proof (cases "find (\<lambda>x. row_id x = k) (rows s)")
    case None
    with assms(3) show ?thesis by auto
  next
    case (Some x)
    note x = find_SomeD [OF Some]
    show ?thesis
    proof (cases "k = iid i")
      case True
      with Some assms(3) one [OF r(1)] show ?thesis by simp
    next
      case False
      with x r(2) one [of x] Some show ?thesis by (auto simp: hits_def)
    qed
  qed
  ultimately have "pi_row (s\<lparr>rows := map ?g (rows s), outbox_events := outbox_events s @ ievents i\<rparr>) = (pi_row s)(iid i \<mapsto> norm_item i)"
    using item by (simp add: pi_row_def fun_eq_iff)
  with save inv show ?thesis by blast
qed

lemma pi_save_insert:
  assumes "pi_inv s" and "storable i" and "find (\<lambda>r. row_id r = iid i) (rows s) = None"
    and "\<And>r. r \<in> set (rows s) \<Longrightarrow> \<not> same_stock i (row_item r)"
  shows "\<exists>s'. pi_save i s = (Inr (i\<lparr>ievents := []\<rparr>), s') \<and> pi_inv s' \<and> pi_row s' = (pi_row s)(iid i \<mapsto> norm_item i)"
proof -
  have new: "\<forall>r \<in> set (rows s). row_id r \<noteq> iid i" using assms(3) by (simp add: find_None_iff)
  with assms(4) have "\<not> list_ex (row_conflict (row_of i)) (rows s)"
    by (auto simp: list_ex_iff row_conflict_def same_stock_def)
  then have "pi_save i s = (Inr (i\<lparr>ievents := []\<rparr>), s\<lparr>rows := rows s @ [row_of i], outbox_events := outbox_events s @ ievents i\<rparr>)"
    using assms(3) by (simp add: pi_save_def oper_simps transaction_def to_outbox_def insert_row_def)
  moreover have "pi_inv (s\<lparr>rows := rows s @ [row_of i], outbox_events := outbox_events s @ ievents i\<rparr>)"
    using assms(1,2) new assms(4) by (auto simp: pi_inv_def same_stock_def)
  moreover have "pi_row (s\<lparr>rows := rows s @ [row_of i], outbox_events := outbox_events s @ ievents i\<rparr>) = (pi_row s)(iid i \<mapsto> norm_item i)"
    using assms(3) by (auto simp: pi_row_def fun_eq_iff find_append split: option.splits)
  ultimately show ?thesis by blast
qed

interpretation pi: inventory_repository pg_inventory pi_inv pi_row
proof
  fix s :: inventory_db and k i sku loc r
  let ?find = "find (\<lambda>r. row_sku r = sku \<and> row_location r = loc) (rows s)"
  assume s: "pi_inv s"
  have dom: "x \<in> set (rows s) \<Longrightarrow> toDomain x = Inr (row_item x)" for x
    using s by (simp add: pi_inv_def toDomain_row)
  have key: "x \<in> set (rows s) \<Longrightarrow> find (\<lambda>r. row_id r = row_id x) (rows s) = Some x" for x
    using s by (intro find_by_key) (auto simp: pi_inv_def)
  have found: "?find = Some x \<Longrightarrow> x \<in> set (rows s) \<and> row_sku x = sku \<and> row_location x = loc" for x
    using find_SomeD [of _ "rows s" x] by auto
  have row: "pi_row s k = Some i \<Longrightarrow> \<exists>x \<in> set (rows s). i = row_item x \<and> row_id x = k \<and> find (\<lambda>r. row_id r = k) (rows s) = Some x" for k i
    by (auto simp: pi_row_def dest: find_SomeD)
  show "pi_row s k = Some i \<Longrightarrow> storable i \<and> norm_item i = i \<and> iid i = k"
    using row s by (force simp: pi_inv_def)
  show "\<exists>found. findBySkuAndLocation pg_inventory s sku loc = Inr found"
    using dom [OF conjunct1 [OF found]]
    by (cases ?find) (simp_all add: pg_inventory_def pi_findBySkuAndLocation_def)
  show "findBySkuAndLocation pg_inventory s sku loc = Inr (Some i) \<Longrightarrow>
      pi_row s (iid i) = Some i \<and> isku i = sku \<and> ilocationId i = loc"
  proof -
    assume "findBySkuAndLocation pg_inventory s sku loc = Inr (Some i)"
    then obtain x where x: "?find = Some x" "row_item x = i"
      using dom [OF conjunct1 [OF found]] by (cases ?find) (simp_all add: pg_inventory_def pi_findBySkuAndLocation_def)
    show ?thesis using found [OF x(1)] key [of x] by (simp add: pi_row_def flip: x(2))
  qed
  show "findBySkuAndLocation pg_inventory s sku loc = Inr None \<Longrightarrow> pi_row s k = Some i \<Longrightarrow>
      \<not> (isku i = sku \<and> ilocationId i = loc)"
    using dom [OF conjunct1 [OF found]] row [of k i]
    by (cases ?find) (auto simp: pg_inventory_def pi_findBySkuAndLocation_def find_None_iff)
  assume i: "storable i"
  show "pi_row s (iid i) = Some r \<Longrightarrow> same_stock i r \<Longrightarrow> iversion r = iversion i - 1 \<Longrightarrow>
      \<exists>i' s'. save_item pg_inventory i s = (Inr i', s') \<and> norm_item i' = norm_item i \<and> pi_inv s'
        \<and> pi_row s' = (pi_row s)(iid i \<mapsto> norm_item i)"
    using row [of "iid i" r] pi_save_update [OF s i] by (fastforce simp: pg_inventory_def)
  show "pi_row s (iid i) = None \<Longrightarrow> (\<And>k r. pi_row s k = Some r \<Longrightarrow> \<not> same_stock i r) \<Longrightarrow>
      \<exists>i' s'. save_item pg_inventory i s = (Inr i', s') \<and> norm_item i' = norm_item i \<and> pi_inv s'
        \<and> pi_row s' = (pi_row s)(iid i \<mapsto> norm_item i)"
    using pi_save_insert [OF s i] key by (fastforce simp: pg_inventory_def pi_row_def)
  show "pi_row s (iid i) = Some r \<Longrightarrow> iversion r \<noteq> iversion i - 1 \<Longrightarrow>
      save_item pg_inventory i s = (Inl (ConcurrencyError (isku i) (ilocationId i)), s)"
  proof -
    assume "pi_row s (iid i) = Some r" and v: "iversion r \<noteq> iversion i - 1"
    then obtain x where x: "find (\<lambda>r. row_id r = iid i) (rows s) = Some x" "r = row_item x"
      using row by blast
    have "\<not> list_ex (hits i) (rows s)"
    proof
      assume "list_ex (hits i) (rows s)"
      then obtain y where "y \<in> set (rows s)" "row_id y = iid i" "row_version y = iversion i - 1"
        by (auto simp: list_ex_iff hits_def)
      with key [of y] x v show False by simp
    qed
    with x show ?thesis by (simp add: pg_inventory_def pi_save_def oper_simps transaction_def)
  qed
qed


section \<open>Batches in the database\<close>

lemma fold_by_key_mem:
  "map_of (fold (\<lambda>i m. AList.update (f i) i m) is m) c = Some x \<Longrightarrow>
     (x \<in> set is \<and> f x = c) \<or> map_of m c = Some x"
proof (induction "is" arbitrary: m)
  case (Cons a "is")
  from Cons.IH [of "AList.update (f a) a m"] Cons.prems show ?case by (auto split: if_splits)
qed simp

lemma fold_by_key_unique:
  assumes "\<And>i. i \<in> set is \<Longrightarrow> f i = c \<Longrightarrow> i = x"
  shows "map_of (fold (\<lambda>i m. AList.update (f i) i m) is m) c =
    (if \<exists>i \<in> set is. f i = c then Some x else map_of m c)"
  using assms
proof (induction "is" arbitrary: m)
  case (Cons j "is")
  then show ?case by (auto simp: Cons.IH)
qed simp

lemma insert_rows_return:
  "op_each (insert_row \<circ> row_of) cs s = (Inr (), s') \<Longrightarrow> rows s' = rows s @ map row_of cs"
proof (induction cs arbitrary: s)
  case (Cons c cs)
  then show ?case
    by (cases "list_ex (row_conflict (row_of c)) (rows s)") (auto simp: oper_simps insert_row_def)
qed (simp add: oper_simps)

lemma op_each_reject_hit:
  "x \<in> set xs \<Longrightarrow> P x \<Longrightarrow> \<exists>e. op_each (\<lambda>x. op_reject (P x) (err x)) xs s = (Inl e, s)"
  by (induction xs) (auto simp: oper_simps)

lemma pi_saveBatch_stale:
  assumes "k \<in> set is" and "\<And>j. j \<in> set is \<Longrightarrow> iid j = iid k \<Longrightarrow> j = k"
    and "iid k \<in> set (map row_id (rows s))"
    and "\<And>r. r \<in> set (rows s) \<Longrightarrow> row_id r = iid k \<Longrightarrow> row_version r \<noteq> iversion k - 1"
  shows "\<exists>e. pi_saveBatch is s = (Inl e, s)"
proof -
  let ?u = "map snd (fold (\<lambda>i m. AList.update (iid i) i m) is [])"
  let ?c = "filter (\<lambda>i. iid i \<notin> set (map row_id (rows s))) ?u"
  let ?d = "filter (\<lambda>i. iid i \<in> set (map row_id (rows s))) ?u"
  have "map_of (fold (\<lambda>i m. AList.update (iid i) i m) is []) (iid k) = Some k"
    using fold_by_key_unique [of "is" iid "iid k" k "[]"] assms(1,2) by auto
  then have k: "k \<in> set ?d" using assms(3) by (auto dest!: map_of_SomeD simp: image_iff intro!: bexI)
  have "is \<noteq> []" using assms(1) by auto
  show ?thesis
  proof (cases "op_each (insert_row \<circ> row_of) ?c s")
    case (Pair r s1)
    show ?thesis
    proof (cases r)
      case (Inl e)
      with Pair \<open>is \<noteq> []\<close> show ?thesis
        unfolding pi_saveBatch_def by (simp add: oper_simps transaction_def Let_def del: op_each.simps)
    next
      case (Inr u)
      then have "rows s1 = rows s @ map row_of ?c" using insert_rows_return Pair by simp
      then have stale: "\<not> list_ex (hits k) (rows s1)"
        using assms(3,4) by (auto simp: list_ex_iff hits_def)
      let ?s2 = "s1\<lparr>rows := update_rows ?d (rows s1)\<rparr>"
      obtain e where "op_each (\<lambda>i. op_reject (\<not> list_ex (hits i) (rows s1)) (ConcurrencyError (isku i) (ilocationId i))) ?d ?s2 = (Inl e, ?s2)"
        using op_each_reject_hit [OF k, of "\<lambda>i. \<not> list_ex (hits i) (rows s1)" "\<lambda>i. ConcurrencyError (isku i) (ilocationId i)" ?s2] stale
        by blast
      with Pair Inr \<open>is \<noteq> []\<close> show ?thesis
        unfolding pi_saveBatch_def by (simp add: oper_simps transaction_def Let_def del: op_each.simps)
    qed
  qed
qed

lemma pi_batch_found:
  assumes "pi_inv s" and "pi_findBySkuAndLocationBatch s pairs = Inr is" and "i \<in> set is"
  shows "pi_row s (iid i) = Some i \<and> (isku i, ilocationId i) \<in> set pairs"
proof -
  let ?rs = "filter (\<lambda>r. list_ex (\<lambda>(sku, loc). row_sku r = sku \<and> row_location r = loc) pairs) (rows s)"
  have "list_all2 (\<lambda>r i. toDomain r = Inr i) ?rs is"
    using assms(2,3) by (auto simp: pi_findBySkuAndLocationBatch_def pi_select_def result_map_Inr_iff split: if_splits)
  then obtain r where r: "r \<in> set ?rs" "toDomain r = Inr i"
  proof -
    assume all: "list_all2 (\<lambda>r i. toDomain r = Inr i) ?rs is" and goal: "\<And>r. r \<in> set ?rs \<Longrightarrow> toDomain r = Inr i \<Longrightarrow> thesis"
    obtain n where n: "n < length is" "is ! n = i" using assms(3) by (auto simp: in_set_conv_nth)
    then have "?rs ! n \<in> set ?rs" using list_all2_lengthD [OF all] by (intro nth_mem) simp
    with goal list_all2_nthD2 [OF all n(1)] n(2) show thesis by blast
  qed  moreover have "row_item r = i" using toDomain_row [of r] r assms(1) by (auto simp: pi_inv_def)
  moreover have "find (\<lambda>x. row_id x = row_id r) (rows s) = Some r"
    using r assms(1) by (intro find_by_key) (auto simp: pi_inv_def)
  ultimately show ?thesis by (auto simp: pi_row_def list_ex_iff)
qed

section \<open>Properties\<close>

lemma pg_fields: "findBySkuAndLocation pg_inventory = pi_findBySkuAndLocation" "save_item pg_inventory = pi_save"
  by (simp_all add: pg_inventory_def)

definition fresh_ids :: "(nat \<Rightarrow> string) \<Rightarrow> bool" where
  "fresh_ids uuid \<longleftrightarrow> InventoryItemId (uuid 0) = Inr (uuid 0)"


definition sample_row :: inventory_row where
  "sample_row = row_of sample_item"

definition sample_db :: inventory_db where
  "sample_db = \<lparr>rows = [sample_row], outbox_events = []\<rparr>"

lemma sample_item_storable: "storable sample_item"
proof -
  have "Sku ''WIDGET-1'' = Inr ''WIDGET-1''"
    by (simp add: Sku_Inr_iff is_sku_char_def is_letter_def is_upper_def is_digit_def to_upper_def upper_char_def)
  then show ?thesis
    by (simp add: storable_def sample_item_def InventoryItem_def item_ok_def LocationId_def InventoryItemId_def
        make_id_def is_blank_def trim_def is_space_def)
qed

lemma sample_db_inv: "pi_inv sample_db"
  using sample_item_storable by (simp add: pi_inv_def sample_db_def sample_row_def)

lemma sample_find: "pi_findBySkuAndLocation sample_db ''WIDGET-1'' ''loc-1'' = Inr (Some sample_item)"
  using sample_item_storable
  by (simp add: pi_findBySkuAndLocation_def sample_db_def sample_row_def toDomain_row)
     (simp add: sample_item_def row_of_def InventoryItem_def norm_item_def)


text \<open>
  C3. No update is lost: when two callers load the same item from the database, each changes
  its copy by one method call and the first saves, the save of the second throws a ConcurrencyError
  and leaves the database as the first one's save made it.
\<close>

theorem no_lost_update:
  assumes "pi_inv s" and "pi_findBySkuAndLocation s sku loc = Inr (Some i)"
    and "command_ok c" and "c \<noteq> PullEvents" and "command_ok d" and "d \<noteq> PullEvents"
    and "change_and_save pg_inventory (inventory_exec c) i s = (Inr i', s')"
    and "fst (inventory_exec d i) = Inr ()"
  shows "change_and_save pg_inventory (inventory_exec d) i s' = (Inl (ConcurrencyError sku loc), s')
    \<and> pi_row s' = (pi_row s)(iid i \<mapsto> norm_item (snd (inventory_exec c i)))"
proof -
  have i: "pi_row s (iid i) = Some i" "isku i = sku" "ilocationId i = loc"
    using pi.find_found [OF assms(1)] assms(2) by (auto simp: pg_fields)
  have "fst (change_and_save pg_inventory (inventory_exec c) i s) = Inr i'" using assms(7) by simp
  from pi.second_writer_refused [OF assms(1) i(1) assms(3-6) this assms(8)]
  have "change_and_save pg_inventory (inventory_exec d) i s' = (Inl (ConcurrencyError sku loc), s')"
    using assms(7) i by simp
  moreover have "pi_row s' = (pi_row s)(iid i \<mapsto> norm_item (snd (inventory_exec c i)))"
    using pi.change_ready [OF assms(1) pi.current_ready [OF assms(1) i(1)] assms(3,4)] assms(7)
      exec_identity [of c i]
    by (auto simp: pi.committed_def)
  ultimately show ?thesis by blast
qed

theorem no_lost_update_witness:
  "\<exists>s'. snd (change_and_save pg_inventory (inventory_exec (Receive (q_each 5))) sample_item sample_db) = s'
    \<and> change_and_save pg_inventory (inventory_exec (Dispatch 1 (q_each 2))) sample_item s'
      = (Inl (ConcurrencyError ''WIDGET-1'' ''loc-1''), s')"
proof -
  have "fst (inventory_exec (Receive (q_each 5)) sample_item) = Inr ()"
    "fst (inventory_exec (Dispatch 1 (q_each 2)) sample_item) = Inr ()"
    by (simp_all add: sample_item_def InventoryItem_def inventory_op_defs oper_simps q_add_each q_subtract_each)
  moreover have "pi_row sample_db (iid sample_item) = Some sample_item"
    using pi.find_found [OF sample_db_inv, of "''WIDGET-1''" "''loc-1''" sample_item] sample_find
    by (simp add: pg_fields)
  then have "pi.ready sample_db sample_item" by (rule pi.current_ready [OF sample_db_inv])
  moreover obtain j where "inventory_exec (Receive (q_each 5)) sample_item = (Inr (), j)"
    using calculation(1) by (metis prod.collapse)
  ultimately obtain i' s' where "change_and_save pg_inventory (inventory_exec (Receive (q_each 5))) sample_item sample_db = (Inr i', s')"
    using pi.change_ready [OF sample_db_inv, of sample_item "Receive (q_each 5)"]
    by (auto simp: command_ok_def simp del: inventory_exec.simps split: prod.splits sum.splits)
  with no_lost_update [OF sample_db_inv sample_find, of "Receive (q_each 5)" "Dispatch 1 (q_each 2)" i' s']
    \<open>fst (inventory_exec (Dispatch 1 (q_each 2)) sample_item) = Inr ()\<close>
  show ?thesis by (simp add: command_ok_def)
qed

text \<open>
  A copy may be changed only once between load and save: each method call raises the
  version by one and both stores accept only the next version, so after two calls that returned
  every save of the copy throws a ConcurrencyError, in memory and in the database.
\<close>

theorem two_changes_conflict:
  assumes "command_ok c" and "c \<noteq> PullEvents" and "command_ok d" and "d \<noteq> PullEvents"
    and "inventory_exec c i = (Inr (), j)" and "inventory_exec d j = (Inr (), k)"
  shows "(mi_inv m \<and> mi_row m (iid i) = Some i \<longrightarrow>
      mi_save k m = (Inl (ConcurrencyError (isku i) (ilocationId i)), m))
    \<and> (pi_inv s \<and> pi_row s (iid i) = Some i \<longrightarrow>
      pi_save k s = (Inl (ConcurrencyError (isku i) (ilocationId i)), s))"
  using mi.two_changes_refused [OF _ _ assms, of m] pi.two_changes_refused [OF _ _ assms, of s]
  by (simp add: mem_inventory_def pg_fields)

theorem two_changes_conflict_witness:
  "pi_save (snd (op_each inventory_exec [Receive (q_each 1), Receive (q_each 1)] sample_item)) sample_db
     = (Inl (ConcurrencyError ''WIDGET-1'' ''loc-1''), sample_db)"
proof -
  have row: "pi_row sample_db ''i1'' = Some sample_item"
    using pi.find_found [OF sample_db_inv, of "''WIDGET-1''" "''loc-1''" sample_item] sample_find
    by (simp add: pg_fields sample_item_def InventoryItem_def)
  obtain j k where jk: "inventory_exec (Receive (q_each 1)) sample_item = (Inr (), j)"
      "inventory_exec (Receive (q_each 1)) j = (Inr (), k)"
    by (simp add: sample_item_def InventoryItem_def inventory_op_defs oper_simps q_add_each)
  with two_changes_conflict [OF _ _ _ _ jk, of "[]" sample_db] row sample_db_inv show ?thesis
    by (simp add: command_ok_def oper_simps sample_item_def InventoryItem_def)
qed

text \<open>
  A SKU typed in lower case splits the stock: the look-up compares the raw text with the
  stored upper-case SKUs and finds nothing, so each receipt under it creates another item with the
  same SKU at the same location.
\<close>

theorem lower_case_receipts_split_stock:
  assumes "mi_inv m" and "Sku sku = Inr up" and "up \<noteq> sku" and "LocationId loc = Inr loc" and "0 \<le> a"
    and "InventoryItemId u1 = Inr u1" and "InventoryItemId u2 = Inr u2" and "u1 \<noteq> u2"
    and "map_of m u1 = None" and "map_of m u2 = None"
  shows "\<exists>d1 m1 d2 m2. ReceiveStockUseCase (\<lambda>n. u1) mem_inventory None sku loc a m = (Inr d1, m1)
    \<and> ReceiveStockUseCase (\<lambda>n. u2) mem_inventory None sku loc a m1 = (Inr d2, m2)
    \<and> dto_id d1 = u1 \<and> dto_id d2 = u2 \<and> dto_sku d1 = up \<and> dto_sku d2 = up
    \<and> map_option isku (map_of m2 u1) = Some up \<and> map_option isku (map_of m2 u2) = Some up
    \<and> map_option ilocationId (map_of m2 u1) = Some loc \<and> map_option ilocationId (map_of m2 u2) = Some loc"
proof -
  have up: "up = to_upper sku" "Sku up = Inr up"
    using assms(2) is_sku_char_upper by (auto simp: Sku_Inr_iff list_all_iff to_upper_def)
  have absent: "mi_findBySkuAndLocation x sku loc = Inr None" if "mi_inv x" for x
  proof -
    have "isku y \<noteq> sku" if "y \<in> snd ` set x" for y
      using mi_inv_item [OF \<open>mi_inv x\<close> that] assms(3) up(1) by (auto simp: storable_def Sku_Inr_iff)
    then have "find (\<lambda>i. isku i = sku \<and> ilocationId i = loc) (map snd x) = None"
      by (auto simp: find_None_iff)
    then show ?thesis by (simp add: mi_findBySkuAndLocation_def)
  qed
  let ?new = "\<lambda>u. InventoryItem u up loc (q_each a) (q_each 0) (q_each 0) 2"
  have created: "ReceiveStockUseCase (\<lambda>n. u) mem_inventory None sku loc a x
      = (Inr (toDTO (?new u)), AList.update u (?new u) x) \<and> mi_inv (AList.update u (?new u) x)"
    if "mi_inv x" "map_of x u = None" "InventoryItemId u = Inr u" for x u
  proof -
    have new: "iid (?new u) = u" by (simp add: InventoryItem_def)
    have "storable (?new u)"
      using that(3) up(2) assms(4,5) by (simp add: storable_def InventoryItem_def item_ok_def)
    from mi_save_committed [OF that(1) this] that(2)
    have s: "mi_save (?new u) x = (Inr (?new u), AList.update u (?new u) x)" "mi_inv (AList.update u (?new u) x)"
      by (simp_all add: new)
    have "receiveStock (q_each a) (InventoryItem u up loc (q_each 0) (q_each 0) (q_each 0) 1) = (Inr (), ?new u)"
      using assms(5) by (simp add: receiveStock_def incrementVersion_def oper_simps q_add_each InventoryItem_def)
    with s absent [OF that(1)] that(3) assms(2,4,5) show ?thesis
      by (simp add: ReceiveStockUseCase_def oper_simps Quantity_each mem_inventory_def find_or_create_def
          inventory_createNew_def change_and_save_def)
  qed
  let ?m1 = "AList.update u1 (?new u1) m"
  have "map_of ?m1 u2 = None" using assms(8,10) by simp
  with created [OF assms(1,9,6)] created [of ?m1 u2] assms(7,8) show ?thesis
    by (simp add: toDTO_def InventoryItem_def)
qed

theorem lower_case_receipts_split_stock_witness:
  "\<exists>d1 m1 d2 m2. ReceiveStockUseCase (\<lambda>n. ''a'') mem_inventory None ''mug'' ''loc-1'' 5 [] = (Inr d1, m1)
    \<and> ReceiveStockUseCase (\<lambda>n. ''b'') mem_inventory None ''mug'' ''loc-1'' 5 m1 = (Inr d2, m2)
    \<and> dto_sku d1 = ''MUG'' \<and> dto_sku d2 = ''MUG'' \<and> dto_id d1 \<noteq> dto_id d2"
proof -
  have "Sku ''mug'' = Inr ''MUG''" by code_simp
  moreover have "mi_inv []" by (simp add: mi_inv_def)
  ultimately show ?thesis
    using lower_case_receipts_split_stock [of "[]" "''mug''" "''MUG''" "''loc-1''" 5 "''a''" "''b''"]
    by (force simp: LocationId_def InventoryItemId_def make_id_def is_blank_def trim_def is_space_def)
qed

end
