(* ===== verification/StockPosting.thy ===== *)
theory StockPosting
  imports Products Ledger
begin

text \<open>
  Posting stock movements to the ledger by SKU: src/src/infrastructure/utils/ledgerEntryUtils.ts,
  over the read side of IProductRepository (\<open>mem_products\<close> is the in-memory catalogue). A request
  without a tenant or an actor posts as \<open>default\<close> and \<open>system\<close>.
\<close>

record product_repo =
  find_by_sku :: "string \<Rightarrow> product option"
  find_by_skus :: "string list \<Rightarrow> product list"
  skus_of_variants :: "string list \<Rightarrow> (string, string) js_map result"
  sku_of_variant :: "string \<Rightarrow> string option result"

definition mem_products :: "catalogue \<Rightarrow> product_repo" where
  "mem_products ps = \<lparr>find_by_sku = mp_findBySku ps, find_by_skus = mp_findBySkus ps,
     skus_of_variants = mp_findSkusByVariantIds ps, sku_of_variant = mp_findSkuByVariantId ps\<rparr>"

record posting =
  po_sku :: string
  po_location :: string
  po_quantity :: number

record mutation_context =
  ctx_tenant :: "string option"
  ctx_actor :: "string option"

definition or_default :: "string \<Rightarrow> string option \<Rightarrow> string" where
  "or_default d x = (case x of None \<Rightarrow> d | Some s \<Rightarrow> if s = [] then d else s)"

definition appendStockLedgerEntry ::
    "(nat \<Rightarrow> string) \<Rightarrow> time \<Rightarrow> product_repo \<Rightarrow> 's ledger_repo \<Rightarrow> string \<Rightarrow> string \<Rightarrow> number
     \<Rightarrow> reason_code \<Rightarrow> mutation_context \<Rightarrow> ('s, unit) oper" where
  "appendStockLedgerEntry uuid now prepo lrepo sku loc q reason ctx =
     op_bind (op_lift (Sku sku)) (\<lambda>s.
     case Option.bind (find_by_sku prepo s) (\<lambda>p. findVariantBySku p sku) of
       None \<Rightarrow> op_return ()
     | Some v \<Rightarrow>
         op_bind (op_lift (TenantId (or_default ''default'' (ctx_tenant ctx)))) (\<lambda>tenant.
         op_bind (op_lift (ActorId (or_default ''system'' (ctx_actor ctx)))) (\<lambda>actor.
         op_bind (op_lift (result_bind (LedgerEntryId (uuid 0)) (\<lambda>i. result_bind (LocationId loc) (\<lambda>l.
           LedgerEntry i tenant l (pv_id v) q reason actor now None [])))) (\<lambda>e.
         append_entry lrepo e))))"

definition variant_id_map :: "product list \<Rightarrow> (string, ident) js_map" where
  "variant_id_map ps = fold (\<lambda>p. fold (\<lambda>v m. AList.update (pv_sku v) (pv_id v) m) (variants p)) ps []"

fun posting_entries ::
    "(nat \<Rightarrow> string) \<Rightarrow> time \<Rightarrow> (string, ident) js_map \<Rightarrow> ident \<Rightarrow> ident \<Rightarrow> reason_code \<Rightarrow> nat \<Rightarrow> posting list
     \<Rightarrow> ledger_entry list result" where
  "posting_entries uuid now ids tenant actor reason n [] = Inr []"
| "posting_entries uuid now ids tenant actor reason n (d # ds) =
     (case map_of ids (po_sku d) of
        None \<Rightarrow> posting_entries uuid now ids tenant actor reason n ds
      | Some v \<Rightarrow>
          if v = [] then posting_entries uuid now ids tenant actor reason n ds
          else result_bind (LedgerEntryId (uuid n)) (\<lambda>i. result_bind (LocationId (po_location d)) (\<lambda>l.
               result_bind (ProductVariantId v) (\<lambda>v'.
               result_bind (LedgerEntry i tenant l v' (po_quantity d) reason actor now None []) (\<lambda>e.
               result_bind (posting_entries uuid now ids tenant actor reason (Suc n) ds) (\<lambda>es. Inr (e # es)))))))"

definition appendStockLedgerEntries ::
    "(nat \<Rightarrow> string) \<Rightarrow> time \<Rightarrow> product_repo \<Rightarrow> 's ledger_repo \<Rightarrow> posting list \<Rightarrow> reason_code
     \<Rightarrow> mutation_context \<Rightarrow> ('s, unit) oper" where
  "appendStockLedgerEntries uuid now prepo lrepo entriesData reason ctx =
     (if length entriesData = 0 then op_return ()
      else op_bind (op_lift (result_map Sku (js_set (map po_sku entriesData)))) (\<lambda>skus.
        let ids = variant_id_map (find_by_skus prepo skus) in
        op_bind (op_lift (TenantId (or_default ''default'' (ctx_tenant ctx)))) (\<lambda>tenant.
        op_bind (op_lift (ActorId (or_default ''system'' (ctx_actor ctx)))) (\<lambda>actor.
        op_bind (op_lift (posting_entries uuid now ids tenant actor reason 0 entriesData)) (\<lambda>es.
        if 0 < length es then appendBatch lrepo es else op_return ())))))"

text \<open>The variants of some SKUs, of the products the catalogue returned for them.\<close>

definition variantMap :: "string list \<Rightarrow> product list \<Rightarrow> (string, product_variant) js_map" where
  "variantMap skus ps = fold (\<lambda>v m. if pv_sku v \<in> set skus then AList.update (pv_sku v) v m else m) (concat (map variants ps)) []"

section \<open>What is posted\<close>

definition posted :: "(string, ident) js_map \<Rightarrow> posting list \<Rightarrow> ident \<Rightarrow> ident \<Rightarrow> number" where
  "posted ids ds v loc = (\<Sum>d\<leftarrow>ds. if map_of ids (po_sku d) = Some v \<and> po_location d = loc then po_quantity d else 0)"

lemma posted_Nil [simp]: "posted ids [] v loc = 0"
  by (simp add: posted_def)

lemma make_id_InrD: "LocationId l = Inr l' \<Longrightarrow> l' = l" "ProductVariantId v = Inr v' \<Longrightarrow> v' = v"
  by (auto simp: LocationId_def ProductVariantId_def make_id_def split: if_splits)

lemma posting_entries_balance:
  assumes "posting_entries uuid now ids tenant actor reason n ds = Inr es" and "v \<noteq> []"
  shows "balance es v loc = posted ids ds v loc"
  using assms
proof (induction ds arbitrary: n es)
  case Nil
  then show ?case by (simp add: posted_def)
next
  case (Cons d ds)
  show ?case
  proof (cases "map_of ids (po_sku d)")
    case None
    with Cons show ?thesis by (simp add: posted_def)
  next
    case (Some w)
    show ?thesis
    proof (cases "w = []")
      case True
      with Cons Some show ?thesis by (simp add: posted_def)
    next
      case False
      with Cons.prems(1) Some obtain e es' where es: "es = e # es'" "le_variant e = w" "le_location e = po_location d"
          "le_quantity e = po_quantity d" "posting_entries uuid now ids tenant actor reason (Suc n) ds = Inr es'"
        by (auto simp: result_bind_Inr_iff LedgerEntry_def dest!: make_id_InrD split: if_splits)
      from Cons.IH [OF es(5) Cons.prems(2)] es(2-4) Some show ?thesis by (simp add: es(1) posted_def)
    qed
  qed
qed

lemma append_posts:
  assumes "v \<noteq> []"
  shows "case appendStockLedgerEntries uuid now prepo mem_ledger ds reason ctx es of
      (Inl e, es') \<Rightarrow> es' = es
    | (Inr _, es') \<Rightarrow> \<exists>skus. result_map Sku (js_set (map po_sku ds)) = Inr skus
        \<and> balance es' v loc = balance es v loc + posted (variant_id_map (find_by_skus prepo skus)) ds v loc"
proof (cases "result_map Sku (js_set (map po_sku ds))")
  case (Inl e)
  then have "ds \<noteq> []" by (auto simp: js_set_def)
  with Inl show ?thesis by (simp add: appendStockLedgerEntries_def oper_simps)
next
  case (Inr skus)
  then show ?thesis
    using posting_entries_balance [OF _ assms, symmetric]
    by (auto simp: appendStockLedgerEntries_def oper_simps mem_ledger_def mem_appendBatch_def Let_def
        split: sum.splits)
qed

text \<open>
  Postings reach the ledger exactly: a call that returns changes every balance by the sum
  of the quantities posted for the SKUs of that variant at that location, skips the SKUs that no
  product has, and a call that throws leaves the ledger as it was.
\<close>

theorem postings_change_balances:
  assumes "v \<noteq> []"
  shows "case appendStockLedgerEntries uuid now prepo mem_ledger ds reason ctx es of
      (Inl e, es') \<Rightarrow> es' = es
    | (Inr _, es') \<Rightarrow> \<exists>skus. result_map Sku (js_set (map po_sku ds)) = Inr skus
        \<and> balance es' v loc = balance es v loc + posted (variant_id_map (find_by_skus prepo skus)) ds v loc"
  by (rule append_posts [OF assms])

theorem postings_change_balances_witness:
  "case appendStockLedgerEntries sample_uuid 4 (mem_products [(''p1'', Product ''p1'' ''Mug''
        (Some [(''v1'', ProductVariant ''v1'' ''p1'' ''MUG'' [] TrackQuantity)]))]) mem_ledger
      [\<lparr>po_sku = ''MUG'', po_location = ''loc-1'', po_quantity = 6\<rparr>] Transfer \<lparr>ctx_tenant = None, ctx_actor = None\<rparr> [] of
      (Inl e, es') \<Rightarrow> es' = []
    | (Inr _, es') \<Rightarrow> balance es' ''v1'' ''loc-1'' = 6"
proof -
  let ?prepo = "mem_products [(''p1'', Product ''p1'' ''Mug''
        (Some [(''v1'', ProductVariant ''v1'' ''p1'' ''MUG'' [] TrackQuantity)]))]"
  let ?ds = "[\<lparr>po_sku = ''MUG'', po_location = ''loc-1'', po_quantity = 6\<rparr>]"
  have "result_map Sku (js_set (map po_sku ?ds)) = Inr [''MUG'']" by code_simp
  moreover have "variant_id_map (find_by_skus ?prepo [''MUG'']) = [(''MUG'', ''v1'')]"
    by (simp add: mem_products_def mp_findBySkus_def Product_def variants_def ProductVariant_def variant_id_map_def)
  ultimately show ?thesis
    using postings_change_balances [where v = "''v1''" and uuid = sample_uuid and now = 4 and prepo = ?prepo
      and ds = ?ds and reason = Transfer and ctx = "\<lparr>ctx_tenant = None, ctx_actor = None\<rparr>" and es = "[]" and loc = "''loc-1''"]
    by (auto simp: posted_def split: prod.splits sum.splits)
qed

end
