(* ===== verification/Transfers.thy ===== *)
theory Transfers
  imports StockPosting InventoryStore
begin

text \<open>
  Moving stock between locations: the transfer document of src/src/domain/entities/StockTransfer.ts
  (StockTransferItem.ts, StockTransferStatus.ts, StockTransferEvents.ts), its store
  src/src/infrastructure/persistence/InMemoryStockTransferRepository.ts, and the use cases of
  src/src/application/useCases/ManageStockTransfers.ts, which load the inventory items of all lines,
  change them line by line, save them in one batch, post to the ledger and save the document. The
  items of a use case are objects shared by its lines; \<open>transfer_work\<close> holds them by key.
\<close>

section \<open>The document\<close>

datatype transfer_status = Draft | Dispatched | Received | Cancelled

fun transfer_status_text :: "transfer_status \<Rightarrow> string" where
  "transfer_status_text Draft = ''draft''"
| "transfer_status_text Dispatched = ''dispatched''"
| "transfer_status_text Received = ''received''"
| "transfer_status_text Cancelled = ''cancelled''"

datatype transfer_event =
    StockTransferCreated string string time
  | StockTransferDispatched string string string time
  | StockTransferReceived string string time
  | StockTransferCancelled string time

type_synonym transfer_item = "ident \<times> number"

definition StockTransferItem :: "ident \<Rightarrow> number \<Rightarrow> transfer_item result" where
  "StockTransferItem v q =
     (if q \<le> 0 then Inl (Error ''Stock transfer item quantity must be positive.'' [])
      else if \<not> is_integer q then Inl (Error ''Stock transfer item quantity must be an integer.'' [])
      else Inr (v, q))"

record stock_transfer =
  tr_id :: ident
  tr_tenant :: ident
  tr_source :: ident
  tr_destination :: ident
  tr_items :: "transfer_item list"
  tr_reference :: "string option"
  tr_createdAt :: time
  tr_status :: transfer_status
  tr_dispatchedAt :: "time option"
  tr_receivedAt :: "time option"
  tr_events :: "transfer_event list"

definition StockTransfer ::
    "ident \<Rightarrow> ident \<Rightarrow> ident \<Rightarrow> ident \<Rightarrow> transfer_item list \<Rightarrow> string option \<Rightarrow> time \<Rightarrow> stock_transfer result" where
  "StockTransfer i tenant source destination its ref createdAt =
     (if source = destination then Inl (Error ''Source and destination locations cannot be the same.'' [])
      else if length its = 0 then Inl (Error ''Stock transfer must contain at least one item.'' [])
      else Inr \<lparr>tr_id = i, tr_tenant = tenant, tr_source = source, tr_destination = destination, tr_items = its,
        tr_reference = ref, tr_createdAt = createdAt, tr_status = Draft, tr_dispatchedAt = None,
        tr_receivedAt = None, tr_events = []\<rparr>)"

definition tr_dispatch :: "time \<Rightarrow> (stock_transfer, unit) oper" where
  "tr_dispatch now = op_get (\<lambda>t.
     op_seq (op_reject (tr_status t \<noteq> Draft)
       (Error ''Cannot dispatch a stock transfer in status: {}'' [S (transfer_status_text (tr_status t))]))
     (op_modify (\<lambda>t. t\<lparr>tr_status := Dispatched, tr_dispatchedAt := Some now,
        tr_events := tr_events t @ [StockTransferDispatched (tr_id t) (tr_source t) (tr_destination t) now]\<rparr>)))"

definition tr_receive :: "time \<Rightarrow> (stock_transfer, unit) oper" where
  "tr_receive now = op_get (\<lambda>t.
     op_seq (op_reject (tr_status t \<noteq> Dispatched)
       (Error ''Cannot receive a stock transfer in status: {}'' [S (transfer_status_text (tr_status t))]))
     (op_modify (\<lambda>t. t\<lparr>tr_status := Received, tr_receivedAt := Some now,
        tr_events := tr_events t @ [StockTransferReceived (tr_id t) (tr_destination t) now]\<rparr>)))"

definition tr_cancel :: "time \<Rightarrow> (stock_transfer, unit) oper" where
  "tr_cancel now = op_get (\<lambda>t.
     op_seq (op_reject (tr_status t = Received \<or> tr_status t = Cancelled)
       (Error ''Cannot cancel a stock transfer in status: {}'' [S (transfer_status_text (tr_status t))]))
     (op_modify (\<lambda>t. t\<lparr>tr_status := Cancelled, tr_events := tr_events t @ [StockTransferCancelled (tr_id t) now]\<rparr>)))"

definition tr_pullDomainEvents :: "(stock_transfer, transfer_event list) oper" where
  "tr_pullDomainEvents = op_get (\<lambda>t. op_seq (op_modify (\<lambda>t. t\<lparr>tr_events := []\<rparr>)) (op_return (tr_events t)))"

definition tr_reconstruct ::
    "ident \<Rightarrow> ident \<Rightarrow> ident \<Rightarrow> ident \<Rightarrow> transfer_item list \<Rightarrow> transfer_status \<Rightarrow> string option
     \<Rightarrow> time option \<Rightarrow> time option \<Rightarrow> time \<Rightarrow> stock_transfer result" where
  "tr_reconstruct i tenant source destination its st ref dispatchedTime receivedTime createdAt =
     result_bind (StockTransfer i tenant source destination its ref createdAt) (\<lambda>t.
       Inr (t\<lparr>tr_status := st, tr_dispatchedAt := dispatchedTime, tr_receivedAt := receivedTime\<rparr>))"

definition tr_createNew ::
    "time \<Rightarrow> ident \<Rightarrow> ident \<Rightarrow> ident \<Rightarrow> ident \<Rightarrow> transfer_item list \<Rightarrow> string option \<Rightarrow> stock_transfer result" where
  "tr_createNew now i tenant source destination its ref =
     result_bind (StockTransfer i tenant source destination its ref now) (\<lambda>t.
       Inr (t\<lparr>tr_events := [StockTransferCreated i tenant now]\<rparr>))"

section \<open>Its store\<close>

type_synonym transfer_map = "(ident, stock_transfer) js_map"

record 't transfer_repo =
  find_transfer :: "'t \<Rightarrow> ident \<Rightarrow> stock_transfer option result"
  save_transfer :: "stock_transfer \<Rightarrow> ('t, unit) oper"
  find_transfers :: "'t \<Rightarrow> ident \<Rightarrow> stock_transfer list result"
  save_transfers :: "stock_transfer list \<Rightarrow> ('t, unit) oper"

definition cloneTransfer :: "stock_transfer \<Rightarrow> stock_transfer result" where
  "cloneTransfer t =
     result_bind (result_map (\<lambda>(v, q). StockTransferItem v q) (tr_items t)) (\<lambda>its.
     result_bind (StockTransferId (tr_id t)) (\<lambda>i. result_bind (TenantId (tr_tenant t)) (\<lambda>tenant.
     result_bind (LocationId (tr_source t)) (\<lambda>source. result_bind (LocationId (tr_destination t)) (\<lambda>destination.
       tr_reconstruct i tenant source destination its (tr_status t) (tr_reference t) (tr_dispatchedAt t)
         (tr_receivedAt t) (tr_createdAt t))))))"

definition mt_findById :: "transfer_map \<Rightarrow> ident \<Rightarrow> stock_transfer option result" where
  "mt_findById m i = (case map_of m i of None \<Rightarrow> Inr None | Some t \<Rightarrow> result_bind (cloneTransfer t) (Inr \<circ> Some))"

definition mt_findAllByTenant :: "transfer_map \<Rightarrow> ident \<Rightarrow> stock_transfer list result" where
  "mt_findAllByTenant m tenant = result_map cloneTransfer (filter (\<lambda>t. tr_tenant t = tenant) (map snd m))"

definition mt_save :: "stock_transfer \<Rightarrow> (transfer_map, unit) oper" where
  "mt_save t = op_modify (AList.update (tr_id t) t)"

definition mt_saveBatch :: "stock_transfer list \<Rightarrow> (transfer_map, unit) oper" where
  "mt_saveBatch ts = op_each mt_save ts"

definition mem_transfers :: "transfer_map transfer_repo" where
  "mem_transfers = \<lparr>find_transfer = mt_findById, save_transfer = mt_save, find_transfers = mt_findAllByTenant,
     save_transfers = mt_saveBatch\<rparr>"

section \<open>The use cases\<close>

record ('t, 'i, 'l) transfer_world =
  tw_transfers :: 't
  tw_items :: 'i
  tw_ledger :: 'l

abbreviation on_transfers :: "('t, 'r) oper \<Rightarrow> (('t, 'i, 'l) transfer_world, 'r) oper" where
  "on_transfers m \<equiv> op_zoom tw_transfers (\<lambda>s w. w\<lparr>tw_transfers := s\<rparr>) m"

abbreviation on_items :: "('i, 'r) oper \<Rightarrow> (('t, 'i, 'l) transfer_world, 'r) oper" where
  "on_items m \<equiv> op_zoom tw_items (\<lambda>s w. w\<lparr>tw_items := s\<rparr>) m"

abbreviation on_tledger :: "('l, 'r) oper \<Rightarrow> (('t, 'i, 'l) transfer_world, 'r) oper" where
  "on_tledger m \<equiv> op_zoom tw_ledger (\<lambda>s w. w\<lparr>tw_ledger := s\<rparr>) m"

record transfer_dto =
  td_id :: string
  td_tenantId :: string
  td_sourceLocationId :: string
  td_destinationLocationId :: string
  td_status :: string
  td_items :: "(string \<times> number) list"
  td_referenceId :: "string option"
  td_dispatchedAt :: "time option"
  td_receivedAt :: "time option"
  td_createdAt :: time

definition transfer_toDTO :: "stock_transfer \<Rightarrow> transfer_dto" where
  "transfer_toDTO t = \<lparr>td_id = tr_id t, td_tenantId = tr_tenant t, td_sourceLocationId = tr_source t,
     td_destinationLocationId = tr_destination t, td_status = transfer_status_text (tr_status t),
     td_items = tr_items t, td_referenceId = tr_reference t, td_dispatchedAt = tr_dispatchedAt t,
     td_receivedAt = tr_receivedAt t, td_createdAt = tr_createdAt t\<rparr>"

definition CreateStockTransferUseCase ::
    "(nat \<Rightarrow> string) \<Rightarrow> time \<Rightarrow> 't transfer_repo \<Rightarrow> string \<Rightarrow> string \<Rightarrow> string \<Rightarrow> (string \<times> number) list
     \<Rightarrow> string option \<Rightarrow> (('t, 'i, 'l) transfer_world, transfer_dto) oper" where
  "CreateStockTransferUseCase uuid now trepo tenantId sourceId destId its ref =
     op_bind (op_lift (result_bind (StockTransferId (uuid 0)) (\<lambda>i. result_bind (TenantId tenantId) (\<lambda>tenant.
       result_bind (LocationId sourceId) (\<lambda>source. result_bind (LocationId destId) (\<lambda>dest.
       result_bind (result_map (\<lambda>(v, q). result_bind (ProductVariantId v) (\<lambda>v'. StockTransferItem v' q)) its) (\<lambda>items.
         tr_createNew now i tenant source dest items ref))))))) (\<lambda>t.
     op_seq (on_transfers (save_transfer trepo t)) (op_return (transfer_toDTO t)))"

record transfer_work =
  src_items :: "(string, inventory_item) js_map"
  dst_items :: "(string, inventory_item) js_map"
  touched :: "(bool \<times> string) list"
  postings :: "posting list"

definition item_key :: "string \<Rightarrow> ident \<Rightarrow> string" where
  "item_key sku loc = sku @ ''_'' @ loc"

definition items_by_key :: "inventory_item list \<Rightarrow> (string, inventory_item) js_map" where
  "items_by_key is = fold (\<lambda>i m. AList.update (item_key (isku i) (ilocationId i)) i m) is []"

definition set_add :: "'a \<Rightarrow> 'a list \<Rightarrow> 'a list" where
  "set_add x xs = (if x \<in> set xs then xs else xs @ [x])"

definition sku_lookup :: "(string, string) js_map \<Rightarrow> ident \<Rightarrow> string result" where
  "sku_lookup skus v = (case map_of skus v of None \<Rightarrow> Inl (Error ''Sku not found for variant ID: {}'' [S v])
     | Some s \<Rightarrow> if s = [] then Inl (Error ''Sku not found for variant ID: {}'' [S v]) else Inr s)"

definition location_item_not_found :: "string \<Rightarrow> string \<Rightarrow> ident \<Rightarrow> error" where
  "location_item_not_found side sku loc =
     Error (''Inventory item for SKU {} at '' @ side @ '' location {} not found.'') [S sku, S loc]"

text \<open>
  A method call on a shared object: \<open>source\<close> tells which of the two maps holds it. The
  object is changed in place and added to \<open>itemsToSave\<close>.
\<close>

definition call_item :: "bool \<Rightarrow> string \<Rightarrow> (inventory_item, unit) oper \<Rightarrow> inventory_item \<Rightarrow> (transfer_work, unit) oper" where
  "call_item source key change i = (case change i of (r, i') \<Rightarrow>
     op_seq (op_modify (\<lambda>w. if source then w\<lparr>src_items := AList.update key i' (src_items w)\<rparr>
                            else w\<lparr>dst_items := AList.update key i' (dst_items w)\<rparr>))
     (op_seq (op_lift r)
       (op_modify (\<lambda>w. w\<lparr>touched := set_add (source, key) (touched w)\<rparr>))))"

definition post :: "string \<Rightarrow> ident \<Rightarrow> number \<Rightarrow> (transfer_work, unit) oper" where
  "post sku loc q = op_modify (\<lambda>w. w\<lparr>postings := postings w @ [\<lparr>po_sku = sku, po_location = loc, po_quantity = q\<rparr>]\<rparr>)"

definition dispatch_line ::
    "(nat \<Rightarrow> string) \<Rightarrow> time \<Rightarrow> stock_transfer \<Rightarrow> (string, string) js_map \<Rightarrow> nat \<times> transfer_item
     \<Rightarrow> (transfer_work, unit) oper" where
  "dispatch_line uuid now t skus = (\<lambda>(n, v, q).
     let sku = the (map_of skus v); sourceKey = item_key sku (tr_source t); destKey = item_key sku (tr_destination t) in
     op_get (\<lambda>w. case map_of (src_items w) sourceKey of
       None \<Rightarrow> op_throw (location_item_not_found ''source'' sku (tr_source t))
     | Some sourceItem \<Rightarrow>
         op_bind (op_lift (Quantity q each)) (\<lambda>amount.
         op_seq (call_item True sourceKey (dispatchStock now amount) sourceItem)
         (op_seq (post sku (tr_source t) (- q))
         (op_bind (op_lift (case map_of (dst_items w) destKey of
             Some i \<Rightarrow> Inr i | None \<Rightarrow> inventory_createNew (uuid n) sku (tr_destination t))) (\<lambda>destItem.
         op_seq (op_modify (\<lambda>w. w\<lparr>dst_items := AList.update destKey destItem (dst_items w)\<rparr>))
         (call_item False destKey (createInTransit amount) destItem)))))))"

definition receive_line ::
    "stock_transfer \<Rightarrow> (string, string) js_map \<Rightarrow> transfer_item \<Rightarrow> (transfer_work, unit) oper" where
  "receive_line t skus = (\<lambda>(v, q).
     let sku = the (map_of skus v); key = item_key sku (tr_destination t) in
     op_get (\<lambda>w. case map_of (dst_items w) key of
       None \<Rightarrow> op_throw (location_item_not_found ''destination'' sku (tr_destination t))
     | Some destItem \<Rightarrow>
         op_bind (op_lift (Quantity q each)) (\<lambda>amount.
         op_seq (call_item False key (receiveInTransit amount) destItem)
         (post sku (tr_destination t) q))))"

definition cancel_line ::
    "(nat \<Rightarrow> string) \<Rightarrow> stock_transfer \<Rightarrow> (string, string) js_map \<Rightarrow> nat \<times> transfer_item
     \<Rightarrow> (transfer_work, unit) oper" where
  "cancel_line uuid t skus = (\<lambda>(n, v, q).
     let sku = the (map_of skus v); sourceKey = item_key sku (tr_source t); destKey = item_key sku (tr_destination t) in
     op_get (\<lambda>w.
       op_bind (op_lift (case map_of (src_items w) sourceKey of
           Some i \<Rightarrow> Inr i | None \<Rightarrow> inventory_createNew (uuid n) sku (tr_source t))) (\<lambda>sourceItem.
       op_seq (op_modify (\<lambda>w. w\<lparr>src_items := AList.update sourceKey sourceItem (src_items w)\<rparr>))
       (op_bind (op_lift (Quantity q each)) (\<lambda>amount.
       op_seq (call_item True sourceKey (receiveStock amount) sourceItem)
       (op_seq (post sku (tr_source t) q)
       (case map_of (dst_items w) destKey of
          Some destItem \<Rightarrow> call_item False destKey (cancelInTransit amount) destItem
        | None \<Rightarrow> op_return ())))))))"

definition items_to_save :: "transfer_work \<Rightarrow> inventory_item list" where
  "items_to_save w = List.map_filter (\<lambda>(source, key). map_of (if source then src_items w else dst_items w) key) (touched w)"

definition load_transfer :: "'t transfer_repo \<Rightarrow> string \<Rightarrow> (('t, 'i, 'l) transfer_world, stock_transfer) oper" where
  "load_transfer trepo transferId =
     op_bind (op_lift (StockTransferId transferId)) (\<lambda>i.
     op_bind (op_get (\<lambda>w. op_lift (find_transfer trepo (tw_transfers w) i))) (\<lambda>found.
     case found of None \<Rightarrow> op_throw (Error ''Stock transfer {} not found.'' [S transferId])
     | Some t \<Rightarrow> op_return t))"

text \<open>Load the items of both sides, run the lines, save the touched items, post, save the document.\<close>

definition load_side ::
    "'i inventory_repo \<Rightarrow> string list \<Rightarrow> ident \<Rightarrow> (('t, 'i, 'l) transfer_world, (string, inventory_item) js_map) oper" where
  "load_side irepo skuList loc = op_get (\<lambda>w. op_lift
     (result_bind (findBySkuAndLocationBatch irepo (tw_items w) (map (\<lambda>sku. (sku, loc)) skuList)) (\<lambda>is.
       Inr (items_by_key is))))"

definition run_lines ::
    "(nat \<Rightarrow> string) \<Rightarrow> time \<Rightarrow> 'i inventory_repo \<Rightarrow> product_repo \<Rightarrow> 'l ledger_repo \<Rightarrow> mutation_context
     \<Rightarrow> (transfer_work, unit) oper \<Rightarrow> (string, inventory_item) js_map \<Rightarrow> (string, inventory_item) js_map
     \<Rightarrow> (('t, 'i, 'l) transfer_world, unit) oper" where
  "run_lines uuid now irepo prepo lrepo ctx lines src dst =
     (case lines \<lparr>src_items = src, dst_items = dst, touched = [], postings = []\<rparr> of
        (Inl e, work) \<Rightarrow> op_throw e
      | (Inr _, work) \<Rightarrow>
          op_seq (on_items (save_items irepo (items_to_save work)))
            (on_tledger (appendStockLedgerEntries uuid now prepo lrepo (postings work) Transfer ctx)))"

definition line_skus :: "product_repo \<Rightarrow> stock_transfer \<Rightarrow> ((string, string) js_map \<times> string list) result" where
  "line_skus prepo t =
     result_bind (skus_of_variants prepo (map fst (tr_items t))) (\<lambda>skus.
     result_bind (result_map (\<lambda>(v, q). sku_lookup skus v) (tr_items t)) (\<lambda>skuList. Inr (skus, skuList)))"

definition DispatchStockTransferUseCase ::
    "(nat \<Rightarrow> string) \<Rightarrow> (nat \<Rightarrow> string) \<Rightarrow> time \<Rightarrow> 't transfer_repo \<Rightarrow> 'i inventory_repo \<Rightarrow> product_repo
     \<Rightarrow> 'l ledger_repo \<Rightarrow> string \<Rightarrow> string \<Rightarrow> string \<Rightarrow> (('t, 'i, 'l) transfer_world, transfer_dto) oper" where
  "DispatchStockTransferUseCase item_uuid uuid now trepo irepo prepo lrepo transferId actorId tenantId =
     op_bind (load_transfer trepo transferId) (\<lambda>t0.
     case tr_dispatch now t0 of
       (Inl e, t) \<Rightarrow> op_throw e
     | (Inr _, t) \<Rightarrow>
         op_bind (op_lift (line_skus prepo t)) (\<lambda>(skus, skuList).
         op_bind (load_side irepo skuList (tr_source t)) (\<lambda>src.
         op_bind (load_side irepo skuList (tr_destination t)) (\<lambda>dst.
         op_seq (run_lines uuid now irepo prepo lrepo \<lparr>ctx_tenant = Some tenantId, ctx_actor = Some actorId\<rparr>
             (op_each (dispatch_line item_uuid now t skus) (enumerate 0 (tr_items t))) src dst)
         (op_seq (on_transfers (save_transfer trepo t)) (op_return (transfer_toDTO t)))))))"

definition ReceiveStockTransferUseCase ::
    "(nat \<Rightarrow> string) \<Rightarrow> time \<Rightarrow> 't transfer_repo \<Rightarrow> 'i inventory_repo \<Rightarrow> product_repo
     \<Rightarrow> 'l ledger_repo \<Rightarrow> string \<Rightarrow> string \<Rightarrow> string \<Rightarrow> (('t, 'i, 'l) transfer_world, transfer_dto) oper" where
  "ReceiveStockTransferUseCase uuid now trepo irepo prepo lrepo transferId actorId tenantId =
     op_bind (load_transfer trepo transferId) (\<lambda>t0.
     case tr_receive now t0 of
       (Inl e, t) \<Rightarrow> op_throw e
     | (Inr _, t) \<Rightarrow>
         op_bind (op_lift (line_skus prepo t)) (\<lambda>(skus, skuList).
         op_bind (load_side irepo skuList (tr_destination t)) (\<lambda>dst.
         op_seq (run_lines uuid now irepo prepo lrepo \<lparr>ctx_tenant = Some tenantId, ctx_actor = Some actorId\<rparr>
             (op_each (receive_line t skus) (tr_items t)) [] dst)
         (op_seq (on_transfers (save_transfer trepo t)) (op_return (transfer_toDTO t))))))"

definition CancelStockTransferUseCase ::
    "(nat \<Rightarrow> string) \<Rightarrow> (nat \<Rightarrow> string) \<Rightarrow> time \<Rightarrow> 't transfer_repo \<Rightarrow> 'i inventory_repo \<Rightarrow> product_repo
     \<Rightarrow> 'l ledger_repo \<Rightarrow> string \<Rightarrow> string \<Rightarrow> string \<Rightarrow> (('t, 'i, 'l) transfer_world, transfer_dto) oper" where
  "CancelStockTransferUseCase item_uuid uuid now trepo irepo prepo lrepo transferId actorId tenantId =
     op_bind (load_transfer trepo transferId) (\<lambda>t0.
     case tr_cancel now t0 of
       (Inl e, t) \<Rightarrow> op_throw e
     | (Inr _, t) \<Rightarrow>
         op_seq (if tr_status t0 = Dispatched
           then op_bind (op_lift (line_skus prepo t)) (\<lambda>(skus, skuList).
                op_bind (load_side irepo skuList (tr_source t)) (\<lambda>src.
                op_bind (load_side irepo skuList (tr_destination t)) (\<lambda>dst.
                run_lines uuid now irepo prepo lrepo \<lparr>ctx_tenant = Some tenantId, ctx_actor = Some actorId\<rparr>
                  (op_each (cancel_line item_uuid t skus) (enumerate 0 (tr_items t))) src dst)))
           else op_return ())
         (op_seq (on_transfers (save_transfer trepo t)) (op_return (transfer_toDTO t))))"


section \<open>The life of a document\<close>

datatype transfer_call = CallTransferDispatch time | CallTransferReceive time | CallTransferCancel time | CallTransferPull

fun transfer_exec :: "transfer_call \<Rightarrow> (stock_transfer, unit) oper" where
  "transfer_exec (CallTransferDispatch now) = tr_dispatch now"
| "transfer_exec (CallTransferReceive now) = tr_receive now"
| "transfer_exec (CallTransferCancel now) = tr_cancel now"
| "transfer_exec CallTransferPull = op_bind tr_pullDomainEvents (\<lambda>_. op_return ())"

definition transfer_ok :: "stock_transfer \<Rightarrow> bool" where
  "transfer_ok t \<longleftrightarrow> (case tr_status t of
     Draft \<Rightarrow> tr_dispatchedAt t = None \<and> tr_receivedAt t = None
   | Dispatched \<Rightarrow> tr_dispatchedAt t \<noteq> None \<and> tr_receivedAt t = None
   | Received \<Rightarrow> tr_dispatchedAt t \<noteq> None \<and> tr_receivedAt t \<noteq> None
   | Cancelled \<Rightarrow> tr_receivedAt t = None)"

lemmas transfer_op_defs [model_defs] = tr_dispatch_def tr_receive_def tr_cancel_def tr_pullDomainEvents_def

lemma transfer_exec_ok: "keeps (\<lambda>t. transfer_ok t \<and> tr_items t = its) (transfer_exec c)"
  by (cases c) (auto simp: keeps_def transfer_op_defs oper_simps transfer_ok_def split: transfer_status.splits)

lemma transfer_exec_final:
  "tr_status t = Received \<or> tr_status t = Cancelled \<Longrightarrow> tr_status (snd (transfer_exec c t)) = tr_status t"
  by (cases c) (auto simp: transfer_op_defs oper_simps)

text \<open>
  The life of a transfer: after any calls on a new transfer, returning or throwing, its
  lines are the ones it was created with, it carries a dispatch time exactly from its dispatch on
  and a receipt time exactly when it was received, so it was dispatched before it was received; and
  a received or cancelled transfer keeps its status.
\<close>

theorem transfer_lifecycle:
  assumes "tr_createNew now i tenant source destination its ref = Inr t0"
    and "t = fold (\<lambda>c t. snd (transfer_exec c t)) cs t0"
  shows "tr_items t = its
    \<and> (tr_receivedAt t \<noteq> None \<longleftrightarrow> tr_status t = Received)
    \<and> (tr_status t = Dispatched \<or> tr_status t = Received \<longrightarrow> tr_dispatchedAt t \<noteq> None)
    \<and> (tr_status t = Draft \<longrightarrow> tr_dispatchedAt t = None)
    \<and> (tr_status t = Received \<or> tr_status t = Cancelled \<longrightarrow>
        tr_status (fold (\<lambda>c t. snd (transfer_exec c t)) ds t) = tr_status t)"
proof -
  have start: "transfer_ok t0 \<and> tr_items t0 = its"
    using assms(1) by (auto simp: tr_createNew_def StockTransfer_def transfer_ok_def split: if_splits)
  have ok: "transfer_ok t" "tr_items t = its"
    using keeps_fold [where cs = cs, OF transfer_exec_ok start] unfolding assms(2) by auto
  have final: "tr_status (fold (\<lambda>c t. snd (transfer_exec c t)) ds x) = tr_status x"
    if "tr_status x = Received \<or> tr_status x = Cancelled" for x
    using that by (induction ds arbitrary: x) (use transfer_exec_final in \<open>fastforce+\<close>)
  show ?thesis using ok final [of t] by (auto simp: transfer_ok_def split: transfer_status.splits)
qed

definition sample_transfer :: stock_transfer where
  "sample_transfer = projr (tr_createNew 1 ''x1'' ''t1'' ''loc-1'' ''loc-2'' [(''v1'', 4)] None)"

theorem transfer_lifecycle_witness:
  "tr_status (fold (\<lambda>c t. snd (transfer_exec c t)) [CallTransferDispatch 2, CallTransferReceive 3] sample_transfer) = Received
   \<and> tr_dispatchedAt (fold (\<lambda>c t. snd (transfer_exec c t)) [CallTransferDispatch 2, CallTransferReceive 3] sample_transfer) \<noteq> None"
proof -
  have new: "tr_createNew 1 ''x1'' ''t1'' ''loc-1'' ''loc-2'' [(''v1'', 4)] None = Inr sample_transfer"
    by (simp add: sample_transfer_def tr_createNew_def StockTransfer_def)
  have "tr_status (fold (\<lambda>c t. snd (transfer_exec c t)) [CallTransferDispatch 2, CallTransferReceive 3] sample_transfer) = Received"
    by (simp add: sample_transfer_def tr_createNew_def StockTransfer_def transfer_op_defs oper_simps)
  with transfer_lifecycle [OF new refl, of "[CallTransferDispatch 2, CallTransferReceive 3]"] show ?thesis by blast
qed

section \<open>What the lines do\<close>

definition total_of :: "(inventory_item \<Rightarrow> number) \<Rightarrow> (string, inventory_item) js_map \<Rightarrow> number" where
  "total_of f m = (\<Sum>(k, i)\<leftarrow>m. f i)"

abbreviation on_hand_of :: "(string, inventory_item) js_map \<Rightarrow> number" where
  "on_hand_of \<equiv> total_of (\<lambda>i. amount (on_hand i))"

abbreviation in_transit_of :: "(string, inventory_item) js_map \<Rightarrow> number" where
  "in_transit_of \<equiv> total_of (\<lambda>i. amount (inTransit i))"

lemma total_of_update:
  "distinct (map fst m) \<Longrightarrow> total_of f (AList.update k i m) =
     total_of f m + f i - (case map_of m k of None \<Rightarrow> 0 | Some old \<Rightarrow> f old)"
proof (induction m)
  case Nil
  then show ?case by (simp add: total_of_def)
next
  case (Cons p m)
  obtain k' j where p: "p = (k', j)" by fastforce
  have "k' \<notin> fst ` set m \<Longrightarrow> map_of m k' = None" by (simp add: map_of_eq_None_iff)
  with Cons p show ?case by (auto simp: total_of_def split: option.splits)
qed

lemma distinct_js_set: "distinct (map fst m) \<Longrightarrow> distinct (map fst (AList.update k v m))"
  by (rule distinct_update)

definition keys_ok :: "transfer_work \<Rightarrow> bool" where
  "keys_ok w \<longleftrightarrow> distinct (map fst (src_items w)) \<and> distinct (map fst (dst_items w))"

definition posted_total :: "transfer_work \<Rightarrow> number" where
  "posted_total w = (\<Sum>d\<leftarrow>postings w. po_quantity d)"

lemma call_item_returns:
  assumes "call_item source key change i w = (Inr (), w')"
  obtains i' where "change i = (Inr (), i')"
    and "w' = (if source then w\<lparr>src_items := AList.update key i' (src_items w)\<rparr>
      else w\<lparr>dst_items := AList.update key i' (dst_items w)\<rparr>)\<lparr>touched := set_add (source, key) (touched w)\<rparr>"
  using assms by (cases "change i") (auto simp: call_item_def oper_simps split: sum.splits if_splits)

lemma item_calls_return:
  "dispatchStock now (q_each q) i = (Inr (), i') \<Longrightarrow> amount (on_hand i') = amount (on_hand i) - q \<and> inTransit i' = inTransit i"
  "receiveStock (q_each q) i = (Inr (), i') \<Longrightarrow> amount (on_hand i') = amount (on_hand i) + q \<and> inTransit i' = inTransit i"
  "createInTransit (q_each q) i = (Inr (), i') \<Longrightarrow> amount (inTransit i') = amount (inTransit i) + q \<and> on_hand i' = on_hand i"
  "receiveInTransit (q_each q) i = (Inr (), i') \<Longrightarrow>
     amount (inTransit i') = amount (inTransit i) - q \<and> amount (on_hand i') = amount (on_hand i) + q"
  by (auto simp: inventory_op_defs oper_simps q_add_Inr_iff q_subtract_Inr_iff split: sum.splits if_splits)

lemma Quantity_InrD: "Quantity q each = Inr a \<Longrightarrow> a = q_each q"
  by (auto simp: Quantity_Inr_iff q_each_def)

lemma createNew_empty: "inventory_createNew u sku loc = Inr i \<Longrightarrow> amount (inTransit i) = 0 \<and> amount (on_hand i) = 0"
  by (auto simp: inventory_createNew_def result_bind_Inr_iff InventoryItem_def Quantity_Inr_iff)


lemma dispatch_line_returns:
  assumes "keys_ok w" and "dispatch_line uuid now t skus (n, v, q) w = (Inr (), w')"
  shows "keys_ok w' \<and> on_hand_of (src_items w') = on_hand_of (src_items w) - q
    \<and> in_transit_of (dst_items w') = in_transit_of (dst_items w) + q
    \<and> posted_total w' = posted_total w - q"
proof -
  let ?sku = "the (map_of skus v)"
  let ?sk = "item_key ?sku (tr_source t)" and ?dk = "item_key ?sku (tr_destination t)"
  obtain i where i: "map_of (src_items w) ?sk = Some i"
    using assms(2) by (auto simp: dispatch_line_def oper_simps Let_def split: option.splits)
  obtain a where a: "Quantity q each = Inr a"
    using assms(2) i by (auto simp: dispatch_line_def oper_simps Let_def split: sum.splits)
  note a' = Quantity_InrD [OF a]
  obtain i' where i': "dispatchStock now (q_each q) i = (Inr (), i')"
    using assms(2) i a a' by (cases "dispatchStock now (q_each q) i")
      (auto simp: dispatch_line_def oper_simps Let_def call_item_def split: sum.splits)
  obtain d where d: "(case map_of (dst_items w) ?dk of Some i \<Rightarrow> Inr i
      | None \<Rightarrow> inventory_createNew (uuid n) ?sku (tr_destination t)) = Inr d"
    using assms(2) i a a' i' by (auto simp: dispatch_line_def oper_simps Let_def call_item_def post_def split: sum.splits)
  obtain d' where d': "createInTransit (q_each q) d = (Inr (), d')"
    using assms(2) i a a' i' d by (cases "createInTransit (q_each q) d")
      (auto simp: dispatch_line_def oper_simps Let_def call_item_def post_def split: sum.splits)
  have w': "src_items w' = AList.update ?sk i' (src_items w)"
      "dst_items w' = AList.update ?dk d' (AList.update ?dk d (dst_items w))"
      "postings w' = postings w @ [\<lparr>po_sku = ?sku, po_location = tr_source t, po_quantity = - q\<rparr>]"
    using assms(2) i a a' i' d d' by (auto simp: dispatch_line_def oper_simps Let_def call_item_def post_def)
  have old: "(case map_of (dst_items w) ?dk of None \<Rightarrow> 0 | Some o' \<Rightarrow> amount (inTransit o')) = amount (inTransit d)"
    using d createNew_empty by (auto split: option.splits)
  show ?thesis
    using assms(1) i item_calls_return(1) [OF i'] item_calls_return(3) [OF d'] old
    by (simp add: w' keys_ok_def posted_total_def total_of_update distinct_js_set)
qed

lemma receive_line_returns:
  assumes "keys_ok w" and "receive_line t skus (v, q) w = (Inr (), w')"
  shows "keys_ok w' \<and> on_hand_of (dst_items w') = on_hand_of (dst_items w) + q
    \<and> in_transit_of (dst_items w') = in_transit_of (dst_items w) - q
    \<and> posted_total w' = posted_total w + q"
proof -
  let ?sku = "the (map_of skus v)"
  let ?dk = "item_key ?sku (tr_destination t)"
  obtain i where i: "map_of (dst_items w) ?dk = Some i"
    using assms(2) by (auto simp: receive_line_def oper_simps Let_def split: option.splits)
  obtain a where a: "Quantity q each = Inr a"
    using assms(2) i by (auto simp: receive_line_def oper_simps Let_def split: sum.splits)
  note a' = Quantity_InrD [OF a]
  obtain i' where i': "receiveInTransit (q_each q) i = (Inr (), i')"
    using assms(2) i a a' by (cases "receiveInTransit (q_each q) i")
      (auto simp: receive_line_def oper_simps Let_def call_item_def split: sum.splits)
  have w': "src_items w' = src_items w" "dst_items w' = AList.update ?dk i' (dst_items w)"
      "postings w' = postings w @ [\<lparr>po_sku = ?sku, po_location = tr_destination t, po_quantity = q\<rparr>]"
    using assms(2) i a a' i' by (auto simp: receive_line_def oper_simps Let_def call_item_def post_def)
  show ?thesis
    using assms(1) i item_calls_return(4) [OF i']
    by (simp add: w' keys_ok_def posted_total_def total_of_update distinct_js_set)
qed

definition lines_total :: "transfer_item list \<Rightarrow> number" where
  "lines_total its = (\<Sum>(v, q)\<leftarrow>its. q)"

lemma op_each_step:
  assumes "op_each f (x # xs) w = (Inr (), w')"
  obtains w1 where "f x w = (Inr (), w1)" and "op_each f xs w1 = (Inr (), w')"
  using assms by (cases "f x w") (auto simp: oper_simps split: sum.splits)

lemma dispatch_lines_return:
  assumes "keys_ok w" and "op_each (dispatch_line uuid now t skus) (enumerate n its) w = (Inr (), w')"
  shows "keys_ok w' \<and> on_hand_of (src_items w') = on_hand_of (src_items w) - lines_total its
    \<and> in_transit_of (dst_items w') = in_transit_of (dst_items w) + lines_total its
    \<and> posted_total w' = posted_total w - lines_total its"
  using assms
proof (induction its arbitrary: n w)
  case Nil
  then show ?case by (simp add: oper_simps lines_total_def)
next
  case (Cons p its)
  obtain v q where p: "p = (v, q)" by fastforce
  have "op_each (dispatch_line uuid now t skus) ((n, v, q) # enumerate (Suc n) its) w = (Inr (), w')"
    using Cons.prems(2) by (simp add: p)
  then obtain w1 where w1: "dispatch_line uuid now t skus (n, v, q) w = (Inr (), w1)"
      "op_each (dispatch_line uuid now t skus) (enumerate (Suc n) its) w1 = (Inr (), w')"
    by (rule op_each_step)
  note one = dispatch_line_returns [OF Cons.prems(1) w1(1)]
  with Cons.IH [OF conjunct1 [OF one] w1(2)] show ?case by (simp add: p lines_total_def)
qed

lemma receive_lines_return:
  assumes "keys_ok w" and "op_each (receive_line t skus) its w = (Inr (), w')"
  shows "keys_ok w' \<and> on_hand_of (dst_items w') = on_hand_of (dst_items w) + lines_total its
    \<and> in_transit_of (dst_items w') = in_transit_of (dst_items w) - lines_total its
    \<and> posted_total w' = posted_total w + lines_total its"
  using assms
proof (induction its arbitrary: w)
  case Nil
  then show ?case by (simp add: oper_simps lines_total_def)
next
  case (Cons p its)
  obtain v q where p: "p = (v, q)" by fastforce
  from Cons.prems(2) obtain w1 where w1: "receive_line t skus (v, q) w = (Inr (), w1)"
      "op_each (receive_line t skus) its w1 = (Inr (), w')"
    unfolding p by (rule op_each_step)
  note one = receive_line_returns [OF Cons.prems(1) w1(1)]
  with Cons.IH [OF conjunct1 [OF one] w1(2)] show ?case by (simp add: p lines_total_def)
qed


definition sample_work :: transfer_work where
  "sample_work = \<lparr>src_items = [(''WIDGET-1_loc-1'', sample_item)], dst_items = [], touched = [], postings = []\<rparr>"



section \<open>A variant on two lines\<close>

text \<open>How often the lines touch a source key, and what that does to the version of its item.\<close>

definition line_count :: "stock_transfer \<Rightarrow> (string, string) js_map \<Rightarrow> transfer_item list \<Rightarrow> string \<Rightarrow> nat" where
  "line_count t skus its k = length (filter (\<lambda>(v, q). item_key (the (map_of skus v)) (tr_source t) = k) its)"

definition from_uuid :: "(nat \<Rightarrow> string) \<Rightarrow> transfer_work \<Rightarrow> transfer_work \<Rightarrow> bool" where
  "from_uuid uuid w w' \<longleftrightarrow> (\<forall>k i. map_of (dst_items w') k = Some i \<longrightarrow>
     (\<exists>n. iid i = uuid n) \<or> (\<exists>k j. map_of (dst_items w) k = Some j \<and> iid j = iid i))"

lemma dispatch_line_cases:
  assumes "dispatch_line uuid now t skus (n, v, q) w = (Inr (), w')"
  obtains i i' d d' where
    "map_of (src_items w) (item_key (the (map_of skus v)) (tr_source t)) = Some i"
    and "iid i' = iid i" and "iversion i' = iversion i + 1"
    and "src_items w' = AList.update (item_key (the (map_of skus v)) (tr_source t)) i' (src_items w)"
    and "dst_items w' = AList.update (item_key (the (map_of skus v)) (tr_destination t)) d'
      (AList.update (item_key (the (map_of skus v)) (tr_destination t)) d (dst_items w))"
    and "iid d' = iid d"
    and "iid d = uuid n \<or> map_of (dst_items w) (item_key (the (map_of skus v)) (tr_destination t)) = Some d"
    and "(True, item_key (the (map_of skus v)) (tr_source t)) \<in> set (touched w')"
    and "set (touched w) \<subseteq> set (touched w')"
proof -
  let ?sku = "the (map_of skus v)"
  let ?sk = "item_key ?sku (tr_source t)" and ?dk = "item_key ?sku (tr_destination t)"
  obtain i where i: "map_of (src_items w) ?sk = Some i"
    using assms by (auto simp: dispatch_line_def oper_simps Let_def split: option.splits)
  obtain a where a: "Quantity q each = Inr a"
    using assms i by (auto simp: dispatch_line_def oper_simps Let_def split: sum.splits)
  obtain i' where i': "dispatchStock now a i = (Inr (), i')"
    using assms i a by (cases "dispatchStock now a i")
      (auto simp: dispatch_line_def oper_simps Let_def call_item_def split: sum.splits)
  obtain d where d: "(case map_of (dst_items w) ?dk of Some i \<Rightarrow> Inr i
      | None \<Rightarrow> inventory_createNew (uuid n) ?sku (tr_destination t)) = Inr d"
    using assms i a i' by (auto simp: dispatch_line_def oper_simps Let_def call_item_def post_def split: sum.splits)
  obtain d' where d': "createInTransit a d = (Inr (), d')"
    using assms i a i' d by (cases "createInTransit a d")
      (auto simp: dispatch_line_def oper_simps Let_def call_item_def post_def split: sum.splits)
  have w': "src_items w' = AList.update ?sk i' (src_items w)"
      "dst_items w' = AList.update ?dk d' (AList.update ?dk d (dst_items w))"
      "touched w' = set_add (False, ?dk) (set_add (True, ?sk) (touched w))"
    using assms i a i' d d' by (auto simp: dispatch_line_def oper_simps Let_def call_item_def post_def)
  have "iid i' = iid i" "iversion i' = iversion i + 1"
    using exec_identity [of "Dispatch now a" i "Inr ()" i'] inventory_exec_counts [of "Dispatch now a" i] i' by auto
  moreover have "iid d' = iid d"
    using exec_identity [of "CreateInTransit a" d "Inr ()" d'] d' by simp
  moreover have "iid d = uuid n \<or> map_of (dst_items w) ?dk = Some d"
    using d by (auto simp: inventory_createNew_def result_bind_Inr_iff InventoryItem_def InventoryItemId_def
        make_id_def split: option.splits if_splits)
  moreover have "(True, ?sk) \<in> set (touched w')" "set (touched w) \<subseteq> set (touched w')"
    by (auto simp: w'(3) set_add_def)
  ultimately show thesis using that i w'(1,2) by blast
qed

definition lines_effect ::
    "(nat \<Rightarrow> string) \<Rightarrow> stock_transfer \<Rightarrow> (string, string) js_map \<Rightarrow> transfer_item list
     \<Rightarrow> transfer_work \<Rightarrow> transfer_work \<Rightarrow> bool" where
  "lines_effect uuid t skus its w w' \<longleftrightarrow>
     (\<forall>k i. map_of (src_items w) k = Some i \<longrightarrow> (\<exists>i'. map_of (src_items w') k = Some i' \<and> iid i' = iid i
        \<and> iversion i' = iversion i + int (line_count t skus its k)))
     \<and> (\<forall>k. 0 < line_count t skus its k \<longrightarrow> map_of (src_items w) k \<noteq> None \<and> (True, k) \<in> set (touched w'))
     \<and> (\<forall>k i'. map_of (src_items w') k = Some i' \<longrightarrow> (\<exists>i. map_of (src_items w) k = Some i \<and> iid i = iid i'))
     \<and> from_uuid uuid w w' \<and> set (touched w) \<subseteq> set (touched w')"

lemma dispatch_line_effect:
  assumes "dispatch_line uuid now t skus (n, v, q) w = (Inr (), w')"
  shows "lines_effect uuid t skus [(v, q)] w w'"
proof -
  let ?sk = "item_key (the (map_of skus v)) (tr_source t)"
  let ?dk = "item_key (the (map_of skus v)) (tr_destination t)"
  obtain s s1 d d1 where s: "map_of (src_items w) ?sk = Some s" "iid s1 = iid s" "iversion s1 = iversion s + 1"
      "src_items w' = AList.update ?sk s1 (src_items w)"
      and d: "dst_items w' = AList.update ?dk d1 (AList.update ?dk d (dst_items w))" "iid d1 = iid d"
      "iid d = uuid n \<or> map_of (dst_items w) ?dk = Some d"
      and tch: "(True, ?sk) \<in> set (touched w')" "set (touched w) \<subseteq> set (touched w')"
    by (rule dispatch_line_cases [OF assms])
  have "from_uuid uuid w w'" using d unfolding from_uuid_def by auto
  with s tch show ?thesis by (auto simp: lines_effect_def line_count_def)
qed

lemma lines_effect_trans:
  assumes one: "lines_effect uuid t skus [p] w w1" and rest: "lines_effect uuid t skus its w1 w'"
  shows "lines_effect uuid t skus (p # its) w w'"
proof -
  have count: "line_count t skus (p # its) k = line_count t skus [p] k + line_count t skus its k" for k
    by (simp add: line_count_def)
  have versions: "\<exists>i'. map_of (src_items w') k = Some i' \<and> iid i' = iid i
      \<and> iversion i' = iversion i + int (line_count t skus (p # its) k)" if i: "map_of (src_items w) k = Some i" for k i
  proof -
    obtain i1 where i1: "map_of (src_items w1) k = Some i1" "iid i1 = iid i" "iversion i1 = iversion i + int (line_count t skus [p] k)"
      using one i unfolding lines_effect_def by blast
    moreover obtain i2 where "map_of (src_items w') k = Some i2" "iid i2 = iid i1" "iversion i2 = iversion i1 + int (line_count t skus its k)"
      using rest i1(1) unfolding lines_effect_def by blast
    ultimately show ?thesis by (simp add: count)
  qed
  have touched: "map_of (src_items w) k \<noteq> None \<and> (True, k) \<in> set (touched w')" if "0 < line_count t skus (p # its) k" for k
  proof (cases "0 < line_count t skus [p] k")
    case True
    with one rest show ?thesis unfolding lines_effect_def by blast
  next
    case False
    with that have "0 < line_count t skus its k" by (simp add: count)
    with rest have k: "map_of (src_items w1) k \<noteq> None" "(True, k) \<in> set (touched w')"
      unfolding lines_effect_def by blast+
    then obtain i1 where "map_of (src_items w1) k = Some i1" by blast
    with one have "map_of (src_items w) k \<noteq> None" unfolding lines_effect_def by blast
    with k show ?thesis by blast
  qed
  have before: "\<exists>i. map_of (src_items w) k = Some i \<and> iid i = iid i'" if "map_of (src_items w') k = Some i'" for k i'
    using one rest that unfolding lines_effect_def by metis
  have "from_uuid uuid w w'" using one rest unfolding lines_effect_def from_uuid_def by metis
  moreover have "set (touched w) \<subseteq> set (touched w')" using one rest unfolding lines_effect_def by blast
  ultimately show ?thesis using versions touched before unfolding lines_effect_def by blast
qed

lemma dispatch_lines_effect:
  assumes "op_each (dispatch_line uuid now t skus) (enumerate n its) w = (Inr (), w')"
  shows "lines_effect uuid t skus its w w'"
  using assms
proof (induction its arbitrary: n w)
  case Nil
  then show ?case by (auto simp: oper_simps lines_effect_def line_count_def from_uuid_def)
next
  case (Cons p its)
  obtain v q where p: "p = (v, q)" by fastforce
  have "op_each (dispatch_line uuid now t skus) ((n, v, q) # enumerate (Suc n) its) w = (Inr (), w')"
    using Cons.prems by (simp add: p)
  then obtain w1 where "dispatch_line uuid now t skus (n, v, q) w = (Inr (), w1)"
      "op_each (dispatch_line uuid now t skus) (enumerate (Suc n) its) w1 = (Inr (), w')"
    by (rule op_each_step)
  with Cons.IH dispatch_line_effect lines_effect_trans show ?case unfolding p by blast
qed

lemma repeated_line_count:
  assumes "\<not> distinct (map fst its)"
  obtains v where "2 \<le> line_count t skus its (item_key (the (map_of skus v)) (tr_source t))"
proof -
  obtain xs ys zs v where v: "map fst its = xs @ [v] @ ys @ [v] @ zs"
    using not_distinct_decomp [OF assms] by blast
  let ?P = "\<lambda>u. item_key (the (map_of skus u)) (tr_source t) = item_key (the (map_of skus v)) (tr_source t)"
  have "line_count t skus its (item_key (the (map_of skus v)) (tr_source t)) = length (filter ?P (map fst its))"
    by (simp add: line_count_def filter_map comp_def case_prod_unfold)
  also have "2 \<le> length (filter ?P (map fst its))" unfolding v by simp
  finally show thesis by (rule that)
qed

text \<open>The batch of a dispatch with a repeated variant is refused by the database.\<close>

lemma items_by_key_mem:
  "map_of (items_by_key is) k = Some i \<Longrightarrow> i \<in> set is \<and> item_key (isku i) (ilocationId i) = k"
  unfolding items_by_key_def using fold_by_key_mem [of "\<lambda>i. item_key (isku i) (ilocationId i)" "is" "[]" k i] by simp

lemma repeated_batch_refused:
  assumes "pi_inv s" and "tr_source t \<noteq> tr_destination t" and "\<forall>n. pi_row s (uuid n) = None"
    and src: "\<And>k i. map_of src k = Some i \<Longrightarrow> pi_row s (iid i) = Some i \<and> ilocationId i = tr_source t
      \<and> item_key (isku i) (tr_source t) = k"
    and dst: "\<And>k i. map_of dst k = Some i \<Longrightarrow> pi_row s (iid i) = Some i \<and> ilocationId i = tr_destination t"
    and effect: "lines_effect uuid t skus its \<lparr>src_items = src, dst_items = dst, touched = [], postings = []\<rparr> w'"
    and repeated: "\<not> distinct (map fst its)"
  shows "\<exists>e. pi_saveBatch (items_to_save w') s = (Inl e, s)"
proof -
  obtain v where v: "2 \<le> line_count t skus its (item_key (the (map_of skus v)) (tr_source t))"
    by (rule repeated_line_count [OF repeated])
  let ?k = "item_key (the (map_of skus v)) (tr_source t)"
  obtain i where i: "map_of src ?k = Some i" and touched: "(True, ?k) \<in> set (touched w')"
    using effect v unfolding lines_effect_def by fastforce
  obtain i' where i': "map_of (src_items w') ?k = Some i'" "iid i' = iid i"
      "iversion i' = iversion i + int (line_count t skus its ?k)"
    using effect i unfolding lines_effect_def by fastforce
  have row: "pi_row s (iid i') = Some i" using src [OF i] i'(2) by simp
  show ?thesis
  proof (rule pi_saveBatch_stale [of i'])
    show "i' \<in> set (items_to_save w')"
      using touched i'(1) by (force simp: items_to_save_def map_filter_def)
    show "iid i' \<in> set (map row_id (rows s))"
      using row by (auto simp: pi_row_def dest!: find_SomeD intro!: image_eqI)
    show "row_version r \<noteq> iversion i' - 1" if "r \<in> set (rows s)" "row_id r = iid i'" for r
    proof -
      have "find (\<lambda>x. row_id x = row_id r) (rows s) = Some r"
        using that(1) assms(1) by (intro find_by_key) (auto simp: pi_inv_def)
      with row that(2) have "row_item r = i" by (simp add: pi_row_def)
      then have "row_version r = iversion i" by (metis row_item_sel(4))
      with i'(3) v show ?thesis by simp
    qed
    show "j = i'" if j: "j \<in> set (items_to_save w')" "iid j = iid i'" for j
    proof -
      obtain side k where k: "map_of (if side then src_items w' else dst_items w') k = Some j"
        using j(1) by (auto simp: items_to_save_def map_filter_def split: if_splits)
      show ?thesis
      proof (cases side)
        case True
        then obtain i2 where i2: "map_of src k = Some i2" "iid i2 = iid j"
          using effect k unfolding lines_effect_def by fastforce
        then have "i2 = i" using src [OF i2(1)] row j(2) by simp
        with src [OF i2(1)] src [OF i] have "k = ?k" by simp
        with True k i'(1) show ?thesis by simp
      next
        case False
        then have "map_of (dst_items w') k = Some j" using k by simp
        moreover have "from_uuid uuid \<lparr>src_items = src, dst_items = dst, touched = [], postings = []\<rparr> w'"
          using effect unfolding lines_effect_def by blast
        ultimately have "(\<exists>n. iid j = uuid n) \<or> (\<exists>k d. map_of dst k = Some d \<and> iid d = iid j)"
          unfolding from_uuid_def by simp
        then consider n where "iid j = uuid n" | k d where "map_of dst k = Some d" "iid d = iid j" by blast
        then show ?thesis
        proof cases
          case 1
          with assms(3) row j(2) show ?thesis by (metis option.distinct(1))
        next
          case 2
          with dst [OF 2(1)] src [OF i] row j(2) assms(2) show ?thesis by simp
        qed
      qed
    qed
  qed
qed


lemma load_side_pg:
  assumes "pi_inv (tw_items w)" and "load_side pg_inventory skuList loc w = (Inr m, w')"
  shows "w' = w \<and> (\<forall>k i. map_of m k = Some i \<longrightarrow> pi_row (tw_items w) (iid i) = Some i
    \<and> ilocationId i = loc \<and> item_key (isku i) loc = k)"
proof -
  have pg: "findBySkuAndLocationBatch pg_inventory = pi_findBySkuAndLocationBatch" by (simp add: pg_inventory_def)
  obtain "is" where found: "pi_findBySkuAndLocationBatch (tw_items w) (map (\<lambda>sku. (sku, loc)) skuList) = Inr is"
      and m: "m = items_by_key is" "w' = w"
    using assms(2) unfolding load_side_def op_get_eval op_lift_eval pg prod.inject result_bind_Inr_iff sum.inject
    by blast
  have "pi_row (tw_items w) (iid i) = Some i \<and> ilocationId i = loc \<and> item_key (isku i) loc = k" if "map_of m k = Some i" for k i
  proof -
    have i: "i \<in> set is" "item_key (isku i) (ilocationId i) = k"
      using items_by_key_mem that m(1) by blast+
    with pi_batch_found [OF assms(1) found i(1)] show ?thesis by auto
  qed
  with m(2) show ?thesis by blast
qed

lemma load_transfer_same:
  "load_transfer trepo transferId w = (r, w') \<Longrightarrow> w' = w"
  by (auto simp: load_transfer_def oper_simps split: sum.splits option.splits)

lemma load_side_same: "load_side irepo skuList loc w = (r, w') \<Longrightarrow> w' = w"
  by (auto simp: load_side_def oper_simps)

text \<open>
  A transfer that lists a variant on two lines can never be dispatched from the database:
  the second line raises the version of the same source item again, the batch is refused by the
  optimistic lock, and the use case throws with the items, the ledger and the transfers as before.
\<close>

theorem repeated_variant_never_dispatched:
  assumes "pi_inv (tw_items w)" and "\<forall>n. pi_row (tw_items w) (item_uuid n) = None"
    and "load_transfer mem_transfers transferId w = (Inr t, w)"
    and "tr_source t \<noteq> tr_destination t" and "\<not> distinct (map fst (tr_items t))"
  shows "\<exists>e. DispatchStockTransferUseCase item_uuid uuid now mem_transfers pg_inventory prepo lrepo
    transferId actorId tenantId w = (Inl e, w)"
proof (cases "tr_dispatch now t")
  case (Pair r t1)
  show ?thesis
  proof (cases r)
    case (Inl e)
    with Pair assms(3) show ?thesis by (simp add: DispatchStockTransferUseCase_def oper_simps)
  next
    case (Inr u)
    with Pair have t1: "tr_source t1 = tr_source t" "tr_destination t1 = tr_destination t" "tr_items t1 = tr_items t"
      by (auto simp: tr_dispatch_def oper_simps split: if_splits)
    show ?thesis
    proof (cases "line_skus prepo t1")
      case (Inl e)
      with Pair Inr assms(3) show ?thesis by (simp add: DispatchStockTransferUseCase_def oper_simps)
    next
      case skus: (Inr p)
      obtain skus skuList where p: "p = (skus, skuList)" by fastforce
      obtain rs rd where side: "load_side pg_inventory skuList (tr_source t1) w = (rs, w)"
          "load_side pg_inventory skuList (tr_destination t1) w = (rd, w)"
        using load_side_same by (metis surj_pair)
      show ?thesis
      proof (cases "isl rs \<or> isl rd")
        case True
        with Pair Inr assms(3) skus p side show ?thesis
          by (cases rs) (auto simp: DispatchStockTransferUseCase_def oper_simps isl_def)
      next
        case False
        then obtain src dst where sd: "rs = Inr src" "rd = Inr dst" by (metis isl_def sum.exhaust)
        let ?w0 = "\<lparr>src_items = src, dst_items = dst, touched = [], postings = []\<rparr>"
        let ?lines = "op_each (dispatch_line item_uuid now t1 skus) (enumerate 0 (tr_items t1))"
        have "\<exists>e. run_lines uuid now pg_inventory prepo lrepo \<lparr>ctx_tenant = Some tenantId, ctx_actor = Some actorId\<rparr>
            ?lines src dst w = (Inl e, w)"
        proof (cases "?lines ?w0")
          case lines: (Pair l w')
          show ?thesis
          proof (cases l)
            case (Inl e)
            with lines show ?thesis by (simp add: run_lines_def oper_simps)
          next
            case (Inr u)
            have "\<exists>e. pi_saveBatch (items_to_save w') (tw_items w) = (Inl e, tw_items w)"
              by (rule repeated_batch_refused [OF assms(1) _ assms(2) _ _ dispatch_lines_effect])
                 (use lines Inr t1 assms(4,5) load_side_pg [OF assms(1) side(1) [unfolded sd]]
                   load_side_pg [OF assms(1) side(2) [unfolded sd]] in \<open>auto simp: t1\<close>)
            with lines Inr show ?thesis by (auto simp: run_lines_def oper_simps pg_inventory_def)
          qed
        qed
        with Pair Inr assms(3) skus p side sd show ?thesis
          by (auto simp: DispatchStockTransferUseCase_def oper_simps)
      qed
    qed
  qed
qed

definition doubled_transfer :: stock_transfer where
  "doubled_transfer = projr (tr_reconstruct ''x1'' ''t1'' ''loc-1'' ''loc-2'' [(''v1'', 2), (''v1'', 3)] Draft None None None 1)"

theorem repeated_variant_never_dispatched_witness:
  "\<exists>e. DispatchStockTransferUseCase (\<lambda>n. ''i9'') sample_uuid 2 mem_transfers pg_inventory
     (mem_products [(''p1'', Product ''p1'' ''Widget'' (Some [(''v1'', ProductVariant ''v1'' ''p1'' ''WIDGET-1'' [] TrackQuantity)]))])
     mem_ledger ''x1'' ''a1'' ''t1''
     \<lparr>tw_transfers = [(''x1'', doubled_transfer)], tw_items = sample_db, tw_ledger = []\<rparr>
   = (Inl e, \<lparr>tw_transfers = [(''x1'', doubled_transfer)], tw_items = sample_db, tw_ledger = []\<rparr>)"
proof (rule repeated_variant_never_dispatched [where t = doubled_transfer])
  let ?w = "\<lparr>tw_transfers = [(''x1'', doubled_transfer)], tw_items = sample_db, tw_ledger = []\<rparr>"
  show "pi_inv (tw_items ?w)" using sample_db_inv by simp
  show "\<forall>n. pi_row (tw_items ?w) ''i9'' = None"
    by (simp add: pi_row_def sample_db_def sample_row_def sample_item_def InventoryItem_def)
  have d: "doubled_transfer = \<lparr>tr_id = ''x1'', tr_tenant = ''t1'', tr_source = ''loc-1'', tr_destination = ''loc-2'',
      tr_items = [(''v1'', 2), (''v1'', 3)], tr_reference = None, tr_createdAt = 1, tr_status = Draft,
      tr_dispatchedAt = None, tr_receivedAt = None, tr_events = []\<rparr>"
    by (simp add: doubled_transfer_def tr_reconstruct_def StockTransfer_def)
  have "cloneTransfer doubled_transfer = Inr doubled_transfer"
    by (simp add: d cloneTransfer_def StockTransferItem_def StockTransferId_def TenantId_def LocationId_def make_id_def
        is_blank_def trim_def is_space_def tr_reconstruct_def StockTransfer_def)
  then show "load_transfer mem_transfers ''x1'' ?w = (Inr doubled_transfer, ?w)"
    by (simp add: load_transfer_def oper_simps StockTransferId_def make_id_def is_blank_def trim_def is_space_def
        mem_transfers_def mt_findById_def)
  show "tr_source doubled_transfer \<noteq> tr_destination doubled_transfer" "\<not> distinct (map fst (tr_items doubled_transfer))"
    by (simp_all add: d)
qed

end
