(* ===== verification/Replication.thy ===== *)
theory Replication
  imports Prelude
begin

text \<open>
  The replicated stock counter of src/src/domain/crdt/CRDTStockResolver.ts: a PN-counter whose
  records are maps from node to count (\<open>state.increments[nodeId] || 0\<close> is \<open>lookup_or 0\<close>). Node ids
  are taken not to be names of Object.prototype, which \<open>in\<close> would find in every record.
\<close>

section \<open>The counter\<close>

record pn_counter =
  pn_sku :: string
  increments :: "(ident, number) js_map"
  decrements :: "(ident, number) js_map"

definition createStockCounter :: "string \<Rightarrow> pn_counter" where
  "createStockCounter sku = \<lparr>pn_sku = sku, increments = [], decrements = []\<rparr>"

definition pn_increment :: "pn_counter \<Rightarrow> ident \<Rightarrow> number \<Rightarrow> pn_counter" where
  "pn_increment s node a = s\<lparr>increments := AList.update node (lookup_or 0 (increments s) node + a) (increments s)\<rparr>"

definition pn_decrement :: "pn_counter \<Rightarrow> ident \<Rightarrow> number \<Rightarrow> pn_counter" where
  "pn_decrement s node a = s\<lparr>decrements := AList.update node (lookup_or 0 (decrements s) node + a) (decrements s)\<rparr>"

definition total_count :: "(ident, number) js_map \<Rightarrow> number" where
  "total_count m = fold (\<lambda>(k, v) t. t + v) m 0"

definition getValue :: "pn_counter \<Rightarrow> number" where
  "getValue s = max 0 (total_count (increments s) - total_count (decrements s))"

definition merge_counts :: "(ident, number) js_map \<Rightarrow> (ident, number) js_map \<Rightarrow> (ident, number) js_map" where
  "merge_counts a b =
     fold (\<lambda>(node, v) m. if node \<in> fst ` set m then m
        else AList.update node (max (lookup_or 0 a node) (lookup_or 0 b node)) m) b
     (fold (\<lambda>(node, v) m. AList.update node (max (lookup_or 0 a node) (lookup_or 0 b node)) m) a [])"

definition pn_merge :: "pn_counter \<Rightarrow> pn_counter \<Rightarrow> pn_counter" where
  "pn_merge a b = \<lparr>pn_sku = pn_sku a, increments = merge_counts (increments a) (increments b),
     decrements = merge_counts (decrements a) (decrements b)\<rparr>"

section \<open>States that merge by a join\<close>

text \<open>
  The contract of a state-based replicated type: what can be read of a merge is the join of
  what can be read of its arguments, and the join is a semilattice. Then the order and the number
  of times states are merged do not matter.
\<close>

locale replicated_state =
  fixes merge :: "'s \<Rightarrow> 's \<Rightarrow> 's" and look :: "'s \<Rightarrow> 'v" and join :: "'v \<Rightarrow> 'v \<Rightarrow> 'v"
  assumes look_merge: "look (merge a b) = join (look a) (look b)"
    and join_assoc: "join (join x y) z = join x (join y z)"
    and join_comm: "join x y = join y x"
    and join_idem: "join x x = x"
begin

definition below :: "'v \<Rightarrow> 'v \<Rightarrow> bool" where
  "below x y \<longleftrightarrow> join x y = y"

lemma below_antisym: "below x y \<Longrightarrow> below y x \<Longrightarrow> x = y"
  by (metis below_def join_comm)

lemma below_join: "below x (join x y)" "below y (join x y)"
  by (metis below_def join_assoc join_idem, metis below_def join_assoc join_comm join_idem)

lemma below_trans: "below x y \<Longrightarrow> below y z \<Longrightarrow> below x z"
  by (metis below_def join_assoc)

lemma join_least: "below x u \<Longrightarrow> below y u \<Longrightarrow> below (join x y) u"
  by (metis below_def join_assoc)

lemma merged_upper: "x \<in> set (a # xs) \<Longrightarrow> below (look x) (look (fold (\<lambda>b s. merge s b) xs a))"
proof (induction xs arbitrary: a x)
  case Nil
  then show ?case by (simp add: below_def join_idem)
next
  case (Cons b xs)
  have "below (look (merge a b)) (look (fold (\<lambda>b s. merge s b) xs (merge a b)))" by (rule Cons.IH) simp
  then have "below (look a) (look (fold (\<lambda>b s. merge s b) xs (merge a b)))"
    "below (look b) (look (fold (\<lambda>b s. merge s b) xs (merge a b)))"
    unfolding look_merge using below_join below_trans by blast+
  with Cons show ?case by auto
qed

lemma merged_least: "(\<And>x. x \<in> set (a # xs) \<Longrightarrow> below (look x) u) \<Longrightarrow> below (look (fold (\<lambda>b s. merge s b) xs a)) u"
proof (induction xs arbitrary: a)
  case (Cons b xs)
  have "below (look (merge a b)) u" unfolding look_merge using Cons.prems by (intro join_least) auto
  then have "below (look x) u" if "x \<in> set (merge a b # xs)" for x using Cons.prems that by auto
  from Cons.IH [OF this] show ?case by simp
qed simp

lemma merged_same:
  assumes "set (a # xs) = set (b # ys)"
  shows "look (fold (\<lambda>b s. merge s b) xs a) = look (fold (\<lambda>b s. merge s b) ys b)"
  by (intro below_antisym merged_least) (use merged_upper assms in blast)+

end

section \<open>Merging counters\<close>

type_synonym pn_view = "(ident \<Rightarrow> number) \<times> (ident \<Rightarrow> number)"

definition pn_look :: "pn_counter \<Rightarrow> pn_view" where
  "pn_look s = (lookup_or 0 (increments s), lookup_or 0 (decrements s))"

definition pn_join :: "pn_view \<Rightarrow> pn_view \<Rightarrow> pn_view" where
  "pn_join x y = (\<lambda>n. max (fst x n) (fst y n), \<lambda>n. max (snd x n) (snd y n))"

lemma fold_update_all:
  "map_of (fold (\<lambda>(node, v) m. AList.update node (f node) m) a m) n =
     (if n \<in> fst ` set a then Some (f n) else map_of m n)"
  by (induction a arbitrary: m) (auto split: prod.splits)

lemma fold_update_new:
  "map_of (fold (\<lambda>(node, v) m. if node \<in> fst ` set m then m else AList.update node (f node) m) b m) n =
     (if n \<in> fst ` set m then map_of m n else if n \<in> fst ` set b then Some (f n) else None)"
proof (induction b arbitrary: m)
  case Nil
  then show ?case by (auto simp: map_of_eq_None_iff)
next
  case (Cons p b)
  obtain node v where p: "p = (node, v)" by fastforce
  show ?case
  proof (cases "node \<in> fst ` set m")
    case True
    with Cons p show ?thesis by auto
  next
    case False
    with Cons.IH [of "AList.update node (f node) m"] p show ?thesis
      by (auto simp: dom_update)
  qed
qed

lemma lookup_merge_counts: "lookup_or 0 (merge_counts a b) n = max (lookup_or 0 a n) (lookup_or 0 b n)"
proof -
  have keys: "n \<in> fst ` set m \<longleftrightarrow> map_of m n \<noteq> None" for m :: "(ident, number) js_map"
    by (simp add: map_of_eq_None_iff)
  show ?thesis
    by (auto simp: merge_counts_def lookup_or_def fold_update_new fold_update_all keys split: option.splits)
qed

interpretation pn: replicated_state pn_merge pn_look pn_join
  by unfold_locales (auto simp: pn_look_def pn_merge_def pn_join_def lookup_merge_counts fun_eq_iff max.assoc max.commute max.left_commute)

section \<open>Values\<close>

definition pn_ok :: "pn_counter \<Rightarrow> bool" where
  "pn_ok s \<longleftrightarrow> distinct (map fst (increments s)) \<and> distinct (map fst (decrements s))"

lemma total_count_sum:
  assumes "distinct (map fst m)" and "finite A" and "fst ` set m \<subseteq> A"
  shows "total_count m = (\<Sum>n\<in>A. lookup_or 0 m n)"
proof -
  have fold: "fold (\<lambda>(k, v) t. t + v) m t = t + (\<Sum>(k, v)\<leftarrow>m. v)" for t :: number
    by (induction m arbitrary: t) (auto simp: algebra_simps)
  have "(\<Sum>(k, v)\<leftarrow>m. v) = (\<Sum>n\<in>A. lookup_or 0 m n)" using assms
  proof (induction m)
    case Nil
    then show ?case by simp
  next
    case (Cons p m)
    obtain k v where p: "p = (k, v)" by fastforce
    have k: "k \<in> A" "k \<notin> fst ` set m" using Cons.prems p by auto
    then have "map_of m k = None" by (simp add: map_of_eq_None_iff)
    then have "lookup_or 0 m k = 0" by (simp add: lookup_or_def)
    moreover have "(\<Sum>n\<in>A. lookup_or 0 (p # m) n) = (\<Sum>n\<in>A. lookup_or 0 m n) + v - lookup_or 0 m k"
      using sum.remove [OF Cons.prems(2) k(1), of "lookup_or 0 (p # m)"] sum.remove [OF Cons.prems(2) k(1), of "lookup_or 0 m"]
      by (simp add: p lookup_or_def)
    ultimately show ?case using Cons p by simp
  qed
  with fold show ?thesis by (simp add: total_count_def)
qed

lemma getValue_cong:
  assumes "pn_ok s" and "pn_ok t" and "pn_look s = pn_look t"
  shows "getValue s = getValue t"
proof -
  let ?I = "fst ` set (increments s) \<union> fst ` set (increments t)"
  let ?D = "fst ` set (decrements s) \<union> fst ` set (decrements t)"
  have look: "lookup_or 0 (increments s) = lookup_or 0 (increments t)" "lookup_or 0 (decrements s) = lookup_or 0 (decrements t)"
    using assms(3) by (simp_all add: pn_look_def)
  have "total_count (increments s) = total_count (increments t)"
    using assms(1,2) total_count_sum [of "increments s" ?I] total_count_sum [of "increments t" ?I] look
    by (simp add: pn_ok_def)
  moreover have "total_count (decrements s) = total_count (decrements t)"
    using assms(1,2) total_count_sum [of "decrements s" ?D] total_count_sum [of "decrements t" ?D] look
    by (simp add: pn_ok_def)
  ultimately show ?thesis by (simp add: getValue_def)
qed

lemma distinct_fold_updates:
  "distinct (map fst m) \<Longrightarrow> distinct (map fst (fold (\<lambda>(k, v) m. AList.update k (f k) m) a m))"
  "distinct (map fst m) \<Longrightarrow>
    distinct (map fst (fold (\<lambda>(k, v) m. if k \<in> fst ` set m then m else AList.update k (f k) m) a m))"
  by (induction a arbitrary: m) (auto simp: distinct_update split: prod.splits)

lemma pn_ok_merge: "pn_ok (pn_merge a b)"
  by (simp add: pn_ok_def pn_merge_def merge_counts_def distinct_fold_updates)

lemma pn_ok_merges: "pn_ok a \<Longrightarrow> pn_ok (fold (\<lambda>b s. pn_merge s b) xs a)"
  by (induction xs arbitrary: a) (simp_all add: pn_ok_merge)

text \<open>
  C37. Replicas converge: two nodes that have merged the same states, in any order and however
  often, read the same counts for every node and the same stock.
\<close>

theorem replicas_converge:
  assumes "set (a # xs) = set (b # ys)" and "pn_ok a" and "pn_ok b"
  shows "pn_look (fold (\<lambda>b s. pn_merge s b) xs a) = pn_look (fold (\<lambda>b s. pn_merge s b) ys b)
    \<and> getValue (fold (\<lambda>b s. pn_merge s b) xs a) = getValue (fold (\<lambda>b s. pn_merge s b) ys b)"
  using pn.merged_same [OF assms(1)] getValue_cong [OF pn_ok_merges [OF assms(2)] pn_ok_merges [OF assms(3)]] by blast

definition store_a :: pn_counter where
  "store_a = pn_decrement (pn_increment (createStockCounter ''WIDGET'') ''a'' 10) ''a'' 3"

definition store_b :: pn_counter where
  "store_b = pn_increment (createStockCounter ''WIDGET'') ''b'' 4"

lemma stores_ok: "pn_ok store_a" "pn_ok store_b"
  by (simp_all add: store_a_def store_b_def pn_increment_def pn_decrement_def createStockCounter_def pn_ok_def)

theorem replicas_converge_witness:
  "getValue (fold (\<lambda>b s. pn_merge s b) [store_b, store_a, store_b] store_a) = getValue (fold (\<lambda>b s. pn_merge s b) [store_a] store_b)"
  using replicas_converge [of store_a "[store_b, store_a, store_b]" store_b "[store_a]"] stores_ok by auto

section \<open>No update is lost\<close>

datatype local_op = Inc number | Dec number

fun local_run :: "ident \<Rightarrow> local_op \<Rightarrow> pn_counter \<Rightarrow> pn_counter" where
  "local_run node (Inc a) s = pn_increment s node a"
| "local_run node (Dec a) s = pn_decrement s node a"

fun op_amount :: "local_op \<Rightarrow> number" where
  "op_amount (Inc a) = a"
| "op_amount (Dec a) = a"

fun op_delta :: "local_op \<Rightarrow> number" where
  "op_delta (Inc a) = a"
| "op_delta (Dec a) = - a"

definition net :: "pn_counter \<Rightarrow> number" where
  "net s = total_count (increments s) - total_count (decrements s)"

lemma local_run_ok: "pn_ok s \<Longrightarrow> pn_ok (local_run node op s)"
  by (cases op) (simp_all add: pn_ok_def pn_increment_def pn_decrement_def distinct_update)

lemma local_runs_ok: "pn_ok s \<Longrightarrow> pn_ok (fold (local_run node) ops s)"
  by (induction ops arbitrary: s) (simp_all add: local_run_ok)

definition inc_sum :: "local_op list \<Rightarrow> number" where
  "inc_sum ops = (\<Sum>op\<leftarrow>ops. case op of Inc a \<Rightarrow> a | Dec a \<Rightarrow> 0)"

definition dec_sum :: "local_op list \<Rightarrow> number" where
  "dec_sum ops = (\<Sum>op\<leftarrow>ops. case op of Inc a \<Rightarrow> 0 | Dec a \<Rightarrow> a)"

lemma local_runs_look:
  "lookup_or 0 (increments (fold (local_run node) ops s)) n = lookup_or 0 (increments s) n + (if n = node then inc_sum ops else 0)"
  "lookup_or 0 (decrements (fold (local_run node) ops s)) n = lookup_or 0 (decrements s) n + (if n = node then dec_sum ops else 0)"
proof (induction ops arbitrary: s)
  case (Cons op ops)
  { case 1 show ?case using Cons by (cases op) (auto simp: inc_sum_def pn_increment_def pn_decrement_def) }
  { case 2 show ?case using Cons by (cases op) (auto simp: dec_sum_def pn_increment_def pn_decrement_def) }
qed (simp_all add: inc_sum_def dec_sum_def)

lemma op_sums: "(\<Sum>op\<leftarrow>ops. op_delta op) = inc_sum ops - dec_sum ops"
  by (induction ops) (auto simp: inc_sum_def dec_sum_def split: local_op.splits)

lemma op_sums_nonneg: "\<forall>op \<in> set ops. 0 \<le> op_amount op \<Longrightarrow> 0 \<le> inc_sum ops \<and> 0 \<le> dec_sum ops"
  by (induction ops) (auto simp: inc_sum_def dec_sum_def split: local_op.splits)

lemma total_with:
  assumes "distinct (map fst m)" and "distinct (map fst m0)" and "a \<noteq> b"
    and "\<And>n. lookup_or 0 m n = lookup_or 0 m0 n + (if n = a then x else 0) + (if n = b then y else 0)"
  shows "total_count m = total_count m0 + x + y"
proof -
  let ?A = "insert a (insert b (fst ` set m \<union> fst ` set m0))"
  have "total_count m = (\<Sum>n\<in>?A. lookup_or 0 m n)" by (rule total_count_sum) (use assms(1) in auto)
  also have "\<dots> = (\<Sum>n\<in>?A. lookup_or 0 m0 n) + (\<Sum>n\<in>?A. if n = a then x else 0) + (\<Sum>n\<in>?A. if n = b then y else 0)"
    unfolding assms(4) by (simp only: sum.distrib)
  also have "(\<Sum>n\<in>?A. lookup_or 0 m0 n) = total_count m0"
    by (rule total_count_sum [symmetric]) (use assms(2) in auto)
  finally show ?thesis by (simp add: sum.delta)
qed

text \<open>
  No update is lost: two nodes that start from one counter and each record receipts and
  issues of non-negative amounts under their own node id read, once they merge, the stock that all
  these updates give together (or zero when the issues exceed it).
\<close>

theorem merge_keeps_all_updates:
  assumes "pn_ok s" and "a \<noteq> b" and "\<forall>op \<in> set as. 0 \<le> op_amount op" and "\<forall>op \<in> set bs. 0 \<le> op_amount op"
  shows "getValue (pn_merge (fold (local_run a) as s) (fold (local_run b) bs s)) =
    max 0 (total_count (increments s) - total_count (decrements s) + (\<Sum>op\<leftarrow>as. op_delta op) + (\<Sum>op\<leftarrow>bs. op_delta op))"
proof -
  let ?m = "pn_merge (fold (local_run a) as s) (fold (local_run b) bs s)"
  note pos = op_sums_nonneg [OF assms(3)] op_sums_nonneg [OF assms(4)]
  have ok: "pn_ok ?m" by (rule pn_ok_merge)
  have "total_count (increments ?m) = total_count (increments s) + inc_sum as + inc_sum bs"
    by (rule total_with [OF _ _ assms(2)])
       (use ok assms(1,2) pos in \<open>auto simp: pn_ok_def pn_merge_def lookup_merge_counts local_runs_look\<close>)
  moreover have "total_count (decrements ?m) = total_count (decrements s) + dec_sum as + dec_sum bs"
    by (rule total_with [OF _ _ assms(2)])
       (use ok assms(1,2) pos in \<open>auto simp: pn_ok_def pn_merge_def lookup_merge_counts local_runs_look\<close>)
  ultimately show ?thesis by (simp add: getValue_def op_sums algebra_simps)
qed

theorem merge_keeps_all_updates_witness:
  "getValue (pn_merge (fold (local_run ''a'') [Dec 2, Inc 1] store_a) (fold (local_run ''b'') [Dec 4] store_a)) = 2"
  using merge_keeps_all_updates [of store_a "''a''" "''b''" "[Dec 2, Inc 1]" "[Dec 4]"] stores_ok
  by (simp add: store_a_def pn_increment_def pn_decrement_def createStockCounter_def total_count_def)

end
