(* ===== verification/Approval.thy ===== *)
theory Approval
  imports Prelude
begin

text \<open>
  Approval workflows: the request with its status machine (src/src/domain/entities/ApprovalRequest.ts),
  the workflow that triggers it (ApprovalWorkflow.ts), the service
  src/src/domain/services/ApprovalWorkflowService.ts over IApprovalWorkflowRepository, and the
  provider src/src/infrastructure/persistence/PostgresApprovalWorkflowRepository.ts over its three
  tables (rows without an ORDER BY come in table order). Thresholds compare numbers; a payload
  field is a number, or null. Steps are counted from 0.
\<close>

section \<open>The request\<close>

datatype approval_status = Pending_request | Approved_request | Rejected_request | Escalated_request | Expired_request

fun approval_status_text :: "approval_status \<Rightarrow> string" where
  "approval_status_text Pending_request = ''PENDING''"
| "approval_status_text Approved_request = ''APPROVED''"
| "approval_status_text Rejected_request = ''REJECTED''"
| "approval_status_text Escalated_request = ''ESCALATED''"
| "approval_status_text Expired_request = ''EXPIRED''"

datatype verdict = APPROVED | REJECTED

record approval_decision =
  ad_id :: ident
  ad_step :: nat
  ad_decider :: ident
  ad_decision :: verdict
  ad_notes :: "string option"
  ad_decidedAt :: time

type_synonym payload = "(string, number option) js_map"

record approval_request =
  ar_id :: ident
  ar_tenant :: ident
  ar_workflow :: ident
  ar_referenceType :: string
  ar_referenceId :: string
  ar_requester :: ident
  ar_payload :: payload
  ar_totalSteps :: nat
  ar_status :: approval_status
  ar_currentStep :: nat
  ar_decisions :: "approval_decision list"
  ar_expiresAt :: "time option"

definition cannot :: "string \<Rightarrow> approval_request \<Rightarrow> error" where
  "cannot verb r = Error (''Cannot '' @ verb @ '' request in status: {}'') [S (approval_status_text (ar_status r))]"

definition approvals_at :: "nat \<Rightarrow> approval_decision list \<Rightarrow> nat" where
  "approvals_at step ds = length (filter (\<lambda>d. ad_step d = step \<and> ad_decision d = APPROVED) ds)"

definition approve :: "approval_decision \<Rightarrow> number \<Rightarrow> (approval_request, unit) oper" where
  "approve d requiredCount = op_get (\<lambda>r.
     op_seq (op_reject (ar_status r \<noteq> Pending_request) (cannot ''approve'' r))
     (op_seq (op_reject (ad_step d \<noteq> ar_currentStep r)
       (Error ''Decision step {} does not match current step {}.'' [N (of_nat (ad_step d)), N (of_nat (ar_currentStep r))]))
     (op_seq (op_modify (\<lambda>r. r\<lparr>ar_decisions := ar_decisions r @ [d]\<rparr>))
     (op_modify (\<lambda>r.
        if requiredCount \<le> of_nat (approvals_at (ar_currentStep r) (ar_decisions r))
        then if ar_totalSteps r \<le> ar_currentStep r + 1 then r\<lparr>ar_status := Approved_request\<rparr>
             else r\<lparr>ar_currentStep := ar_currentStep r + 1\<rparr>
        else r)))))"

definition reject :: "approval_decision \<Rightarrow> (approval_request, unit) oper" where
  "reject d = op_get (\<lambda>r.
     op_seq (op_reject (ar_status r \<noteq> Pending_request) (cannot ''reject'' r))
     (op_seq (op_reject (ad_decision d \<noteq> REJECTED) (Error ''Rejection decision must have decision = REJECTED.'' []))
     (op_modify (\<lambda>r. r\<lparr>ar_decisions := ar_decisions r @ [d], ar_status := Rejected_request\<rparr>))))"

definition escalate :: "(approval_request, unit) oper" where
  "escalate = op_get (\<lambda>r.
     op_seq (op_reject (ar_status r \<noteq> Pending_request) (cannot ''escalate'' r))
     (op_modify (\<lambda>r. if ar_totalSteps r \<le> ar_currentStep r + 1 then r\<lparr>ar_status := Expired_request\<rparr>
        else r\<lparr>ar_currentStep := ar_currentStep r + 1, ar_status := Escalated_request\<rparr>)))"

definition expire :: "(approval_request, unit) oper" where
  "expire = op_get (\<lambda>r.
     op_seq (op_reject (ar_status r \<noteq> Pending_request \<and> ar_status r \<noteq> Escalated_request) (cannot ''expire'' r))
     (op_modify (\<lambda>r. r\<lparr>ar_status := Expired_request\<rparr>)))"

definition ar_isPending :: "approval_request \<Rightarrow> bool" where
  "ar_isPending r \<longleftrightarrow> ar_status r = Pending_request \<or> ar_status r = Escalated_request"

section \<open>The workflow\<close>

record step_config =
  approverRoles :: "string list"
  requiredCount :: "number option"
  timeoutHours :: number

datatype comparison = Ge | Gt | Le | Lt | Eq | Ne

record threshold =
  th_field :: string
  th_operator :: comparison
  th_value :: number

record approval_workflow =
  wf_id :: ident
  wf_tenant :: ident
  wf_name :: string
  wf_trigger :: string
  wf_isActive :: bool
  wf_thresholds :: "threshold list"
  wf_steps :: "step_config list"

definition ApprovalWorkflow ::
    "ident \<Rightarrow> ident \<Rightarrow> string \<Rightarrow> string \<Rightarrow> bool \<Rightarrow> threshold list \<Rightarrow> step_config list \<Rightarrow> approval_workflow result" where
  "ApprovalWorkflow i tenant name trigger active ths steps =
     (if trigger = [] \<or> is_blank trigger then Inl (Error ''Approval workflow trigger event cannot be empty.'' [])
      else if length steps = 0 then Inl (Error ''Approval workflow must define at least one approval step.'' [])
      else Inr \<lparr>wf_id = i, wf_tenant = tenant, wf_name = name, wf_trigger = trigger, wf_isActive = active,
        wf_thresholds = ths, wf_steps = steps\<rparr>)"

fun compare_values :: "comparison \<Rightarrow> number \<Rightarrow> number \<Rightarrow> bool" where
  "compare_values Ge v t \<longleftrightarrow> v \<ge> t"
| "compare_values Gt v t \<longleftrightarrow> v > t"
| "compare_values Le v t \<longleftrightarrow> v \<le> t"
| "compare_values Lt v t \<longleftrightarrow> v < t"
| "compare_values Eq v t \<longleftrightarrow> v = t"
| "compare_values Ne v t \<longleftrightarrow> v \<noteq> t"

definition shouldTrigger :: "approval_workflow \<Rightarrow> payload \<Rightarrow> bool" where
  "shouldTrigger w p =
     (if \<not> wf_isActive w then False
      else if length (wf_thresholds w) = 0 then True
      else list_all (\<lambda>th. case map_of p (th_field th) of
          Some (Some v) \<Rightarrow> compare_values (th_operator th) v (th_value th) | _ \<Rightarrow> False) (wf_thresholds w))"

definition getStep :: "approval_workflow \<Rightarrow> nat \<Rightarrow> step_config option" where
  "getStep w i = (if i < length (wf_steps w) then Some (wf_steps w ! i) else None)"

section \<open>The service\<close>

record request_row =
  rr_id :: ident
  rr_tenant :: ident
  rr_workflowId :: ident
  rr_referenceType :: string
  rr_referenceId :: string
  rr_requester :: ident
  rr_status :: approval_status
  rr_currentStep :: nat
  rr_payload :: payload
  rr_expiresAt :: "time option"

record 's approval_repo =
  findWorkflowByTrigger :: "'s \<Rightarrow> ident \<Rightarrow> string \<Rightarrow> approval_workflow option"
  createApprovalRequest :: "request_row \<Rightarrow> ('s, unit) oper"
  findApprovalRequestById :: "'s \<Rightarrow> ident \<Rightarrow> (request_row \<times> approval_workflow option \<times> approval_decision list) option"
  saveDecisionAndUpdateRequest :: "approval_decision \<Rightarrow> ident \<Rightarrow> approval_status \<Rightarrow> nat \<Rightarrow> ('s, unit) oper"
  findStaleRequests :: "'s \<Rightarrow> time \<Rightarrow> (request_row \<times> approval_workflow option) list"
  updateApprovalRequest :: "ident \<Rightarrow> approval_status \<Rightarrow> nat \<Rightarrow> time option \<Rightarrow> ('s, unit) oper"
  findPendingRequests :: "'s \<Rightarrow> ident \<Rightarrow> (request_row \<times> approval_workflow option \<times> approval_decision list) list"

datatype approval_event =
    ApprovalRequestApprovedEvent ident ident string string payload
  | ApprovalRequestRejectedEvent ident ident string string payload

record 's approval_world =
  ap_store :: 's
  ap_events :: "approval_event list"

abbreviation on_approvals :: "('s, 'r) oper \<Rightarrow> ('s approval_world, 'r) oper" where
  "on_approvals m \<equiv> op_zoom ap_store (\<lambda>s w. w\<lparr>ap_store := s\<rparr>) m"

definition expiry_after :: "time \<Rightarrow> number \<Rightarrow> time" where
  "expiry_after now hours = \<lfloor>of_int now + hours * 60 * 60 * 1000\<rfloor>"

definition evaluateAndIntercept ::
    "(nat \<Rightarrow> string) \<Rightarrow> time \<Rightarrow> 's approval_repo \<Rightarrow> ident \<Rightarrow> string \<Rightarrow> string \<Rightarrow> string \<Rightarrow> ident \<Rightarrow> payload
     \<Rightarrow> ('s approval_world, ident option) oper" where
  "evaluateAndIntercept uuid now repo tenant trigger refType refId requester p = op_get (\<lambda>w.
     case findWorkflowByTrigger repo (ap_store w) tenant trigger of
       None \<Rightarrow> op_return None
     | Some rec \<Rightarrow>
         if \<not> wf_isActive rec then op_return None
         else op_bind (op_lift (ApprovalWorkflow (wf_id rec) (wf_tenant rec) (wf_name rec) (wf_trigger rec)
                (wf_isActive rec) (wf_thresholds rec) (wf_steps rec))) (\<lambda>workflow.
           if \<not> shouldTrigger workflow p then op_return None
           else let expiresAt = (case getStep workflow 0 of
                    Some step \<Rightarrow> if 0 < timeoutHours step then Some (expiry_after now (timeoutHours step)) else None
                  | None \<Rightarrow> None)
             in op_seq (on_approvals (createApprovalRequest repo
                  \<lparr>rr_id = uuid 0, rr_tenant = tenant, rr_workflowId = wf_id rec, rr_referenceType = refType,
                   rr_referenceId = refId, rr_requester = requester, rr_status = Pending_request,
                   rr_currentStep = 0, rr_payload = p, rr_expiresAt = expiresAt\<rparr>))
                (op_return (Some (uuid 0)))))"

definition request_of :: "request_row \<Rightarrow> nat \<Rightarrow> approval_decision list \<Rightarrow> approval_request" where
  "request_of row steps ds = \<lparr>ar_id = rr_id row, ar_tenant = rr_tenant row, ar_workflow = rr_workflowId row,
     ar_referenceType = rr_referenceType row, ar_referenceId = rr_referenceId row, ar_requester = rr_requester row,
     ar_payload = rr_payload row, ar_totalSteps = steps, ar_status = rr_status row,
     ar_currentStep = rr_currentStep row, ar_decisions = ds, ar_expiresAt = rr_expiresAt row\<rparr>"

definition required_at :: "approval_workflow \<Rightarrow> nat \<Rightarrow> number" where
  "required_at w i = (case getStep w i of None \<Rightarrow> 1 | Some step \<Rightarrow>
     (case requiredCount step of None \<Rightarrow> 1 | Some c \<Rightarrow> c))"

definition decision_events :: "approval_request \<Rightarrow> approval_event list" where
  "decision_events r = (if ar_status r = Approved_request
       then [ApprovalRequestApprovedEvent (ar_id r) (ar_tenant r) (ar_referenceType r) (ar_referenceId r) (ar_payload r)]
     else if ar_status r = Rejected_request
       then [ApprovalRequestRejectedEvent (ar_id r) (ar_tenant r) (ar_referenceType r) (ar_referenceId r) (ar_payload r)]
     else [])"

definition processDecision ::
    "(nat \<Rightarrow> string) \<Rightarrow> time \<Rightarrow> 's approval_repo \<Rightarrow> ident \<Rightarrow> ident \<Rightarrow> verdict \<Rightarrow> string option
     \<Rightarrow> ('s approval_world, approval_status \<times> string \<times> string) oper" where
  "processDecision uuid now repo requestId decider decision notes = op_get (\<lambda>w.
     case findApprovalRequestById repo (ap_store w) requestId of
       Some (row, Some workflow, ds) \<Rightarrow>
         let request = request_of row (length (wf_steps workflow)) ds;
             d = \<lparr>ad_id = uuid 0, ad_step = ar_currentStep request, ad_decider = decider, ad_decision = decision,
                  ad_notes = notes, ad_decidedAt = now\<rparr>
         in (case (if decision = REJECTED then reject d request
                   else approve d (required_at workflow (ar_currentStep request)) request) of
              (Inl e, request') \<Rightarrow> op_throw e
            | (Inr _, request') \<Rightarrow>
                op_seq (on_approvals (saveDecisionAndUpdateRequest repo d requestId (ar_status request') (ar_currentStep request')))
                (op_seq (op_modify (\<lambda>w. w\<lparr>ap_events := ap_events w @ decision_events request'\<rparr>))
                (op_return (ar_status request', ar_referenceType request', ar_referenceId request'))))
     | _ \<Rightarrow> op_throw (Error ''Approval request {} not found.'' [S requestId]))"

definition escalate_record ::
    "time \<Rightarrow> 's approval_repo \<Rightarrow> request_row \<times> approval_workflow option \<Rightarrow> ('s approval_world, unit) oper" where
  "escalate_record now repo = (\<lambda>(row, workflow).
     case workflow of None \<Rightarrow> op_return ()
     | Some flow \<Rightarrow> (case escalate (request_of row (length (wf_steps flow)) []) of
         (Inl e, request) \<Rightarrow> op_throw e
       | (Inr _, request) \<Rightarrow>
           let newExpiresAt = (if ar_isPending request
                 then (case getStep flow (ar_currentStep request) of
                    Some step \<Rightarrow> if 0 < timeoutHours step then Some (expiry_after now (timeoutHours step)) else None
                  | None \<Rightarrow> None)
                 else None)
           in on_approvals (updateApprovalRequest repo (rr_id row) (ar_status request) (ar_currentStep request) newExpiresAt)))"

definition checkExpiredRequests :: "time \<Rightarrow> 's approval_repo \<Rightarrow> ('s approval_world, nat) oper" where
  "checkExpiredRequests now repo = op_get (\<lambda>w.
     let stale = findStaleRequests repo (ap_store w) now in
     op_seq (op_each (escalate_record now repo) stale)
       (op_return (length (filter (\<lambda>(row, workflow). workflow \<noteq> None) stale))))"

definition listPendingRequests ::
    "'s approval_repo \<Rightarrow> 's \<Rightarrow> ident \<Rightarrow> string list option
     \<Rightarrow> (request_row \<times> approval_workflow option \<times> approval_decision list) list" where
  "listPendingRequests repo s tenant roles = (let requests = findPendingRequests repo s tenant in
     case roles of None \<Rightarrow> requests
     | Some deciderRoleIds \<Rightarrow> if length deciderRoleIds = 0 then requests
         else filter (\<lambda>(row, workflow, ds). case workflow of None \<Rightarrow> False
           | Some flow \<Rightarrow> (case getStep flow (rr_currentStep row) of None \<Rightarrow> False
               | Some step \<Rightarrow> list_ex (\<lambda>role. role \<in> set deciderRoleIds) (approverRoles step))) requests)"

section \<open>The tables\<close>

record approval_db =
  workflows :: "approval_workflow list"
  requests :: "(request_row \<times> time) list"
  decision_rows :: "(ident \<times> approval_decision) list"

definition workflow_by_id :: "approval_db \<Rightarrow> ident \<Rightarrow> approval_workflow option" where
  "workflow_by_id s i = find (\<lambda>w. wf_id w = i) (workflows s)"

definition pa_findWorkflowByTrigger :: "approval_db \<Rightarrow> ident \<Rightarrow> string \<Rightarrow> approval_workflow option" where
  "pa_findWorkflowByTrigger s tenant trigger = find (\<lambda>w. wf_tenant w = tenant \<and> wf_trigger w = trigger) (workflows s)"

definition pa_createApprovalRequest :: "time \<Rightarrow> request_row \<Rightarrow> (approval_db, unit) oper" where
  "pa_createApprovalRequest now row = op_get (\<lambda>s.
     op_seq (op_reject (list_ex (\<lambda>(r, t). rr_id r = rr_id row) (requests s)) (Error ''Unique constraint failed'' []))
       (op_modify (\<lambda>s. s\<lparr>requests := requests s @ [(row, now)]\<rparr>)))"

definition decisions_of :: "approval_db \<Rightarrow> ident \<Rightarrow> approval_decision list" where
  "decisions_of s i = map snd (filter (\<lambda>(j, d). j = i) (decision_rows s))"

definition pa_findApprovalRequestById ::
    "approval_db \<Rightarrow> ident \<Rightarrow> (request_row \<times> approval_workflow option \<times> approval_decision list) option" where
  "pa_findApprovalRequestById s i = (case find (\<lambda>(r, t). rr_id r = i) (requests s) of None \<Rightarrow> None
     | Some (r, t) \<Rightarrow> Some (r, workflow_by_id s (rr_workflowId r), decisions_of s i))"

definition set_request :: "ident \<Rightarrow> (request_row \<Rightarrow> request_row) \<Rightarrow> (approval_db, unit) oper" where
  "set_request i f = op_get (\<lambda>s.
     op_seq (op_reject (\<not> list_ex (\<lambda>(r, t). rr_id r = i) (requests s)) (Error ''Record to update not found.'' []))
       (op_modify (\<lambda>s. s\<lparr>requests := map (\<lambda>(r, t). (if rr_id r = i then f r else r, t)) (requests s)\<rparr>)))"

definition pa_saveDecisionAndUpdateRequest ::
    "approval_decision \<Rightarrow> ident \<Rightarrow> approval_status \<Rightarrow> nat \<Rightarrow> (approval_db, unit) oper" where
  "pa_saveDecisionAndUpdateRequest d i st step = (\<lambda>s.
     case op_seq (op_modify (\<lambda>s. s\<lparr>decision_rows := decision_rows s @ [(i, d)]\<rparr>))
            (set_request i (\<lambda>r. r\<lparr>rr_status := st, rr_currentStep := step\<rparr>)) s of
       (Inl e, s') \<Rightarrow> (Inl e, s) | (Inr a, s') \<Rightarrow> (Inr a, s'))"

definition open_status :: "approval_status \<Rightarrow> bool" where
  "open_status st \<longleftrightarrow> st = Pending_request \<or> st = Escalated_request"

definition pa_findStaleRequests :: "approval_db \<Rightarrow> time \<Rightarrow> (request_row \<times> approval_workflow option) list" where
  "pa_findStaleRequests s now = map (\<lambda>(r, t). (r, workflow_by_id s (rr_workflowId r)))
     (filter (\<lambda>(r, t). open_status (rr_status r) \<and> (case rr_expiresAt r of None \<Rightarrow> False | Some e \<Rightarrow> e \<le> now)) (requests s))"

definition pa_updateApprovalRequest ::
    "ident \<Rightarrow> approval_status \<Rightarrow> nat \<Rightarrow> time option \<Rightarrow> (approval_db, unit) oper" where
  "pa_updateApprovalRequest i st step expires =
     set_request i (\<lambda>r. r\<lparr>rr_status := st, rr_currentStep := step, rr_expiresAt := expires\<rparr>)"

definition pa_findPendingRequests ::
    "approval_db \<Rightarrow> ident \<Rightarrow> (request_row \<times> approval_workflow option \<times> approval_decision list) list" where
  "pa_findPendingRequests s tenant = map (\<lambda>(r, t). (r, workflow_by_id s (rr_workflowId r), decisions_of s (rr_id r)))
     (sort_key (\<lambda>(r, t). - t) (filter (\<lambda>(r, t). rr_tenant r = tenant \<and> open_status (rr_status r)) (requests s)))"

definition pg_approvals :: "time \<Rightarrow> approval_db approval_repo" where
  "pg_approvals now = \<lparr>findWorkflowByTrigger = pa_findWorkflowByTrigger, createApprovalRequest = pa_createApprovalRequest now,
     findApprovalRequestById = pa_findApprovalRequestById,
     saveDecisionAndUpdateRequest = pa_saveDecisionAndUpdateRequest, findStaleRequests = pa_findStaleRequests,
     updateApprovalRequest = pa_updateApprovalRequest, findPendingRequests = pa_findPendingRequests\<rparr>"

lemmas approval_op_defs [model_defs] = approve_def reject_def escalate_def expire_def


section \<open>Approved requests went through every step\<close>

datatype request_call = CallApprove approval_decision | CallReject approval_decision | CallEscalate | CallExpire

fun request_exec :: "(nat \<Rightarrow> number) \<Rightarrow> request_call \<Rightarrow> (approval_request, unit) oper" where
  "request_exec need (CallApprove d) = op_get (\<lambda>r. approve d (need (ar_currentStep r)))"
| "request_exec need (CallReject d) = reject d"
| "request_exec need CallEscalate = escalate"
| "request_exec need CallExpire = expire"

lemma approvals_at_append [simp]:
  "approvals_at i (ds @ [d]) = approvals_at i ds + (if ad_step d = i \<and> ad_decision d = APPROVED then 1 else 0)"
  by (simp add: approvals_at_def)

definition steps_done :: "(nat \<Rightarrow> number) \<Rightarrow> nat \<Rightarrow> approval_request \<Rightarrow> bool" where
  "steps_done need k r \<longleftrightarrow> (\<forall>i < k. need i \<le> of_nat (approvals_at i (ar_decisions r)))"

definition request_ok :: "nat \<Rightarrow> (nat \<Rightarrow> number) \<Rightarrow> approval_request \<Rightarrow> bool" where
  "request_ok n need r \<longleftrightarrow> ar_totalSteps r = n \<and> ar_currentStep r < n
     \<and> (ar_status r = Pending_request \<longrightarrow> steps_done need (ar_currentStep r) r)
     \<and> (ar_status r = Approved_request \<longrightarrow> steps_done need n r)"

lemma steps_done_append: "steps_done need k r \<Longrightarrow> steps_done need k (r\<lparr>ar_decisions := ar_decisions r @ [d]\<rparr>)"
  unfolding steps_done_def by (auto intro: order_trans)

lemma steps_done_Suc:
  "steps_done need (Suc k) r \<longleftrightarrow> steps_done need k r \<and> need k \<le> of_nat (approvals_at k (ar_decisions r))"
  by (auto simp: steps_done_def less_Suc_eq)

lemma steps_done_fields [simp]:
  "steps_done need k (r\<lparr>ar_status := st\<rparr>) = steps_done need k r"
  "steps_done need k (r\<lparr>ar_currentStep := j\<rparr>) = steps_done need k r"
  by (simp_all add: steps_done_def)

lemma approve_ok: "request_ok n need r \<Longrightarrow> request_ok n need (snd (approve d (need (ar_currentStep r)) r))"
proof -
  assume r: "request_ok n need r"
  let ?r = "r\<lparr>ar_decisions := ar_decisions r @ [d]\<rparr>"
  let ?k = "ar_currentStep r"
  show ?thesis
  proof (cases "ar_status r = Pending_request \<and> ad_step d = ?k")
    case False
    with r show ?thesis by (auto simp: approve_def oper_simps)
  next
    case True
    with r have prev: "steps_done need ?k ?r" by (auto simp: request_ok_def intro: steps_done_append)
    show ?thesis
    proof (cases "need ?k \<le> of_nat (approvals_at ?k (ar_decisions ?r))")
      case True
      with prev have k: "steps_done need (Suc ?k) ?r" by (simp only: steps_done_Suc simp_thms)
      have moved: "snd (approve d (need ?k) r) =
          (if n \<le> ?k + 1 then ?r\<lparr>ar_status := Approved_request\<rparr> else ?r\<lparr>ar_currentStep := ?k + 1\<rparr>)"
        using True \<open>ar_status r = Pending_request \<and> ad_step d = ?k\<close> r
        by (simp add: approve_def oper_simps request_ok_def)
      have "steps_done need n ?r" if "n \<le> ?k + 1"
      proof -
        have "n = Suc ?k" using r that by (auto simp: request_ok_def)
        with k show ?thesis by simp
      qed
      with k show ?thesis
        using \<open>ar_status r = Pending_request \<and> ad_step d = ?k\<close> r
        unfolding moved request_ok_def by (cases "n \<le> ?k + 1") simp_all
    next
      case False
      with prev \<open>ar_status r = Pending_request \<and> ad_step d = ?k\<close> r show ?thesis
        by (auto simp: approve_def oper_simps request_ok_def)
    qed
  qed
qed

lemma request_exec_ok: "keeps (request_ok n need) (request_exec need c)"
proof (cases c)
  case (CallApprove d)
  then show ?thesis using approve_ok by (simp add: keeps_def oper_simps)
next
  case (CallReject d)
  then show ?thesis by (auto simp: keeps_def reject_def oper_simps request_ok_def)
next
  case CallEscalate
  then show ?thesis by (auto simp: keeps_def escalate_def oper_simps request_ok_def)
next
  case CallExpire
  then show ?thesis by (auto simp: keeps_def expire_def oper_simps request_ok_def)
qed

text \<open>
  C36. An approved request went through every step: whatever sequence of approvals, rejections,
  escalations and expiries is tried on a new request of a workflow, each approval with the count its
  step requires, if the request ends up approved then every step of the workflow has at least the
  approvals it requires among the recorded decisions.
\<close>

theorem approved_means_every_step:
  assumes "r = fold (\<lambda>c r. snd (request_exec (required_at flow) c r)) cs (request_of row (length (wf_steps flow)) [])"
    and "rr_status row = Pending_request" and "rr_currentStep row = 0" and "wf_steps flow \<noteq> []"
    and "ar_status r = Approved_request" and "i < length (wf_steps flow)"
  shows "required_at flow i \<le> of_nat (approvals_at i (ar_decisions r))"
proof -
  have "request_ok (length (wf_steps flow)) (required_at flow) (request_of row (length (wf_steps flow)) [])"
    using assms(2-4) by (simp add: request_ok_def request_of_def steps_done_def)
  from keeps_fold [where cs = cs, OF request_exec_ok this] assms(1,5,6) show ?thesis
    by (simp add: request_ok_def steps_done_def)
qed

definition two_step_flow :: approval_workflow where
  "two_step_flow = \<lparr>wf_id = ''f1'', wf_tenant = ''t1'', wf_name = ''Large orders'', wf_trigger = ''PO_PLACED'',
     wf_isActive = True, wf_thresholds = [\<lparr>th_field = ''total'', th_operator = Ge, th_value = 1000\<rparr>],
     wf_steps = [\<lparr>approverRoles = [''buyer''], requiredCount = Some 1, timeoutHours = 24\<rparr>,
                 \<lparr>approverRoles = [''cfo''], requiredCount = None, timeoutHours = 24\<rparr>]\<rparr>"

definition request_row_1 :: "approval_status \<Rightarrow> nat \<Rightarrow> request_row" where
  "request_row_1 st step = \<lparr>rr_id = ''q1'', rr_tenant = ''t1'', rr_workflowId = ''f1'', rr_referenceType = ''PO'',
     rr_referenceId = ''po1'', rr_requester = ''u1'', rr_status = st, rr_currentStep = step,
     rr_payload = [(''total'', Some 5000)], rr_expiresAt = Some 100\<rparr>"

definition yes :: "nat \<Rightarrow> approval_decision" where
  "yes step = \<lparr>ad_id = ''d'', ad_step = step, ad_decider = ''u2'', ad_decision = APPROVED, ad_notes = None, ad_decidedAt = 5\<rparr>"

theorem approved_means_every_step_witness:
  "required_at two_step_flow 1 \<le> of_nat (approvals_at 1 (ar_decisions
     (fold (\<lambda>c r. snd (request_exec (required_at two_step_flow) c r)) [CallApprove (yes 0), CallApprove (yes 1)]
       (request_of (request_row_1 Pending_request 0) 2 []))))"
proof -
  have len: "length (wf_steps two_step_flow) = 2" by (simp add: two_step_flow_def)
  show ?thesis
    by (rule approved_means_every_step [where row = "request_row_1 Pending_request 0" and cs = "[CallApprove (yes 0), CallApprove (yes 1)]"])
       (simp_all add: len, simp_all add: request_row_1_def two_step_flow_def request_of_def approve_def oper_simps yes_def
         approvals_at_def required_at_def getStep_def)
qed

section \<open>The contract of the store, and decisions over it\<close>

text \<open>What a decision on a pending request of a workflow leads to: its status and current step.\<close>

definition decided :: "approval_workflow \<Rightarrow> nat \<Rightarrow> approval_decision list \<Rightarrow> verdict \<Rightarrow> approval_status \<times> nat" where
  "decided flow step ds v =
     (if v = REJECTED then (Rejected_request, step)
      else if required_at flow step \<le> of_nat (approvals_at step ds) + 1
      then if length (wf_steps flow) \<le> step + 1 then (Approved_request, step) else (Pending_request, step + 1)
      else (Pending_request, step))"

locale approval_repository =
  fixes repo :: "'s approval_repo"
  assumes save_decision: "findApprovalRequestById repo s i = Some (row, flow, ds) \<Longrightarrow>
      \<exists>s'. saveDecisionAndUpdateRequest repo d i st step s = (Inr (), s')
        \<and> findApprovalRequestById repo s' i = Some (row\<lparr>rr_status := st, rr_currentStep := step\<rparr>, flow, ds @ [d])
        \<and> (\<forall>j. j \<noteq> i \<longrightarrow> findApprovalRequestById repo s' j = findApprovalRequestById repo s j)"
begin

lemma decision_cases:
  assumes "findApprovalRequestById repo (ap_store w) i = Some (row, Some flow, ds)"
  shows "case processDecision uuid now repo i decider v remark w of
      (Inl e, w') \<Rightarrow> w' = w \<and> rr_status row \<noteq> Pending_request
    | (Inr (st, _), w') \<Rightarrow> rr_status row = Pending_request
        \<and> st = fst (decided flow (rr_currentStep row) ds v)
        \<and> (\<exists>d. ad_step d = rr_currentStep row \<and> ad_decider d = decider \<and> ad_decision d = v
            \<and> findApprovalRequestById repo (ap_store w') i =
              Some (row\<lparr>rr_status := st, rr_currentStep := snd (decided flow (rr_currentStep row) ds v)\<rparr>, Some flow, ds @ [d]))
        \<and> (\<forall>j. j \<noteq> i \<longrightarrow> findApprovalRequestById repo (ap_store w') j = findApprovalRequestById repo (ap_store w) j)
        \<and> length (ap_events w') = length (ap_events w) + (if st = Pending_request then 0 else 1)"
proof (cases "rr_status row = Pending_request")
  case False
  then show ?thesis using assms
    by (simp add: processDecision_def oper_simps Let_def reject_def approve_def request_of_def)
next
  case True
  let ?d = "\<lparr>ad_id = uuid 0, ad_step = rr_currentStep row, ad_decider = decider, ad_decision = v, ad_notes = remark, ad_decidedAt = now\<rparr>"
  let ?to = "decided flow (rr_currentStep row) ds v"
  obtain s' where s': "saveDecisionAndUpdateRequest repo ?d i (fst ?to) (snd ?to) (ap_store w) = (Inr (), s')"
      "findApprovalRequestById repo s' i = Some (row\<lparr>rr_status := fst ?to, rr_currentStep := snd ?to\<rparr>, Some flow, ds @ [?d])"
      "\<forall>j. j \<noteq> i \<longrightarrow> findApprovalRequestById repo s' j = findApprovalRequestById repo (ap_store w) j"
    using save_decision [OF assms] by blast
  have "\<exists>es. processDecision uuid now repo i decider v remark w =
      (Inr (fst ?to, rr_referenceType row, rr_referenceId row), w\<lparr>ap_store := s', ap_events := ap_events w @ es\<rparr>)
      \<and> length es = (if fst ?to = Pending_request then 0 else 1)"
    using assms True s'(1)
    by (cases v) (auto simp: processDecision_def oper_simps Let_def reject_def approve_def request_of_def decided_def
        decision_events_def add.commute)
  then obtain es where "processDecision uuid now repo i decider v remark w =
      (Inr (fst ?to, rr_referenceType row, rr_referenceId row), w\<lparr>ap_store := s', ap_events := ap_events w @ es\<rparr>)"
      "length es = (if fst ?to = Pending_request then 0 else 1)" by blast
  with True s'(2,3) show ?thesis by auto
qed

end

section \<open>The tables keep the contract\<close>

lemma find_map_request:
  assumes "\<And>r. rr_id (f r) = rr_id r"
  shows "find (\<lambda>(r, t). rr_id r = j) (map (\<lambda>(r, t). (if rr_id r = i then f r else r, t)) rs) =
    map_option (\<lambda>(r, t). (if rr_id r = i then f r else r, t)) (find (\<lambda>(r, t). rr_id r = j) rs)"
  using assms by (induction rs) auto

lemma find_request_id: "find (\<lambda>(r, t). rr_id r = j) rs = Some (r, t) \<Longrightarrow> rr_id r = j \<and> (r, t) \<in> set rs"
  by (induction rs) (auto split: if_splits)

lemma pa_save_decision:
  assumes "pa_findApprovalRequestById s i = Some (row, flow, ds)"
  shows "\<exists>s'. pa_saveDecisionAndUpdateRequest d i st step s = (Inr (), s')
    \<and> pa_findApprovalRequestById s' i = Some (row\<lparr>rr_status := st, rr_currentStep := step\<rparr>, flow, ds @ [d])
    \<and> (\<forall>j. j \<noteq> i \<longrightarrow> pa_findApprovalRequestById s' j = pa_findApprovalRequestById s j)"
proof -
  let ?f = "\<lambda>r. r\<lparr>rr_status := st, rr_currentStep := step\<rparr>"
  let ?s = "s\<lparr>requests := map (\<lambda>(r, t). (if rr_id r = i then ?f r else r, t)) (requests s),
      decision_rows := decision_rows s @ [(i, d)]\<rparr>"
  obtain t where t: "find (\<lambda>(r, t). rr_id r = i) (requests s) = Some (row, t)"
    using assms by (auto simp: pa_findApprovalRequestById_def split: option.splits)
  have "list_ex (\<lambda>(r, t). rr_id r = i) (requests s)"
    using find_request_id [OF t] by (force simp: list_ex_iff)
  then have "pa_saveDecisionAndUpdateRequest d i st step s = (Inr (), ?s)"
    by (simp add: pa_saveDecisionAndUpdateRequest_def set_request_def oper_simps)
  moreover have find: "find (\<lambda>(r, t). rr_id r = j) (requests ?s) =
      map_option (\<lambda>(r, t). (if rr_id r = i then ?f r else r, t)) (find (\<lambda>(r, t). rr_id r = j) (requests s))" for j
    by (simp add: find_map_request)
  have "pa_findApprovalRequestById ?s i = Some (?f row, flow, ds @ [d])"
    using assms t find_request_id [OF t] unfolding pa_findApprovalRequestById_def find
    by (simp add: workflow_by_id_def decisions_of_def)
  moreover have "pa_findApprovalRequestById ?s j = pa_findApprovalRequestById s j" if "j \<noteq> i" for j
    unfolding pa_findApprovalRequestById_def find
    using find_request_id [of j "requests s"] that
    by (cases "find (\<lambda>(r, t). rr_id r = j) (requests s)") (auto simp: workflow_by_id_def decisions_of_def)
  ultimately show ?thesis by blast
qed

interpretation pa: approval_repository "pg_approvals tm"
  by unfold_locales (use pa_save_decision in \<open>simp add: pg_approvals_def\<close>)

lemma pg_find: "findApprovalRequestById (pg_approvals tm) = pa_findApprovalRequestById"
  by (simp add: pg_approvals_def)

text \<open>
  C35. A decision over the tables: on a request that is not pending it is refused and changes nothing;
  on a pending one the stored request takes the status and step that the rules give, the decision is
  added to those stored, no other request changes, and one event is sent exactly when the request is
  closed. No check is made of who decides: two approvals of one decider count twice.
\<close>

theorem decision_over_the_tables:
  assumes "pa_findApprovalRequestById (ap_store w) i = Some (row, Some flow, ds)"
  shows "case processDecision uuid now (pg_approvals now) i decider v remark w of
      (Inl e, w') \<Rightarrow> w' = w \<and> rr_status row \<noteq> Pending_request
    | (Inr (st, _), w') \<Rightarrow> rr_status row = Pending_request
        \<and> st = fst (decided flow (rr_currentStep row) ds v)
        \<and> (\<exists>d. ad_step d = rr_currentStep row \<and> ad_decider d = decider \<and> ad_decision d = v
            \<and> pa_findApprovalRequestById (ap_store w') i =
              Some (row\<lparr>rr_status := st, rr_currentStep := snd (decided flow (rr_currentStep row) ds v)\<rparr>, Some flow, ds @ [d]))
        \<and> (\<forall>j. j \<noteq> i \<longrightarrow> pa_findApprovalRequestById (ap_store w') j = pa_findApprovalRequestById (ap_store w) j)
        \<and> length (ap_events w') = length (ap_events w) + (if st = Pending_request then 0 else 1)"
  using pa.decision_cases [where tm = now and w = w and i = i and row = row and flow = flow and ds = ds
      and uuid = uuid and now = now and decider = decider and v = v and remark = remark, unfolded pg_find, OF assms] .

definition approval_world_1 :: "approval_status \<Rightarrow> nat \<Rightarrow> approval_db approval_world" where
  "approval_world_1 st step = \<lparr>ap_store = \<lparr>workflows = [two_step_flow], requests = [(request_row_1 st step, 0)],
     decision_rows = []\<rparr>, ap_events = []\<rparr>"

lemma approval_world_1_find:
  "pa_findApprovalRequestById (ap_store (approval_world_1 st step)) ''q1'' =
     Some (request_row_1 st step, Some two_step_flow, [])"
  by (simp add: approval_world_1_def pa_findApprovalRequestById_def workflow_by_id_def decisions_of_def request_row_1_def two_step_flow_def)

lemma required_at_first: "required_at two_step_flow 0 = 1"
  by (simp add: required_at_def getStep_def two_step_flow_def)

theorem decision_over_the_tables_witness:
  "case processDecision (\<lambda>_. ''d1'') 5 (pg_approvals 5) ''q1'' ''u2'' APPROVED None (approval_world_1 Pending_request 0) of
      (Inl e, w') \<Rightarrow> False
    | (Inr (st, _), w') \<Rightarrow> st = Pending_request \<and> (\<exists>d. ad_decider d = ''u2''
        \<and> pa_findApprovalRequestById (ap_store w') ''q1'' =
          Some (request_row_1 Pending_request 0\<lparr>rr_currentStep := 1\<rparr>, Some two_step_flow, [d]))"
proof -
  let ?w = "approval_world_1 Pending_request 0"
  have to: "decided two_step_flow 0 [] APPROVED = (Pending_request, 1)"
    by (simp add: decided_def required_at_first) (simp add: two_step_flow_def)
  have row: "rr_status (request_row_1 Pending_request 0) = Pending_request"
    "rr_currentStep (request_row_1 Pending_request 0) = 0" by (simp_all add: request_row_1_def)
  have same: "request_row_1 Pending_request 0\<lparr>rr_status := Pending_request, rr_currentStep := 1\<rparr> =
      request_row_1 Pending_request 0\<lparr>rr_currentStep := 1\<rparr>" by (simp add: request_row_1_def)
  show ?thesis
    using decision_over_the_tables [OF approval_world_1_find [of Pending_request 0], where uuid = "\<lambda>_. ''d1''" and now = 5
        and decider = "''u2''" and v = APPROVED and remark = None]
    by (cases "processDecision (\<lambda>_. ''d1'') 5 (pg_approvals 5) ''q1'' ''u2'' APPROVED None ?w")
       (auto simp: to row same split: sum.splits)
qed

section \<open>Escalation\<close>

text \<open>
  An escalated request is a dead end, although it counts as still actionable: every decision on it
  is refused, and as soon as its new deadline has passed and it comes first among the stale requests,
  every sweep throws before it has touched a single request.
\<close>

theorem escalated_request_is_stuck:
  assumes "pa_findApprovalRequestById (ap_store w) i = Some (row, Some flow, ds)"
    and "rr_status row = Escalated_request"
    and "pa_findStaleRequests (ap_store w) now = (row, Some flow) # rest"
  shows "ar_isPending (request_of row (length (wf_steps flow)) ds)
    \<and> snd (processDecision uuid tm (pg_approvals tm) i decider v remark w) = w
    \<and> fst (processDecision uuid tm (pg_approvals tm) i decider v remark w) =
        Inl (cannot (if v = REJECTED then ''reject'' else ''approve'') (request_of row (length (wf_steps flow)) ds))
    \<and> checkExpiredRequests now (pg_approvals now) w =
        (Inl (cannot ''escalate'' (request_of row (length (wf_steps flow)) [])), w)"
proof -
  have st: "ar_status (request_of row k es) = Escalated_request" for k es using assms(2) by (simp add: request_of_def)
  have pd: "processDecision uuid tm (pg_approvals tm) i decider v remark w =
      (Inl (cannot (if v = REJECTED then ''reject'' else ''approve'') (request_of row (length (wf_steps flow)) ds)), w)"
    using assms(1) by (simp add: processDecision_def pg_find oper_simps Let_def reject_def approve_def st)
  have sw: "checkExpiredRequests now (pg_approvals now) w =
      (Inl (cannot ''escalate'' (request_of row (length (wf_steps flow)) [])), w)"
    using assms(3) by (simp add: checkExpiredRequests_def pg_approvals_def oper_simps Let_def escalate_record_def escalate_def st)
  from pd sw show ?thesis by (simp add: ar_isPending_def st)
qed

theorem escalated_request_is_stuck_witness:
  "fst (checkExpiredRequests 100 (pg_approvals 100) (approval_world_1 Pending_request 0)) = Inr 1
   \<and> fst (processDecision (\<lambda>_. ''d1'') 101 (pg_approvals 101) ''q1'' ''u2'' APPROVED None (approval_world_1 Escalated_request 1))
      = Inl (Error ''Cannot approve request in status: {}'' [S ''ESCALATED''])"
proof -
  let ?row = "request_row_1 Escalated_request 1"
  have stale: "pa_findStaleRequests (ap_store (approval_world_1 Escalated_request 1)) 100 = (?row, Some two_step_flow) # []"
    by (simp add: pa_findStaleRequests_def approval_world_1_def request_row_1_def open_status_def workflow_by_id_def two_step_flow_def)
  have "rr_status ?row = Escalated_request" by (simp add: request_row_1_def)
  from escalated_request_is_stuck [OF approval_world_1_find this stale, where uuid = "\<lambda>_. ''d1''" and tm = 101
      and decider = "''u2''" and v = APPROVED and remark = None]
  have "fst (processDecision (\<lambda>_. ''d1'') 101 (pg_approvals 101) ''q1'' ''u2'' APPROVED None (approval_world_1 Escalated_request 1))
      = Inl (Error ''Cannot approve request in status: {}'' [S ''ESCALATED''])"
    by (simp add: cannot_def request_of_def request_row_1_def)
  moreover have "fst (checkExpiredRequests 100 (pg_approvals 100) (approval_world_1 Pending_request 0)) = Inr 1"
    by (simp add: checkExpiredRequests_def pg_approvals_def oper_simps Let_def escalate_record_def escalate_def
        approval_world_1_def pa_findStaleRequests_def request_row_1_def open_status_def workflow_by_id_def two_step_flow_def
        request_of_def ar_isPending_def getStep_def pa_updateApprovalRequest_def set_request_def)
  ultimately show ?thesis by blast
qed

end
