(* ===== verification/Accounting.thy ===== *)
theory Accounting
  imports Costing
begin

text \<open>
  The double-entry journal: src/src/domain/entities/JournalEntry.ts, JournalLine.ts,
  src/src/domain/valueObjects/AccountCode.ts, the entries that
  src/src/domain/services/AccountingJournalService.ts builds, the use cases of
  src/src/application/useCases/ManageJournals.ts over IJournalRepository, and the provider
  src/src/infrastructure/persistence/PostgresJournalRepository.ts over its two tables. The dash of a
  description is written \<open>--\<close>. \<open>digest\<close> is the SHA-256 of node's crypto in hex. The Int column takes the
  whole amounts of 32 bits and refuses the others.
\<close>

section \<open>Accounts, lines, entries\<close>

datatype debit_credit = Debit | Credit
datatype account_category = Asset | Liability | Equity | Revenue | Expense

record account_code =
  ac_code :: string
  ac_name :: string
  ac_category :: account_category

definition AccountCode :: "string \<Rightarrow> string \<Rightarrow> account_category \<Rightarrow> account_code" where
  "AccountCode c n k = \<lparr>ac_code = c, ac_name = n, ac_category = k\<rparr>"

definition acc_cash :: account_code where
  "acc_cash = AccountCode ''1000'' ''Cash'' Asset"

definition accountsReceivable :: account_code where
  "accountsReceivable = AccountCode ''1100'' ''Accounts Receivable'' Asset"

definition acc_inventory :: account_code where
  "acc_inventory = AccountCode ''1200'' ''Inventory'' Asset"

definition accountsPayable :: account_code where
  "accountsPayable = AccountCode ''2000'' ''Accounts Payable'' Liability"

definition salesRevenue :: account_code where
  "salesRevenue = AccountCode ''4000'' ''Sales Revenue'' Revenue"

definition costOfGoodsSold :: account_code where
  "costOfGoodsSold = AccountCode ''5000'' ''Cost of Goods Sold'' Expense"

definition inventoryWriteOffExpense :: account_code where
  "inventoryWriteOffExpense = AccountCode ''5300'' ''Inventory Write-Off Expense'' Expense"

definition category_of_code :: "string \<Rightarrow> account_category" where
  "category_of_code code = (case code of [] \<Rightarrow> Asset | c # cs \<Rightarrow>
     if c = CHR ''2'' then Liability else if c = CHR ''3'' then Equity
     else if c = CHR ''4'' then Revenue else if c = CHR ''5'' then Expense else Asset)"

definition fromCode :: "string \<Rightarrow> account_code" where
  "fromCode code =
     (if code = ''1000'' then acc_cash
      else if code = ''1100'' then accountsReceivable
      else if code = ''1200'' then acc_inventory
      else if code = ''2000'' then accountsPayable
      else if code = ''4000'' then salesRevenue
      else if code = ''5000'' then costOfGoodsSold
      else if code = ''5300'' then inventoryWriteOffExpense
      else AccountCode code (''Account '' @ code) (category_of_code code))"

record journal_line =
  jl_account :: account_code
  jl_amount :: number
  jl_type :: debit_credit
  jl_memo :: string

definition JournalLine :: "account_code \<Rightarrow> number \<Rightarrow> debit_credit \<Rightarrow> string \<Rightarrow> journal_line result" where
  "JournalLine a x t memo = (if x \<le> 0 then Inl (Error ''Journal line amount must be positive.'' [])
     else Inr \<lparr>jl_account = a, jl_amount = x, jl_type = t, jl_memo = memo\<rparr>)"

record journal_entry =
  je_id :: ident
  je_tenant :: ident
  je_date :: time
  je_description :: string
  je_method :: accounting_method
  je_reference :: "string option"
  je_lines :: "journal_line list"

definition JournalEntry ::
    "ident \<Rightarrow> ident \<Rightarrow> time \<Rightarrow> string \<Rightarrow> accounting_method \<Rightarrow> string option \<Rightarrow> journal_entry" where
  "JournalEntry i tenant date description method ref = \<lparr>je_id = i, je_tenant = tenant, je_date = date,
     je_description = description, je_method = method, je_reference = ref, je_lines = []\<rparr>"

definition addLine :: "account_code \<Rightarrow> number \<Rightarrow> debit_credit \<Rightarrow> string \<Rightarrow> (journal_entry, unit) oper" where
  "addLine a x t memo = op_bind (op_lift (JournalLine a x t memo)) (\<lambda>l.
     op_modify (\<lambda>e. e\<lparr>je_lines := je_lines e @ [l]\<rparr>))"

fun totals :: "journal_line list \<Rightarrow> number \<Rightarrow> number \<Rightarrow> number \<times> number" where
  "totals [] debits credits = (debits, credits)"
| "totals (l # ls) debits credits =
     (if jl_type l = Debit then totals ls (debits + jl_amount l) credits
      else if jl_type l = Credit then totals ls debits (credits + jl_amount l)
      else totals ls debits credits)"

definition isBalanced :: "journal_entry \<Rightarrow> bool" where
  "isBalanced e = (let (debits, credits) = totals (je_lines e) 0 0 in debits = credits)"

section \<open>The service\<close>

record 's journal_repo =
  saveEntry :: "journal_entry \<Rightarrow> ('s, unit) oper"
  saveEntries :: "journal_entry list \<Rightarrow> ('s, unit) oper"
  findEntry :: "'s \<Rightarrow> ident \<Rightarrow> journal_entry option result"
  findEntriesByTenant :: "'s \<Rightarrow> ident \<Rightarrow> journal_entry list result"

type_synonym line_spec = "account_code \<times> number \<times> debit_credit \<times> string"

definition or_undefined :: "string option \<Rightarrow> string option" where
  "or_undefined x = (if x = Some [] then None else x)"

definition unbalanced :: error where
  "unbalanced = Error ''Journal entry is unbalanced. Debits must equal Credits.'' []"

definition filled_entry :: "journal_entry \<Rightarrow> line_spec list \<Rightarrow> journal_entry result" where
  "filled_entry e ls = (case op_each (\<lambda>(a, x, t, memo). addLine a x t memo) ls e of
       (Inl er, e') \<Rightarrow> Inl er
     | (Inr _, e') \<Rightarrow> if \<not> isBalanced e' then Inl unbalanced else Inr e')"

definition buildEntry ::
    "string \<Rightarrow> string \<Rightarrow> time \<Rightarrow> string \<Rightarrow> string option \<Rightarrow> accounting_method \<Rightarrow> line_spec list \<Rightarrow> journal_entry result" where
  "buildEntry uuid tenant date description ref method ls =
     result_bind (JournalEntryId uuid) (\<lambda>i. result_bind (TenantId tenant) (\<lambda>t.
       filled_entry (JournalEntry i t date description method (or_undefined ref)) ls))"

definition buildStockReturned ::
    "string \<Rightarrow> string \<Rightarrow> number \<Rightarrow> string \<Rightarrow> time \<Rightarrow> string \<Rightarrow> journal_entry result" where
  "buildStockReturned uuid variant cost ref date tenant =
     buildEntry uuid tenant date (''Inventory return receipt -- variant '' @ variant @ '' -- reference '' @ ref)
       (Some ref) Accrual
       [(acc_inventory, cost, Debit, ''Returned stock''), (costOfGoodsSold, cost, Credit, ''COGS reversal'')]"

definition buildInventoryWriteOff ::
    "string \<Rightarrow> string \<Rightarrow> number \<Rightarrow> time \<Rightarrow> string \<Rightarrow> journal_entry result" where
  "buildInventoryWriteOff uuid ref cost date tenant =
     buildEntry uuid tenant date (''Inventory Write-Off -- Ref '' @ ref) (Some ref) Accrual
       [(inventoryWriteOffExpense, cost, Debit, ''Inventory write-off''),
        (acc_inventory, cost, Credit, ''Inventory reduction'')]"

definition save_built :: "'s journal_repo \<Rightarrow> journal_entry result \<Rightarrow> ('s, journal_entry) oper" where
  "save_built repo built = op_bind (op_lift built) (\<lambda>e. op_seq (saveEntry repo e) (op_return e))"

definition onStockReturned ::
    "string \<Rightarrow> 's journal_repo \<Rightarrow> string \<Rightarrow> number \<Rightarrow> string \<Rightarrow> time \<Rightarrow> string \<Rightarrow> ('s, journal_entry) oper" where
  "onStockReturned uuid repo variant cost ref date tenant =
     save_built repo (buildStockReturned uuid variant cost ref date tenant)"

definition onInventoryWriteOff ::
    "string \<Rightarrow> 's journal_repo \<Rightarrow> string \<Rightarrow> number \<Rightarrow> time \<Rightarrow> string \<Rightarrow> ('s, journal_entry) oper" where
  "onInventoryWriteOff uuid repo ref cost date tenant =
     save_built repo (buildInventoryWriteOff uuid ref cost date tenant)"

definition createEntry ::
    "string \<Rightarrow> 's journal_repo \<Rightarrow> string \<Rightarrow> time \<Rightarrow> string \<Rightarrow> string option \<Rightarrow> accounting_method \<Rightarrow> line_spec list
     \<Rightarrow> ('s, journal_entry) oper" where
  "createEntry uuid repo tenant date description ref method ls =
     save_built repo (buildEntry uuid tenant date description ref method ls)"

definition onReturnToVendor ::
    "string \<Rightarrow> 's journal_repo \<Rightarrow> string \<Rightarrow> number \<Rightarrow> time \<Rightarrow> string \<Rightarrow> ('s, journal_entry) oper" where
  "onReturnToVendor uuid repo ref cost date tenant =
     createEntry uuid repo tenant date (''Return to Vendor -- Ref '' @ ref) (Some ref) Accrual
       [(accountsPayable, cost, Debit, ''AP cleared -- return to vendor''),
        (acc_inventory, cost, Credit, ''Inventory reduction'')]"

definition js_saveBatch :: "'s journal_repo \<Rightarrow> journal_entry list \<Rightarrow> ('s, unit) oper" where
  "js_saveBatch repo es = (if 0 < length es then saveEntries repo es else op_return ())"

section \<open>The use cases\<close>

record line_input =
  li_account :: string
  li_amount :: number
  li_type :: debit_credit
  li_memo :: "string option"

record create_entry_input =
  ci_id :: string
  ci_tenant :: string
  ci_date :: time
  ci_description :: string
  ci_method :: accounting_method
  ci_reference :: "string option"
  ci_lines :: "line_input list"

record event_line =
  el_account :: string
  el_name :: string
  el_amount :: number
  el_type :: debit_credit
  el_memo :: string

datatype journal_event =
  JournalEntryCreatedEvent string string string time accounting_method "string option" "event_line list"

record 's journal_world =
  jw_books :: 's
  jw_events :: "journal_event list"

definition CreateJournalEntryUseCase :: "'s journal_repo \<Rightarrow> create_entry_input \<Rightarrow> ('s journal_world, bool) oper" where
  "CreateJournalEntryUseCase repo inp =
     op_bind (op_lift (result_bind (JournalEntryId (ci_id inp)) (\<lambda>i. result_bind (TenantId (ci_tenant inp)) (\<lambda>t.
       filled_entry (JournalEntry i t (ci_date inp) (ci_description inp) (ci_method inp) (ci_reference inp))
         (map (\<lambda>l. (fromCode (li_account l), li_amount l, li_type l, case li_memo l of None \<Rightarrow> [] | Some m \<Rightarrow> m))
           (ci_lines inp)))))) (\<lambda>entry.
     op_seq (op_zoom jw_books (\<lambda>s w. w\<lparr>jw_books := s\<rparr>) (saveEntry repo entry))
     (op_seq (op_modify (\<lambda>w. w\<lparr>jw_events := jw_events w @
        [JournalEntryCreatedEvent (ci_id inp) (ci_tenant inp) (ci_description inp) (ci_date inp) (ci_method inp)
          (or_undefined (ci_reference inp))
          (map (\<lambda>l. \<lparr>el_account = li_account l, el_name = ac_name (fromCode (li_account l)), el_amount = li_amount l,
             el_type = li_type l, el_memo = (case li_memo l of None \<Rightarrow> [] | Some m \<Rightarrow> m)\<rparr>) (ci_lines inp))]\<rparr>))
     (op_return True)))"

definition GetJournalEntriesUseCase :: "'s journal_repo \<Rightarrow> 's \<Rightarrow> string \<Rightarrow> journal_entry list result" where
  "GetJournalEntriesUseCase repo s tenant = result_bind (TenantId tenant) (findEntriesByTenant repo s)"

definition GetJournalEntryByIdUseCase :: "'s journal_repo \<Rightarrow> 's \<Rightarrow> string \<Rightarrow> string \<Rightarrow> journal_entry option result" where
  "GetJournalEntryByIdUseCase repo s tenant i =
     result_bind (JournalEntryId i) (\<lambda>jid. result_bind (findEntry repo s jid) (\<lambda>found.
       Inr (case found of None \<Rightarrow> None | Some e \<Rightarrow> if je_tenant e = tenant then Some e else None)))"

section \<open>The tables\<close>

definition is_hex :: "char \<Rightarrow> bool" where
  "is_hex c \<longleftrightarrow> is_digit c \<or> (97 \<le> (of_char c :: nat) \<and> (of_char c :: nat) \<le> 102)
     \<or> (65 \<le> (of_char c :: nat) \<and> (of_char c :: nat) \<le> 70)"

definition uuid_form :: "string \<Rightarrow> bool" where
  "uuid_form i \<longleftrightarrow> length i = 36 \<and>
     list_all (\<lambda>(n, c). if n \<in> {8, 13, 18, 23 :: nat} then c = CHR ''-'' else is_hex c) (enumerate 0 i)"

definition lower_char :: "char \<Rightarrow> char" where
  "lower_char c = (if is_upper c then char_of ((of_char c :: nat) + 32) else c)"

definition slice :: "string \<Rightarrow> nat \<Rightarrow> nat \<Rightarrow> string" where
  "slice s a b = take (b - a) (drop a s)"

definition toUuid :: "(string \<Rightarrow> string) \<Rightarrow> string \<Rightarrow> string" where
  "toUuid digest i =
     (if uuid_form i then map lower_char i
      else let hash = digest i in slice hash 0 8 @ ''-'' @ slice hash 8 12 @ ''-'' @ slice hash 12 16 @ ''-''
        @ slice hash 16 20 @ ''-'' @ slice hash 20 32)"

record entry_row =
  er_id :: string
  er_tenant :: string
  er_date :: time
  er_description :: string
  er_method :: accounting_method
  er_reference :: "string option"

record line_row =
  lr_entry :: string
  lr_account :: string
  lr_amount :: number
  lr_type :: debit_credit
  lr_memo :: "string option"

record journal_db =
  entry_rows :: "entry_row list"
  line_rows :: "line_row list"

definition keep_last :: "journal_entry list \<Rightarrow> journal_entry list" where
  "keep_last es = map snd (fold (\<lambda>e m. AList.update (je_id e) e m) es [])"

definition lines_data :: "(string \<Rightarrow> string) \<Rightarrow> journal_entry \<Rightarrow> line_row list" where
  "lines_data digest e = map (\<lambda>l. \<lparr>lr_entry = toUuid digest (je_id e), lr_account = ac_code (jl_account l),
     lr_amount = jl_amount l, lr_type = jl_type l,
     lr_memo = (if jl_memo l = [] then None else Some (jl_memo l))\<rparr>) (je_lines e)"

definition entry_values :: "(string \<Rightarrow> string) \<Rightarrow> journal_entry \<Rightarrow> entry_row" where
  "entry_values digest e = \<lparr>er_id = toUuid digest (je_id e), er_tenant = je_tenant e, er_date = je_date e,
     er_description = je_description e, er_method = je_method e, er_reference = or_undefined (je_reference e)\<rparr>"

definition upsert_entry :: "entry_row \<Rightarrow> entry_row list \<Rightarrow> entry_row list" where
  "upsert_entry v rows = (if list_ex (\<lambda>r. er_id r = er_id v) rows
     then map (\<lambda>r. if er_id r = er_id v
        then r\<lparr>er_date := er_date v, er_description := er_description v, er_method := er_method v,
               er_reference := er_reference v\<rparr> else r) rows
     else rows @ [v])"

definition fits_int :: "number \<Rightarrow> bool" where
  "fits_int x \<longleftrightarrow> is_integer x \<and> - (2 ^ 31) \<le> x \<and> x < 2 ^ 31"

definition pj_saveBatch :: "(string \<Rightarrow> string) \<Rightarrow> journal_entry list \<Rightarrow> (journal_db, unit) oper" where
  "pj_saveBatch digest es =
     (if length es = 0 then op_return ()
      else let uniqueEntries = keep_last es;
               entryIds = map (toUuid digest \<circ> je_id) uniqueEntries;
               allLinesData = concat (map (lines_data digest) uniqueEntries)
        in op_seq (op_reject (\<not> distinct entryIds)
             (Error ''ON CONFLICT DO UPDATE command cannot affect row a second time'' []))
           (op_seq (op_reject (\<not> list_all (\<lambda>l. fits_int (lr_amount l)) allLinesData)
             (Error ''Invalid value for argument amountCents'' []))
           (op_modify (\<lambda>s. s\<lparr>entry_rows := fold upsert_entry (map (entry_values digest) uniqueEntries) (entry_rows s),
              line_rows := filter (\<lambda>l. lr_entry l \<notin> set entryIds) (line_rows s) @ allLinesData\<rparr>))))"

definition pj_save :: "(string \<Rightarrow> string) \<Rightarrow> journal_entry \<Rightarrow> (journal_db, unit) oper" where
  "pj_save digest e = pj_saveBatch digest [e]"

definition pj_rebuild :: "journal_db \<Rightarrow> entry_row \<Rightarrow> journal_entry result" where
  "pj_rebuild s r = result_bind (JournalEntryId (er_id r)) (\<lambda>i. result_bind (TenantId (er_tenant r)) (\<lambda>t.
     case op_each (\<lambda>l. addLine (fromCode (lr_account l)) (lr_amount l) (lr_type l)
             (case lr_memo l of None \<Rightarrow> [] | Some m \<Rightarrow> m))
            (filter (\<lambda>l. lr_entry l = er_id r) (line_rows s))
            (JournalEntry i t (er_date r) (er_description r) (er_method r) (or_undefined (er_reference r))) of
       (Inl e, entry) \<Rightarrow> Inl e
     | (Inr _, entry) \<Rightarrow> Inr entry))"

definition pj_findById :: "(string \<Rightarrow> string) \<Rightarrow> journal_db \<Rightarrow> ident \<Rightarrow> journal_entry option result" where
  "pj_findById digest s i = (case find (\<lambda>r. er_id r = toUuid digest i) (entry_rows s) of
       None \<Rightarrow> Inr None
     | Some r \<Rightarrow> result_bind (pj_rebuild s r) (\<lambda>e. Inr (Some e)))"

definition pj_findAllByTenant :: "journal_db \<Rightarrow> ident \<Rightarrow> journal_entry list result" where
  "pj_findAllByTenant s tenant =
     result_map (pj_rebuild s) (sort_key (\<lambda>r. - er_date r) (filter (\<lambda>r. er_tenant r = tenant) (entry_rows s)))"

definition pg_journal :: "(string \<Rightarrow> string) \<Rightarrow> journal_db journal_repo" where
  "pg_journal digest = \<lparr>saveEntry = pj_save digest, saveEntries = pj_saveBatch digest, findEntry = pj_findById digest,
     findEntriesByTenant = pj_findAllByTenant\<rparr>"

section \<open>Built entries are balanced\<close>

abbreviation debits :: "journal_line list \<Rightarrow> number" where
  "debits ls \<equiv> \<Sum>l\<leftarrow>ls. if jl_type l = Debit then jl_amount l else 0"

abbreviation credits :: "journal_line list \<Rightarrow> number" where
  "credits ls \<equiv> \<Sum>l\<leftarrow>ls. if jl_type l = Credit then jl_amount l else 0"

lemma not_debit [simp]: "t \<noteq> Debit \<longleftrightarrow> t = Credit"
  by (cases t) auto

lemma totals_sums: "totals ls d c = (d + debits ls, c + credits ls)"
  by (induction ls arbitrary: d c) auto

lemma isBalanced_iff: "isBalanced e \<longleftrightarrow> debits (je_lines e) = credits (je_lines e)"
  by (simp add: isBalanced_def totals_sums)

lemma filled_entry_balanced: "filled_entry e ls = Inr e' \<Longrightarrow> isBalanced e'"
  by (auto simp: filled_entry_def split: prod.splits sum.splits if_splits)

lemma buildEntry_balanced: "buildEntry uuid tenant date desc ref m ls = Inr e \<Longrightarrow> isBalanced e"
  by (auto simp: buildEntry_def result_bind_Inr_iff filled_entry_balanced)

lemma built_balanced:
  "buildStockReturned uuid v c ref date tenant = Inr e \<Longrightarrow> isBalanced e"
  "buildInventoryWriteOff uuid ref c date tenant = Inr e \<Longrightarrow> isBalanced e"
  by (auto simp: buildStockReturned_def buildInventoryWriteOff_def dest: buildEntry_balanced)

section \<open>The contract of the store\<close>

definition gap :: "journal_line list \<Rightarrow> number" where
  "gap ls = debits ls - credits ls"

lemma isBalanced_gap: "isBalanced e \<longleftrightarrow> gap (je_lines e) = 0"
  by (simp add: isBalanced_iff gap_def)

datatype journal_call =
    StockReturned string string number string time string
  | InventoryWriteOff string string number time string
  | ReturnToVendor string string number time string
  | SaveBatch "journal_entry list"
  | CreateEntry create_entry_input

definition on_books :: "('s, 'a) oper \<Rightarrow> ('s journal_world, unit) oper" where
  "on_books m = op_bind (op_zoom jw_books (\<lambda>s w. w\<lparr>jw_books := s\<rparr>) m) (\<lambda>_. op_return ())"

fun journal_exec :: "'s journal_repo \<Rightarrow> journal_call \<Rightarrow> ('s journal_world, unit) oper" where
  "journal_exec repo (StockReturned uuid v c ref date t) = on_books (onStockReturned uuid repo v c ref date t)"
| "journal_exec repo (InventoryWriteOff uuid ref c date t) = on_books (onInventoryWriteOff uuid repo ref c date t)"
| "journal_exec repo (ReturnToVendor uuid ref c date t) = on_books (onReturnToVendor uuid repo ref c date t)"
| "journal_exec repo (SaveBatch es) = on_books (js_saveBatch repo es)"
| "journal_exec repo (CreateEntry inp) = op_bind (CreateJournalEntryUseCase repo inp) (\<lambda>_. op_return ())"

fun balanced_call :: "journal_call \<Rightarrow> bool" where
  "balanced_call (SaveBatch es) = list_all isBalanced es"
| "balanced_call _ = True"

text \<open>
  \<open>open_amount s k\<close> is what the stored entry \<open>k\<close> is out of balance by. A store promises that a save
  leaves it alone or sets it to that of a saved entry.
\<close>

locale journal_repository =
  fixes repo :: "'s journal_repo" and open_amount :: "'s \<Rightarrow> string \<Rightarrow> number"
  assumes saves: "open_amount (snd (saveEntries repo es s)) k = open_amount s k
      \<or> (\<exists>e\<in>set es. open_amount (snd (saveEntries repo es s)) k = gap (je_lines e))"
    and save_one: "saveEntry repo e = saveEntries repo [e]"
begin

definition closed_books :: "'s \<Rightarrow> bool" where
  "closed_books s \<longleftrightarrow> (\<forall>k. open_amount s k = 0)"

lemma keeps_saves: "list_all isBalanced es \<Longrightarrow> keeps closed_books (saveEntries repo es)"
  unfolding keeps_def closed_books_def list_all_iff isBalanced_gap by (metis saves)

lemma keeps_save_built:
  assumes "\<And>e. built = Inr e \<Longrightarrow> isBalanced e"
  shows "keeps closed_books (save_built repo built)"
proof (cases built)
  case (Inr e)
  with assms have "keeps closed_books (saveEntry repo e)" by (simp add: save_one keeps_saves)
  then show ?thesis unfolding save_built_def Inr by (auto simp: keeps_def oper_simps split: prod.splits sum.splits)
qed (simp add: save_built_def keeps_def oper_simps)

lemma keeps_on_books:
  assumes "keeps closed_books m"
  shows "keeps (\<lambda>w. closed_books (jw_books w)) (on_books m)"
  unfolding on_books_def using assms by (fastforce simp: keeps_def oper_simps split: prod.splits sum.splits)

lemma keeps_create: "keeps (\<lambda>w. closed_books (jw_books w)) (CreateJournalEntryUseCase repo inp)"
proof -
  have zoom: "keeps (\<lambda>w. closed_books (jw_books w)) (op_zoom jw_books (\<lambda>s w. w\<lparr>jw_books := s\<rparr>) (saveEntry repo e))"
    if "isBalanced e" for e
    using keeps_saves [of "[e]"] that by (fastforce simp: save_one keeps_def oper_simps split: prod.splits)
  let ?built = "result_bind (JournalEntryId (ci_id inp)) (\<lambda>i. result_bind (TenantId (ci_tenant inp)) (\<lambda>t.
       filled_entry (JournalEntry i t (ci_date inp) (ci_description inp) (ci_method inp) (ci_reference inp))
         (map (\<lambda>l. (fromCode (li_account l), li_amount l, li_type l, case li_memo l of None \<Rightarrow> [] | Some m \<Rightarrow> m))
           (ci_lines inp))))"
  show ?thesis
  proof (cases ?built)
    case (Inl e)
    then show ?thesis unfolding CreateJournalEntryUseCase_def Inl by (simp add: keeps_def oper_simps)
  next
    case (Inr e)
    then have "isBalanced e" by (auto simp: result_bind_Inr_iff filled_entry_balanced)
    from zoom [OF this] show ?thesis unfolding CreateJournalEntryUseCase_def Inr
      by (fastforce simp: keeps_def oper_simps split: prod.splits sum.splits)
  qed
qed

lemma keeps_call: "balanced_call c \<Longrightarrow> keeps (\<lambda>w. closed_books (jw_books w)) (journal_exec repo c)"
proof (cases c)
  case (SaveBatch es)
  moreover assume "balanced_call c"
  ultimately have "keeps closed_books (js_saveBatch repo es)"
    by (simp add: js_saveBatch_def keeps_saves keeps_return)
  then show ?thesis unfolding SaveBatch by (simp add: keeps_on_books)
next
  case (CreateEntry inp)
  then show ?thesis using keeps_create [of inp] by (simp add: keeps_intros)
qed (auto intro!: keeps_on_books keeps_save_built intro: built_balanced buildEntry_balanced
       simp: onStockReturned_def onInventoryWriteOff_def onReturnToVendor_def createEntry_def)

lemma keeps_calls:
  assumes "\<And>c. c \<in> set cs \<Longrightarrow> balanced_call c" and "closed_books (jw_books w)"
  shows "closed_books (jw_books (fold (\<lambda>c w. snd (journal_exec repo c w)) cs w))"
  using assms
proof (induction cs arbitrary: w)
  case (Cons c cs)
  then have "closed_books (jw_books (snd (journal_exec repo c w)))"
    using keepsD_snd [OF keeps_call] by (metis list.set_intros(1))
  with Cons show ?case by simp
qed simp

end

section \<open>The tables keep the contract\<close>

definition signed_amount :: "line_row \<Rightarrow> number" where
  "signed_amount l = (if lr_type l = Debit then lr_amount l else - lr_amount l)"

definition row_lines :: "journal_db \<Rightarrow> string \<Rightarrow> line_row list" where
  "row_lines s k = filter (\<lambda>l. lr_entry l = k) (line_rows s)"

definition row_gap :: "journal_db \<Rightarrow> string \<Rightarrow> number" where
  "row_gap s k = (\<Sum>l\<leftarrow>row_lines s k. signed_amount l)"

lemma set_keep_last_aux:
  "snd ` set (fold (\<lambda>e m. AList.update (je_id e) e m) es m) \<subseteq> set es \<union> snd ` set m"
proof (induction es arbitrary: m)
  case (Cons e es)
  have "snd ` set (AList.update (je_id e) e m) \<subseteq> insert e (snd ` set m)"
    by (induction m) auto
  with Cons [of "AList.update (je_id e) e m"] show ?case by auto
qed simp

lemma set_keep_last: "set (keep_last es) \<subseteq> set es"
  using set_keep_last_aux [of es "[]"] by (simp add: keep_last_def)

lemma lines_data_entry: "l \<in> set (lines_data digest e) \<Longrightarrow> lr_entry l = toUuid digest (je_id e)"
  by (auto simp: lines_data_def)

lemma gap_signed: "gap ls = (\<Sum>l\<leftarrow>ls. if jl_type l = Debit then jl_amount l else - jl_amount l)"
  unfolding gap_def by (induction ls) auto

lemma sum_lines_data: "(\<Sum>l\<leftarrow>lines_data digest e. signed_amount l) = gap (je_lines e)"
  by (simp add: lines_data_def o_def signed_amount_def gap_signed cong: if_cong)

lemma filter_concat_lines:
  assumes "distinct (map (toUuid digest \<circ> je_id) es)"
  shows "filter (\<lambda>l. lr_entry l = k) (concat (map (lines_data digest) es)) =
    (case find (\<lambda>e. toUuid digest (je_id e) = k) es of None \<Rightarrow> [] | Some e \<Rightarrow> lines_data digest e)"
  using assms
proof (induction es)
  case (Cons e es)
  have own: "filter (\<lambda>l. lr_entry l = k) (lines_data digest e) =
      (if toUuid digest (je_id e) = k then lines_data digest e else [])"
    by (auto simp: filter_id_conv filter_empty_conv dest: lines_data_entry)
  have "find (\<lambda>e. toUuid digest (je_id e) = k) es = None" if "toUuid digest (je_id e) = k"
    using Cons.prems that by (force simp: find_None_iff image_iff)
  with Cons own show ?case by auto
qed simp

definition pj_saved :: "(string \<Rightarrow> string) \<Rightarrow> journal_entry list \<Rightarrow> journal_db \<Rightarrow> journal_db" where
  "pj_saved digest es s = s\<lparr>
     entry_rows := fold upsert_entry (map (entry_values digest) (keep_last es)) (entry_rows s),
     line_rows := filter (\<lambda>l. lr_entry l \<notin> set (map (toUuid digest \<circ> je_id) (keep_last es))) (line_rows s)
       @ concat (map (lines_data digest) (keep_last es))\<rparr>"

lemma pj_saveBatch_cases:
  "(\<exists>e. pj_saveBatch digest es s = (Inl e, s)) \<or> (es = [] \<and> pj_saveBatch digest es s = (Inr (), s))
   \<or> (distinct (map (toUuid digest \<circ> je_id) (keep_last es)) \<and> pj_saveBatch digest es s = (Inr (), pj_saved digest es s))"
  by (cases "es = []") (auto simp: pj_saveBatch_def Let_def oper_simps pj_saved_def)

lemma row_lines_saved:
  assumes "distinct (map (toUuid digest \<circ> je_id) (keep_last es))"
  shows "row_lines (pj_saved digest es s) k =
    (case find (\<lambda>e. toUuid digest (je_id e) = k) (keep_last es) of
       None \<Rightarrow> row_lines s k | Some e \<Rightarrow> lines_data digest e)"
proof -
  have "filter (\<lambda>l. lr_entry l = k) (filter (\<lambda>l. lr_entry l \<notin> set (map (toUuid digest \<circ> je_id) (keep_last es))) (line_rows s)) =
      (if k \<in> set (map (toUuid digest \<circ> je_id) (keep_last es)) then [] else row_lines s k)"
    by (auto simp: row_lines_def filter_empty_conv intro!: filter_cong)
  moreover have "(find (\<lambda>e. toUuid digest (je_id e) = k) (keep_last es) = None) =
      (k \<notin> set (map (toUuid digest \<circ> je_id) (keep_last es)))"
    by (auto simp: find_None_iff)
  ultimately show ?thesis
    using filter_concat_lines [OF assms, of k]
    by (auto simp: row_lines_def pj_saved_def split: option.splits)
qed

interpretation pj: journal_repository "pg_journal digest" row_gap
proof unfold_locales
  fix es s k
  show "row_gap (snd (saveEntries (pg_journal digest) es s)) k = row_gap s k
      \<or> (\<exists>e\<in>set es. row_gap (snd (saveEntries (pg_journal digest) es s)) k = gap (je_lines e))"
    using pj_saveBatch_cases [of digest es s]
  proof (elim disjE exE conjE)
    assume d: "distinct (map (toUuid digest \<circ> je_id) (keep_last es))"
      and saved: "pj_saveBatch digest es s = (Inr (), pj_saved digest es s)"
    show ?thesis
    proof (cases "find (\<lambda>e. toUuid digest (je_id e) = k) (keep_last es)")
      case None
      with saved show ?thesis by (simp add: pg_journal_def row_gap_def row_lines_saved [OF d])
    next
      case (Some e)
      then have "e \<in> set es" using set_keep_last by (fastforce simp: find_Some_iff)
      moreover have "row_gap (pj_saved digest es s) k = gap (je_lines e)"
        using Some by (simp add: row_gap_def row_lines_saved [OF d] sum_lines_data)
      ultimately show ?thesis using saved by (auto simp: pg_journal_def)
    qed
  qed (simp_all add: pg_journal_def)
qed (simp add: pg_journal_def pj_save_def fun_eq_iff)

section \<open>The books stay balanced\<close>

lemma sum_by_key:
  fixes f :: "'a \<Rightarrow> number"
  assumes "\<And>k. (\<Sum>x\<leftarrow>filter (\<lambda>x. key x = k) xs. f x) = 0"
  shows "(\<Sum>x\<leftarrow>xs. f x) = 0"
  using assms
proof (induction "length xs" arbitrary: xs rule: less_induct)
  case less
  show ?case
  proof (cases xs)
    case (Cons x ys)
    let ?rest = "filter (\<lambda>y. key y \<noteq> key x) xs"
    have "length ?rest < length xs" unfolding Cons by (simp add: less_Suc_eq_le)
    moreover have "(\<Sum>y\<leftarrow>filter (\<lambda>y. key y = k) ?rest. f y) = 0" for k
    proof (cases "k = key x")
      case False
      then have "filter (\<lambda>y. key y = k) ?rest = filter (\<lambda>y. key y = k) xs" by (auto intro!: filter_cong)
      with less.prems show ?thesis by simp
    qed (simp add: filter_False)
    ultimately have "(\<Sum>y\<leftarrow>?rest. f y) = 0" by (rule less.hyps)
    with less.prems [of "key x"] sum_list_filter_split [of f "\<lambda>y. key y = key x" xs] show ?thesis by simp
  qed simp
qed

definition no_books :: "journal_db journal_world" where
  "no_books = \<lparr>jw_books = \<lparr>entry_rows = [], line_rows = []\<rparr>, jw_events = []\<rparr>"

lemma signed_split:
  "(\<Sum>l\<leftarrow>rows. signed_amount l) = (\<Sum>l\<leftarrow>filter (\<lambda>l. lr_type l = Debit) rows. lr_amount l)
     - (\<Sum>l\<leftarrow>filter (\<lambda>l. lr_type l = Credit) rows. lr_amount l)"
  by (induction rows) (auto simp: signed_amount_def)

text \<open>
  C15. The books stay balanced: from empty tables, whatever returns, write-offs, returns to vendors,
  batches of balanced entries and entries of users are posted, saved over older ones or refused, every
  stored entry has as much debit as credit, and so have the books as a whole.
\<close>

theorem books_stay_balanced:
  assumes "\<And>c. c \<in> set cs \<Longrightarrow> balanced_call c"
    and "db = jw_books (fold (\<lambda>c w. snd (journal_exec (pg_journal digest) c w)) cs no_books)"
  shows "(\<forall>k. row_gap db k = 0)
    \<and> (\<Sum>l\<leftarrow>filter (\<lambda>l. lr_type l = Debit) (line_rows db). lr_amount l)
      = (\<Sum>l\<leftarrow>filter (\<lambda>l. lr_type l = Credit) (line_rows db). lr_amount l)"
proof -
  have "pj.closed_books (jw_books no_books)"
    by (simp add: pj.closed_books_def no_books_def row_gap_def row_lines_def)
  from pj.keeps_calls [where cs = cs and digest = digest, OF assms(1) this]
  have each: "row_gap db k = 0" for k unfolding assms(2) pj.closed_books_def by blast
  then have "(\<Sum>l\<leftarrow>line_rows db. signed_amount l) = 0"
    using sum_by_key [of signed_amount lr_entry "line_rows db"] by (simp add: row_gap_def row_lines_def)
  then show ?thesis using each by (simp add: signed_split)
qed

definition sale_entry :: create_entry_input where
  "sale_entry = \<lparr>ci_id = ''e1'', ci_tenant = ''t1'', ci_date = 7, ci_description = ''Cash sale'', ci_method = Cash,
     ci_reference = None, ci_lines =
       [\<lparr>li_account = ''1000'', li_amount = 500, li_type = Debit, li_memo = None\<rparr>,
        \<lparr>li_account = ''4000'', li_amount = 300, li_type = Credit, li_memo = Some ''goods''\<rparr>,
        \<lparr>li_account = ''4100'', li_amount = 200, li_type = Credit, li_memo = Some ''service''\<rparr>]\<rparr>"

theorem books_stay_balanced_witness:
  "row_gap (jw_books (fold (\<lambda>c w. snd (journal_exec (pg_journal (\<lambda>i. i)) c w))
     [CreateEntry sale_entry, InventoryWriteOff ''e2'' ''r'' 40 8 ''t1'', StockReturned ''e3'' ''v'' 0 ''r'' 9 ''t1''] no_books)) ''e1----'' = 0"
proof -
  have "balanced_call c" if "c \<in> set [CreateEntry sale_entry, InventoryWriteOff ''e2'' ''r'' 40 8 ''t1'',
      StockReturned ''e3'' ''v'' 0 ''r'' 9 ''t1'']" for c using that by auto
  from books_stay_balanced [where digest = "\<lambda>i. i", OF this refl] show ?thesis by blast
qed

section \<open>What was saved is read back\<close>

lemma toUuid_not_blank: "\<not> is_blank (toUuid digest i)"
proof -
  have dash: "CHR ''-'' \<in> set (toUuid digest i)"
  proof (cases "uuid_form i")
    case True
    then have len: "length i = 36" and all: "\<forall>(n, c) \<in> set (enumerate 0 i).
        if n \<in> {8, 13, 18, 23 :: nat} then c = CHR ''-'' else is_hex c"
      by (simp_all add: uuid_form_def list_all_iff)
    have "(8, i ! 8) \<in> set (enumerate 0 i)" using len by (simp add: in_set_enumerate_eq)
    with all have "i ! 8 = CHR ''-''" by fastforce
    then have "CHR ''-'' \<in> set i" using len nth_mem [of 8 i] by simp
    moreover have "lower_char (CHR ''-'') = CHR ''-''" by (simp add: lower_char_def is_upper_def)
    ultimately show ?thesis using True by (force simp: toUuid_def)
  qed (simp add: toUuid_def Let_def)
  have "\<not> is_space (CHR ''-'')" by (simp add: is_space_def)
  with dash show ?thesis by (rule not_blank)
qed

definition written_over :: "entry_row \<Rightarrow> entry_row option \<Rightarrow> entry_row" where
  "written_over v old = v\<lparr>er_tenant := (case old of None \<Rightarrow> er_tenant v | Some r \<Rightarrow> er_tenant r)\<rparr>"

lemma find_upsert:
  "find (\<lambda>r. er_id r = k) (upsert_entry v rows) =
    (if er_id v = k then Some (written_over v (find (\<lambda>r. er_id r = k) rows)) else find (\<lambda>r. er_id r = k) rows)"
proof (cases "list_ex (\<lambda>r. er_id r = er_id v) rows")
  case True
  then obtain r where r: "find (\<lambda>r. er_id r = er_id v) rows = Some r"
    by (metis (mono_tags, lifting) find_None_iff list_ex_iff not_None_eq)
  let ?f = "\<lambda>r. if er_id r = er_id v then r\<lparr>er_date := er_date v, er_description := er_description v,
      er_method := er_method v, er_reference := er_reference v\<rparr> else r"
  have "find (\<lambda>r. er_id r = k) (upsert_entry v rows) = map_option ?f (find (\<lambda>r. er_id r = k) rows)"
    using True by (simp add: upsert_entry_def find_map if_distrib [of er_id] cong: if_cong)
  moreover have "map_option ?f (find (\<lambda>r. er_id r = k) rows) = find (\<lambda>r. er_id r = k) rows" if "er_id v \<noteq> k"
    using that by (cases "find (\<lambda>r. er_id r = k) rows") (auto dest: find_SomeD)
  moreover have "er_id r = er_id v" using r by (auto simp: find_Some_iff)
  ultimately show ?thesis using r by (auto simp: written_over_def)
next
  case False
  then have "find (\<lambda>r. er_id r = er_id v) rows = None" by (simp add: find_None_iff list_ex_iff)
  with False show ?thesis by (auto simp: upsert_entry_def written_over_def find_append split: option.splits)
qed

lemma find_fold_upsert:
  assumes "distinct (map er_id vs)"
  shows "find (\<lambda>r. er_id r = k) (fold upsert_entry vs rows) =
    (case find (\<lambda>v. er_id v = k) vs of None \<Rightarrow> find (\<lambda>r. er_id r = k) rows
      | Some v \<Rightarrow> Some (written_over v (find (\<lambda>r. er_id r = k) rows)))"
  using assms
proof (induction vs arbitrary: rows)
  case (Cons v vs)
  then have "find (\<lambda>v. er_id v = k) vs = None" if "er_id v = k"
    using that by (force simp: find_None_iff image_iff)
  with Cons show ?case by (auto simp: find_upsert split: option.splits)
qed simp

definition readable :: "journal_entry \<Rightarrow> bool" where
  "readable e \<longleftrightarrow> \<not> is_blank (je_tenant e)
     \<and> (\<forall>l\<in>set (je_lines e). 0 < jl_amount l \<and> jl_account l = fromCode (ac_code (jl_account l)))"

lemma refill_lines:
  assumes "\<forall>l\<in>set (je_lines e). 0 < jl_amount l \<and> jl_account l = fromCode (ac_code (jl_account l))"
  shows "op_each (\<lambda>l. addLine (fromCode (lr_account l)) (lr_amount l) (lr_type l)
      (case lr_memo l of None \<Rightarrow> [] | Some m \<Rightarrow> m)) (lines_data digest e) e0 =
    (Inr (), e0\<lparr>je_lines := je_lines e0 @ je_lines e\<rparr>)"
proof -
  define k where "k = toUuid digest (je_id e)"
  define ls where "ls = je_lines e"
  have "\<forall>l\<in>set ls. 0 < jl_amount l \<and> jl_account l = fromCode (ac_code (jl_account l)) \<Longrightarrow>
    op_each (\<lambda>l. addLine (fromCode (lr_account l)) (lr_amount l) (lr_type l) (case lr_memo l of None \<Rightarrow> [] | Some m \<Rightarrow> m))
      (map (\<lambda>l. \<lparr>lr_entry = k, lr_account = ac_code (jl_account l), lr_amount = jl_amount l, lr_type = jl_type l,
         lr_memo = (if jl_memo l = [] then None else Some (jl_memo l))\<rparr>) ls) e0 = (Inr (), e0\<lparr>je_lines := je_lines e0 @ ls\<rparr>)"
    by (induction ls arbitrary: e0) (auto simp: oper_simps addLine_def JournalLine_def)
  with assms show ?thesis by (simp add: lines_data_def k_def ls_def)
qed

lemma read_back:
  assumes saved: "pj_saveBatch digest es s = (Inr (), s')" and e: "e \<in> set (keep_last es)" "readable e"
    and rows: "\<forall>r\<in>set (entry_rows s). \<not> is_blank (er_tenant r)"
  shows "pj_findById digest s' (je_id e) = Inr (Some (e\<lparr>je_id := toUuid digest (je_id e),
      je_tenant := (case find (\<lambda>r. er_id r = toUuid digest (je_id e)) (entry_rows s) of
         None \<Rightarrow> je_tenant e | Some r \<Rightarrow> er_tenant r),
      je_reference := or_undefined (je_reference e)\<rparr>))"
proof -
  let ?k = "toUuid digest (je_id e)"
  let ?old = "find (\<lambda>r. er_id r = ?k) (entry_rows s)"
  from e(1) have "es \<noteq> []" by (auto simp: keep_last_def)
  with saved pj_saveBatch_cases [of digest es s]
  have d: "distinct (map (toUuid digest \<circ> je_id) (keep_last es))" and s': "s' = pj_saved digest es s" by auto
  have found: "find (\<lambda>e'. toUuid digest (je_id e') = ?k) (keep_last es) = Some e"
  proof -
    from e(1) obtain e' where e': "find (\<lambda>e'. toUuid digest (je_id e') = ?k) (keep_last es) = Some e'"
      by (metis (mono_tags, lifting) find_None_iff not_None_eq)
    then have "e' \<in> set (keep_last es)" "toUuid digest (je_id e') = ?k" by (auto simp: find_Some_iff)
    with d e(1) have "e' = e" by (auto simp: distinct_map inj_on_def)
    with e' show ?thesis by simp
  qed
  have ids: "distinct (map er_id (map (entry_values digest) (keep_last es)))"
    using d by (simp add: entry_values_def o_def)
  have "find (\<lambda>v. er_id v = ?k) (map (entry_values digest) (keep_last es)) = Some (entry_values digest e)"
    using found by (simp add: find_map entry_values_def)
  then have row: "find (\<lambda>r. er_id r = ?k) (entry_rows s') = Some (written_over (entry_values digest e) ?old)"
    by (simp add: s' pj_saved_def find_fold_upsert [OF ids])
  have lines: "filter (\<lambda>l. lr_entry l = ?k) (line_rows s') = lines_data digest e"
    using row_lines_saved [OF d, of s ?k] found by (simp add: s' row_lines_def)
  have tenant: "\<not> is_blank (case ?old of None \<Rightarrow> je_tenant e | Some r \<Rightarrow> er_tenant r)"
    using e(2) rows by (auto simp: readable_def find_Some_iff split: option.splits)
  have "JournalEntryId ?k = Inr ?k" by (simp add: JournalEntryId_def toUuid_not_blank)
  moreover have "TenantId (case ?old of None \<Rightarrow> je_tenant e | Some r \<Rightarrow> er_tenant r) =
      Inr (case ?old of None \<Rightarrow> je_tenant e | Some r \<Rightarrow> er_tenant r)"
    using tenant by (simp add: TenantId_def)
  ultimately show ?thesis
    using e(2) unfolding pj_findById_def row readable_def
    by (simp add: pj_rebuild_def written_over_def entry_values_def lines refill_lines JournalEntry_def or_undefined_def
        cong: option.case_cong)
qed

text \<open>
  What was saved is read back: after a batch is accepted, the last entry of each id is found under
  its id with its date, text, method, reference and all its lines in order. Its id is the UUID of the
  id and its tenant is that of the entry that was stored under this UUID before, if there was one.
\<close>

theorem journal_read_back:
  assumes "pj_saveBatch digest es s = (Inr (), s')" and "e \<in> set (keep_last es)" and "readable e"
    and "\<forall>r\<in>set (entry_rows s). \<not> is_blank (er_tenant r)"
  shows "pj_findById digest s' (je_id e) = Inr (Some (e\<lparr>je_id := toUuid digest (je_id e),
      je_tenant := (case find (\<lambda>r. er_id r = toUuid digest (je_id e)) (entry_rows s) of
         None \<Rightarrow> je_tenant e | Some r \<Rightarrow> er_tenant r),
      je_reference := or_undefined (je_reference e)\<rparr>))"
  using assms by (rule read_back)

definition return_entry :: journal_entry where
  "return_entry = \<lparr>je_id = ''e7'', je_tenant = ''t1'', je_date = 3, je_description = ''Return'', je_method = Accrual,
     je_reference = Some [], je_lines =
       [\<lparr>jl_account = acc_inventory, jl_amount = 250, jl_type = Debit, jl_memo = ''Returned stock''\<rparr>,
        \<lparr>jl_account = costOfGoodsSold, jl_amount = 250, jl_type = Credit, jl_memo = []\<rparr>]\<rparr>"

lemma return_entry_readable: "readable return_entry"
  by (simp add: readable_def return_entry_def acc_inventory_def costOfGoodsSold_def AccountCode_def fromCode_def
      is_blank_def trim_def is_space_def)

theorem journal_read_back_witness:
  "pj_findById (\<lambda>i. ''abcdef'') (snd (pj_saveBatch (\<lambda>i. ''abcdef'') [return_entry] (jw_books no_books))) ''e7''
    = Inr (Some (return_entry\<lparr>je_id := ''abcdef----'', je_reference := None\<rparr>))"
proof -
  let ?dg = "\<lambda>i. ''abcdef''"
  have last: "keep_last [return_entry] = [return_entry]" by (simp add: keep_last_def)
  have "list_all (\<lambda>l. fits_int (lr_amount l)) (lines_data ?dg return_entry)"
    by (simp add: lines_data_def return_entry_def fits_int_def)
  then have saved: "pj_saveBatch ?dg [return_entry] (jw_books no_books) = (Inr (), pj_saved ?dg [return_entry] (jw_books no_books))"
    by (simp add: pj_saveBatch_def last Let_def oper_simps pj_saved_def)
  have uuid: "toUuid ?dg (je_id return_entry) = ''abcdef----''"
    and uuid7: "toUuid ?dg ''e7'' = ''abcdef----''"
    by (simp_all add: toUuid_def return_entry_def uuid_form_def slice_def Let_def)
  have none: "entry_rows (jw_books no_books) = []" by (simp add: no_books_def)
  have same: "je_id return_entry = ''e7''" "je_tenant return_entry = ''t1''" "je_reference return_entry = Some []"
    by (simp_all add: return_entry_def)
  have kept: "return_entry\<lparr>je_id := i, je_tenant := ''t1'', je_reference := None\<rparr> =
      return_entry\<lparr>je_id := i, je_reference := None\<rparr>" for i by (simp add: return_entry_def)
  show ?thesis
    using journal_read_back [OF saved, of return_entry] return_entry_readable
    by (simp add: last none uuid uuid7 saved or_undefined_def same kept)
qed

lemma add_lines:
  "op_each (\<lambda>(a, x, t, memo). addLine a x t memo) ls e = (Inr u, e') \<Longrightarrow>
   e' = e\<lparr>je_lines := je_lines e @ map (\<lambda>(a, x, t, memo). \<lparr>jl_account = a, jl_amount = x, jl_type = t, jl_memo = memo\<rparr>) ls\<rparr>
   \<and> (\<forall>(a, x, t, memo)\<in>set ls. 0 < x)"
proof (induction ls arbitrary: e)
  case (Cons l ls)
  obtain a x t memo where l: "l = (a, x, t, memo)" by (cases l)
  from Cons.prems have pos: "0 < x" by (auto simp: l oper_simps addLine_def JournalLine_def split: if_splits)
  let ?e = "e\<lparr>je_lines := je_lines e @ [\<lparr>jl_account = a, jl_amount = x, jl_type = t, jl_memo = memo\<rparr>]\<rparr>"
  have "addLine a x t memo e = (Inr (), ?e)" using pos by (simp add: oper_simps addLine_def JournalLine_def)
  with Cons.prems have "op_each (\<lambda>(a, x, t, memo). addLine a x t memo) ls ?e = (Inr u, e')"
    by (simp add: l op_seq_eval)
  from Cons.IH [OF this] pos show ?case by (auto simp: l)
qed (simp add: oper_simps)

lemma fromCode_idem: "fromCode (ac_code (fromCode c)) = fromCode c"
  by (simp add: fromCode_def acc_cash_def accountsReceivable_def acc_inventory_def accountsPayable_def salesRevenue_def
      costOfGoodsSold_def inventoryWriteOffExpense_def AccountCode_def)


lemma filled_entry_readable:
  assumes "filled_entry (JournalEntry i t date desc m ref)
      (map (\<lambda>l. (fromCode (li_account l), li_amount l, li_type l, case li_memo l of None \<Rightarrow> [] | Some memo \<Rightarrow> memo)) ls) = Inr e"
    and "\<not> is_blank t"
  shows "readable e \<and> je_id e = i \<and> je_tenant e = t
    \<and> map (\<lambda>l. (jl_amount l, jl_type l)) (je_lines e) = map (\<lambda>l. (li_amount l, li_type l)) ls"
proof -
  let ?specs = "map (\<lambda>l. (fromCode (li_account l), li_amount l, li_type l, case li_memo l of None \<Rightarrow> [] | Some memo \<Rightarrow> memo)) ls"
  from assms(1) have "op_each (\<lambda>(a, x, t, memo). addLine a x t memo) ?specs (JournalEntry i t date desc m ref) = (Inr (), e)"
    by (auto simp: filled_entry_def split: prod.splits sum.splits if_splits)
  from add_lines [OF this] assms(2) show ?thesis
    by (auto simp: readable_def JournalEntry_def fromCode_idem o_def)
qed

text \<open>
  The books of one tenant are open to another: the id of a new entry comes from the caller, and a
  save under an id that is stored overwrites what is stored under it, whoever it belongs to. So when a
  tenant creates an entry with the id of another tenant's entry, the call succeeds, the other tenant
  reads the new lines as its own entry, and the caller cannot read the entry it created.
\<close>

theorem create_overwrites_another_tenant:
  assumes "CreateJournalEntryUseCase (pg_journal digest) inp w = (Inr ok, w')"
    and "find (\<lambda>r. er_id r = toUuid digest (ci_id inp)) (entry_rows (jw_books w)) = Some r"
    and "er_tenant r \<noteq> ci_tenant inp" and "\<forall>r\<in>set (entry_rows (jw_books w)). \<not> is_blank (er_tenant r)"
  shows "GetJournalEntryByIdUseCase (pg_journal digest) (jw_books w') (ci_tenant inp) (ci_id inp) = Inr None
    \<and> (\<exists>e. GetJournalEntryByIdUseCase (pg_journal digest) (jw_books w') (er_tenant r) (ci_id inp) = Inr (Some e)
         \<and> map (\<lambda>l. (jl_amount l, jl_type l)) (je_lines e) = map (\<lambda>l. (li_amount l, li_type l)) (ci_lines inp))"
proof -
  let ?built = "result_bind (JournalEntryId (ci_id inp)) (\<lambda>i. result_bind (TenantId (ci_tenant inp)) (\<lambda>t.
       filled_entry (JournalEntry i t (ci_date inp) (ci_description inp) (ci_method inp) (ci_reference inp))
         (map (\<lambda>l. (fromCode (li_account l), li_amount l, li_type l, case li_memo l of None \<Rightarrow> [] | Some m \<Rightarrow> m))
           (ci_lines inp))))"
  from assms(1) obtain e where built: "?built = Inr e"
    by (cases ?built) (auto simp: CreateJournalEntryUseCase_def oper_simps)
  then have ids: "JournalEntryId (ci_id inp) = Inr (ci_id inp)" "TenantId (ci_tenant inp) = Inr (ci_tenant inp)"
      "\<not> is_blank (ci_tenant inp)"
    by (auto simp: result_bind_Inr_iff JournalEntryId_def TenantId_def make_id_Inr_iff)
  with built have "filled_entry (JournalEntry (ci_id inp) (ci_tenant inp) (ci_date inp) (ci_description inp) (ci_method inp)
        (ci_reference inp)) (map (\<lambda>l. (fromCode (li_account l), li_amount l, li_type l,
          case li_memo l of None \<Rightarrow> [] | Some m \<Rightarrow> m)) (ci_lines inp)) = Inr e" by simp
  from filled_entry_readable [OF this ids(3)]
  have e: "readable e" "je_id e = ci_id inp" "je_tenant e = ci_tenant inp"
      "map (\<lambda>l. (jl_amount l, jl_type l)) (je_lines e) = map (\<lambda>l. (li_amount l, li_type l)) (ci_lines inp)"
    by blast+
  from assms(1) built obtain s' where s': "pj_saveBatch digest [e] (jw_books w) = (Inr (), s')" "jw_books w' = s'"
    by (auto simp: CreateJournalEntryUseCase_def oper_simps pg_journal_def pj_save_def split: prod.splits sum.splits)
  have "e \<in> set (keep_last [e])" by (simp add: keep_last_def)
  from read_back [OF s'(1) this e(1) assms(4)] assms(2) s'(2) e(2)
  have "pj_findById digest (jw_books w') (ci_id inp) = Inr (Some (e\<lparr>je_id := toUuid digest (ci_id inp),
      je_tenant := er_tenant r, je_reference := or_undefined (je_reference e)\<rparr>))" by simp
  with ids(1) assms(3) e(4) show ?thesis
    by (simp add: GetJournalEntryByIdUseCase_def pg_journal_def)
qed

definition other_books :: "journal_db journal_world" where
  "other_books = no_books\<lparr>jw_books := pj_saved (\<lambda>i. ''abcdef'') [return_entry] (jw_books no_books)\<rparr>"

theorem create_overwrites_another_tenant_witness:
  "\<exists>e. GetJournalEntryByIdUseCase (pg_journal (\<lambda>i. ''abcdef''))
      (jw_books (snd (CreateJournalEntryUseCase (pg_journal (\<lambda>i. ''abcdef'')) (sale_entry\<lparr>ci_tenant := ''t2''\<rparr>) other_books)))
      ''t1'' ''e1'' = Inr (Some e) \<and> length (je_lines e) = 3"
proof -
  let ?dg = "\<lambda>i. ''abcdef''"
  let ?inp = "sale_entry\<lparr>ci_tenant := ''t2''\<rparr>"
  have rows: "entry_rows (jw_books other_books) = [entry_values ?dg return_entry]"
    by (simp add: other_books_def pj_saved_def no_books_def keep_last_def upsert_entry_def)
  have uuid: "toUuid ?dg (je_id return_entry) = ''abcdef----''" "toUuid ?dg (ci_id ?inp) = ''abcdef----''"
    and uuid1: "toUuid ?dg (ci_id sale_entry) = ''abcdef----''"
    by (simp_all add: toUuid_def return_entry_def sale_entry_def uuid_form_def slice_def Let_def)
  have r: "find (\<lambda>r. er_id r = toUuid ?dg (ci_id ?inp)) (entry_rows (jw_books other_books)) = Some (entry_values ?dg return_entry)"
    by (simp add: rows entry_values_def uuid uuid1)
  have tenant: "er_tenant (entry_values ?dg return_entry) = ''t1''" by (simp add: entry_values_def return_entry_def)
  have ok: "fst (CreateJournalEntryUseCase (pg_journal ?dg) ?inp other_books) = Inr True"
    by (simp add: CreateJournalEntryUseCase_def sale_entry_def JournalEntryId_def TenantId_def filled_entry_def JournalEntry_def
        addLine_def JournalLine_def oper_simps isBalanced_def pg_journal_def pj_save_def pj_saveBatch_def keep_last_def
        lines_data_def fits_int_def Let_def is_blank_def trim_def is_space_def)
  obtain w' where run: "CreateJournalEntryUseCase (pg_journal ?dg) ?inp other_books = (Inr True, w')"
    using ok by (cases "CreateJournalEntryUseCase (pg_journal ?dg) ?inp other_books") simp
  have "er_tenant (entry_values ?dg return_entry) \<noteq> ci_tenant ?inp" by (simp add: tenant)
  moreover have "\<forall>r\<in>set (entry_rows (jw_books other_books)). \<not> is_blank (er_tenant r)"
    by (simp add: rows tenant is_blank_def trim_def is_space_def)
  ultimately obtain e where e: "GetJournalEntryByIdUseCase (pg_journal ?dg) (jw_books w') ''t1'' (ci_id ?inp) = Inr (Some e)"
      "map (\<lambda>l. (jl_amount l, jl_type l)) (je_lines e) = map (\<lambda>l. (li_amount l, li_type l)) (ci_lines ?inp)"
    using create_overwrites_another_tenant [OF run r] by (auto simp: tenant)
  have "length (je_lines e) = 3" using arg_cong [OF e(2), where f = length] by (simp add: sale_entry_def)
  moreover have "ci_id ?inp = ''e1''" by (simp add: sale_entry_def)
  ultimately show ?thesis using e(1) by (auto simp: run)
qed

end
