(* ===== verification/ItemWork.thy ===== *)
theory ItemWork
  imports InventoryStore
begin

text \<open>
  The items of a use case that changes many of them: it loads the items of its lines, keeps the
  objects in a Map by SKU and location, calls methods on them line by line, collects the changed
  objects and saves them in one batch (ManageStockTransfers.ts, ManageReplenishment.ts, ManageReturns.ts
  under src/src/application/useCases). The lemmas tell what such a batch does to the sums over the
  table: each sum changes by what the calls on the objects changed.
\<close>

section \<open>The objects of a use case\<close>

record item_work =
  work_items :: "(string, inventory_item) js_map"
  work_changed :: "string list"

definition add_once :: "'a \<Rightarrow> 'a list \<Rightarrow> 'a list" where
  "add_once x xs = (if x \<in> set xs then xs else xs @ [x])"

text \<open>A method call on the object under a key, which is changed in place also when the call throws.\<close>

definition change_item :: "string \<Rightarrow> (inventory_item, unit) oper \<Rightarrow> inventory_item \<Rightarrow> ('a item_work_scheme, unit) oper" where
  "change_item key change i = (case change i of (r, i') \<Rightarrow>
     op_seq (op_modify (\<lambda>w. w\<lparr>work_items := AList.update key i' (work_items w)\<rparr>))
     (op_seq (op_lift r)
       (op_modify (\<lambda>w. w\<lparr>work_changed := add_once key (work_changed w)\<rparr>))))"

definition get_or_create :: "string \<Rightarrow> string \<Rightarrow> string \<Rightarrow> string \<Rightarrow> ('a item_work_scheme, inventory_item) oper" where
  "get_or_create uuid key sku loc = op_get (\<lambda>w. case map_of (work_items w) key of
     Some i \<Rightarrow> op_return i
   | None \<Rightarrow> op_bind (op_lift (inventory_createNew uuid sku loc)) (\<lambda>i.
       op_seq (op_modify (\<lambda>w. w\<lparr>work_items := AList.update key i (work_items w)\<rparr>)) (op_return i)))"

definition changed_items :: "'a item_work_scheme \<Rightarrow> inventory_item list" where
  "changed_items w = List.map_filter (map_of (work_items w)) (work_changed w)"

definition keyed_items :: "(string \<Rightarrow> string \<Rightarrow> string) \<Rightarrow> inventory_item list \<Rightarrow> (string, inventory_item) js_map" where
  "keyed_items key is = fold (\<lambda>i m. AList.update (key (isku i) (ilocationId i)) i m) is []"

section \<open>Sums over the table\<close>

definition stock_field :: "(inventory_row \<Rightarrow> number) \<Rightarrow> bool" where
  "stock_field f \<longleftrightarrow> f = row_quantity \<or> f = row_allocated \<or> f = row_inTransit"

lemma stock_fields [simp]: "stock_field row_quantity" "stock_field row_allocated" "stock_field row_inTransit"
  by (simp_all add: stock_field_def)

lemma stock_field_set: "stock_field f \<Longrightarrow> f (set_amounts i r) = f (row_of i)"
  by (auto simp: stock_field_def set_amounts_def row_of_def)

definition stock_sum :: "(inventory_row \<Rightarrow> number) \<Rightarrow> inventory_db \<Rightarrow> number" where
  "stock_sum f s = (\<Sum>r\<leftarrow>rows s. f r)"

definition stored :: "(inventory_row \<Rightarrow> number) \<Rightarrow> inventory_db \<Rightarrow> ident \<Rightarrow> number" where
  "stored f s k = (case find (\<lambda>r. row_id r = k) (rows s) of None \<Rightarrow> 0 | Some r \<Rightarrow> f r)"

lemma sum_list_swap:
  fixes h :: "'a \<Rightarrow> 'b \<Rightarrow> 'c::comm_monoid_add"
  shows "(\<Sum>x\<leftarrow>xs. \<Sum>y\<leftarrow>ys. h x y) = (\<Sum>y\<leftarrow>ys. \<Sum>x\<leftarrow>xs. h x y)"
  by (induction xs) (simp_all add: sum_list_addf)

lemma sum_list_only:
  fixes h :: "'a \<Rightarrow> number"
  assumes "distinct xs" and "x \<in> set xs" and "\<And>y. y \<in> set xs \<Longrightarrow> y \<noteq> x \<Longrightarrow> h y = 0"
  shows "(\<Sum>y\<leftarrow>xs. h y) = h x"
  using assms
proof (induction xs)
  case (Cons a xs)
  show ?case
  proof (cases "a = x")
    case True
    with Cons.prems have "\<And>y. y \<in> set xs \<Longrightarrow> h y = 0" by auto
    then have "(\<Sum>y\<leftarrow>xs. h y) = 0" by (induction xs) auto
    with True show ?thesis by simp
  next
    case False
    with Cons show ?thesis by auto
  qed
qed simp

lemma update_fresh: "k \<notin> fst ` set m \<Longrightarrow> AList.update k v m = m @ [(k, v)]"
  by (induction m) auto

lemma keyed_distinct:
  "distinct (map f xs) \<Longrightarrow> f ` set xs \<inter> fst ` set m = {} \<Longrightarrow>
   fold (\<lambda>x m. AList.update (f x) x m) xs m = m @ map (\<lambda>x. (f x, x)) xs"
proof (induction xs arbitrary: m)
  case (Cons x xs)
  then have "AList.update (f x) x m = m @ [(f x, x)]" by (intro update_fresh) auto
  moreover have "fold (\<lambda>x m. AList.update (f x) x m) xs (m @ [(f x, x)]) = (m @ [(f x, x)]) @ map (\<lambda>x. (f x, x)) xs"
    using Cons.prems by (intro Cons.IH) auto
  ultimately show ?case by simp
qed simp

lemma update_rows_sum:
  assumes f: "stock_field f" and ids: "distinct (map iid ds)" and rows: "distinct (map row_id rs)"
    and hit: "\<And>i. i \<in> set ds \<Longrightarrow> \<exists>r\<in>set rs. hits i r"
  shows "(\<Sum>r\<leftarrow>update_rows ds rs. f r) = (\<Sum>r\<leftarrow>rs. f r)
    + (\<Sum>i\<leftarrow>ds. f (row_of i) - (case find (\<lambda>r. row_id r = iid i) rs of None \<Rightarrow> 0 | Some r \<Rightarrow> f r))"
proof -
  let ?h = "\<lambda>i r. if hits i r then f (row_of i) - f r else 0"
  have item: "f (case find (\<lambda>i. hits i r) ds of None \<Rightarrow> r | Some i \<Rightarrow> set_amounts i r) = f r + (\<Sum>i\<leftarrow>ds. ?h i r)" for r
  proof (cases "find (\<lambda>i. hits i r) ds")
    case None
    then have "\<And>i. i \<in> set ds \<Longrightarrow> ?h i r = 0" by (auto simp: find_None_iff)
    then have "(\<Sum>i\<leftarrow>ds. ?h i r) = 0" by (induction ds) auto
    with None show ?thesis by simp
  next
    case (Some i)
    then have i: "i \<in> set ds" "hits i r" by (auto dest: find_SomeD)
    have "distinct ds" using ids by (simp add: distinct_map)
    moreover have "?h j r = 0" if "j \<in> set ds" "j \<noteq> i" for j
    proof -
      have "iid j \<noteq> iid i" using ids that i(1) by (auto simp: distinct_map inj_on_def)
      with i(2) show ?thesis by (auto simp: hits_def)
    qed
    ultimately have "(\<Sum>i\<leftarrow>ds. ?h i r) = ?h i r" using i(1) by (intro sum_list_only)
    with Some i(2) f show ?thesis by (simp add: stock_field_set)
  qed
  have row: "(\<Sum>r\<leftarrow>rs. ?h i r) = f (row_of i) - (case find (\<lambda>r. row_id r = iid i) rs of None \<Rightarrow> 0 | Some r \<Rightarrow> f r)"
    if i: "i \<in> set ds" for i
  proof -
    obtain r where r: "r \<in> set rs" "hits i r" using hit [OF i] by blast
    have "find (\<lambda>x. row_id x = row_id r) rs = Some r" using rows r(1) by (rule find_by_key)
    moreover have "row_id r = iid i" using r(2) by (simp add: hits_def)
    ultimately have found: "find (\<lambda>x. row_id x = iid i) rs = Some r" by simp
    have "?h i y = 0" if "y \<in> set rs" "y \<noteq> r" for y
    proof -
      have "row_id y \<noteq> row_id r" using rows that r(1) by (auto simp: distinct_map inj_on_def)
      with \<open>row_id r = iid i\<close> show ?thesis by (auto simp: hits_def)
    qed
    then have "(\<Sum>r\<leftarrow>rs. ?h i r) = ?h i r" using rows r(1) by (intro sum_list_only) (auto simp: distinct_map)
    with r(2) found show ?thesis by simp
  qed
  have "(\<Sum>r\<leftarrow>update_rows ds rs. f r) = (\<Sum>r\<leftarrow>rs. f r) + (\<Sum>r\<leftarrow>rs. \<Sum>i\<leftarrow>ds. ?h i r)"
    by (simp add: update_rows_def o_def item sum_list_addf)
  also have "(\<Sum>r\<leftarrow>rs. \<Sum>i\<leftarrow>ds. ?h i r) = (\<Sum>i\<leftarrow>ds. \<Sum>r\<leftarrow>rs. ?h i r)" by (rule sum_list_swap)
  also have "\<dots> = (\<Sum>i\<leftarrow>ds. f (row_of i) - (case find (\<lambda>r. row_id r = iid i) rs of None \<Rightarrow> 0 | Some r \<Rightarrow> f r))"
    using row by (intro arg_cong [where f = sum_list] map_cong) auto
  finally show ?thesis .
qed

lemma rejects_return: "op_each (\<lambda>i. op_reject (c i) (e i)) is s = (Inr (), s') \<longleftrightarrow> s' = s \<and> (\<forall>i\<in>set is. \<not> c i)"
  by (induction "is") (auto simp: oper_simps)

lemma rejects_outcome: "op_each (\<lambda>i. op_reject (c i) (e i)) is s = (r, s') \<Longrightarrow> s' = s"
  by (induction "is") (auto simp: oper_simps split: if_splits sum.splits)

lemma pi_saveBatch_rows:
  assumes "pi_saveBatch is s = (Inr (), s')" and "distinct (map iid is)" and "is \<noteq> []"
    and c: "c = filter (\<lambda>i. iid i \<notin> set (map row_id (rows s))) is"
    and d: "d = filter (\<lambda>i. iid i \<in> set (map row_id (rows s))) is"
  shows "rows s' = update_rows d (rows s @ map row_of c)
    \<and> (\<forall>i\<in>set d. \<exists>r\<in>set (rows s @ map row_of c). hits i r)
    \<and> (\<exists>s1. op_each (insert_row \<circ> row_of) c s = (Inr (), s1) \<and> rows s1 = rows s @ map row_of c)"
proof -
  have unique: "map snd (fold (\<lambda>i m. AList.update (iid i) i m) is []) = is"
    using keyed_distinct [OF assms(2), of "[]"] by (simp add: o_def)
  let ?body = "op_seq (op_each (insert_row \<circ> row_of) c)
     (op_get (\<lambda>s1. op_seq (op_modify (\<lambda>s. s\<lparr>rows := update_rows d (rows s)\<rparr>))
       (op_seq (op_each (\<lambda>i. op_reject (\<not> list_ex (hits i) (rows s1)) (ConcurrencyError (isku i) (ilocationId i))) d)
         (to_outbox (concat (map ievents is))))))"
  have "pi_saveBatch is s = transaction ?body s"
    using assms(3) by (simp add: pi_saveBatch_def Let_def unique oper_simps c d)
  with assms(1) have body: "?body s = (Inr (), s')" by (auto simp: transaction_def split: prod.splits sum.splits)
  obtain s1 where s1: "op_each (insert_row \<circ> row_of) c s = (Inr (), s1)"
    using body by (cases "op_each (insert_row \<circ> row_of) c s") (auto simp: oper_simps split: sum.splits)
  then have r1: "rows s1 = rows s @ map row_of c" by (rule insert_rows_return)
  let ?chk = "op_each (\<lambda>i. op_reject (\<not> list_ex (hits i) (rows s1)) (ConcurrencyError (isku i) (ilocationId i))) d"
  let ?s2 = "s1\<lparr>rows := update_rows d (rows s1)\<rparr>"
  obtain r3 s3 where chk: "?chk ?s2 = (r3, s3)" by fastforce
  with body s1 have "r3 = Inr ()" by (auto simp: oper_simps to_outbox_def split: sum.splits)
  with chk have "s3 = ?s2 \<and> (\<forall>i\<in>set d. list_ex (hits i) (rows s1))" by (simp add: rejects_return)
  with body s1 chk \<open>r3 = Inr ()\<close> r1 show ?thesis
    by (auto simp: oper_simps to_outbox_def list_ex_iff)
qed

text \<open>What a batch that is accepted does to a sum over the table.\<close>

lemma pi_saveBatch_sum:
  assumes saved: "pi_saveBatch is s = (Inr (), s')" and ids: "distinct (map iid is)"
    and rows: "distinct (map row_id (rows s))" and f: "stock_field f"
  shows "stock_sum f s' = stock_sum f s + (\<Sum>i\<leftarrow>is. f (row_of i) - stored f s (iid i))"
proof (cases "is = []")
  case True
  with saved show ?thesis by (simp add: pi_saveBatch_def oper_simps)
next
  case False
  define c where "c = filter (\<lambda>i. iid i \<notin> set (map row_id (rows s))) is"
  define d where "d = filter (\<lambda>i. iid i \<in> set (map row_id (rows s))) is"
  note all = pi_saveBatch_rows [OF saved ids False c_def d_def]
  let ?rs = "rows s @ map row_of c"
  have "distinct (map iid c)" "distinct (map iid d)" using ids by (auto simp: c_def d_def distinct_map_filter)
  have apart: "row_id r \<noteq> iid i" if "i \<in> set c" "r \<in> set (rows s)" for i r
  proof
    assume "row_id r = iid i"
    with that(2) have "iid i \<in> row_id ` set (rows s)" by (metis image_eqI)
    with that(1) show False by (simp add: c_def)
  qed
  have "row_id ` set (rows s) \<inter> iid ` set c = {}" using apart by auto
  then have drs: "distinct (map row_id ?rs)"
    using rows \<open>distinct (map iid c)\<close> by (simp add: o_def image_image)
  have fnd: "(case find (\<lambda>r. row_id r = iid i) ?rs of None \<Rightarrow> 0 | Some r \<Rightarrow> f r) = stored f s (iid i)" if "i \<in> set d" for i
  proof -
    have "find (\<lambda>r. row_id r = iid i) (rows s) \<noteq> None" using that by (auto simp: d_def find_None_iff)
    then show ?thesis by (auto simp: stored_def find_append)
  qed
  have new: "stored f s (iid i) = 0" if "i \<in> set c" for i
  proof -
    have "find (\<lambda>r. row_id r = iid i) (rows s) = None" using apart that by (auto simp: find_None_iff)
    then show ?thesis by (simp add: stored_def)
  qed
  have "stock_sum f s' = (\<Sum>r\<leftarrow>?rs. f r) + (\<Sum>i\<leftarrow>d. f (row_of i) - stored f s (iid i))"
    using update_rows_sum [OF f \<open>distinct (map iid d)\<close> drs] all fnd
    by (simp add: stock_sum_def cong: map_cong)
  also have "(\<Sum>r\<leftarrow>?rs. f r) = stock_sum f s + (\<Sum>i\<leftarrow>c. f (row_of i) - stored f s (iid i))"
    using new by (simp add: stock_sum_def o_def cong: map_cong)
  also have "\<dots> + (\<Sum>i\<leftarrow>d. f (row_of i) - stored f s (iid i)) =
      stock_sum f s + (\<Sum>i\<leftarrow>is. f (row_of i) - stored f s (iid i))"
    using sum_list_filter_split [of "\<lambda>i. f (row_of i) - stored f s (iid i)" "\<lambda>i. iid i \<in> set (map row_id (rows s))" "is"]
    by (simp add: c_def d_def)
  finally show ?thesis .
qed

section \<open>Following the objects\<close>

text \<open>
  \<open>tracked s w\<close>: the objects of \<open>w\<close> were read from the table \<open>s\<close> or are new, and those not among the
  changed ones are as they were read. \<open>gain f s w\<close> is by how much the objects exceed the table.
\<close>

definition tracked :: "inventory_db \<Rightarrow> 'a item_work_scheme \<Rightarrow> bool" where
  "tracked s w \<longleftrightarrow> distinct (map fst (work_items w)) \<and> distinct (map (iid \<circ> snd) (work_items w))
     \<and> distinct (work_changed w) \<and> set (work_changed w) \<subseteq> fst ` set (work_items w)
     \<and> (\<forall>k i f. (k, i) \<in> set (work_items w) \<longrightarrow> k \<notin> set (work_changed w) \<longrightarrow> stock_field f
          \<longrightarrow> f (row_of i) = stored f s (iid i))"

definition gain :: "(inventory_row \<Rightarrow> number) \<Rightarrow> inventory_db \<Rightarrow> 'a item_work_scheme \<Rightarrow> number" where
  "gain f s w = (\<Sum>(k, i)\<leftarrow>work_items w. f (row_of i) - stored f s (iid i))"

lemma changed_known: "tracked s w \<Longrightarrow> k \<in> set (work_changed w) \<Longrightarrow> map_of (work_items w) k = Some (the (map_of (work_items w) k))"
  by (cases "map_of (work_items w) k") (auto simp: tracked_def map_of_eq_None_iff)

lemma changed_items_map:
  assumes "tracked s w"
  shows "changed_items w = map (\<lambda>k. the (map_of (work_items w) k)) (work_changed w)"
proof -
  have "List.map_filter (map_of (work_items w)) ks = map (\<lambda>k. the (map_of (work_items w) k)) ks"
    if "set ks \<subseteq> set (work_changed w)" for ks
    using that
  proof (induction ks)
    case (Cons k ks)
    with changed_known [OF assms, of k] show ?case by (cases "map_of (work_items w) k") (auto simp: map_filter_simps)
  qed (simp add: map_filter_simps)
  then show ?thesis by (simp add: changed_items_def)
qed

lemma sum_changed:
  assumes t: "tracked s w" and f: "stock_field f"
  shows "(\<Sum>i\<leftarrow>changed_items w. f (row_of i) - stored f s (iid i)) = gain f s w"
proof -
  let ?m = "work_items w" and ?h = "\<lambda>i. f (row_of i) - stored f s (iid i)"
  have d: "distinct (map fst ?m)" "distinct (work_changed w)" "set (work_changed w) \<subseteq> fst ` set ?m"
    using t by (auto simp: tracked_def)
  have all: "gain f s w = (\<Sum>k\<in>fst ` set ?m. ?h (the (map_of ?m k)))"
  proof -
    have "gain f s w = (\<Sum>k\<leftarrow>map fst ?m. ?h (the (map_of ?m k)))"
      unfolding gain_def using d(1) by (auto intro!: arg_cong [where f = sum_list] simp: o_def)
    then show ?thesis using sum_list_distinct_conv_sum_set [OF d(1)] by simp
  qed
  have "(\<Sum>i\<leftarrow>changed_items w. ?h i) = (\<Sum>k\<leftarrow>work_changed w. ?h (the (map_of ?m k)))"
    by (simp add: changed_items_map [OF t] o_def)
  also have "\<dots> = (\<Sum>k\<in>set (work_changed w). ?h (the (map_of ?m k)))"
    using d(2) by (simp add: sum_list_distinct_conv_sum_set)
  also have "\<dots> = (\<Sum>k\<in>fst ` set ?m. ?h (the (map_of ?m k)))"
  proof (rule sum.mono_neutral_left)
    show "\<forall>k\<in>fst ` set ?m - set (work_changed w). ?h (the (map_of ?m k)) = 0"
    proof
      fix k assume k: "k \<in> fst ` set ?m - set (work_changed w)"
      then obtain i where i: "(k, i) \<in> set ?m" by auto
      with d(1) have "map_of ?m k = Some i" by simp
      with i k t f show "?h (the (map_of ?m k)) = 0" by (auto simp: tracked_def)
    qed
  qed (use d(3) in auto)
  finally show ?thesis using all by simp
qed

lemma changed_ids: "tracked s w \<Longrightarrow> distinct (map iid (changed_items w))"
proof -
  assume t: "tracked s w"
  let ?g = "\<lambda>k. the (map_of (work_items w) k)"
  have mem: "(k, ?g k) \<in> set (work_items w)" if "k \<in> set (work_changed w)" for k
    using changed_known [OF t that] by (rule map_of_SomeD)
  have "inj_on (\<lambda>k. iid (?g k)) (set (work_changed w))"
  proof (rule inj_onI)
    fix k k' assume k: "k \<in> set (work_changed w)" "k' \<in> set (work_changed w)" and same: "iid (?g k) = iid (?g k')"
    have "inj_on (iid \<circ> snd) (set (work_items w))" using t by (simp add: tracked_def distinct_map)
    from inj_onD [OF this _ mem [OF k(1)] mem [OF k(2)]] same show "k = k'" by simp
  qed
  then show ?thesis using t by (simp add: changed_items_map [OF t] tracked_def distinct_map o_def)
qed

lemma saved_gain:
  assumes "tracked s w" and "pi_inv s" and "stock_field f" and "pi_saveBatch (changed_items w) s = (Inr (), s')"
  shows "stock_sum f s' = stock_sum f s + gain f s w"
  using pi_saveBatch_sum [OF assms(4) changed_ids [OF assms(1)] _ assms(3)] sum_changed [OF assms(1,3)] assms(2)
  by (simp add: pi_inv_def)

section \<open>What the calls do\<close>

lemma add_once_set [simp]: "set (add_once x xs) = insert x (set xs)" "distinct xs \<Longrightarrow> distinct (add_once x xs)"
  by (auto simp: add_once_def)

lemma set_update_items:
  "distinct (map fst m) \<Longrightarrow> set (AList.update k v m) = insert (k, v) {p \<in> set m. fst p \<noteq> k}"
  by (induction m) (auto simp: image_iff)

lemma distinct_values_update:
  assumes "distinct (map fst m)" and "distinct (map (g \<circ> snd) m)"
    and "\<And>k' i. (k', i) \<in> set m \<Longrightarrow> g i = g v \<Longrightarrow> k' = k"
  shows "distinct (map (g \<circ> snd) (AList.update k v m))"
  using assms
proof (induction m)
  case (Cons p m)
  obtain k' i where p: "p = (k', i)" by fastforce
  show ?case
  proof (cases "k' = k")
    case True
    with Cons.prems p show ?thesis by (force simp: image_iff)
  next
    case False
    have "g i \<noteq> g v" using Cons.prems(3) [of k' i] p False by auto
    moreover have "g i \<notin> (g \<circ> snd) ` set m" using Cons.prems(2) p by auto
    moreover have "distinct (map fst m)" using Cons.prems(1) by simp
    ultimately have "g i \<notin> (g \<circ> snd) ` set (AList.update k v m)" by (auto simp: set_update_items)
    moreover have "distinct (map (g \<circ> snd) (AList.update k v m))"
      using Cons.prems p by (intro Cons.IH) auto
    ultimately show ?thesis using p False by (simp add: o_def)
  qed
qed simp

lemma sum_list_update:
  fixes h :: "'v \<Rightarrow> number"
  shows "distinct (map fst m) \<Longrightarrow> (\<Sum>(k, i)\<leftarrow>AList.update key v m. h i) =
     (\<Sum>(k, i)\<leftarrow>m. h i) + h v - (case map_of m key of None \<Rightarrow> 0 | Some old \<Rightarrow> h old)"
proof (induction m)
  case (Cons p m)
  obtain k' i where p: "p = (k', i)" by fastforce
  have "map_of m k' = None" using Cons.prems by (simp add: p map_of_eq_None_iff)
  with Cons show ?case by (auto simp: p split: option.splits)
qed simp

definition keeps_id :: "(inventory_item, unit) oper \<Rightarrow> bool" where
  "keeps_id m \<longleftrightarrow> (\<forall>i r j. m i = (r, j) \<longrightarrow> iid j = iid i)"

lemma change_item_tracked:
  assumes t: "tracked s w" and i: "map_of (work_items w) key = Some i"
    and run: "change_item key change i w = (Inr (), w')"
    and keep: "keeps_id change"
  shows "\<exists>j. change i = (Inr (), j) \<and> tracked s w'
    \<and> (\<forall>f. gain f s w' = gain f s w + f (row_of j) - f (row_of i))
    \<and> work_items w' = AList.update key j (work_items w) \<and> work_changed w' = add_once key (work_changed w)
    \<and> item_work.more w' = item_work.more w"
proof -
  obtain j where j: "change i = (Inr (), j)"
    using run by (cases "change i") (auto simp: change_item_def oper_simps split: sum.splits)
  have id: "iid j = iid i" using keep j by (simp add: keeps_id_def)
  have w': "w' = w\<lparr>work_items := AList.update key j (work_items w), work_changed := add_once key (work_changed w)\<rparr>"
    using run j by (simp add: change_item_def oper_simps)
  have d: "distinct (map fst (work_items w))" "distinct (map (iid \<circ> snd) (work_items w))"
    "distinct (work_changed w)" "set (work_changed w) \<subseteq> fst ` set (work_items w)"
    using t by (auto simp: tracked_def)
  have ki: "(key, i) \<in> set (work_items w)" using i by (rule map_of_SomeD)
  have only: "k' = key" if "(k', x) \<in> set (work_items w)" "iid x = iid j" for k' x
  proof -
    have "inj_on (iid \<circ> snd) (set (work_items w))" using d(2) by (simp add: distinct_map)
    from inj_onD [OF this _ that(1) ki] that(2) id show ?thesis by simp
  qed
  have "tracked s w'"
    unfolding tracked_def w'
    using d distinct_values_update [OF d(1,2), of j key, OF only] t ki
    by (auto simp: set_update_items distinct_update tracked_def image_iff)
  moreover have "gain f s w' = gain f s w + f (row_of j) - f (row_of i)" for f
    using i id by (simp add: gain_def w' sum_list_update [OF d(1), where h = "\<lambda>i. f (row_of i) - stored f s (iid i)"])
  ultimately show ?thesis using j w' by auto
qed


definition fresh_uuid :: "inventory_db \<Rightarrow> 'a item_work_scheme \<Rightarrow> string \<Rightarrow> bool" where
  "fresh_uuid s w u \<longleftrightarrow> u \<notin> row_id ` set (rows s) \<and> u \<notin> (iid \<circ> snd) ` set (work_items w)"

lemma createNew_row:
  "inventory_createNew u sku loc = Inr i \<Longrightarrow> stock_field f \<Longrightarrow> iid i = u \<and> f (row_of i) = 0"
  by (auto simp: inventory_createNew_def result_bind_Inr_iff InventoryItem_def Quantity_Inr_iff stock_field_def row_of_def
      InventoryItemId_def make_id_Inr_iff)

lemma get_or_create_tracked:
  assumes t: "tracked s w" and run: "get_or_create u key sku loc w = (Inr i, w')"
    and fresh: "map_of (work_items w) key = None \<Longrightarrow> fresh_uuid s w u"
  shows "tracked s w' \<and> (\<forall>f. stock_field f \<longrightarrow> gain f s w' = gain f s w)
    \<and> map_of (work_items w') key = Some i \<and> work_changed w' = work_changed w
    \<and> item_work.more w' = item_work.more w
    \<and> (iid i = u \<or> (key, i) \<in> set (work_items w))
    \<and> (iid ` snd ` set (work_items w') \<subseteq> insert u (iid ` snd ` set (work_items w)))"
proof (cases "map_of (work_items w) key")
  case (Some j)
  with run t map_of_SomeD [OF Some] show ?thesis by (auto simp: get_or_create_def oper_simps)
next
  case None
  then obtain j where j: "inventory_createNew u sku loc = Inr j" "i = j"
      "w' = w\<lparr>work_items := AList.update key j (work_items w)\<rparr>"
    using run by (auto simp: get_or_create_def oper_simps split: sum.splits)
  have id: "iid j = u" using createNew_row [OF j(1) stock_fields(1)] by simp
  have fr: "u \<notin> row_id ` set (rows s)" "u \<notin> (iid \<circ> snd) ` set (work_items w)"
    using fresh [OF None] by (auto simp: fresh_uuid_def)
  have old: "stored f s u = 0" for f
  proof -
    have "find (\<lambda>r. row_id r = u) (rows s) = None" using fr(1) by (auto simp: find_None_iff)
    then show ?thesis by (simp add: stored_def)
  qed
  have d: "distinct (map fst (work_items w))" "distinct (map (iid \<circ> snd) (work_items w))"
    "distinct (work_changed w)" "set (work_changed w) \<subseteq> fst ` set (work_items w)"
    using t by (auto simp: tracked_def)
  have only: "k' = key" if "(k', x) \<in> set (work_items w)" "iid x = iid j" for k' x
    using that fr(2) id by (force simp: image_iff)
  have "distinct (map fst (work_items w'))" "distinct (map (iid \<circ> snd) (work_items w'))"
    unfolding j(3) using distinct_update [OF d(1)] distinct_values_update [OF d(1,2), of j key, OF only] by simp_all
  moreover have "f (row_of x) = stored f s (iid x)"
    if x: "(k, x) \<in> set (work_items w')" "k \<notin> set (work_changed w')" "stock_field f" for k x f
  proof (cases "k = key \<and> x = j")
    case True
    with createNew_row [OF j(1) x(3)] old id show ?thesis by simp
  next
    case False
    with x(1) d(1) have "(k, x) \<in> set (work_items w)" by (auto simp: j(3) set_update_items)
    with t x(2,3) show ?thesis by (simp add: tracked_def j(3))
  qed
  moreover have "set (work_changed w') \<subseteq> fst ` set (work_items w')" "distinct (work_changed w')"
    using d(3,4) by (auto simp: j(3) dom_update)
  ultimately have "tracked s w'" by (simp add: tracked_def)
  moreover have "gain f s w' = gain f s w" if "stock_field f" for f
    using None createNew_row [OF j(1) that] old id
    by (simp add: gain_def j(3) sum_list_update [OF d(1), where h = "\<lambda>i. f (row_of i) - stored f s (iid i)"])
  moreover have "iid ` snd ` set (work_items w') \<subseteq> insert u (iid ` snd ` set (work_items w))"
  proof
    fix a assume "a \<in> iid ` snd ` set (work_items w')"
    then obtain k x where x: "(k, x) \<in> set (work_items w')" "a = iid x" by force
    then have "x = j \<or> (k, x) \<in> set (work_items w)" by (auto simp: j(3) set_update_items [OF d(1)])
    with x(2) id show "a \<in> insert u (iid ` snd ` set (work_items w))"
      by (metis imageI insertCI snd_conv)
  qed
  moreover have "map_of (work_items w') key = Some i" "work_changed w' = work_changed w"
    "item_work.more w' = item_work.more w" "iid i = u" using id by (simp_all add: j)
  ultimately show ?thesis by blast
qed

section \<open>Loading the objects\<close>

lemma keyed_items_sound:
  assumes "map_of (keyed_items key is) k = Some i"
  shows "i \<in> set is \<and> key (isku i) (ilocationId i) = k"
proof -
  have "(i \<in> set is \<and> key (isku i) (ilocationId i) = k) \<or> map_of [] k = Some i"
    using assms unfolding keyed_items_def by (rule fold_by_key_mem)
  then show ?thesis by simp
qed

lemma keyed_items_distinct: "distinct (map fst (keyed_items key is))"
proof -
  have "distinct (map fst m) \<Longrightarrow> distinct (map fst (fold (\<lambda>i m. AList.update (key (isku i) (ilocationId i)) i m) is m))" for m
    by (induction "is" arbitrary: m) (auto simp: distinct_update)
  then show ?thesis by (simp add: keyed_items_def)
qed

lemma loaded_tracked:
  assumes inv: "pi_inv s" and load: "pi_findBySkuAndLocationBatch s pairs = Inr is"
    and w: "work_items w = keyed_items key is" "work_changed w = []"
  shows "tracked s w \<and> (\<forall>f. stock_field f \<longrightarrow> gain f s w = 0)
    \<and> (\<forall>k i. (k, i) \<in> set (work_items w) \<longrightarrow> pi_row s (iid i) = Some i \<and> key (isku i) (ilocationId i) = k)"
proof -
  have known: "pi_row s (iid i) = Some i \<and> key (isku i) (ilocationId i) = k" if "(k, i) \<in> set (work_items w)" for k i
  proof -
    have "map_of (keyed_items key is) k = Some i" using that keyed_items_distinct w(1) by simp
    from keyed_items_sound [OF this] pi_batch_found [OF inv load] show ?thesis by blast
  qed
  have same: "f (row_of i) = stored f s (iid i)" if "(k, i) \<in> set (work_items w)" "stock_field f" for k i f
  proof -
    from known [OF that(1)] obtain r where r: "find (\<lambda>r. row_id r = iid i) (rows s) = Some r" "row_item r = i"
      by (auto simp: pi_row_def)
    have "f (row_of (row_item r)) = f r" using that(2) by (auto simp: stock_field_def row_of_def row_item_def InventoryItem_def)
    with r show ?thesis by (simp add: stored_def)
  qed
  have "inj_on (iid \<circ> snd) (set (work_items w))"
  proof (rule inj_onI)
    fix x y assume x: "x \<in> set (work_items w)" and y: "y \<in> set (work_items w)" and same: "(iid \<circ> snd) x = (iid \<circ> snd) y"
    obtain k i k' j where p: "x = (k, i)" "y = (k', j)" by fastforce
    have i: "pi_row s (iid i) = Some i" "key (isku i) (ilocationId i) = k" using known [of k i] x p by blast+
    have j: "pi_row s (iid j) = Some j" "key (isku j) (ilocationId j) = k'" using known [of k' j] y p by blast+
    have "iid i = iid j" using same p by simp
    with i(1) j(1) have "i = j" by (metis option.inject)
    with i(2) j(2) p show "x = y" by simp
  qed
  moreover have "distinct (work_items w)" using keyed_items_distinct [of key "is"] w(1) by (simp add: distinct_map)
  ultimately have "distinct (map (iid \<circ> snd) (work_items w))" by (simp add: distinct_map)
  moreover have "distinct (map fst (work_items w))" using keyed_items_distinct w(1) by simp
  ultimately have "tracked s w" using same w(2) unfolding tracked_def by simp
  moreover have "gain f s w = 0" if "stock_field f" for f
  proof -
    have "(\<Sum>p\<leftarrow>ps. (\<lambda>(k, i). f (row_of i) - stored f s (iid i)) p) = 0" if "set ps \<subseteq> set (work_items w)" for ps
      using that same \<open>stock_field f\<close> by (induction ps) auto
    then show ?thesis by (simp add: gain_def)
  qed
  ultimately show ?thesis using known by blast
qed

section \<open>The calls of the use cases on one row\<close>

lemma Quantity_each_InrD: "Quantity q each = Inr a \<Longrightarrow> a = q_each q"
  by (auto simp: Quantity_Inr_iff q_each_def)

lemma keeps_id_calls [simp]:
  "keeps_id (createInTransit a)" "keeps_id (receiveInTransit a)" "keeps_id (cancelInTransit a)"
  "keeps_id (receiveStock a)" "keeps_id (dispatchStock now a)"
  by (auto simp: keeps_id_def inventory_op_defs oper_simps split: sum.splits if_splits)

lemma call_on_row:
  "createInTransit (q_each q) i = (Inr (), j) \<Longrightarrow> row_inTransit (row_of j) = row_inTransit (row_of i) + q
     \<and> row_quantity (row_of j) = row_quantity (row_of i) \<and> row_allocated (row_of j) = row_allocated (row_of i)"
  "receiveInTransit (q_each q) i = (Inr (), j) \<Longrightarrow> row_inTransit (row_of j) = row_inTransit (row_of i) - q
     \<and> row_quantity (row_of j) = row_quantity (row_of i) + q \<and> row_allocated (row_of j) = row_allocated (row_of i)"
  "cancelInTransit (q_each q) i = (Inr (), j) \<Longrightarrow> row_inTransit (row_of j) = row_inTransit (row_of i) - q
     \<and> row_quantity (row_of j) = row_quantity (row_of i) \<and> row_allocated (row_of j) = row_allocated (row_of i)"
  "receiveStock (q_each q) i = (Inr (), j) \<Longrightarrow> row_quantity (row_of j) = row_quantity (row_of i) + q
     \<and> row_inTransit (row_of j) = row_inTransit (row_of i) \<and> row_allocated (row_of j) = row_allocated (row_of i)"
  "dispatchStock now (q_each q) i = (Inr (), j) \<Longrightarrow> row_quantity (row_of j) = row_quantity (row_of i) - q
     \<and> row_inTransit (row_of j) = row_inTransit (row_of i) \<and> row_allocated (row_of j) = row_allocated (row_of i)"
  by (auto simp: inventory_op_defs oper_simps row_of_def q_add_Inr_iff q_subtract_Inr_iff split: sum.splits if_splits)

section \<open>Lines of a use case\<close>

text \<open>\<open>items_moved s w w' t p\<close>: between two states of the work the in-transit and on-hand sums grow by \<open>t\<close> and \<open>p\<close>.\<close>

definition items_moved :: "inventory_db \<Rightarrow> 'a item_work_scheme \<Rightarrow> 'a item_work_scheme \<Rightarrow> number \<Rightarrow> number \<Rightarrow> bool" where
  "items_moved s w w' t p \<longleftrightarrow> tracked s w' \<and> gain row_inTransit s w' = gain row_inTransit s w + t
     \<and> gain row_quantity s w' = gain row_quantity s w + p \<and> gain row_allocated s w' = gain row_allocated s w"

lemma items_moved_trans: "items_moved s w w1 t p \<Longrightarrow> items_moved s w1 w2 t' p' \<Longrightarrow> items_moved s w w2 (t + t') (p + p')"
  by (auto simp: items_moved_def)

lemma items_moved_refl: "tracked s w \<Longrightarrow> items_moved s w w 0 0"
  by (simp add: items_moved_def)

definition ids_from :: "(nat \<Rightarrow> string) \<Rightarrow> nat \<Rightarrow> inventory_db \<Rightarrow> 'a item_work_scheme \<Rightarrow> bool" where
  "ids_from uuid n s w \<longleftrightarrow> iid ` snd ` set (work_items w) \<subseteq> row_id ` set (rows s) \<union> uuid ` {..<n}"

definition new_ids :: "(nat \<Rightarrow> string) \<Rightarrow> inventory_db \<Rightarrow> bool" where
  "new_ids uuid s \<longleftrightarrow> inj uuid \<and> range uuid \<inter> row_id ` set (rows s) = {}"

lemma ids_grow: "A \<subseteq> B \<Longrightarrow> B \<subseteq> insert u C \<Longrightarrow> C \<subseteq> D \<union> U \<Longrightarrow> A \<subseteq> D \<union> insert u U"
  by auto

text \<open>What a use case does to the table when its lines move the items by \<open>t\<close> and \<open>p\<close>.\<close>

definition stock_moved :: "inventory_db \<Rightarrow> inventory_db \<Rightarrow> number \<Rightarrow> number \<Rightarrow> bool" where
  "stock_moved s s' t p \<longleftrightarrow> stock_sum row_inTransit s' = stock_sum row_inTransit s + t
     \<and> stock_sum row_quantity s' = stock_sum row_quantity s + p \<and> stock_sum row_allocated s' = stock_sum row_allocated s"

lemma saved_moved:
  assumes "pi_inv s" and "pi_saveBatch (changed_items w') s = (Inr (), s')" and "items_moved s w w' t p"
    and "\<And>f. stock_field f \<Longrightarrow> gain f s w = 0"
  shows "stock_moved s s' t p"
proof -
  have "tracked s w'" using assms(3) by (simp add: items_moved_def)
  from saved_gain [OF this assms(1) _ assms(2)] assms(3,4) show ?thesis by (simp add: items_moved_def stock_moved_def)
qed

lemma loaded_ids:
  assumes "pi_inv s" and "pi_findBySkuAndLocationBatch s pairs = Inr is"
    and "work_items w = keyed_items key is" "work_changed w = []"
  shows "ids_from uuid 0 s w"
proof -
  have "iid i \<in> row_id ` set (rows s)" if "(k, i) \<in> set (work_items w)" for k i
  proof -
    have "pi_row s (iid i) = Some i" using loaded_tracked [OF assms] that by blast
    then obtain r where "find (\<lambda>r. row_id r = iid i) (rows s) = Some r" by (auto simp: pi_row_def)
    from find_SomeD [OF this] show ?thesis by force
  qed
  then have "iid ` snd ` set (work_items w) \<subseteq> row_id ` set (rows s)" by auto
  then show ?thesis by (auto simp: ids_from_def)
qed

text \<open>Find or create the object of a line and call a method on it.\<close>

lemma create_and_change:
  assumes t: "tracked s w" and ids: "ids_from uuid n s w" and new: "new_ids uuid s"
    and g: "get_or_create (uuid n) key sku loc w = (Inr i, w1)"
    and same: "work_items w2 = work_items w1" "work_changed w2 = work_changed w1"
    and c: "change_item key m i w2 = (Inr (), w')" and m: "keeps_id m"
  obtains j where "m i = (Inr (), j)" and "tracked s w'" and "ids_from uuid (Suc n) s w'"
    and "\<And>f. stock_field f \<Longrightarrow> gain f s w' = gain f s w + f (row_of j) - f (row_of i)"
    and "map_of (work_items w') key = Some j"
proof -
  have "fresh_uuid s w (uuid n)"
  proof -
    have "uuid n \<notin> row_id ` set (rows s)" using new by (auto simp: new_ids_def)
    moreover have "uuid n \<notin> uuid ` {..<n}" using new by (auto simp: new_ids_def inj_def)
    ultimately show ?thesis using ids by (auto simp: fresh_uuid_def ids_from_def image_comp)
  qed
  from get_or_create_tracked [OF t g] this
  have w1: "tracked s w1" "map_of (work_items w1) key = Some i" "\<And>f. stock_field f \<Longrightarrow> gain f s w1 = gain f s w"
      "iid ` snd ` set (work_items w1) \<subseteq> insert (uuid n) (iid ` snd ` set (work_items w))" by auto
  have w2: "tracked s w2" "map_of (work_items w2) key = Some i" "\<And>f. stock_field f \<Longrightarrow> gain f s w2 = gain f s w"
      "iid ` snd ` set (work_items w2) \<subseteq> insert (uuid n) (iid ` snd ` set (work_items w))"
    using w1 same by (simp_all add: tracked_def gain_def)
  from change_item_tracked [OF w2(1,2) c m]
  obtain j where j: "m i = (Inr (), j)" "tracked s w'"
      "\<And>f. gain f s w' = gain f s w2 + f (row_of j) - f (row_of i)"
      "work_items w' = AList.update key j (work_items w2)" by auto
  have "iid j = iid i" using j(1) m unfolding keeps_id_def by blast
  have "iid i \<in> iid ` snd ` set (work_items w2)" using map_of_SomeD [OF w2(2)] by force
  then have "iid ` snd ` set (work_items w') \<subseteq> iid ` snd ` set (work_items w2)"
    using w2(1) \<open>iid j = iid i\<close> by (auto simp: j(4) set_update_items tracked_def)
  from this w2(4) ids [unfolded ids_from_def] have "ids_from uuid (Suc n) s w'"
    unfolding ids_from_def lessThan_Suc image_insert by (rule ids_grow)
  moreover have "map_of (work_items w') key = Some j" by (simp add: j(4))
  ultimately show thesis using j w2(3) by (intro that) auto
qed

end
