(* ===== verification/PurchaseOrders.thy ===== *)
theory PurchaseOrders
  imports ItemWork StockPosting Approval
begin

text \<open>
  Purchase orders: the document of src/src/domain/entities/PurchaseOrder.ts (PurchaseOrderItem.ts,
  PurchaseOrderStatus.ts), its store src/src/infrastructure/persistence/InMemoryPurchaseOrderRepository.ts
  and the purchase order use cases of src/src/application/useCases/ManageReplenishment.ts: placing an
  order, which an approval workflow may hold back, adds its lines to what is in transit to the
  destination, receiving it moves them into stock and posts them to the ledger, cancelling it takes
  them back. The store keeps the object it is given; no use case changes it after the save.
  The text field of the payload given to the approval service is left out.
\<close>

section \<open>The document\<close>

datatype order_status = Draft_order | PendingApproval_order | Ordered_order | Received_order | Cancelled_order

fun order_status_text :: "order_status \<Rightarrow> string" where
  "order_status_text Draft_order = ''DRAFT''"
| "order_status_text PendingApproval_order = ''PENDING_APPROVAL''"
| "order_status_text Ordered_order = ''ORDERED''"
| "order_status_text Received_order = ''RECEIVED''"
| "order_status_text Cancelled_order = ''CANCELLED''"

type_synonym order_item = "ident \<times> number"

definition PurchaseOrderItem :: "ident \<Rightarrow> number \<Rightarrow> order_item result" where
  "PurchaseOrderItem v q = (if q \<le> 0 then Inl (Error ''Quantity must be positive.'' []) else Inr (v, q))"

record purchase_order =
  or_id :: ident
  or_tenant :: ident
  or_supplier :: string
  or_destination :: ident
  or_items :: "order_item list"
  or_createdAt :: time
  or_updatedAt :: time
  or_status :: order_status

definition PurchaseOrder ::
    "ident \<Rightarrow> ident \<Rightarrow> string \<Rightarrow> ident \<Rightarrow> order_item list \<Rightarrow> time \<Rightarrow> time \<Rightarrow> purchase_order result" where
  "PurchaseOrder i tenant supplier dest its created updated =
     (if supplier = [] \<or> is_blank supplier then Inl (Error ''Supplier ID cannot be empty.'' [])
      else if length its = 0 then Inl (Error ''Purchase order must contain at least one item.'' [])
      else Inr \<lparr>or_id = i, or_tenant = tenant, or_supplier = supplier, or_destination = dest, or_items = its,
        or_createdAt = created, or_updatedAt = updated, or_status = Draft_order\<rparr>)"

definition or_place :: "(purchase_order, unit) oper" where
  "or_place = op_get (\<lambda>po.
     op_seq (op_reject (or_status po \<noteq> Draft_order)
       (Error ''Cannot place a purchase order in status: {}'' [S (order_status_text (or_status po))]))
     (op_modify (\<lambda>po. po\<lparr>or_status := Ordered_order\<rparr>)))"

definition or_receive :: "(purchase_order, unit) oper" where
  "or_receive = op_get (\<lambda>po.
     op_seq (op_reject (or_status po \<noteq> Ordered_order)
       (Error ''Cannot receive a purchase order in status: {}'' [S (order_status_text (or_status po))]))
     (op_modify (\<lambda>po. po\<lparr>or_status := Received_order\<rparr>)))"

definition markPendingApproval :: "(purchase_order, unit) oper" where
  "markPendingApproval = op_get (\<lambda>po.
     op_seq (op_reject (or_status po \<noteq> Draft_order)
       (Error ''Cannot submit a non-draft purchase order for approval.'' []))
     (op_modify (\<lambda>po. po\<lparr>or_status := PendingApproval_order\<rparr>)))"

definition or_cancel :: "(purchase_order, unit) oper" where
  "or_cancel = op_get (\<lambda>po.
     op_seq (op_reject (or_status po = Received_order \<or> or_status po = Cancelled_order)
       (Error ''Cannot cancel a purchase order in status: {}'' [S (order_status_text (or_status po))]))
     (op_modify (\<lambda>po. po\<lparr>or_status := Cancelled_order\<rparr>)))"

definition or_reconstruct ::
    "ident \<Rightarrow> ident \<Rightarrow> string \<Rightarrow> ident \<Rightarrow> order_item list \<Rightarrow> order_status \<Rightarrow> time \<Rightarrow> time \<Rightarrow> purchase_order result" where
  "or_reconstruct i tenant supplier dest its st created updated =
     result_bind (PurchaseOrder i tenant supplier dest its created updated) (\<lambda>po. Inr (po\<lparr>or_status := st\<rparr>))"

definition or_createNew ::
    "time \<Rightarrow> ident \<Rightarrow> ident \<Rightarrow> string \<Rightarrow> ident \<Rightarrow> order_item list \<Rightarrow> purchase_order result" where
  "or_createNew now i tenant supplier dest its = PurchaseOrder i tenant supplier dest its now now"

section \<open>Its store\<close>

record 'p order_repo =
  find_order :: "'p \<Rightarrow> ident \<Rightarrow> purchase_order option result"
  find_orders :: "'p \<Rightarrow> ident \<Rightarrow> purchase_order list result"
  save_order :: "purchase_order \<Rightarrow> ('p, unit) oper"
  save_orders :: "purchase_order list \<Rightarrow> ('p, unit) oper"

type_synonym order_map = "(ident, purchase_order) js_map"

definition cloneOrder :: "purchase_order \<Rightarrow> purchase_order result" where
  "cloneOrder po =
     result_bind (result_map (\<lambda>(v, q). PurchaseOrderItem v q) (or_items po)) (\<lambda>its.
     result_bind (PurchaseOrderId (or_id po)) (\<lambda>i. result_bind (TenantId (or_tenant po)) (\<lambda>tenant.
     result_bind (LocationId (or_destination po)) (\<lambda>dest.
       or_reconstruct i tenant (or_supplier po) dest its (or_status po) (or_createdAt po) (or_updatedAt po)))))"

definition mo_save :: "purchase_order \<Rightarrow> (order_map, unit) oper" where
  "mo_save po = op_modify (AList.update (or_id po) po)"

definition mo_saveBatch :: "purchase_order list \<Rightarrow> (order_map, unit) oper" where
  "mo_saveBatch os = op_each (\<lambda>po. op_modify (AList.update (or_id po) po)) os"

definition mo_findById :: "order_map \<Rightarrow> ident \<Rightarrow> purchase_order option result" where
  "mo_findById m i = (case map_of m i of None \<Rightarrow> Inr None | Some po \<Rightarrow> result_bind (cloneOrder po) (Inr \<circ> Some))"

definition mo_findAllByTenant :: "order_map \<Rightarrow> ident \<Rightarrow> purchase_order list result" where
  "mo_findAllByTenant m tenant = result_map cloneOrder (filter (\<lambda>po. or_tenant po = tenant) (map snd m))"

definition mem_orders :: "order_map order_repo" where
  "mem_orders = \<lparr>find_order = mo_findById, find_orders = mo_findAllByTenant, save_order = mo_save,
     save_orders = mo_saveBatch\<rparr>"

section \<open>The use cases\<close>

record ('p, 'i, 'a, 'l) order_world =
  ow_orders :: 'p
  ow_items :: 'i
  ow_approvals :: "'a approval_world"
  ow_ledger :: 'l

abbreviation on_orders :: "('p, 'r) oper \<Rightarrow> (('p, 'i, 'a, 'l) order_world, 'r) oper" where
  "on_orders m \<equiv> op_zoom ow_orders (\<lambda>s w. w\<lparr>ow_orders := s\<rparr>) m"

abbreviation on_stock_items :: "('i, 'r) oper \<Rightarrow> (('p, 'i, 'a, 'l) order_world, 'r) oper" where
  "on_stock_items m \<equiv> op_zoom ow_items (\<lambda>s w. w\<lparr>ow_items := s\<rparr>) m"

abbreviation on_approval_world :: "('a approval_world, 'r) oper \<Rightarrow> (('p, 'i, 'a, 'l) order_world, 'r) oper" where
  "on_approval_world m \<equiv> op_zoom ow_approvals (\<lambda>s w. w\<lparr>ow_approvals := s\<rparr>) m"

abbreviation on_order_ledger :: "('l, 'r) oper \<Rightarrow> (('p, 'i, 'a, 'l) order_world, 'r) oper" where
  "on_order_ledger m \<equiv> op_zoom ow_ledger (\<lambda>s w. w\<lparr>ow_ledger := s\<rparr>) m"

record order_dto =
  od_id :: string
  od_tenantId :: string
  od_supplierId :: string
  od_destinationLocationId :: string
  od_status :: string
  od_items :: "(string \<times> number) list"
  od_createdAt :: time
  od_updatedAt :: time

definition toPoDTO :: "purchase_order \<Rightarrow> order_dto" where
  "toPoDTO po = \<lparr>od_id = or_id po, od_tenantId = or_tenant po, od_supplierId = or_supplier po,
     od_destinationLocationId = or_destination po, od_status = order_status_text (or_status po),
     od_items = or_items po, od_createdAt = or_createdAt po, od_updatedAt = or_updatedAt po\<rparr>"

definition CreatePurchaseOrderUseCase ::
    "string \<Rightarrow> time \<Rightarrow> 'p order_repo \<Rightarrow> string \<Rightarrow> string \<Rightarrow> string \<Rightarrow> (string \<times> number) list
     \<Rightarrow> (('p, 'i, 'a, 'l) order_world, order_dto) oper" where
  "CreatePurchaseOrderUseCase uuid now orepo tenantId supplierId destId its =
     op_bind (op_lift (result_bind (PurchaseOrderId uuid) (\<lambda>i. result_bind (TenantId tenantId) (\<lambda>tenant.
       result_bind (LocationId destId) (\<lambda>dest.
       result_bind (result_map (\<lambda>(v, q). result_bind (ProductVariantId v) (\<lambda>v'. PurchaseOrderItem v' q)) its) (\<lambda>items.
         or_createNew now i tenant supplierId dest items)))))) (\<lambda>po.
     op_seq (on_orders (save_order orepo po)) (op_return (toPoDTO po)))"

record order_work = item_work +
  ow_postings :: "posting list"

definition order_key :: "string \<Rightarrow> string \<Rightarrow> string" where
  "order_key sku loc = sku @ CHR 0x00 # loc"

definition order_sku :: "(string, string) js_map \<Rightarrow> ident \<Rightarrow> string result" where
  "order_sku skus v = (case map_of skus v of None \<Rightarrow> Inl (Error ''Variant {} not found in product catalog.'' [S v])
     | Some s \<Rightarrow> if s = [] then Inl (Error ''Variant {} not found in product catalog.'' [S v]) else Inr s)"

definition order_skus :: "product_repo \<Rightarrow> purchase_order \<Rightarrow> ((string, string) js_map \<times> (string \<times> string) list) result" where
  "order_skus prepo po =
     result_bind (skus_of_variants prepo (map fst (or_items po))) (\<lambda>skus.
     result_bind (result_map (\<lambda>(v, q). result_bind (order_sku skus v) (\<lambda>s. Inr (s, or_destination po))) (or_items po)) (\<lambda>pairs.
       Inr (skus, pairs)))"

definition place_line ::
    "(nat \<Rightarrow> string) \<Rightarrow> ident \<Rightarrow> (string, string) js_map \<Rightarrow> nat \<times> order_item \<Rightarrow> (order_work, unit) oper" where
  "place_line uuid dest skus = (\<lambda>(n, v, q). let sku = the (map_of skus v); key = order_key sku dest in
     op_bind (get_or_create (uuid n) key sku dest) (\<lambda>invItem.
     op_bind (op_lift (Quantity q each)) (\<lambda>amount.
       change_item key (createInTransit amount) invItem)))"

definition receive_order_line :: "ident \<Rightarrow> (string, string) js_map \<Rightarrow> order_item \<Rightarrow> (order_work, unit) oper" where
  "receive_order_line dest skus = (\<lambda>(v, q). let sku = the (map_of skus v); key = order_key sku dest in
     op_get (\<lambda>w. case map_of (work_items w) key of
       None \<Rightarrow> op_throw (Error ''Inventory record for SKU {} at destination location {} not found.'' [S sku, S dest])
     | Some invItem \<Rightarrow>
         op_bind (op_lift (Quantity q each)) (\<lambda>amount.
         op_seq (change_item key (receiveInTransit amount) invItem)
         (op_modify (\<lambda>w. w\<lparr>ow_postings := ow_postings w @ [\<lparr>po_sku = sku, po_location = dest, po_quantity = q\<rparr>]\<rparr>)))))"

definition cancel_order_line :: "ident \<Rightarrow> (string, string) js_map \<Rightarrow> order_item \<Rightarrow> (order_work, unit) oper" where
  "cancel_order_line dest skus = (\<lambda>(v, q). let sku = the (map_of skus v); key = order_key sku dest in
     op_get (\<lambda>w. case map_of (work_items w) key of
       None \<Rightarrow> op_return ()
     | Some invItem \<Rightarrow>
         op_bind (op_lift (Quantity q each)) (\<lambda>amount. change_item key (cancelInTransit amount) invItem)))"

definition load_order :: "'p order_repo \<Rightarrow> string \<Rightarrow> (('p, 'i, 'a, 'l) order_world, purchase_order) oper" where
  "load_order orepo oid =
     op_bind (op_lift (PurchaseOrderId oid)) (\<lambda>i.
     op_bind (op_get (\<lambda>w. op_lift (find_order orepo (ow_orders w) i))) (\<lambda>found.
     case found of None \<Rightarrow> op_throw (Error ''Purchase order {} not found.'' [S oid]) | Some po \<Rightarrow> op_return po))"

text \<open>Load the items of the lines, run the lines on them, save the changed ones and go on.\<close>

definition run_order_lines ::
    "'i inventory_repo \<Rightarrow> product_repo \<Rightarrow> purchase_order \<Rightarrow> ((string, string) js_map \<Rightarrow> (order_work, unit) oper)
     \<Rightarrow> (('p, 'i, 'a, 'l) order_world, posting list) oper" where
  "run_order_lines irepo prepo po lines =
     op_bind (op_lift (order_skus prepo po)) (\<lambda>(skus, pairs).
     op_bind (op_get (\<lambda>w. op_lift (findBySkuAndLocationBatch irepo (ow_items w) pairs))) (\<lambda>destItems.
     case lines skus \<lparr>work_items = keyed_items order_key destItems, work_changed = [], ow_postings = []\<rparr> of
       (Inl e, work) \<Rightarrow> op_throw e
     | (Inr _, work) \<Rightarrow>
         op_seq (on_stock_items (save_items irepo (changed_items work))) (op_return (ow_postings work))))"

definition intercept_place ::
    "(nat \<Rightarrow> string) \<Rightarrow> time \<Rightarrow> 'a approval_repo option \<Rightarrow> purchase_order \<Rightarrow> string
     \<Rightarrow> (('p, 'i, 'a, 'l) order_world, ident option) oper" where
  "intercept_place uuid now arepo po requesterId = (case arepo of
     None \<Rightarrow> op_return None
   | Some repo \<Rightarrow> on_approval_world (evaluateAndIntercept uuid now repo (or_tenant po) ''purchase_order.place''
       ''PurchaseOrder'' (or_id po) requesterId [(''totalCents'', Some 0)]))"

definition PlacePurchaseOrderUseCase ::
    "(nat \<Rightarrow> string) \<Rightarrow> (nat \<Rightarrow> string) \<Rightarrow> time \<Rightarrow> 'p order_repo \<Rightarrow> 'i inventory_repo \<Rightarrow> product_repo
     \<Rightarrow> 'a approval_repo option \<Rightarrow> string \<Rightarrow> string \<Rightarrow> (('p, 'i, 'a, 'l) order_world, order_dto) oper" where
  "PlacePurchaseOrderUseCase item_uuid uuid now orepo irepo prepo arepo oid requesterId =
     op_bind (load_order orepo oid) (\<lambda>po0.
     op_bind (intercept_place uuid now arepo po0 requesterId) (\<lambda>intercepted.
     if intercepted \<noteq> None
     then (case markPendingApproval po0 of
         (Inl e, po) \<Rightarrow> op_throw e
       | (Inr _, po) \<Rightarrow> op_seq (on_orders (save_order orepo po)) (op_return (toPoDTO po)))
     else (case or_place po0 of
         (Inl e, po) \<Rightarrow> op_throw e
       | (Inr _, po) \<Rightarrow>
           op_bind (run_order_lines irepo prepo po (\<lambda>skus.
               op_each (place_line item_uuid (or_destination po) skus) (enumerate 0 (or_items po)))) (\<lambda>_.
           op_seq (on_orders (save_order orepo po)) (op_return (toPoDTO po))))))"

definition ReceivePurchaseOrderUseCase ::
    "(nat \<Rightarrow> string) \<Rightarrow> time \<Rightarrow> 'p order_repo \<Rightarrow> 'i inventory_repo \<Rightarrow> product_repo \<Rightarrow> 'l ledger_repo
     \<Rightarrow> string \<Rightarrow> string \<Rightarrow> string \<Rightarrow> (('p, 'i, 'a, 'l) order_world, order_dto) oper" where
  "ReceivePurchaseOrderUseCase uuid now orepo irepo prepo lrepo oid actorId tenantId =
     op_bind (load_order orepo oid) (\<lambda>po0.
     case or_receive po0 of
       (Inl e, po) \<Rightarrow> op_throw e
     | (Inr _, po) \<Rightarrow>
         op_bind (run_order_lines irepo prepo po (\<lambda>skus.
             op_each (receive_order_line (or_destination po) skus) (or_items po))) (\<lambda>ds.
         op_seq (on_order_ledger (appendStockLedgerEntries uuid now prepo lrepo ds PurchaseReceipt
             \<lparr>ctx_tenant = Some tenantId, ctx_actor = Some actorId\<rparr>))
         (op_seq (on_orders (save_order orepo po)) (op_return (toPoDTO po)))))"

definition CancelPurchaseOrderUseCase ::
    "'p order_repo \<Rightarrow> 'i inventory_repo \<Rightarrow> product_repo \<Rightarrow> string \<Rightarrow> (('p, 'i, 'a, 'l) order_world, order_dto) oper" where
  "CancelPurchaseOrderUseCase orepo irepo prepo oid =
     op_bind (load_order orepo oid) (\<lambda>po0.
     case or_cancel po0 of
       (Inl e, po) \<Rightarrow> op_throw e
     | (Inr _, po) \<Rightarrow>
         op_bind (if or_status po0 = Ordered_order
           then run_order_lines irepo prepo po (\<lambda>skus. op_each (cancel_order_line (or_destination po) skus) (or_items po))
           else op_return []) (\<lambda>_.
         op_seq (on_orders (save_order orepo po)) (op_return (toPoDTO po))))"

definition GetPurchaseOrdersUseCase :: "'p order_repo \<Rightarrow> 'p \<Rightarrow> string \<Rightarrow> purchase_order list result" where
  "GetPurchaseOrdersUseCase orepo s tenantId = result_bind (TenantId tenantId) (find_orders orepo s)"

definition GetPurchaseOrderByIdUseCase :: "'p order_repo \<Rightarrow> 'p \<Rightarrow> string \<Rightarrow> purchase_order option result" where
  "GetPurchaseOrderByIdUseCase orepo s i = result_bind (PurchaseOrderId i) (find_order orepo s)"

section \<open>The life of an order\<close>

text \<open>The methods as steps of an order, each returning or throwing; the caller goes on with the object.\<close>

datatype order_call = Place_call | MarkPending_call | Receive_call | Cancel_call

fun call_order :: "order_call \<Rightarrow> (purchase_order, unit) oper" where
  "call_order Place_call = or_place"
| "call_order MarkPending_call = markPendingApproval"
| "call_order Receive_call = or_receive"
| "call_order Cancel_call = or_cancel"

inductive order_step :: "purchase_order \<Rightarrow> order_call \<Rightarrow> purchase_order \<Rightarrow> bool" where
  call: "call_order c d = (Inr (), d') \<Longrightarrow> order_step d c d'"

inductive_cases order_stepE: "order_step d c d'"

inductive order_run :: "purchase_order \<Rightarrow> order_call list \<Rightarrow> purchase_order \<Rightarrow> bool" where
  none: "order_run d [] d"
| more: "order_step d c d' \<Longrightarrow> order_run d' cs d'' \<Longrightarrow> order_run d (c # cs) d''"

lemmas order_op_defs = or_place_def or_receive_def markPendingApproval_def or_cancel_def

lemma order_step_iff:
  "order_step d c d' \<longleftrightarrow> (case (c, or_status d) of
     (Place_call, Draft_order) \<Rightarrow> d' = d\<lparr>or_status := Ordered_order\<rparr>
   | (MarkPending_call, Draft_order) \<Rightarrow> d' = d\<lparr>or_status := PendingApproval_order\<rparr>
   | (Receive_call, Ordered_order) \<Rightarrow> d' = d\<lparr>or_status := Received_order\<rparr>
   | (Cancel_call, s) \<Rightarrow> s \<noteq> Received_order \<and> s \<noteq> Cancelled_order \<and> d' = d\<lparr>or_status := Cancelled_order\<rparr>
   | _ \<Rightarrow> False)"
  by (cases c; cases "or_status d") (auto simp: order_step.simps order_op_defs oper_simps)

lemma run_from_end: "order_run d cs d' \<Longrightarrow> or_status d \<in> {Received_order, Cancelled_order} \<Longrightarrow> cs = [] \<and> d' = d"
  by (induction rule: order_run.induct) (auto simp: order_step_iff split: order_call.splits)

lemma run_from_ordered:
  "order_run d cs d' \<Longrightarrow> or_status d = Ordered_order \<Longrightarrow>
   cs = [] \<and> d' = d \<or> cs = [Receive_call] \<and> d' = d\<lparr>or_status := Received_order\<rparr>
   \<or> cs = [Cancel_call] \<and> d' = d\<lparr>or_status := Cancelled_order\<rparr>"
proof (induction rule: order_run.induct)
  case (more d c d' cs d'')
  then have "or_status d' \<in> {Received_order, Cancelled_order}"
    by (auto simp: order_step_iff split: order_call.splits)
  with run_from_end [OF more.hyps(2)] more show ?case by (auto simp: order_step_iff split: order_call.splits)
qed simp

lemma run_from_pending:
  "order_run d cs d' \<Longrightarrow> or_status d = PendingApproval_order \<Longrightarrow>
   cs = [] \<and> d' = d \<or> cs = [Cancel_call] \<and> d' = d\<lparr>or_status := Cancelled_order\<rparr>"
proof (induction rule: order_run.induct)
  case (more d c d' cs d'')
  then have "or_status d' \<in> {Received_order, Cancelled_order}"
    by (auto simp: order_step_iff split: order_call.splits)
  with run_from_end [OF more.hyps(2)] more show ?case by (auto simp: order_step_iff split: order_call.splits)
qed simp

text \<open>
  The life of a purchase order: every sequence of successful calls on an order just created is a
  prefix of place, receive, or place, cancel, or cancel, or markPendingApproval, cancel; so every life
  ends after two calls, and an order that an approval workflow holds back can only be cancelled. The
  lines, supplier and destination never change.
\<close>

theorem order_lifecycle:
  assumes "or_createNew now i tenant supplier dest its = Inr d" and "order_run d cs d'"
  shows "(cs, or_status d') \<in> {([], Draft_order), ([Place_call], Ordered_order),
       ([Place_call, Receive_call], Received_order), ([Place_call, Cancel_call], Cancelled_order),
       ([Cancel_call], Cancelled_order), ([MarkPending_call], PendingApproval_order),
       ([MarkPending_call, Cancel_call], Cancelled_order)}
     \<and> d' = d\<lparr>or_status := or_status d'\<rparr>"
proof -
  have d: "or_status d = Draft_order"
    using assms(1) by (auto simp: or_createNew_def PurchaseOrder_def split: if_splits)
  show ?thesis
  proof (cases cs)
    case Nil
    with assms(2) d show ?thesis by (auto elim: order_run.cases)
  next
    case (Cons c cs')
    with assms(2) obtain e where e: "order_step d c e" "order_run e cs' d'" by (auto elim: order_run.cases)
    show ?thesis
      using e Cons d run_from_ordered [OF e(2)] run_from_pending [OF e(2)] run_from_end [OF e(2)]
      by (auto simp: order_step_iff split: order_call.splits)
  qed
qed

definition sample_order :: purchase_order where
  "sample_order = \<lparr>or_id = ''po-1'', or_tenant = ''t1'', or_supplier = ''acme'', or_destination = ''loc-1'',
     or_items = [(''v1'', 6)], or_createdAt = 1, or_updatedAt = 1, or_status = Draft_order\<rparr>"

theorem order_lifecycle_witness:
  "or_status (snd (or_receive (snd (or_place sample_order)))) = Received_order
   \<and> snd (or_receive (snd (or_place sample_order))) = sample_order\<lparr>or_status := Received_order\<rparr>"
proof -
  let ?d' = "snd (or_receive (snd (or_place sample_order)))"
  have new: "or_createNew 1 ''po-1'' ''t1'' ''acme'' ''loc-1'' [(''v1'', 6)] = Inr sample_order"
    by (simp add: or_createNew_def PurchaseOrder_def sample_order_def is_blank_def trim_def is_space_def)
  have "order_run sample_order [Place_call, Receive_call] ?d'"
    by (auto intro!: order_run.intros simp: order_step_iff order_op_defs sample_order_def oper_simps)
  from order_lifecycle [OF new this] show ?thesis by auto
qed

section \<open>What an order does to the stock\<close>

definition order_total :: "order_item list \<Rightarrow> number" where
  "order_total its = (\<Sum>(v, q)\<leftarrow>its. q)"

lemma order_total_simps [simp]: "order_total [] = 0" "order_total ((v, q) # its) = q + order_total its"
  by (simp_all add: order_total_def)

lemma place_line_moves:
  assumes t: "tracked s w" and ids: "ids_from uuid n s w" and new: "new_ids uuid s"
    and run: "place_line uuid dest skus (n, v, q) w = (Inr (), w')"
  shows "items_moved s w w' q 0 \<and> ids_from uuid (Suc n) s w'"
proof -
  let ?key = "order_key (the (map_of skus v)) dest"
  obtain i w1 where g: "get_or_create (uuid n) ?key (the (map_of skus v)) dest w = (Inr i, w1)"
      and rest: "op_bind (op_lift (Quantity q each)) (\<lambda>a. change_item ?key (createInTransit a) i) w1 = (Inr (), w')"
    using run unfolding place_line_def Let_def prod.case by (rule run_bindE)
  have c: "change_item ?key (createInTransit (q_each q)) i w1 = (Inr (), w')"
    using rest by (auto simp: oper_simps split: sum.splits dest: Quantity_each_InrD)
  obtain j where j: "createInTransit (q_each q) i = (Inr (), j)" "tracked s w'" "ids_from uuid (Suc n) s w'"
      "\<And>f. stock_field f \<Longrightarrow> gain f s w' = gain f s w + f (row_of j) - f (row_of i)"
    by (rule create_and_change [OF t ids new g refl refl c]) auto
  then show ?thesis using call_on_row(1) [OF j(1)] by (simp add: items_moved_def)
qed

lemma place_lines_move:
  assumes "tracked s w" and "ids_from uuid n s w" and "new_ids uuid s"
    and "op_each (place_line uuid dest skus) (enumerate n its) w = (Inr (), w')"
  shows "items_moved s w w' (order_total its) 0"
  using assms
proof (induction its arbitrary: n w)
  case Nil
  then show ?case by (simp add: oper_simps items_moved_refl)
next
  case (Cons x its)
  obtain v q where x: "x = (v, q)" by fastforce
  obtain w1 where w1: "place_line uuid dest skus (n, v, q) w = (Inr (), w1)"
      "op_each (place_line uuid dest skus) (enumerate (Suc n) its) w1 = (Inr (), w')"
    using Cons.prems(4) by (auto simp: x elim: run_seqE)
  note one = place_line_moves [OF Cons.prems(1-3) w1(1)]
  have "items_moved s w1 w' (order_total its) 0"
    using Cons.IH [of w1 "Suc n"] one Cons.prems(3) w1(2) by (simp add: items_moved_def)
  with one show ?case using items_moved_trans [of s w w1 q 0 w'] by (simp add: x)
qed

lemma receive_line_moves:
  assumes t: "tracked s w" and run: "receive_order_line dest skus (v, q) w = (Inr (), w')"
  shows "items_moved s w w' (- q) q
    \<and> ow_postings w' = ow_postings w @ [\<lparr>po_sku = the (map_of skus v), po_location = dest, po_quantity = q\<rparr>]"
proof -
  let ?key = "order_key (the (map_of skus v)) dest"
  obtain i where i: "map_of (work_items w) ?key = Some i"
    using run by (auto simp: receive_order_line_def Let_def oper_simps split: option.splits)
  obtain w1 where c: "change_item ?key (receiveInTransit (q_each q)) i w = (Inr (), w1)"
      and w': "w' = w1\<lparr>ow_postings := ow_postings w1 @ [\<lparr>po_sku = the (map_of skus v), po_location = dest, po_quantity = q\<rparr>]\<rparr>"
    using run i by (cases "change_item ?key (receiveInTransit (q_each q)) i w")
      (auto simp: receive_order_line_def Let_def oper_simps split: sum.splits dest: Quantity_each_InrD)
  from change_item_tracked [OF t i c]
  obtain j where j: "receiveInTransit (q_each q) i = (Inr (), j)" "tracked s w1"
      "\<And>f. gain f s w1 = gain f s w + f (row_of j) - f (row_of i)" "item_work.more w1 = item_work.more w" by auto
  have "ow_postings w1 = ow_postings w" using j(4) by (cases w, cases w1) simp
  then show ?thesis
    using j(2,3) call_on_row(2) [OF j(1)] by (simp add: items_moved_def w' tracked_def gain_def)
qed

lemma receive_lines_move:
  assumes "tracked s w" and "op_each (receive_order_line dest skus) its w = (Inr (), w')"
  shows "items_moved s w w' (- order_total its) (order_total its)
    \<and> ow_postings w' = ow_postings w @ map (\<lambda>(v, q). \<lparr>po_sku = the (map_of skus v), po_location = dest, po_quantity = q\<rparr>) its"
  using assms
proof (induction its arbitrary: w)
  case Nil
  then show ?case by (simp add: oper_simps items_moved_refl)
next
  case (Cons x its)
  obtain v q where x: "x = (v, q)" by fastforce
  obtain w1 where w1: "receive_order_line dest skus (v, q) w = (Inr (), w1)"
      "op_each (receive_order_line dest skus) its w1 = (Inr (), w')"
    using Cons.prems(2) by (auto simp: x elim: run_seqE)
  note one = receive_line_moves [OF Cons.prems(1) w1(1)]
  note rest = Cons.IH [of w1]
  have "tracked s w1" using one by (simp add: items_moved_def)
  with Cons.IH [OF this w1(2)] one show ?case
    using items_moved_trans [of s w w1 "- q" q w' "- order_total its" "order_total its"] by (simp add: x)
qed

text \<open>The lines of a cancelled order whose item is there.\<close>

definition known_total :: "ident \<Rightarrow> (string, string) js_map \<Rightarrow> (string, inventory_item) js_map \<Rightarrow> order_item list \<Rightarrow> number" where
  "known_total dest skus m its =
     (\<Sum>(v, q)\<leftarrow>its. if map_of m (order_key (the (map_of skus v)) dest) = None then 0 else q)"

lemma cancel_line_moves:
  assumes t: "tracked s w" and run: "cancel_order_line dest skus (v, q) w = (Inr (), w')"
  shows "items_moved s w w' (- known_total dest skus (work_items w) [(v, q)]) 0
    \<and> known_total dest skus (work_items w') its = known_total dest skus (work_items w) its"
proof (cases "map_of (work_items w) (order_key (the (map_of skus v)) dest)")
  case None
  with t run show ?thesis by (simp add: cancel_order_line_def Let_def oper_simps known_total_def items_moved_refl)
next
  case (Some i)
  let ?key = "order_key (the (map_of skus v)) dest"
  have c: "change_item ?key (cancelInTransit (q_each q)) i w = (Inr (), w')"
    using run Some by (auto simp: cancel_order_line_def Let_def oper_simps split: sum.splits dest: Quantity_each_InrD)
  from change_item_tracked [OF t Some c]
  obtain j where j: "cancelInTransit (q_each q) i = (Inr (), j)" "tracked s w'"
      "\<And>f. gain f s w' = gain f s w + f (row_of j) - f (row_of i)"
      "work_items w' = AList.update ?key j (work_items w)" by auto
  have "(map_of (work_items w') k = None) = (map_of (work_items w) k = None)" for k
    using Some by (simp add: j(4))
  then show ?thesis
    using j(2,3) call_on_row(3) [OF j(1)] Some by (simp add: items_moved_def known_total_def)
qed

lemma cancel_lines_move:
  assumes "tracked s w" and "op_each (cancel_order_line dest skus) its w = (Inr (), w')"
  shows "items_moved s w w' (- known_total dest skus (work_items w) its) 0"
  using assms
proof (induction its arbitrary: w)
  case Nil
  then show ?case by (simp add: oper_simps items_moved_refl known_total_def)
next
  case (Cons x its)
  obtain v q where x: "x = (v, q)" by fastforce
  obtain w1 where w1: "cancel_order_line dest skus (v, q) w = (Inr (), w1)"
      "op_each (cancel_order_line dest skus) its w1 = (Inr (), w')"
    using Cons.prems(2) by (auto simp: x elim: run_seqE)
  note one = cancel_line_moves [OF Cons.prems(1) w1(1), of its]
  have "tracked s w1" using one by (simp add: items_moved_def)
  with Cons.IH [OF this w1(2)] one show ?case
    using items_moved_trans [of s w w1 "- known_total dest skus (work_items w) [(v, q)]" 0 w' "- known_total dest skus (work_items w) its" 0]
    by (simp add: x known_total_def)
qed

lemma run_order_lines_saved:
  assumes inv: "pi_inv (ow_items w)" and run: "run_order_lines pg_inventory prepo d lines w = (Inr ds, w')"
  obtains skus pairs found work where "order_skus prepo d = Inr (skus, pairs)"
    and "pi_findBySkuAndLocationBatch (ow_items w) pairs = Inr found"
    and "lines skus \<lparr>work_items = keyed_items order_key found, work_changed = [], ow_postings = []\<rparr> = (Inr (), work)"
    and "ds = ow_postings work" and "w' = w\<lparr>ow_items := ow_items w'\<rparr>"
    and "\<And>t p. items_moved (ow_items w) \<lparr>work_items = keyed_items order_key found, work_changed = [], ow_postings = []\<rparr> work t p
      \<Longrightarrow> stock_moved (ow_items w) (ow_items w') t p"
    and "tracked (ow_items w) \<lparr>work_items = keyed_items order_key found, work_changed = [], ow_postings = ([] :: posting list)\<rparr>"
    and "\<And>uuid. ids_from uuid 0 (ow_items w) \<lparr>work_items = keyed_items order_key found, work_changed = [], ow_postings = ([] :: posting list)\<rparr>"
proof -
  obtain skus pairs where sp: "order_skus prepo d = Inr (skus, pairs)"
    using run by (auto simp: run_order_lines_def oper_simps split: sum.splits)
  obtain found where found: "pi_findBySkuAndLocationBatch (ow_items w) pairs = Inr found"
    using run sp by (auto simp: run_order_lines_def oper_simps pg_inventory_def split: sum.splits)
  let ?w0 = "\<lparr>work_items = keyed_items order_key found, work_changed = [], ow_postings = ([] :: posting list)\<rparr>"
  obtain work where work: "lines skus ?w0 = (Inr (), work)"
    using run sp found by (cases "lines skus ?w0") (auto simp: run_order_lines_def oper_simps pg_inventory_def split: sum.splits)
  obtain s' where saved: "pi_saveBatch (changed_items work) (ow_items w) = (Inr (), s')" and w': "w' = w\<lparr>ow_items := s'\<rparr>" "ds = ow_postings work"
    using run sp found work by (auto simp: run_order_lines_def oper_simps pg_inventory_def split: sum.splits prod.splits)
  have load: "tracked (ow_items w) ?w0" "\<And>f. stock_field f \<Longrightarrow> gain f (ow_items w) ?w0 = 0"
    using loaded_tracked [OF inv found, of ?w0 order_key] by auto
  have ids: "ids_from uuid 0 (ow_items w) ?w0" for uuid by (rule loaded_ids [OF inv found]) simp_all
  have "stock_moved (ow_items w) (ow_items w') t p" if m: "items_moved (ow_items w) ?w0 work t p" for t p
    using saved_moved [OF inv saved m load(2)] by (simp add: w'(1))
  with sp found work w' load(1) ids show thesis by (intro that) auto
qed

definition order_postings :: "(string, string) js_map \<Rightarrow> ident \<Rightarrow> order_item list \<Rightarrow> posting list" where
  "order_postings skus dest its = map (\<lambda>(v, q). \<lparr>po_sku = the (map_of skus v), po_location = dest, po_quantity = q\<rparr>) its"

lemma load_order_returns: "load_order orepo oid w = (Inr d, w1) \<Longrightarrow> w1 = w \<and> find_order orepo (ow_orders w) oid = Inr (Some d)"
  by (auto simp: load_order_def oper_simps PurchaseOrderId_def make_id_Inr_iff split: sum.splits option.splits)

lemma load_orderE:
  assumes "op_bind (load_order orepo oid) k w = (Inr b, w')"
  obtains d where "find_order orepo (ow_orders w) oid = Inr (Some d)" and "k d w = (Inr b, w')"
  using run_bindE [OF assms] load_order_returns by metis

lemma zoom_orders_keeps: "on_orders m w = (Inr b, w') \<Longrightarrow> ow_items w' = ow_items w \<and> ow_ledger w' = ow_ledger w"
  by (auto simp: oper_simps split: prod.splits)

lemma intercept_keeps: "intercept_place uuid now arepo d who w = (Inr b, w') \<Longrightarrow> ow_items w' = ow_items w \<and> ow_ledger w' = ow_ledger w"
  by (auto simp: intercept_place_def oper_simps split: prod.splits option.splits)

lemma save_and_return: "op_seq (on_orders (save_order orepo d)) (op_return (toPoDTO d)) w = (Inr dto, w') \<Longrightarrow>
    ow_items w' = ow_items w \<and> ow_ledger w' = ow_ledger w \<and> dto = toPoDTO d"
  by (auto simp: oper_simps split: prod.splits sum.splits)

lemma place_stock:
  assumes run: "PlacePurchaseOrderUseCase item_uuid uuid now orepo pg_inventory prepo arepo oid who w = (Inr dto, w')"
    and inv: "pi_inv (ow_items w)" and new: "new_ids item_uuid (ow_items w)"
  shows "od_status dto = ''PENDING_APPROVAL'' \<and> ow_items w' = ow_items w
    \<or> od_status dto = ''ORDERED'' \<and> stock_moved (ow_items w) (ow_items w') (order_total (od_items dto)) 0"
proof -
  obtain d0 where d0: "find_order orepo (ow_orders w) oid = Inr (Some d0)"
      "op_bind (intercept_place uuid now arepo d0 who) (\<lambda>intercepted.
     if intercepted \<noteq> None
     then (case markPendingApproval d0 of
         (Inl e, d) \<Rightarrow> op_throw e
       | (Inr _, d) \<Rightarrow> op_seq (on_orders (save_order orepo d)) (op_return (toPoDTO d)))
     else (case or_place d0 of
         (Inl e, d) \<Rightarrow> op_throw e
       | (Inr _, d) \<Rightarrow>
           op_bind (run_order_lines pg_inventory prepo d (\<lambda>skus.
               op_each (place_line item_uuid (or_destination d) skus) (enumerate 0 (or_items d)))) (\<lambda>_.
           op_seq (on_orders (save_order orepo d)) (op_return (toPoDTO d))))) w = (Inr dto, w')"
    using run unfolding PlacePurchaseOrderUseCase_def by (rule load_orderE)
  from d0(2) obtain c w1 where c: "intercept_place uuid now arepo d0 who w = (Inr c, w1)"
      and rest: "(if c \<noteq> None
     then (case markPendingApproval d0 of
         (Inl e, d) \<Rightarrow> op_throw e
       | (Inr _, d) \<Rightarrow> op_seq (on_orders (save_order orepo d)) (op_return (toPoDTO d)))
     else (case or_place d0 of
         (Inl e, d) \<Rightarrow> op_throw e
       | (Inr _, d) \<Rightarrow>
           op_bind (run_order_lines pg_inventory prepo d (\<lambda>skus.
               op_each (place_line item_uuid (or_destination d) skus) (enumerate 0 (or_items d)))) (\<lambda>_.
           op_seq (on_orders (save_order orepo d)) (op_return (toPoDTO d))))) w1 = (Inr dto, w')"
    by (rule run_bindE)
  note w1 = intercept_keeps [OF c]
  show ?thesis
  proof (cases "c = None")
    case False
    then obtain d where d: "markPendingApproval d0 = (Inr (), d)"
        "op_seq (on_orders (save_order orepo d)) (op_return (toPoDTO d)) w1 = (Inr dto, w')"
      using rest by (cases "markPendingApproval d0") (auto simp: oper_simps split: sum.splits)
    have "or_status d = PendingApproval_order" using d(1) by (auto simp: order_op_defs oper_simps split: if_splits)
    with save_and_return [OF d(2)] w1 show ?thesis by (simp add: toPoDTO_def)
  next
    case True
    then obtain d where d: "or_place d0 = (Inr (), d)"
        "op_bind (run_order_lines pg_inventory prepo d (\<lambda>skus.
               op_each (place_line item_uuid (or_destination d) skus) (enumerate 0 (or_items d)))) (\<lambda>_.
           op_seq (on_orders (save_order orepo d)) (op_return (toPoDTO d))) w1 = (Inr dto, w')"
      using rest by (cases "or_place d0") (auto simp: oper_simps split: sum.splits)
    obtain ds w2 where lines: "run_order_lines pg_inventory prepo d (\<lambda>skus.
               op_each (place_line item_uuid (or_destination d) skus) (enumerate 0 (or_items d))) w1 = (Inr ds, w2)"
        and last: "op_seq (on_orders (save_order orepo d)) (op_return (toPoDTO d)) w2 = (Inr dto, w')"
      using d(2) by (rule run_bindE)
    have "or_status d = Ordered_order" using d(1) by (auto simp: order_op_defs oper_simps split: if_splits)
    moreover have "stock_moved (ow_items w) (ow_items w2) (order_total (or_items d)) 0"
      using run_order_lines_saved [OF _ lines] place_lines_move inv new w1 by metis
    ultimately show ?thesis using save_and_return [OF last] by (simp add: toPoDTO_def)
  qed
qed

lemma receive_stock:
  assumes run: "ReceivePurchaseOrderUseCase uuid now orepo pg_inventory prepo mem_ledger oid actor tenant w = (Inr dto, w')"
    and inv: "pi_inv (ow_items w)"
  shows "od_status dto = ''RECEIVED''
    \<and> stock_moved (ow_items w) (ow_items w') (- order_total (od_items dto)) (order_total (od_items dto))
    \<and> (\<exists>skus names. result_map Sku (js_set (map (\<lambda>(v, q). the (map_of skus v)) (od_items dto))) = Inr names
        \<and> (\<forall>v loc. v \<noteq> [] \<longrightarrow> balance (ow_ledger w') v loc = balance (ow_ledger w) v loc
            + posted (variant_id_map (find_by_skus prepo names))
                (order_postings skus (od_destinationLocationId dto) (od_items dto)) v loc))"
proof -
  obtain d0 where d0: "find_order orepo (ow_orders w) oid = Inr (Some d0)"
      "(case or_receive d0 of
       (Inl e, d) \<Rightarrow> op_throw e
     | (Inr _, d) \<Rightarrow>
         op_bind (run_order_lines pg_inventory prepo d (\<lambda>skus.
             op_each (receive_order_line (or_destination d) skus) (or_items d))) (\<lambda>ds.
         op_seq (on_order_ledger (appendStockLedgerEntries uuid now prepo mem_ledger ds PurchaseReceipt
             \<lparr>ctx_tenant = Some tenant, ctx_actor = Some actor\<rparr>))
         (op_seq (on_orders (save_order orepo d)) (op_return (toPoDTO d))))) w = (Inr dto, w')"
    using run unfolding ReceivePurchaseOrderUseCase_def by (rule load_orderE)
  then obtain d where d: "or_receive d0 = (Inr (), d)"
      "op_bind (run_order_lines pg_inventory prepo d (\<lambda>skus.
             op_each (receive_order_line (or_destination d) skus) (or_items d))) (\<lambda>ds.
         op_seq (on_order_ledger (appendStockLedgerEntries uuid now prepo mem_ledger ds PurchaseReceipt
             \<lparr>ctx_tenant = Some tenant, ctx_actor = Some actor\<rparr>))
         (op_seq (on_orders (save_order orepo d)) (op_return (toPoDTO d)))) w = (Inr dto, w')"
    by (cases "or_receive d0") (auto simp: oper_simps split: sum.splits)
  obtain ds w1 where lines: "run_order_lines pg_inventory prepo d (\<lambda>skus.
             op_each (receive_order_line (or_destination d) skus) (or_items d)) w = (Inr ds, w1)"
      and rest: "op_seq (on_order_ledger (appendStockLedgerEntries uuid now prepo mem_ledger ds PurchaseReceipt
             \<lparr>ctx_tenant = Some tenant, ctx_actor = Some actor\<rparr>))
         (op_seq (on_orders (save_order orepo d)) (op_return (toPoDTO d))) w1 = (Inr dto, w')"
    using d(2) by (rule run_bindE)
  obtain w2 where post: "on_order_ledger (appendStockLedgerEntries uuid now prepo mem_ledger ds PurchaseReceipt
             \<lparr>ctx_tenant = Some tenant, ctx_actor = Some actor\<rparr>) w1 = (Inr (), w2)"
      and last: "op_seq (on_orders (save_order orepo d)) (op_return (toPoDTO d)) w2 = (Inr dto, w')"
    using rest by (rule run_seqE)
  obtain skus where skus: "ds = order_postings skus (or_destination d) (or_items d)"
      "stock_moved (ow_items w) (ow_items w1) (- order_total (or_items d)) (order_total (or_items d))" "ow_ledger w1 = ow_ledger w"
  proof (rule run_order_lines_saved [OF inv lines])
    fix skus pairs found work
    let ?w0 = "\<lparr>work_items = keyed_items order_key found, work_changed = [], ow_postings = []\<rparr>"
    assume work: "op_each (receive_order_line (or_destination d) skus) (or_items d) ?w0 = (Inr (), work)"
      and ds: "ds = ow_postings work" and w1: "w1 = w\<lparr>ow_items := ow_items w1\<rparr>" and t: "tracked (ow_items w) ?w0"
      and items_moved: "\<And>t p. items_moved (ow_items w) ?w0 work t p \<Longrightarrow> stock_moved (ow_items w) (ow_items w1) t p"
    note all = receive_lines_move [OF t work]
    have "ow_ledger w1 = ow_ledger w" by (subst w1) simp
    with all items_moved ds show thesis by (intro that [of skus]) (simp_all add: order_postings_def)
  qed
  obtain l where app: "appendStockLedgerEntries uuid now prepo mem_ledger ds PurchaseReceipt
             \<lparr>ctx_tenant = Some tenant, ctx_actor = Some actor\<rparr> (ow_ledger w1) = (Inr (), l)"
      and w2: "w2 = w1\<lparr>ow_ledger := l\<rparr>"
    using post by (auto simp: oper_simps split: prod.splits)
  have names: "\<exists>names. result_map Sku (js_set (map po_sku ds)) = Inr names
      \<and> balance l v loc = balance (ow_ledger w1) v loc + posted (variant_id_map (find_by_skus prepo names)) ds v loc"
    if "v \<noteq> []" for v loc
    using append_posts [OF that, where uuid = uuid and now = now and prepo = prepo and ds = ds and reason = PurchaseReceipt
        and ctx = "\<lparr>ctx_tenant = Some tenant, ctx_actor = Some actor\<rparr>" and es = "ow_ledger w1" and loc = loc] app
    by simp
  then obtain names where n: "result_map Sku (js_set (map po_sku ds)) = Inr names" by blast
  have "map po_sku ds = map (\<lambda>(v, q). the (map_of skus v)) (or_items d)"
    by (auto simp: skus(1) order_postings_def)
  moreover have "or_status d = Received_order" using d(1) by (auto simp: order_op_defs oper_simps split: if_splits)
  ultimately show ?thesis
    using save_and_return [OF last] skus names n w2 by (auto simp: toPoDTO_def)
qed

lemma cancel_stock:
  assumes run: "CancelPurchaseOrderUseCase orepo pg_inventory prepo oid w = (Inr dto, w')" and inv: "pi_inv (ow_items w)"
    and found: "find_order orepo (ow_orders w) oid = Inr (Some d0)"
  shows "od_status dto = ''CANCELLED'' \<and> ow_ledger w' = ow_ledger w
    \<and> (if or_status d0 = Ordered_order
       then \<exists>skus pairs found. order_skus prepo d0 = Inr (skus, pairs)
         \<and> pi_findBySkuAndLocationBatch (ow_items w) pairs = Inr found
         \<and> stock_moved (ow_items w) (ow_items w') (- known_total (or_destination d0) skus (keyed_items order_key found) (or_items d0)) 0
       else ow_items w' = ow_items w)"
proof -
  obtain d1 where d1: "find_order orepo (ow_orders w) oid = Inr (Some d1)"
      "(case or_cancel d1 of
       (Inl e, d) \<Rightarrow> op_throw e
     | (Inr _, d) \<Rightarrow>
         op_bind (if or_status d1 = Ordered_order
           then run_order_lines pg_inventory prepo d (\<lambda>skus. op_each (cancel_order_line (or_destination d) skus) (or_items d))
           else op_return []) (\<lambda>_.
         op_seq (on_orders (save_order orepo d)) (op_return (toPoDTO d)))) w = (Inr dto, w')"
    using run unfolding CancelPurchaseOrderUseCase_def by (rule load_orderE)
  have "d1 = d0" using d1(1) found by simp
  with d1 obtain d where d: "or_cancel d0 = (Inr (), d)"
      "op_bind (if or_status d0 = Ordered_order
           then run_order_lines pg_inventory prepo d (\<lambda>skus. op_each (cancel_order_line (or_destination d) skus) (or_items d))
           else op_return []) (\<lambda>_.
         op_seq (on_orders (save_order orepo d)) (op_return (toPoDTO d))) w = (Inr dto, w')"
    by (cases "or_cancel d0") (auto simp: oper_simps split: sum.splits)
  have same: "d = d0\<lparr>or_status := Cancelled_order\<rparr>" using d(1) by (auto simp: order_op_defs oper_simps split: if_splits)
  obtain ds w1 where lines: "(if or_status d0 = Ordered_order
           then run_order_lines pg_inventory prepo d (\<lambda>skus. op_each (cancel_order_line (or_destination d) skus) (or_items d))
           else op_return []) w = (Inr ds, w1)"
      and last: "op_seq (on_orders (save_order orepo d)) (op_return (toPoDTO d)) w1 = (Inr dto, w')"
    using d(2) by (rule run_bindE)
  show ?thesis
  proof (cases "or_status d0 = Ordered_order")
    case False
    with lines save_and_return [OF last] show ?thesis by (simp add: same toPoDTO_def oper_simps)
  next
    case True
    with lines have "run_order_lines pg_inventory prepo d (\<lambda>skus. op_each (cancel_order_line (or_destination d) skus) (or_items d)) w = (Inr ds, w1)"
      by simp
    from run_order_lines_saved [OF inv this]
    obtain skus pairs found work where r: "order_skus prepo d = Inr (skus, pairs)"
      "pi_findBySkuAndLocationBatch (ow_items w) pairs = Inr found"
      "op_each (cancel_order_line (or_destination d) skus) (or_items d)
         \<lparr>work_items = keyed_items order_key found, work_changed = [], ow_postings = []\<rparr> = (Inr (), work)"
      "w1 = w\<lparr>ow_items := ow_items w1\<rparr>"
      "\<And>t p. items_moved (ow_items w) \<lparr>work_items = keyed_items order_key found, work_changed = [], ow_postings = []\<rparr> work t p
        \<Longrightarrow> stock_moved (ow_items w) (ow_items w1) t p"
      "tracked (ow_items w) \<lparr>work_items = keyed_items order_key found, work_changed = [], ow_postings = ([] :: posting list)\<rparr>"
      by metis
    have "ow_ledger w1 = ow_ledger w" by (subst r(4)) simp
    with r cancel_lines_move [OF r(6,3)] save_and_return [OF last] True show ?thesis
      by (auto simp: same toPoDTO_def order_skus_def)
  qed
qed


definition sample_catalogue :: product_repo where
  "sample_catalogue = mem_products [(''p1'', Product ''p1'' ''Widget''
     (Some [(''v1'', ProductVariant ''v1'' ''p1'' ''WIDGET-1'' [] TrackQuantity)]))]"

definition order_sample_world :: "order_status \<Rightarrow> (order_map, inventory_db, unit, ledger_entry list) order_world" where
  "order_sample_world st = \<lparr>ow_orders = [(''po-1'', sample_order\<lparr>or_status := st\<rparr>)], ow_items = sample_db,
     ow_approvals = \<lparr>ap_store = (), ap_events = []\<rparr>, ow_ledger = []\<rparr>"


section \<open>An order that waits for approval\<close>

text \<open>
  An order that an approval workflow holds back stays held back: while it waits for approval,
  placing and receiving it throw and leave the orders, the stock and the ledger as they were, whatever
  the workflow store holds, hence also after its request has been approved. It can only be cancelled.
\<close>

theorem held_order_never_ordered:
  assumes "find_order orepo (ow_orders w) oid = Inr (Some d)" and "or_status d = PendingApproval_order"
  shows "(\<exists>e w'. PlacePurchaseOrderUseCase item_uuid uuid now orepo irepo prepo arepo oid who w = (Inl e, w')
      \<and> ow_orders w' = ow_orders w \<and> ow_items w' = ow_items w \<and> ow_ledger w' = ow_ledger w)
    \<and> (\<exists>e. ReceivePurchaseOrderUseCase uuid now orepo irepo prepo lrepo oid who tenant w = (Inl e, w))"
proof
  have load: "load_order orepo oid w = (if PurchaseOrderId oid = Inr oid then Inr d else Inl (projl (PurchaseOrderId oid)), w)"
    using assms(1) by (cases "PurchaseOrderId oid") (auto simp: load_order_def oper_simps PurchaseOrderId_def make_id_Inr_iff)
  have no: "\<exists>e. or_place d = (Inl e, d)" "\<exists>e. markPendingApproval d = (Inl e, d)" "\<exists>e. or_receive d = (Inl e, d)"
    using assms(2) by (auto simp: order_op_defs oper_simps)
  obtain r w1 where c: "intercept_place uuid now arepo d who w = (r, w1)" by fastforce
  have w1: "ow_orders w1 = ow_orders w \<and> ow_items w1 = ow_items w \<and> ow_ledger w1 = ow_ledger w"
    using c by (auto simp: intercept_place_def oper_simps split: prod.splits option.splits)
  show "\<exists>e w'. PlacePurchaseOrderUseCase item_uuid uuid now orepo irepo prepo arepo oid who w = (Inl e, w')
      \<and> ow_orders w' = ow_orders w \<and> ow_items w' = ow_items w \<and> ow_ledger w' = ow_ledger w"
    using load no c w1 by (cases r) (auto simp: PlacePurchaseOrderUseCase_def oper_simps)
  show "\<exists>e. ReceivePurchaseOrderUseCase uuid now orepo irepo prepo lrepo oid who tenant w = (Inl e, w)"
    using load no by (auto simp: ReceivePurchaseOrderUseCase_def oper_simps)
qed

theorem held_order_never_ordered_witness:
  "\<exists>e w'. PlacePurchaseOrderUseCase (\<lambda>n. ''i9'') sample_uuid 2 mem_orders pg_inventory sample_catalogue
      (None :: unit approval_repo option) ''po-1'' ''a1'' (order_sample_world PendingApproval_order) = (Inl e, w')
    \<and> ow_orders w' = [(''po-1'', sample_order\<lparr>or_status := PendingApproval_order\<rparr>)]"
proof -
  let ?d = "sample_order\<lparr>or_status := PendingApproval_order\<rparr>"
  have "find_order mem_orders (ow_orders (order_sample_world PendingApproval_order)) ''po-1'' = Inr (Some ?d)"
    by code_simp
  from held_order_never_ordered [OF this, of "\<lambda>n. ''i9''" sample_uuid 2 pg_inventory sample_catalogue None "''a1''" mem_ledger "''t1''"]
  show ?thesis by (auto simp: order_sample_world_def)
qed

end
