(* ===== verification/Replenishment.thy ===== *)
theory Replenishment
  imports PurchaseOrders Transfers
begin

text \<open>
  Replenishment: the rules (src/src/domain/entities/ReplenishmentRule.ts, their store
  InMemoryReplenishmentRuleRepository.ts), the run over the rules of a tenant
  (src/src/domain/services/ReplenishmentEvaluator.ts) and the rule use cases of
  src/src/application/useCases/ManageReplenishment.ts. The forecaster that a rule with a dynamic reorder
  point asks is the argument \<open>forecast\<close>. \<open>uuid n\<close> is the identifier drawn for the n-th active rule.
\<close>

section \<open>Rules\<close>

datatype replenishment_type = Supplier_type | Transfer_type

record replenishment_rule =
  rr_id :: ident
  rr_tenant :: ident
  rr_sku :: string
  rr_location :: ident
  rr_reorderPoint :: number
  rr_reorderQuantity :: number
  rr_safetyStock :: number
  rr_leadTimeDays :: number
  rr_type :: replenishment_type
  rr_source :: "ident option"
  rr_supplier :: "string option"
  rr_isActive :: bool
  rr_dynamic :: bool
  rr_createdAt :: time
  rr_updatedAt :: time

definition truthy :: "string option \<Rightarrow> bool" where
  "truthy x \<longleftrightarrow> x \<noteq> None \<and> x \<noteq> Some []"

definition ReplenishmentRule ::
    "ident \<Rightarrow> ident \<Rightarrow> string \<Rightarrow> ident \<Rightarrow> number \<Rightarrow> number \<Rightarrow> number \<Rightarrow> number \<Rightarrow> replenishment_type \<Rightarrow> ident option
     \<Rightarrow> string option \<Rightarrow> bool \<Rightarrow> bool \<Rightarrow> time \<Rightarrow> time \<Rightarrow> replenishment_rule result" where
  "ReplenishmentRule i tenant sku loc rop q safety lead kind source supplier active dynamic created updated =
     (if rop < 0 then Inl (Error ''Reorder point cannot be negative.'' [])
      else if q \<le> 0 then Inl (Error ''Reorder quantity must be positive.'' [])
      else if safety < 0 then Inl (Error ''Safety stock cannot be negative.'' [])
      else if lead < 0 then Inl (Error ''Lead time days cannot be negative.'' [])
      else if kind = Transfer_type \<and> source = None
        then Inl (Error ''Source location is required for transfer replenishment.'' [])
      else if kind = Transfer_type \<and> source = Some loc
        then Inl (Error ''Source location cannot be the same as the destination location.'' [])
      else if kind = Supplier_type \<and> \<not> truthy supplier
        then Inl (Error ''Supplier ID is required for supplier replenishment.'' [])
      else Inr \<lparr>rr_id = i, rr_tenant = tenant, rr_sku = sku, rr_location = loc, rr_reorderPoint = rop,
        rr_reorderQuantity = q, rr_safetyStock = safety, rr_leadTimeDays = lead, rr_type = kind, rr_source = source,
        rr_supplier = supplier, rr_isActive = active, rr_dynamic = dynamic, rr_createdAt = created, rr_updatedAt = updated\<rparr>)"

definition updateReorderPoint :: "number \<Rightarrow> (replenishment_rule, unit) oper" where
  "updateReorderPoint newRop =
     op_seq (op_reject (newRop < 0) (Error ''Reorder point cannot be negative.'' []))
       (op_modify (\<lambda>r. r\<lparr>rr_reorderPoint := newRop\<rparr>))"

definition toggleActive :: "bool \<Rightarrow> (replenishment_rule, unit) oper" where
  "toggleActive active = op_modify (\<lambda>r. r\<lparr>rr_isActive := active\<rparr>)"

definition updateConfiguration :: "number \<Rightarrow> number \<Rightarrow> number \<Rightarrow> bool \<Rightarrow> number option \<Rightarrow> (replenishment_rule, unit) oper" where
  "updateConfiguration q safety lead dynamic rop =
     op_seq (op_reject (q \<le> 0) (Error ''Reorder quantity must be positive.'' []))
     (op_seq (op_reject (safety < 0) (Error ''Safety stock cannot be negative.'' []))
     (op_seq (op_reject (lead < 0) (Error ''Lead time days cannot be negative.'' []))
     (op_seq (op_modify (\<lambda>r. r\<lparr>rr_reorderQuantity := q, rr_safetyStock := safety, rr_leadTimeDays := lead, rr_dynamic := dynamic\<rparr>))
       (case rop of None \<Rightarrow> op_return () | Some newRop \<Rightarrow> updateReorderPoint newRop))))"

definition rr_createNew ::
    "time \<Rightarrow> ident \<Rightarrow> ident \<Rightarrow> string \<Rightarrow> ident \<Rightarrow> number \<Rightarrow> number \<Rightarrow> number \<Rightarrow> number \<Rightarrow> replenishment_type \<Rightarrow> ident option
     \<Rightarrow> string option \<Rightarrow> bool \<Rightarrow> replenishment_rule result" where
  "rr_createNew now i tenant sku loc rop q safety lead kind source supplier dynamic =
     ReplenishmentRule i tenant sku loc rop q safety lead kind source supplier True dynamic now now"

section \<open>Their store\<close>

record 'u rule_repo =
  find_rule :: "'u \<Rightarrow> ident \<Rightarrow> replenishment_rule option result"
  find_rules :: "'u \<Rightarrow> ident \<Rightarrow> replenishment_rule list result"
  find_rules_at :: "'u \<Rightarrow> ident \<Rightarrow> replenishment_rule list result"
  save_rule :: "replenishment_rule \<Rightarrow> ('u, unit) oper"
  save_rules :: "replenishment_rule list \<Rightarrow> ('u, unit) oper"

type_synonym rule_map = "(ident, replenishment_rule) js_map"

definition cloneRule :: "replenishment_rule \<Rightarrow> replenishment_rule result" where
  "cloneRule r =
     result_bind (ReplenishmentRuleId (rr_id r)) (\<lambda>i. result_bind (TenantId (rr_tenant r)) (\<lambda>tenant.
     result_bind (Sku (rr_sku r)) (\<lambda>sku. result_bind (LocationId (rr_location r)) (\<lambda>loc.
     result_bind (case rr_source r of None \<Rightarrow> Inr None | Some l \<Rightarrow> result_bind (LocationId l) (Inr \<circ> Some)) (\<lambda>source.
       ReplenishmentRule i tenant sku loc (rr_reorderPoint r) (rr_reorderQuantity r) (rr_safetyStock r) (rr_leadTimeDays r)
         (rr_type r) source (rr_supplier r) (rr_isActive r) (rr_dynamic r) (rr_createdAt r) (rr_updatedAt r))))))"

definition mr_save :: "replenishment_rule \<Rightarrow> (rule_map, unit) oper" where
  "mr_save r = op_modify (AList.update (rr_id r) r)"

definition mr_saveBatch :: "replenishment_rule list \<Rightarrow> (rule_map, unit) oper" where
  "mr_saveBatch rs = op_each (\<lambda>r. op_modify (AList.update (rr_id r) r)) rs"

definition mr_findById :: "rule_map \<Rightarrow> ident \<Rightarrow> replenishment_rule option result" where
  "mr_findById m i = (case map_of m i of None \<Rightarrow> Inr None | Some r \<Rightarrow> result_bind (cloneRule r) (Inr \<circ> Some))"

definition mr_findBySkuAndLocation :: "rule_map \<Rightarrow> string \<Rightarrow> ident \<Rightarrow> replenishment_rule option result" where
  "mr_findBySkuAndLocation m sku loc = (case find (\<lambda>r. rr_sku r = sku \<and> rr_location r = loc) (map snd m) of
     None \<Rightarrow> Inr None | Some r \<Rightarrow> result_bind (cloneRule r) (Inr \<circ> Some))"

definition mr_findAllByTenant :: "rule_map \<Rightarrow> ident \<Rightarrow> replenishment_rule list result" where
  "mr_findAllByTenant m tenant = result_map cloneRule (filter (\<lambda>r. rr_tenant r = tenant) (map snd m))"

definition mr_findAllByLocation :: "rule_map \<Rightarrow> ident \<Rightarrow> replenishment_rule list result" where
  "mr_findAllByLocation m loc = result_map cloneRule (filter (\<lambda>r. rr_location r = loc) (map snd m))"

definition mem_rules :: "rule_map rule_repo" where
  "mem_rules = \<lparr>find_rule = mr_findById, find_rules = mr_findAllByTenant,
     find_rules_at = mr_findAllByLocation, save_rule = mr_save, save_rules = mr_saveBatch\<rparr>"

section \<open>The rule use cases\<close>

definition CreateReplenishmentRuleUseCase ::
    "string \<Rightarrow> time \<Rightarrow> 'u rule_repo \<Rightarrow> string \<Rightarrow> string \<Rightarrow> string \<Rightarrow> number \<Rightarrow> number \<Rightarrow> number \<Rightarrow> number
     \<Rightarrow> replenishment_type \<Rightarrow> string option \<Rightarrow> string option \<Rightarrow> bool \<Rightarrow> ('u, replenishment_rule) oper" where
  "CreateReplenishmentRuleUseCase uuid now urepo tenantId sku locationId rop q safety lead kind source supplier dynamic =
     op_bind (op_lift (result_bind (ReplenishmentRuleId uuid) (\<lambda>i. result_bind (TenantId tenantId) (\<lambda>tenant.
       result_bind (Sku sku) (\<lambda>s. result_bind (LocationId locationId) (\<lambda>loc.
       result_bind (if truthy source then result_bind (LocationId (the source)) (Inr \<circ> Some) else Inr None) (\<lambda>src.
         rr_createNew now i tenant s loc rop q safety lead kind src (if truthy supplier then supplier else None) dynamic))))))) (\<lambda>r.
     op_seq (save_rule urepo r) (op_return r))"

definition change_rule ::
    "'u rule_repo \<Rightarrow> string \<Rightarrow> (replenishment_rule, unit) oper \<Rightarrow> ('u, replenishment_rule) oper" where
  "change_rule urepo ruleId change =
     op_bind (op_lift (ReplenishmentRuleId ruleId)) (\<lambda>i.
     op_bind (op_get (\<lambda>s. op_lift (find_rule urepo s i))) (\<lambda>found.
     case found of None \<Rightarrow> op_throw (Error ''Replenishment rule {} not found.'' [S ruleId])
     | Some r \<Rightarrow> (case change r of
         (Inl e, r') \<Rightarrow> op_throw e
       | (Inr _, r') \<Rightarrow> op_seq (save_rule urepo r') (op_return r'))))"

definition UpdateReplenishmentRuleUseCase ::
    "'u rule_repo \<Rightarrow> string \<Rightarrow> number \<Rightarrow> number \<Rightarrow> number \<Rightarrow> bool \<Rightarrow> number option \<Rightarrow> ('u, replenishment_rule) oper" where
  "UpdateReplenishmentRuleUseCase urepo ruleId q safety lead dynamic rop =
     change_rule urepo ruleId (updateConfiguration q safety lead dynamic rop)"

definition ToggleReplenishmentRuleUseCase :: "'u rule_repo \<Rightarrow> string \<Rightarrow> bool \<Rightarrow> ('u, replenishment_rule) oper" where
  "ToggleReplenishmentRuleUseCase urepo ruleId active = change_rule urepo ruleId (toggleActive active)"

section \<open>The run over the rules\<close>

datatype reason = Reason string "arg list" | Failed error

datatype action_type = TRANSFER | SUPPLIER

record evaluation =
  ev_ruleId :: ident
  ev_sku :: string
  ev_location :: ident
  ev_triggered :: bool
  ev_reason :: "reason option"
  ev_action :: "(ident \<times> action_type) option"
  ev_reorderPoint :: number
  ev_position :: number

definition not_triggered :: "replenishment_rule \<Rightarrow> reason \<Rightarrow> number \<Rightarrow> evaluation" where
  "not_triggered r why position = \<lparr>ev_ruleId = rr_id r, ev_sku = rr_sku r, ev_location = rr_location r, ev_triggered = False,
     ev_reason = Some why, ev_action = None, ev_reorderPoint = rr_reorderPoint r, ev_position = position\<rparr>"

definition triggered :: "replenishment_rule \<Rightarrow> ident \<Rightarrow> action_type \<Rightarrow> number \<Rightarrow> evaluation" where
  "triggered r actionId kind position = \<lparr>ev_ruleId = rr_id r, ev_sku = rr_sku r, ev_location = rr_location r, ev_triggered = True,
     ev_reason = None, ev_action = Some (actionId, kind), ev_reorderPoint = rr_reorderPoint r, ev_position = position\<rparr>"

text \<open>What the loop collects, and what it reads.\<close>

record evaluation_run =
  er_results :: "evaluation list"
  er_rules :: "replenishment_rule list"
  er_transfers :: "stock_transfer list"
  er_orders :: "purchase_order list"

record evaluation_data =
  ed_tenant :: ident
  ed_orders :: "purchase_order list"
  ed_transfers :: "stock_transfer list"
  ed_items :: "(string, inventory_item) js_map"
  ed_variants :: "(string, product_variant) js_map"

definition hasOpenPo :: "purchase_order list \<Rightarrow> ident \<Rightarrow> ident \<Rightarrow> bool" where
  "hasOpenPo allPos loc v \<longleftrightarrow> list_ex (\<lambda>d. or_destination d = loc
     \<and> (or_status d = Draft_order \<or> or_status d = Ordered_order) \<and> list_ex (\<lambda>(w, q). w = v) (or_items d)) allPos"

definition hasOpenTransfer :: "stock_transfer list \<Rightarrow> ident \<Rightarrow> ident \<Rightarrow> bool" where
  "hasOpenTransfer ts loc v \<longleftrightarrow> list_ex (\<lambda>t. tr_destination t = loc
     \<and> (tr_status t = Draft \<or> tr_status t = Dispatched) \<and> list_ex (\<lambda>(w, q). w = v) (tr_items t)) ts"

definition inventoryPosition :: "inventory_item option \<Rightarrow> number" where
  "inventoryPosition x = (case x of None \<Rightarrow> 0 | Some i \<Rightarrow> amount (on_hand i) - amount (allocated i) + amount (inTransit i))"

definition push_result :: "evaluation \<Rightarrow> (evaluation_run, unit) oper" where
  "push_result e = op_modify (\<lambda>s. s\<lparr>er_results := er_results s @ [e]\<rparr>)"

definition raise_document ::
    "string \<Rightarrow> time \<Rightarrow> evaluation_data \<Rightarrow> replenishment_rule \<Rightarrow> ident \<Rightarrow> number \<Rightarrow> (evaluation_run, unit) oper" where
  "raise_document uuid now d r v position = (case rr_type r of
     Transfer_type \<Rightarrow>
       op_bind (op_lift (result_bind (StockTransferId uuid) (\<lambda>i. result_bind (ProductVariantId v) (\<lambda>v'.
         result_bind (StockTransferItem v' (rr_reorderQuantity r)) (\<lambda>item.
         tr_createNew now i (ed_tenant d) (the (rr_source r)) (rr_location r) [item]
           (Some (''Replenishment Triggered (Rule: '' @ rr_id r @ [CHR '')'']))))))) (\<lambda>t.
       op_seq (op_modify (\<lambda>s. s\<lparr>er_transfers := er_transfers s @ [t]\<rparr>))
         (push_result (triggered r uuid TRANSFER position)))
   | Supplier_type \<Rightarrow>
       op_bind (op_lift (result_bind (PurchaseOrderId uuid) (\<lambda>i. result_bind (ProductVariantId v) (\<lambda>v'.
         result_bind (PurchaseOrderItem v' (rr_reorderQuantity r)) (\<lambda>item.
         or_createNew now i (ed_tenant d) (the (rr_supplier r)) (rr_location r) [item]))))) (\<lambda>p.
       op_seq (op_modify (\<lambda>s. s\<lparr>er_orders := er_orders s @ [p]\<rparr>))
         (push_result (triggered r uuid SUPPLIER position))))"

type_synonym forecaster =
  "string \<Rightarrow> ident \<Rightarrow> number \<Rightarrow> number \<Rightarrow> number \<Rightarrow> ident \<Rightarrow> purchase_order list \<Rightarrow> number result"

text \<open>The new reorder point of a rule, with the rule as it is when the forecast or the update throws.\<close>

definition forecast_rule ::
    "forecaster \<Rightarrow> number \<Rightarrow> evaluation_data \<Rightarrow> replenishment_rule \<Rightarrow> unit result \<times> replenishment_rule" where
  "forecast_rule forecast windowDays d r =
     (if \<not> rr_dynamic r then (Inr (), r)
      else case forecast (rr_sku r) (rr_location r) (rr_leadTimeDays r) (rr_safetyStock r) windowDays (ed_tenant d) (ed_orders d) of
        Inl e \<Rightarrow> (Inl e, r)
      | Inr rop \<Rightarrow> updateReorderPoint rop r)"

definition decide_rule :: "string \<Rightarrow> time \<Rightarrow> evaluation_data \<Rightarrow> replenishment_rule \<Rightarrow> (evaluation_run, unit) oper" where
  "decide_rule uuid now d r = (case map_of (ed_variants d) (rr_sku r) of
     None \<Rightarrow> push_result (not_triggered r (Reason ''Product variant with SKU {} not found in catalog.'' [S (rr_sku r)]) 0)
   | Some variant \<Rightarrow>
     if hasOpenPo (ed_orders d) (rr_location r) (pv_id variant)
     then push_result (not_triggered r (Reason ''An open/draft Purchase Order already exists for this SKU and location.'' []) 0)
     else if hasOpenTransfer (ed_transfers d) (rr_location r) (pv_id variant)
     then push_result (not_triggered r (Reason ''An open/draft Stock Transfer already exists for this SKU and location.'' []) 0)
     else let position = inventoryPosition (map_of (ed_items d) (item_key (rr_sku r) (rr_location r))) in
       if position < rr_reorderPoint r then raise_document uuid now d r (pv_id variant) position
       else push_result (not_triggered r
         (Reason ''Inventory position ({}) is at or above reorder point ({}).'' [N position, N (rr_reorderPoint r)]) position))"

text \<open>One rule: what throws inside the try block becomes a result, with what was collected so far.\<close>

definition evaluate_rule ::
    "string \<Rightarrow> time \<Rightarrow> forecaster \<Rightarrow> number \<Rightarrow> evaluation_data \<Rightarrow> replenishment_rule \<Rightarrow> evaluation_run \<Rightarrow> evaluation_run" where
  "evaluate_rule uuid now forecast windowDays d r s = (case forecast_rule forecast windowDays d r of
     (Inl e, r') \<Rightarrow> s\<lparr>er_results := er_results s @ [not_triggered r' (Failed e) 0]\<rparr>
   | (Inr _, r') \<Rightarrow>
     (case decide_rule uuid now d r' (if rr_dynamic r then s\<lparr>er_rules := er_rules s @ [r']\<rparr> else s) of
        (Inl e, s') \<Rightarrow> s'\<lparr>er_results := er_results s' @ [not_triggered r' (Failed e) 0]\<rparr>
      | (Inr _, s') \<Rightarrow> s'))"

definition empty_run :: evaluation_run where
  "empty_run = \<lparr>er_results = [], er_rules = [], er_transfers = [], er_orders = []\<rparr>"

text \<open>The loop over the active rules.\<close>

definition run_rules ::
    "(nat \<Rightarrow> string) \<Rightarrow> time \<Rightarrow> forecaster \<Rightarrow> number \<Rightarrow> evaluation_data \<Rightarrow> nat \<Rightarrow> replenishment_rule list \<Rightarrow> evaluation_run
     \<Rightarrow> evaluation_run" where
  "run_rules uuid now forecast wd d k rules s =
     fold (\<lambda>(n, r). evaluate_rule (uuid n) now forecast wd d r) (enumerate k rules) s"

record ('u, 'p, 't, 'i) replenishment_world =
  rw_rules :: 'u
  rw_orders :: 'p
  rw_transfers :: 't
  rw_items :: 'i

abbreviation on_rw_rules :: "('u, 'r) oper \<Rightarrow> (('u, 'p, 't, 'i) replenishment_world, 'r) oper" where
  "on_rw_rules m \<equiv> op_zoom rw_rules (\<lambda>s w. w\<lparr>rw_rules := s\<rparr>) m"

abbreviation on_rw_orders :: "('p, 'r) oper \<Rightarrow> (('u, 'p, 't, 'i) replenishment_world, 'r) oper" where
  "on_rw_orders m \<equiv> op_zoom rw_orders (\<lambda>s w. w\<lparr>rw_orders := s\<rparr>) m"

abbreviation on_rw_transfers :: "('t, 'r) oper \<Rightarrow> (('u, 'p, 't, 'i) replenishment_world, 'r) oper" where
  "on_rw_transfers m \<equiv> op_zoom rw_transfers (\<lambda>s w. w\<lparr>rw_transfers := s\<rparr>) m"

definition load_data ::
    "'p order_repo \<Rightarrow> 't transfer_repo \<Rightarrow> 'i inventory_repo \<Rightarrow> product_repo \<Rightarrow> ident \<Rightarrow> replenishment_rule list
     \<Rightarrow> ('u, 'p, 't, 'i) replenishment_world \<Rightarrow> evaluation_data result" where
  "load_data orepo trepo irepo prepo tenantId activeRules w =
     result_bind (find_orders orepo (rw_orders w) tenantId) (\<lambda>allPos.
     result_bind (find_transfers trepo (rw_transfers w) tenantId) (\<lambda>openTransfers.
     result_bind (if length activeRules > 0
        then findBySkuAndLocationBatch irepo (rw_items w) (map (\<lambda>r. (rr_sku r, rr_location r)) activeRules) else Inr []) (\<lambda>items.
     let skus = js_set (map rr_sku activeRules) in
     Inr \<lparr>ed_tenant = tenantId, ed_orders = allPos, ed_transfers = openTransfers, ed_items = items_by_key items,
       ed_variants = variantMap skus (if length skus > 0 then find_by_skus prepo skus else [])\<rparr>)))"

definition evaluateRulesForTenant ::
    "(nat \<Rightarrow> string) \<Rightarrow> time \<Rightarrow> forecaster \<Rightarrow> 'u rule_repo \<Rightarrow> 'p order_repo \<Rightarrow> 't transfer_repo \<Rightarrow> 'i inventory_repo
     \<Rightarrow> product_repo \<Rightarrow> ident \<Rightarrow> number \<Rightarrow> (('u, 'p, 't, 'i) replenishment_world, evaluation list) oper" where
  "evaluateRulesForTenant uuid now forecast urepo orepo trepo irepo prepo tenantId windowDays =
     op_bind (op_get (\<lambda>w. op_lift (find_rules urepo (rw_rules w) tenantId))) (\<lambda>rules.
     if length rules = 0 then op_return []
     else let activeRules = filter rr_isActive rules in
       op_bind (op_get (\<lambda>w. op_lift (load_data orepo trepo irepo prepo tenantId activeRules w))) (\<lambda>d.
       let s = run_rules uuid now forecast windowDays d 0 activeRules empty_run in
       op_seq (if length (er_rules s) > 0 then on_rw_rules (save_rules urepo (er_rules s)) else op_return ())
       (op_seq (if length (er_transfers s) > 0 then on_rw_transfers (save_transfers trepo (er_transfers s)) else op_return ())
       (op_seq (if length (er_orders s) > 0 then on_rw_orders (save_orders orepo (er_orders s)) else op_return ())
         (op_return (er_results s))))))"

definition EvaluateReplenishmentUseCase ::
    "(nat \<Rightarrow> string) \<Rightarrow> time \<Rightarrow> forecaster \<Rightarrow> 'u rule_repo \<Rightarrow> 'p order_repo \<Rightarrow> 't transfer_repo \<Rightarrow> 'i inventory_repo
     \<Rightarrow> product_repo \<Rightarrow> string \<Rightarrow> number option \<Rightarrow> (('u, 'p, 't, 'i) replenishment_world, evaluation list) oper" where
  "EvaluateReplenishmentUseCase uuid now forecast urepo orepo trepo irepo prepo tenantId windowDays =
     op_bind (op_lift (TenantId tenantId)) (\<lambda>tenant.
       evaluateRulesForTenant uuid now forecast urepo orepo trepo irepo prepo tenant (case windowDays of None \<Rightarrow> 30 | Some n \<Rightarrow> n))"

definition GetReplenishmentRulesUseCase :: "'u rule_repo \<Rightarrow> 'u \<Rightarrow> string \<Rightarrow> replenishment_rule list result" where
  "GetReplenishmentRulesUseCase urepo s tenantId = result_bind (TenantId tenantId) (find_rules urepo s)"

section \<open>What one rule does\<close>

text \<open>The documents a rule raises: a draft for its quantity to its location.\<close>

definition order_for :: "string \<Rightarrow> ident \<Rightarrow> replenishment_rule \<Rightarrow> ident \<Rightarrow> purchase_order \<Rightarrow> bool" where
  "order_for u tenant r v p \<longleftrightarrow> or_id p = u \<and> or_tenant p = tenant \<and> or_supplier p = the (rr_supplier r)
     \<and> or_destination p = rr_location r \<and> or_items p = [(v, rr_reorderQuantity r)] \<and> or_status p = Draft_order"

definition transfer_for :: "string \<Rightarrow> ident \<Rightarrow> replenishment_rule \<Rightarrow> ident \<Rightarrow> stock_transfer \<Rightarrow> bool" where
  "transfer_for u tenant r v t \<longleftrightarrow> tr_id t = u \<and> tr_tenant t = tenant \<and> tr_source t = the (rr_source r)
     \<and> tr_destination t = rr_location r \<and> tr_items t = [(v, rr_reorderQuantity r)] \<and> tr_status t = Draft"

definition raises :: "string \<Rightarrow> ident \<Rightarrow> replenishment_rule \<Rightarrow> ident \<Rightarrow> evaluation_run \<Rightarrow> evaluation_run \<Rightarrow> bool" where
  "raises u tenant r v s s' \<longleftrightarrow> (case rr_type r of
     Supplier_type \<Rightarrow> (\<exists>p. er_orders s' = er_orders s @ [p] \<and> order_for u tenant r v p) \<and> er_transfers s' = er_transfers s
   | Transfer_type \<Rightarrow> (\<exists>t. er_transfers s' = er_transfers s @ [t] \<and> transfer_for u tenant r v t) \<and> er_orders s' = er_orders s)"

definition document_ok :: "string \<Rightarrow> time \<Rightarrow> evaluation_data \<Rightarrow> replenishment_rule \<Rightarrow> ident \<Rightarrow> bool" where
  "document_ok u now d r v \<longleftrightarrow> (\<exists>s'. raise_document u now d r v 0 empty_run = (Inr (), s'))"

definition due :: "string \<Rightarrow> time \<Rightarrow> evaluation_data \<Rightarrow> replenishment_rule \<Rightarrow> product_variant \<Rightarrow> bool" where
  "due u now d r variant \<longleftrightarrow> map_of (ed_variants d) (rr_sku r) = Some variant
     \<and> \<not> hasOpenPo (ed_orders d) (rr_location r) (pv_id variant)
     \<and> \<not> hasOpenTransfer (ed_transfers d) (rr_location r) (pv_id variant)
     \<and> inventoryPosition (map_of (ed_items d) (item_key (rr_sku r) (rr_location r))) < rr_reorderPoint r
     \<and> document_ok u now d r (pv_id variant)"

lemma raise_document_returns:
  assumes "raise_document u now d r v position s = (Inr (), s')"
  shows "raises u (ed_tenant d) r v s s' \<and> er_rules s' = er_rules s
    \<and> er_results s' = er_results s @ [triggered r u (case rr_type r of Supplier_type \<Rightarrow> SUPPLIER | Transfer_type \<Rightarrow> TRANSFER) position]"
proof (cases "rr_type r")
  case Supplier_type
  then show ?thesis
    using assms by (auto simp: raise_document_def oper_simps result_bind_Inr_iff raises_def push_result_def order_for_def
        or_createNew_def PurchaseOrder_def PurchaseOrderItem_def PurchaseOrderId_def ProductVariantId_def make_id_Inr_iff
        split: sum.splits if_splits)
next
  case Transfer_type
  then show ?thesis
    using assms by (auto simp: raise_document_def oper_simps result_bind_Inr_iff raises_def push_result_def transfer_for_def
        tr_createNew_def StockTransfer_def StockTransferItem_def StockTransferId_def ProductVariantId_def make_id_Inr_iff
        split: sum.splits if_splits)
qed

lemma raise_document_throws: "raise_document u now d r v position s = (Inl e, s') \<Longrightarrow> s' = s"
  by (cases "rr_type r") (auto simp: raise_document_def oper_simps push_result_def split: sum.splits)

lemma raise_document_ok: "document_ok u now d r v \<longleftrightarrow> (\<exists>s'. raise_document u now d r v position s = (Inr (), s'))"
  by (cases "rr_type r") (auto simp: document_ok_def raise_document_def oper_simps push_result_def split: sum.splits)

lemma forecast_rule_same:
  "forecast_rule forecast wd d r = (x, r') \<Longrightarrow> \<exists>rop. r' = r\<lparr>rr_reorderPoint := rop\<rparr>"
  by (rule exI [of _ "rr_reorderPoint r'"])
     (auto simp: forecast_rule_def updateReorderPoint_def oper_simps split: if_splits sum.splits)

text \<open>One rule: one result, and a document exactly if the rule is due.\<close>

type_synonym document = "purchase_order + stock_transfer"

fun orders_in :: "document option \<Rightarrow> purchase_order list" where
  "orders_in (Some (Inl p)) = [p]"
| "orders_in _ = []"

fun transfers_in :: "document option \<Rightarrow> stock_transfer list" where
  "transfers_in (Some (Inr t)) = [t]"
| "transfers_in _ = []"

definition document_for :: "string \<Rightarrow> ident \<Rightarrow> replenishment_rule \<Rightarrow> ident \<Rightarrow> document \<Rightarrow> bool" where
  "document_for u tenant r v doc \<longleftrightarrow> (case doc of
     Inl p \<Rightarrow> rr_type r = Supplier_type \<and> order_for u tenant r v p
   | Inr t \<Rightarrow> rr_type r = Transfer_type \<and> transfer_for u tenant r v t)"

definition judged :: "string \<Rightarrow> time \<Rightarrow> forecaster \<Rightarrow> number \<Rightarrow> evaluation_data \<Rightarrow> replenishment_rule \<Rightarrow> evaluation
    \<Rightarrow> document option \<Rightarrow> bool" where
  "judged u now forecast wd d r e doc \<longleftrightarrow> ev_ruleId e = rr_id r \<and> ev_sku e = rr_sku r \<and> ev_location e = rr_location r
     \<and> (case forecast_rule forecast wd d r of (x, r') \<Rightarrow> ev_reorderPoint e = rr_reorderPoint r'
        \<and> (ev_triggered e \<longleftrightarrow> x = Inr () \<and> (\<exists>variant. due u now d r' variant)))
     \<and> (case doc of None \<Rightarrow> \<not> ev_triggered e
        | Some c \<Rightarrow> ev_triggered e \<and> (\<exists>variant. map_of (ed_variants d) (rr_sku r) = Some variant
             \<and> document_for u (ed_tenant d) r (pv_id variant) c))"

lemma raises_document:
  "raises u tenant r v s s' \<Longrightarrow> \<exists>doc. document_for u tenant r v doc
     \<and> er_orders s' = er_orders s @ orders_in (Some doc) \<and> er_transfers s' = er_transfers s @ transfers_in (Some doc)"
  unfolding raises_def document_for_def
  by (cases "rr_type r")
     (auto intro: exI [of _ "Inl _ :: document"] exI [of _ "Inr _ :: document"])

lemma order_for_rop [simp]: "order_for u t (r\<lparr>rr_reorderPoint := x\<rparr>) v p = order_for u t r v p"
  "transfer_for u t (r\<lparr>rr_reorderPoint := x\<rparr>) v q = transfer_for u t r v q"
  by (simp_all add: order_for_def transfer_for_def)

lemma raises_rop [simp]: "raises u t (r\<lparr>rr_reorderPoint := x\<rparr>) v s s' = raises u t r v s s'"
  by (simp add: raises_def split: replenishment_type.split)

lemma decide_rule_cases:
  assumes "decide_rule u now d r s = (x, s')"
  shows "x = Inr () \<and> (\<exists>variant position kind. due u now d r variant
        \<and> raises u (ed_tenant d) r (pv_id variant) s s' \<and> er_results s' = er_results s @ [triggered r u kind position])
    \<or> x = Inr () \<and> (\<nexists>variant. due u now d r variant) \<and> (\<exists>why position. s' = s\<lparr>er_results := er_results s @ [not_triggered r why position]\<rparr>)
    \<or> (\<exists>e. x = Inl e) \<and> (\<nexists>variant. due u now d r variant) \<and> s' = s"
proof (cases "map_of (ed_variants d) (rr_sku r)")
  case None
  with assms show ?thesis by (auto simp: decide_rule_def push_result_def oper_simps due_def)
next
  case (Some v)
  let ?pos = "inventoryPosition (map_of (ed_items d) (item_key (rr_sku r) (rr_location r)))"
  show ?thesis
  proof (cases "hasOpenPo (ed_orders d) (rr_location r) (pv_id v) \<or> hasOpenTransfer (ed_transfers d) (rr_location r) (pv_id v)
      \<or> \<not> ?pos < rr_reorderPoint r")
    case True
    with assms Some show ?thesis by (auto simp: decide_rule_def push_result_def oper_simps due_def Let_def split: if_splits)
  next
    case False
    then have run: "raise_document u now d r (pv_id v) ?pos s = (x, s')"
      using assms Some by (simp add: decide_rule_def Let_def)
    show ?thesis
    proof (cases x)
      case (Inl e)
      with run have "\<not> document_ok u now d r (pv_id v)" using raise_document_ok [of u now d r "pv_id v" ?pos s] by simp
      with Some Inl run raise_document_throws show ?thesis by (auto simp: due_def)
    next
      case (Inr y)
      with run have "document_ok u now d r (pv_id v)" using raise_document_ok [of u now d r "pv_id v" ?pos s] by simp
      with Some False have "due u now d r v" by (simp add: due_def)
      with raise_document_returns run Inr show ?thesis by fastforce
    qed
  qed
qed

lemma document_for_rop [simp]: "document_for u t (r\<lparr>rr_reorderPoint := x\<rparr>) v doc = document_for u t r v doc"
  by (simp add: document_for_def split: sum.split)

lemma evaluate_rule_judged:
  "\<exists>e doc. er_results (evaluate_rule u now forecast wd d r s) = er_results s @ [e]
     \<and> er_orders (evaluate_rule u now forecast wd d r s) = er_orders s @ orders_in doc
     \<and> er_transfers (evaluate_rule u now forecast wd d r s) = er_transfers s @ transfers_in doc
     \<and> judged u now forecast wd d r e doc"
proof -
  obtain x r' where f: "forecast_rule forecast wd d r = (x, r')" by fastforce
  obtain rop where r': "r' = r\<lparr>rr_reorderPoint := rop\<rparr>" using forecast_rule_same [OF f] by blast
  show ?thesis
  proof (cases x)
    case (Inl e)
    with f show ?thesis by (intro exI [of _ "not_triggered r' (Failed e) 0"] exI [of _ None])
        (simp add: evaluate_rule_def judged_def not_triggered_def r')
  next
    case (Inr y)
    let ?s = "if rr_dynamic r then s\<lparr>er_rules := er_rules s @ [r']\<rparr> else s"
    obtain z s' where run: "decide_rule u now d r' ?s = (z, s')" by fastforce
    have same: "er_results ?s = er_results s" "er_orders ?s = er_orders s" "er_transfers ?s = er_transfers s"
      by simp_all
    have end_state: "evaluate_rule u now forecast wd d r s
        = (case z of Inl e \<Rightarrow> s'\<lparr>er_results := er_results s' @ [not_triggered r' (Failed e) 0]\<rparr> | Inr _ \<Rightarrow> s')"
      using f Inr run by (simp add: evaluate_rule_def split: sum.split)
    from decide_rule_cases [OF run] show ?thesis
    proof (elim disjE exE conjE)
      fix v position kind
      assume z: "z = Inr ()" and v: "due u now d r' v" and up: "raises u (ed_tenant d) r' (pv_id v) ?s s'"
        and res: "er_results s' = er_results ?s @ [triggered r' u kind position]"
      obtain doc where doc: "document_for u (ed_tenant d) r' (pv_id v) doc"
          "er_orders s' = er_orders ?s @ orders_in (Some doc)" "er_transfers s' = er_transfers ?s @ transfers_in (Some doc)"
        using raises_document [OF up] by blast
      have "map_of (ed_variants d) (rr_sku r) = Some v" using v by (simp add: due_def r')
      then have "judged u now forecast wd d r (triggered r' u kind position) (Some doc)"
        unfolding judged_def f using Inr v doc(1) by (auto simp: triggered_def r')
      with res doc(2,3) z end_state same show ?thesis
        by (intro exI [of _ "triggered r' u kind position"] exI [of _ "Some doc"]) simp
    next
      fix why position
      assume z: "z = Inr ()" and no: "\<nexists>variant. due u now d r' variant"
        and s': "s' = ?s\<lparr>er_results := er_results ?s @ [not_triggered r' why position]\<rparr>"
      have "judged u now forecast wd d r (not_triggered r' why position) None"
        unfolding judged_def f using no by (simp add: not_triggered_def r')
      with z s' end_state same show ?thesis
        by (intro exI [of _ "not_triggered r' why position"] exI [of _ None]) simp
    next
      fix e
      assume z: "z = Inl e" and no: "\<nexists>variant. due u now d r' variant" and s': "s' = ?s"
      have "judged u now forecast wd d r (not_triggered r' (Failed e) 0) None"
        unfolding judged_def f using no by (simp add: not_triggered_def r')
      with z s' end_state same show ?thesis
        by (intro exI [of _ "not_triggered r' (Failed e) 0"] exI [of _ None]) simp
    qed
  qed
qed

section \<open>The whole run\<close>

lemma run_rules_judged:
  "\<exists>es docs. length es = length rules \<and> length docs = length rules
     \<and> er_results (run_rules uuid now forecast wd d k rules s) = er_results s @ es
     \<and> er_orders (run_rules uuid now forecast wd d k rules s) = er_orders s @ concat (map orders_in docs)
     \<and> er_transfers (run_rules uuid now forecast wd d k rules s) = er_transfers s @ concat (map transfers_in docs)
     \<and> (\<forall>n<length rules. judged (uuid (k + n)) now forecast wd d (rules ! n) (es ! n) (docs ! n))"
proof (induction rules arbitrary: k s)
  case Nil
  then show ?case by (simp add: run_rules_def)
next
  case (Cons r rules)
  let ?s = "evaluate_rule (uuid k) now forecast wd d r s"
  obtain e doc where one: "er_results ?s = er_results s @ [e]" "er_orders ?s = er_orders s @ orders_in doc"
      "er_transfers ?s = er_transfers s @ transfers_in doc" "judged (uuid k) now forecast wd d r e doc"
    using evaluate_rule_judged by blast
  obtain es docs where rest: "length es = length rules" "length docs = length rules"
      "er_results (run_rules uuid now forecast wd d (Suc k) rules ?s) = er_results ?s @ es"
      "er_orders (run_rules uuid now forecast wd d (Suc k) rules ?s) = er_orders ?s @ concat (map orders_in docs)"
      "er_transfers (run_rules uuid now forecast wd d (Suc k) rules ?s) = er_transfers ?s @ concat (map transfers_in docs)"
      "\<forall>n<length rules. judged (uuid (Suc k + n)) now forecast wd d (rules ! n) (es ! n) (docs ! n)"
    using Cons.IH [of "Suc k" ?s] by blast
  have "run_rules uuid now forecast wd d k (r # rules) s = run_rules uuid now forecast wd d (Suc k) rules ?s"
    by (simp add: run_rules_def)
  moreover have "judged (uuid (k + n)) now forecast wd d ((r # rules) ! n) ((e # es) ! n) ((doc # docs) ! n)"
    if "n < length (r # rules)" for n
    using that one(4) rest(6) by (cases n) auto
  ultimately show ?case
    using one(1-3) rest(1-5) by (intro exI [of _ "e # es"] exI [of _ "doc # docs"]) simp
qed

lemma save_batch_fold:
  "mo_saveBatch ps m = (Inr (), fold (\<lambda>p. AList.update (or_id p) p) ps m)"
  "mt_saveBatch ts n = (Inr (), fold (\<lambda>t. AList.update (tr_id t) t) ts n)"
proof -
  show "mo_saveBatch ps m = (Inr (), fold (\<lambda>p. AList.update (or_id p) p) ps m)"
    unfolding mo_saveBatch_def by (induction ps arbitrary: m) (simp_all add: oper_simps)
  show "mt_saveBatch ts n = (Inr (), fold (\<lambda>t. AList.update (tr_id t) t) ts n)"
    unfolding mt_saveBatch_def by (induction ts arbitrary: n) (simp_all add: oper_simps mt_save_def)
qed

text \<open>What a run over the in-memory documents returns and stores.\<close>

lemma evaluation_outcome:
  assumes run: "evaluateRulesForTenant uuid now forecast urepo mem_orders mem_transfers irepo prepo tenant wd w = (Inr es, w')"
    and rules: "find_rules urepo (rw_rules w) tenant = Inr rules"
  shows "rules = [] \<and> es = [] \<and> w' = w \<or>
    (\<exists>d docs. load_data mem_orders mem_transfers irepo prepo tenant (filter rr_isActive rules) w = Inr d
      \<and> length es = length (filter rr_isActive rules) \<and> length docs = length es
      \<and> (\<forall>n<length es. judged (uuid n) now forecast wd d (filter rr_isActive rules ! n) (es ! n) (docs ! n))
      \<and> rw_orders w' = fold (\<lambda>p. AList.update (or_id p) p) (concat (map orders_in docs)) (rw_orders w)
      \<and> rw_transfers w' = fold (\<lambda>t. AList.update (tr_id t) t) (concat (map transfers_in docs)) (rw_transfers w)
      \<and> rw_items w' = rw_items w)"
proof (cases "rules = []")
  case True
  with run rules show ?thesis by (simp add: evaluateRulesForTenant_def oper_simps)
next
  case False
  let ?act = "filter rr_isActive rules"
  obtain d where d: "load_data mem_orders mem_transfers irepo prepo tenant ?act w = Inr d"
    using run rules False by (auto simp: evaluateRulesForTenant_def oper_simps Let_def split: sum.splits)
  obtain xs docs where j: "length xs = length ?act" "length docs = length ?act"
      "er_results (run_rules uuid now forecast wd d 0 ?act empty_run) = er_results empty_run @ xs"
      "er_orders (run_rules uuid now forecast wd d 0 ?act empty_run) = er_orders empty_run @ concat (map orders_in docs)"
      "er_transfers (run_rules uuid now forecast wd d 0 ?act empty_run) = er_transfers empty_run @ concat (map transfers_in docs)"
      "\<forall>n<length ?act. judged (uuid (0 + n)) now forecast wd d (?act ! n) (xs ! n) (docs ! n)"
    using run_rules_judged by blast
  let ?s = "run_rules uuid now forecast wd d 0 ?act empty_run"
  let ?save1 = "if length (er_rules ?s) > 0 then on_rw_rules (save_rules urepo (er_rules ?s)) else op_return ()"
  let ?rest = "op_seq (if length (er_transfers ?s) > 0 then on_rw_transfers (save_transfers mem_transfers (er_transfers ?s)) else op_return ())
       (op_seq (if length (er_orders ?s) > 0 then on_rw_orders (save_orders mem_orders (er_orders ?s)) else op_return ())
         (op_return (er_results ?s)))"
  have all: "op_seq ?save1 ?rest w = (Inr es, w')"
    using run rules False d by (simp add: evaluateRulesForTenant_def oper_simps Let_def)
  then obtain w1 where w1: "?save1 w = (Inr (), w1)" "?rest w1 = (Inr es, w')" by (rule run_seqE)
  have keep: "rw_orders w1 = rw_orders w \<and> rw_transfers w1 = rw_transfers w \<and> rw_items w1 = rw_items w"
    using w1(1) by (auto simp: oper_simps split: prod.splits if_splits)
  have "es = er_results ?s \<and> rw_items w' = rw_items w1
     \<and> rw_orders w' = fold (\<lambda>p. AList.update (or_id p) p) (er_orders ?s) (rw_orders w1)
     \<and> rw_transfers w' = fold (\<lambda>t. AList.update (tr_id t) t) (er_transfers ?s) (rw_transfers w1)"
    using w1(2) by (cases "er_orders ?s = []"; cases "er_transfers ?s = []")
      (auto simp: oper_simps mem_orders_def mem_transfers_def save_batch_fold)
  with keep j d show ?thesis by (intro disjI2 exI [of _ d] exI [of _ docs]) (simp add: empty_run_def)
qed

section \<open>No rule orders twice\<close>

lemma fold_updates_known:
  assumes "distinct (map f ps)" and "p \<in> set ps"
  shows "map_of (fold (\<lambda>p. AList.update (f p) p) ps m) (f p) = Some p"
  using assms
proof (induction ps arbitrary: m)
  case (Cons q ps)
  have keep: "map_of (fold (\<lambda>p. AList.update (f p) p) qs m) k = map_of m k" if "k \<notin> f ` set qs" for k qs m
    using that by (induction qs arbitrary: m) auto
  show ?case
  proof (cases "p = q")
    case True
    with Cons.prems(1) keep [of "f q" ps "AList.update (f q) q m"] show ?thesis by simp
  next
    case False
    with Cons show ?thesis by simp
  qed
qed simp

lemma distinct_document_ids:
  assumes "inj uuid" and "\<And>n x. n < length docs \<Longrightarrow> x \<in> set (part (docs ! n)) \<Longrightarrow> key x = uuid (k + n)"
    and "\<And>doc. length (part doc) \<le> 1"
  shows "distinct (map key (concat (map part docs)))"
  using assms(2)
proof (induction docs arbitrary: k)
  case (Cons doc docs)
  have rest: "key x = uuid (Suc k + n)" if "n < length docs" "x \<in> set (part (docs ! n))" for n x
    using Cons.prems [of "Suc n" x] that by simp
  have "key x = uuid k" if "x \<in> set (part doc)" for x using Cons.prems [of 0 x] that by simp
  moreover have "key x \<noteq> uuid k" if "x \<in> set (concat (map part docs))" for x
  proof -
    obtain n where "n < length docs" "x \<in> set (part (docs ! n))" using \<open>x \<in> set (concat (map part docs))\<close>
      by (auto simp: in_set_conv_nth) (metis in_set_conv_nth)
    then have "key x = uuid (Suc k + n)" by (rule rest)
    with assms(1) show ?thesis by (simp add: inj_eq)
  qed
  moreover have "distinct (map key (part doc))"
    using assms(3) [of doc] by (cases "part doc") auto
  ultimately show ?case using Cons.IH [OF rest] by (fastforce simp: image_iff)
qed simp

lemma clone_same: "cloneOrder p = Inr q \<Longrightarrow> q = p" "cloneTransfer t = Inr t' \<Longrightarrow>
    tr_destination t' = tr_destination t \<and> tr_status t' = tr_status t \<and> tr_items t' = tr_items t"
proof -
  have items: "result_map (\<lambda>(v, q). PurchaseOrderItem v q) xs = Inr ys \<Longrightarrow> ys = xs"
    "result_map (\<lambda>(v, q). StockTransferItem v q) xs = Inr ys \<Longrightarrow> ys = xs" for xs ys
    by (induction xs arbitrary: ys) (auto simp: PurchaseOrderItem_def StockTransferItem_def split: sum.splits if_splits)
  show "cloneOrder p = Inr q \<Longrightarrow> q = p"
    by (auto simp: cloneOrder_def result_bind_Inr_iff or_reconstruct_def PurchaseOrder_def PurchaseOrderId_def TenantId_def
        LocationId_def make_id_Inr_iff dest!: items split: if_splits)
  show "cloneTransfer t = Inr t' \<Longrightarrow>
      tr_destination t' = tr_destination t \<and> tr_status t' = tr_status t \<and> tr_items t' = tr_items t"
    by (auto simp: cloneTransfer_def result_bind_Inr_iff tr_reconstruct_def StockTransfer_def StockTransferId_def TenantId_def
        LocationId_def make_id_Inr_iff dest!: items split: if_splits)
qed

text \<open>The catalogue gives a SKU to one variant, whatever SKUs are looked up with it.\<close>

definition one_variant :: "product_repo \<Rightarrow> string \<Rightarrow> ident \<Rightarrow> bool" where
  "one_variant prepo sku v \<longleftrightarrow> (\<forall>skus variant. map_of (variantMap skus (find_by_skus prepo skus)) sku = Some variant \<longrightarrow> pv_id variant = v)"

lemma load_data_variants:
  "load_data orepo trepo irepo prepo tenant rules w = Inr d \<Longrightarrow> map_of (ed_variants d) sku = Some variant
   \<Longrightarrow> one_variant prepo sku v \<Longrightarrow> pv_id variant = v"
  by (auto simp: load_data_def result_bind_Inr_iff Let_def one_variant_def variantMap_def split: if_splits)

lemma load_data_orders:
  "load_data mem_orders mem_transfers irepo prepo tenant rules w = Inr d \<Longrightarrow>
   ed_tenant d = tenant \<and> mo_findAllByTenant (rw_orders w) tenant = Inr (ed_orders d)
   \<and> mt_findAllByTenant (rw_transfers w) tenant = Inr (ed_transfers d)"
  by (auto simp: load_data_def result_bind_Inr_iff Let_def mem_orders_def mem_transfers_def split: if_splits)

lemma stored_order_open:
  assumes "mo_findAllByTenant m tenant = Inr ds" and "map_of m k = Some p" and "or_tenant p = tenant"
    and "or_status p = Draft_order" and "or_items p = [(v, q)]"
  shows "hasOpenPo ds (or_destination p) v"
proof -
  have "p \<in> set (filter (\<lambda>x. or_tenant x = tenant) (map snd m))" using assms(2,3) by (force dest: map_of_SomeD)
  from result_map_member [OF assms(1) [unfolded mo_findAllByTenant_def] this] clone_same(1)
  have "p \<in> set ds" by blast
  with assms(4,5) show ?thesis by (force simp: hasOpenPo_def list_ex_iff)
qed

lemma stored_transfer_open:
  assumes "mt_findAllByTenant m tenant = Inr ts" and "map_of m k = Some t" and "tr_tenant t = tenant"
    and "tr_status t = Draft" and "tr_items t = [(v, q)]"
  shows "hasOpenTransfer ts (tr_destination t) v"
proof -
  have "t \<in> set (filter (\<lambda>x. tr_tenant x = tenant) (map snd m))" using assms(2,3) by (force dest: map_of_SomeD)
  from result_map_member [OF assms(1) [unfolded mt_findAllByTenant_def] this]
  obtain t' where t': "t' \<in> set ts" "cloneTransfer t = Inr t'" by blast
  with clone_same(2) [OF t'(2)] assms(4,5) show ?thesis by (auto simp: hasOpenTransfer_def list_ex_iff)
qed

text \<open>The document of a rule that was triggered keeps the rule from being due as long as it is a draft.\<close>

lemma document_blocks:
  assumes docs: "\<And>n. n < length docs \<Longrightarrow> judged (uuid n) now forecast wd d (rules ! n) (es ! n) (docs ! n)"
    and n: "n < length docs" and trig: "ev_triggered (es ! n)" and inj: "inj uuid" and tenant: "ed_tenant d = tenant"
    and v: "\<And>x. map_of (ed_variants d) (rr_sku (rules ! n)) = Some x \<Longrightarrow> pv_id x = v"
    and os: "mo_findAllByTenant (fold (\<lambda>p. AList.update (or_id p) p) (concat (map orders_in docs)) m) tenant = Inr ds"
    and ts: "mt_findAllByTenant (fold (\<lambda>t. AList.update (tr_id t) t) (concat (map transfers_in docs)) m') tenant = Inr dt"
  shows "hasOpenPo ds (rr_location (rules ! n)) v \<or> hasOpenTransfer dt (rr_location (rules ! n)) v"
proof -
  have ids: "or_id p = uuid (0 + i)" if "i < length docs" "p \<in> set (orders_in (docs ! i))" for i p
    using docs [OF that(1)] that(2)
    by (cases "docs ! i" rule: orders_in.cases) (auto simp: judged_def document_for_def order_for_def)
  have tids: "tr_id t = uuid (0 + i)" if "i < length docs" "t \<in> set (transfers_in (docs ! i))" for i t
    using docs [OF that(1)] that(2)
    by (cases "docs ! i" rule: transfers_in.cases) (auto simp: judged_def document_for_def transfer_for_def)
  obtain c where c: "docs ! n = Some c" "document_for (uuid n) tenant (rules ! n) v c"
    using docs [OF n] trig tenant v by (auto simp: judged_def split: option.splits)
  have mem: "Some c \<in> set docs" using nth_mem [OF n] c(1) by simp
  show ?thesis
  proof (cases c)
    case (Inl p)
    then have p: "or_tenant p = tenant" "or_status p = Draft_order" "or_destination p = rr_location (rules ! n)"
        "or_items p = [(v, rr_reorderQuantity (rules ! n))]"
      using c(2) by (auto simp: document_for_def order_for_def)
    have "p \<in> set (concat (map orders_in docs))" using mem Inl by (auto intro!: bexI [of _ "Some (Inl p)"])
    moreover have "length (orders_in doc) \<le> 1" for doc by (cases doc rule: orders_in.cases) auto
    then have "distinct (map or_id (concat (map orders_in docs)))"
      using distinct_document_ids [where part = orders_in and key = or_id and k = 0, OF inj ids] by blast
    ultimately have "map_of (fold (\<lambda>p. AList.update (or_id p) p) (concat (map orders_in docs)) m) (or_id p) = Some p"
      by (intro fold_updates_known)
    from stored_order_open [OF os this p(1,2,4)] p(3) show ?thesis by simp
  next
    case (Inr t)
    then have t: "tr_tenant t = tenant" "tr_status t = Draft" "tr_destination t = rr_location (rules ! n)"
        "tr_items t = [(v, rr_reorderQuantity (rules ! n))]"
      using c(2) by (auto simp: document_for_def transfer_for_def)
    have "t \<in> set (concat (map transfers_in docs))" using mem Inr by (auto intro!: bexI [of _ "Some (Inr t)"])
    moreover have "length (transfers_in doc) \<le> 1" for doc by (cases doc rule: transfers_in.cases) auto
    then have "distinct (map tr_id (concat (map transfers_in docs)))"
      using distinct_document_ids [where part = transfers_in and key = tr_id and k = 0, OF inj tids] by blast
    ultimately have "map_of (fold (\<lambda>t. AList.update (tr_id t) t) (concat (map transfers_in docs)) m') (tr_id t) = Some t"
      by (intro fold_updates_known)
    from stored_transfer_open [OF ts this t(1,2,4)] t(3) show ?thesis by simp
  qed
qed

text \<open>
  A run over the replenishment rules judges every active rule once, in order: its result carries
  the rule's SKU and location and the reorder point the rule has after its forecast; it is triggered
  exactly if the forecast succeeds and the rule is due, that is, the SKU has a variant, no draft or
  ordered purchase order and no draft or dispatched transfer brings that variant to the location, the
  inventory position is below the reorder point and the document can be built. Every triggered rule, and
  no other, stores one draft document of its type for its quantity; the stock is not touched.
\<close>

theorem evaluation_spec:
  assumes "evaluateRulesForTenant uuid now forecast urepo mem_orders mem_transfers irepo prepo tenant wd w = (Inr es, w')"
    and "find_rules urepo (rw_rules w) tenant = Inr rules" and "rules \<noteq> []"
  shows "\<exists>d docs. load_data mem_orders mem_transfers irepo prepo tenant (filter rr_isActive rules) w = Inr d
      \<and> length es = length (filter rr_isActive rules) \<and> length docs = length es
      \<and> (\<forall>n<length es. judged (uuid n) now forecast wd d (filter rr_isActive rules ! n) (es ! n) (docs ! n))
      \<and> rw_orders w' = fold (\<lambda>p. AList.update (or_id p) p) (concat (map orders_in docs)) (rw_orders w)
      \<and> rw_transfers w' = fold (\<lambda>t. AList.update (tr_id t) t) (concat (map transfers_in docs)) (rw_transfers w)
      \<and> rw_items w' = rw_items w"
  using evaluation_outcome [OF assms(1,2)] assms(3) by blast

definition sample_rule :: "replenishment_type \<Rightarrow> replenishment_rule" where
  "sample_rule kind = \<lparr>rr_id = ''r1'', rr_tenant = ''t1'', rr_sku = ''WIDGET-1'', rr_location = ''loc-1'', rr_reorderPoint = 20,
     rr_reorderQuantity = 50, rr_safetyStock = 5, rr_leadTimeDays = 7, rr_type = kind, rr_source = Some ''loc-2'',
     rr_supplier = Some ''acme'', rr_isActive = True, rr_dynamic = False, rr_createdAt = 0, rr_updatedAt = 0\<rparr>"

definition rules_world :: "(rule_map, order_map, transfer_map, inventory_db) replenishment_world" where
  "rules_world = \<lparr>rw_rules = [(''r1'', sample_rule Supplier_type)], rw_orders = [], rw_transfers = [], rw_items = sample_db\<rparr>"

definition numbered :: "nat \<Rightarrow> string" where
  "numbered n = ''u'' @ replicate n CHR ''x''"

definition no_forecast :: forecaster where
  "no_forecast sku loc lead safety wd tenant ds = Inr 0"

abbreviation sample_run :: "((rule_map, order_map, transfer_map, inventory_db) replenishment_world, evaluation list) oper" where
  "sample_run \<equiv> evaluateRulesForTenant numbered 3 no_forecast mem_rules mem_orders mem_transfers pg_inventory
     sample_catalogue ''t1'' 30"

lemma sample_run_returns:
  "fst (sample_run rules_world) = Inr [triggered (sample_rule Supplier_type) ''u'' SUPPLIER 14]"
  by code_simp

lemma sample_rules: "find_rules mem_rules (rw_rules rules_world) ''t1'' = Inr [sample_rule Supplier_type]"
  by code_simp

theorem evaluation_spec_witness:
  "\<exists>es w' docs. sample_run rules_world = (Inr es, w') \<and> length es = 1 \<and> length docs = 1
     \<and> rw_orders w' = fold (\<lambda>p. AList.update (or_id p) p) (concat (map orders_in docs)) []"
proof -
  obtain w' where run: "sample_run rules_world = (Inr [triggered (sample_rule Supplier_type) ''u'' SUPPLIER 14], w')"
    using sample_run_returns by (metis prod.collapse)
  obtain d docs where x: "length docs = length [triggered (sample_rule Supplier_type) ''u'' SUPPLIER 14]"
      "rw_orders w' = fold (\<lambda>p. AList.update (or_id p) p) (concat (map orders_in docs)) (rw_orders rules_world)"
    using evaluation_spec [OF run sample_rules list.distinct(2)] by blast
  have "rw_orders rules_world = []" by (simp add: rules_world_def)
  with run x show ?thesis 
    by (intro exI [of _ "[triggered (sample_rule Supplier_type) ''u'' SUPPLIER 14]"] exI [of _ w'] exI [of _ docs]) simp
qed

text \<open>
  C18. No double order: once a run has triggered a rule for a SKU and a location, a later run from the
  state it left, at whatever time and with whatever forecasts, triggers no rule for that SKU and location,
  because the draft it stored is found. This needs what the catalogue promises, that a SKU names one
  variant, and identifiers that do not repeat.
\<close>

theorem no_double_order:
  assumes first: "evaluateRulesForTenant uuid now forecast urepo mem_orders mem_transfers irepo prepo tenant wd w = (Inr es, w1)"
    and second: "evaluateRulesForTenant uuid' now' forecast' urepo mem_orders mem_transfers irepo prepo tenant wd' w1 = (Inr es', w2)"
    and e: "e \<in> set es" "ev_triggered e" and e': "e' \<in> set es'" "ev_sku e' = ev_sku e" "ev_location e' = ev_location e"
    and "inj uuid" and one: "one_variant prepo (ev_sku e) v"
  shows "\<not> ev_triggered e'"
proof
  assume trig': "ev_triggered e'"
  obtain rules where rules: "find_rules urepo (rw_rules w) tenant = Inr rules"
    using first by (auto simp: evaluateRulesForTenant_def oper_simps split: sum.splits)
  obtain rules' where rules': "find_rules urepo (rw_rules w1) tenant = Inr rules'"
    using second by (auto simp: evaluateRulesForTenant_def oper_simps split: sum.splits)
  let ?act = "filter rr_isActive rules" and ?act' = "filter rr_isActive rules'"
  obtain d docs where o1: "load_data mem_orders mem_transfers irepo prepo tenant ?act w = Inr d" "length docs = length es"
      "\<forall>n<length es. judged (uuid n) now forecast wd d (?act ! n) (es ! n) (docs ! n)"
      "rw_orders w1 = fold (\<lambda>p. AList.update (or_id p) p) (concat (map orders_in docs)) (rw_orders w)"
      "rw_transfers w1 = fold (\<lambda>t. AList.update (tr_id t) t) (concat (map transfers_in docs)) (rw_transfers w)"
    using evaluation_outcome [OF first rules] e(1) by auto
  obtain d' docs' where o2: "load_data mem_orders mem_transfers irepo prepo tenant ?act' w1 = Inr d'" "length docs' = length es'"
      "\<forall>n<length es'. judged (uuid' n) now' forecast' wd' d' (?act' ! n) (es' ! n) (docs' ! n)"
    using evaluation_outcome [OF second rules'] e'(1) by auto
  obtain n where n: "n < length es" "es ! n = e" using e(1) by (auto simp: in_set_conv_nth)
  obtain m where m: "m < length es'" "es' ! m = e'" using e'(1) by (auto simp: in_set_conv_nth)
  have at1: "rr_sku (?act ! n) = ev_sku e" "rr_location (?act ! n) = ev_location e"
    using o1(3) n by (auto simp: judged_def)
  have at2: "rr_sku (?act' ! m) = ev_sku e" "rr_location (?act' ! m) = ev_location e"
    using o2(3) m e'(2,3) by (auto simp: judged_def)
  have data: "ed_tenant d = tenant" "mo_findAllByTenant (rw_orders w1) tenant = Inr (ed_orders d')"
      "mt_findAllByTenant (rw_transfers w1) tenant = Inr (ed_transfers d')"
    using load_data_orders [OF o1(1)] load_data_orders [OF o2(1)] by auto
  have known: "pv_id x = v" if "map_of (ed_variants d) (rr_sku (?act ! n)) = Some x" for x
    using load_data_variants [OF o1(1) that] one at1(1) by simp
  have blocked: "hasOpenPo (ed_orders d') (ev_location e) v \<or> hasOpenTransfer (ed_transfers d') (ev_location e) v"
    using document_blocks [where docs = docs and uuid = uuid and rules = ?act and es = es and d = d and n = n and v = v
        and tenant = tenant and m = "rw_orders w" and m' = "rw_transfers w" and now = now and forecast = forecast and wd = wd
        and ds = "ed_orders d'" and dt = "ed_transfers d'"] o1 n e(2) \<open>inj uuid\<close> data known at1(2)
    by simp
  obtain x r' where f: "forecast_rule forecast' wd' d' (?act' ! m) = (x, r')" by fastforce
  obtain rop where r': "r' = (?act' ! m)\<lparr>rr_reorderPoint := rop\<rparr>" using forecast_rule_same [OF f] by blast
  have "judged (uuid' m) now' forecast' wd' d' (?act' ! m) e' (docs' ! m)" using o2(3) m by auto
  with f trig' obtain variant where due: "due (uuid' m) now' d' r' variant" by (auto simp: judged_def)
  then have "map_of (ed_variants d') (ev_sku e) = Some variant" using at2(1) by (simp add: due_def r')
  from load_data_variants [OF o2(1) this one] due blocked show False
    by (simp add: due_def r' at2(2))
qed

lemma variantMap_member:
  "map_of (variantMap skus ps) s = Some v \<Longrightarrow> (\<exists>p\<in>set ps. v \<in> set (variants p)) \<and> pv_sku v = s"
proof -
  have "map_of (fold (\<lambda>v m. if pv_sku v \<in> set skus then AList.update (pv_sku v) v m else m) vs m) s = Some v
      \<Longrightarrow> (v \<in> set vs \<and> pv_sku v = s) \<or> map_of m s = Some v" for vs m
    by (induction vs arbitrary: m) (fastforce split: if_splits)+
  from this [of "concat (map variants ps)" "[]"]
  show "map_of (variantMap skus ps) s = Some v \<Longrightarrow> (\<exists>p\<in>set ps. v \<in> set (variants p)) \<and> pv_sku v = s"
    by (auto simp: variantMap_def)
qed

lemma findBySkus_member: "set (mp_findBySkus ps skus) \<subseteq> snd ` set ps"
proof -
  have one: "set (fold (\<lambda>p results. if list_ex (\<lambda>v. pv_sku v = sku) (variants p) \<and> p \<notin> set results then results @ [p] else results) qs rs)
      \<subseteq> set rs \<union> set qs" for sku qs rs
  proof (induction qs arbitrary: rs)
    case (Cons a qs)
    show ?case using Cons [of "rs @ [a]"] Cons [of rs] by auto
  qed simp
  have "set (fold (\<lambda>sku. fold (\<lambda>p results. if list_ex (\<lambda>v. pv_sku v = sku) (variants p) \<and> p \<notin> set results then results @ [p] else results)
      (map snd ps)) skus rs) \<subseteq> set rs \<union> snd ` set ps" for rs
  proof (induction skus arbitrary: rs)
    case (Cons sku skus)
    from Cons [of "fold (\<lambda>p results. if list_ex (\<lambda>v. pv_sku v = sku) (variants p) \<and> p \<notin> set results then results @ [p] else results) (map snd ps) rs"]
      one [of sku "map snd ps" rs] show ?case by auto
  qed simp
  from this [of "[]"] show ?thesis by (simp add: mp_findBySkus_def)
qed

lemma catalogue_one_variant:
  assumes "\<And>p x. p \<in> snd ` set ps \<Longrightarrow> x \<in> set (variants p) \<Longrightarrow> pv_sku x = s \<Longrightarrow> pv_id x = v"
  shows "one_variant (mem_products ps) s v"
proof -
  have "pv_id x = v" if "map_of (variantMap skus (find_by_skus (mem_products ps) skus)) s = Some x" for skus x
    using variantMap_member [OF that] findBySkus_member [of ps skus] assms by (auto simp: mem_products_def)
  then show ?thesis by (simp add: one_variant_def)
qed

theorem no_double_order_witness:
  "\<exists>w1 es' w2. sample_run rules_world = (Inr [triggered (sample_rule Supplier_type) ''u'' SUPPLIER 14], w1)
     \<and> sample_run w1 = (Inr es', w2) \<and> length es' = 1 \<and> \<not> ev_triggered (hd es')"
proof -
  let ?e = "triggered (sample_rule Supplier_type) ''u'' SUPPLIER 14"
  obtain w1 where run: "sample_run rules_world = (Inr [?e], w1)"
    using sample_run_returns by (metis prod.collapse)
  have "map_sum id (map (\<lambda>e. (ev_sku e, ev_location e))) (fst (sample_run (snd (sample_run rules_world)))) = Inr [(''WIDGET-1'', ''loc-1'')]"
    by code_simp
  then obtain e' w2 where second: "sample_run w1 = (Inr [e'], w2)" and e': "ev_sku e' = ''WIDGET-1''" "ev_location e' = ''loc-1''"
    using run by (cases "sample_run w1"; cases "fst (sample_run w1)") auto
  have "inj numbered" by (auto simp: inj_def numbered_def)
  moreover have "one_variant sample_catalogue ''WIDGET-1'' ''v1''"
    unfolding sample_catalogue_def
    by (rule catalogue_one_variant) (auto simp: variants_def Product_def ProductVariant_def)
  ultimately have "\<not> ev_triggered e'"
    using no_double_order [OF run second, of ?e e' "''v1''"] e' by (simp add: triggered_def sample_rule_def)
  with run second show ?thesis by auto
qed

section \<open>Orders that are not counted\<close>

text \<open>
  Within one run the documents already raised are not seen, and an order that waits for approval is
  not an open order: two active rules for one SKU and location both order in the same run, and while
  the order of a rule waits for approval every run orders again.
\<close>

definition twin_rules :: rule_map where
  "twin_rules = [(''r1'', sample_rule Supplier_type), (''r2'', (sample_rule Supplier_type)\<lparr>rr_id := ''r2''\<rparr>)]"

lemma twin_rules_order_twice:
  "map_sum id (map ev_triggered) (fst (sample_run (rules_world\<lparr>rw_rules := twin_rules\<rparr>))) = Inr [True, True]
   \<and> map (or_items \<circ> snd) (rw_orders (snd (sample_run (rules_world\<lparr>rw_rules := twin_rules\<rparr>)))) = [[(''v1'', 50)], [(''v1'', 50)]]"
  by code_simp

lemma held_order_is_ordered_again:
  "map_sum id (map ev_triggered) (fst (sample_run (rules_world\<lparr>rw_orders :=
     [(''po-1'', sample_order\<lparr>or_items := [(''v1'', 50)], or_status := PendingApproval_order\<rparr>)]\<rparr>))) = Inr [True]"
  by code_simp

end
