(* ===== verification/Returns.thy ===== *)
theory Returns
  imports Costing
begin

text \<open>
  Returned goods: the return authorization of src/src/domain/entities/Rma.ts with its lines (RmaItem.ts),
  the quarantine records of QuarantineItem.ts, the enumerations of ReturnEnums.ts, the stores
  InMemoryRmaRepository.ts and InMemoryQuarantineRepository.ts, which clone on the way in and out, and
  the use cases that open and authorize a return (src/src/application/useCases/ManageReturns.ts). The
  lines of an authorization are objects that only its methods change.
\<close>

section \<open>Lines\<close>

datatype rma_status = Requested_rma | Authorized_rma | Received_rma | Completed_rma | Rejected_rma
datatype disposition = Restock_disp | Scrap_disp | Quarantine_disp
datatype rma_item_status = Pending_line | Received_line | Rejected_line

record rma_item =
  ri_id :: string
  ri_variant :: ident
  ri_quantity :: number
  ri_unitCostCents :: number
  ri_received :: number
  ri_status :: rma_item_status
  ri_disposition :: "disposition option"

definition RmaItem ::
    "string \<Rightarrow> ident \<Rightarrow> number \<Rightarrow> number \<Rightarrow> number \<Rightarrow> rma_item_status \<Rightarrow> disposition option \<Rightarrow> rma_item result" where
  "RmaItem i v q cost received st disp =
     (if q \<le> 0 then Inl (Error ''Quantity must be greater than zero.'' [])
      else if cost < 0 then Inl (Error ''Unit cost cannot be negative.'' [])
      else if received < 0 then Inl (Error ''Received quantity cannot be negative.'' [])
      else Inr \<lparr>ri_id = i, ri_variant = v, ri_quantity = q, ri_unitCostCents = cost, ri_received = received,
        ri_status = st, ri_disposition = disp\<rparr>)"

definition ri_receive :: "number \<Rightarrow> disposition \<Rightarrow> (rma_item, unit) oper" where
  "ri_receive n disp = op_get (\<lambda>i.
     op_seq (op_reject (n \<le> 0) (Error ''Receive quantity must be greater than zero.'' []))
     (op_seq (op_reject (ri_received i + n > ri_quantity i)
       (Error ''Cannot receive {} units. Total received would exceed expected quantity of {}.'' [N n, N (ri_quantity i)]))
     (op_modify (\<lambda>i. i\<lparr>ri_received := ri_received i + n, ri_disposition := Some disp,
        ri_status := (if ri_received i + n = ri_quantity i then Received_line else Pending_line)\<rparr>))))"

definition ri_reject :: "(rma_item, unit) oper" where
  "ri_reject = op_modify (\<lambda>i. i\<lparr>ri_status := Rejected_line\<rparr>)"

definition isFullyProcessed :: "rma_item \<Rightarrow> bool" where
  "isFullyProcessed i \<longleftrightarrow> ri_status i = Received_line \<or> ri_status i = Rejected_line"

section \<open>Authorizations\<close>

record rma =
  rma_id :: string
  rma_number :: string
  rma_tenant :: ident
  rma_customer :: string
  rma_location :: ident
  rma_status :: rma_status
  rma_items :: "rma_item list"
  rma_createdAt :: time
  rma_updatedAt :: time

definition Rma ::
    "string \<Rightarrow> string \<Rightarrow> ident \<Rightarrow> string \<Rightarrow> ident \<Rightarrow> rma_status \<Rightarrow> rma_item list \<Rightarrow> time \<Rightarrow> time \<Rightarrow> rma" where
  "Rma i number tenant customer loc st its created updated = \<lparr>rma_id = i, rma_number = number, rma_tenant = tenant,
     rma_customer = customer, rma_location = loc, rma_status = st, rma_items = its, rma_createdAt = created,
     rma_updatedAt = updated\<rparr>"

definition rma_authorize :: "(rma, unit) oper" where
  "rma_authorize = op_get (\<lambda>r.
     op_seq (op_reject (rma_status r \<noteq> Requested_rma) (Error ''Only requested RMAs can be authorized.'' []))
       (op_modify (\<lambda>r. r\<lparr>rma_status := Authorized_rma\<rparr>)))"

text \<open>A call on the first line of a variant, which is changed in place also when the call throws.\<close>

fun on_line :: "ident \<Rightarrow> (rma_item, unit) oper \<Rightarrow> rma_item list \<Rightarrow> unit result \<times> rma_item list" where
  "on_line v m [] = (Inl (Error ''Item {} not found in this RMA.'' [S v]), [])"
| "on_line v m (i # is) =
     (if ri_variant i = v then (case m i of (r, i') \<Rightarrow> (r, i' # is))
      else case on_line v m is of (r, is') \<Rightarrow> (r, i # is'))"

definition receiveItem :: "ident \<Rightarrow> number \<Rightarrow> disposition \<Rightarrow> (rma, unit) oper" where
  "receiveItem v q disp = op_get (\<lambda>r.
     op_seq (op_reject (rma_status r \<noteq> Authorized_rma \<and> rma_status r \<noteq> Received_rma)
       (Error ''Can only receive items on Authorized or partially Received RMAs.'' []))
     (op_seq (op_zoom rma_items (\<lambda>is r. r\<lparr>rma_items := is\<rparr>) (on_line v (ri_receive q disp)))
       (op_modify (\<lambda>r. r\<lparr>rma_status := (if list_all isFullyProcessed (rma_items r) then Completed_rma else Received_rma)\<rparr>))))"

definition rma_reject :: "(rma, unit) oper" where
  "rma_reject = op_get (\<lambda>r.
     op_seq (op_reject (rma_status r \<noteq> Requested_rma \<and> rma_status r \<noteq> Authorized_rma)
       (Error ''Cannot reject RMA after receipt has started.'' []))
       (op_modify (\<lambda>r. r\<lparr>rma_status := Rejected_rma\<rparr>)))"

section \<open>Quarantine\<close>

datatype quarantine_status = Quarantined_q | Restocked_q | Scrapped_q | Rtv_q

record quarantine_item =
  qi_id :: ident
  qi_variant :: ident
  qi_quantity :: number
  qi_reason :: string
  qi_location :: ident
  qi_tenant :: ident
  qi_status :: quarantine_status
  qi_createdAt :: time
  qi_resolvedAt :: "time option"

definition QuarantineItem ::
    "string \<Rightarrow> ident \<Rightarrow> number \<Rightarrow> string \<Rightarrow> ident \<Rightarrow> ident \<Rightarrow> quarantine_status \<Rightarrow> time \<Rightarrow> time option
     \<Rightarrow> quarantine_item result" where
  "QuarantineItem i v q reason loc tenant st created resolved =
     result_bind (QuarantineItemId i) (\<lambda>qid.
     if q \<le> 0 then Inl (Error ''Quantity must be greater than zero.'' [])
     else Inr \<lparr>qi_id = qid, qi_variant = v, qi_quantity = q, qi_reason = reason, qi_location = loc, qi_tenant = tenant,
       qi_status = st, qi_createdAt = created, qi_resolvedAt = resolved\<rparr>)"

definition resolve_as :: "quarantine_status \<Rightarrow> time \<Rightarrow> (quarantine_item, unit) oper" where
  "resolve_as st now = op_get (\<lambda>q.
     op_seq (op_reject (qi_status q \<noteq> Quarantined_q) (Error ''Quarantine item is already resolved.'' []))
       (op_modify (\<lambda>q. q\<lparr>qi_status := st, qi_resolvedAt := Some now\<rparr>)))"

definition resolveRestock :: "time \<Rightarrow> (quarantine_item, unit) oper" where
  "resolveRestock = resolve_as Restocked_q"

definition resolveScrap :: "time \<Rightarrow> (quarantine_item, unit) oper" where
  "resolveScrap = resolve_as Scrapped_q"

definition resolveRtv :: "time \<Rightarrow> (quarantine_item, unit) oper" where
  "resolveRtv = resolve_as Rtv_q"

section \<open>The stores\<close>

record 'r rma_repo =
  save_rma :: "rma \<Rightarrow> ('r, unit) oper"
  find_rma :: "'r \<Rightarrow> string \<Rightarrow> rma option result"
  find_rma_number :: "'r \<Rightarrow> string \<Rightarrow> rma option result"

record 'q quarantine_repo =
  save_quarantine :: "quarantine_item \<Rightarrow> ('q, unit) oper"
  save_quarantines :: "quarantine_item list \<Rightarrow> ('q, unit) oper"
  find_quarantine :: "'q \<Rightarrow> string \<Rightarrow> quarantine_item option result"

type_synonym rma_map = "(string, rma) js_map"
type_synonym quarantine_map = "(ident, quarantine_item) js_map"

definition cloneRma :: "rma \<Rightarrow> rma result" where
  "cloneRma r =
     result_bind (result_map (\<lambda>i. RmaItem (ri_id i) (ri_variant i) (ri_quantity i) (ri_unitCostCents i) (ri_received i)
       (ri_status i) (ri_disposition i)) (rma_items r)) (\<lambda>its.
     result_bind (TenantId (rma_tenant r)) (\<lambda>tenant. result_bind (LocationId (rma_location r)) (\<lambda>loc.
       Inr (Rma (rma_id r) (rma_number r) tenant (rma_customer r) loc (rma_status r) its (rma_createdAt r) (rma_updatedAt r)))))"

definition mrma_save :: "rma \<Rightarrow> (rma_map, unit) oper" where
  "mrma_save r = op_bind (op_lift (cloneRma r)) (\<lambda>c. op_modify (AList.update (rma_id r) c))"

definition mrma_findById :: "rma_map \<Rightarrow> string \<Rightarrow> rma option result" where
  "mrma_findById m i = (case map_of m i of None \<Rightarrow> Inr None | Some r \<Rightarrow> result_bind (cloneRma r) (Inr \<circ> Some))"

definition mrma_findByNumber :: "rma_map \<Rightarrow> string \<Rightarrow> rma option result" where
  "mrma_findByNumber m n = (case find (\<lambda>r. rma_number r = n) (map snd m) of
     None \<Rightarrow> Inr None | Some r \<Rightarrow> result_bind (cloneRma r) (Inr \<circ> Some))"

definition mrma_findAllByTenant :: "rma_map \<Rightarrow> ident \<Rightarrow> rma list result" where
  "mrma_findAllByTenant m tenant = result_map cloneRma (filter (\<lambda>r. rma_tenant r = tenant) (map snd m))"

definition mem_rmas :: "rma_map rma_repo" where
  "mem_rmas = \<lparr>save_rma = mrma_save, find_rma = mrma_findById, find_rma_number = mrma_findByNumber\<rparr>"

definition mq_cloneItem :: "quarantine_item \<Rightarrow> quarantine_item result" where
  "mq_cloneItem q = result_bind (LocationId (qi_location q)) (\<lambda>loc. result_bind (TenantId (qi_tenant q)) (\<lambda>tenant.
     QuarantineItem (qi_id q) (qi_variant q) (qi_quantity q) (qi_reason q) loc tenant (qi_status q) (qi_createdAt q)
       (qi_resolvedAt q)))"

definition mq_save :: "quarantine_item \<Rightarrow> (quarantine_map, unit) oper" where
  "mq_save q = op_bind (op_lift (mq_cloneItem q)) (\<lambda>c. op_modify (AList.update (qi_id q) c))"

definition mq_saveBatch :: "quarantine_item list \<Rightarrow> (quarantine_map, unit) oper" where
  "mq_saveBatch qs = op_each mq_save qs"

definition mq_findById :: "quarantine_map \<Rightarrow> string \<Rightarrow> quarantine_item option result" where
  "mq_findById m i = (case map_of m i of None \<Rightarrow> Inr None | Some q \<Rightarrow> result_bind (mq_cloneItem q) (Inr \<circ> Some))"

definition mq_findAllByTenant :: "quarantine_map \<Rightarrow> ident \<Rightarrow> quarantine_item list result" where
  "mq_findAllByTenant m tenant = result_map mq_cloneItem (filter (\<lambda>q. qi_tenant q = tenant) (map snd m))"

definition mem_quarantine :: "quarantine_map quarantine_repo" where
  "mem_quarantine = \<lparr>save_quarantine = mq_save, save_quarantines = mq_saveBatch, find_quarantine = mq_findById\<rparr>"

section \<open>Opening a return\<close>

definition CreateRmaUseCase ::
    "(nat \<Rightarrow> string) \<Rightarrow> time \<Rightarrow> 'r rma_repo \<Rightarrow> string \<Rightarrow> string \<Rightarrow> string \<Rightarrow> string \<Rightarrow> (string \<times> number \<times> number) list
     \<Rightarrow> ('r, rma) oper" where
  "CreateRmaUseCase uuid now repo number tenantId customer locationId its =
     op_bind (op_get (\<lambda>s. op_lift (find_rma_number repo s number))) (\<lambda>existing.
     op_seq (op_reject (existing \<noteq> None) (Error ''RMA with number {} already exists.'' [S number]))
     (op_bind (op_lift (result_bind
         (result_map (\<lambda>(n, v, q, cost). result_bind (ProductVariantId v) (\<lambda>v'. RmaItem (uuid n) v' q cost 0 Pending_line None))
           (enumerate 1 its)) (\<lambda>items.
         result_bind (TenantId tenantId) (\<lambda>tenant. result_bind (LocationId locationId) (\<lambda>loc.
           Inr (Rma (uuid 0) number tenant customer loc Requested_rma items now now)))))) (\<lambda>r.
     op_seq (save_rma repo r) (op_return r))))"

definition AuthorizeRmaUseCase :: "'r rma_repo \<Rightarrow> string \<Rightarrow> ('r, unit) oper" where
  "AuthorizeRmaUseCase repo i =
     op_bind (op_get (\<lambda>s. op_lift (find_rma repo s i))) (\<lambda>found.
     case found of None \<Rightarrow> op_throw (Error ''RMA with ID {} not found.'' [S i])
     | Some r \<Rightarrow> (case rma_authorize r of (Inl e, r') \<Rightarrow> op_throw e | (Inr _, r') \<Rightarrow> save_rma repo r'))"

section \<open>The life of a return\<close>

datatype rma_call = Authorize_call | Receive_call ident number disposition | Reject_call

fun rma_exec :: "rma_call \<Rightarrow> (rma, unit) oper" where
  "rma_exec Authorize_call = rma_authorize"
| "rma_exec (Receive_call v q disp) = receiveItem v q disp"
| "rma_exec Reject_call = rma_reject"

definition line_ok :: "rma_item \<Rightarrow> bool" where
  "line_ok i \<longleftrightarrow> 0 < ri_quantity i \<and> 0 \<le> ri_unitCostCents i \<and> 0 \<le> ri_received i \<and> ri_received i \<le> ri_quantity i
     \<and> (ri_status i = Received_line \<longleftrightarrow> ri_received i = ri_quantity i) \<and> ri_status i \<noteq> Rejected_line
     \<and> (ri_disposition i = None \<longleftrightarrow> ri_received i = 0)"

definition rma_ok :: "rma \<Rightarrow> bool" where
  "rma_ok r \<longleftrightarrow> (\<forall>i\<in>set (rma_items r). line_ok i) \<and> (case rma_status r of
     Completed_rma \<Rightarrow> (\<forall>i\<in>set (rma_items r). ri_received i = ri_quantity i)
   | Received_rma \<Rightarrow> (\<exists>i\<in>set (rma_items r). 0 < ri_received i) \<and> (\<exists>i\<in>set (rma_items r). ri_received i < ri_quantity i)
   | _ \<Rightarrow> (\<forall>i\<in>set (rma_items r). ri_received i = 0))"

lemma ri_receive_cases:
  "ri_receive n disp i = (if n \<le> 0 then (Inl (Error ''Receive quantity must be greater than zero.'' []), i)
     else if ri_received i + n > ri_quantity i then (Inl (Error ''Cannot receive {} units. Total received would exceed expected quantity of {}.'' [N n, N (ri_quantity i)]), i)
     else (Inr (), i\<lparr>ri_received := ri_received i + n, ri_disposition := Some disp,
        ri_status := (if ri_received i + n = ri_quantity i then Received_line else Pending_line)\<rparr>))"
  by (simp add: ri_receive_def oper_simps)

lemma on_line_throws: "on_line v (ri_receive q disp) is = (Inl e, is') \<Longrightarrow> is' = is"
  by (induction "is" arbitrary: is') (auto simp: ri_receive_cases split: if_splits prod.splits)

lemma on_line_returns:
  assumes "on_line v (ri_receive q disp) is = (Inr (), is')"
  obtains us i ws where "is = us @ i # ws" and "v \<notin> ri_variant ` set us" and "ri_variant i = v" and "0 < q"
    and "ri_received i + q \<le> ri_quantity i"
    and "is' = us @ i\<lparr>ri_received := ri_received i + q, ri_disposition := Some disp,
        ri_status := (if ri_received i + q = ri_quantity i then Received_line else Pending_line)\<rparr> # ws"
  using assms
proof (induction "is" arbitrary: is' thesis)
  case (Cons x xs)
  show ?case
  proof (cases "ri_variant x = v")
    case True
    with Cons.prems(2) show ?thesis
      by (intro Cons.prems(1) [of "[]" x xs]) (auto simp: ri_receive_cases split: if_splits)
  next
    case False
    then obtain ys where ys: "on_line v (ri_receive q disp) xs = (Inr (), ys)" "is' = x # ys"
      using Cons.prems(2) by (auto split: prod.splits)
    show ?thesis
    proof (rule Cons.IH [OF _ ys(1)])
      fix us i ws
      assume "xs = us @ i # ws" "v \<notin> ri_variant ` set us" "ri_variant i = v" "0 < q" "ri_received i + q \<le> ri_quantity i"
        "ys = us @ i\<lparr>ri_received := ri_received i + q, ri_disposition := Some disp,
          ri_status := (if ri_received i + q = ri_quantity i then Received_line else Pending_line)\<rparr> # ws"
      with False ys(2) show thesis by (intro Cons.prems(1) [of "x # us" i ws]) auto
    qed
  qed
qed simp

lemma received_line_ok:
  "line_ok i \<Longrightarrow> 0 < q \<Longrightarrow> ri_received i + q \<le> ri_quantity i \<Longrightarrow>
   line_ok (i\<lparr>ri_received := ri_received i + q, ri_disposition := Some disp,
        ri_status := (if ri_received i + q = ri_quantity i then Received_line else Pending_line)\<rparr>)"
  by (auto simp: line_ok_def)

lemma receiveItem_open:
  "rma_status r \<in> {Authorized_rma, Received_rma} \<Longrightarrow> on_line v (ri_receive q disp) (rma_items r) = (x, is') \<Longrightarrow>
   receiveItem v q disp r = (x, case x of Inl e \<Rightarrow> r\<lparr>rma_items := is'\<rparr> | Inr _ \<Rightarrow>
     r\<lparr>rma_items := is', rma_status := (if list_all isFullyProcessed is' then Completed_rma else Received_rma)\<rparr>)"
  by (auto simp: receiveItem_def oper_simps split: sum.splits)

lemma receiveItem_closed:
  "rma_status r \<notin> {Authorized_rma, Received_rma} \<Longrightarrow>
   receiveItem v q disp r = (Inl (Error ''Can only receive items on Authorized or partially Received RMAs.'' []), r)"
  by (simp add: receiveItem_def oper_simps)

lemma rma_authorize_cases: "rma_authorize r = (if rma_status r = Requested_rma then (Inr (), r\<lparr>rma_status := Authorized_rma\<rparr>)
    else (Inl (Error ''Only requested RMAs can be authorized.'' []), r))"
  by (simp add: rma_authorize_def oper_simps)

lemma rma_reject_cases: "rma_reject r = (if rma_status r \<in> {Requested_rma, Authorized_rma} then (Inr (), r\<lparr>rma_status := Rejected_rma\<rparr>)
    else (Inl (Error ''Cannot reject RMA after receipt has started.'' []), r))"
  by (simp add: rma_reject_def oper_simps)

lemma receiveItem_ok [keeps_intros]: "keeps rma_ok (receiveItem v q disp)"
  unfolding keeps_def
proof (intro allI impI)
  fix r assume ok: "rma_ok r"
  show "rma_ok (snd (receiveItem v q disp r))"
  proof (cases "rma_status r \<in> {Authorized_rma, Received_rma}")
    case False
    with ok show ?thesis by (simp add: receiveItem_closed)
  next
    case True
    obtain x is' where run: "on_line v (ri_receive q disp) (rma_items r) = (x, is')" by fastforce
    show ?thesis
    proof (cases x)
      case (Inl e)
      with run have "is' = rma_items r" by (simp add: on_line_throws)
      with ok Inl show ?thesis by (simp add: receiveItem_open [OF True run])
    next
      case (Inr y)
      with run have "on_line v (ri_receive q disp) (rma_items r) = (Inr (), is')" by simp
      then obtain us i ws where l: "rma_items r = us @ i # ws" "0 < q" "ri_received i + q \<le> ri_quantity i"
          "is' = us @ i\<lparr>ri_received := ri_received i + q, ri_disposition := Some disp,
            ri_status := (if ri_received i + q = ri_quantity i then Received_line else Pending_line)\<rparr> # ws"
        by (rule on_line_returns)
      have lines: "\<forall>i\<in>set (rma_items r). line_ok i" using ok by (simp add: rma_ok_def)
      with l received_line_ok [of i q disp] have new: "\<forall>i\<in>set is'. line_ok i" by simp
      have some: "\<exists>i\<in>set is'. 0 < ri_received i"
        using l lines by (auto simp: line_ok_def)
      have after: "snd (receiveItem v q disp r) =
          r\<lparr>rma_items := is', rma_status := (if list_all isFullyProcessed is' then Completed_rma else Received_rma)\<rparr>"
        using Inr by (simp add: receiveItem_open [OF True run])
      have processed: "isFullyProcessed i = (ri_received i = ri_quantity i)" if "i \<in> set is'" for i
        using new that by (auto simp: line_ok_def isFullyProcessed_def)
      have "list_all isFullyProcessed is' = (\<forall>i\<in>set is'. ri_received i = ri_quantity i)"
        using processed by (auto simp: list_all_iff)
      moreover have "(\<not> (\<forall>i\<in>set is'. ri_received i = ri_quantity i)) = (\<exists>i\<in>set is'. ri_received i < ri_quantity i)"
        using new by (force simp: line_ok_def)
      ultimately show ?thesis using new some unfolding after rma_ok_def by auto
    qed
  qed
qed

lemma authorize_ok [keeps_intros]: "keeps rma_ok rma_authorize"
  by (simp add: keeps_def rma_authorize_cases) (simp add: rma_ok_def)

lemma reject_ok [keeps_intros]: "keeps rma_ok rma_reject"
  by (simp add: keeps_def rma_reject_cases) (auto simp: rma_ok_def)

lemma rma_exec_ok: "keeps rma_ok (rma_exec c)"
  by (cases c) (auto intro!: keeps_intros)

definition new_line :: "rma_item \<Rightarrow> bool" where
  "new_line i \<longleftrightarrow> (\<exists>u v q cost. RmaItem u v q cost 0 Pending_line None = Inr i)"

lemma new_rma_ok: "list_all new_line its \<Longrightarrow> rma_ok (Rma i number tenant customer loc Requested_rma its now now)"
  by (auto simp: rma_ok_def Rma_def list_all_iff new_line_def RmaItem_def line_ok_def split: if_splits)

definition rma_history :: "rma_call list \<Rightarrow> rma \<Rightarrow> rma" where
  "rma_history cs r = fold (\<lambda>c r. snd (rma_exec c r)) cs r"

lemma rma_history_ok: "rma_ok r \<Longrightarrow> rma_ok (rma_history cs r)"
  unfolding rma_history_def by (rule keeps_fold [OF rma_exec_ok])

lemma rma_final: "rma_status r \<in> {Completed_rma, Rejected_rma} \<Longrightarrow> rma_exec c r = (x, r') \<Longrightarrow> (\<exists>e. x = Inl e) \<and> r' = r"
  by (cases c) (auto simp: rma_authorize_cases rma_reject_cases receiveItem_closed)

text \<open>
  The books of a return stay right under every history of calls, returning or throwing, on an
  authorization just opened: no line receives more than was authorized, a line is marked received
  exactly when its whole quantity came in and has a disposition exactly when something came in; the
  authorization is completed only when every line is received in full, is partly received only while
  something is missing, and otherwise nothing has been received; once completed or rejected every call
  throws and changes nothing.
\<close>

theorem rma_lifecycle:
  assumes "list_all new_line its"
  shows "rma_ok (rma_history cs (Rma i number tenant customer loc Requested_rma its now now))
    \<and> (rma_status r \<in> {Completed_rma, Rejected_rma} \<longrightarrow> (\<exists>e. rma_exec c r = (Inl e, r)))"
  using rma_history_ok [OF new_rma_ok [OF assms]] rma_final [of r c "fst (rma_exec c r)" "snd (rma_exec c r)"]
  by (metis prod.collapse)

definition sample_line :: "string \<Rightarrow> ident \<Rightarrow> number \<Rightarrow> rma_item" where
  "sample_line i v q = \<lparr>ri_id = i, ri_variant = v, ri_quantity = q, ri_unitCostCents = 250, ri_received = 0,
     ri_status = Pending_line, ri_disposition = None\<rparr>"

lemma sample_line_new: "0 < q \<Longrightarrow> new_line (sample_line i v q)"
  unfolding new_line_def by (intro exI [of _ i] exI [of _ v] exI [of _ q] exI [of _ 250]) (simp add: RmaItem_def sample_line_def)

definition sample_rma :: "rma_item list \<Rightarrow> rma" where
  "sample_rma its = Rma ''rma-1'' ''R-1'' ''t1'' ''c1'' ''loc-1'' Requested_rma its 1 1"

theorem rma_lifecycle_witness:
  "rma_ok (rma_history [Authorize_call, Receive_call ''v1'' 2 Restock_disp] (sample_rma [sample_line ''l1'' ''v1'' 3]))
   \<and> rma_status (rma_history [Authorize_call, Receive_call ''v1'' 2 Restock_disp] (sample_rma [sample_line ''l1'' ''v1'' 3])) = Received_rma"
proof -
  have "rma_ok (rma_history [Authorize_call, Receive_call ''v1'' 2 Restock_disp] (sample_rma [sample_line ''l1'' ''v1'' 3]))"
    unfolding sample_rma_def by (rule rma_lifecycle [THEN conjunct1]) (simp add: sample_line_new)
  moreover have "rma_status (rma_history [Authorize_call, Receive_call ''v1'' 2 Restock_disp] (sample_rma [sample_line ''l1'' ''v1'' 3])) = Received_rma"
    by code_simp
  ultimately show ?thesis ..
qed

section \<open>A return can be completed\<close>

definition unfinished :: "rma \<Rightarrow> rma_item list" where
  "unfinished r = filter (\<lambda>i. ri_received i < ri_quantity i) (rma_items r)"

lemma on_line_first:
  "v \<notin> ri_variant ` set us \<Longrightarrow> ri_variant i = v \<Longrightarrow>
   on_line v m (us @ i # ws) = (case m i of (r, i') \<Rightarrow> (r, us @ i' # ws))"
  by (induction us) (auto split: prod.splits)

text \<open>Receive what is missing of the first unfinished line.\<close>

lemma receive_rest:
  assumes ok: "rma_ok r" and st: "rma_status r \<in> {Authorized_rma, Received_rma}"
    and d: "distinct (map ri_variant (rma_items r))" and i: "i \<in> set (unfinished r)"
  shows "\<exists>r'. receiveItem (ri_variant i) (ri_quantity i - ri_received i) Restock_disp r = (Inr (), r')
    \<and> map ri_variant (rma_items r') = map ri_variant (rma_items r)
    \<and> length (unfinished r') < length (unfinished r) \<and> rma_status r' \<in> {Received_rma, Completed_rma}"
proof -
  have mem: "i \<in> set (rma_items r)" "ri_received i < ri_quantity i" using i by (auto simp: unfinished_def)
  then obtain us ws where l: "rma_items r = us @ i # ws" by (meson split_list)
  let ?i = "i\<lparr>ri_received := ri_quantity i, ri_disposition := Some Restock_disp, ri_status := Received_line\<rparr>"
  have "ri_variant i \<notin> ri_variant ` set us" using d by (auto simp: l)
  then have run: "on_line (ri_variant i) (ri_receive (ri_quantity i - ri_received i) Restock_disp) (rma_items r) = (Inr (), us @ ?i # ws)"
    unfolding l by (subst on_line_first) (use mem in \<open>auto simp: ri_receive_cases\<close>)
  show ?thesis
    using mem by (simp add: receiveItem_open [OF st run] unfinished_def l)
qed

text \<open>
  C17. An authorized return can always be finished: if its lines are of different variants, there
  are receipts that all succeed and complete it, from every state in which receipts are possible.
\<close>

theorem authorized_rma_can_complete:
  assumes "rma_ok r" and "rma_status r \<in> {Authorized_rma, Received_rma}" and "rma_items r \<noteq> []"
    and "distinct (map ri_variant (rma_items r))"
  shows "\<exists>cs r'. op_each rma_exec cs r = (Inr (), r') \<and> rma_status r' = Completed_rma \<and> rma_ok r'"
  using assms
proof (induction "length (unfinished r)" arbitrary: r rule: less_induct)
  case less
  have "unfinished r \<noteq> []"
  proof (cases "rma_status r = Received_rma")
    case True
    with less.prems(1) show ?thesis by (auto simp: rma_ok_def unfinished_def filter_empty_conv)
  next
    case False
    with less.prems obtain i where "i \<in> set (rma_items r)" "ri_received i = 0" "0 < ri_quantity i"
      by (cases "rma_items r") (auto simp: rma_ok_def line_ok_def)
    then show ?thesis by (auto simp: unfinished_def filter_empty_conv intro!: bexI [of _ i])
  qed
  then obtain i where i: "i \<in> set (unfinished r)" by (cases "unfinished r") auto
  let ?c = "Receive_call (ri_variant i) (ri_quantity i - ri_received i) Restock_disp"
  obtain r1 where r1: "rma_exec ?c r = (Inr (), r1)" "map ri_variant (rma_items r1) = map ri_variant (rma_items r)"
      "length (unfinished r1) < length (unfinished r)" "rma_status r1 \<in> {Received_rma, Completed_rma}"
    using receive_rest [OF less.prems(1,2,4) i] by auto
  have ok1: "rma_ok r1" using keepsD [OF rma_exec_ok less.prems(1) r1(1)] .
  show ?case
  proof (cases "rma_status r1 = Completed_rma")
    case True
    then show ?thesis using r1(1) ok1 by (intro exI [of _ "[?c]"] exI [of _ r1]) (simp add: oper_simps)
  next
    case False
    with r1(4) have "rma_status r1 \<in> {Authorized_rma, Received_rma}" by simp
    moreover have "rma_items r1 \<noteq> []" using less.prems(3) r1(2) by auto
    moreover have "distinct (map ri_variant (rma_items r1))" using less.prems(4) r1(2) by simp
    ultimately obtain cs r' where cs: "op_each rma_exec cs r1 = (Inr (), r')" "rma_status r' = Completed_rma" "rma_ok r'"
      using less.hyps [OF r1(3) ok1] by blast
    then show ?thesis using r1(1) by (intro exI [of _ "?c # cs"] exI [of _ r']) (simp add: oper_simps)
  qed
qed

theorem authorized_rma_can_complete_witness:
  "\<exists>cs r'. op_each rma_exec cs (snd (rma_authorize (sample_rma [sample_line ''l1'' ''v1'' 3, sample_line ''l2'' ''v2'' 1]))) = (Inr (), r')
     \<and> rma_status r' = Completed_rma"
proof -
  let ?r = "snd (rma_authorize (sample_rma [sample_line ''l1'' ''v1'' 3, sample_line ''l2'' ''v2'' 1]))"
  have "rma_ok (sample_rma [sample_line ''l1'' ''v1'' 3, sample_line ''l2'' ''v2'' 1])"
    unfolding sample_rma_def by (rule new_rma_ok) (simp add: sample_line_new)
  then have "rma_ok ?r" using authorize_ok by (simp add: keeps_def)
  then show ?thesis
    using authorized_rma_can_complete [of ?r] by (auto simp: rma_authorize_cases sample_rma_def Rma_def sample_line_def)
qed

section \<open>Two lines of one variant\<close>

text \<open>A line that another line of its variant precedes is never reached.\<close>

definition shadowed :: "rma \<Rightarrow> bool" where
  "shadowed r \<longleftrightarrow> (\<exists>m n. m < n \<and> n < length (rma_items r)
     \<and> ri_variant (rma_items r ! m) = ri_variant (rma_items r ! n) \<and> ri_received (rma_items r ! n) = 0)"

lemma on_line_update:
  assumes "on_line v (ri_receive q disp) is = (Inr (), is')"
  shows "\<exists>k i'. k < length is \<and> is' = is[k := i'] \<and> ri_variant i' = ri_variant (is ! k)
    \<and> (\<forall>m<k. ri_variant (is ! m) \<noteq> ri_variant (is ! k))"
proof (rule on_line_returns [OF assms])
  fix us and i :: rma_item and ws
  let ?i' = "i\<lparr>ri_received := ri_received i + q, ri_disposition := Some disp,
        ri_status := (if ri_received i + q = ri_quantity i then Received_line else Pending_line)\<rparr>"
  assume "is = us @ i # ws" "v \<notin> ri_variant ` set us" "ri_variant i = v" "is' = us @ ?i' # ws"
  then show ?thesis by (intro exI [of _ "length us"] exI [of _ ?i']) (auto simp: nth_append image_iff, metis nth_mem)
qed

lemma receive_keeps_shadow [keeps_intros]: "keeps shadowed (receiveItem v q disp)"
  unfolding keeps_def
proof (intro allI impI)
  fix r assume sh: "shadowed r"
  show "shadowed (snd (receiveItem v q disp r))"
  proof (cases "rma_status r \<in> {Authorized_rma, Received_rma}")
    case False
    with sh show ?thesis by (simp add: receiveItem_closed)
  next
    case True
    obtain x is' where run: "on_line v (ri_receive q disp) (rma_items r) = (x, is')" by fastforce
    show ?thesis
    proof (cases x)
      case (Inl e)
      with run have "is' = rma_items r" by (simp add: on_line_throws)
      with sh Inl show ?thesis by (simp add: receiveItem_open [OF True run])
    next
      case (Inr y)
      with run obtain k i' where k: "k < length (rma_items r)" "is' = (rma_items r)[k := i']"
          "ri_variant i' = ri_variant (rma_items r ! k)" "\<forall>m<k. ri_variant (rma_items r ! m) \<noteq> ri_variant (rma_items r ! k)"
        using on_line_update [of v q disp "rma_items r" is'] by auto
      obtain m n where mn: "m < n" "n < length (rma_items r)"
          "ri_variant (rma_items r ! m) = ri_variant (rma_items r ! n)" "ri_received (rma_items r ! n) = 0"
        using sh by (auto simp: shadowed_def)
      have "k \<noteq> n" using k(4) mn(1,3) by auto
      with k mn have "shadowed (r\<lparr>rma_items := is', rma_status := st\<rparr>)" for st
        unfolding shadowed_def by (intro exI [of _ m] exI [of _ n]) (auto simp: nth_list_update)
      with Inr show ?thesis by (simp add: receiveItem_open [OF True run])
    qed
  qed
qed

lemma exec_keeps_shadow: "keeps shadowed (rma_exec c)"
proof (cases c)
  case (Receive_call v q disp)
  then show ?thesis by (simp add: receive_keeps_shadow)
qed (simp_all add: keeps_def rma_authorize_cases rma_reject_cases shadowed_def)

text \<open>
  A return with two lines of one variant is never completed: receipts are looked up by
  variant and always find the first line, so whatever is called, in whatever order, the second line
  receives nothing and the authorization does not reach its last state.
\<close>

theorem duplicate_rma_line_never_completes:
  assumes "list_all new_line its" and "m < n" and "n < length its" and "ri_variant (its ! m) = ri_variant (its ! n)"
  shows "rma_status (rma_history cs (Rma i number tenant customer loc Requested_rma its now now)) \<noteq> Completed_rma"
proof
  let ?r = "Rma i number tenant customer loc Requested_rma its now now"
  assume fin: "rma_status (rma_history cs ?r) = Completed_rma"
  have "new_line (its ! n)" using assms(1,3) by (simp add: list_all_length)
  then have "ri_received (its ! n) = 0" by (cases "its ! n") (auto simp: new_line_def RmaItem_def split: if_splits)
  with assms(2-4) have "shadowed ?r" by (auto simp: shadowed_def Rma_def)
  then have "shadowed (rma_history cs ?r)" unfolding rma_history_def by (rule keeps_fold [OF exec_keeps_shadow])
  then obtain k where k: "k < length (rma_items (rma_history cs ?r))" "ri_received (rma_items (rma_history cs ?r) ! k) = 0"
    by (auto simp: shadowed_def)
  have "rma_ok (rma_history cs ?r)" by (rule rma_history_ok [OF new_rma_ok [OF assms(1)]])
  with fin k nth_mem [OF k(1)] show False by (fastforce simp: rma_ok_def line_ok_def)
qed

theorem duplicate_rma_line_never_completes_witness:
  "rma_status (rma_history [Authorize_call, Receive_call ''v1'' 3 Restock_disp, Receive_call ''v1'' 1 Restock_disp]
     (sample_rma [sample_line ''l1'' ''v1'' 3, sample_line ''l2'' ''v1'' 1])) \<noteq> Completed_rma"
  unfolding sample_rma_def
  by (rule duplicate_rma_line_never_completes [where m = 0 and n = 1]) (simp_all add: sample_line_new, simp add: sample_line_def)

end
