(* ===== verification/ReturnFlow.thy ===== *)
theory ReturnFlow
  imports Returns ItemWork StockPosting Approval Accounting CostLayers SerializedItems
begin

text \<open>
  Processing returned goods (src/src/application/useCases/ManageReturns.ts): ReceiveRmaUseCase takes the
  lines that came in into stock, into a quarantine location or, for scrap, in and out again, with their
  cost layers, journal entries and serial numbers; ResolveQuarantineItemUseCase restocks, scraps or sends
  back a quarantined item. \<open>uuid n k\<close> is the k-th identifier drawn for the n-th line. The text fields
  of the payload given to the approval service are left out.
\<close>

section \<open>The stores of the use cases\<close>

record ('r, 'i, 'c, 'q, 'b, 's, 'a) return_world =
  rt_rmas :: 'r
  rt_items :: 'i
  rt_layers :: 'c
  rt_quarantine :: 'q
  rt_books :: 'b
  rt_serials :: 's
  rt_approvals :: "'a approval_world"

abbreviation on_rt_rmas :: "('r, 'x) oper \<Rightarrow> (('r, 'i, 'c, 'q, 'b, 's, 'a) return_world, 'x) oper" where
  "on_rt_rmas m \<equiv> op_zoom rt_rmas (\<lambda>s w. w\<lparr>rt_rmas := s\<rparr>) m"

abbreviation on_rt_items :: "('i, 'x) oper \<Rightarrow> (('r, 'i, 'c, 'q, 'b, 's, 'a) return_world, 'x) oper" where
  "on_rt_items m \<equiv> op_zoom rt_items (\<lambda>s w. w\<lparr>rt_items := s\<rparr>) m"

abbreviation on_rt_layers :: "('c, 'x) oper \<Rightarrow> (('r, 'i, 'c, 'q, 'b, 's, 'a) return_world, 'x) oper" where
  "on_rt_layers m \<equiv> op_zoom rt_layers (\<lambda>s w. w\<lparr>rt_layers := s\<rparr>) m"

abbreviation on_rt_quarantine :: "('q, 'x) oper \<Rightarrow> (('r, 'i, 'c, 'q, 'b, 's, 'a) return_world, 'x) oper" where
  "on_rt_quarantine m \<equiv> op_zoom rt_quarantine (\<lambda>s w. w\<lparr>rt_quarantine := s\<rparr>) m"

abbreviation on_rt_books :: "('b, 'x) oper \<Rightarrow> (('r, 'i, 'c, 'q, 'b, 's, 'a) return_world, 'x) oper" where
  "on_rt_books m \<equiv> op_zoom rt_books (\<lambda>s w. w\<lparr>rt_books := s\<rparr>) m"

abbreviation on_rt_serials :: "('s, 'x) oper \<Rightarrow> (('r, 'i, 'c, 'q, 'b, 's, 'a) return_world, 'x) oper" where
  "on_rt_serials m \<equiv> op_zoom rt_serials (\<lambda>s w. w\<lparr>rt_serials := s\<rparr>) m"

abbreviation on_rt_approvals :: "('a approval_world, 'x) oper \<Rightarrow> (('r, 'i, 'c, 'q, 'b, 's, 'a) return_world, 'x) oper" where
  "on_rt_approvals m \<equiv> op_zoom rt_approvals (\<lambda>s w. w\<lparr>rt_approvals := s\<rparr>) m"

text \<open>The batch calls of the serial store, and what a mutation of the objects it hands out does to it.\<close>

record 's serial_batch_repo =
  find_serial_batch :: "'s \<Rightarrow> (string \<times> ident) list \<Rightarrow> serialized_item list"
  save_serial_batch :: "serialized_item list \<Rightarrow> ('s, unit) oper"
  write_serial :: "serialized_item \<Rightarrow> 's \<Rightarrow> 's"

definition mem_serial_batches :: "serial_table serial_batch_repo" where
  "mem_serial_batches = \<lparr>find_serial_batch = ms_findBySerialsAndVariantsBatch, save_serial_batch = ms_saveBatch,
     write_serial = put_item\<rparr>"

section \<open>Receiving\<close>

record returned_line =
  rl_variant :: string
  rl_quantity :: number
  rl_disposition :: disposition
  rl_serials :: "string list option"

definition target_location :: "rma \<Rightarrow> returned_line \<Rightarrow> string" where
  "target_location r l = (if rl_disposition l = Quarantine_disp then rma_location r @ ''-quarantine'' else rma_location r)"

definition return_key :: "string \<Rightarrow> string \<Rightarrow> string" where
  "return_key sku loc = sku @ ''_'' @ loc"

text \<open>The objects the loop works on and the lists it fills.\<close>

record return_work = item_work +
  wk_rma :: rma
  wk_layers :: "cost_layer list"
  wk_quarantine :: "quarantine_item list"
  wk_serials :: "(string, serialized_item) js_map"
  wk_serialsToSave :: "string list"
  wk_entries :: "journal_entry list"

definition receive_on_rma :: "returned_line \<Rightarrow> (return_work, unit) oper" where
  "receive_on_rma l = op_zoom wk_rma (\<lambda>r w. w\<lparr>wk_rma := r\<rparr>)
     (receiveItem (rl_variant l) (rl_quantity l) (rl_disposition l))"

definition add_entry :: "journal_entry result \<Rightarrow> (return_work, unit) oper" where
  "add_entry built = op_bind (op_lift built) (\<lambda>e. op_modify (\<lambda>w. w\<lparr>wk_entries := wk_entries w @ [e]\<rparr>))"

definition change_serial :: "string \<Rightarrow> (serialized_item, unit) oper \<Rightarrow> (return_work, unit) oper" where
  "change_serial key m = op_get (\<lambda>w. case map_of (wk_serials w) key of
     None \<Rightarrow> op_return ()
   | Some x \<Rightarrow> (case m x of (r, x') \<Rightarrow>
       op_seq (op_modify (\<lambda>w. w\<lparr>wk_serials := AList.update key x' (wk_serials w)\<rparr>)) (op_lift r)))"

definition serial_moves :: "time \<Rightarrow> string \<Rightarrow> disposition \<Rightarrow> (serialized_item, unit) oper" where
  "serial_moves now rmaId disp = op_bind (op_lift (ActorId ''system'')) (\<lambda>actor.
     let ref = Some (''RMA-'' @ rmaId) in
     op_seq (transitionTo now Returned ''RMA return receipt'' actor ref)
     (case disp of
        Restock_disp \<Rightarrow> transitionTo now InStock ''Restocked from RMA'' actor ref
      | Quarantine_disp \<Rightarrow> transitionTo now Quarantined ''Quarantined from RMA'' actor ref
      | Scrap_disp \<Rightarrow> transitionTo now WrittenOff ''Scrapped from RMA'' actor ref))"

definition serial_key :: "string \<Rightarrow> string \<Rightarrow> string" where
  "serial_key v sn = v @ ''_'' @ sn"

definition move_serials :: "time \<Rightarrow> returned_line \<Rightarrow> (return_work, unit) oper" where
  "move_serials now l = op_get (\<lambda>w. op_each (\<lambda>sn. let key = serial_key (rl_variant l) sn in
     op_get (\<lambda>w. if map_of (wk_serials w) key = None then op_return ()
       else op_seq (change_serial key (serial_moves now (rma_id (wk_rma w)) (rl_disposition l)))
         (op_modify (\<lambda>w. w\<lparr>wk_serialsToSave := wk_serialsToSave w @ [key]\<rparr>))))
     (case rl_serials l of None \<Rightarrow> [] | Some sns \<Rightarrow> sns))"

definition unit_cost_of :: "rma \<Rightarrow> string \<Rightarrow> number option" where
  "unit_cost_of r v = map_option ri_unitCostCents (find (\<lambda>i. ri_variant i = v) (rma_items r))"

text \<open>The steps of a line, numbered as in the code.\<close>

definition take_in :: "string \<Rightarrow> string \<Rightarrow> string \<Rightarrow> string \<Rightarrow> number \<Rightarrow> (return_work, unit) oper" where
  "take_in uuid key sku loc q =
     op_bind (get_or_create uuid key sku loc) (\<lambda>invItem.
     op_bind (op_lift (Quantity q each)) (\<lambda>amount. change_item key (receiveStock amount) invItem))"

definition add_layer :: "string \<Rightarrow> time \<Rightarrow> returned_line \<Rightarrow> number \<Rightarrow> (return_work, unit) oper" where
  "add_layer uuid now l cost =
     op_bind (op_lift (result_bind (InventoryCostLayerId uuid) (\<lambda>i. result_bind (ProductVariantId (rl_variant l)) (\<lambda>v.
       InventoryCostLayer i v (rl_quantity l) cost now None None)))) (\<lambda>layer.
     op_modify (\<lambda>w. w\<lparr>wk_layers := wk_layers w @ [layer]\<rparr>))"

definition add_quarantine :: "string \<Rightarrow> time \<Rightarrow> rma \<Rightarrow> returned_line \<Rightarrow> (return_work, unit) oper" where
  "add_quarantine uuid now r l = (if rl_disposition l = Quarantine_disp
     then op_bind (op_lift (result_bind (ProductVariantId (rl_variant l)) (\<lambda>v.
         QuarantineItem uuid v (rl_quantity l) (''Returned from RMA '' @ rma_number r) (rma_location r) (rma_tenant r)
           Quarantined_q now None))) (\<lambda>q.
       op_modify (\<lambda>w. w\<lparr>wk_quarantine := wk_quarantine w @ [q]\<rparr>))
     else op_return ())"

definition scrap_line :: "string \<Rightarrow> time \<Rightarrow> string \<Rightarrow> rma \<Rightarrow> returned_line \<Rightarrow> number \<Rightarrow> (return_work, unit) oper" where
  "scrap_line uuid now key r l totalCost = (if rl_disposition l = Scrap_disp
     then op_bind (op_lift (Quantity (rl_quantity l) each)) (\<lambda>amount.
       op_seq (op_get (\<lambda>w. change_item key (dispatchStock now amount) (the (map_of (work_items w) key))))
         (add_entry (buildInventoryWriteOff uuid (rma_id r) totalCost now (rma_tenant r))))
     else op_return ())"

definition receive_rma_line ::
    "(nat \<Rightarrow> nat \<Rightarrow> string) \<Rightarrow> time \<Rightarrow> bool \<Rightarrow> (string, string) js_map \<Rightarrow> nat \<times> returned_line \<Rightarrow> (return_work, unit) oper" where
  "receive_rma_line uuid now withSerials skus = (\<lambda>(n, l). op_get (\<lambda>w.
     case unit_cost_of (wk_rma w) (rl_variant l) of
       None \<Rightarrow> op_throw (Error ''Item with variant ID {} not found in RMA.'' [S (rl_variant l)])
     | Some cost \<Rightarrow>
       let r = wk_rma w; loc = target_location r l; sku = the (map_of skus (rl_variant l)); key = return_key sku loc;
           totalCost = cost * rl_quantity l in
       op_seq (receive_on_rma l)
       (op_seq (take_in (uuid n 0) key sku loc (rl_quantity l))
       (op_seq (add_layer (uuid n 1) now l cost)
       (op_seq (add_quarantine (uuid n 2) now r l)
       (op_seq (add_entry (buildStockReturned (uuid n 3) (rl_variant l) totalCost (rma_id r) now (rma_tenant r)))
       (op_seq (scrap_line (uuid n 4) now key r l totalCost)
         (if withSerials then move_serials now l else op_return ()))))))))"

definition return_pairs :: "rma \<Rightarrow> (string, string) js_map \<Rightarrow> returned_line list \<Rightarrow> (string \<times> string) list result" where
  "return_pairs r skus ls = result_map (\<lambda>l. case map_of skus (rl_variant l) of
       None \<Rightarrow> Inl (Error ''SKU not found for variant ID {}'' [S (rl_variant l)])
     | Some s \<Rightarrow> if s = [] then Inl (Error ''SKU not found for variant ID {}'' [S (rl_variant l)])
         else Inr (s, target_location r l)) ls"

definition serial_pairs :: "returned_line list \<Rightarrow> (string \<times> ident) list result" where
  "serial_pairs ls = result_map (\<lambda>(v, sn). result_bind (SerialNumber sn) (\<lambda>s. result_bind (ProductVariantId v) (\<lambda>v'. Inr (s, v'))))
     (concat (map (\<lambda>l. case rl_serials l of None \<Rightarrow> [] | Some sns \<Rightarrow> map (\<lambda>sn. (rl_variant l, sn)) sns) ls))"

definition scrap_items :: "returned_line list \<Rightarrow> issue_item list result" where
  "scrap_items ls = result_map (\<lambda>l. result_bind (ProductVariantId (rl_variant l)) (\<lambda>v.
     Inr \<lparr>it_variant = v, it_quantity = rl_quantity l\<rparr>)) (filter (\<lambda>l. rl_disposition l = Scrap_disp) ls)"

definition start_work :: "rma \<Rightarrow> inventory_item list \<Rightarrow> serialized_item list \<Rightarrow> return_work" where
  "start_work r found serialsFound = \<lparr>work_items = keyed_items return_key found, work_changed = [], wk_rma = r, wk_layers = [],
     wk_quarantine = [], wk_serials = fold (\<lambda>x m. AList.update (serial_key (si_variant x) (si_serial x)) x m) serialsFound [],
     wk_serialsToSave = [], wk_entries = []\<rparr>"

text \<open>Everything after the loop, in the order of the code.\<close>

definition store_rest ::
    "'r rma_repo \<Rightarrow> 'c layer_repo \<Rightarrow> 'q quarantine_repo \<Rightarrow> 'b journal_repo \<Rightarrow> 's serial_batch_repo option \<Rightarrow> return_work
     \<Rightarrow> (('r, 'i, 'c, 'q, 'b, 's, 'a) return_world, unit) oper" where
  "store_rest rrepo crepo qrepo jrepo srepo k =
     op_seq (if length (wk_layers k) > 0 then on_rt_layers (saveLayerBatch crepo (wk_layers k)) else op_return ())
     (op_seq (if length (wk_quarantine k) > 0 then on_rt_quarantine (save_quarantines qrepo (wk_quarantine k)) else op_return ())
     (op_seq (case srepo of None \<Rightarrow> op_return ()
        | Some sr \<Rightarrow> if length (wk_serialsToSave k) > 0
            then on_rt_serials (save_serial_batch sr (List.map_filter (map_of (wk_serials k)) (wk_serialsToSave k))) else op_return ())
     (op_seq (if length (wk_entries k) > 0 then on_rt_books (js_saveBatch jrepo (wk_entries k)) else op_return ())
       (on_rt_rmas (save_rma rrepo (wk_rma k))))))"

definition consume_scrap :: "'c layer_repo \<Rightarrow> returned_line list \<Rightarrow> (('r, 'i, 'c, 'q, 'b, 's, 'a) return_world, unit) oper" where
  "consume_scrap crepo ls = op_bind (op_lift (scrap_items ls)) (\<lambda>scrapItems.
     if length scrapItems > 0
     then op_bind (on_rt_layers (consumeLayersBatch crepo scrapItems [])) (\<lambda>_. op_return ()) else op_return ())"

definition store_return ::
    "'r rma_repo \<Rightarrow> 'i inventory_repo \<Rightarrow> 'c layer_repo \<Rightarrow> 'q quarantine_repo \<Rightarrow> 'b journal_repo
     \<Rightarrow> 's serial_batch_repo option \<Rightarrow> returned_line list \<Rightarrow> return_work
     \<Rightarrow> (('r, 'i, 'c, 'q, 'b, 's, 'a) return_world, unit) oper" where
  "store_return rrepo irepo crepo qrepo jrepo srepo ls k =
     op_seq (consume_scrap crepo ls)
     (op_seq (if length (changed_items k) > 0 then on_rt_items (save_items irepo (changed_items k)) else op_return ())
       (store_rest rrepo crepo qrepo jrepo srepo k))"

text \<open>The serial objects the loop changed, also when it throws, as their store sees them.\<close>

definition settle :: "'s serial_batch_repo option \<Rightarrow> return_work \<Rightarrow> (('r, 'i, 'c, 'q, 'b, 's, 'a) return_world, unit) oper" where
  "settle srepo k = (case srepo of None \<Rightarrow> op_return ()
     | Some sr \<Rightarrow> op_modify (\<lambda>w. w\<lparr>rt_serials := fold (write_serial sr) (map snd (wk_serials k)) (rt_serials w)\<rparr>))"

definition ReceiveRmaUseCase ::
    "(nat \<Rightarrow> nat \<Rightarrow> string) \<Rightarrow> time \<Rightarrow> 'r rma_repo \<Rightarrow> 'i inventory_repo \<Rightarrow> 'c layer_repo \<Rightarrow> 'q quarantine_repo
     \<Rightarrow> 'b journal_repo \<Rightarrow> product_repo \<Rightarrow> 's serial_batch_repo option \<Rightarrow> string \<Rightarrow> returned_line list
     \<Rightarrow> (('r, 'i, 'c, 'q, 'b, 's, 'a) return_world, unit) oper" where
  "ReceiveRmaUseCase uuid now rrepo irepo crepo qrepo jrepo prepo srepo rmaId ls =
     op_bind (op_get (\<lambda>w. op_lift (find_rma rrepo (rt_rmas w) rmaId))) (\<lambda>found.
     case found of None \<Rightarrow> op_throw (Error ''RMA with ID {} not found.'' [S rmaId])
     | Some r \<Rightarrow>
       op_bind (op_lift (skus_of_variants prepo (js_set (map rl_variant ls)))) (\<lambda>skus.
       op_bind (op_lift (return_pairs r skus ls)) (\<lambda>pairs.
       op_bind (op_get (\<lambda>w. op_lift (findBySkuAndLocationBatch irepo (rt_items w) pairs))) (\<lambda>items.
       op_bind (op_lift (serial_pairs ls)) (\<lambda>sps.
       op_bind (op_get (\<lambda>w. op_return (case srepo of None \<Rightarrow> []
          | Some sr \<Rightarrow> if length sps > 0 then find_serial_batch sr (rt_serials w) sps else []))) (\<lambda>sis.
       case op_each (receive_rma_line uuid now (srepo \<noteq> None) skus) (enumerate 0 ls) (start_work r items sis) of (x, k) \<Rightarrow>
         op_seq (settle srepo k)
         (op_seq (op_lift x) (store_return rrepo irepo crepo qrepo jrepo srepo ls k))))))))"

section \<open>Resolving a quarantine\<close>

datatype resolution = RESTOCK | SCRAP | RTV

definition estimate_step :: "cost_layer \<Rightarrow> number \<times> number \<Rightarrow> number \<times> number" where
  "estimate_step l = (\<lambda>(est, left). if left \<le> 0 then (est, left)
     else if remainingQuantity l > 0
     then (est + min (remainingQuantity l) left * unitCostCents l, left - min (remainingQuantity l) left)
     else (est, left))"

definition estimate_cost :: "cost_layer list \<Rightarrow> number \<Rightarrow> number" where
  "estimate_cost ls q = fst (fold estimate_step ls (0, q))"

definition intercept_scrap ::
    "(nat \<Rightarrow> string) \<Rightarrow> time \<Rightarrow> 'c layer_repo \<Rightarrow> 'a approval_repo option \<Rightarrow> resolution \<Rightarrow> quarantine_item \<Rightarrow> string option
     \<Rightarrow> string option \<Rightarrow> (('r, 'i, 'c, 'q, 'b, 's, 'a) return_world, unit) oper" where
  "intercept_scrap uuid now crepo arepo res q tenantId actorId = (case arepo of
     None \<Rightarrow> op_return ()
   | Some repo \<Rightarrow>
     if \<not> (res = SCRAP \<and> tenantId \<notin> {None, Some []} \<and> actorId \<notin> {None, Some []}) then op_return ()
     else op_get (\<lambda>w. let est = estimate_cost (getActiveLayers crepo (rt_layers w) (qi_variant q) ReceivedAsc) (qi_quantity q) in
       op_bind (on_rt_approvals (evaluateAndIntercept uuid now repo (the tenantId) ''inventory.write_off'' ''QuarantineItem''
           (qi_id q) (the actorId) [(''totalCostCents'', Some est), (''quantity'', Some (qi_quantity q))])) (\<lambda>result.
       case result of None \<Rightarrow> op_return ()
       | Some requestId \<Rightarrow> op_throw (Error ''RequiresApproval:{}'' [S requestId]))))"

definition load_quarantine ::
    "'q quarantine_repo \<Rightarrow> product_repo \<Rightarrow> string \<Rightarrow> (('r, 'i, 'c, 'q, 'b, 's, 'a) return_world, quarantine_item \<times> string) oper" where
  "load_quarantine qrepo prepo qid =
     op_bind (op_get (\<lambda>w. op_lift (find_quarantine qrepo (rt_quarantine w) qid))) (\<lambda>found.
     case found of None \<Rightarrow> op_throw (Error ''Quarantine item with ID {} not found.'' [S qid])
     | Some q \<Rightarrow> op_bind (op_lift (sku_of_variant prepo (qi_variant q))) (\<lambda>sku.
         if sku = None \<or> sku = Some [] then op_throw (Error ''SKU not found for variant ID {}'' [S (qi_variant q)])
         else op_return (q, the sku)))"

definition write_off_cost ::
    "'c layer_repo \<Rightarrow> quarantine_item \<Rightarrow> (('r, 'i, 'c, 'q, 'b, 's, 'a) return_world, number) oper" where
  "write_off_cost crepo q =
     op_bind (on_rt_layers (svc_consumeLayers crepo (qi_variant q) (qi_quantity q) FIFO)) (\<lambda>b. op_return (totalCostCents b))"

text \<open>The branches of the resolution: the record as resolved and the items to save by id.\<close>

definition resolve_branch ::
    "(nat \<Rightarrow> string) \<Rightarrow> time \<Rightarrow> 'i inventory_repo \<Rightarrow> 'c layer_repo \<Rightarrow> 'b journal_repo \<Rightarrow> resolution \<Rightarrow> quarantine_item \<Rightarrow> string
     \<Rightarrow> inventory_item \<Rightarrow> (('r, 'i, 'c, 'q, 'b, 's, 'a) return_world, quarantine_item \<times> (ident, inventory_item) js_map) oper" where
  "resolve_branch uuid now irepo crepo jrepo res q sku taken = (case res of
     RESTOCK \<Rightarrow> (case resolveRestock now q of
         (Inl e, q') \<Rightarrow> op_throw e
       | (Inr _, q') \<Rightarrow>
         op_bind (op_get (\<lambda>w. op_lift (findBySkuAndLocation irepo (rt_items w) sku (qi_location q)))) (\<lambda>found.
         op_bind (op_lift (case found of Some i \<Rightarrow> Inr i | None \<Rightarrow> inventory_createNew (uuid 0) sku (qi_location q))) (\<lambda>i.
         op_bind (op_lift (Quantity (qi_quantity q) each)) (\<lambda>amount.
         case receiveStock amount i of
           (Inl e, i') \<Rightarrow> op_throw e
         | (Inr _, i') \<Rightarrow> op_return (q', AList.update (iid i') i' [(iid taken, taken)])))))
   | SCRAP \<Rightarrow> (case resolveScrap now q of
         (Inl e, q') \<Rightarrow> op_throw e
       | (Inr _, q') \<Rightarrow>
         op_bind (write_off_cost crepo q) (\<lambda>totalCost.
         op_bind (on_rt_books (onInventoryWriteOff (uuid 1) jrepo (qi_id q) totalCost now (qi_tenant q))) (\<lambda>_.
           op_return (q', [(iid taken, taken)]))))
   | RTV \<Rightarrow> (case resolveRtv now q of
         (Inl e, q') \<Rightarrow> op_throw e
       | (Inr _, q') \<Rightarrow>
         op_bind (write_off_cost crepo q) (\<lambda>totalCost.
         op_bind (on_rt_books (onReturnToVendor (uuid 1) jrepo (qi_id q) totalCost now (qi_tenant q))) (\<lambda>_.
           op_return (q', [(iid taken, taken)])))))"

definition save_both :: "'i inventory_repo \<Rightarrow> (ident, inventory_item) js_map \<Rightarrow> (('r, 'i, 'c, 'q, 'b, 's, 'a) return_world, unit) oper" where
  "save_both irepo items = (if length items > 0 then on_rt_items (save_items irepo (map snd items)) else op_return ())"

definition ResolveQuarantineItemUseCase ::
    "(nat \<Rightarrow> string) \<Rightarrow> time \<Rightarrow> 'q quarantine_repo \<Rightarrow> 'i inventory_repo \<Rightarrow> 'c layer_repo \<Rightarrow> 'b journal_repo \<Rightarrow> product_repo
     \<Rightarrow> 'a approval_repo option \<Rightarrow> string \<Rightarrow> resolution \<Rightarrow> string option \<Rightarrow> string option
     \<Rightarrow> (('r, 'i, 'c, 'q, 'b, 's, 'a) return_world, unit) oper" where
  "ResolveQuarantineItemUseCase uuid now qrepo irepo crepo jrepo prepo arepo qid res tenantId actorId =
     op_bind (load_quarantine qrepo prepo qid) (\<lambda>(q, sku).
     op_seq (intercept_scrap uuid now crepo arepo res q tenantId actorId)
     (let loc = qi_location q @ ''-quarantine'' in
     op_bind (op_get (\<lambda>w. op_lift (findBySkuAndLocation irepo (rt_items w) sku loc))) (\<lambda>found.
     case found of
       None \<Rightarrow> op_throw (Error ''Quarantine stock not found for variant {} at {}.'' [S (qi_variant q), S loc])
     | Some held \<Rightarrow>
       op_bind (op_lift (Quantity (qi_quantity q) each)) (\<lambda>amount.
       case dispatchStock now amount held of
         (Inl e, taken) \<Rightarrow> op_throw e
       | (Inr _, taken) \<Rightarrow>
         op_bind (resolve_branch uuid now irepo crepo jrepo res q sku taken) (\<lambda>(q', itemsToSave).
         op_seq (save_both irepo itemsToSave) (on_rt_quarantine (save_quarantine qrepo q')))))))"

section \<open>What a line does to the items\<close>

definition same_items :: "return_work \<Rightarrow> return_work \<Rightarrow> bool" where
  "same_items w w' \<longleftrightarrow> work_items w' = work_items w \<and> work_changed w' = work_changed w"

lemma same_items_refl: "same_items w w"
  and same_items_trans: "same_items w w1 \<Longrightarrow> same_items w1 w2 \<Longrightarrow> same_items w w2"
  by (simp_all add: same_items_def)

lemma same_items_tracked: "same_items w w' \<Longrightarrow> tracked s w' = tracked s w \<and> gain f s w' = gain f s w \<and> ids_from uuid n s w' = ids_from uuid n s w"
  by (simp add: same_items_def tracked_def gain_def ids_from_def)

lemma same_items_keep: "same_items w (snd (m w)) \<longleftrightarrow> (\<forall>x w'. m w = (x, w') \<longrightarrow> same_items w w')"
  by (cases "m w") auto

text \<open>Operations that leave the items alone.\<close>

definition leaves_items :: "(return_work, 'x) oper \<Rightarrow> bool" where
  "leaves_items m \<longleftrightarrow> (\<forall>w x w'. m w = (x, w') \<longrightarrow> same_items w w')"

lemma leavesD: "leaves_items m \<Longrightarrow> m w = (x, w') \<Longrightarrow> same_items w w'"
  by (simp add: leaves_items_def)

named_theorems leaves_intros \<open>operations that leave the items alone\<close>

lemma leaves_basic [leaves_intros]:
  "leaves_items (op_return a)" "leaves_items (op_throw e)" "leaves_items (op_lift r)"
  by (simp_all add: leaves_items_def oper_simps same_items_def)

lemma leaves_modify [leaves_intros]: "(\<And>w. same_items w (f w)) \<Longrightarrow> leaves_items (op_modify f)"
  by (simp add: leaves_items_def oper_simps)

lemma leaves_bind [leaves_intros]: "leaves_items m \<Longrightarrow> (\<And>a. leaves_items (k a)) \<Longrightarrow> leaves_items (op_bind m k)"
  unfolding leaves_items_def op_bind_eval by (auto split: prod.splits sum.splits) (blast intro: same_items_trans)

lemma leaves_seq [leaves_intros]: "leaves_items m \<Longrightarrow> leaves_items k \<Longrightarrow> leaves_items (op_seq m k)"
  unfolding op_seq_def by (rule leaves_bind)

lemma leaves_get [leaves_intros]: "(\<And>w. leaves_items (k w)) \<Longrightarrow> leaves_items (op_get k)"
  by (auto simp: leaves_items_def oper_simps)

lemma leaves_if [leaves_intros]: "leaves_items m \<Longrightarrow> leaves_items n \<Longrightarrow> leaves_items (if c then m else n)"
  by simp

lemma leaves_each [leaves_intros]: "(\<And>x. leaves_items (f x)) \<Longrightarrow> leaves_items (op_each f xs)"
  by (induction xs) (auto intro: leaves_intros)

lemma leaves_rma [leaves_intros]: "leaves_items (receive_on_rma l)"
  by (auto simp: leaves_items_def receive_on_rma_def oper_simps same_items_def split: prod.splits)

lemma leaves_entry [leaves_intros]: "leaves_items (add_entry b)"
  unfolding add_entry_def by (intro leaves_intros) (simp add: same_items_def)

lemma leaves_serial [leaves_intros]: "leaves_items (change_serial key m)"
  by (auto simp: leaves_items_def change_serial_def oper_simps same_items_def split: prod.splits sum.splits option.splits)

lemma leaves_serials [leaves_intros]: "leaves_items (move_serials now l)"
  unfolding move_serials_def Let_def by (intro leaves_intros) (simp add: same_items_def)

lemma leaves_layer [leaves_intros]: "leaves_items (add_layer u now l cost)"
  unfolding add_layer_def by (intro leaves_intros) (simp add: same_items_def)

lemma leaves_quarantine [leaves_intros]: "leaves_items (add_quarantine u now r l)"
  unfolding add_quarantine_def by (intro leaves_intros) (simp add: same_items_def)

text \<open>
  A line takes its units in and, for scrap, out again: the object of its key changes by one call or by
  two, and everything else it does leaves the items alone.
\<close>

lemma receive_rma_lineE:
  assumes run: "receive_rma_line uuid now withSerials skus (n, l) w = (Inr (), w')"
    and sku: "sku = the (map_of skus (rl_variant l))" and key: "key = return_key sku (target_location (wk_rma w) l)"
  obtains w1 i w2 w3 w4 where "same_items w w1"
    and "get_or_create (uuid n 0) key sku (target_location (wk_rma w) l) w1 = (Inr i, w2)"
    and "change_item key (receiveStock (q_each (rl_quantity l))) i w2 = (Inr (), w3)" and "same_items w3 w4"
    and "if rl_disposition l = Scrap_disp
      then \<exists>w5. change_item key (dispatchStock now (q_each (rl_quantity l))) (the (map_of (work_items w4) key)) w4 = (Inr (), w5)
        \<and> same_items w5 w' else same_items w4 w'"
proof -
  let ?loc = "target_location (wk_rma w) l" and ?r = "wk_rma w"
  obtain cost where cost: "unit_cost_of (wk_rma w) (rl_variant l) = Some cost"
    using run by (auto simp: receive_rma_line_def oper_simps split: option.splits)
  let ?tail = "if withSerials then move_serials now l else op_return ()"
  have all: "op_seq (receive_on_rma l) (op_seq (take_in (uuid n 0) key sku ?loc (rl_quantity l))
       (op_seq (add_layer (uuid n 1) now l cost) (op_seq (add_quarantine (uuid n 2) now ?r l)
       (op_seq (add_entry (buildStockReturned (uuid n 3) (rl_variant l) (cost * rl_quantity l) (rma_id ?r) now (rma_tenant ?r)))
       (op_seq (scrap_line (uuid n 4) now key ?r l (cost * rl_quantity l)) ?tail))))) w = (Inr (), w')"
    using run cost by (simp add: receive_rma_line_def op_get_eval sku key Let_def)
  from all obtain w1 a b d w4 f where w1: "receive_on_rma l w = (Inr (), w1)" "take_in (uuid n 0) key sku ?loc (rl_quantity l) w1 = (Inr (), a)"
      and b: "add_layer (uuid n 1) now l cost a = (Inr (), b)" "add_quarantine (uuid n 2) now ?r l b = (Inr (), d)"
      and f: "add_entry (buildStockReturned (uuid n 3) (rl_variant l) (cost * rl_quantity l) (rma_id ?r) now (rma_tenant ?r)) d = (Inr (), w4)"
        "scrap_line (uuid n 4) now key ?r l (cost * rl_quantity l) w4 = (Inr (), f)" "?tail f = (Inr (), w')"
    by (elim run_seqE) blast
  obtain i w2 where g: "get_or_create (uuid n 0) key sku ?loc w1 = (Inr i, w2)"
      "op_bind (op_lift (Quantity (rl_quantity l) each)) (\<lambda>amount. change_item key (receiveStock amount) i) w2 = (Inr (), a)"
    using w1(2) unfolding take_in_def by (rule run_bindE)
  have c: "change_item key (receiveStock (q_each (rl_quantity l))) i w2 = (Inr (), a)"
    using g(2) by (auto simp: oper_simps split: sum.splits dest: Quantity_each_InrD)
  have s4: "same_items a w4"
    using leavesD [OF leaves_layer b(1)] leavesD [OF leaves_quarantine b(2)] leavesD [OF leaves_entry f(1)] same_items_trans by blast
  have "leaves_items ?tail" by (intro leaves_intros)
  from leavesD [OF this f(3)] have tail: "same_items f w'" .
  have "if rl_disposition l = Scrap_disp
      then \<exists>w5. change_item key (dispatchStock now (q_each (rl_quantity l))) (the (map_of (work_items w4) key)) w4 = (Inr (), w5)
        \<and> same_items w5 w' else same_items w4 w'"
  proof (cases "rl_disposition l = Scrap_disp")
    case False
    with f(2) have "f = w4" by (simp add: scrap_line_def oper_simps)
    with tail False show ?thesis by simp
  next
    case True
    with f(2) obtain w5 where w5: "change_item key (dispatchStock now (q_each (rl_quantity l))) (the (map_of (work_items w4) key)) w4 = (Inr (), w5)"
        "add_entry (buildInventoryWriteOff (uuid n 4) (rma_id ?r) (cost * rl_quantity l) now (rma_tenant ?r)) w5 = (Inr (), f)"
      by (auto simp: scrap_line_def oper_simps split: sum.splits prod.splits dest!: Quantity_each_InrD)
    with same_items_trans [OF leavesD [OF leaves_entry w5(2)] tail] True show ?thesis by auto
  qed
  with that [OF leavesD [OF leaves_rma w1(1)] g(1) c s4] show thesis by blast
qed

lemma ids_after_change:
  assumes "tracked s w" and "map_of (work_items w) key = Some i" and "change_item key m i w = (Inr (), w')" and "keeps_id m"
    and "ids_from uuid n s w"
  shows "ids_from uuid n s w'"
proof -
  obtain j where j: "m i = (Inr (), j)" "work_items w' = AList.update key j (work_items w)"
    using change_item_tracked [OF assms(1-4)] by auto
  have "iid j = iid i" using j(1) assms(4) unfolding keeps_id_def by blast
  moreover have "(key, i) \<in> set (work_items w)" using assms(2) by (rule map_of_SomeD)
  ultimately have mem: "iid j \<in> iid ` snd ` set (work_items w)" by (metis image_eqI snd_conv)
  have d: "distinct (map fst (work_items w))" using assms(1) by (simp add: tracked_def)
  have "set (work_items w') \<subseteq> insert (key, j) (set (work_items w))" unfolding j(2) set_update_items [OF d] by auto
  from image_mono [OF image_mono [OF this], of iid snd]
  have "iid ` snd ` set (work_items w') \<subseteq> insert (iid j) (iid ` snd ` set (work_items w))" by simp
  with mem have "iid ` snd ` set (work_items w') \<subseteq> iid ` snd ` set (work_items w)" by (simp add: insert_absorb)
  then show ?thesis using assms(5) unfolding ids_from_def by (rule order_trans)
qed

lemma receive_rma_line_moves:
  assumes t: "tracked s w" and ids: "ids_from (\<lambda>n. uuid n 0) n s w" and new: "new_ids (\<lambda>n. uuid n 0) s"
    and run: "receive_rma_line uuid now withSerials skus (n, l) w = (Inr (), w')"
  shows "items_moved s w w' 0 (if rl_disposition l = Scrap_disp then 0 else rl_quantity l) \<and> ids_from (\<lambda>n. uuid n 0) (Suc n) s w'"
proof (rule receive_rma_lineE [OF run refl refl])
  let ?key = "return_key (the (map_of skus (rl_variant l))) (target_location (wk_rma w) l)" and ?q = "rl_quantity l"
  fix w1 i w2 w3 w4
  assume s1: "same_items w w1"
    and g: "get_or_create (uuid n 0) ?key (the (map_of skus (rl_variant l))) (target_location (wk_rma w) l) w1 = (Inr i, w2)"
    and c: "change_item ?key (receiveStock (q_each ?q)) i w2 = (Inr (), w3)" and s4: "same_items w3 w4"
    and rest: "if rl_disposition l = Scrap_disp
      then \<exists>w5. change_item ?key (dispatchStock now (q_each ?q)) (the (map_of (work_items w4) ?key)) w4 = (Inr (), w5)
        \<and> same_items w5 w' else same_items w4 w'"
  have t1: "tracked s w1" "ids_from (\<lambda>n. uuid n 0) n s w1" "\<And>f. gain f s w1 = gain f s w"
    using same_items_tracked [OF s1] t ids by auto
  obtain j where j: "receiveStock (q_each ?q) i = (Inr (), j)" "tracked s w3" "ids_from (\<lambda>n. uuid n 0) (Suc n) s w3"
      "\<And>f. stock_field f \<Longrightarrow> gain f s w3 = gain f s w1 + f (row_of j) - f (row_of i)" "map_of (work_items w3) ?key = Some j"
    by (rule create_and_change [OF t1(1,2) new g refl refl c]) auto
  have t4: "tracked s w4" "ids_from (\<lambda>n. uuid n 0) (Suc n) s w4" "\<And>f. gain f s w4 = gain f s w3" "map_of (work_items w4) ?key = Some j"
    using same_items_tracked [OF s4] j s4 by (auto simp: same_items_def)
  have m4: "items_moved s w w4 0 ?q"
    using t4(1,3) j(4) t1(3) call_on_row(4) [OF j(1)] by (simp add: items_moved_def)
  show ?thesis
  proof (cases "rl_disposition l = Scrap_disp")
    case False
    with rest have "same_items w4 w'" by simp
    with m4 t4(2) False show ?thesis by (simp add: items_moved_def same_items_tracked)
  next
    case True
    with rest t4(4) obtain w5 where w5: "change_item ?key (dispatchStock now (q_each ?q)) j w4 = (Inr (), w5)" "same_items w5 w'" by auto
    obtain j' where j': "dispatchStock now (q_each ?q) j = (Inr (), j')" "tracked s w5"
        "\<And>f. gain f s w5 = gain f s w4 + f (row_of j') - f (row_of j)"
      using change_item_tracked [OF t4(1,4) w5(1)] by auto
    have "items_moved s w w5 0 0"
      using m4 j' call_on_row(5) [OF j'(1)] by (simp add: items_moved_def)
    moreover have "ids_from (\<lambda>n. uuid n 0) (Suc n) s w5" using ids_after_change [OF t4(1,4) w5(1) _ t4(2)] by simp
    ultimately show ?thesis using True w5(2) by (simp add: items_moved_def same_items_tracked)
  qed
qed

definition kept_total :: "returned_line list \<Rightarrow> number" where
  "kept_total ls = (\<Sum>l\<leftarrow>ls. if rl_disposition l = Scrap_disp then 0 else rl_quantity l)"

lemma receive_rma_lines_move:
  assumes "tracked s w" and "ids_from (\<lambda>n. uuid n 0) n s w" and "new_ids (\<lambda>n. uuid n 0) s"
    and "op_each (receive_rma_line uuid now withSerials skus) (enumerate n ls) w = (Inr (), w')"
  shows "items_moved s w w' 0 (kept_total ls)"
  using assms
proof (induction ls arbitrary: n w)
  case Nil
  then show ?case by (simp add: oper_simps items_moved_refl kept_total_def)
next
  case (Cons l ls)
  obtain w1 where w1: "receive_rma_line uuid now withSerials skus (n, l) w = (Inr (), w1)"
      "op_each (receive_rma_line uuid now withSerials skus) (enumerate (Suc n) ls) w1 = (Inr (), w')"
    using Cons.prems(4) by (auto elim: run_seqE)
  note one = receive_rma_line_moves [OF Cons.prems(1-3) w1(1)]
  have "items_moved s w1 w' 0 (kept_total ls)"
    using Cons.IH [of w1 "Suc n"] one Cons.prems(3) w1(2) by (simp add: items_moved_def)
  with one show ?case
    using items_moved_trans [of s w w1 0 "if rl_disposition l = Scrap_disp then 0 else rl_quantity l" w' 0 "kept_total ls"]
    by (simp add: kept_total_def)
qed

section \<open>What a receipt does to the stock\<close>

text \<open>The use case over the SQL table of items, taken apart.\<close>

lemma settle_keeps: "settle srepo k w = (x, w') \<Longrightarrow> x = Inr () \<and> rt_items w' = rt_items w \<and> rt_rmas w' = rt_rmas w
    \<and> rt_layers w' = rt_layers w"
  by (auto simp: settle_def oper_simps split: option.splits)

lemma receive_useE:
  assumes run: "ReceiveRmaUseCase uuid now rrepo pg_inventory crepo qrepo jrepo prepo srepo rmaId ls w = (Inr (), w')"
  obtains r skus pairs found sis k w1 where "find_rma rrepo (rt_rmas w) rmaId = Inr (Some r)"
    and "skus_of_variants prepo (js_set (map rl_variant ls)) = Inr skus" and "return_pairs r skus ls = Inr pairs"
    and "pi_findBySkuAndLocationBatch (rt_items w) pairs = Inr found"
    and "op_each (receive_rma_line uuid now (srepo \<noteq> None) skus) (enumerate 0 ls) (start_work r found sis) = (Inr (), k)"
    and "settle srepo k w = (Inr (), w1)" and "store_return rrepo pg_inventory crepo qrepo jrepo srepo ls k w1 = (Inr (), w')"
proof -
  obtain r where r: "find_rma rrepo (rt_rmas w) rmaId = Inr (Some r)"
    using run by (auto simp: ReceiveRmaUseCase_def oper_simps split: sum.splits option.splits)
  obtain skus where skus: "skus_of_variants prepo (js_set (map rl_variant ls)) = Inr skus"
    using run r by (auto simp: ReceiveRmaUseCase_def oper_simps split: sum.splits)
  obtain pairs where pairs: "return_pairs r skus ls = Inr pairs"
    using run r skus by (auto simp: ReceiveRmaUseCase_def oper_simps split: sum.splits)
  obtain found where found: "pi_findBySkuAndLocationBatch (rt_items w) pairs = Inr found"
    using run r skus pairs by (auto simp: ReceiveRmaUseCase_def oper_simps pg_inventory_def split: sum.splits)
  obtain sps where sps: "serial_pairs ls = Inr sps"
    using run r skus pairs found by (auto simp: ReceiveRmaUseCase_def oper_simps pg_inventory_def split: sum.splits)
  have batch: "findBySkuAndLocationBatch pg_inventory = pi_findBySkuAndLocationBatch" by (simp add: pg_inventory_def)
  define sis where "sis = (case srepo of None \<Rightarrow> [] | Some sr \<Rightarrow> if length sps > 0 then find_serial_batch sr (rt_serials w) sps else [])"
  obtain x k where k: "op_each (receive_rma_line uuid now (srepo \<noteq> None) skus) (enumerate 0 ls) (start_work r found sis) = (x, k)" by fastforce
  have all: "op_seq (settle srepo k) (op_seq (op_lift x) (store_return rrepo pg_inventory crepo qrepo jrepo srepo ls k)) w = (Inr (), w')"
    using run k by (simp add: ReceiveRmaUseCase_def op_bind_eval op_get_eval op_lift_eval op_return_eval r skus pairs batch
        found sps sis_def [symmetric])
  obtain w1 where w1: "settle srepo k w = (Inr (), w1)"
      "op_seq (op_lift x) (store_return rrepo pg_inventory crepo qrepo jrepo srepo ls k) w1 = (Inr (), w')"
    using all by (rule run_seqE)
  from w1(2) have "x = Inr ()" by (cases x) (simp_all add: oper_simps)
  with that [OF r skus pairs found _ w1(1)] k w1(2) show thesis by (simp add: oper_simps)
qed

lemma keeps_consume_scrap: "(\<And>s w. P w \<Longrightarrow> P (w\<lparr>rt_layers := s\<rparr>)) \<Longrightarrow> keeps P (consume_scrap crepo ls)"
  unfolding consume_scrap_def by (intro keeps_intros)

lemma keeps_store_rest: "keeps (\<lambda>w. rt_items w = s) (store_rest rrepo crepo qrepo jrepo srepo k)"
  unfolding store_rest_def by (cases srepo) (auto intro!: keeps_intros)

lemma store_return_items:
  assumes run: "store_return rrepo pg_inventory crepo qrepo jrepo srepo ls k w = (Inr (), w')"
  shows "pi_saveBatch (changed_items k) (rt_items w) = (Inr (), rt_items w')"
proof -
  let ?save = "if length (changed_items k) > 0 then on_rt_items (save_items pg_inventory (changed_items k)) else op_return ()"
  from run obtain w1 w2 where w: "consume_scrap crepo ls w = (Inr (), w1)" "?save w1 = (Inr (), w2)"
      "store_rest rrepo crepo qrepo jrepo srepo k w2 = (Inr (), w')"
    unfolding store_return_def by (elim run_seqE) blast
  have "rt_items w1 = rt_items w"
    by (rule keepsD [where P = "\<lambda>x. rt_items x = rt_items w", OF keeps_consume_scrap _ w(1)]) simp_all
  moreover have "rt_items w' = rt_items w2"
    by (rule keepsD [OF keeps_store_rest [of "rt_items w2"] _ w(3)]) simp
  ultimately show ?thesis
    using w(2) by (auto simp: oper_simps pg_inventory_def pi_saveBatch_def split: if_splits prod.splits)
qed

lemma receive_stock_flow:
  assumes run: "ReceiveRmaUseCase uuid now rrepo pg_inventory crepo qrepo jrepo prepo srepo rmaId ls w = (Inr (), w')"
    and inv: "pi_inv (rt_items w)" and new: "new_ids (\<lambda>n. uuid n 0) (rt_items w)"
  shows "stock_moved (rt_items w) (rt_items w') 0 (kept_total ls)"
proof (rule receive_useE [OF run])
  fix r skus pairs found sis k w1
  assume found: "pi_findBySkuAndLocationBatch (rt_items w) pairs = Inr found"
    and loop: "op_each (receive_rma_line uuid now (srepo \<noteq> None) skus) (enumerate 0 ls) (start_work r found sis) = (Inr (), k)"
    and set: "settle srepo k w = (Inr (), w1)" and store: "store_return rrepo pg_inventory crepo qrepo jrepo srepo ls k w1 = (Inr (), w')"
  have load: "tracked (rt_items w) (start_work r found sis)" "\<And>f. stock_field f \<Longrightarrow> gain f (rt_items w) (start_work r found sis) = 0"
    using loaded_tracked [OF inv found, of "start_work r found sis" return_key] by (auto simp: start_work_def)
  have ids: "ids_from (\<lambda>n. uuid n 0) 0 (rt_items w) (start_work r found sis)"
    by (rule loaded_ids [OF inv found]) (simp_all add: start_work_def)
  have "pi_saveBatch (changed_items k) (rt_items w) = (Inr (), rt_items w')"
    using store_return_items [OF store] settle_keeps [OF set] by simp
  from saved_moved [OF inv this receive_rma_lines_move [OF load(1) ids new loop] load(2)] show ?thesis .
qed

section \<open>Scrapped units\<close>

text \<open>\<open>bumped K i m w\<close>: the object under \<open>K\<close> is still that of \<open>i\<close> and has been changed at least \<open>m\<close> times.\<close>

definition bumped :: "string \<Rightarrow> inventory_item \<Rightarrow> int \<Rightarrow> return_work \<Rightarrow> bool" where
  "bumped K i m w \<longleftrightarrow> (\<exists>j. map_of (work_items w) K = Some j \<and> iid j = iid i \<and> iversion i + m \<le> iversion j
     \<and> (0 < m \<longrightarrow> K \<in> set (work_changed w)))"

lemma version_calls:
  "receiveStock a i = (Inr (), j) \<Longrightarrow> iid j = iid i \<and> iversion j = iversion i + 1"
  "dispatchStock now a i = (Inr (), j) \<Longrightarrow> iid j = iid i \<and> iversion j = iversion i + 1"
  by (auto simp: inventory_op_defs oper_simps split: sum.splits if_splits)

lemma change_bumps:
  assumes "bumped K i m w" and "map_of (work_items w) key = Some x" and "change_item key f x w = (Inr (), w')"
    and "\<And>y. f x = (Inr (), y) \<Longrightarrow> iid y = iid x \<and> iversion y = iversion x + 1" and "0 \<le> m"
  shows "bumped K i (if key = K then m + 1 else m) w'"
proof -
  obtain y where y: "f x = (Inr (), y)"
    using assms(3) by (cases "f x") (auto simp: change_item_def oper_simps split: sum.splits)
  then have w': "w' = w\<lparr>work_items := AList.update key y (work_items w), work_changed := add_once key (work_changed w)\<rparr>"
    using assms(3) by (simp add: change_item_def oper_simps)
  show ?thesis using assms(1,2,5) assms(4) [OF y] by (auto simp: bumped_def w')
qed

lemma bumped_same: "same_items w w' \<Longrightarrow> bumped K i m w' = bumped K i m w"
  by (simp add: same_items_def bumped_def)

lemma bumped_less: "bumped K i m w \<Longrightarrow> 0 \<le> m' \<Longrightarrow> m' \<le> m \<Longrightarrow> bumped K i m' w"
  by (force simp: bumped_def)

lemma get_keeps_bumped:
  "bumped K i m w \<Longrightarrow> get_or_create u key sku loc w = (Inr x, w') \<Longrightarrow> bumped K i m w' \<and> map_of (work_items w') key = Some x"
  by (auto simp: get_or_create_def oper_simps bumped_def split: option.splits sum.splits)

lemma line_bumps:
  assumes b: "bumped K i m w" and m: "0 \<le> m" and run: "receive_rma_line uuid now withSerials skus (n, l) w = (Inr (), w')"
  shows "bumped K i (if rl_disposition l = Scrap_disp
      \<and> return_key (the (map_of skus (rl_variant l))) (target_location (wk_rma w) l) = K then m + 2 else m) w'"
proof (rule receive_rma_lineE [OF run refl refl])
  let ?key = "return_key (the (map_of skus (rl_variant l))) (target_location (wk_rma w) l)" and ?q = "q_each (rl_quantity l)"
  fix w1 x w2 w3 w4
  assume s1: "same_items w w1"
    and g: "get_or_create (uuid n 0) ?key (the (map_of skus (rl_variant l))) (target_location (wk_rma w) l) w1 = (Inr x, w2)"
    and c: "change_item ?key (receiveStock ?q) x w2 = (Inr (), w3)" and s4: "same_items w3 w4"
    and rest: "if rl_disposition l = Scrap_disp
      then \<exists>w5. change_item ?key (dispatchStock now ?q) (the (map_of (work_items w4) ?key)) w4 = (Inr (), w5) \<and> same_items w5 w'
      else same_items w4 w'"
  have b2: "bumped K i m w2" "map_of (work_items w2) ?key = Some x"
    using get_keeps_bumped [OF _ g] b bumped_same [OF s1] by auto
  have b4: "bumped K i (if ?key = K then m + 1 else m) w4"
    using change_bumps [OF b2 c version_calls(1) m] bumped_same [OF s4] by simp
  show ?thesis
  proof (cases "rl_disposition l = Scrap_disp")
    case False
    with rest have s: "same_items w4 w'" by simp
    show ?thesis using bumped_less [OF b4 m] bumped_same [OF s] False by simp
  next
    case True
    with rest obtain w5 where w5: "change_item ?key (dispatchStock now ?q) (the (map_of (work_items w4) ?key)) w4 = (Inr (), w5)"
        "same_items w5 w'" by auto
    obtain y where "map_of (work_items w3) ?key = Some y"
      using c by (auto simp: change_item_def oper_simps split: sum.splits prod.splits)
    then have "map_of (work_items w4) ?key = Some (the (map_of (work_items w4) ?key))" using s4 by (simp add: same_items_def)
    from change_bumps [OF b4 this w5(1) version_calls(2)] m
    have "bumped K i (if ?key = K then m + 1 + 1 else m) w5" by (auto split: if_splits)
    moreover have "m + 1 + 1 = m + 2" by simp
    ultimately have "bumped K i (if ?key = K then m + 2 else m) w5" by (simp only:)
    then show ?thesis using True bumped_same [OF w5(2), of K i] by auto
  qed
qed

lemma keeps_rma_place: "keeps (\<lambda>w. rma_location (wk_rma w) = loc) (receive_rma_line uuid now withSerials skus x)"
proof -
  have zoom: "keeps (\<lambda>w. rma_location (wk_rma w) = loc) (receive_on_rma l)" for l
  proof -
    have "rma_location (snd (receiveItem v q d r)) = rma_location r" for v q d r
    proof (cases "rma_status r \<in> {Authorized_rma, Received_rma}")
      case True
      obtain x is' where "on_line v (ri_receive q d) (rma_items r) = (x, is')" by fastforce
      from receiveItem_open [OF True this] show ?thesis by (cases x) simp_all
    qed (simp add: receiveItem_closed)
    then have "rma_location r' = rma_location r" if "receiveItem v q d r = (x, r')" for v q d r x r'
      using that by (metis snd_conv)
    then show ?thesis by (auto simp: keeps_def receive_on_rma_def op_zoom_def split: prod.splits)
  qed
  have change: "keeps (\<lambda>w. rma_location (wk_rma w) = loc) (change_item key m i)" for key m i
    by (auto simp: keeps_def change_item_def oper_simps split: sum.splits prod.splits)
  have get: "keeps (\<lambda>w. rma_location (wk_rma w) = loc) (get_or_create u key sku l)" for u key sku l
    by (auto simp: keeps_def get_or_create_def oper_simps split: sum.splits option.splits)
  have entry: "keeps (\<lambda>w. rma_location (wk_rma w) = loc) (add_entry b)" for b
    unfolding add_entry_def by (intro keeps_intros) simp
  have serial: "keeps (\<lambda>w. rma_location (wk_rma w) = loc) (change_serial key m)" for key m
    by (auto simp: keeps_def change_serial_def oper_simps split: sum.splits option.splits prod.splits)
  have steps: "keeps (\<lambda>w. rma_location (wk_rma w) = loc) (take_in u key sku l q)"
      "keeps (\<lambda>w. rma_location (wk_rma w) = loc) (add_layer u now rl cost)"
      "keeps (\<lambda>w. rma_location (wk_rma w) = loc) (add_quarantine u now r rl)"
      "keeps (\<lambda>w. rma_location (wk_rma w) = loc) (scrap_line u now key r rl q)"
      "keeps (\<lambda>w. rma_location (wk_rma w) = loc) (move_serials now rl)" for u key sku l q rl cost r
    unfolding take_in_def add_layer_def add_quarantine_def scrap_line_def move_serials_def Let_def
    by (intro keeps_intros get change entry serial; simp)+
  obtain n rl where x: "x = (n, rl)" by fastforce
  show ?thesis
    unfolding receive_rma_line_def x prod.case
  proof (rule keeps_get)
    fix a
    show "keeps (\<lambda>w. rma_location (wk_rma w) = loc) (case unit_cost_of (wk_rma a) (rl_variant rl) of
       None \<Rightarrow> op_throw (Error ''Item with variant ID {} not found in RMA.'' [S (rl_variant rl)])
     | Some cost \<Rightarrow>
       let r = wk_rma a; loc = target_location r rl; sku = the (map_of skus (rl_variant rl)); key = return_key sku loc;
           totalCost = cost * rl_quantity rl in
       op_seq (receive_on_rma rl)
       (op_seq (take_in (uuid n 0) key sku loc (rl_quantity rl))
       (op_seq (add_layer (uuid n 1) now rl cost)
       (op_seq (add_quarantine (uuid n 2) now r rl)
       (op_seq (add_entry (buildStockReturned (uuid n 3) (rl_variant rl) totalCost (rma_id r) now (rma_tenant r)))
       (op_seq (scrap_line (uuid n 4) now key r rl totalCost)
         (if withSerials then move_serials now rl else op_return ())))))))"
      by (cases "unit_cost_of (wk_rma a) (rl_variant rl)") (simp_all only: option.case Let_def, (intro keeps_intros zoom steps entry)+)
  qed
qed

lemma lines_bump:
  assumes "bumped K i m w" and "0 \<le> m" and "op_each (receive_rma_line uuid now withSerials skus) (enumerate n ls) w = (Inr (), w')"
    and "rma_location (wk_rma w) = loc"
  shows "bumped K i m w' \<and> ((\<exists>l\<in>set ls. rl_disposition l = Scrap_disp \<and> return_key (the (map_of skus (rl_variant l))) loc = K)
      \<longrightarrow> bumped K i (m + 2) w')"
  using assms
proof (induction ls arbitrary: n w m)
  case Nil
  then show ?case by (simp add: oper_simps)
next
  case (Cons l ls)
  obtain w1 where w1: "receive_rma_line uuid now withSerials skus (n, l) w = (Inr (), w1)"
      "op_each (receive_rma_line uuid now withSerials skus) (enumerate (Suc n) ls) w1 = (Inr (), w')"
    using Cons.prems(3) by (auto elim: run_seqE)
  have loc: "rma_location (wk_rma w1) = loc" using keepsD [OF keeps_rma_place Cons.prems(4) w1(1)] .
  let ?hit = "rl_disposition l = Scrap_disp \<and> return_key (the (map_of skus (rl_variant l))) (target_location (wk_rma w) l) = K"
  have b1: "bumped K i (if ?hit then m + 2 else m) w1" by (rule line_bumps [OF Cons.prems(1,2) w1(1)])
  then have "bumped K i m w1" using bumped_less Cons.prems(2) by (auto split: if_splits)
  from Cons.IH [OF this Cons.prems(2) w1(2) loc]
  have rest: "bumped K i m w'" "(\<exists>l\<in>set ls. rl_disposition l = Scrap_disp \<and> return_key (the (map_of skus (rl_variant l))) loc = K)
      \<longrightarrow> bumped K i (m + 2) w'" by auto
  have "bumped K i (m + 2) w'" if "rl_disposition l = Scrap_disp" "return_key (the (map_of skus (rl_variant l))) loc = K"
  proof -
    have "bumped K i (m + 2) w1" using b1 that Cons.prems(4) by (simp add: target_location_def)
    from Cons.IH [OF this _ w1(2) loc] Cons.prems(2) show ?thesis by simp
  qed
  with rest show ?case by auto
qed

lemma keyed_items_complete:
  "i \<in> set is \<Longrightarrow> \<exists>j\<in>set is. map_of (keyed_items key is) (key (isku i) (ilocationId i)) = Some j"
proof -
  assume i: "i \<in> set is"
  have "map_of (fold (\<lambda>i m. AList.update (key (isku i) (ilocationId i)) i m) xs m) k \<noteq> None"
    if "k \<in> (\<lambda>i. key (isku i) (ilocationId i)) ` set xs \<or> map_of m k \<noteq> None" for xs m k
    using that by (induction xs arbitrary: m) auto
  then have "map_of (keyed_items key is) (key (isku i) (ilocationId i)) \<noteq> None"
    using i unfolding keyed_items_def by blast
  then obtain j where "map_of (keyed_items key is) (key (isku i) (ilocationId i)) = Some j" by auto
  with keyed_items_sound [OF this] show ?thesis by blast
qed

lemma batch_finds:
  assumes inv: "pi_inv s" and one: "pi_findBySkuAndLocation s sku loc = Inr (Some i)"
    and batch: "pi_findBySkuAndLocationBatch s pairs = Inr is" and mem: "(sku, loc) \<in> set pairs"
  shows "i \<in> set is \<and> isku i = sku \<and> ilocationId i = loc"
proof -
  obtain r where r: "find (\<lambda>r. row_sku r = sku \<and> row_location r = loc) (rows s) = Some r" "toDomain r = Inr i"
    using one by (auto simp: pi_findBySkuAndLocation_def result_bind_Inr_iff split: option.splits)
  have row: "r \<in> set (rows s)" "row_sku r = sku" "row_location r = loc" using find_SomeD [OF r(1)] by auto
  have "toDomain r = Inr (row_item r)" using inv row(1) by (simp add: pi_inv_def toDomain_row)
  with r(2) have i: "i = row_item r" by simp
  have "r \<in> set (filter (\<lambda>r. list_ex (\<lambda>(sku, loc). row_sku r = sku \<and> row_location r = loc) pairs) (rows s))"
  proof -
    have "list_ex (\<lambda>(sku, loc). row_sku r = sku \<and> row_location r = loc) pairs"
      unfolding list_ex_iff using mem row(2,3) by (intro bexI [of _ "(sku, loc)"]) simp_all
    with row(1) show ?thesis by simp
  qed
  moreover have "result_map toDomain (filter (\<lambda>r. list_ex (\<lambda>(sku, loc). row_sku r = sku \<and> row_location r = loc) pairs) (rows s)) = Inr is"
    using batch mem by (auto simp: pi_findBySkuAndLocationBatch_def pi_select_def split: if_splits)
  ultimately have "\<exists>j\<in>set is. toDomain r = Inr j"
    by (intro result_map_member)
  with r(2) have "i \<in> set is" by auto
  with i row show ?thesis by simp
qed

lemma return_pairs_member:
  "return_pairs r skus ls = Inr pairs \<Longrightarrow> l \<in> set ls \<Longrightarrow>
   (the (map_of skus (rl_variant l)), target_location r l) \<in> set pairs"
  by (induction ls arbitrary: pairs) (auto simp: return_pairs_def split: sum.splits option.splits if_splits)

lemma stale_after_two:
  assumes inv: "pi_inv s" and t: "tracked s k" and known: "pi_row s (iid i) = Some i" and b: "bumped K i 2 k"
  shows "\<exists>e. pi_saveBatch (changed_items k) s = (Inl e, s)"
proof -
  obtain j where j: "map_of (work_items k) K = Some j" "iid j = iid i" "iversion i + 2 \<le> iversion j" "K \<in> set (work_changed k)"
    using b by (auto simp: bumped_def)
  obtain r where r: "find (\<lambda>r. row_id r = iid i) (rows s) = Some r" "row_item r = i"
    using known by (auto simp: pi_row_def)
  have row: "r \<in> set (rows s)" "row_id r = iid i" using find_SomeD [OF r(1)] by auto
  have changed: "j \<in> set (changed_items k)" using j(1,4) by (auto simp: changed_items_map [OF t] intro!: image_eqI [of _ _ K])
  show ?thesis
  proof (rule pi_saveBatch_stale [OF changed])
    show "j' = j" if "j' \<in> set (changed_items k)" "iid j' = iid j" for j'
      using changed_ids [OF t] changed that by (auto simp: distinct_map inj_on_def)
    show "iid j \<in> set (map row_id (rows s))" using row j(2) by (auto simp: image_iff intro!: bexI [of _ r])
    show "row_version r' \<noteq> iversion j - 1" if "r' \<in> set (rows s)" "row_id r' = iid j" for r'
    proof -
      have "r' = r" using inv row that j(2) by (auto simp: pi_inv_def distinct_map inj_on_def)
      moreover have "row_version r = iversion i" using r(2) by auto
      ultimately show ?thesis using j(3) by simp
    qed
  qed
qed

text \<open>After the loop, the object of a scrapped line that was in the table is two versions ahead of its row.\<close>

lemma loop_stale:
  assumes inv: "pi_inv s" and new: "new_ids (\<lambda>n. uuid n 0) s" and l: "l \<in> set ls" "rl_disposition l = Scrap_disp"
    and stocked: "pi_findBySkuAndLocation s (the (map_of skus (rl_variant l))) (rma_location r) = Inr (Some i)"
    and pairs: "return_pairs r skus ls = Inr pairs" and found: "pi_findBySkuAndLocationBatch s pairs = Inr found"
    and loop: "op_each (receive_rma_line uuid now withSerials skus) (enumerate 0 ls) (start_work r found sis) = (Inr (), k)"
  shows "\<exists>e. pi_saveBatch (changed_items k) s = (Inl e, s)"
proof -
  let ?K = "return_key (the (map_of skus (rl_variant l))) (rma_location r)" and ?k0 = "start_work r found sis"
  have "(the (map_of skus (rl_variant l)), rma_location r) \<in> set pairs"
    using return_pairs_member [OF pairs l(1)] l(2) by (simp add: target_location_def)
  from batch_finds [OF inv stocked found this] obtain i0
    where i0: "i0 \<in> set found" "map_of (keyed_items return_key found) ?K = Some i0"
    using keyed_items_complete [of i found return_key] by auto
  have load: "tracked s ?k0" using loaded_tracked [OF inv found, of ?k0 return_key] by (simp add: start_work_def)
  have ids: "ids_from (\<lambda>n. uuid n 0) 0 s ?k0" by (rule loaded_ids [OF inv found]) (simp_all add: start_work_def)
  have "bumped ?K i0 0 ?k0" using i0(2) by (simp add: bumped_def start_work_def)
  from lines_bump [OF this _ loop, of "rma_location r"] l have "bumped ?K i0 2 k" by (auto simp: start_work_def)
  moreover have "tracked s k" using receive_rma_lines_move [OF load ids new loop] by (simp add: items_moved_def)
  moreover have "pi_row s (iid i0) = Some i0" using pi_batch_found [OF inv found i0(1)] by simp
  ultimately show ?thesis using stale_after_two [OF inv] by blast
qed

text \<open>
  C16. What a receipt of returned goods does to the stock in the database: when it returns, what
  is on hand has grown by the quantities of the lines that are not scrapped, and what is in transit or
  reserved has not changed.
\<close>

theorem return_stock_flow:
  assumes "ReceiveRmaUseCase uuid now rrepo pg_inventory crepo qrepo jrepo prepo srepo rmaId ls w = (Inr (), w')"
    and "pi_inv (rt_items w)" and "new_ids (\<lambda>n. uuid n 0) (rt_items w)"
  shows "stock_moved (rt_items w) (rt_items w') 0 (kept_total ls)"
  by (rule receive_stock_flow [OF assms])

lemma store_return_stale:
  assumes stale: "pi_saveBatch (changed_items k) (rt_items w) = (Inl e, rt_items w)"
  shows "\<exists>e w'. store_return rrepo pg_inventory crepo qrepo jrepo srepo ls k w = (Inl e, w')
    \<and> rt_items w' = rt_items w \<and> rt_rmas w' = rt_rmas w"
proof -
  obtain x w1 where c: "consume_scrap crepo ls w = (x, w1)" by fastforce
  have keep: "rt_items w1 = rt_items w \<and> rt_rmas w1 = rt_rmas w"
    by (rule keepsD [where P = "\<lambda>x. rt_items x = rt_items w \<and> rt_rmas x = rt_rmas w", OF keeps_consume_scrap _ c]) simp_all
  have "changed_items k \<noteq> []" using stale by (auto simp: pi_saveBatch_def oper_simps)
  then show ?thesis
    using c keep stale by (cases x) (auto simp: store_return_def oper_simps pg_inventory_def)
qed

text \<open>
  Scrap is not accepted for an item in stock: a receipt with a line to scrap whose SKU has a
  row at the location of the return throws, always, and leaves stock and authorization as they were. The
  line changes the object twice (received, then dispatched), which raises its version by two, and the
  store accepts only the next version.
\<close>

theorem scrapped_return_refused:
  assumes inv: "pi_inv (rt_items w)" and new: "new_ids (\<lambda>n. uuid n 0) (rt_items w)"
    and r: "find_rma rrepo (rt_rmas w) rmaId = Inr (Some r)"
    and skus: "skus_of_variants prepo (js_set (map rl_variant ls)) = Inr skus"
    and l: "l \<in> set ls" "rl_disposition l = Scrap_disp"
    and stocked: "pi_findBySkuAndLocation (rt_items w) (the (map_of skus (rl_variant l))) (rma_location r) = Inr (Some i)"
  shows "\<exists>e w'. ReceiveRmaUseCase uuid now rrepo pg_inventory crepo qrepo jrepo prepo srepo rmaId ls w = (Inl e, w')
    \<and> rt_items w' = rt_items w \<and> rt_rmas w' = rt_rmas w"
proof -
  note eval = ReceiveRmaUseCase_def op_bind_eval op_get_eval op_lift_eval op_return_eval r skus
  have batch: "findBySkuAndLocationBatch pg_inventory = pi_findBySkuAndLocationBatch" by (simp add: pg_inventory_def)
  show ?thesis
  proof (cases "return_pairs r skus ls")
    case (Inl e)
    then show ?thesis by (simp add: eval)
  next
    case pairs: (Inr pairs)
    show ?thesis
    proof (cases "pi_findBySkuAndLocationBatch (rt_items w) pairs")
      case (Inl e)
      then show ?thesis by (simp add: eval pairs batch)
    next
      case found: (Inr found)
      show ?thesis
      proof (cases "serial_pairs ls")
        case (Inl e)
        then show ?thesis by (simp add: eval pairs batch found)
      next
        case sps: (Inr sps)
        define sis where "sis = (case srepo of None \<Rightarrow> [] | Some sr \<Rightarrow> if length sps > 0 then find_serial_batch sr (rt_serials w) sps else [])"
        obtain x k where loop: "op_each (receive_rma_line uuid now (srepo \<noteq> None) skus) (enumerate 0 ls) (start_work r found sis) = (x, k)" by fastforce
        obtain w1 where w1: "settle srepo k w = (Inr (), w1)"
          by (cases srepo) (simp_all add: settle_def oper_simps)
        have all: "ReceiveRmaUseCase uuid now rrepo pg_inventory crepo qrepo jrepo prepo srepo rmaId ls w =
            op_seq (op_lift x) (store_return rrepo pg_inventory crepo qrepo jrepo srepo ls k) w1"
          using w1 loop by (simp add: eval pairs batch found sps sis_def [symmetric] op_seq_eval)
        show ?thesis
        proof (cases x)
          case (Inl e)
          with all settle_keeps [OF w1] show ?thesis by (simp add: op_seq_eval op_lift_eval)
        next
          case (Inr y)
          with loop have loop: "op_each (receive_rma_line uuid now (srepo \<noteq> None) skus) (enumerate 0 ls) (start_work r found sis) = (Inr (), k)" by simp
          have "pi_saveBatch (changed_items k) (rt_items w1) = (Inl e, rt_items w1) \<Longrightarrow> ?thesis" for e
            using store_return_stale [of k w1 e rrepo crepo qrepo jrepo srepo ls] all Inr settle_keeps [OF w1]
            by (auto simp: op_seq_eval op_lift_eval)
          then show ?thesis
            using loop_stale [OF inv new l stocked pairs found loop] settle_keeps [OF w1] by auto
        qed
      qed
    qed
  qed
qed

section \<open>Examples of receipts\<close>

definition open_rma :: rma where
  "open_rma = (sample_rma [sample_line ''l1'' ''v1'' 3])\<lparr>rma_status := Authorized_rma\<rparr>"

definition no_digest :: "string \<Rightarrow> string" where
  "no_digest s = replicate 32 CHR ''0''"

definition return_start ::
    "(rma_map, inventory_db, layer_table, quarantine_map, journal_db, serial_table, unit) return_world" where
  "return_start = \<lparr>rt_rmas = [(''rma-1'', open_rma)], rt_items = sample_db, rt_layers = [], rt_quarantine = [],
     rt_books = \<lparr>entry_rows = [], line_rows = []\<rparr>, rt_serials = [], rt_approvals = \<lparr>ap_store = (), ap_events = []\<rparr>\<rparr>"

definition line_uuid :: "nat \<Rightarrow> nat \<Rightarrow> string" where
  "line_uuid n k = ''n'' @ replicate n CHR ''x'' @ replicate k CHR ''y''"

definition one_sku :: product_repo where
  "one_sku = mem_products [(''p1'', Product ''p1'' ''Widget''
     (Some [(''v1'', ProductVariant ''v1'' ''p1'' ''WIDGET-1'' [] TrackQuantity)]))]"

abbreviation sample_receipt ::
    "disposition \<Rightarrow> ((rma_map, inventory_db, layer_table, quarantine_map, journal_db, serial_table, unit) return_world, unit) oper" where
  "sample_receipt disp \<equiv> ReceiveRmaUseCase line_uuid 5 mem_rmas pg_inventory pg_layers mem_quarantine (pg_journal no_digest)
     one_sku (Some mem_serial_batches) ''rma-1''
     [\<lparr>rl_variant = ''v1'', rl_quantity = 2, rl_disposition = disp, rl_serials = None\<rparr>]"

lemma fresh_line_ids: "new_ids (\<lambda>n. line_uuid n 0) (rt_items return_start)"
  by (auto simp: new_ids_def inj_def line_uuid_def return_start_def sample_db_def sample_row_def sample_item_def InventoryItem_def)

theorem return_stock_flow_witness:
  "\<exists>w'. sample_receipt Restock_disp return_start = (Inr (), w') \<and> stock_moved sample_db (rt_items w') 0 2"
proof -
  have "fst (sample_receipt Restock_disp return_start) = Inr ()" by code_simp
  then obtain w' where run: "sample_receipt Restock_disp return_start = (Inr (), w')" by (metis prod.collapse)
  have "pi_inv (rt_items return_start)" using sample_db_inv by (simp add: return_start_def)
  from return_stock_flow [OF run this fresh_line_ids] run show ?thesis
    by (auto simp: kept_total_def return_start_def)
qed

theorem scrapped_return_refused_witness:
  "\<exists>e w'. sample_receipt Scrap_disp return_start = (Inl e, w') \<and> rt_rmas w' = [(''rma-1'', open_rma)]"
proof -
  have r: "find_rma mem_rmas (rt_rmas return_start) ''rma-1'' = Inr (Some open_rma)" by code_simp
  have skus: "skus_of_variants one_sku (js_set (map rl_variant
      [\<lparr>rl_variant = ''v1'', rl_quantity = 2, rl_disposition = Scrap_disp, rl_serials = None\<rparr>])) = Inr [(''v1'', ''WIDGET-1'')]"
    by code_simp
  have inv: "pi_inv (rt_items return_start)" using sample_db_inv by (simp add: return_start_def)
  have "pi_findBySkuAndLocation (rt_items return_start) (the (map_of [(''v1'', ''WIDGET-1'')] ''v1'')) (rma_location open_rma) = Inr (Some sample_item)"
    using sample_find by (simp add: return_start_def open_rma_def sample_rma_def Rma_def)
  with scrapped_return_refused [where uuid = line_uuid, OF inv fresh_line_ids r skus, of "\<lparr>rl_variant = ''v1'', rl_quantity = 2, rl_disposition = Scrap_disp, rl_serials = None\<rparr>"]
  show ?thesis by (fastforce simp: return_start_def)
qed

section \<open>Resolving a quarantine\<close>

lemma keeps_intercept: "(\<And>s w. P w \<Longrightarrow> P (w\<lparr>rt_approvals := s\<rparr>)) \<Longrightarrow> keeps P (intercept_scrap uuid now crepo arepo res q tenantId actorId)"
  unfolding intercept_scrap_def Let_def
  by (cases arepo) (auto intro!: keeps_intros split: option.splits)

lemma load_quarantine_same: "load_quarantine qrepo prepo qid w = (x, w') \<Longrightarrow> w' = w"
  by (auto simp: load_quarantine_def oper_simps split: sum.splits option.splits if_splits)

lemma keeps_branch:
  "(\<And>s w. P w \<Longrightarrow> P (w\<lparr>rt_layers := s\<rparr>)) \<Longrightarrow> (\<And>s w. P w \<Longrightarrow> P (w\<lparr>rt_books := s\<rparr>)) \<Longrightarrow>
   keeps P (resolve_branch uuid now irepo crepo jrepo res q sku taken)"
  unfolding resolve_branch_def write_off_cost_def
  by (cases res) (auto intro!: keeps_intros split: prod.splits sum.splits)

lemma resolve_useE:
  assumes run: "ResolveQuarantineItemUseCase uuid now qrepo pg_inventory crepo jrepo prepo arepo qid res tenantId actorId w = (Inr (), w')"
  obtains q sku w1 held taken q' items w2 w3 where "load_quarantine qrepo prepo qid w = (Inr (q, sku), w)"
    and "rt_items w1 = rt_items w" and "rt_quarantine w1 = rt_quarantine w"
    and "pi_findBySkuAndLocation (rt_items w) sku (qi_location q @ ''-quarantine'') = Inr (Some held)"
    and "dispatchStock now (q_each (qi_quantity q)) held = (Inr (), taken)"
    and "resolve_branch uuid now pg_inventory crepo jrepo res q sku taken w1 = (Inr (q', items), w2)"
    and "rt_items w2 = rt_items w" and "rt_quarantine w2 = rt_quarantine w"
    and "save_both pg_inventory items w2 = (Inr (), w3)" and "rt_quarantine w3 = rt_quarantine w"
    and "on_rt_quarantine (save_quarantine qrepo q') w3 = (Inr (), w')"
proof -
  have fields: "findBySkuAndLocation pg_inventory = pi_findBySkuAndLocation" by (simp add: pg_inventory_def)
  obtain q sku where q: "load_quarantine qrepo prepo qid w = (Inr (q, sku), w)"
    using run load_quarantine_same [of qrepo prepo qid w]
    by (cases "load_quarantine qrepo prepo qid w") (auto simp: ResolveQuarantineItemUseCase_def op_bind_eval split: sum.splits)
  obtain w1 where w1: "intercept_scrap uuid now crepo arepo res q tenantId actorId w = (Inr (), w1)"
    using run q by (cases "intercept_scrap uuid now crepo arepo res q tenantId actorId w")
      (auto simp: ResolveQuarantineItemUseCase_def op_bind_eval op_seq_eval split: sum.splits)
  have keep1: "rt_items w1 = rt_items w \<and> rt_quarantine w1 = rt_quarantine w"
    by (rule keepsD [where P = "\<lambda>x. rt_items x = rt_items w \<and> rt_quarantine x = rt_quarantine w", OF keeps_intercept _ w1]) simp_all
  obtain held where held: "pi_findBySkuAndLocation (rt_items w) sku (qi_location q @ ''-quarantine'') = Inr (Some held)"
    using run q w1 keep1 by (auto simp: ResolveQuarantineItemUseCase_def op_bind_eval op_seq_eval op_get_eval op_lift_eval op_throw_eval
        fields Let_def split: sum.splits option.splits)
  have amount: "Quantity (qi_quantity q) each = Inr (q_each (qi_quantity q))"
    using run q w1 keep1 held by (auto simp: ResolveQuarantineItemUseCase_def op_bind_eval op_seq_eval op_get_eval op_lift_eval
        fields Let_def split: sum.splits dest: Quantity_each_InrD)
  obtain taken where taken: "dispatchStock now (q_each (qi_quantity q)) held = (Inr (), taken)"
    using run q w1 keep1 held amount by (cases "dispatchStock now (q_each (qi_quantity q)) held")
      (auto simp: ResolveQuarantineItemUseCase_def op_bind_eval op_seq_eval op_get_eval op_lift_eval op_throw_eval
        fields Let_def split: sum.splits)
  obtain q' items w2 where branch: "resolve_branch uuid now pg_inventory crepo jrepo res q sku taken w1 = (Inr (q', items), w2)"
      and rest: "op_seq (save_both pg_inventory items) (on_rt_quarantine (save_quarantine qrepo q')) w2 = (Inr (), w')"
    using run q w1 keep1 held amount taken
    by (cases "resolve_branch uuid now pg_inventory crepo jrepo res q sku taken w1")
      (auto simp: ResolveQuarantineItemUseCase_def op_bind_eval op_seq_eval op_get_eval op_lift_eval
        fields Let_def split: sum.splits)
  have keep2: "rt_items w2 = rt_items w \<and> rt_quarantine w2 = rt_quarantine w"
    by (rule keepsD [where P = "\<lambda>x. rt_items x = rt_items w \<and> rt_quarantine x = rt_quarantine w", OF keeps_branch _ branch])
       (simp_all add: keep1)
  obtain w3 where w3: "save_both pg_inventory items w2 = (Inr (), w3)" "on_rt_quarantine (save_quarantine qrepo q') w3 = (Inr (), w')"
    using rest by (rule run_seqE)
  have "rt_quarantine w3 = rt_quarantine w"
    using w3(1) keep2 by (auto simp: save_both_def oper_simps split: if_splits prod.splits)
  with q keep1 held taken branch keep2 w3 show thesis by (intro that) auto
qed

lemma branch_status:
  assumes "resolve_branch uuid now irepo crepo jrepo res q sku taken w = (Inr (q', items), w')"
  shows "qi_status q = Quarantined_q \<and> qi_status q' \<noteq> Quarantined_q \<and> qi_id q' = qi_id q"
  using assms
  by (cases res) (auto simp: resolve_branch_def resolveRestock_def resolveScrap_def resolveRtv_def resolve_as_def oper_simps
      split: sum.splits prod.splits if_splits option.splits)

lemma stored_row: "pi_row s k = Some i \<Longrightarrow> stock_field f \<Longrightarrow> stored f s k = f (row_of i)"
  by (auto simp: pi_row_def stored_def row_item_def row_of_def stock_field_def InventoryItem_def split: option.splits)

lemma branch_restock:
  assumes "resolve_branch uuid now irepo crepo jrepo RESTOCK q sku taken w = (Inr (q', items), w')"
  obtains i i' where "receiveStock (q_each (qi_quantity q)) i = (Inr (), i')" and "items = AList.update (iid i') i' [(iid taken, taken)]"
    and "findBySkuAndLocation irepo (rt_items w) sku (qi_location q) = Inr (Some i)
      \<or> findBySkuAndLocation irepo (rt_items w) sku (qi_location q) = Inr None \<and> inventory_createNew (uuid 0) sku (qi_location q) = Inr i"
  using assms by (auto simp: resolve_branch_def oper_simps split: sum.splits prod.splits option.splits dest!: Quantity_each_InrD)

lemma branch_gone:
  assumes "resolve_branch uuid now irepo crepo jrepo res q sku taken w = (Inr (q', items), w')" and "res \<noteq> RESTOCK"
  shows "items = [(iid taken, taken)]"
  using assms by (cases res) (auto simp: resolve_branch_def oper_simps split: sum.splits prod.splits)

lemma save_both_pg:
  assumes "save_both pg_inventory items w = (Inr (), w')" and "items \<noteq> []"
  shows "pi_saveBatch (map snd items) (rt_items w) = (Inr (), rt_items w')"
  using assms by (auto simp: save_both_def oper_simps pg_inventory_def split: prod.splits)

lemma resolution_stock:
  assumes run: "ResolveQuarantineItemUseCase uuid now qrepo pg_inventory crepo jrepo prepo arepo qid res tenantId actorId w = (Inr (), w')"
    and inv: "pi_inv (rt_items w)" and new: "uuid 0 \<notin> row_id ` set (rows (rt_items w))"
    and found: "find_quarantine qrepo (rt_quarantine w) qid = Inr (Some q)"
  shows "stock_moved (rt_items w) (rt_items w') 0 (if res = RESTOCK then 0 else - qi_quantity q)"
proof (rule resolve_useE [OF run])
  fix q0 sku w1 held taken q' items w2 w3
  assume load: "load_quarantine qrepo prepo qid w = (Inr (q0, sku), w)" and w1: "rt_items w1 = rt_items w"
    and held: "pi_findBySkuAndLocation (rt_items w) sku (qi_location q0 @ ''-quarantine'') = Inr (Some held)"
    and taken: "dispatchStock now (q_each (qi_quantity q0)) held = (Inr (), taken)"
    and branch: "resolve_branch uuid now pg_inventory crepo jrepo res q0 sku taken w1 = (Inr (q', items), w2)"
    and w2: "rt_items w2 = rt_items w" and save: "save_both pg_inventory items w2 = (Inr (), w3)"
    and last: "on_rt_quarantine (save_quarantine qrepo q') w3 = (Inr (), w')"
  let ?s = "rt_items w"
  have [simp]: "q0 = q" using load found by (auto simp: load_quarantine_def oper_simps split: sum.splits if_splits)
  have "rt_items w' = rt_items w3" using last by (auto simp: oper_simps split: prod.splits)
  have pf: "findBySkuAndLocation pg_inventory = pi_findBySkuAndLocation" by (simp add: pg_inventory_def)
  note at_row = pi.find_found [OF inv, unfolded pf]
  have d: "distinct (map row_id (rows ?s))" using inv by (simp add: pi_inv_def)
  have th: "iid taken = iid held" using version_calls(2) [OF taken] by simp
  have held_row: "stored f ?s (iid taken) = f (row_of held)" if "stock_field f" for f
    using stored_row [OF conjunct1 [OF at_row [OF held]] that] th by simp
  show ?thesis
  proof (cases "res = RESTOCK")
    case False
    then have "items = [(iid taken, taken)]" by (rule branch_gone [OF branch])
    with save_both_pg [OF save] w2 \<open>rt_items w' = rt_items w3\<close>
    have sv: "pi_saveBatch [taken] ?s = (Inr (), rt_items w')" by simp
    have "stock_sum f (rt_items w') = stock_sum f ?s + (f (row_of taken) - f (row_of held))" if "stock_field f" for f
      using pi_saveBatch_sum [OF sv _ d that] held_row [OF that] by simp
    then show ?thesis using call_on_row(5) [OF taken] False by (simp add: stock_moved_def stock_field_def)
  next
    case True
    from branch [unfolded True] obtain i i' where i: "receiveStock (q_each (qi_quantity q)) i = (Inr (), i')"
        "items = AList.update (iid i') i' [(iid taken, taken)]"
        "pi_findBySkuAndLocation ?s sku (qi_location q) = Inr (Some i)
         \<or> pi_findBySkuAndLocation ?s sku (qi_location q) = Inr None \<and> inventory_createNew (uuid 0) sku (qi_location q) = Inr i"
      by (rule branch_restock) (simp add: pf w1)
    have same: "iid i' = iid i" using version_calls(1) [OF i(1)] by simp
    have i_row: "iid i \<noteq> iid held \<and> (stock_field f \<longrightarrow> stored f ?s (iid i) = f (row_of i))" for f
      using i(3)
    proof
      assume f: "pi_findBySkuAndLocation ?s sku (qi_location q) = Inr (Some i)"
      have "iid i \<noteq> iid held"
      proof
        assume "iid i = iid held"
        with conjunct1 [OF at_row [OF f]] conjunct1 [OF at_row [OF held]] have "i = held" by (metis option.inject)
        moreover have "ilocationId i = qi_location q" "ilocationId held = qi_location q @ ''-quarantine''"
          using at_row [OF f] at_row [OF held] by simp_all
        ultimately show False by (metis append_self_conv list.distinct(1))
      qed
      with stored_row [OF conjunct1 [OF at_row [OF f]]] show ?thesis by blast
    next
      assume f: "pi_findBySkuAndLocation ?s sku (qi_location q) = Inr None \<and> inventory_createNew (uuid 0) sku (qi_location q) = Inr i"
      have none: "find (\<lambda>r. row_id r = uuid 0) (rows ?s) = None" using new unfolding image_iff find_None_iff by metis
      then have "pi_row ?s (uuid 0) = None" by (simp add: pi_row_def)
      moreover have "pi_row ?s (iid held) = Some held" using at_row [OF held] by simp
      ultimately have "uuid 0 \<noteq> iid held" by auto
      moreover have "iid i = uuid 0" using createNew_row [OF conjunct2 [OF f], of row_quantity] by simp
      ultimately show ?thesis using none createNew_row [OF conjunct2 [OF f], of f] by (simp add: stored_def)
    qed
    have two: "map snd items = [taken, i']" "iid taken \<noteq> iid i'" using i(2) i_row th same by auto
    with save_both_pg [OF save] w2 \<open>rt_items w' = rt_items w3\<close> i(2)
    have sv: "pi_saveBatch [taken, i'] ?s = (Inr (), rt_items w')" by auto
    have "stock_sum f (rt_items w') = stock_sum f ?s + (f (row_of taken) - f (row_of held)) + (f (row_of i') - f (row_of i))"
      if "stock_field f" for f
      using pi_saveBatch_sum [OF sv _ d that] held_row [OF that] i_row [of f] two(2) that same by simp
    then show ?thesis using call_on_row(5) [OF taken] call_on_row(4) [OF i(1)] True by (simp add: stock_moved_def stock_field_def)
  qed
qed

text \<open>\<open>same_books w w'\<close>: stock, layers, journal and quarantine are the same (requests for approval may differ).\<close>

definition same_books :: "('r, 'i, 'c, 'q, 'b, 's, 'a) return_world \<Rightarrow> ('r, 'i, 'c, 'q, 'b, 's, 'a) return_world \<Rightarrow> bool" where
  "same_books w w' \<longleftrightarrow> rt_items w' = rt_items w \<and> rt_layers w' = rt_layers w \<and> rt_books w' = rt_books w
     \<and> rt_quarantine w' = rt_quarantine w"

lemma intercept_same_books:
  assumes "intercept_scrap uuid now crepo arepo res q tenantId actorId w = (x, w')"
  shows "same_books w w'"
  by (rule keepsD [where P = "same_books w", OF keeps_intercept _ assms]) (simp_all add: same_books_def)

lemma branch_refused:
  assumes "qi_status q \<noteq> Quarantined_q"
  shows "\<exists>e. resolve_branch uuid now irepo crepo jrepo res q sku taken w = (Inl e, w)"
  using assms
  by (cases res) (simp_all add: resolve_branch_def resolveRestock_def resolveScrap_def resolveRtv_def resolve_as_def oper_simps)

lemma resolved_throws:
  assumes resolved: "\<And>q. find_quarantine qrepo (rt_quarantine w) qid = Inr (Some q) \<Longrightarrow> qi_status q \<noteq> Quarantined_q"
    and run: "ResolveQuarantineItemUseCase uuid now qrepo irepo crepo jrepo prepo arepo qid res tenantId actorId w = (x, w')"
  shows "(\<exists>e. x = Inl e) \<and> same_books w w'"
proof (cases "fst (load_quarantine qrepo prepo qid w)")
  case (Inl e)
  then have "load_quarantine qrepo prepo qid w = (Inl e, w)" by (metis load_quarantine_same prod.collapse)
  with run show ?thesis by (auto simp: ResolveQuarantineItemUseCase_def op_bind_eval same_books_def)
next
  case (Inr p)
  obtain q sku where p: "p = (q, sku)" by fastforce
  have load: "load_quarantine qrepo prepo qid w = (Inr (q, sku), w)" by (metis Inr p load_quarantine_same prod.collapse)
  have st: "qi_status q \<noteq> Quarantined_q"
    using load resolved by (auto simp: load_quarantine_def oper_simps split: sum.splits option.splits if_splits)
  obtain y w1 where w1: "intercept_scrap uuid now crepo arepo res q tenantId actorId w = (y, w1)" by fastforce
  note same = intercept_same_books [OF w1]
  show ?thesis
  proof (cases y)
    case (Inl e)
    with run load w1 same show ?thesis by (auto simp: ResolveQuarantineItemUseCase_def op_bind_eval op_seq_eval)
  next
    case (Inr u)
    have branch: "\<exists>e. resolve_branch uuid now irepo crepo jrepo res q sku taken w1 = (Inl e, w1)" for taken
      using st by (rule branch_refused)
    define loc where "loc = qi_location q @ ''-quarantine''"
    from run load w1 Inr have tail: "op_bind (op_get (\<lambda>w. op_lift (findBySkuAndLocation irepo (rt_items w) sku loc))) (\<lambda>found.
        case found of
          None \<Rightarrow> op_throw (Error ''Quarantine stock not found for variant {} at {}.'' [S (qi_variant q), S loc])
        | Some held \<Rightarrow>
          op_bind (op_lift (Quantity (qi_quantity q) each)) (\<lambda>amount.
          case dispatchStock now amount held of
            (Inl e, taken) \<Rightarrow> op_throw e
          | (Inr _, taken) \<Rightarrow>
            op_bind (resolve_branch uuid now irepo crepo jrepo res q sku taken) (\<lambda>(q', itemsToSave).
            op_seq (save_both irepo itemsToSave) (on_rt_quarantine (save_quarantine qrepo q'))))) w1 = (x, w')"
      unfolding loc_def by (simp add: ResolveQuarantineItemUseCase_def op_bind_eval op_seq_eval Let_def)
    show ?thesis
    proof (cases "\<exists>held amount taken. findBySkuAndLocation irepo (rt_items w1) sku loc = Inr (Some held)
        \<and> Quantity (qi_quantity q) each = Inr amount \<and> dispatchStock now amount held = (Inr (), taken)")
      case True
      then obtain held amount taken where t: "findBySkuAndLocation irepo (rt_items w1) sku loc = Inr (Some held)"
          "Quantity (qi_quantity q) each = Inr amount" "dispatchStock now amount held = (Inr (), taken)" by blast
      from branch [of taken] obtain e where "resolve_branch uuid now irepo crepo jrepo res q sku taken w1 = (Inl e, w1)" ..
      with tail t same show ?thesis by (auto simp: op_bind_eval op_get_eval op_lift_eval op_return_eval)
    next
      case False
      with tail same show ?thesis
        by (auto simp: op_bind_eval op_get_eval op_lift_eval op_throw_eval op_return_eval split: sum.splits option.splits prod.splits)
    qed
  qed
qed

lemma mq_cloneItem_status: "mq_cloneItem q = Inr c \<Longrightarrow> qi_status c = qi_status q \<and> qi_id c = qi_id q"
  by (auto simp: mq_cloneItem_def QuarantineItem_def QuarantineItemId_def make_id_def result_bind_Inr_iff split: if_splits)

lemma resolution_marks:
  assumes "ResolveQuarantineItemUseCase uuid now mem_quarantine pg_inventory crepo jrepo prepo arepo qid res tenantId actorId w = (Inr (), w')"
    and "find_quarantine mem_quarantine (rt_quarantine w) qid = Inr (Some q)" and "qi_id q = qid"
    and "find_quarantine mem_quarantine (rt_quarantine w') qid = Inr (Some q2)"
  shows "qi_status q2 \<noteq> Quarantined_q"
proof (rule resolve_useE [OF assms(1)])
  fix q0 sku w1 taken q' items w2 w3
  assume load: "load_quarantine mem_quarantine prepo qid w = (Inr (q0, sku), w)"
    and branch: "resolve_branch uuid now pg_inventory crepo jrepo res q0 sku taken w1 = (Inr (q', items), w2)"
    and last: "on_rt_quarantine (save_quarantine mem_quarantine q') w3 = (Inr (), w')"
  have "q0 = q" using load assms(2) by (auto simp: load_quarantine_def oper_simps split: sum.splits if_splits)
  with branch_status [OF branch] assms(3) have q': "qi_status q' \<noteq> Quarantined_q" "qi_id q' = qid" by auto
  obtain c where "mq_cloneItem q' = Inr c" "rt_quarantine w' = AList.update qid c (rt_quarantine w3)"
    using last q'(2) by (auto simp: mem_quarantine_def mq_save_def oper_simps split: sum.splits prod.splits)
  with assms(4) q'(1) mq_cloneItem_status show ?thesis
    by (auto simp: mem_quarantine_def mq_findById_def result_bind_Inr_iff)
qed

text \<open>
  What the end of a quarantine does to the stock in the database: restocking moves the units
  from the quarantine location to the location of the return, so what is on hand stays the same; scrapping
  and sending back to the vendor take exactly the quantity in quarantine off. Reserved and in-transit
  stock is not touched.
\<close>

theorem quarantine_resolution_stock:
  assumes "ResolveQuarantineItemUseCase uuid now qrepo pg_inventory crepo jrepo prepo arepo qid res tenantId actorId w = (Inr (), w')"
    and "pi_inv (rt_items w)" and "uuid 0 \<notin> row_id ` set (rows (rt_items w))"
    and "find_quarantine qrepo (rt_quarantine w) qid = Inr (Some q)"
  shows "stock_moved (rt_items w) (rt_items w') 0 (if res = RESTOCK then 0 else - qi_quantity q)"
  by (rule resolution_stock [OF assms])

text \<open>
  An item in quarantine is resolved once: after a resolution that returned, every further
  one for the same item, with whatever resolution, throws and leaves stock, cost layers, journal and
  quarantine as they were.
\<close>

theorem quarantine_resolved_once:
  assumes "ResolveQuarantineItemUseCase uuid now mem_quarantine pg_inventory crepo jrepo prepo arepo qid res tenantId actorId w = (Inr (), w')"
    and "find_quarantine mem_quarantine (rt_quarantine w) qid = Inr (Some q)" and "qi_id q = qid"
    and "ResolveQuarantineItemUseCase uuid2 now2 mem_quarantine pg_inventory crepo jrepo prepo arepo qid res2 tenantId2 actorId2 w' = (x, w2)"
  shows "(\<exists>e. x = Inl e) \<and> same_books w' w2"
  using resolved_throws [OF resolution_marks [OF assms(1-3)] assms(4)] by blast

definition quarantined_start ::
    "(rma_map, inventory_db, layer_table, quarantine_map, journal_db, serial_table, unit) return_world" where
  "quarantined_start = return_start\<lparr>
     rt_items := sample_db\<lparr>rows := rows sample_db @ [sample_row\<lparr>row_id := ''i9'', row_location := ''loc-1-quarantine''\<rparr>]\<rparr>,
     rt_quarantine := [(''q-1'', \<lparr>qi_id = ''q-1'', qi_variant = ''v1'', qi_quantity = 2, qi_reason = ''Damaged'',
       qi_location = ''loc-1'', qi_tenant = ''t1'', qi_status = Quarantined_q, qi_createdAt = 1, qi_resolvedAt = None\<rparr>)]\<rparr>"

abbreviation sample_resolution ::
    "resolution \<Rightarrow> ((rma_map, inventory_db, layer_table, quarantine_map, journal_db, serial_table, unit) return_world, unit) oper" where
  "sample_resolution res \<equiv> ResolveQuarantineItemUseCase (line_uuid 0) 5 mem_quarantine pg_inventory pg_layers (pg_journal no_digest)
     one_sku None ''q-1'' res None None"

lemma quarantined_runs: "fst (sample_resolution RESTOCK quarantined_start) = Inr ()"
  by code_simp

lemma quarantined_found: "find_quarantine mem_quarantine (rt_quarantine quarantined_start) ''q-1'' =
    Inr (Some (snd (hd (rt_quarantine quarantined_start))))"
  by code_simp

lemma quarantined_inv: "pi_inv (rt_items quarantined_start)"
  by code_simp

theorem quarantine_resolution_stock_witness:
  "\<exists>w'. sample_resolution RESTOCK quarantined_start = (Inr (), w') \<and> stock_moved (rt_items quarantined_start) (rt_items w') 0 0"
proof -
  obtain w' where run: "sample_resolution RESTOCK quarantined_start = (Inr (), w')" using quarantined_runs by (metis prod.collapse)
  have "line_uuid 0 0 \<notin> row_id ` set (rows (rt_items quarantined_start))" by code_simp
  from quarantine_resolution_stock [OF run quarantined_inv this quarantined_found] run show ?thesis by simp
qed

theorem quarantine_resolved_once_witness:
  "\<exists>w' e w2. sample_resolution RESTOCK quarantined_start = (Inr (), w') \<and> sample_resolution SCRAP w' = (Inl e, w2)
    \<and> same_books w' w2"
proof -
  obtain w' where run: "sample_resolution RESTOCK quarantined_start = (Inr (), w')" using quarantined_runs by (metis prod.collapse)
  obtain x w2 where run2: "sample_resolution SCRAP w' = (x, w2)" by fastforce
  have "qi_id (snd (hd (rt_quarantine quarantined_start))) = ''q-1''" by code_simp
  from quarantine_resolved_once [OF run quarantined_found this run2] run run2 show ?thesis by blast
qed

end
