(* ===== verification/Warehouse.thy ===== *)
theory Warehouse
  imports StockPosting ItemWork CostLayers
begin

text \<open>
  Warehouse locations and the services that decide where stock goes and where it is taken from:
  src/src/domain/entities/WarehouseLocation.ts, InMemoryWarehouseLocationRepository.ts, and of
  src/src/domain/services WMSCapacityService.ts, PutawaySuggester.ts, PickingRouteOptimizer.ts,
  FEFOPickingSuggester.ts, CrossDockingEngine.ts, with the use cases of ManageWarehouseRouting.ts.
  \<open>rank\<close> is the order that \<open>localeCompare(.., {numeric: true})\<close> gives to strings. An Infinity is \<open>None\<close>.
  A stable sort by several keys is a sequence of stable sorts, the last key first.
\<close>

section \<open>Locations\<close>

record warehouse_location =
  wl_id :: ident
  wl_warehouse :: ident
  wl_zone :: string
  wl_aisle :: string
  wl_rack :: string
  wl_shelf :: string
  wl_bin :: string
  wl_maxWeight :: number
  wl_maxVolume :: number

definition WarehouseLocation ::
    "ident \<Rightarrow> string \<Rightarrow> string \<Rightarrow> string \<Rightarrow> string \<Rightarrow> string \<Rightarrow> string \<Rightarrow> number \<Rightarrow> number \<Rightarrow> warehouse_location result" where
  "WarehouseLocation i warehouse zone aisle rack shelf bin maxWeight maxVolume =
     result_bind (WarehouseId warehouse) (\<lambda>w.
     if is_blank zone then Inl (Error ''Zone cannot be empty.'' [])
     else if is_blank aisle then Inl (Error ''Aisle cannot be empty.'' [])
     else if is_blank rack then Inl (Error ''Rack cannot be empty.'' [])
     else if is_blank shelf then Inl (Error ''Shelf cannot be empty.'' [])
     else if is_blank bin then Inl (Error ''Bin cannot be empty.'' [])
     else if maxWeight \<le> 0 then Inl (Error ''Max weight must be greater than zero.'' [])
     else if maxVolume \<le> 0 then Inl (Error ''Max volume must be greater than zero.'' [])
     else Inr \<lparr>wl_id = i, wl_warehouse = w, wl_zone = zone, wl_aisle = aisle, wl_rack = rack, wl_shelf = shelf,
       wl_bin = bin, wl_maxWeight = maxWeight, wl_maxVolume = maxVolume\<rparr>)"

text \<open>\<open>path.split('-')\<close>\<close>

fun js_split :: "char \<Rightarrow> string \<Rightarrow> string list" where
  "js_split c [] = [[]]"
| "js_split c (x # xs) = (if x = c then [] # js_split c xs
     else (case js_split c xs of [] \<Rightarrow> [[x]] | p # ps \<Rightarrow> (x # p) # ps))"

definition parsePath :: "string \<Rightarrow> number option \<Rightarrow> number option \<Rightarrow> warehouse_location result" where
  "parsePath path maxWeight maxVolume = (let parts = js_split (CHR ''-'') path in
     if length parts < 6
     then Inl (Error ''Invalid location path format. Expected: WH-ZONE-AISLE-RACK-SHELF-BIN'' [])
     else result_bind (LocationId path) (\<lambda>i.
       WarehouseLocation i (parts ! 0) (parts ! 1) (parts ! 2) (parts ! 3) (parts ! 4) (parts ! 5)
         (case maxWeight of None \<Rightarrow> 1000000 | Some w \<Rightarrow> w) (case maxVolume of None \<Rightarrow> 10 | Some v \<Rightarrow> v)))"

definition wl_path :: "warehouse_location \<Rightarrow> string" where
  "wl_path l = wl_id l"

record 'l location_repo =
  save_location :: "warehouse_location \<Rightarrow> ('l, unit) oper"
  find_location :: "'l \<Rightarrow> ident \<Rightarrow> warehouse_location option result"
  delete_location :: "ident \<Rightarrow> ('l, unit) oper"
  find_locations :: "'l \<Rightarrow> ident list \<Rightarrow> warehouse_location list result"
  all_locations :: "'l \<Rightarrow> warehouse_location list result"

type_synonym location_map = "(ident, warehouse_location) js_map"

definition cloneLocation :: "warehouse_location \<Rightarrow> warehouse_location result" where
  "cloneLocation l = result_bind (LocationId (wl_id l)) (\<lambda>i.
     WarehouseLocation i (wl_warehouse l) (wl_zone l) (wl_aisle l) (wl_rack l) (wl_shelf l) (wl_bin l)
       (wl_maxWeight l) (wl_maxVolume l))"

definition ml_save :: "warehouse_location \<Rightarrow> (location_map, unit) oper" where
  "ml_save l = op_modify (AList.update (wl_id l) l)"

definition ml_findById :: "location_map \<Rightarrow> ident \<Rightarrow> warehouse_location option result" where
  "ml_findById m i = (case map_of m i of None \<Rightarrow> Inr None | Some l \<Rightarrow> result_bind (cloneLocation l) (Inr \<circ> Some))"

definition ml_delete :: "ident \<Rightarrow> (location_map, unit) oper" where
  "ml_delete i = op_modify (AList.delete i)"

definition ml_findByIds :: "location_map \<Rightarrow> ident list \<Rightarrow> warehouse_location list result" where
  "ml_findByIds m is = result_map cloneLocation (List.map_filter (map_of m) is)"

definition ml_findAll :: "location_map \<Rightarrow> warehouse_location list result" where
  "ml_findAll m = result_map cloneLocation (map snd m)"

definition mem_locations :: "location_map location_repo" where
  "mem_locations = \<lparr>save_location = ml_save, find_location = ml_findById, delete_location = ml_delete,
     find_locations = ml_findByIds, all_locations = ml_findAll\<rparr>"

section \<open>Capacity\<close>

datatype adjustment_mode = Relative | Absolute

record capacity_adjustment =
  ad_sku :: string
  ad_mode :: adjustment_mode
  ad_quantity :: number

definition apply_adjustment :: "capacity_adjustment \<Rightarrow> (string, number) js_map \<Rightarrow> (string, number) js_map" where
  "apply_adjustment a m = (case ad_mode a of
     Absolute \<Rightarrow> AList.update (ad_sku a) (ad_quantity a) m
   | Relative \<Rightarrow> AList.update (ad_sku a) (lookup_or 0 m (ad_sku a) + ad_quantity a) m)"

definition quantityMap :: "inventory_item list \<Rightarrow> capacity_adjustment list \<Rightarrow> (string, number) js_map" where
  "quantityMap items adjustments =
     fold apply_adjustment adjustments (fold (\<lambda>i m. AList.update (isku i) (amount (on_hand i)) m) items [])"

definition total_load :: "(product_variant \<Rightarrow> number) \<Rightarrow> (string, product_variant) js_map \<Rightarrow> (string, number) js_map \<Rightarrow> number" where
  "total_load weight vs m = fold (\<lambda>(sku, q) sum. if q \<le> 0 then sum
     else (case map_of vs sku of None \<Rightarrow> sum | Some v \<Rightarrow> sum + q * weight v)) m 0"

definition activeSkus :: "(string, number) js_map \<Rightarrow> string list" where
  "activeSkus m = map fst (filter (\<lambda>(sku, q). q > 0) m)"

definition validateCapacity ::
    "'i inventory_repo \<Rightarrow> product_repo \<Rightarrow> 'l location_repo \<Rightarrow> 'i \<Rightarrow> 'l \<Rightarrow> string \<Rightarrow> capacity_adjustment list \<Rightarrow> unit result" where
  "validateCapacity irepo prepo lrepo s l loc adjustments =
     result_bind (LocationId loc) (\<lambda>i. result_bind (find_location lrepo l i) (\<lambda>found. case found of
       None \<Rightarrow> Inr ()
     | Some location \<Rightarrow> result_bind (findItemsAt irepo s loc) (\<lambda>currentItems.
         let m = quantityMap currentItems adjustments in
         result_bind (result_map Sku (activeSkus m)) (\<lambda>skus.
         if length skus = 0 then Inr ()
         else let vs = variantMap (activeSkus m) (find_by_skus prepo skus);
                  totalWeight = total_load pv_weightGrams vs m; totalVolume = total_load pv_volumeCubicMeters vs m in
           if wl_maxWeight location < totalWeight
           then Inl (CapacityExceededError loc ''weight'' (wl_maxWeight location) totalWeight)
           else if wl_maxVolume location < totalVolume
           then Inl (CapacityExceededError loc ''volume'' (wl_maxVolume location) totalVolume)
           else Inr ()))))"

section \<open>Putaway\<close>

definition lower_letter :: "char \<Rightarrow> char" where
  "lower_letter c = (if is_upper c then char_of ((of_char c :: nat) + 32) else c)"

definition toLowerCase :: "string \<Rightarrow> string" where
  "toLowerCase s = map lower_letter s"

text \<open>\<open>undefined\<close> and the empty string are falsy.\<close>

definition given :: "string option \<Rightarrow> bool" where
  "given a \<longleftrightarrow> a \<noteq> None \<and> a \<noteq> Some []"

definition attribute_value :: "string \<Rightarrow> variant_attribute list \<Rightarrow> string option" where
  "attribute_value name attrs = fold (\<lambda>a r. if attr_name a = name then Some (attr_value a) else r) attrs None"

record putaway_recommendation =
  pa_location :: ident
  pa_quantity :: number
  pa_weight :: number
  pa_volume :: number

record putaway_candidate =
  pc_location :: warehouse_location
  pc_weight :: number
  pc_volume :: number
  pc_score :: number

definition zone_allowed :: "string option \<Rightarrow> string option \<Rightarrow> warehouse_location \<Rightarrow> bool" where
  "zone_allowed temp hazard l \<longleftrightarrow>
     \<not> (given temp \<and> toLowerCase (wl_zone l) \<noteq> toLowerCase (the temp))
     \<and> \<not> (given hazard \<and> toLowerCase (wl_zone l) \<noteq> ''hazmat'')
     \<and> \<not> (\<not> given hazard \<and> toLowerCase (wl_zone l) = ''hazmat'')"

definition putaway_score :: "string option \<Rightarrow> string option \<Rightarrow> string option \<Rightarrow> warehouse_location \<Rightarrow> number" where
  "putaway_score temp hazard velocity l =
     (if given temp \<and> toLowerCase (wl_zone l) = toLowerCase (the temp) then 100 else 0)
     + (if given hazard \<and> toLowerCase (wl_zone l) = ''hazmat'' then 200 else 0)
     + (if given velocity \<and> toLowerCase (the velocity) = ''fast-moving''
        then (if toLowerCase (wl_zone l) = ''fast'' then 50 else 0)
          + (if wl_aisle l \<in> {''A01'', ''A02'', ''A03''} then 30 else 0)
        else 0)"

definition occupancy :: "(string, product_variant) js_map \<Rightarrow> inventory_item list \<Rightarrow> (ident, number \<times> number) js_map" where
  "occupancy vs items = fold (\<lambda>i m. case map_of vs (isku i) of None \<Rightarrow> m
     | Some v \<Rightarrow> (case lookup_or (0, 0) m (ilocationId i) of (weight, volume) \<Rightarrow>
         AList.update (ilocationId i) (weight + amount (on_hand i) * pv_weightGrams v,
           volume + amount (on_hand i) * pv_volumeCubicMeters v) m)) items []"

definition eligible ::
    "string option \<Rightarrow> string option \<Rightarrow> string option \<Rightarrow> (ident, number \<times> number) js_map \<Rightarrow> warehouse_location list
     \<Rightarrow> putaway_candidate list" where
  "eligible temp hazard velocity occ ls = List.map_filter (\<lambda>l.
     let remainingWeight = wl_maxWeight l - fst (lookup_or (0, 0) occ (wl_id l));
         remainingVolume = wl_maxVolume l - snd (lookup_or (0, 0) occ (wl_id l)) in
     if remainingWeight \<le> 0 \<or> remainingVolume \<le> 0 then None
     else Some \<lparr>pc_location = l, pc_weight = remainingWeight, pc_volume = remainingVolume,
       pc_score = putaway_score temp hazard velocity l\<rparr>) ls"

text \<open>\<open>Number(x.toFixed(5))\<close> of a positive number.\<close>

definition to_fixed5 :: "number \<Rightarrow> number" where
  "to_fixed5 x = js_round (x * 100000) / 100000"

definition units_that_fit :: "number \<Rightarrow> number \<Rightarrow> number option" where
  "units_that_fit remaining per_unit = (if 0 < per_unit then Some (js_floor (to_fixed5 (remaining / per_unit))) else None)"

fun min_units :: "number option \<Rightarrow> number option \<Rightarrow> number option" where
  "min_units None b = b"
| "min_units (Some a) None = Some a"
| "min_units (Some a) (Some b) = Some (min a b)"

definition maxUnitsToFit :: "product_variant \<Rightarrow> putaway_candidate \<Rightarrow> number option" where
  "maxUnitsToFit v c = min_units (units_that_fit (pc_weight c) (pv_weightGrams v))
     (units_that_fit (pc_volume c) (pv_volumeCubicMeters v))"

fun allocate_putaway :: "product_variant \<Rightarrow> putaway_candidate list \<Rightarrow> number \<Rightarrow> putaway_recommendation list \<times> number" where
  "allocate_putaway v [] remaining = ([], remaining)"
| "allocate_putaway v (c # cs) remaining =
     (if remaining \<le> 0 then ([], remaining)
      else case maxUnitsToFit v c of
        Some m \<Rightarrow> if m \<le> 0 then allocate_putaway v cs remaining
          else (let q = min remaining m; (rs, left) = allocate_putaway v cs (remaining - q) in
            (\<lparr>pa_location = wl_id (pc_location c), pa_quantity = q, pa_weight = pc_weight c - q * pv_weightGrams v,
              pa_volume = pc_volume c - q * pv_volumeCubicMeters v\<rparr> # rs, left))
      | None \<Rightarrow> (let q = remaining; (rs, left) = allocate_putaway v cs (remaining - q) in
            (\<lparr>pa_location = wl_id (pc_location c), pa_quantity = q, pa_weight = pc_weight c - q * pv_weightGrams v,
              pa_volume = pc_volume c - q * pv_volumeCubicMeters v\<rparr> # rs, left)))"

definition variant_of :: "product_repo \<Rightarrow> string \<Rightarrow> product_variant result" where
  "variant_of prepo sku = (case find_by_sku prepo sku of
     None \<Rightarrow> Inl (Error ''Product variant with SKU {} not found.'' [S sku])
   | Some p \<Rightarrow> (case findVariantBySku p sku of
       None \<Rightarrow> Inl (Error ''Product variant with SKU {} not found.'' [S sku]) | Some v \<Rightarrow> Inr v))"

definition putaway_candidates ::
    "product_repo \<Rightarrow> product_variant \<Rightarrow> warehouse_location list \<Rightarrow> inventory_item list \<Rightarrow> putaway_candidate list" where
  "putaway_candidates prepo v locations allItems =
     (let temp = attribute_value ''temperatureZone'' (pv_attributes v);
          hazard = attribute_value ''hazardClass'' (pv_attributes v);
          velocity = attribute_value ''velocity'' (pv_attributes v);
          skus = js_set (map isku allItems);
          vs = variantMap skus (if length skus > 0 then find_by_skus prepo skus else []) in
      sort_key (\<lambda>c. - pc_score c) (sort_key (\<lambda>c. - pc_weight c)
        (eligible temp hazard velocity (occupancy vs allItems) locations)))"

definition allowed_locations :: "product_variant \<Rightarrow> warehouse_location list \<Rightarrow> warehouse_location list" where
  "allowed_locations v ls = filter (zone_allowed (attribute_value ''temperatureZone'' (pv_attributes v))
     (attribute_value ''hazardClass'' (pv_attributes v))) ls"

definition suggestPutaway ::
    "'i inventory_repo \<Rightarrow> product_repo \<Rightarrow> 'l location_repo \<Rightarrow> 'i \<Rightarrow> 'l \<Rightarrow> string \<Rightarrow> number
     \<Rightarrow> putaway_recommendation list result" where
  "suggestPutaway irepo prepo lrepo s l sku quantity =
     (if quantity \<le> 0 then Inl (Error ''Quantity to put away must be positive.'' [])
      else result_bind (variant_of prepo sku) (\<lambda>v. result_bind (all_locations lrepo l) (\<lambda>allLocations.
        let locations = allowed_locations v allLocations in
        if length allLocations = 0 \<or> length locations = 0 then Inr []
        else result_bind (findItemsAtBatch irepo s (map wl_id locations)) (\<lambda>allItems.
          case allocate_putaway v (putaway_candidates prepo v locations allItems) quantity of (recommendations, left) \<Rightarrow>
          if left > 0
          then Inl (Error ''Insufficient warehouse capacity to put away the entire quantity of {} units for SKU {}.''
            [N quantity, S sku])
          else Inr recommendations))))"

definition GetPutawayRecommendationsUseCase ::
    "'i inventory_repo \<Rightarrow> product_repo \<Rightarrow> 'l location_repo \<Rightarrow> 'i \<Rightarrow> 'l \<Rightarrow> string \<Rightarrow> number
     \<Rightarrow> putaway_recommendation list result" where
  "GetPutawayRecommendationsUseCase irepo prepo lrepo s l skuStr quantity =
     result_bind (Sku skuStr) (\<lambda>sku. suggestPutaway irepo prepo lrepo s l sku quantity)"

section \<open>Paths\<close>

fun join_path :: "char \<Rightarrow> string list \<Rightarrow> string" where
  "join_path c [] = []"
| "join_path c [p] = p"
| "join_path c (p # q # ps) = p @ c # join_path c (q # ps)"

lemma js_split_nonempty [simp]: "js_split c s \<noteq> []"
  by (induction s) (auto split: list.splits)

lemma join_grow: "join_path c ((x # p) # ps) = x # join_path c (p # ps)" "ps \<noteq> [] \<Longrightarrow> join_path c ([] # ps) = c # join_path c ps"
  by (cases ps, simp_all)+

lemma join_split: "join_path c (js_split c s) = s"
  by (induction s) (auto simp: join_grow split: list.splits)

lemma split_part: "c \<notin> set p \<Longrightarrow> js_split c (p @ s) = (p @ hd (js_split c s)) # tl (js_split c s)"
  by (induction p) (auto split: list.splits simp: neq_Nil_conv)

lemma split_join: "ps \<noteq> [] \<Longrightarrow> \<forall>p\<in>set ps. c \<notin> set p \<Longrightarrow> js_split c (join_path c ps) = ps"
proof (induction ps rule: join_path.induct)
  case (2 c p)
  then show ?case using split_part [of c p "[]"] by simp
next
  case (3 c p q ps)
  then show ?case using split_part [of c p "c # join_path c (q # ps)"] by simp
qed simp

lemma split_parts_clean: "\<forall>p\<in>set (js_split c s). c \<notin> set p"
  by (induction s) (auto split: list.splits)

text \<open>
  Location paths round-trip. Parts without a dash, of which the first six are not blank, joined by
  dashes parse to the location with those parts, whose path is the text parsed; and every text that
  parses is such a join.
\<close>

theorem parse_path_roundtrip:
  shows "parsePath path w v = Inr l \<longleftrightarrow>
    (\<exists>wh zone aisle rack shelf bin rest. path = join_path (CHR ''-'') ([wh, zone, aisle, rack, shelf, bin] @ rest)
      \<and> (\<forall>p \<in> {wh, zone, aisle, rack, shelf, bin} \<union> set rest. CHR ''-'' \<notin> set p)
      \<and> \<not> is_blank path \<and> \<not> is_blank wh \<and> \<not> is_blank zone \<and> \<not> is_blank aisle \<and> \<not> is_blank rack \<and> \<not> is_blank shelf \<and> \<not> is_blank bin
      \<and> 0 < wl_maxWeight l \<and> 0 < wl_maxVolume l
      \<and> l = \<lparr>wl_id = path, wl_warehouse = wh, wl_zone = zone, wl_aisle = aisle, wl_rack = rack, wl_shelf = shelf, wl_bin = bin,
          wl_maxWeight = (case w of None \<Rightarrow> 1000000 | Some x \<Rightarrow> x), wl_maxVolume = (case v of None \<Rightarrow> 10 | Some x \<Rightarrow> x)\<rparr>)"
    (is "_ \<longleftrightarrow> (\<exists>wh zone aisle rack shelf bin rest. ?parts wh zone aisle rack shelf bin rest)")
proof
  assume ok: "parsePath path w v = Inr l"
  define ps where "ps = js_split (CHR ''-'') path"
  have "6 \<le> length ps" using ok by (simp add: parsePath_def ps_def Let_def split: if_splits)
  then obtain wh zone aisle rack shelf bin rest where ps: "ps = [wh, zone, aisle, rack, shelf, bin] @ rest"
    by (auto simp: numeral_eq_Suc Suc_le_length_iff)
  have path: "path = join_path (CHR ''-'') ps" by (simp add: ps_def join_split)
  have "\<forall>p\<in>set ps. CHR ''-'' \<notin> set p" unfolding ps_def by (rule split_parts_clean)
  with ok ps path have "?parts wh zone aisle rack shelf bin rest"
    unfolding parsePath_def ps_def [symmetric] Let_def
    by (auto simp: WarehouseLocation_def LocationId_def WarehouseId_def make_id_def result_bind_Inr_iff not_le split: if_splits)
  then show "\<exists>wh zone aisle rack shelf bin rest. ?parts wh zone aisle rack shelf bin rest" by blast
next
  assume "\<exists>wh zone aisle rack shelf bin rest. ?parts wh zone aisle rack shelf bin rest"
  then obtain wh zone aisle rack shelf bin rest where p: "?parts wh zone aisle rack shelf bin rest" by blast
  then have "js_split (CHR ''-'') path = [wh, zone, aisle, rack, shelf, bin] @ rest"
    using split_join [of "[wh, zone, aisle, rack, shelf, bin] @ rest" "CHR ''-''"] by simp
  with p show "parsePath path w v = Inr l"
    by (auto simp: parsePath_def WarehouseLocation_def LocationId_def WarehouseId_def make_id_def)
qed

theorem parse_path_roundtrip_witness:
  "parsePath ''WH1-COLD-A03-R02-S01-B10'' None None = Inr \<lparr>wl_id = ''WH1-COLD-A03-R02-S01-B10'', wl_warehouse = ''WH1'',
     wl_zone = ''COLD'', wl_aisle = ''A03'', wl_rack = ''R02'', wl_shelf = ''S01'', wl_bin = ''B10'',
     wl_maxWeight = 1000000, wl_maxVolume = 10\<rparr>"
  unfolding parse_path_roundtrip
  by (rule exI [of _ "''WH1''"], rule exI [of _ "''COLD''"], rule exI [of _ "''A03''"], rule exI [of _ "''R02''"],
      rule exI [of _ "''S01''"], rule exI [of _ "''B10''"], rule exI [of _ "[]"]) code_simp

section \<open>A receipt and the capacity of its location\<close>

text \<open>A catalogue in which a SKU names one variant.\<close>

definition all_variants :: "catalogue \<Rightarrow> product_variant list" where
  "all_variants ps = concat (map variants (map snd ps))"

definition unique_skus :: "catalogue \<Rightarrow> bool" where
  "unique_skus ps \<longleftrightarrow> (\<forall>v\<in>set (all_variants ps). \<forall>w\<in>set (all_variants ps). pv_sku v = pv_sku w \<longrightarrow> v = w)"

definition catalogue_variant :: "catalogue \<Rightarrow> string \<Rightarrow> product_variant option" where
  "catalogue_variant ps sku = find (\<lambda>v. pv_sku v = sku) (all_variants ps)"

lemma variantMap_lookup:
  "map_of (fold (\<lambda>v m. if pv_sku v \<in> K then AList.update (pv_sku v) v m else m) vs m) sku =
     (case find (\<lambda>v. pv_sku v = sku) (rev vs) of None \<Rightarrow> map_of m sku
      | Some v \<Rightarrow> if sku \<in> K then Some v else map_of m sku)"
proof (induction vs arbitrary: m)
  case (Cons v vs)
  then show ?case by (auto simp: find_append split: option.splits dest!: find_SomeD)
qed simp

lemma found_products:
  "set (mp_findBySkus ps skus) = {p \<in> snd ` set ps. \<exists>v\<in>set (variants p). pv_sku v \<in> set skus}"
proof -
  let ?f = "\<lambda>sku p results. if list_ex (\<lambda>v. pv_sku v = sku) (variants p) \<and> p \<notin> set results then results @ [p] else results"
  have inner: "set (fold (?f sku) qs rs) = set rs \<union> {p \<in> set qs. \<exists>v\<in>set (variants p). pv_sku v = sku}" for sku qs rs
    by (induction qs arbitrary: rs) (auto simp: list_ex_iff)
  have "set (fold (\<lambda>sku. fold (?f sku) (map snd ps)) ks rs) = set rs \<union> {p \<in> snd ` set ps. \<exists>v\<in>set (variants p). pv_sku v \<in> set ks}" for ks rs
    by (induction ks arbitrary: rs) (auto simp: inner)
  then show ?thesis by (simp add: mp_findBySkus_def)
qed

lemma variantMap_catalogue:
  assumes "unique_skus ps" and "sku \<in> set skus"
  shows "map_of (variantMap skus (mp_findBySkus ps skus)) sku = catalogue_variant ps sku"
proof -
  let ?vs = "concat (map variants (mp_findBySkus ps skus))"
  have sub: "v \<in> set ?vs \<Longrightarrow> v \<in> set (all_variants ps)" for v
    by (auto simp: found_products all_variants_def)
  have sup: "v \<in> set (all_variants ps) \<Longrightarrow> pv_sku v = sku \<Longrightarrow> v \<in> set ?vs" for v
    using assms(2) by (auto simp: found_products all_variants_def)
  show ?thesis
  proof (cases "find (\<lambda>v. pv_sku v = sku) (all_variants ps)")
    case None
    then have "find (\<lambda>v. pv_sku v = sku) (rev ?vs) = None" using sub by (auto simp: find_None_iff)
    with None show ?thesis by (simp add: variantMap_def variantMap_lookup catalogue_variant_def)
  next
    case (Some v)
    note v = find_SomeD [OF Some]
    have "find (\<lambda>v. pv_sku v = sku) (rev ?vs) \<noteq> None" using sup [of v] v by (auto simp: find_None_iff)
    then obtain u where u: "find (\<lambda>v. pv_sku v = sku) (rev ?vs) = Some u" by auto
    then have "u = v" using find_SomeD [OF u] sub [of u] v assms(1) by (auto simp: unique_skus_def)
    with Some u assms(2) show ?thesis by (simp add: variantMap_def variantMap_lookup catalogue_variant_def)
  qed
qed

text \<open>The weight (or volume) that the rows of a location stand for.\<close>

definition unit_load :: "(product_variant \<Rightarrow> number) \<Rightarrow> catalogue \<Rightarrow> string \<Rightarrow> number" where
  "unit_load weight ps sku = (case catalogue_variant ps sku of None \<Rightarrow> 0 | Some v \<Rightarrow> weight v)"

definition item_load :: "(product_variant \<Rightarrow> number) \<Rightarrow> catalogue \<Rightarrow> string \<Rightarrow> inventory_item \<Rightarrow> number" where
  "item_load weight ps loc i = (if ilocationId i = loc then amount (on_hand i) * unit_load weight ps (isku i) else 0)"

definition location_load :: "(product_variant \<Rightarrow> number) \<Rightarrow> catalogue \<Rightarrow> inventory_db \<Rightarrow> string \<Rightarrow> number" where
  "location_load weight ps s loc = (\<Sum>r\<leftarrow>rows s. item_load weight ps loc (row_item r))"

lemma rows_sum_ids:
  assumes "pi_inv s"
  shows "(\<Sum>r\<leftarrow>rows s. F (row_item r)) = (\<Sum>k\<in>dom (pi_row s). F (the (pi_row s k)) :: number)"
proof -
  have d: "distinct (map row_id (rows s))" using assms by (simp add: pi_inv_def)
  have row: "pi_row s (row_id r) = Some (row_item r)" if "r \<in> set (rows s)" for r
    using find_by_key [OF d that] by (simp add: pi_row_def)
  have "dom (pi_row s) \<subseteq> set (map row_id (rows s))" by (auto simp: pi_row_def dest!: find_SomeD)
  moreover have "set (map row_id (rows s)) \<subseteq> dom (pi_row s)" using row by (auto intro: domI)
  ultimately have dom: "dom (pi_row s) = set (map row_id (rows s))" by blast
  have "(\<Sum>r\<leftarrow>rows s. F (row_item r)) = (\<Sum>k\<leftarrow>map row_id (rows s). F (the (pi_row s k)))"
    using row by (auto intro!: arg_cong [where f = sum_list] simp: o_def)
  then show ?thesis using sum_list_distinct_conv_sum_set [OF d, of "\<lambda>k. F (the (pi_row s k))"] dom by simp
qed

lemma rows_sum_commit:
  assumes "pi_inv s" and "pi_inv s'" and "pi_row s' = (pi_row s)(k \<mapsto> x)"
  shows "(\<Sum>r\<leftarrow>rows s'. F (row_item r)) =
    (\<Sum>r\<leftarrow>rows s. F (row_item r)) - (case pi_row s k of None \<Rightarrow> 0 | Some old \<Rightarrow> F old) + (F x :: number)"
proof -
  have fin: "finite (dom (pi_row s))"
  proof -
    have "dom (pi_row s) \<subseteq> row_id ` set (rows s)" by (auto simp: pi_row_def dest!: find_SomeD)
    then show ?thesis by (rule finite_subset) simp
  qed
  have "(\<Sum>j\<in>dom (pi_row s'). F (the (pi_row s' j))) = F x + (\<Sum>j\<in>dom (pi_row s) - {k}. F (the (pi_row s j)))"
    using fin by (simp add: assms(3) sum.insert_remove)
  also have "(\<Sum>j\<in>dom (pi_row s) - {k}. F (the (pi_row s j))) =
      (\<Sum>j\<in>dom (pi_row s). F (the (pi_row s j))) - (case pi_row s k of None \<Rightarrow> 0 | Some old \<Rightarrow> F old)"
  proof (cases "pi_row s k")
    case (Some old)
    with fin show ?thesis by (simp add: sum_diff1 domI)
  next
    case None
    then have "dom (pi_row s) - {k} = dom (pi_row s)" by auto
    with None show ?thesis by simp
  qed
  finally show ?thesis by (simp add: rows_sum_ids [OF assms(1)] rows_sum_ids [OF assms(2)])
qed

text \<open>A receipt over the table, taken apart.\<close>

lemma receiptE:
  assumes run: "ReceiveStockUseCase uuid pg_inventory None sku loc a s = (Inr dto, s')"
    and inv: "pi_inv s" and ok: "Sku sku = Inr sku" "LocationId loc = Inr loc" "InventoryItemId (uuid 0) = Inr (uuid 0)"
    and fresh: "pi_row s (uuid 0) = None"
  obtains i j where "0 \<le> a" and "isku i = sku" and "ilocationId i = loc" and "same_stock j i" and "iid j = iid i"
    and "amount (on_hand j) = amount (on_hand i) + a" and "pi_inv s'" and "pi_row s' = (pi_row s)(iid i \<mapsto> norm_item j)"
    and "0 \<le> amount (on_hand i)"
    and "pi_findBySkuAndLocation s sku loc = Inr (Some i) \<and> pi_row s (iid i) = Some i
      \<or> pi_findBySkuAndLocation s sku loc = Inr None \<and> pi_row s (iid i) = None \<and> amount (on_hand i) = 0"
proof -
  note result = that
  obtain found where found: "pi_findBySkuAndLocation s sku loc = Inr found"
    using pi.find_total [OF inv] by (auto simp: pg_fields)
  have a: "0 \<le> a" "Quantity a each = Inr (q_each a)"
    using run by (auto simp: ReceiveStockUseCase_def oper_simps split: sum.splits dest: Quantity_each_InrD)
       (auto simp: Quantity_def split: if_splits)
  have step: thesis if i: "pi.ready s i" "isku i = sku" "ilocationId i = loc" "find_or_create uuid sku loc found = Inr i"
      and row: "pi_findBySkuAndLocation s sku loc = Inr (Some i) \<and> pi_row s (iid i) = Some i
        \<or> pi_findBySkuAndLocation s sku loc = Inr None \<and> pi_row s (iid i) = None \<and> amount (on_hand i) = 0" for i
  proof -
    obtain i' where call: "change_and_save pg_inventory (inventory_exec (Receive (q_each a))) i s = (Inr i', s')"
      using run found i(4) a(2)
      by (auto simp: ReceiveStockUseCase_def oper_simps pg_fields split: prod.splits sum.splits)
    have cmd: "command_ok (Receive (q_each a))" "command_in_unit each (Receive (q_each a))"
      using a by (simp_all add: command_ok_def command_in_unit_def q_ok_def q_each_def)
    obtain j where j: "abs_step (Receive (q_each a)) (view i) = Some (view j)" "pi.committed j s s'" "iid j = iid i" "same_stock j i"
      using pi.change_refines [OF inv i(1) cmd(1) _ cmd(2)] call by auto
    have "0 \<le> amount (on_hand i)" using i(1) by (simp add: pi.ready_def storable_def item_ok_def q_ok_def)
    then show thesis
      using result [OF a(1) i(2,3) j(4,3)] j row by (auto simp: pi.committed_def view_def)
  qed
  show thesis
  proof (cases found)
    case None
    obtain i where "find_or_create uuid sku loc None = Inr i" "pi.ready s i" "isku i = sku" "ilocationId i = loc"
        "view i = \<lparr>hand = 0, reserved = 0, incoming = 0\<rparr>" "iid i = uuid 0"
      by (rule pi.created_ready [where uuid = uuid, OF inv _ ok fresh]) (use found None in \<open>simp_all add: pg_fields\<close>)
    with step [of i] None found fresh show thesis by (simp add: view_def)
  next
    case (Some i)
    have "pi_row s (iid i) = Some i \<and> isku i = sku \<and> ilocationId i = loc"
      using pi.find_found [OF inv, of sku loc i] found Some by (simp add: pg_fields)
    with step [of i] Some found pi.current_ready [OF inv, of i] show thesis by (simp add: find_or_create_def)
  qed
qed

lemma update_keyed:
  "distinct (map f xs) \<Longrightarrow> f ` set xs \<inter> fst ` set m = {} \<Longrightarrow>
   fold (\<lambda>x m. AList.update (f x) (g x) m) xs m = m @ map (\<lambda>x. (f x, g x)) xs"
proof (induction xs arbitrary: m)
  case (Cons x xs)
  then have "f x \<notin> fst ` set m" by auto
  then have "AList.update (f x) (g x) m = m @ [(f x, g x)]" by (induction m) auto
  with Cons show ?case by auto
qed simp

lemma sum_list_update_key:
  fixes h :: "'k \<Rightarrow> 'v \<Rightarrow> number"
  shows "distinct (map fst m) \<Longrightarrow> (\<Sum>(k, v)\<leftarrow>AList.update key x m. h k v) =
     (\<Sum>(k, v)\<leftarrow>m. h k v) + h key x - (case map_of m key of None \<Rightarrow> 0 | Some old \<Rightarrow> h key old)"
proof (induction m)
  case (Cons p m)
  obtain k v where p: "p = (k, v)" by fastforce
  have "map_of m k = None" using Cons.prems by (simp add: p map_of_eq_None_iff)
  with Cons show ?case by (auto simp: p split: option.splits)
qed simp

definition planned_load :: "(product_variant \<Rightarrow> number) \<Rightarrow> catalogue \<Rightarrow> (string, number) js_map \<Rightarrow> number" where
  "planned_load weight ps m = (\<Sum>(k, q)\<leftarrow>m. max 0 q * unit_load weight ps k)"

lemma total_load_sum:
  assumes "\<And>k q. (k, q) \<in> set m \<Longrightarrow> 0 < q \<Longrightarrow> map_of vs k = catalogue_variant ps k"
  shows "total_load weight vs m = planned_load weight ps m"
proof -
  let ?f = "\<lambda>(sku, q) sum. if q \<le> 0 then sum else (case map_of vs sku of None \<Rightarrow> sum | Some v \<Rightarrow> sum + q * weight v)"
  have "fold ?f xs t = t + planned_load weight ps xs" if "set xs \<subseteq> set m" for xs t
    using that
  proof (induction xs arbitrary: t)
    case Nil
    then show ?case by (simp add: planned_load_def)
  next
    case (Cons p xs)
    obtain k q where p: "p = (k, q)" by fastforce
    with Cons.prems assms [of k q] have "0 < q \<Longrightarrow> map_of vs k = catalogue_variant ps k" by auto
    with Cons show ?case by (auto simp: p planned_load_def unit_load_def not_le max_def split: option.splits)
  qed
  then show ?thesis by (simp add: total_load_def)
qed

lemma location_positive: "find_location mem_locations locs i = Inr (Some l) \<Longrightarrow> 0 < wl_maxWeight l \<and> 0 < wl_maxVolume l"
  by (auto simp: mem_locations_def ml_findById_def cloneLocation_def WarehouseLocation_def result_bind_Inr_iff
      split: option.splits if_splits)

lemma capacity_bound:
  assumes ok: "validateCapacity irepo (mem_products ps) mem_locations s locs loc adjustments = Inr ()"
    and loc: "LocationId loc = Inr loc" and l: "find_location mem_locations locs loc = Inr (Some l)"
    and items: "findItemsAt irepo s loc = Inr items" and m: "m = quantityMap items adjustments"
    and u: "unique_skus ps" and keys: "\<And>k q. (k, q) \<in> set m \<Longrightarrow> Sku k = Inr k"
  shows "planned_load pv_weightGrams ps m \<le> wl_maxWeight l \<and> planned_load pv_volumeCubicMeters ps m \<le> wl_maxVolume l"
proof -
  have "result_map Sku ks = Inr ks" if "set ks \<subseteq> fst ` set m" for ks
    using that keys by (induction ks) auto
  then have skus: "result_map Sku (activeSkus m) = Inr (activeSkus m)"
    unfolding activeSkus_def by (simp add: image_mono)
  let ?vs = "variantMap (activeSkus m) (mp_findBySkus ps (activeSkus m))"
  have "(k, q) \<in> set m \<Longrightarrow> 0 < q \<Longrightarrow> map_of ?vs k = catalogue_variant ps k" for k q
    by (rule variantMap_catalogue [OF u]) (force simp: activeSkus_def)
  note total = total_load_sum [OF this]
  show ?thesis
  proof (cases "activeSkus m = []")
    case True
    then have "(k, q) \<in> set m \<Longrightarrow> q \<le> 0" for k q by (auto simp: activeSkus_def filter_empty_conv not_less)
    then have "(k, q) \<in> set m \<Longrightarrow> max 0 q = 0" for k q by (simp add: max_absorb1)
    then have "(\<Sum>(k, q)\<leftarrow>m. max 0 q * unit_load weight ps k) = (\<Sum>x\<leftarrow>m. 0)" for weight
      by (intro arg_cong [where f = sum_list] map_cong) auto
    then have "planned_load weight ps m = 0" for weight by (simp add: planned_load_def)
    with location_positive [OF l] show ?thesis by simp
  next
    case False
    with ok show ?thesis
      by (simp add: validateCapacity_def loc l items skus m [symmetric] Let_def mem_products_def total split: if_splits)
  qed
qed

lemma rows_at_location:
  assumes "pi_inv s"
  shows "pi_findByLocation s loc = Inr (map row_item (filter (\<lambda>r. row_location r = loc) (rows s)))"
proof -
  have "result_map toDomain rs = Inr (map row_item rs)" if "set rs \<subseteq> set (rows s)" for rs
    using that assms by (induction rs) (auto simp: pi_inv_def toDomain_row)
  then show ?thesis by (simp add: pi_findByLocation_def pi_select_def)
qed

lemma receipt_load:
  assumes run: "ReceiveStockUseCase uuid pg_inventory None sku loc a s = (Inr dto, s')"
    and inv: "pi_inv s" and ok: "Sku sku = Inr sku" "LocationId loc = Inr loc" "InventoryItemId (uuid 0) = Inr (uuid 0)"
    and fresh: "pi_row s (uuid 0) = None"
  shows "location_load weight ps s' loc = location_load weight ps s loc + a * unit_load weight ps sku \<and> 0 \<le> a"
proof (rule receiptE [OF assms])
  fix i j
  assume a: "0 \<le> a" and i: "isku i = sku" "ilocationId i = loc" "same_stock j i" "iid j = iid i"
    and q: "amount (on_hand j) = amount (on_hand i) + a" and s': "pi_inv s'" "pi_row s' = (pi_row s)(iid i \<mapsto> norm_item j)"
    and row: "pi_findBySkuAndLocation s sku loc = Inr (Some i) \<and> pi_row s (iid i) = Some i
      \<or> pi_findBySkuAndLocation s sku loc = Inr None \<and> pi_row s (iid i) = None \<and> amount (on_hand i) = 0"
  have "item_load weight ps loc (norm_item j) = item_load weight ps loc i + a * unit_load weight ps sku"
    using i q by (simp add: item_load_def same_stock_def algebra_simps)
  moreover have "(case pi_row s (iid i) of None \<Rightarrow> 0 | Some old \<Rightarrow> item_load weight ps loc old) = item_load weight ps loc i"
    using row by (auto simp: item_load_def)
  ultimately show ?thesis
    using rows_sum_commit [OF inv s', of "item_load weight ps loc"] a by (simp add: location_load_def)
qed

lemma planned_receipt:
  assumes inv: "pi_inv s" and a: "0 \<le> a"
    and m: "m = quantityMap (map row_item (filter (\<lambda>r. row_location r = loc) (rows s))) [\<lparr>ad_sku = sku, ad_mode = Relative, ad_quantity = a\<rparr>]"
  shows "planned_load weight ps m = location_load weight ps s loc + a * unit_load weight ps sku"
proof -
  let ?rs = "filter (\<lambda>r. row_location r = loc) (rows s)"
  let ?m0 = "map (\<lambda>i. (isku i, amount (on_hand i))) (map row_item ?rs)"
  have d: "distinct (map isku (map row_item ?rs))"
  proof -
    have "distinct (map (\<lambda>r. (row_sku r, row_location r)) (rows s))" using inv by (simp add: pi_inv_def)
    then have "distinct (map (\<lambda>r. (row_sku r, row_location r)) ?rs)" by (rule distinct_map_filter)
    then show ?thesis by (auto simp: distinct_map inj_on_def)
  qed
  have m0: "m = AList.update sku (lookup_or 0 ?m0 sku + a) ?m0"
    using update_keyed [OF d, of "[]" "\<lambda>i. amount (on_hand i)"] by (simp add: m quantityMap_def apply_adjustment_def)
  have dm: "distinct (map fst ?m0)" using d by (simp add: o_def)
  have pos: "0 \<le> q" if "(k, q) \<in> set ?m0" for k q
    using that inv by (auto simp: pi_inv_def storable_def item_ok_def q_ok_def)
  have load: "planned_load weight ps ?m0 = location_load weight ps s loc"
  proof -
    have "location_load weight ps s loc = (\<Sum>r\<leftarrow>?rs. item_load weight ps loc (row_item r))"
      unfolding location_load_def sum_list_map_filter' by (intro arg_cong [where f = sum_list] map_cong) (auto simp: item_load_def)
    also have "\<dots> = (\<Sum>r\<leftarrow>?rs. amount (on_hand (row_item r)) * unit_load weight ps (row_sku r))"
      by (intro arg_cong [where f = sum_list] map_cong) (auto simp: item_load_def)
    also have "\<dots> = planned_load weight ps ?m0"
    proof -
      have "0 \<le> amount (on_hand (row_item r))" if "r \<in> set ?rs" for r using pos that by force
      then show ?thesis
        unfolding planned_load_def by (auto simp: o_def max_def intro!: arg_cong [where f = sum_list] map_cong)
    qed
    finally show ?thesis by simp
  qed
  have old: "0 \<le> lookup_or 0 ?m0 sku" using pos by (auto simp: lookup_or_def split: option.splits dest!: map_of_SomeD)
  have "planned_load weight ps m = planned_load weight ps ?m0 + (lookup_or 0 ?m0 sku + a) * unit_load weight ps sku
      - lookup_or 0 ?m0 sku * unit_load weight ps sku"
    unfolding m0 planned_load_def sum_list_update_key [OF dm, of "\<lambda>k q. max 0 q * unit_load weight ps k"]
    using old a by (auto simp: lookup_or_def max_def split: option.splits)
  then show ?thesis using load by (simp add: algebra_simps)
qed


definition sample_locations :: location_map where
  "sample_locations = [(''loc-1'', \<lparr>wl_id = ''loc-1'', wl_warehouse = ''WH1'', wl_zone = ''COLD'', wl_aisle = ''A03'', wl_rack = ''R02'',
     wl_shelf = ''S01'', wl_bin = ''B10'', wl_maxWeight = 900, wl_maxVolume = 10\<rparr>)]"

definition heavy_catalogue :: catalogue where
  "heavy_catalogue = [(''p1'', Product ''p1'' ''Widget'' (Some [(''v1'', (ProductVariant ''v1'' ''p1'' ''WIDGET-1'' [] TrackQuantity)
     \<lparr>pv_weightGrams := 50\<rparr>)]))]"


text \<open>
  A lower-case SKU is looked up as typed in the map of the variants, which is keyed by the upper-case SKUs
  of the catalogue: its units weigh nothing for the check.
\<close>

lemma lower_case_receipts_weigh_nothing:
  "validateCapacity pg_inventory (mem_products heavy_catalogue) mem_locations sample_db sample_locations ''loc-1''
     [\<lparr>ad_sku = ''WIDGET-1'', ad_mode = Relative, ad_quantity = 1000\<rparr>] = Inl (CapacityExceededError ''loc-1'' ''weight'' 900 50600)
   \<and> validateCapacity pg_inventory (mem_products heavy_catalogue) mem_locations sample_db sample_locations ''loc-1''
     [\<lparr>ad_sku = ''widget-1'', ad_mode = Relative, ad_quantity = 1000\<rparr>] = Inr ()"
  by code_simp

section \<open>A putaway plan and the capacity it uses\<close>

definition fit_units :: "product_variant \<Rightarrow> putaway_candidate \<Rightarrow> number" where
  "fit_units v c = (case maxUnitsToFit v c of None \<Rightarrow> 0 | Some m \<Rightarrow> max 0 m)"

definition placed :: "product_variant \<Rightarrow> putaway_candidate \<Rightarrow> putaway_recommendation \<Rightarrow> bool" where
  "placed v c r \<longleftrightarrow> 0 < pa_quantity r \<and> pa_location r = wl_id (pc_location c)
     \<and> (case maxUnitsToFit v c of None \<Rightarrow> True | Some m \<Rightarrow> pa_quantity r \<le> m)
     \<and> pa_weight r = pc_weight c - pa_quantity r * pv_weightGrams v
     \<and> pa_volume r = pc_volume c - pa_quantity r * pv_volumeCubicMeters v"

lemma allocate_putaway_spec:
  assumes "allocate_putaway v cs n = (rs, left)" and "0 \<le> n"
  shows "0 \<le> left \<and> (\<Sum>r\<leftarrow>rs. pa_quantity r) + left = n \<and> (\<forall>r\<in>set rs. \<exists>c\<in>set cs. placed v c r)
    \<and> (distinct (map (\<lambda>c. wl_id (pc_location c)) cs) \<longrightarrow> distinct (map pa_location rs))
    \<and> (0 < left \<longrightarrow> (\<forall>c\<in>set cs. maxUnitsToFit v c \<noteq> None) \<and> left = n - (\<Sum>c\<leftarrow>cs. fit_units v c))
    \<and> ((\<forall>c\<in>set cs. maxUnitsToFit v c \<noteq> None) \<and> (\<Sum>c\<leftarrow>cs. fit_units v c) < n \<longrightarrow> 0 < left)"
  using assms
proof (induction cs arbitrary: n rs left)
  case Nil
  then show ?case by simp
next
  case (Cons c cs)
  show ?case
  proof (cases "n \<le> 0")
    case True
    with Cons.prems have "n = 0" "rs = []" "left = 0" by auto
    moreover have "0 \<le> (\<Sum>c\<leftarrow>cs. fit_units v c)" by (rule sum_list_nonneg) (auto simp: fit_units_def split: option.splits)
    moreover have "0 \<le> fit_units v c" by (auto simp: fit_units_def split: option.splits)
    ultimately show ?thesis by auto
  next
    case False
    define q where "q = (case maxUnitsToFit v c of None \<Rightarrow> n | Some m \<Rightarrow> min n m)"
    show ?thesis
    proof (cases "q \<le> 0")
      case True
      with False obtain m where m: "maxUnitsToFit v c = Some m" "m \<le> 0" by (auto simp: q_def split: option.splits)
      with Cons.prems False have "allocate_putaway v cs n = (rs, left)" by simp
      note IH = Cons.IH [OF this Cons.prems(2)]
      with m show ?thesis by (auto simp: fit_units_def max_def)
    next
      case q: False
      let ?r = "\<lparr>pa_location = wl_id (pc_location c), pa_quantity = q, pa_weight = pc_weight c - q * pv_weightGrams v,
              pa_volume = pc_volume c - q * pv_volumeCubicMeters v\<rparr>"
      obtain rs' where rs: "allocate_putaway v cs (n - q) = (rs', left)" "rs = ?r # rs'"
        using Cons.prems False q by (auto simp: q_def Let_def split: option.splits prod.splits if_splits)
      have "0 \<le> n - q" by (auto simp: q_def split: option.splits)
      note IH = Cons.IH [OF rs(1) this]
      have here: "placed v c ?r" using q by (auto simp: placed_def q_def split: option.splits)
      have there: "\<exists>c'\<in>set cs. placed v c' r" if "r \<in> set rs'" for r using IH that by blast
      have apart: "distinct (map (\<lambda>c. wl_id (pc_location c)) (c # cs)) \<longrightarrow> distinct (map pa_location rs)"
      proof
        assume d: "distinct (map (\<lambda>c. wl_id (pc_location c)) (c # cs))"
        have "pa_location r \<noteq> wl_id (pc_location c)" if r: "r \<in> set rs'" for r
        proof -
          obtain c' where c': "c' \<in> set cs" "placed v c' r" using there [OF r] by blast
          then have "wl_id (pc_location c') \<in> (\<lambda>c. wl_id (pc_location c)) ` set cs" by blast
          moreover have "wl_id (pc_location c) \<notin> (\<lambda>c. wl_id (pc_location c)) ` set cs" using d by simp
          ultimately show ?thesis using c'(2) unfolding placed_def by metis
        qed
        then have "pa_location ?r \<notin> pa_location ` set rs'" by (metis imageE putaway_recommendation.select_convs(1))
        moreover have "distinct (map pa_location rs')" using IH d by simp
        ultimately show "distinct (map pa_location rs)" by (simp add: rs(2))
      qed
      have pos: "0 \<le> (\<Sum>r\<leftarrow>rs'. pa_quantity r)" 
      proof (rule sum_list_nonneg)
        fix x assume "x \<in> set (map pa_quantity rs')"
        then obtain r where "r \<in> set rs'" "x = pa_quantity r" by auto
        with there [of r] show "0 \<le> x" by (auto simp: placed_def intro: less_imp_le)
      qed
      have full: "maxUnitsToFit v c \<noteq> None \<and> q = fit_units v c" if "0 < left"
      proof -
        have "0 < n - q" using IH that pos by linarith
        then show ?thesis using q by (auto simp: q_def fit_units_def split: option.splits)
      qed
      have le: "maxUnitsToFit v c \<noteq> None \<Longrightarrow> q \<le> fit_units v c" by (auto simp: q_def fit_units_def)
      have "(\<Sum>r\<leftarrow>rs. pa_quantity r) + left = n" using IH by (simp add: rs(2))
      moreover have "\<forall>r\<in>set rs. \<exists>c'\<in>set (c # cs). placed v c' r" using here there by (auto simp: rs(2))
      moreover have "0 < left \<longrightarrow> (\<forall>c'\<in>set (c # cs). maxUnitsToFit v c' \<noteq> None) \<and> left = n - (\<Sum>c'\<leftarrow>c # cs. fit_units v c')"
      proof
        assume l: "0 < left"
        with IH have "\<forall>c'\<in>set cs. maxUnitsToFit v c' \<noteq> None" "left = n - q - (\<Sum>c'\<leftarrow>cs. fit_units v c')" by auto
        with full [OF l] show "(\<forall>c'\<in>set (c # cs). maxUnitsToFit v c' \<noteq> None) \<and> left = n - (\<Sum>c'\<leftarrow>c # cs. fit_units v c')" by simp
      qed
      moreover have "(\<forall>c'\<in>set (c # cs). maxUnitsToFit v c' \<noteq> None) \<and> (\<Sum>c'\<leftarrow>c # cs. fit_units v c') < n \<longrightarrow> 0 < left"
      proof
        assume h: "(\<forall>c'\<in>set (c # cs). maxUnitsToFit v c' \<noteq> None) \<and> (\<Sum>c'\<leftarrow>c # cs. fit_units v c') < n"
        with le have "(\<Sum>c'\<leftarrow>cs. fit_units v c') < n - q" by simp
        with h IH show "0 < left" by simp
      qed
      ultimately show ?thesis using IH apart by blast
    qed
  qed
qed

lemma units_that_fit_bound:
  assumes "units_that_fit remaining u = Some m" and "q \<le> m"
  shows "q * u \<le> remaining + u / 200000"
proof -
  have u: "0 < u" and m: "m = js_floor (to_fixed5 (remaining / u))"
    using assms(1) by (auto simp: units_that_fit_def split: if_splits)
  have "m \<le> to_fixed5 (remaining / u)" by (simp add: m js_floor_def)
  also have "\<dots> \<le> (remaining / u * 100000 + 1 / 2) / 100000"
    unfolding to_fixed5_def using js_round_bounds(1) [of "remaining / u * 100000"] by (intro divide_right_mono) simp_all
  also have "\<dots> = remaining / u + 1 / 200000" by (simp add: add_divide_distrib)
  finally have "q \<le> remaining / u + 1 / 200000" using assms(2) by simp
  then have "q * u \<le> (remaining / u + 1 / 200000) * u" using u by (intro mult_right_mono) simp_all
  then show ?thesis using u by (simp add: distrib_right)
qed

lemma placed_bound:
  assumes "placed v c r" and "0 < pc_weight c" and "0 < pc_volume c"
  shows "pa_quantity r * pv_weightGrams v \<le> pc_weight c + max 0 (pv_weightGrams v) / 200000
    \<and> pa_quantity r * pv_volumeCubicMeters v \<le> pc_volume c + max 0 (pv_volumeCubicMeters v) / 200000"
proof -
  have side: "pa_quantity r * u \<le> rem + max 0 u / 200000"
    if fit: "\<And>m. units_that_fit rem u = Some m \<Longrightarrow> pa_quantity r \<le> m" and rem: "0 < rem" for u rem
  proof (cases "0 < u")
    case True
    with units_that_fit_bound [of rem u _ "pa_quantity r"] fit show ?thesis by (simp add: units_that_fit_def)
  next
    case False
    then have "pa_quantity r * u \<le> 0" using assms(1) by (simp add: placed_def mult_nonneg_nonpos)
    with False rem show ?thesis by simp
  qed
  have min_le: "min_units a b \<noteq> None \<and> q \<le> the (min_units a b) \<Longrightarrow> a = Some x \<or> b = Some x \<Longrightarrow> q \<le> x" for a b x and q :: number
    by (cases a; cases b) auto
  have some: "a = Some x \<or> b = Some x \<Longrightarrow> min_units a b \<noteq> None" for a b and x :: number
    by (cases a; cases b) auto
  have all: "pa_quantity r \<le> x" if x: "units_that_fit (pc_weight c) (pv_weightGrams v) = Some x
      \<or> units_that_fit (pc_volume c) (pv_volumeCubicMeters v) = Some x" for x
  proof (rule min_le [OF _ x])
    have "maxUnitsToFit v c \<noteq> None" unfolding maxUnitsToFit_def using x by (rule some)
    then obtain m where m: "maxUnitsToFit v c = Some m" by blast
    with assms(1) have "pa_quantity r \<le> m" by (simp add: placed_def)
    with m show "min_units (units_that_fit (pc_weight c) (pv_weightGrams v)) (units_that_fit (pc_volume c) (pv_volumeCubicMeters v)) \<noteq> None
      \<and> pa_quantity r \<le> the (min_units (units_that_fit (pc_weight c) (pv_weightGrams v)) (units_that_fit (pc_volume c) (pv_volumeCubicMeters v)))"
      by (simp add: maxUnitsToFit_def)
  qed
  show ?thesis using side all assms(2,3) by blast
qed

text \<open>The occupancy of a location is what its rows stand for.\<close>

lemma occupancy_lookup:
  "lookup_or (0, 0) (fold (\<lambda>i m. case map_of vs (isku i) of None \<Rightarrow> m
     | Some v \<Rightarrow> (case lookup_or (0, 0) m (ilocationId i) of (weight, volume) \<Rightarrow>
         AList.update (ilocationId i) (weight + amount (on_hand i) * pv_weightGrams v,
           volume + amount (on_hand i) * pv_volumeCubicMeters v) m)) is m) loc =
   (case lookup_or (0, 0) m loc of (weight, volume) \<Rightarrow>
     (weight + (\<Sum>i\<leftarrow>is. if ilocationId i = loc then amount (on_hand i) * (case map_of vs (isku i) of None \<Rightarrow> 0 | Some v \<Rightarrow> pv_weightGrams v) else 0),
      volume + (\<Sum>i\<leftarrow>is. if ilocationId i = loc then amount (on_hand i) * (case map_of vs (isku i) of None \<Rightarrow> 0 | Some v \<Rightarrow> pv_volumeCubicMeters v) else 0)))"
  by (induction "is" arbitrary: m) (auto split: option.splits prod.splits)

lemma rows_at_locations:
  assumes "pi_inv s" and "locs \<noteq> []"
  shows "pi_findByLocationsBatch s locs = Inr (map row_item (filter (\<lambda>r. row_location r \<in> set locs) (rows s)))"
proof -
  have "result_map toDomain rs = Inr (map row_item rs)" if "set rs \<subseteq> set (rows s)" for rs
    using that assms by (induction rs) (auto simp: pi_inv_def toDomain_row)
  then show ?thesis using assms(2) by (simp add: pi_findByLocationsBatch_def pi_select_def)
qed

lemma occupancy_load:
  assumes u: "unique_skus ps" and items: "items = map row_item (filter (\<lambda>r. row_location r \<in> set locs) (rows s))"
    and loc: "loc \<in> set locs"
    and vs: "vs = variantMap (js_set (map isku items)) (if length (js_set (map isku items)) > 0 then mp_findBySkus ps (js_set (map isku items)) else [])"
  shows "lookup_or (0, 0) (occupancy vs items) loc = (location_load pv_weightGrams ps s loc, location_load pv_volumeCubicMeters ps s loc)"
proof -
  have look: "map_of vs (isku i) = catalogue_variant ps (isku i)" if "i \<in> set items" for i
  proof -
    have "isku i \<in> set (js_set (map isku items))" using that by (auto simp: js_set_def)
    with variantMap_catalogue [OF u this] show ?thesis by (auto simp: vs)
  qed
  have "(\<Sum>i\<leftarrow>items. if ilocationId i = loc then amount (on_hand i) * (case map_of vs (isku i) of None \<Rightarrow> 0 | Some v \<Rightarrow> weight v) else 0)
      = location_load weight ps s loc" for weight
  proof -
    have "(\<Sum>i\<leftarrow>items. if ilocationId i = loc then amount (on_hand i) * (case map_of vs (isku i) of None \<Rightarrow> 0 | Some v \<Rightarrow> weight v) else 0)
        = (\<Sum>i\<leftarrow>items. item_load weight ps loc i)"
      by (intro arg_cong [where f = sum_list] map_cong) (auto simp: look item_load_def unit_load_def)
    also have "\<dots> = (\<Sum>r\<leftarrow>rows s. if row_location r \<in> set locs then item_load weight ps loc (row_item r) else 0)"
      by (simp add: items o_def sum_list_map_filter')
    also have "\<dots> = location_load weight ps s loc"
      unfolding location_load_def using loc by (intro arg_cong [where f = sum_list] map_cong) (auto simp: item_load_def)
    finally show ?thesis .
  qed
  then show ?thesis by (simp add: occupancy_def occupancy_lookup)
qed

lemma candidate_facts:
  assumes "c \<in> set (putaway_candidates prepo v locations items)"
  shows "pc_location c \<in> set locations \<and> 0 < pc_weight c \<and> 0 < pc_volume c
    \<and> (\<exists>vs. vs = variantMap (js_set (map isku items)) (if length (js_set (map isku items)) > 0 then find_by_skus prepo (js_set (map isku items)) else [])
        \<and> pc_weight c = wl_maxWeight (pc_location c) - fst (lookup_or (0, 0) (occupancy vs items) (wl_id (pc_location c)))
        \<and> pc_volume c = wl_maxVolume (pc_location c) - snd (lookup_or (0, 0) (occupancy vs items) (wl_id (pc_location c))))"
  using assms by (auto simp: putaway_candidates_def eligible_def Let_def map_filter_def split: if_splits)

lemma candidates_distinct:
  assumes "distinct (map wl_id locations)"
  shows "distinct (map (\<lambda>c. wl_id (pc_location c)) (putaway_candidates prepo v locations items))"
proof -
  have sub: "(\<lambda>c. wl_id (pc_location c)) ` set (eligible t h vel occ ls) \<subseteq> wl_id ` set ls" for t h vel occ ls
    by (auto simp: eligible_def map_filter_def Let_def split: if_splits)
  have "distinct (map (\<lambda>c. wl_id (pc_location c)) (eligible t h vel occ ls))" if "distinct (map wl_id ls)" for t h vel occ ls
    using that
  proof (induction ls)
    case (Cons l ls)
    then have "wl_id l \<notin> (\<lambda>c. wl_id (pc_location c)) ` set (eligible t h vel occ ls)" using sub [of t h vel occ ls] by auto
    with Cons show ?case by (auto simp: eligible_def map_filter_simps Let_def)
  qed (simp add: eligible_def map_filter_simps)
  moreover have "distinct (map f (sort_key g xs)) = distinct (map f xs)" for f :: "putaway_candidate \<Rightarrow> ident" and g :: "putaway_candidate \<Rightarrow> number" and xs
    by (rule mset_eq_imp_distinct_iff) simp
  ultimately show ?thesis using assms by (simp add: putaway_candidates_def Let_def)
qed



lemma no_allowed_location_no_plan:
  assumes "0 < q" and "variant_of prepo sku = Inr v" and "all_locations lrepo l = Inr ls" and "allowed_locations v ls = []"
  shows "suggestPutaway irepo prepo lrepo s l sku q = Inr []"
  using assms by (simp add: suggestPutaway_def)

end
