(* ===== verification/Picking.thy ===== *)
theory Picking
  imports Warehouse
begin

text \<open>
  Taking stock out: src/src/domain/services/FEFOPickingSuggester.ts, PickingRouteOptimizer.ts and
  CrossDockingEngine.ts, with the use cases of ManageWarehouseRouting.ts and ManageFefoAndRecall.ts over
  them. Iterating over a Map while its existing keys are set visits every key once, with the value it
  had when it was reached; the loops below therefore run over the entries as they were.
\<close>

section \<open>First expired, first out\<close>

record pick_suggestion =
  sg_location :: ident
  sg_lot :: string
  sg_expiration :: time
  sg_quantity :: number

type_synonym lot_balances = "(string, (ident, number) js_map) js_map"

definition lot_balance_step :: "ledger_entry \<Rightarrow> lot_balances \<Rightarrow> lot_balances" where
  "lot_balance_step e bs = (case map_of (le_metadata e) ''lotNumber'' of
     Some (S lotNo) \<Rightarrow> if lotNo = [] then bs
       else (let m = lookup_or [] bs lotNo in
         AList.update lotNo (AList.update (le_location e) (lookup_or 0 m (le_location e) + le_quantity e) m) bs)
   | _ \<Rightarrow> bs)"

definition lotBalances :: "ledger_entry list \<Rightarrow> lot_balances" where
  "lotBalances es = fold lot_balance_step es []"

fun pick_lot :: "lot \<Rightarrow> (ident, number) js_map \<Rightarrow> number \<Rightarrow> (ident, number) js_map
    \<Rightarrow> pick_suggestion list \<times> number \<times> (ident, number) js_map" where
  "pick_lot lot [] remaining m = ([], remaining, m)"
| "pick_lot lot ((loc, q) # es) remaining m =
     (if q \<le> 0 then pick_lot lot es remaining m
      else if remaining \<le> 0 then ([], remaining, m)
      else (let a = min remaining q;
                (ss, left, m') = pick_lot lot es (remaining - a) (AList.update loc (q - a) m) in
        (\<lparr>sg_location = loc, sg_lot = lotNumber lot, sg_expiration = expirationDate lot, sg_quantity = a\<rparr> # ss, left, m')))"

fun pick_lots :: "lot list \<Rightarrow> number \<Rightarrow> lot_balances \<Rightarrow> pick_suggestion list \<times> number" where
  "pick_lots [] remaining bs = ([], remaining)"
| "pick_lots (lot # lots) remaining bs =
     (if remaining \<le> 0 then ([], remaining)
      else case map_of bs (lotNumber lot) of
        None \<Rightarrow> pick_lots lots remaining bs
      | Some m \<Rightarrow> (let (ss, left, m') = pick_lot lot m remaining m;
                       (ss', left') = pick_lots lots left (AList.update (lotNumber lot) m' bs) in (ss @ ss', left')))"

definition suggestFefoPicking ::
    "'c layer_repo \<Rightarrow> 's ledger_repo \<Rightarrow> product_repo \<Rightarrow> 'c \<Rightarrow> 's \<Rightarrow> string \<Rightarrow> number \<Rightarrow> pick_suggestion list result" where
  "suggestFefoPicking crepo lrepo prepo c s sku quantity =
     (if quantity \<le> 0 then Inl (Error ''Pick quantity must be positive.'' [])
      else result_bind (variant_of prepo sku) (\<lambda>v.
        let lots = List.map_filter llot (getActiveLayers crepo c (pv_id v) ExpirationAsc) in
        if length lots = 0 then Inl (Error ''No lot-controlled inventory layers found for SKU {}.'' [S sku])
        else case pick_lots lots quantity (lotBalances (entriesFor lrepo s (pv_id v) None)) of (suggestions, left) \<Rightarrow>
          if left > 0
          then Inl (Error ''Insufficient lot-controlled inventory available to pick {} units for SKU {} (Missing: {}).''
            [N quantity, S sku, N left])
          else Inr suggestions))"

definition SuggestFefoPickingUseCase ::
    "'c layer_repo \<Rightarrow> 's ledger_repo \<Rightarrow> product_repo \<Rightarrow> 'c \<Rightarrow> 's \<Rightarrow> string \<Rightarrow> number \<Rightarrow> pick_suggestion list result" where
  "SuggestFefoPickingUseCase crepo lrepo prepo c s sku quantity =
     result_bind (Sku sku) (\<lambda>sku'. suggestFefoPicking crepo lrepo prepo c s sku' quantity)"

section \<open>Routes\<close>

record pick_input =
  pi_sku :: string
  pi_quantity :: number
  pi_location :: string

record route_item =
  ro_sku :: string
  ro_location :: string
  ro_quantity :: number
  ro_warehouse :: ident
  ro_zone :: string
  ro_aisle :: string
  ro_rack :: string
  ro_shelf :: string
  ro_bin :: string

definition digits_value :: "string \<Rightarrow> nat" where
  "digits_value s = fold (\<lambda>c n. 10 * n + (of_char c - 48)) s 0"

definition letters_value :: "string \<Rightarrow> nat" where
  "letters_value s = fold (\<lambda>c n. 26 * n + (of_char c - 64)) s 0"

definition getAisleIndex :: "string \<Rightarrow> nat" where
  "getAisleIndex aisle = (let digits = filter is_digit aisle in
     if digits \<noteq> [] then digits_value digits
     else (let code = letters_value (filter is_upper (to_upper aisle)) in if code = 0 then 1 else code))"

text \<open>The order within an aisle: forward in odd aisles, backward in even ones.\<close>

definition serpentine :: "(string \<Rightarrow> int) \<Rightarrow> (route_item \<Rightarrow> string) \<Rightarrow> route_item \<Rightarrow> int" where
  "serpentine rank part i = (if getAisleIndex (ro_aisle i) mod 2 \<noteq> 0 then rank (part i) else - rank (part i))"

definition sort_route :: "(string \<Rightarrow> int) \<Rightarrow> route_item list \<Rightarrow> route_item list" where
  "sort_route rank is = sort_key (\<lambda>i. getAisleIndex (ro_aisle i))
     (sort_key (serpentine rank ro_rack) (sort_key (serpentine rank ro_shelf) (sort_key (serpentine rank ro_bin) is)))"

definition route_items :: "(ident, warehouse_location) js_map \<Rightarrow> pick_input list \<Rightarrow> route_item list result" where
  "route_items m its = result_map (\<lambda>i. case map_of m (pi_location i) of
     None \<Rightarrow> Inl (Error ''Warehouse location with ID {} not found.'' [S (pi_location i)])
   | Some l \<Rightarrow> Inr \<lparr>ro_sku = pi_sku i, ro_location = pi_location i, ro_quantity = pi_quantity i,
       ro_warehouse = wl_warehouse l, ro_zone = wl_zone l, ro_aisle = wl_aisle l, ro_rack = wl_rack l,
       ro_shelf = wl_shelf l, ro_bin = wl_bin l\<rparr>) its"

definition group_routes :: "route_item list \<Rightarrow> (ident, route_item list) js_map" where
  "group_routes is = fold (\<lambda>i m. AList.update (ro_warehouse i) (lookup_or [] m (ro_warehouse i) @ [i]) m) is []"

definition optimizeRoute ::
    "(string \<Rightarrow> int) \<Rightarrow> 'l location_repo \<Rightarrow> 'l \<Rightarrow> pick_input list \<Rightarrow> (ident \<times> route_item list) list result" where
  "optimizeRoute rank lrepo l items =
     (if length items = 0 then Inr []
      else result_bind (result_map LocationId (js_set (map pi_location items))) (\<lambda>ids.
        result_bind (find_locations lrepo l ids) (\<lambda>locations.
        let locationMap = fold (\<lambda>l m. AList.update (wl_id l) l m) locations [] in
        result_bind (route_items locationMap items) (\<lambda>routeItems.
          Inr (map (\<lambda>(warehouseId, is). (warehouseId, sort_route rank is)) (group_routes routeItems))))))"

definition OptimizePickingRouteUseCase ::
    "(string \<Rightarrow> int) \<Rightarrow> 'l location_repo \<Rightarrow> 'l \<Rightarrow> string \<Rightarrow> pick_input list \<Rightarrow> (ident \<times> route_item list) list result" where
  "OptimizePickingRouteUseCase rank lrepo l tenantId items = optimizeRoute rank lrepo l items"

section \<open>Cross-docking\<close>

record backorder =
  bo_order :: string
  bo_variant :: string
  bo_quantity :: number
  bo_priority :: "number option"

record cross_dock =
  cd_purchaseOrder :: string
  cd_variant :: string
  cd_inbound :: number
  cd_matching :: "(string \<times> number \<times> number) list"
  cd_quantity :: number
  cd_bay :: string

definition priority_or :: "number \<Rightarrow> backorder \<Rightarrow> number" where
  "priority_or d b = (case bo_priority b of None \<Rightarrow> d | Some p \<Rightarrow> p)"

definition backordersByVariant :: "backorder list \<Rightarrow> (string, backorder list) js_map" where
  "backordersByVariant bs = fold (\<lambda>b m. AList.update (bo_variant b) (lookup_or [] m (bo_variant b) @ [b]) m) bs []"

fun assign_backorders :: "backorder list \<Rightarrow> number \<Rightarrow> (string \<times> number \<times> number) list \<times> number" where
  "assign_backorders [] remaining = ([], remaining)"
| "assign_backorders (b # bs) remaining =
     (if remaining \<le> 0 then ([], remaining)
      else (let assigned = min remaining (bo_quantity b);
                (rest, left) = assign_backorders bs (remaining - assigned) in
        ((bo_order b, assigned, priority_or 1 b) # rest, left)))"

text \<open>\<open>matching.sort\<close> sorts the shared list in place; sorting it again for a later line changes nothing.\<close>

definition cross_dock_line ::
    "string \<Rightarrow> (string, backorder list) js_map \<Rightarrow> string \<times> number \<Rightarrow> cross_dock option" where
  "cross_dock_line poId m item = (case item of (v, q) \<Rightarrow>
     let matching = sort_key (\<lambda>b. - priority_or 0 b) (lookup_or [] m v) in
     if matching = [] then None
     else (case assign_backorders matching q of (assigned, left) \<Rightarrow>
       Some \<lparr>cd_purchaseOrder = poId, cd_variant = v, cd_inbound = q, cd_matching = assigned, cd_quantity = q - left,
         cd_bay = ''DOCK-OUTBOUND-BAY-01''\<rparr>))"

definition cross_dock_evaluate :: "string \<Rightarrow> (string \<times> number) list \<Rightarrow> backorder list \<Rightarrow> cross_dock list" where
  "cross_dock_evaluate poId inboundItems backorders =
     List.map_filter (cross_dock_line poId (backordersByVariant backorders)) inboundItems"

section \<open>A picking plan and the stock it takes\<close>

text \<open>What the ledger says of a lot at a location, and what a plan takes of it.\<close>

definition lot_on_hand :: "ledger_entry list \<Rightarrow> string \<Rightarrow> ident \<Rightarrow> number" where
  "lot_on_hand es lot loc = (\<Sum>e\<leftarrow>es. if lot \<noteq> [] \<and> map_of (le_metadata e) ''lotNumber'' = Some (S lot) \<and> le_location e = loc then le_quantity e else 0)"

definition taken :: "pick_suggestion list \<Rightarrow> string \<Rightarrow> ident \<Rightarrow> number" where
  "taken ss lot loc = (\<Sum>s\<leftarrow>ss. if sg_lot s = lot \<and> sg_location s = loc then sg_quantity s else 0)"

definition lot_at :: "lot_balances \<Rightarrow> string \<Rightarrow> ident \<Rightarrow> number" where
  "lot_at bs lot loc = lookup_or 0 (lookup_or [] bs lot) loc"

lemma taken_simps [simp]: "taken [] lot loc = 0"
  "taken (s # ss) lot loc = (if sg_lot s = lot \<and> sg_location s = loc then sg_quantity s else 0) + taken ss lot loc"
  "taken (ss @ ss') lot loc = taken ss lot loc + taken ss' lot loc"
  by (simp_all add: taken_def)

lemma lot_at_step: "lot_at (lot_balance_step e bs) lot loc = lot_at bs lot loc +
    (if lot \<noteq> [] \<and> map_of (le_metadata e) ''lotNumber'' = Some (S lot) \<and> le_location e = loc then le_quantity e else 0)"
  by (auto simp: lot_at_def lot_balance_step_def Let_def split: option.splits arg.splits)

lemma lotBalances_at: "lot_at (lotBalances es) lot loc = lot_on_hand es lot loc"
proof -
  have "lot_at (fold lot_balance_step xs bs) lot loc = lot_at bs lot loc + lot_on_hand xs lot loc" for xs bs
    by (induction xs arbitrary: bs) (simp_all add: lot_on_hand_def lot_at_step)
  then show ?thesis by (simp add: lotBalances_def lot_at_def)
qed

lemma lotBalances_keys: "\<forall>(l, m)\<in>set (lotBalances es). l \<noteq> [] \<and> distinct (map fst m)"
proof -
  have "\<forall>(l, m)\<in>set (fold lot_balance_step xs bs). l \<noteq> [] \<and> distinct (map fst m)"
    if "\<forall>(l, m)\<in>set bs. l \<noteq> [] \<and> distinct (map fst m)" for xs bs
    using that
  proof (induction xs arbitrary: bs)
    case (Cons e xs)
    have "distinct (map fst (lookup_or [] bs l))" for l
      using Cons.prems by (auto simp: lookup_or_def split: option.splits dest!: map_of_SomeD)
    then have "\<forall>(l, m)\<in>set (lot_balance_step e bs). l \<noteq> [] \<and> distinct (map fst m)"
      using Cons.prems by (auto simp: lot_balance_step_def Let_def distinct_update split: option.splits arg.splits dest!: set_js_set)
    then show ?case using Cons.IH by simp
  qed simp
  from this [of "[]" es] show ?thesis by (simp add: lotBalances_def)
qed

lemma pick_lot_spec:
  assumes "pick_lot lot es n m = (ss, left, m')" and "0 \<le> n" and "distinct (map fst es)"
    and "\<And>loc q. (loc, q) \<in> set es \<Longrightarrow> lookup_or 0 m loc = q"
  shows "0 \<le> left \<and> (\<Sum>s\<leftarrow>ss. sg_quantity s) + left = n
    \<and> (\<forall>s\<in>set ss. 0 < sg_quantity s \<and> sg_lot s = lotNumber lot \<and> sg_expiration s = expirationDate lot \<and> sg_location s \<in> fst ` set es)
    \<and> (\<forall>loc. lookup_or 0 m' loc = lookup_or 0 m loc - taken ss (lotNumber lot) loc
         \<and> taken ss (lotNumber lot) loc \<le> max 0 (lookup_or 0 m loc))
    \<and> (0 < left \<longrightarrow> (\<forall>loc\<in>fst ` set es. lookup_or 0 m' loc \<le> 0))
    \<and> (\<forall>loc. loc \<notin> fst ` set es \<longrightarrow> lookup_or 0 m' loc = lookup_or 0 m loc)
    \<and> (distinct (map fst m) \<longrightarrow> distinct (map fst m'))"
  using assms
proof (induction es arbitrary: n m ss left m')
  case Nil
  then show ?case by simp
next
  case (Cons p es)
  obtain loc q where p: "p = (loc, q)" by fastforce
  have at_loc: "lookup_or 0 m loc = q" using Cons.prems(4) [of loc q] by (simp add: p)
  have out: "loc \<notin> fst ` set es" using Cons.prems(3) by (simp add: p)
  show ?case
  proof (cases "q \<le> 0")
    case True
    with Cons.prems p have run: "pick_lot lot es n m = (ss, left, m')" by simp
    note IH = Cons.IH [OF run Cons.prems(2)]
    have neg: "lookup_or 0 m loc \<le> 0" and dist: "distinct (map fst es)"
      using at_loc True Cons.prems(3) by (simp_all add: p)
    have look: "lookup_or 0 m l = r" if "(l, r) \<in> set es" for l r using Cons.prems(4) that by simp
    note IH = IH [OF dist look]
    have "lookup_or 0 m' loc = lookup_or 0 m loc" using IH out by blast
    then have "lookup_or 0 m' loc \<le> 0" using neg by simp
    then show ?thesis using IH by (auto simp: p)
  next
    case False
    show ?thesis
    proof (cases "n \<le> 0")
      case True
      with False Cons.prems(1,2) p have "ss = []" "left = n" "m' = m" "n = 0" by auto
      then show ?thesis by simp
    next
      case n: False
      define a where "a = min n q"
      obtain ss' where run: "pick_lot lot es (n - a) (AList.update loc (q - a) m) = (ss', left, m')"
          "ss = \<lparr>sg_location = loc, sg_lot = lotNumber lot, sg_expiration = expirationDate lot, sg_quantity = a\<rparr> # ss'"
        using Cons.prems(1) False n by (auto simp: p a_def Let_def split: prod.splits)
      have a: "0 < a" "a \<le> n" "a \<le> q" using False n by (auto simp: a_def)
      have look: "lookup_or 0 (AList.update loc (q - a) m) l = r" if "(l, r) \<in> set es" for l r
        using that Cons.prems(4) [of l r] out by (force simp: p)
      have "0 \<le> n - a" "distinct (map fst es)" using a Cons.prems(3) by (simp_all add: p)
      note IH = Cons.IH [OF run(1) this look]
      have zero: "taken ss' (lotNumber lot) loc = 0"
      proof -
        have "\<forall>s\<in>set ss'. sg_location s \<noteq> loc" using IH out by auto
        then show ?thesis by (induction ss') auto
      qed
      have rest: "q - a \<le> 0" if "0 < left"
      proof -
        have "0 \<le> (\<Sum>s\<leftarrow>ss'. sg_quantity s)"
          using IH by (intro sum_list_nonneg) (auto intro: less_imp_le)
        with IH that have "0 < n - a" by linarith
        then show ?thesis by (simp add: a_def min_def split: if_splits)
      qed
      show ?thesis
      proof (intro conjI)
        show "\<forall>l. lookup_or 0 m' l = lookup_or 0 m l - taken ss (lotNumber lot) l
            \<and> taken ss (lotNumber lot) l \<le> max 0 (lookup_or 0 m l)"
        proof
          fix l
          have "lookup_or 0 m' l = lookup_or 0 (AList.update loc (q - a) m) l - taken ss' (lotNumber lot) l
            \<and> taken ss' (lotNumber lot) l \<le> max 0 (lookup_or 0 (AList.update loc (q - a) m) l)" using IH by blast
          then show "lookup_or 0 m' l = lookup_or 0 m l - taken ss (lotNumber lot) l
            \<and> taken ss (lotNumber lot) l \<le> max 0 (lookup_or 0 m l)"
            using at_loc zero a by (cases "l = loc") (auto simp: run(2))
        qed
        show "0 < left \<longrightarrow> (\<forall>l\<in>fst ` set (p # es). lookup_or 0 m' l \<le> 0)"
        proof
          assume l: "0 < left"
          have "lookup_or 0 m' loc = q - a" using IH zero by simp
          then have "lookup_or 0 m' loc \<le> 0" using rest [OF l] by simp
          moreover have "\<forall>l\<in>fst ` set es. lookup_or 0 m' l \<le> 0" using IH l by blast
          ultimately show "\<forall>l\<in>fst ` set (p # es). lookup_or 0 m' l \<le> 0" unfolding p by simp
        qed
        show "\<forall>l. l \<notin> fst ` set (p # es) \<longrightarrow> lookup_or 0 m' l = lookup_or 0 m l"
        proof (intro allI impI)
          fix l assume l: "l \<notin> fst ` set (p # es)"
          then have "l \<noteq> loc" "l \<notin> fst ` set es" by (simp_all add: p)
          moreover from this have "lookup_or 0 m' l = lookup_or 0 (AList.update loc (q - a) m) l" using IH by blast
          ultimately show "lookup_or 0 m' l = lookup_or 0 m l" by simp
        qed
        show "distinct (map fst m) \<longrightarrow> distinct (map fst m')" using IH by (simp add: distinct_update)
      qed (use IH a in \<open>auto simp: run(2) p\<close>)
    qed
  qed
qed

lemma pick_lots_spec:
  assumes "pick_lots lots n bs = (ss, left)" and "0 \<le> n" and "\<forall>(l, m)\<in>set bs. distinct (map fst m)"
  shows "0 \<le> left \<and> (\<Sum>s\<leftarrow>ss. sg_quantity s) + left = n
    \<and> (\<forall>s\<in>set ss. 0 < sg_quantity s \<and> (\<exists>lot\<in>set lots. sg_lot s = lotNumber lot \<and> sg_expiration s = expirationDate lot))
    \<and> (\<forall>lot loc. taken ss lot loc \<le> max 0 (lot_at bs lot loc))
    \<and> (0 < left \<longrightarrow> (\<forall>lot\<in>set lots. \<forall>loc. taken ss (lotNumber lot) loc = max 0 (lot_at bs (lotNumber lot) loc)))
    \<and> (sorted (map expirationDate lots) \<longrightarrow> sorted (map sg_expiration ss))"
  using assms
proof (induction lots arbitrary: n bs ss left)
  case Nil
  then show ?case by simp
next
  case (Cons lot lots)
  show ?case
  proof (cases "n \<le> 0")
    case True
    with Cons.prems have "ss = []" "left = 0" "n = 0" by auto
    then show ?thesis by simp
  next
    case n: False
    show ?thesis
    proof (cases "map_of bs (lotNumber lot)")
      case None
      with n Cons.prems(1) have "pick_lots lots n bs = (ss, left)" by simp
      note IH = Cons.IH [OF this Cons.prems(2,3)]
      have none: "lot_at bs (lotNumber lot) loc = 0" for loc by (simp add: lot_at_def lookup_or_def None)
      have "0 \<le> taken ss k loc" for k loc
        unfolding taken_def using IH by (intro sum_list_nonneg) (auto intro: less_imp_le)
      moreover have "taken ss (lotNumber lot) loc \<le> max 0 (lot_at bs (lotNumber lot) loc)" for loc using IH by blast
      ultimately have "taken ss (lotNumber lot) loc = max 0 (lot_at bs (lotNumber lot) loc)" for loc
        by (simp add: none order_antisym)
      with IH show ?thesis by auto
    next
      case (Some m)
      obtain ss1 left1 m' ss2 where run1: "pick_lot lot m n m = (ss1, left1, m')"
          and run2: "pick_lots lots left1 (AList.update (lotNumber lot) m' bs) = (ss2, left)" and ss: "ss = ss1 @ ss2"
        using n Cons.prems(1) by (auto simp: Some Let_def split: prod.splits)
      have "(lotNumber lot, m) \<in> set bs" using Some by (rule map_of_SomeD)
      then have dm: "distinct (map fst m)" using Cons.prems(3) by auto
      have look: "lookup_or 0 m loc = q" if "(loc, q) \<in> set m" for loc q
        using that dm by (simp add: lookup_or_def)
      note one = pick_lot_spec [OF run1 Cons.prems(2) dm look]
      have left1: "0 \<le> left1" using one by blast
      have keys: "\<forall>(l, k)\<in>set (AList.update (lotNumber lot) m' bs). distinct (map fst k)"
        using one dm Cons.prems(3) by (auto dest!: set_js_set)
      note IH = Cons.IH [OF run2 left1 keys]
      have m_at: "lot_at bs (lotNumber lot) loc = lookup_or 0 m loc" for loc
        by (simp add: lot_at_def lookup_or_def Some)
      have other: "taken ss1 k loc = 0" if "k \<noteq> lotNumber lot" for k loc
      proof -
        have "\<forall>s\<in>set ss1. sg_lot s = lotNumber lot" using one by blast
        then show ?thesis using that by (induction ss1) auto
      qed
      have bal: "lot_at (AList.update (lotNumber lot) m' bs) k loc = lot_at bs k loc - taken ss1 k loc" for k loc
        using one other m_at by (cases "k = lotNumber lot") (simp_all add: lot_at_def)
      have le1: "taken ss1 k loc \<le> max 0 (lot_at bs k loc)" for k loc
        using one other [of k loc] m_at by (cases "k = lotNumber lot") simp_all
      have pos: "0 \<le> taken ss2 k loc" "0 \<le> taken ss1 k loc" for k loc
        unfolding taken_def using IH one by (intro sum_list_nonneg; force intro: less_imp_le)+
      have le: "taken ss k loc \<le> max 0 (lot_at bs k loc)" for k loc
      proof -
        have "taken ss2 k loc \<le> max 0 (lot_at bs k loc - taken ss1 k loc)" using IH unfolding bal [symmetric] by blast
        with le1 [of k loc] show ?thesis by (auto simp: ss)
      qed
      have full: "taken ss (lotNumber l) loc = max 0 (lot_at bs (lotNumber l) loc)" if "0 < left" "l \<in> set (lot # lots)" for l loc
      proof (cases "l \<in> set lots")
        case True
        with IH that(1) have "taken ss2 (lotNumber l) loc = max 0 (lot_at bs (lotNumber l) loc - taken ss1 (lotNumber l) loc)"
          unfolding bal [symmetric] by blast
        with le1 [of "lotNumber l" loc] pos(2) [of "lotNumber l" loc] show ?thesis by (auto simp: ss)
      next
        case False
        with that have l: "l = lot" by simp
        have "0 \<le> (\<Sum>s\<leftarrow>ss2. sg_quantity s)" using IH by (intro sum_list_nonneg) (auto intro: less_imp_le)
        with IH that(1) have "0 < left1" by linarith
        have "lookup_or 0 m' loc \<le> 0"
        proof (cases "loc \<in> fst ` set m")
          case True
          with one \<open>0 < left1\<close> show ?thesis by blast
        next
          case False
          then have "map_of m loc = None" by (simp add: map_of_eq_None_iff)
          then have "lookup_or 0 m loc = 0" by (simp add: lookup_or_def)
          moreover have "lookup_or 0 m' loc = lookup_or 0 m loc" using one False by blast
          ultimately show ?thesis by simp
        qed
        then have "lot_at bs (lotNumber lot) loc \<le> taken ss1 (lotNumber lot) loc"
          using bal [of "lotNumber lot" loc] by (simp add: lot_at_def)
        with le [of "lotNumber lot" loc] le1 [of "lotNumber lot" loc] pos [of "lotNumber lot" loc] show ?thesis by (auto simp: l ss)
      qed
      have sorted: "sorted (map sg_expiration ss)" if "sorted (map expirationDate (lot # lots))"
      proof -
        have "\<forall>s\<in>set ss1. sg_expiration s = expirationDate lot" using one by blast
        then have "map sg_expiration ss1 = replicate (length ss1) (expirationDate lot)" by (induction ss1) auto
        moreover have "\<forall>s\<in>set ss2. expirationDate lot \<le> sg_expiration s" using IH that by fastforce
        ultimately show ?thesis using IH that by (auto simp: ss sorted_append sorted_replicate)
      qed
      show ?thesis
        using IH one le full sorted by (auto simp: ss)
    qed
  qed
qed

lemma taken_total:
  assumes "finite A" and "\<forall>s\<in>set ss. 0 \<le> sg_quantity s"
  shows "(\<Sum>p\<in>A. taken ss (fst p) (snd p)) \<le> (\<Sum>s\<leftarrow>ss. sg_quantity s)"
  using assms(2)
proof (induction ss)
  case Nil
  then show ?case by simp
next
  case (Cons s ss)
  have "(\<Sum>p\<in>A. if sg_lot s = fst p \<and> sg_location s = snd p then sg_quantity s else 0) =
      (\<Sum>p\<in>A. if p = (sg_lot s, sg_location s) then sg_quantity s else 0)"
    by (intro sum.cong) auto
  also have "\<dots> \<le> sg_quantity s" using assms(1) Cons.prems by (simp add: sum.delta)
  finally show ?case using Cons by (simp add: sum.distrib)
qed

lemma fefo_lots_sorted: "sorted (map expirationDate (List.map_filter llot (pg_getActiveLayers tbl v ExpirationAsc)))"
proof -
  have "sorted (map expiry (pg_getActiveLayers tbl v ExpirationAsc))"
    by (simp add: pg_getActiveLayers_def order_rows_def)
  moreover have "sorted (map expiry ls) \<Longrightarrow> sorted (map expirationDate (List.map_filter llot ls))" for ls
  proof (induction ls)
    case (Cons l ls)
    have "expirationDate x \<le> expirationDate y" if x: "llot l = Some x" and y: "y \<in> set (List.map_filter llot ls)" for x y
    proof -
      obtain l' where l': "l' \<in> set ls" "llot l' = Some y" using y by (auto simp: map_filter_def)
      then have "expiry l \<le> expiry l'" using Cons.prems by simp
      with l' x show ?thesis by (simp add: expiry_def)
    qed
    with Cons show ?case by (auto simp: map_filter_simps split: option.splits)
  qed (simp add: map_filter_simps)
  ultimately show ?thesis by blast
qed

text \<open>
  C33. A first-expired-first-out picking plan over the ledger and the table of cost layers. A plan that
  is returned picks exactly the quantity asked for, in the order of the expiration dates, every line a
  positive quantity, and takes of no lot at no location more than the ledger says is there. A refusal
  means that all the stock of the lots with active layers, at all locations together, is less than asked for.
\<close>

theorem fefo_pick_plan:
  assumes "0 < q" and "variant_of prepo sku = Inr v"
    and "es = mem_entriesFor ledger (pv_id v) None"
    and "lots = List.map_filter llot (pg_getActiveLayers tbl (pv_id v) ExpirationAsc)"
  shows "case suggestFefoPicking pg_layers mem_ledger prepo tbl ledger sku q of
      Inl e \<Rightarrow> (\<Sum>p\<in>lotNumber ` set lots \<times> le_location ` set es. max 0 (lot_on_hand es (fst p) (snd p))) < q
    | Inr ss \<Rightarrow> (\<Sum>s\<leftarrow>ss. sg_quantity s) = q \<and> sorted (map sg_expiration ss) \<and> (\<forall>s\<in>set ss. 0 < sg_quantity s)
        \<and> (\<forall>lot loc. taken ss lot loc \<le> max 0 (lot_on_hand es lot loc))"
proof -
  obtain ss left where pick: "pick_lots lots q (lotBalances es) = (ss, left)" by fastforce
  have q: "0 \<le> q" using assms(1) by simp
  have keys: "\<forall>(l, m)\<in>set (lotBalances es). distinct (map fst m)" using lotBalances_keys [of es] by auto
  note spec = pick_lots_spec [OF pick q keys, unfolded lotBalances_at]
  have run: "suggestFefoPicking pg_layers mem_ledger prepo tbl ledger sku q =
      (if lots = [] then Inl (Error ''No lot-controlled inventory layers found for SKU {}.'' [S sku])
       else if 0 < left then Inl (Error ''Insufficient lot-controlled inventory available to pick {} units for SKU {} (Missing: {}).''
            [N q, S sku, N left])
       else Inr ss)"
    using assms(1,2) pick by (simp add: suggestFefoPicking_def pg_layers_def mem_ledger_def Let_def flip: assms(3,4))
  show ?thesis
  proof (cases "lots = [] \<or> 0 < left")
    case True
    have "(\<Sum>p\<in>lotNumber ` set lots \<times> le_location ` set es. max 0 (lot_on_hand es (fst p) (snd p))) < q"
    proof (cases "lots = []")
      case False
      with True have left: "0 < left" by simp
      have "(\<Sum>p\<in>lotNumber ` set lots \<times> le_location ` set es. max 0 (lot_on_hand es (fst p) (snd p))) =
          (\<Sum>p\<in>lotNumber ` set lots \<times> le_location ` set es. taken ss (fst p) (snd p))"
        using spec left by (intro sum.cong) auto
      also have "\<dots> \<le> (\<Sum>s\<leftarrow>ss. sg_quantity s)" using spec by (intro taken_total) (auto intro: less_imp_le)
      also have "\<dots> < q" using spec left by linarith
      finally show ?thesis .
    qed (use assms(1) in simp)
    with True show ?thesis by (auto simp: run)
  next
    case False
    moreover have "sorted (map expirationDate lots)" unfolding assms(4) by (rule fefo_lots_sorted)
    ultimately show ?thesis using spec by (auto simp: run)
  qed
qed

definition lot_layer :: "string \<Rightarrow> time \<Rightarrow> cost_layer" where
  "lot_layer n d = \<lparr>lid = n, lvariant = ''v1'', initialQuantity = 10, unitCostCents = 5, receivedAt = 1, lserial = None,
     llot = Some \<lparr>lotNumber = n, expirationDate = d\<rparr>, consumedQuantity = 0\<rparr>"

definition lot_entry :: "string \<Rightarrow> ident \<Rightarrow> number \<Rightarrow> ledger_entry" where
  "lot_entry n loc q = \<lparr>le_id = ''e1'', le_tenant = ''t1'', le_location = loc, le_variant = ''v1'', le_quantity = q,
     le_reason = PurchaseReceipt, le_actor = ''a1'', le_occurredAt = 1, le_reference = None, le_metadata = [(''lotNumber'', S n)]\<rparr>"

theorem fefo_pick_plan_witness:
  "\<exists>ss. suggestFefoPicking pg_layers mem_ledger (mem_products heavy_catalogue) [lot_layer ''L2'' 20, lot_layer ''L1'' 10]
      [lot_entry ''L1'' ''loc-1'' 4, lot_entry ''L2'' ''loc-1'' 9] ''WIDGET-1'' 6 = Inr ss
    \<and> (\<Sum>s\<leftarrow>ss. sg_quantity s) = 6 \<and> sorted (map sg_expiration ss) \<and> taken ss ''L1'' ''loc-1'' \<le> 4"
proof -
  let ?tbl = "[lot_layer ''L2'' 20, lot_layer ''L1'' 10]" and ?es = "[lot_entry ''L1'' ''loc-1'' 4, lot_entry ''L2'' ''loc-1'' 9]"
  let ?v = "snd (hd (pr_bySku (snd (hd heavy_catalogue))))"
  have "\<not> isl (suggestFefoPicking pg_layers mem_ledger (mem_products heavy_catalogue) ?tbl ?es ''WIDGET-1'' 6)" by code_simp
  then obtain ss where ss: "suggestFefoPicking pg_layers mem_ledger (mem_products heavy_catalogue) ?tbl ?es ''WIDGET-1'' 6 = Inr ss"
    by (metis sum.collapse(2))
  have v: "variant_of (mem_products heavy_catalogue) ''WIDGET-1'' = Inr ?v" by code_simp
  have "lot_on_hand (mem_entriesFor ?es (pv_id ?v) None) ''L1'' ''loc-1'' = 4" by code_simp
  moreover have "(\<Sum>s\<leftarrow>ss. sg_quantity s) = 6 \<and> sorted (map sg_expiration ss)
      \<and> taken ss ''L1'' ''loc-1'' \<le> max 0 (lot_on_hand (mem_entriesFor ?es (pv_id ?v) None) ''L1'' ''loc-1'')"
    using fefo_pick_plan [OF _ v refl refl, of 6 ?es ?tbl] ss by auto
  ultimately show ?thesis using ss by simp
qed

section \<open>A route visits every pick once, in serpentine order\<close>

lemma sorted_groups:
  assumes "sorted (map f ys)" and "\<And>k. sorted_wrt R (filter (\<lambda>y. f y = k) ys)"
  shows "sorted_wrt (\<lambda>a b. f a < f b \<or> f a = f b \<and> R a b) ys"
  using assms
proof (induction ys)
  case (Cons y ys)
  have "sorted_wrt R (filter (\<lambda>y. f y = k) ys)" for k using Cons.prems(2) [of k] by (auto split: if_splits)
  moreover have "R y b" if "b \<in> set ys" "f b = f y" for b using Cons.prems(2) [of "f y"] that by auto
  ultimately show ?case using Cons by (auto simp: order.order_iff_strict)
qed simp

lemma stable_sort:
  assumes "sorted_wrt R xs"
  shows "sorted_wrt (\<lambda>a b. f a < f b \<or> f a = f b \<and> R a b) (sort_key f xs)"
proof (rule sorted_groups)
  show "sorted_wrt R (filter (\<lambda>y. f y = k) (sort_key f xs))" for k
    using assms by (simp add: sort_key_stable sorted_wrt_filter)
qed simp

definition route_before :: "(string \<Rightarrow> int) \<Rightarrow> route_item \<Rightarrow> route_item \<Rightarrow> bool" where
  "route_before rank a b \<longleftrightarrow>
     getAisleIndex (ro_aisle a) < getAisleIndex (ro_aisle b)
     \<or> getAisleIndex (ro_aisle a) = getAisleIndex (ro_aisle b)
       \<and> (serpentine rank ro_rack a < serpentine rank ro_rack b
          \<or> serpentine rank ro_rack a = serpentine rank ro_rack b
            \<and> (serpentine rank ro_shelf a < serpentine rank ro_shelf b
               \<or> serpentine rank ro_shelf a = serpentine rank ro_shelf b \<and> serpentine rank ro_bin a \<le> serpentine rank ro_bin b))"

lemma sort_route_sorted: "sorted_wrt (route_before rank) (sort_route rank is)"
proof -
  have "sorted_wrt (\<lambda>a b. serpentine rank ro_bin a < serpentine rank ro_bin b \<or> serpentine rank ro_bin a = serpentine rank ro_bin b \<and> True)
      (sort_key (serpentine rank ro_bin) is)"
    by (rule stable_sort) (simp add: sorted_wrt_iff_nth_less)
  then have "sorted_wrt (\<lambda>a b. serpentine rank ro_bin a \<le> serpentine rank ro_bin b) (sort_key (serpentine rank ro_bin) is)"
    by (simp add: order.order_iff_strict)
  from stable_sort [OF stable_sort [OF stable_sort [OF this, of "serpentine rank ro_shelf"], of "serpentine rank ro_rack"],
      of "\<lambda>i. getAisleIndex (ro_aisle i)"]
  show ?thesis unfolding sort_route_def by (rule sorted_wrt_mono_rel [rotated]) (auto simp: route_before_def)
qed

lemma mset_sort_route [simp]: "mset (sort_route rank is) = mset is"
  by (simp add: sort_route_def)

lemma grow_group:
  assumes "distinct (map fst m)"
  shows "mset (concat (map snd (AList.update k (lookup_or [] m k @ [x]) m))) = add_mset x (mset (concat (map snd m)))"
  using assms
proof (induction m)
  case (Cons p m)
  obtain k' xs where p: "p = (k', xs)" by fastforce
  show ?case
  proof (cases "k' = k")
    case True
    then show ?thesis by (simp add: p lookup_or_def)
  next
    case False
    with Cons show ?thesis by (auto simp: p lookup_or_def)
  qed
qed (simp add: lookup_or_def)

lemma group_routes_spec:
  "distinct (map fst (group_routes is)) \<and> mset (concat (map snd (group_routes is))) = mset is
   \<and> (\<forall>(w, xs)\<in>set (group_routes is). xs \<noteq> [] \<and> (\<forall>i\<in>set xs. ro_warehouse i = w))"
proof -
  let ?f = "\<lambda>i m. AList.update (ro_warehouse i) (lookup_or [] m (ro_warehouse i) @ [i]) m"
  have "distinct (map fst (fold ?f is m)) \<and> mset (concat (map snd (fold ?f is m))) = mset is + mset (concat (map snd m))
      \<and> (\<forall>(w, xs)\<in>set (fold ?f is m). xs \<noteq> [] \<and> (\<forall>i\<in>set xs. ro_warehouse i = w))"
    if "distinct (map fst m)" "\<forall>(w, xs)\<in>set m. xs \<noteq> [] \<and> (\<forall>i\<in>set xs. ro_warehouse i = w)" for m
    using that
  proof (induction "is" arbitrary: m)
    case (Cons i "is")
    have "\<forall>j\<in>set (lookup_or [] m (ro_warehouse i)). ro_warehouse j = ro_warehouse i"
    proof (cases "map_of m (ro_warehouse i)")
      case (Some xs)
      from Cons.prems(2) map_of_SomeD [OF this] show ?thesis by (fastforce simp: lookup_or_def Some)
    qed (simp add: lookup_or_def)
    then have "\<forall>(w, xs)\<in>set (?f i m). xs \<noteq> [] \<and> (\<forall>i\<in>set xs. ro_warehouse i = w)"
      using Cons.prems(2) by (auto dest!: set_js_set)
    from Cons.IH [OF _ this] show ?case using Cons.prems(1) grow_group [OF Cons.prems(1)] by (simp add: distinct_update)
  qed simp
  from this [of "[]"] show ?thesis by (simp add: group_routes_def)
qed

lemma route_items_map:
  assumes "route_items m its = Inr rs"
  shows "map (\<lambda>i. (ro_sku i, ro_location i, ro_quantity i)) rs = map (\<lambda>i. (pi_sku i, pi_location i, pi_quantity i)) its"
  using assms unfolding route_items_def
  by (induction its arbitrary: rs) (auto split: sum.splits option.splits)

text \<open>
  A picking route visits every pick exactly once: the routes that are returned name different
  warehouses, each route holds picks of its warehouse only and at least one, all the routes together hold the
  picks that were asked for, with their quantities, and every route goes through the aisles in ascending
  order, through an odd aisle forward and through an even one backward.
\<close>

theorem route_is_serpentine:
  assumes "optimizeRoute rank lrepo l items = Inr routes"
  shows "distinct (map fst routes)
    \<and> (\<forall>(w, is)\<in>set routes. is \<noteq> [] \<and> (\<forall>i\<in>set is. ro_warehouse i = w) \<and> sorted_wrt (route_before rank) is)
    \<and> mset (map (\<lambda>i. (ro_sku i, ro_location i, ro_quantity i)) (concat (map snd routes))) =
        mset (map (\<lambda>i. (pi_sku i, pi_location i, pi_quantity i)) items)"
proof (cases "items = []")
  case True
  with assms show ?thesis by (simp add: optimizeRoute_def)
next
  case False
  then obtain m rs where rs: "route_items m items = Inr rs"
      and routes: "routes = map (\<lambda>(w, is). (w, sort_route rank is)) (group_routes rs)"
    using assms by (auto simp: optimizeRoute_def result_bind_Inr_iff Let_def)
  note g = group_routes_spec [of rs]
  have keys: "map fst routes = map fst (group_routes rs)" by (simp add: routes case_prod_beta o_def)
  have each: "is' \<noteq> [] \<and> (\<forall>i\<in>set is'. ro_warehouse i = w) \<and> sorted_wrt (route_before rank) is'" if route: "(w, is') \<in> set routes" for w is'
  proof -
    obtain xs where xs: "(w, xs) \<in> set (group_routes rs)" "is' = sort_route rank xs" using route by (auto simp: routes)
    have "set is' = set xs" unfolding xs(2) using mset_sort_route by (rule mset_eq_setD)
    moreover have "xs \<noteq> [] \<and> (\<forall>i\<in>set xs. ro_warehouse i = w)" using g xs(1) by auto
    ultimately show ?thesis using sort_route_sorted [of rank xs] by (auto simp: xs(2))
  qed
  have regrouped: "mset (concat (map snd (map (\<lambda>(w, is). (w, sort_route rank is)) gs))) = mset (concat (map snd gs))" for gs
    by (induction gs) auto
  have all: "mset (concat (map snd routes)) = mset rs"
    unfolding routes by (rule trans [OF regrouped]) (rule conjunct1 [OF conjunct2 [OF g]])
  have picks: "mset (map (\<lambda>i. (ro_sku i, ro_location i, ro_quantity i)) (concat (map snd routes))) =
      mset (map (\<lambda>i. (pi_sku i, pi_location i, pi_quantity i)) items)"
    by (simp only: mset_map all flip: route_items_map [OF rs])
  show ?thesis
  proof (intro conjI)
    show "distinct (map fst routes)" unfolding keys by (rule conjunct1 [OF g])
    show "\<forall>(w, is)\<in>set routes. is \<noteq> [] \<and> (\<forall>i\<in>set is. ro_warehouse i = w) \<and> sorted_wrt (route_before rank) is"
      using each by blast
  qed (rule picks)
qed

definition aisle_location :: "string \<Rightarrow> string \<Rightarrow> string \<Rightarrow> ident \<times> warehouse_location" where
  "aisle_location i aisle rack = (i, \<lparr>wl_id = i, wl_warehouse = ''WH1'', wl_zone = ''Z'', wl_aisle = aisle, wl_rack = rack,
     wl_shelf = ''S1'', wl_bin = ''B1'', wl_maxWeight = 1, wl_maxVolume = 1\<rparr>)"

theorem route_is_serpentine_witness:
  "\<exists>routes. optimizeRoute (\<lambda>s. int (length s)) mem_locations [aisle_location ''a'' ''A2'' ''R'', aisle_location ''b'' ''A1'' ''R'']
      [\<lparr>pi_sku = ''X'', pi_quantity = 1, pi_location = ''a''\<rparr>, \<lparr>pi_sku = ''Y'', pi_quantity = 2, pi_location = ''b''\<rparr>] = Inr routes
    \<and> mset (map (\<lambda>i. (ro_sku i, ro_location i, ro_quantity i)) (concat (map snd routes))) = {#(''X'', ''a'', 1), (''Y'', ''b'', 2)#}"
proof -
  let ?r = "optimizeRoute (\<lambda>s. int (length s)) mem_locations [aisle_location ''a'' ''A2'' ''R'', aisle_location ''b'' ''A1'' ''R'']
      [\<lparr>pi_sku = ''X'', pi_quantity = 1, pi_location = ''a''\<rparr>, \<lparr>pi_sku = ''Y'', pi_quantity = 2, pi_location = ''b''\<rparr>]"
  let ?locs = "[aisle_location ''a'' ''A2'' ''R'', aisle_location ''b'' ''A1'' ''R'']"
  have ids: "result_map LocationId (js_set [''a'', ''b'']) = Inr [''a'', ''b'']" by code_simp
  have found: "find_locations mem_locations ?locs [''a'', ''b''] = Inr (map snd ?locs)" by code_simp
  have "\<exists>routes. ?r = Inr routes"
    by (simp add: optimizeRoute_def ids found result_bind_def) (simp add: route_items_def aisle_location_def)
  then obtain routes where routes: "?r = Inr routes" by blast
  note picks = conjunct2 [OF conjunct2 [OF route_is_serpentine [OF routes]], unfolded list.map pick_input.simps mset.simps]
  show ?thesis by (intro exI [of _ routes] conjI routes picks)
qed

section \<open>Cross-docking assigns what came in\<close>

lemma assign_backorders_spec:
  assumes "assign_backorders bs n = (as, left)" and "0 \<le> n" and "\<forall>b\<in>set bs. 0 \<le> bo_quantity b"
  shows "0 \<le> left \<and> (\<Sum>(w, q, p)\<leftarrow>as. q) + left = n
    \<and> list_all2 (\<lambda>(w, q, p) b. w = bo_order b \<and> 0 \<le> q \<and> q \<le> bo_quantity b \<and> p = priority_or 1 b) as (take (length as) bs)
    \<and> (0 < left \<longrightarrow> left = n - (\<Sum>b\<leftarrow>bs. bo_quantity b))"
  using assms
proof (induction bs arbitrary: n as left)
  case (Cons b bs)
  show ?case
  proof (cases "n \<le> 0")
    case False
    define a where "a = min n (bo_quantity b)"
    obtain as' where run: "assign_backorders bs (n - a) = (as', left)" "as = (bo_order b, a, priority_or 1 b) # as'"
      using Cons.prems(1) False by (auto simp: a_def Let_def split: prod.splits)
    have a: "0 \<le> a" "a \<le> n" "a \<le> bo_quantity b" using False Cons.prems(3) by (auto simp: a_def)
    then have nn: "0 \<le> n - a" by simp
    have bs: "\<forall>b\<in>set bs. 0 \<le> bo_quantity b" using Cons.prems(3) by simp
    note IH = Cons.IH [OF run(1) nn bs]
    have "left = n - (\<Sum>b\<leftarrow>b # bs. bo_quantity b)" if "0 < left"
    proof -
      have "(\<Sum>(w, q, p)\<leftarrow>as'. q) = n - a - left" using IH by simp
      have "0 \<le> (\<Sum>b\<leftarrow>bs. bo_quantity b)" using bs by (intro sum_list_nonneg) auto
      moreover have left: "left = n - a - (\<Sum>b\<leftarrow>bs. bo_quantity b)" using IH that by blast
      ultimately have "a = bo_quantity b" using that by (auto simp: a_def min_def split: if_splits)
      with left show ?thesis by simp
    qed
    then show ?thesis using IH a by (auto simp: run(2))
  qed (use Cons.prems in auto)
qed simp

text \<open>A later inbound line of the same variant is matched with the same backorders again.\<close>

lemma second_line_assigns_again:
  "map (\<lambda>c. (cd_variant c, cd_quantity c)) (cross_dock_evaluate ''po-1'' [(''v1'', 5), (''v1'', 5)]
     [\<lparr>bo_order = ''o1'', bo_variant = ''v1'', bo_quantity = 5, bo_priority = None\<rparr>]) = [(''v1'', 5), (''v1'', 5)]"
  by code_simp

end
