(* ===== verification/Onboarding.thy ===== *)
theory Onboarding
  imports Ledger
begin

text \<open>
  Opening balances: src/src/domain/entities/StockOnboarding.ts with its items and events,
  OpeningBalanceService.ts, PostgresStockOnboardingRepository.ts, and the use cases of
  ManageOnboardings.ts and SubmitOpeningBalance.ts. \<open>to_uuid\<close> is the function of utils/uuid.ts, a hash.
\<close>

section \<open>The onboarding\<close>

datatype onboarding_status = Draft_onboarding | Submitted_onboarding

datatype onboarding_event =
    StockOnboardingSubmitted ident ident time
  | OpeningBalancePosted ident number ident time

record onboarding_item =
  oi_variant :: ident
  oi_quantity :: number
  oi_cost :: number

definition StockOnboardingItem :: "ident \<Rightarrow> number \<Rightarrow> number \<Rightarrow> onboarding_item result" where
  "StockOnboardingItem v q c =
     (if q < 0 then Inl (Error ''Opening balance quantity cannot be negative.'' [])
      else if \<not> is_integer q then Inl (Error ''Opening balance quantity must be an integer.'' [])
      else if c < 0 then Inl (Error ''Unit cost cannot be negative.'' [])
      else if \<not> is_integer c then Inl (Error ''Unit cost must be an integer (cents).'' [])
      else Inr \<lparr>oi_variant = v, oi_quantity = q, oi_cost = c\<rparr>)"

record onboarding =
  ob_id :: ident
  ob_tenant :: ident
  ob_location :: ident
  ob_asOfDate :: time
  ob_status :: onboarding_status
  ob_items :: "(ident, onboarding_item) js_map"
  ob_events :: "onboarding_event list"

definition StockOnboarding :: "ident \<Rightarrow> ident \<Rightarrow> ident \<Rightarrow> time \<Rightarrow> onboarding" where
  "StockOnboarding i tenant loc asOf = \<lparr>ob_id = i, ob_tenant = tenant, ob_location = loc, ob_asOfDate = asOf,
     ob_status = Draft_onboarding, ob_items = [], ob_events = []\<rparr>"

definition isSubmitted :: "onboarding \<Rightarrow> bool" where
  "isSubmitted b \<longleftrightarrow> ob_status b = Submitted_onboarding"

definition onboarding_items :: "onboarding \<Rightarrow> onboarding_item list" where
  "onboarding_items b = map snd (ob_items b)"

definition assertDraft :: "(onboarding, unit) oper" where
  "assertDraft = op_get (\<lambda>b. op_reject (ob_status b \<noteq> Draft_onboarding) (OnboardingAlreadySubmittedError (ob_id b)))"

definition setItem :: "ident \<Rightarrow> number \<Rightarrow> number \<Rightarrow> (onboarding, unit) oper" where
  "setItem v q c = op_seq assertDraft (op_bind (op_lift (StockOnboardingItem v q c)) (\<lambda>x.
     op_modify (\<lambda>b. b\<lparr>ob_items := AList.update v x (ob_items b)\<rparr>)))"

definition removeItem :: "ident \<Rightarrow> (onboarding, unit) oper" where
  "removeItem v = op_seq assertDraft (op_modify (\<lambda>b. b\<lparr>ob_items := AList.delete v (ob_items b)\<rparr>))"

definition ob_submit :: "time \<Rightarrow> (onboarding, unit) oper" where
  "ob_submit now = op_seq assertDraft (op_get (\<lambda>b.
     op_seq (op_reject (length (ob_items b) = 0) (Error ''Cannot submit a stock onboarding with no items.'' []))
     (op_modify (\<lambda>b. b\<lparr>ob_status := Submitted_onboarding,
        ob_events := ob_events b @ [StockOnboardingSubmitted (ob_id b) (ob_location b) now]\<rparr>))))"

definition ob_pullDomainEvents :: "(onboarding, onboarding_event list) oper" where
  "ob_pullDomainEvents = op_get (\<lambda>b. op_seq (op_modify (\<lambda>b. b\<lparr>ob_events := []\<rparr>)) (op_return (ob_events b)))"

lemmas onboarding_op_defs [model_defs] = assertDraft_def setItem_def removeItem_def ob_submit_def

section \<open>The tables\<close>

record 'o onboarding_repo =
  find_onboarding :: "'o \<Rightarrow> ident \<Rightarrow> onboarding option result"
  find_onboardings :: "'o \<Rightarrow> ident \<Rightarrow> onboarding list result"
  save_onboarding :: "onboarding \<Rightarrow> ('o, unit) oper"

record onboarding_row =
  os_id :: ident
  os_tenant :: ident
  os_location :: ident
  os_status :: onboarding_status
  os_asOfDate :: time
  os_createdAt :: time

record onboarding_item_row =
  ot_onboarding :: ident
  ot_variant :: ident
  ot_quantity :: number
  ot_cost :: number

record onboarding_db =
  ob_rows :: "onboarding_row list"
  ob_item_rows :: "onboarding_item_row list"

definition onboarding_of_row :: "onboarding_db \<Rightarrow> onboarding_row \<Rightarrow> onboarding result" where
  "onboarding_of_row s r =
     result_bind (StockOnboardingId (os_id r)) (\<lambda>i. result_bind (TenantId (os_tenant r)) (\<lambda>tenant.
     result_bind (LocationId (os_location r)) (\<lambda>loc.
       let b = (StockOnboarding i tenant loc (os_asOfDate r))\<lparr>ob_status := os_status r\<rparr> in
       case op_each (\<lambda>t. op_bind (op_lift (ProductVariantId (ot_variant t))) (\<lambda>v. setItem v (ot_quantity t) (ot_cost t)))
           (filter (\<lambda>t. ot_onboarding t = os_id r) (ob_item_rows s)) b of
         (Inl e, b') \<Rightarrow> Inl e | (Inr _, b') \<Rightarrow> Inr b')))"

definition pb_findById :: "(string \<Rightarrow> string) \<Rightarrow> onboarding_db \<Rightarrow> ident \<Rightarrow> onboarding option result" where
  "pb_findById to_uuid s i = (case find (\<lambda>r. os_id r = to_uuid i) (ob_rows s) of
     None \<Rightarrow> Inr None | Some r \<Rightarrow> result_bind (onboarding_of_row s r) (Inr \<circ> Some))"

definition pb_findAllByTenant :: "onboarding_db \<Rightarrow> ident \<Rightarrow> onboarding list result" where
  "pb_findAllByTenant s tenant =
     result_map (onboarding_of_row s) (sort_key (\<lambda>r. - os_createdAt r) (filter (\<lambda>r. os_tenant r = tenant) (ob_rows s)))"

text \<open>The transaction of \<open>save\<close>; the unique key of the item table can make its last step, and so all of it, fail.\<close>

definition pb_save :: "(string \<Rightarrow> string) \<Rightarrow> time \<Rightarrow> onboarding \<Rightarrow> (onboarding_db, unit) oper" where
  "pb_save to_uuid now b = (let dbId = to_uuid (ob_id b);
       newItems = map (\<lambda>x. \<lparr>ot_onboarding = dbId, ot_variant = to_uuid (oi_variant x), ot_quantity = oi_quantity x,
         ot_cost = oi_cost x\<rparr>) (onboarding_items b) in
     op_seq (op_reject (\<not> distinct (map ot_variant newItems)) (Error ''Unique constraint failed'' []))
     (op_modify (\<lambda>s. s\<lparr>ob_rows :=
         (if find (\<lambda>r. os_id r = dbId) (ob_rows s) = None
          then ob_rows s @ [\<lparr>os_id = dbId, os_tenant = ob_tenant b, os_location = ob_location b, os_status = ob_status b,
            os_asOfDate = ob_asOfDate b, os_createdAt = now\<rparr>]
          else map (\<lambda>r. if os_id r = dbId then r\<lparr>os_status := ob_status b, os_asOfDate := ob_asOfDate b\<rparr> else r) (ob_rows s)),
       ob_item_rows := filter (\<lambda>t. ot_onboarding t \<noteq> dbId) (ob_item_rows s) @ newItems\<rparr>)))"

definition pg_onboardings :: "(string \<Rightarrow> string) \<Rightarrow> time \<Rightarrow> onboarding_db onboarding_repo" where
  "pg_onboardings to_uuid now = \<lparr>find_onboarding = pb_findById to_uuid, find_onboardings = pb_findAllByTenant,
     save_onboarding = pb_save to_uuid now\<rparr>"

section \<open>Posting an opening balance\<close>

record ('o, 'l) onboarding_world =
  bw_onboardings :: 'o
  bw_ledger :: 'l
  bw_events :: "onboarding_event list"

abbreviation on_onboardings :: "('o, 'r) oper \<Rightarrow> (('o, 'l) onboarding_world, 'r) oper" where
  "on_onboardings m \<equiv> op_zoom bw_onboardings (\<lambda>s w. w\<lparr>bw_onboardings := s\<rparr>) m"

abbreviation on_balance_ledger :: "('l, 'r) oper \<Rightarrow> (('o, 'l) onboarding_world, 'r) oper" where
  "on_balance_ledger m \<equiv> op_zoom bw_ledger (\<lambda>s w. w\<lparr>bw_ledger := s\<rparr>) m"

definition opening_entry ::
    "(nat \<Rightarrow> string) \<Rightarrow> onboarding \<Rightarrow> ident \<Rightarrow> nat \<times> onboarding_item \<Rightarrow> ledger_entry result" where
  "opening_entry uuid b actor = (\<lambda>(n, x). result_bind (LedgerEntryId (uuid n)) (\<lambda>i.
     LedgerEntry i (ob_tenant b) (ob_location b) (oi_variant x) (oi_quantity x) OpeningBalance actor (ob_asOfDate b)
       (Some (ob_id b)) [(''unitCostCents'', N (oi_cost x))]))"

definition balance_process ::
    "(nat \<Rightarrow> string) \<Rightarrow> time \<Rightarrow> 'l ledger_repo \<Rightarrow> onboarding \<Rightarrow> ident \<Rightarrow> (('o, 'l) onboarding_world, unit) oper" where
  "balance_process uuid now lrepo b actor =
     op_seq (op_reject (\<not> isSubmitted b) (Error ''Only submitted onboardings can be processed. Call submit() first.'' []))
     (op_get (\<lambda>w. let hasEntriesBatch = hasAnyEntriesBatch lrepo (bw_ledger w) (map oi_variant (onboarding_items b)) (ob_location b) in
     op_seq (op_each (\<lambda>x. op_reject (lookup_or False hasEntriesBatch (oi_variant x))
         (OpeningBalanceConflictError (oi_variant x) (ob_location b))) (onboarding_items b))
     (op_bind (op_lift (result_map (opening_entry uuid b actor) (enumerate 0 (onboarding_items b)))) (\<lambda>entries.
     op_seq (on_balance_ledger (appendBatch lrepo entries))
     (op_each (\<lambda>x. op_modify (\<lambda>w. w\<lparr>bw_events := bw_events w @
         [OpeningBalancePosted (oi_variant x) (oi_quantity x) (ob_id b) now]\<rparr>)) (onboarding_items b))))))"

section \<open>The use cases\<close>

text \<open>\<open>for (const item of input.items) onboarding.setItem(new ProductVariantId(item.variantId), ..)\<close>\<close>

definition set_items :: "(string \<times> number \<times> number) list \<Rightarrow> (onboarding, unit) oper" where
  "set_items = op_each (\<lambda>(variantId, q, c). op_bind (op_lift (ProductVariantId variantId)) (\<lambda>v. setItem v q c))"

definition load_onboarding :: "'o onboarding_repo \<Rightarrow> string \<Rightarrow> (('o, 'l) onboarding_world, onboarding) oper" where
  "load_onboarding brepo i =
     op_bind (op_lift (StockOnboardingId i)) (\<lambda>i'.
     op_bind (op_get (\<lambda>w. op_lift (find_onboarding brepo (bw_onboardings w) i'))) (\<lambda>found.
     case found of None \<Rightarrow> op_throw (Error ''Stock onboarding {} not found.'' [S i]) | Some b \<Rightarrow> op_return b))"

definition CreateStockOnboardingUseCase ::
    "string \<Rightarrow> time \<Rightarrow> 'o onboarding_repo \<Rightarrow> string \<Rightarrow> string \<Rightarrow> (('o, 'l) onboarding_world, string) oper" where
  "CreateStockOnboardingUseCase uuid now brepo tenantId locationId =
     op_bind (op_lift (StockOnboardingId uuid)) (\<lambda>i. op_bind (op_lift (TenantId tenantId)) (\<lambda>tenant.
     op_bind (op_lift (LocationId locationId)) (\<lambda>loc.
     op_seq (on_onboardings (save_onboarding brepo (StockOnboarding i tenant loc now))) (op_return i))))"

definition SaveStockOnboardingItemsUseCase ::
    "'o onboarding_repo \<Rightarrow> string \<Rightarrow> (string \<times> number \<times> number) list \<Rightarrow> (('o, 'l) onboarding_world, bool) oper" where
  "SaveStockOnboardingItemsUseCase brepo i items =
     op_bind (load_onboarding brepo i) (\<lambda>b0. case set_items items b0 of
       (Inl e, b) \<Rightarrow> op_throw e
     | (Inr _, b) \<Rightarrow> op_seq (on_onboardings (save_onboarding brepo b)) (op_return True))"

definition SubmitStockOnboardingUseCase ::
    "(nat \<Rightarrow> string) \<Rightarrow> time \<Rightarrow> 'o onboarding_repo \<Rightarrow> 'l ledger_repo \<Rightarrow> string \<Rightarrow> string
     \<Rightarrow> (('o, 'l) onboarding_world, bool) oper" where
  "SubmitStockOnboardingUseCase uuid now brepo lrepo i actorId =
     op_bind (load_onboarding brepo i) (\<lambda>b0. case ob_submit now b0 of
       (Inl e, b) \<Rightarrow> op_throw e
     | (Inr _, b) \<Rightarrow> op_seq (on_onboardings (save_onboarding brepo b))
         (op_bind (op_lift (ActorId actorId)) (\<lambda>actor.
          op_seq (balance_process uuid now lrepo b actor) (op_return True))))"

definition GetStockOnboardingUseCase :: "'o onboarding_repo \<Rightarrow> 'o \<Rightarrow> string \<Rightarrow> onboarding option result" where
  "GetStockOnboardingUseCase brepo s i = result_bind (StockOnboardingId i) (find_onboarding brepo s)"

definition GetStockOnboardingsUseCase :: "'o onboarding_repo \<Rightarrow> 'o \<Rightarrow> string \<Rightarrow> onboarding list result" where
  "GetStockOnboardingsUseCase brepo s tenantId = result_bind (TenantId tenantId) (find_onboardings brepo s)"

definition SubmitOpeningBalanceUseCase ::
    "string \<Rightarrow> (nat \<Rightarrow> string) \<Rightarrow> time \<Rightarrow> 'l ledger_repo \<Rightarrow> string \<Rightarrow> string \<Rightarrow> (string \<times> number \<times> number) list
     \<Rightarrow> time \<Rightarrow> string \<Rightarrow> (('o, 'l) onboarding_world, bool) oper" where
  "SubmitOpeningBalanceUseCase id_uuid uuid now lrepo tenantId locationId items asOfDate actorId =
     op_bind (op_lift (StockOnboardingId id_uuid)) (\<lambda>i. op_bind (op_lift (TenantId tenantId)) (\<lambda>tenant.
     op_bind (op_lift (LocationId locationId)) (\<lambda>loc.
     case set_items items (StockOnboarding i tenant loc asOfDate) of
       (Inl e, b) \<Rightarrow> op_throw e
     | (Inr _, b) \<Rightarrow> (case ob_submit now b of
         (Inl e, b') \<Rightarrow> op_throw e
       | (Inr _, b') \<Rightarrow> op_bind (op_lift (ActorId actorId)) (\<lambda>actor.
           op_seq (balance_process uuid now lrepo b' actor) (op_return True))))))"

section \<open>The shape of an onboarding\<close>

datatype onboarding_call = Set_call ident number number | Remove_call ident | Submit_call time

fun call_onboarding :: "onboarding_call \<Rightarrow> (onboarding, unit) oper" where
  "call_onboarding (Set_call v q c) = setItem v q c"
| "call_onboarding (Remove_call v) = removeItem v"
| "call_onboarding (Submit_call t) = ob_submit t"

definition onboarding_ok :: "onboarding \<Rightarrow> bool" where
  "onboarding_ok b \<longleftrightarrow> distinct (map fst (ob_items b))
     \<and> (\<forall>(v, x)\<in>set (ob_items b). oi_variant x = v \<and> 0 \<le> oi_quantity x \<and> is_integer (oi_quantity x)
         \<and> 0 \<le> oi_cost x \<and> is_integer (oi_cost x))
     \<and> (isSubmitted b \<longrightarrow> ob_items b \<noteq> [])"

lemma item_values: "StockOnboardingItem v q c = Inr x \<Longrightarrow>
    oi_variant x = v \<and> 0 \<le> oi_quantity x \<and> is_integer (oi_quantity x) \<and> 0 \<le> oi_cost x \<and> is_integer (oi_cost x)"
  by (auto simp: StockOnboardingItem_def split: if_splits)

lemma set_js_update: "x \<in> set (AList.update k v m) \<Longrightarrow> x = (k, v) \<or> x \<in> set m"
  by (induction m) (auto split: if_splits)

lemma keeps_onboarding_ok: "keeps onboarding_ok (call_onboarding c)"
proof (cases c)
  case (Set_call v q u)
  have "onboarding_ok (b\<lparr>ob_items := AList.update v x (ob_items b)\<rparr>)"
    if ok: "onboarding_ok b" and x: "StockOnboardingItem v q u = Inr x" and d: "ob_status b = Draft_onboarding" for b x
    using ok d item_values [OF x]
    by (auto simp: onboarding_ok_def isSubmitted_def distinct_update dest!: set_js_update)
  with Set_call show ?thesis
    by (auto simp: keeps_def onboarding_op_defs oper_simps split: sum.splits)
next
  case (Remove_call v)
  have "onboarding_ok (b\<lparr>ob_items := AList.delete v (ob_items b)\<rparr>)" if "onboarding_ok b" "ob_status b = Draft_onboarding" for b
    using that by (auto simp: onboarding_ok_def isSubmitted_def AList.delete_eq distinct_map_filter)
  with Remove_call show ?thesis by (auto simp: keeps_def onboarding_op_defs oper_simps)
next
  case (Submit_call t)
  then show ?thesis
    by (auto simp: keeps_def onboarding_op_defs oper_simps onboarding_ok_def isSubmitted_def)
qed

lemma submitted_closed:
  assumes "isSubmitted b"
  shows "call_onboarding c b = (Inl (OnboardingAlreadySubmittedError (ob_id b)), b)"
  using assms by (cases c) (auto simp: onboarding_op_defs oper_simps isSubmitted_def)

lemma onboarding_ok_new: "onboarding_ok (StockOnboarding i tenant loc asOf)"
  by (simp add: onboarding_ok_def StockOnboarding_def isSubmitted_def)

text \<open>
  C21. The shape of an onboarding. After any history of calls on a new onboarding, each returning or throwing,
  it holds one item per variant, under that variant, with non-negative integer quantity and cost; once
  submitted it has an item, and every further call throws and leaves it as it is.
\<close>

theorem onboarding_well_formed:
  assumes "b = fold (\<lambda>c b. snd (call_onboarding c b)) cs (StockOnboarding i tenant loc asOf)"
  shows "onboarding_ok b
    \<and> (isSubmitted b \<longrightarrow> (\<forall>c. call_onboarding c b = (Inl (OnboardingAlreadySubmittedError (ob_id b)), b)))"
  unfolding assms
  using keeps_fold [where P = onboarding_ok and f = call_onboarding, OF keeps_onboarding_ok onboarding_ok_new] submitted_closed
  by blast

theorem onboarding_well_formed_witness:
  "\<exists>b. b = fold (\<lambda>c b. snd (call_onboarding c b)) [Set_call ''v1'' 5 200, Submit_call 3, Set_call ''v2'' 1 1] (StockOnboarding ''b1'' ''t1'' ''loc-1'' 0)
    \<and> onboarding_ok b \<and> map fst (ob_items b) = [''v1''] \<and> call_onboarding (Remove_call ''v1'') b = (Inl (OnboardingAlreadySubmittedError ''b1''), b)"
proof -
  define b where "b = fold (\<lambda>c b. snd (call_onboarding c b)) [Set_call ''v1'' 5 200, Submit_call 3, Set_call ''v2'' 1 1] (StockOnboarding ''b1'' ''t1'' ''loc-1'' 0)"
  have "isSubmitted b \<and> map fst (ob_items b) = [''v1''] \<and> ob_id b = ''b1''"
    by (simp add: b_def onboarding_op_defs oper_simps StockOnboarding_def StockOnboardingItem_def isSubmitted_def)
  with onboarding_well_formed [OF b_def] b_def show ?thesis by metis
qed

section \<open>One opening balance per variant and location\<close>

lemma conflicts_run:
  "op_each (\<lambda>x. op_reject (f x) (e x)) xs w = (case find f xs of None \<Rightarrow> (Inr (), w) | Some x \<Rightarrow> (Inl (e x), w))"
  by (induction xs) (auto simp: oper_simps)

lemma has_entries_batch:
  "lookup_or False (mem_hasAnyEntriesBatch es vs loc) v \<longleftrightarrow> v \<in> set vs \<and> mem_hasAnyEntries es v loc"
proof -
  have "lookup_or False (fold (\<lambda>e m. if le_location e = loc \<and> le_variant e \<in> set vs then AList.update (le_variant e) True m else m) es m) v
      \<longleftrightarrow> lookup_or False m v \<or> (v \<in> set vs \<and> mem_hasAnyEntries es v loc)" for m
    by (induction es arbitrary: m) (auto simp: mem_hasAnyEntries_def)
  moreover have "\<not> lookup_or False (fold (\<lambda>v m. AList.update v False m) vs []) v"
  proof -
    have "\<not> lookup_or False m v \<Longrightarrow> \<not> lookup_or False (fold (\<lambda>v m. AList.update v False m) vs m) v" for m
      by (induction vs arbitrary: m) auto
    then show ?thesis by simp
  qed
  ultimately show ?thesis by (simp add: mem_hasAnyEntriesBatch_def)
qed

lemma opening_entries:
  assumes "result_map (opening_entry uuid b actor) (enumerate n xs) = Inr es"
  shows "map (\<lambda>e. (le_variant e, le_location e, le_quantity e)) es = map (\<lambda>x. (oi_variant x, ob_location b, oi_quantity x)) xs"
  using assms
  by (induction xs arbitrary: n es)
    (auto simp: opening_entry_def result_bind_Inr_iff LedgerEntry_def split: sum.splits if_splits)

lemma opening_sum:
  assumes "map (\<lambda>e. (le_variant e, le_location e, le_quantity e)) es = map (\<lambda>x. (oi_variant x, l, oi_quantity x)) xs"
  shows "balance es v loc = (\<Sum>x\<leftarrow>xs. if oi_variant x = v \<and> loc = l then oi_quantity x else 0)"
    and "mem_hasAnyEntries es v loc \<longleftrightarrow> loc = l \<and> v \<in> oi_variant ` set xs"
  using assms by (induction xs arbitrary: es) (auto simp: map_eq_Cons_conv mem_hasAnyEntries_def)

lemma events_run:
  "op_each (\<lambda>x. op_modify (\<lambda>w. w\<lparr>bw_events := bw_events w @ [e x]\<rparr>)) xs w = (Inr (), w\<lparr>bw_events := bw_events w @ map e xs\<rparr>)"
  by (induction xs arbitrary: w) (simp_all add: oper_simps)

lemma balance_process_run:
  "balance_process uuid now mem_ledger b actor w =
     (if \<not> isSubmitted b then (Inl (Error ''Only submitted onboardings can be processed. Call submit() first.'' []), w)
      else case find (\<lambda>x. mem_hasAnyEntries (bw_ledger w) (oi_variant x) (ob_location b)) (onboarding_items b) of
        Some x \<Rightarrow> (Inl (OpeningBalanceConflictError (oi_variant x) (ob_location b)), w)
      | None \<Rightarrow> (case result_map (opening_entry uuid b actor) (enumerate 0 (onboarding_items b)) of
          Inl e \<Rightarrow> (Inl e, w)
        | Inr es \<Rightarrow> (Inr (), w\<lparr>bw_ledger := bw_ledger w @ es,
            bw_events := bw_events w @ map (\<lambda>x. OpeningBalancePosted (oi_variant x) (oi_quantity x) (ob_id b) now) (onboarding_items b)\<rparr>)))"
proof -
  have "find (\<lambda>x. lookup_or False (mem_hasAnyEntriesBatch (bw_ledger w) (map oi_variant (onboarding_items b)) (ob_location b)) (oi_variant x)) (onboarding_items b) =
      find (\<lambda>x. mem_hasAnyEntries (bw_ledger w) (oi_variant x) (ob_location b)) (onboarding_items b)"
    by (rule find_cong) (auto simp: has_entries_batch)
  then show ?thesis
    by (auto simp: balance_process_def mem_ledger_def mem_appendBatch_def oper_simps Let_def conflicts_run events_run
        split: option.splits sum.splits)
qed

text \<open>
  An opening balance is posted once. A call that returns leaves, for every item of the onboarding, its
  quantity as the balance of its variant at the location, where there was no entry before, and changes no
  other balance; from then on the balance of any onboarding that shares a variant and the location is
  refused. A call that throws leaves the ledger and the events as they were.
\<close>

theorem opening_balance_posted_once:
  assumes ok: "onboarding_ok b"
  shows "case balance_process uuid now mem_ledger b actor w of
      (Inl e, w') \<Rightarrow> w' = w
    | (Inr _, w') \<Rightarrow>
        (\<forall>x\<in>set (onboarding_items b). \<not> mem_hasAnyEntries (bw_ledger w) (oi_variant x) (ob_location b)
           \<and> balance (bw_ledger w') (oi_variant x) (ob_location b) = oi_quantity x)
      \<and> (\<forall>v loc. \<not> (loc = ob_location b \<and> v \<in> oi_variant ` set (onboarding_items b)) \<longrightarrow>
           balance (bw_ledger w') v loc = balance (bw_ledger w) v loc)
      \<and> (\<forall>b2 uuid2 now2 actor2. isSubmitted b2 \<longrightarrow> ob_location b2 = ob_location b \<longrightarrow>
           oi_variant ` set (onboarding_items b2) \<inter> oi_variant ` set (onboarding_items b) \<noteq> {} \<longrightarrow>
           (\<exists>v. balance_process uuid2 now2 mem_ledger b2 actor2 w' = (Inl (OpeningBalanceConflictError v (ob_location b)), w')))"
    (is "case ?run of (Inl e, w') \<Rightarrow> w' = w | (Inr _, w') \<Rightarrow> ?posted w' \<and> ?others w' \<and> ?closed w'")
proof -
  let ?xs = "onboarding_items b" and ?l = "ob_location b"
  have "?posted w' \<and> ?others w' \<and> ?closed w'" if run: "?run = (Inr u, w')" for u w'
  proof -
    obtain es where none: "find (\<lambda>x. mem_hasAnyEntries (bw_ledger w) (oi_variant x) ?l) ?xs = None"
        and es: "result_map (opening_entry uuid b actor) (enumerate 0 ?xs) = Inr es" and ledger: "bw_ledger w' = bw_ledger w @ es"
      using run by (auto simp: balance_process_run split: if_splits option.splits sum.splits)
    note sums = opening_sum [OF opening_entries [OF es]]
    have clear: "\<not> mem_hasAnyEntries (bw_ledger w) (oi_variant x) ?l" if "x \<in> set ?xs" for x
      using none that by (auto simp: find_None_iff)
    have distinct: "distinct (map oi_variant ?xs)"
    proof -
      have "map oi_variant ?xs = map fst (ob_items b)" using ok by (auto simp: onboarding_ok_def onboarding_items_def)
      with ok show ?thesis by (simp add: onboarding_ok_def)
    qed
    have old: "balance (bw_ledger w) v ?l = 0" if "\<not> mem_hasAnyEntries (bw_ledger w) v ?l" for v
    proof -
      have "filter (\<lambda>e. le_variant e = v \<and> le_location e = ?l) (bw_ledger w) = []"
        using that by (auto simp: mem_hasAnyEntries_def list_ex_iff filter_empty_conv)
      then show ?thesis by (simp add: balance_def)
    qed
    have new: "balance es (oi_variant x) ?l = oi_quantity x" if x: "x \<in> set ?xs" for x
    proof -
      have "(\<Sum>y\<leftarrow>ys. if oi_variant y = oi_variant x then oi_quantity y else 0) = (if x \<in> set ys then oi_quantity x else 0)"
        if "distinct (map oi_variant ys)" "\<And>y. y \<in> set ys \<Longrightarrow> oi_variant y = oi_variant x \<Longrightarrow> y = x" for ys
        using that by (induction ys) auto
      moreover have "y = x" if "y \<in> set ?xs" "oi_variant y = oi_variant x" for y
        using distinct that x by (auto simp: distinct_map inj_on_def)
      ultimately show ?thesis using distinct x by (simp add: sums(1))
    qed
    have posted: "?posted w'" using clear old new by (simp add: ledger)
    have none_of: "(\<Sum>x\<leftarrow>ys. if oi_variant x = v \<and> loc = ?l then oi_quantity x else 0) = 0"
      if "\<not> (loc = ?l \<and> v \<in> oi_variant ` set ys)" for v loc ys
      using that by (induction ys) auto
    have others: "?others w'" by (intro allI impI) (simp add: ledger sums(1) none_of)
    have "?closed w'"
    proof (intro allI impI)
      fix b2 uuid2 now2 actor2
      assume b2: "isSubmitted b2" "ob_location b2 = ?l" "oi_variant ` set (onboarding_items b2) \<inter> oi_variant ` set ?xs \<noteq> {}"
      then obtain x where x: "x \<in> set (onboarding_items b2)" "oi_variant x \<in> oi_variant ` set ?xs" by auto
      have "mem_hasAnyEntries (bw_ledger w') (oi_variant x) ?l"
        using x(2) sums(2) [of "oi_variant x" ?l] by (simp add: ledger mem_hasAnyEntries_def)
      then have "find (\<lambda>x. mem_hasAnyEntries (bw_ledger w') (oi_variant x) ?l) (onboarding_items b2) \<noteq> None"
        using x(1) by (auto simp: find_None_iff)
      then show "\<exists>v. balance_process uuid2 now2 mem_ledger b2 actor2 w' = (Inl (OpeningBalanceConflictError v ?l), w')"
        using b2(1,2) by (auto simp: balance_process_run)
    qed
    with posted others show ?thesis by blast
  qed
  moreover have "w' = w" if "?run = (Inl e, w')" for e w'
    using that by (auto simp: balance_process_run split: if_splits option.splits sum.splits)
  ultimately show ?thesis by (auto split: prod.splits sum.splits)
qed

definition sample_onboarding :: onboarding where
  "sample_onboarding = snd (ob_submit 3 (snd (setItem ''v1'' 5 200 (StockOnboarding ''b1'' ''t1'' ''loc-1'' 0))))"

definition empty_onboarding_world :: "(onboarding_db, ledger_entry list) onboarding_world" where
  "empty_onboarding_world = \<lparr>bw_onboardings = \<lparr>ob_rows = [], ob_item_rows = []\<rparr>, bw_ledger = [], bw_events = []\<rparr>"

theorem opening_balance_posted_once_witness:
  "\<exists>w'. balance_process (\<lambda>n. ''e1'') 4 mem_ledger sample_onboarding ''a1'' empty_onboarding_world = (Inr (), w')
    \<and> balance (bw_ledger w') ''v1'' ''loc-1'' = 5
    \<and> (\<exists>e. balance_process (\<lambda>n. ''e2'') 5 mem_ledger sample_onboarding ''a1'' w' = (Inl e, w'))"
proof -
  let ?run = "balance_process (\<lambda>n. ''e1'') 4 mem_ledger sample_onboarding ''a1'' empty_onboarding_world"
  have "onboarding_ok sample_onboarding"
    by (simp add: sample_onboarding_def onboarding_op_defs oper_simps StockOnboarding_def StockOnboardingItem_def
        onboarding_ok_def isSubmitted_def)
  note posted = opening_balance_posted_once [where uuid = "\<lambda>n. ''e1''" and now = 4 and actor = "''a1''"
      and w = empty_onboarding_world, OF this]
  have "\<not> isl (fst ?run)" by code_simp
  then obtain w' where run: "?run = (Inr (), w')" by (metis (full_types) old.unit.exhaust prod.collapse sum.collapse(2))
  have b: "isSubmitted sample_onboarding \<and> ob_location sample_onboarding = ''loc-1'' \<and>
      map (\<lambda>x. (oi_variant x, oi_quantity x)) (onboarding_items sample_onboarding) = [(''v1'', 5)]" by code_simp
  then obtain x where x: "onboarding_items sample_onboarding = [x]" "oi_variant x = ''v1''" "oi_quantity x = 5" by auto
  from posted [unfolded run prod.case sum.case] b x
  have "balance (bw_ledger w') ''v1'' ''loc-1'' = 5"
    "\<exists>v. balance_process (\<lambda>n. ''e2'') 5 mem_ledger sample_onboarding ''a1'' w' = (Inl (OpeningBalanceConflictError v ''loc-1''), w')"
    by auto
  with run show ?thesis by blast
qed

section \<open>Reading a submitted onboarding\<close>

lemma submitted_row_unreadable:
  assumes "os_status r = Submitted_onboarding" and "t \<in> set (ob_item_rows s)" and "ot_onboarding t = os_id r"
  shows "\<exists>e. onboarding_of_row s r = Inl e"
proof -
  have "filter (\<lambda>t. ot_onboarding t = os_id r) (ob_item_rows s) \<noteq> []" using assms(2,3) by (auto simp: filter_empty_conv)
  then obtain x xs where xs: "filter (\<lambda>t. ot_onboarding t = os_id r) (ob_item_rows s) = x # xs" by (cases "filter (\<lambda>t. ot_onboarding t = os_id r) (ob_item_rows s)") auto
  show ?thesis
    by (auto simp: onboarding_of_row_def Let_def xs oper_simps onboarding_op_defs assms(1) result_bind_def split: sum.splits)
qed

lemma result_map_fails: "x \<in> set xs \<Longrightarrow> \<exists>e. f x = Inl e \<Longrightarrow> \<exists>e. result_map f xs = Inl e"
  by (induction xs) (auto split: sum.splits)

lemma saved_row:
  assumes "pb_save to_uuid now b s = (Inr (), s')" and "os_id r = to_uuid (ob_id b)" and "r \<in> set (ob_rows s)"
  shows "\<exists>r'\<in>set (ob_rows s'). os_id r' = os_id r \<and> os_tenant r' = os_tenant r \<and> os_status r' = ob_status b"
    and "\<And>r'. r' \<in> set (ob_rows s') \<Longrightarrow> os_id r' = os_id r \<Longrightarrow> os_status r' = ob_status b"
    and "onboarding_items b \<noteq> [] \<Longrightarrow> \<exists>t\<in>set (ob_item_rows s'). ot_onboarding t = os_id r"
proof -
  have found: "find (\<lambda>r. os_id r = to_uuid (ob_id b)) (ob_rows s) \<noteq> None" using assms(2,3) by (auto simp: find_None_iff)
  have s': "ob_rows s' = map (\<lambda>r. if os_id r = to_uuid (ob_id b) then r\<lparr>os_status := ob_status b, os_asOfDate := ob_asOfDate b\<rparr> else r) (ob_rows s)"
      "ob_item_rows s' = filter (\<lambda>t. ot_onboarding t \<noteq> to_uuid (ob_id b)) (ob_item_rows s) @
        map (\<lambda>x. \<lparr>ot_onboarding = to_uuid (ob_id b), ot_variant = to_uuid (oi_variant x), ot_quantity = oi_quantity x, ot_cost = oi_cost x\<rparr>) (onboarding_items b)"
    using assms(1) found by (auto simp: pb_save_def Let_def oper_simps split: if_splits)
  show "\<exists>r'\<in>set (ob_rows s'). os_id r' = os_id r \<and> os_tenant r' = os_tenant r \<and> os_status r' = ob_status b"
    unfolding s'(1) using assms(2,3) by (intro bexI [of _ "r\<lparr>os_status := ob_status b, os_asOfDate := ob_asOfDate b\<rparr>"]) (auto simp: image_iff intro!: bexI [of _ r])
  show "os_status r' = ob_status b" if "r' \<in> set (ob_rows s')" "os_id r' = os_id r" for r'
    using that assms(2) by (auto simp: s'(1) split: if_splits)
  show "\<exists>t\<in>set (ob_item_rows s'). ot_onboarding t = os_id r" if "onboarding_items b \<noteq> []"
    using that assms(2) by (cases "onboarding_items b") (auto simp: s'(2))
qed

lemma loaded_row:
  assumes "pb_findById to_uuid s i = Inr (Some b)"
  obtains r where "find (\<lambda>r. os_id r = to_uuid i) (ob_rows s) = Some r" and "onboarding_of_row s r = Inr b"
    and "ob_id b = os_id r" and "ob_tenant b = os_tenant r"
proof -
  obtain r where r: "find (\<lambda>r. os_id r = to_uuid i) (ob_rows s) = Some r" "onboarding_of_row s r = Inr b"
    using assms by (auto simp: pb_findById_def result_bind_Inr_iff split: option.splits)
  have same: "keeps (\<lambda>b. ob_id b = os_id r \<and> ob_tenant b = os_tenant r)
      (op_each (\<lambda>t. op_bind (op_lift (ProductVariantId (ot_variant t))) (\<lambda>v. setItem v (ot_quantity t) (ot_cost t))) ts)" for ts
    unfolding onboarding_op_defs by (intro keeps_intros) auto
  let ?b = "(StockOnboarding (os_id r) (os_tenant r) (os_location r) (os_asOfDate r))\<lparr>ob_status := os_status r\<rparr>"
  obtain x where run: "op_each (\<lambda>t. op_bind (op_lift (ProductVariantId (ot_variant t))) (\<lambda>v. setItem v (ot_quantity t) (ot_cost t)))
      (filter (\<lambda>t. ot_onboarding t = os_id r) (ob_item_rows s)) ?b = (x, b)"
    using r(2) by (auto simp: onboarding_of_row_def Let_def result_bind_Inr_iff StockOnboardingId_def TenantId_def LocationId_def
        make_id_Inr_iff split: prod.splits sum.splits)
  have "ob_id b = os_id r \<and> ob_tenant b = os_tenant r"
    using keepsD [OF same _ run] by (simp add: StockOnboarding_def)
  then show thesis using r by (intro that) auto
qed

text \<open>
  A submitted onboarding can no longer be read. The store sets the status before it adds the items through
  \<open>setItem\<close>, which refuses a submitted onboarding: after a submission that returns, getting that onboarding
  throws, and so does listing the onboardings of its tenant.
\<close>

theorem submitted_onboarding_unreadable:
  assumes "\<And>s. to_uuid (to_uuid s) = to_uuid s"
    and run: "SubmitStockOnboardingUseCase uuid now (pg_onboardings to_uuid now') mem_ledger i actorId w = (Inr x, w')"
  shows "(\<exists>e. GetStockOnboardingUseCase (pg_onboardings to_uuid now'') (bw_onboardings w') i = Inl e)
    \<and> (\<exists>b e. GetStockOnboardingUseCase (pg_onboardings to_uuid now'') (bw_onboardings w) i = Inr (Some b)
        \<and> GetStockOnboardingsUseCase (pg_onboardings to_uuid now'') (bw_onboardings w') (ob_tenant b) = Inl e)"
proof -
  let ?s = "bw_onboardings w" and ?s' = "bw_onboardings w'"
  obtain b0 b s1 actor where b0: "StockOnboardingId i = Inr i" "pb_findById to_uuid ?s i = Inr (Some b0)"
      and submit: "ob_submit now b0 = (Inr (), b)" and saved: "pb_save to_uuid now' b ?s = (Inr (), s1)"
      and rest: "balance_process uuid now mem_ledger b actor (w\<lparr>bw_onboardings := s1\<rparr>) = (Inr (), w')"
    using run
    by (auto simp: SubmitStockOnboardingUseCase_def load_onboarding_def pg_onboardings_def oper_simps StockOnboardingId_def
        make_id_Inr_iff split: sum.splits prod.splits option.splits)
  have s': "?s' = s1" using rest by (auto simp: balance_process_run split: sum.splits if_splits option.splits)
  obtain r where r: "find (\<lambda>r. os_id r = to_uuid i) (ob_rows ?s) = Some r" "ob_id b0 = os_id r" "ob_tenant b0 = os_tenant r"
    using loaded_row [OF b0(2)] by metis
  have b: "ob_id b = ob_id b0" "onboarding_items b \<noteq> []" "ob_status b = Submitted_onboarding"
    using submit by (auto simp: onboarding_op_defs oper_simps onboarding_items_def split: if_splits)
  have id: "os_id r = to_uuid i" "r \<in> set (ob_rows ?s)" using find_SomeD [OF r(1)] by simp_all
  then have key: "os_id r = to_uuid (ob_id b)" using assms(1) by (simp add: b(1) r(2))
  note row = saved_row [OF saved key id(2), folded s']
  obtain t where t: "t \<in> set (ob_item_rows ?s')" "ot_onboarding t = os_id r" using row(3) [OF b(2)] by blast
  obtain r' where r': "r' \<in> set (ob_rows ?s')" "os_id r' = os_id r" "os_tenant r' = os_tenant r" "os_status r' = Submitted_onboarding"
    using row(1) b(3) by auto
  have "find (\<lambda>r. os_id r = to_uuid i) (ob_rows ?s') \<noteq> None" using r'(1,2) id(1) by (auto simp: find_None_iff)
  then obtain r2 where r2: "find (\<lambda>r. os_id r = to_uuid i) (ob_rows ?s') = Some r2" by auto
  from find_SomeD [OF r2] row(2) b(3) id(1) have "os_status r2 = Submitted_onboarding" "os_id r2 = os_id r" by auto
  from submitted_row_unreadable [OF this(1) t(1)] this(2) t(2) obtain e where "onboarding_of_row ?s' r2 = Inl e" by auto
  with r2 b0(1) have one: "GetStockOnboardingUseCase (pg_onboardings to_uuid now'') ?s' i = Inl e"
    by (simp add: GetStockOnboardingUseCase_def pg_onboardings_def pb_findById_def)
  have "\<exists>e. onboarding_of_row ?s' r' = Inl e" using submitted_row_unreadable [OF r'(4) t(1)] t(2) r'(2) by simp
  then have "\<exists>e. pb_findAllByTenant ?s' (os_tenant r) = Inl e"
    unfolding pb_findAllByTenant_def using r'(1,3) by (intro result_map_fails [of r']) auto
  then have "\<exists>e. GetStockOnboardingsUseCase (pg_onboardings to_uuid now'') ?s' (ob_tenant b0) = Inl e"
    by (auto simp: GetStockOnboardingsUseCase_def pg_onboardings_def r(3) TenantId_def make_id_def)
  moreover have "GetStockOnboardingUseCase (pg_onboardings to_uuid now'') ?s i = Inr (Some b0)"
    using b0 by (simp add: GetStockOnboardingUseCase_def pg_onboardings_def)
  ultimately show ?thesis using one by blast
qed

definition draft_world :: "number \<Rightarrow> (onboarding_db, ledger_entry list) onboarding_world" where
  "draft_world q = empty_onboarding_world\<lparr>bw_onboardings := \<lparr>ob_rows = [\<lparr>os_id = ''b1'', os_tenant = ''t1'', os_location = ''loc-1'',
     os_status = Draft_onboarding, os_asOfDate = 0, os_createdAt = 1\<rparr>],
     ob_item_rows = [\<lparr>ot_onboarding = ''b1'', ot_variant = ''v1'', ot_quantity = q, ot_cost = 200\<rparr>]\<rparr>\<rparr>"

theorem submitted_onboarding_unreadable_witness:
  "\<exists>w'. SubmitStockOnboardingUseCase (\<lambda>n. ''e1'') 4 (pg_onboardings (\<lambda>s. s) 4) mem_ledger ''b1'' ''a1'' (draft_world 5) = (Inr True, w')
    \<and> (\<exists>e. GetStockOnboardingUseCase (pg_onboardings (\<lambda>s. s) 5) (bw_onboardings w') ''b1'' = Inl e)
    \<and> (\<exists>e. GetStockOnboardingsUseCase (pg_onboardings (\<lambda>s. s) 5) (bw_onboardings w') ''t1'' = Inl e)"
proof -
  let ?run = "SubmitStockOnboardingUseCase (\<lambda>n. ''e1'') 4 (pg_onboardings (\<lambda>s. s) 4) mem_ledger ''b1'' ''a1'' (draft_world 5)"
  have "\<not> isl (fst ?run) \<and> projr (fst ?run)" by code_simp
  then obtain w' where run: "?run = (Inr True, w')" by (metis (full_types) prod.collapse sum.collapse(2))
  have "map_option ob_tenant (projr (GetStockOnboardingUseCase (pg_onboardings (\<lambda>s. s) 5) (bw_onboardings (draft_world 5)) ''b1'')) = Some ''t1''"
    by code_simp
  with submitted_onboarding_unreadable [where to_uuid = "\<lambda>s. s", OF refl run, of 5] run show ?thesis by auto
qed

text \<open>
  The submission is saved before the balance is posted. An item of quantity zero is accepted, but no ledger entry
  of it can be made: the submission throws, nothing is posted, and the onboarding stays submitted.
\<close>

lemma failed_submission_stays_submitted:
  "case SubmitStockOnboardingUseCase (\<lambda>n. ''e1'') 4 (pg_onboardings (\<lambda>s. s) 4) mem_ledger ''b1'' ''a1'' (draft_world 0) of (r, w') \<Rightarrow>
     r = Inl (Error ''A ledger entry quantity cannot be zero.'' []) \<and> bw_ledger w' = []
     \<and> map os_status (ob_rows (bw_onboardings w')) = [Submitted_onboarding]"
  by code_simp

end
