(* ===== verification/Counts.thy ===== *)
theory Counts
  imports Warehouse Approval
begin

text \<open>
  Physical counts: src/src/application/useCases/SubmitInventoryCount.ts. The items of all counted lines are
  loaded, reconciled in memory, held back by an approval workflow on the sum of the absolute variances,
  and otherwise saved in one batch.
\<close>

section \<open>The use case\<close>

record count_line =
  ct_sku :: string
  ct_location :: string
  ct_actual :: number

record count_result =
  cr_sku :: string
  cr_location :: string
  cr_expected :: number
  cr_actual :: number
  cr_variance :: number

record count_work = item_work +
  totalAbsoluteVariance :: number
  count_results :: "count_result list"

record ('i, 'a) count_world =
  kw_items :: 'i
  kw_approvals :: "'a approval_world"
  kw_events :: "inventory_event list"

abbreviation on_counted :: "('i, 'r) oper \<Rightarrow> (('i, 'a) count_world, 'r) oper" where
  "on_counted m \<equiv> op_zoom kw_items (\<lambda>s w. w\<lparr>kw_items := s\<rparr>) m"

abbreviation on_count_approvals :: "('a approval_world, 'r) oper \<Rightarrow> (('i, 'a) count_world, 'r) oper" where
  "on_count_approvals m \<equiv> op_zoom kw_approvals (\<lambda>s w. w\<lparr>kw_approvals := s\<rparr>) m"

definition count_key :: "string \<Rightarrow> string \<Rightarrow> string" where
  "count_key sku loc = sku @ CHR ''_'' # loc"

definition countsByLocation :: "count_line list \<Rightarrow> (string, capacity_adjustment list) js_map" where
  "countsByLocation cs = fold (\<lambda>c m. AList.update (ct_location c)
     (lookup_or [] m (ct_location c) @ [\<lparr>ad_sku = ct_sku c, ad_mode = Absolute, ad_quantity = ct_actual c\<rparr>]) m) cs []"

definition count_line :: "(nat \<Rightarrow> string) \<Rightarrow> time \<Rightarrow> nat \<times> count_line \<Rightarrow> (count_work, unit) oper" where
  "count_line uuid now = (\<lambda>(n, c). let key = count_key (ct_sku c) (ct_location c) in
     op_bind (get_or_create (uuid n) key (ct_sku c) (ct_location c)) (\<lambda>item.
     op_bind (op_lift (Quantity (ct_actual c) each)) (\<lambda>actualQty.
     let diff = ct_actual c - amount (on_hand item) in
     op_seq (op_modify (\<lambda>w. w\<lparr>totalAbsoluteVariance := totalAbsoluteVariance w + \<bar>diff\<bar>\<rparr>))
     (op_seq (change_item key (op_bind (reconcileStock now actualQty) (\<lambda>_. op_return ())) item)
     (op_bind (op_lift (fst (reconcileStock now actualQty item))) (\<lambda>r.
       op_modify (\<lambda>w. w\<lparr>count_results := count_results w @ [\<lparr>cr_sku = ct_sku c, cr_location = ct_location c,
         cr_expected = expected r, cr_actual = actual r, cr_variance = variance r\<rparr>]\<rparr>)))))))"

definition intercept_count ::
    "(nat \<Rightarrow> string) \<Rightarrow> time \<Rightarrow> 'a approval_repo option \<Rightarrow> string option \<Rightarrow> string option \<Rightarrow> number
     \<Rightarrow> (('i, 'a) count_world, ident option) oper" where
  "intercept_count uuid now arepo tenantId actorId absVariance = (case arepo of
     None \<Rightarrow> op_return None
   | Some repo \<Rightarrow>
       if given tenantId \<and> given actorId \<and> absVariance > 0
       then on_count_approvals (evaluateAndIntercept uuid now repo (the tenantId) ''inventory.count''
         ''InventoryCount'' ''bulk'' (the actorId) [(''totalAbsoluteVariance'', Some absVariance), (''counts'', None)])
       else op_return None)"

text \<open>\<open>capacity\<close> is \<open>validateCapacity\<close> of the optional WMSCapacityService over the present stock.\<close>

definition SubmitInventoryCountUseCase ::
    "(nat \<Rightarrow> string) \<Rightarrow> (nat \<Rightarrow> string) \<Rightarrow> time \<Rightarrow> 'i inventory_repo
     \<Rightarrow> ('i \<Rightarrow> string \<Rightarrow> capacity_adjustment list \<Rightarrow> unit result) option \<Rightarrow> 'a approval_repo option
     \<Rightarrow> count_line list \<Rightarrow> string option \<Rightarrow> string option \<Rightarrow> (('i, 'a) count_world, count_result list) oper" where
  "SubmitInventoryCountUseCase item_uuid uuid now irepo capacity arepo counts tenantId actorId =
     (if length counts = 0 then op_return []
      else op_seq (op_get (\<lambda>w. case capacity of None \<Rightarrow> op_return ()
         | Some validate \<Rightarrow> op_each (\<lambda>(loc, adjustments). op_lift (validate (kw_items w) loc adjustments)) (countsByLocation counts)))
      (op_bind (op_get (\<lambda>w. op_lift (findBySkuAndLocationBatch irepo (kw_items w)
         (map (\<lambda>c. (ct_sku c, ct_location c)) counts)))) (\<lambda>existingItems.
       case op_each (count_line item_uuid now) (enumerate 0 counts)
           \<lparr>work_items = keyed_items count_key existingItems, work_changed = [], totalAbsoluteVariance = 0, count_results = []\<rparr> of
         (Inl e, work) \<Rightarrow> op_throw e
       | (Inr _, work) \<Rightarrow>
           op_bind (intercept_count uuid now arepo tenantId actorId (totalAbsoluteVariance work)) (\<lambda>intercepted.
           case intercepted of Some requestId \<Rightarrow> op_throw (Error ''RequiresApproval:{}'' [S requestId])
           | None \<Rightarrow>
             op_seq (on_counted (save_items irepo (changed_items work)))
             (op_seq (op_modify (\<lambda>w. w\<lparr>kw_events := kw_events w @ kept_events irepo (changed_items work)\<rparr>))
             (op_return (count_results work)))))))"

section \<open>Rows by SKU and location\<close>

definition row_at :: "inventory_db \<Rightarrow> string \<Rightarrow> string \<Rightarrow> inventory_row option" where
  "row_at s sku loc = find (\<lambda>r. row_sku r = sku \<and> row_location r = loc) (rows s)"

definition stock_at :: "inventory_db \<Rightarrow> string \<Rightarrow> string \<Rightarrow> number" where
  "stock_at s sku loc = (case row_at s sku loc of None \<Rightarrow> 0 | Some r \<Rightarrow> row_quantity r)"

abbreviation place :: "inventory_row \<Rightarrow> string \<times> string" where
  "place r \<equiv> (row_sku r, row_location r)"

lemma find_place: "row_at s sku loc = find (\<lambda>r. place r = (sku, loc)) (rows s)"
  by (simp add: row_at_def)

lemma inserted_distinct:
  assumes "op_each (insert_row \<circ> row_of) cs s = (Inr (), s')" and "distinct (map place (rows s))"
  shows "distinct (map place (rows s'))"
  using assms
proof (induction cs arbitrary: s)
  case (Cons c cs)
  from Cons.prems(1) obtain s1 where s1: "(insert_row \<circ> row_of) c s = (Inr (), s1)" "op_each (insert_row \<circ> row_of) cs s1 = (Inr (), s')"
    unfolding op_each.simps by (elim run_seqE)
  then have "rows s1 = rows s @ [row_of c]" "\<not> list_ex (row_conflict (row_of c)) (rows s)"
    by (auto simp: insert_row_def oper_simps split: if_splits)
  then have "distinct (map place (rows s1))" using Cons.prems(2) by (auto simp: list_ex_iff row_conflict_def)
  with Cons.IH [OF s1(2)] show ?case by simp
qed (simp add: oper_simps)

text \<open>A saved item is the row of its SKU and location; the rows of other places stay as they are.\<close>

lemma saved_at:
  assumes inv: "pi_inv s" and saved: "pi_saveBatch is s = (Inr (), s')" and ids: "distinct (map iid is)"
    and places_kept: "\<forall>i\<in>set is. \<forall>r\<in>set (rows s). row_id r = iid i \<longrightarrow> place r = (isku i, ilocationId i)"
  shows "i \<in> set is \<Longrightarrow> \<exists>r. row_at s' (isku i) (ilocationId i) = Some r \<and> row_id r = iid i
      \<and> row_quantity r = amount (on_hand i) \<and> row_allocated r = amount (allocated i)
      \<and> row_inTransit r = amount (inTransit i) \<and> row_version r = iversion i"
    and "(sku, loc) \<notin> (\<lambda>i. (isku i, ilocationId i)) ` set is \<Longrightarrow> row_at s' sku loc = row_at s sku loc"
proof -
  have same: "place r = (isku i, ilocationId i)" if "i \<in> set is" "r \<in> set (rows s)" "row_id r = iid i" for i r
    using places_kept that by blast
  define c where "c = filter (\<lambda>i. iid i \<notin> set (map row_id (rows s))) is"
  define d where "d = filter (\<lambda>i. iid i \<in> set (map row_id (rows s))) is"
  let ?rs = "rows s @ map row_of c"
  let ?upd = "\<lambda>r. case find (\<lambda>i. hits i r) d of None \<Rightarrow> r | Some i \<Rightarrow> set_amounts i r"
  have "rows s' = update_rows d ?rs \<and> (\<forall>i\<in>set d. \<exists>r\<in>set ?rs. hits i r) \<and> distinct (map place ?rs)"
  proof (cases "is = []")
    case True
    with saved inv show ?thesis by (simp add: pi_saveBatch_def oper_simps c_def d_def update_rows_def pi_inv_def)
  next
    case False
    note all = pi_saveBatch_rows [OF saved ids False c_def d_def]
    from all obtain s1 where s1: "op_each (insert_row \<circ> row_of) c s = (Inr (), s1)" "rows s1 = ?rs" by blast
    have "distinct (map place (rows s))" using inv by (simp add: pi_inv_def)
    from inserted_distinct [OF s1(1) this] all s1(2) show ?thesis by simp
  qed
  then have s': "rows s' = map ?upd ?rs" and hit: "\<And>i. i \<in> set d \<Longrightarrow> \<exists>r\<in>set ?rs. hits i r" and places: "distinct (map place ?rs)"
    by (auto simp: update_rows_def)
  have upd: "place (?upd r) = place r" for r by (auto split: option.splits)
  have at: "row_at s' sku loc = map_option ?upd (find (\<lambda>r. place r = (sku, loc)) ?rs)" for sku loc
    unfolding find_place s' by (rule find_map_key [where f = place, OF upd])
  have found: "find (\<lambda>x. place x = place r) ?rs = Some r" if "r \<in> set ?rs" for r
    using places that by (rule find_by_key)
  have dis: "distinct (map iid d)" using ids by (simp add: d_def distinct_map_filter)
  show "\<exists>r. row_at s' (isku i) (ilocationId i) = Some r \<and> row_id r = iid i
      \<and> row_quantity r = amount (on_hand i) \<and> row_allocated r = amount (allocated i)
      \<and> row_inTransit r = amount (inTransit i) \<and> row_version r = iversion i" if i: "i \<in> set is"
  proof (cases "i \<in> set d")
    case True
    obtain r where r: "r \<in> set ?rs" "hits i r" using hit [OF True] by blast
    have "row_id r \<in> row_id ` set (rows s)" using True r(2) by (auto simp: d_def hits_def)
    then have "r \<in> set (rows s)" using r(1) by (auto simp: c_def)
    with same [OF i] r(2) have "place r = (isku i, ilocationId i)" by (simp add: hits_def)
    with found [OF r(1)] have "find (\<lambda>x. place x = (isku i, ilocationId i)) ?rs = Some r" by (simp only:)
    moreover have "find (\<lambda>i. hits i r) d = Some i"
    proof -
      have "find (\<lambda>i. hits i r) d \<noteq> None" using True r(2) by (auto simp: find_None_iff)
      then obtain j where j: "find (\<lambda>i. hits i r) d = Some j" by auto
      have "iid j = iid i" using find_SomeD [OF j] r(2) by (simp add: hits_def)
      with dis find_SomeD [OF j] True have "j = i" by (auto simp: distinct_map inj_on_def)
      with j show ?thesis by simp
    qed
    ultimately show ?thesis using r(2) by (simp add: at set_amounts_def hits_def)
  next
    case False
    then have c: "i \<in> set c" using i by (auto simp: c_def d_def)
    then have "find (\<lambda>x. place x = place (row_of i)) ?rs = Some (row_of i)" by (intro found) auto
    moreover have "find (\<lambda>j. hits j (row_of i)) d = None"
      using c by (auto simp: find_None_iff hits_def c_def d_def)
    ultimately show ?thesis by (simp add: at) (simp add: row_of_def)
  qed
  show "row_at s' sku loc = row_at s sku loc" if out: "(sku, loc) \<notin> (\<lambda>i. (isku i, ilocationId i)) ` set is"
  proof (cases "row_at s sku loc")
    case None
    then have "find (\<lambda>r. place r = (sku, loc)) ?rs = None"
      using out by (auto simp: find_place find_None_iff c_def)
    with None show ?thesis by (simp add: at)
  next
    case (Some r)
    then have r: "r \<in> set (rows s)" "place r = (sku, loc)" using find_SomeD [of _ "rows s" r] by (auto simp: find_place)
    have "find (\<lambda>i. hits i r) d = None"
      using same r out by (fastforce simp: find_None_iff hits_def d_def)
    moreover have "find (\<lambda>r. place r = (sku, loc)) ?rs = Some r" using found [of r] r by simp
    ultimately show ?thesis by (simp add: at Some)
  qed
qed

section \<open>The lines of a count\<close>

abbreviation line_key :: "count_line \<Rightarrow> string" where
  "line_key c \<equiv> count_key (ct_sku c) (ct_location c)"

text \<open>What a line starts from, and what it leaves.\<close>

definition starts_from :: "string \<Rightarrow> count_work \<Rightarrow> count_line \<Rightarrow> inventory_item \<Rightarrow> bool" where
  "starts_from u w c i \<longleftrightarrow> (case map_of (work_items w) (line_key c) of
     Some x \<Rightarrow> i = x | None \<Rightarrow> inventory_createNew u (ct_sku c) (ct_location c) = Inr i)"

definition counted :: "count_line \<Rightarrow> inventory_item \<Rightarrow> inventory_item \<Rightarrow> bool" where
  "counted c i j \<longleftrightarrow> amount (on_hand j) = ct_actual c \<and> amount (allocated j) = amount (allocated i)
     \<and> amount (inTransit j) = amount (inTransit i) \<and> iid j = iid i \<and> isku j = isku i \<and> ilocationId j = ilocationId i
     \<and> iversion j = iversion i + 1"

definition count_result_of :: "count_line \<Rightarrow> number \<Rightarrow> count_result" where
  "count_result_of c q = \<lparr>cr_sku = ct_sku c, cr_location = ct_location c, cr_expected = q, cr_actual = ct_actual c,
     cr_variance = ct_actual c - q\<rparr>"

lemma keeps_id_reconcile: "keeps_id (op_bind (reconcileStock now q) (\<lambda>_. op_return ()))"
  by (auto simp: keeps_id_def reconcileStock_def incrementVersion_def oper_simps Let_def)

lemma count_line_step:
  assumes t: "tracked s w" and ids: "ids_from uuid n s w" and new: "new_ids uuid s"
    and run: "count_line uuid now (n, c) w = (Inr (), w')"
  obtains i j where "starts_from (uuid n) w c i" and "counted c i j"
    and "tracked s w'" and "ids_from uuid (Suc n) s w'"
    and "map_of (work_items w') = (map_of (work_items w))(line_key c \<mapsto> j)"
    and "work_changed w' = add_once (line_key c) (work_changed w)"
    and "totalAbsoluteVariance w' = totalAbsoluteVariance w + \<bar>ct_actual c - amount (on_hand i)\<bar>"
    and "count_results w' = count_results w @ [count_result_of c (amount (on_hand i))]"
proof -
  note result = that
  let ?m = "\<lambda>q. op_bind (reconcileStock now q) (\<lambda>_. op_return ())"
  obtain i w1 where g: "get_or_create (uuid n) (line_key c) (ct_sku c) (ct_location c) w = (Inr i, w1)"
    and rest: "op_bind (op_lift (Quantity (ct_actual c) each)) (\<lambda>actualQty.
     let diff = ct_actual c - amount (on_hand i) in
     op_seq (op_modify (\<lambda>w. w\<lparr>totalAbsoluteVariance := totalAbsoluteVariance w + \<bar>diff\<bar>\<rparr>))
     (op_seq (change_item (line_key c) (op_bind (reconcileStock now actualQty) (\<lambda>_. op_return ())) i)
     (op_bind (op_lift (fst (reconcileStock now actualQty i))) (\<lambda>r.
       op_modify (\<lambda>w. w\<lparr>count_results := count_results w @ [\<lparr>cr_sku = ct_sku c, cr_location = ct_location c,
         cr_expected = expected r, cr_actual = actual r, cr_variance = variance r\<rparr>]\<rparr>))))) w1 = (Inr (), w')"
    using run unfolding count_line_def prod.case Let_def by (rule run_bindE)
  obtain q where q: "Quantity (ct_actual c) each = Inr q"
    using rest by (cases "Quantity (ct_actual c) each") (auto simp: oper_simps)
  then have a: "amount q = ct_actual c" using Quantity_each_InrD [OF q] by simp
  define w2 where "w2 = w1\<lparr>totalAbsoluteVariance := totalAbsoluteVariance w1 + \<bar>ct_actual c - amount (on_hand i)\<bar>\<rparr>"
  obtain j where j: "?m q i = (Inr (), j)" and c: "counted c i j"
    and r: "fst (reconcileStock now q i) = Inr \<lparr>expected = amount (on_hand i), actual = ct_actual c, variance = ct_actual c - amount (on_hand i)\<rparr>"
    using a by (simp add: reconcileStock_def incrementVersion_def oper_simps Let_def counted_def)
  define w3 where "w3 = w2\<lparr>work_items := AList.update (line_key c) j (work_items w2), work_changed := add_once (line_key c) (work_changed w2)\<rparr>"
  have w3: "change_item (line_key c) (?m q) i w2 = (Inr (), w3)"
    using j by (simp add: change_item_def oper_simps w3_def)
  have w': "w' = w3\<lparr>count_results := count_results w3 @ [count_result_of c (amount (on_hand i))]\<rparr>"
    using rest w3 by (simp add: q r oper_simps Let_def flip: w2_def) (simp add: count_result_of_def)
  have same: "work_items w2 = work_items w1" "work_changed w2 = work_changed w1" by (simp_all add: w2_def)
  from create_and_change [OF t ids new g same w3 keeps_id_reconcile]
  have t3: "tracked s w3" and i3: "ids_from uuid (Suc n) s w3" by blast+
  have w1: "starts_from (uuid n) w c i \<and> (map_of (work_items w1))(line_key c \<mapsto> j) = (map_of (work_items w))(line_key c \<mapsto> j)
      \<and> work_changed w1 = work_changed w \<and> totalAbsoluteVariance w1 = totalAbsoluteVariance w \<and> count_results w1 = count_results w"
    using g by (auto simp: get_or_create_def starts_from_def oper_simps split: option.splits sum.splits)
  have "tracked s w'" using t3 by (simp add: w' tracked_def)
  moreover have "ids_from uuid (Suc n) s w'" using i3 by (simp add: w' ids_from_def)
  moreover have "map_of (work_items w') = (map_of (work_items w))(line_key c \<mapsto> j)" using w1 by (simp add: w' w3_def same)
  moreover have "work_changed w' = add_once (line_key c) (work_changed w)" using w1 by (simp add: w' w3_def same)
  moreover have "totalAbsoluteVariance w' = totalAbsoluteVariance w + \<bar>ct_actual c - amount (on_hand i)\<bar>"
    using w1 by (simp add: w' w3_def w2_def)
  moreover have "count_results w' = count_results w @ [count_result_of c (amount (on_hand i))]"
    using w1 by (simp add: w' w3_def w2_def)
  ultimately show ?thesis using w1 c result by blast
qed

text \<open>Lines with different keys do not meet: each starts from the object that was loaded for it.\<close>

lemma count_lines_run:
  assumes "tracked s w" and "ids_from uuid n s w" and new: "new_ids uuid s"
    and "op_each (count_line uuid now) (enumerate n cs) w = (Inr (), w')"
    and "distinct (map line_key cs)" and "line_key ` set cs \<inter> set (work_changed w) = {}"
  shows "tracked s w' \<and> work_changed w' = work_changed w @ map line_key cs
    \<and> (\<exists>qs. count_results w' = count_results w @ map2 count_result_of cs qs \<and> length qs = length cs
        \<and> list_all2 (\<lambda>c q. \<exists>u i j. starts_from u w c i \<and> u \<in> range uuid \<and> counted c i j \<and> q = amount (on_hand i)
            \<and> map_of (work_items w') (line_key c) = Some j) cs qs)
    \<and> (\<forall>k. k \<notin> line_key ` set cs \<longrightarrow> map_of (work_items w') k = map_of (work_items w) k)"
  using assms(1,2,4-6)
proof (induction cs arbitrary: n w)
  case (Cons c cs)
  obtain w1 where step: "count_line uuid now (n, c) w = (Inr (), w1)"
      and rest: "op_each (count_line uuid now) (enumerate (Suc n) cs) w1 = (Inr (), w')"
    using Cons.prems(3) unfolding enumerate_simps op_each.simps by (elim run_seqE)
  from count_line_step [OF Cons.prems(1,2) new step]
  obtain i j where ij: "starts_from (uuid n) w c i" "counted c i j" and t1: "tracked s w1" "ids_from uuid (Suc n) s w1"
    and m: "map_of (work_items w1) = (map_of (work_items w))(line_key c \<mapsto> j)"
    and ch: "work_changed w1 = add_once (line_key c) (work_changed w)"
    and res: "count_results w1 = count_results w @ [count_result_of c (amount (on_hand i))]" by metis
  have ch1: "work_changed w1 = work_changed w @ [line_key c]" using Cons.prems(5) ch by (auto simp: add_once_def)
  have apart: "distinct (map line_key cs)" "line_key ` set cs \<inter> set (work_changed w1) = {}" "line_key c \<notin> line_key ` set cs"
    using Cons.prems(4,5) by (auto simp: ch1)
  from Cons.IH [OF t1 rest apart(1,2)]
  obtain qs where IH: "tracked s w'" "work_changed w' = work_changed w1 @ map line_key cs"
      "count_results w' = count_results w1 @ map2 count_result_of cs qs" "length qs = length cs"
      "list_all2 (\<lambda>c q. \<exists>u i j. starts_from u w1 c i \<and> u \<in> range uuid \<and> counted c i j \<and> q = amount (on_hand i)
            \<and> map_of (work_items w') (line_key c) = Some j) cs qs"
      "\<forall>k. k \<notin> line_key ` set cs \<longrightarrow> map_of (work_items w') k = map_of (work_items w1) k" by blast
  have from_w: "starts_from u w1 d i = starts_from u w d i" if "d \<in> set cs" for u d i
  proof -
    have "line_key d \<noteq> line_key c"
    proof
      assume "line_key d = line_key c"
      with imageI [OF that, of line_key] apart(3) show False by simp
    qed
    then show ?thesis by (simp add: starts_from_def m)
  qed
  have "list_all2 (\<lambda>c q. \<exists>u i j. starts_from u w c i \<and> u \<in> range uuid \<and> counted c i j \<and> q = amount (on_hand i)
            \<and> map_of (work_items w') (line_key c) = Some j) cs qs"
    by (rule list.rel_mono_strong [OF IH(5)]) (use from_w in blast)
  moreover have "map_of (work_items w') (line_key c) = Some j" using IH(6) apart(3) by (simp add: m)
  ultimately have all: "list_all2 (\<lambda>c q. \<exists>u i j. starts_from u w c i \<and> u \<in> range uuid \<and> counted c i j \<and> q = amount (on_hand i)
            \<and> map_of (work_items w') (line_key c) = Some j) (c # cs) (amount (on_hand i) # qs)"
    using ij by auto
  have results: "count_results w' = count_results w @ map2 count_result_of (c # cs) (amount (on_hand i) # qs)"
    by (simp add: IH(3) res)
  have "\<forall>k. k \<notin> line_key ` set (c # cs) \<longrightarrow> map_of (work_items w') k = map_of (work_items w) k"
    using IH(6) by (simp add: m)
  with all results IH(1,2,4) ch1 show ?case by (intro conjI exI [of _ "amount (on_hand i) # qs"]) simp_all
qed (simp add: oper_simps)

section \<open>A count sets the stock\<close>

definition normal_line :: "count_line \<Rightarrow> bool" where
  "normal_line c \<longleftrightarrow> Sku (ct_sku c) = Inr (ct_sku c) \<and> LocationId (ct_location c) = Inr (ct_location c)"

lemma createNew_at:
  assumes "inventory_createNew u sku loc = Inr i" and "Sku sku = Inr sku"
  shows "isku i = sku \<and> ilocationId i = loc \<and> iid i = u \<and> amount (on_hand i) = 0 \<and> amount (allocated i) = 0
    \<and> amount (inTransit i) = 0 \<and> iversion i = 1"
  using assms
  by (auto simp: inventory_createNew_def result_bind_Inr_iff InventoryItem_def Quantity_Inr_iff InventoryItemId_def
      LocationId_def make_id_Inr_iff)

lemma keyed_known:
  assumes "i \<in> set is"
  shows "map_of (keyed_items key is) (key (isku i) (ilocationId i)) \<noteq> None"
proof -
  let ?f = "\<lambda>i. AList.update (key (isku i) (ilocationId i)) i"
  have grow: "map_of (fold ?f ys m) k \<noteq> None" if "map_of m k \<noteq> None" for ys m k
    using that by (induction ys arbitrary: m) auto
  have "map_of (fold ?f is m) (key (isku i) (ilocationId i)) \<noteq> None" for m
    using assms
  proof (induction "is" arbitrary: m)
    case (Cons x xs)
    show ?case
    proof (cases "i = x")
      case True
      with grow [of "?f x m" "key (isku x) (ilocationId x)" xs] show ?thesis by simp
    qed (use Cons in simp)
  qed simp
  then show ?thesis by (simp add: keyed_items_def)
qed

lemma loaded_item:
  assumes inv: "pi_inv s" and load: "pi_findBySkuAndLocationBatch s (map (\<lambda>c. (ct_sku c, ct_location c)) cs) = Inr is"
    and keys: "distinct (map line_key cs)" and c: "c \<in> set cs"
  shows "map_of (keyed_items count_key is) (line_key c) = map_option row_item (row_at s (ct_sku c) (ct_location c))"
proof (cases "map_of (keyed_items count_key is) (line_key c)")
  case (Some i)
  from keyed_items_sound [OF Some] have i: "i \<in> set is" "count_key (isku i) (ilocationId i) = line_key c" by auto
  from pi_batch_found [OF inv load i(1)] obtain d where d: "d \<in> set cs" "isku i = ct_sku d" "ilocationId i = ct_location d"
      "pi_row s (iid i) = Some i" by auto
  then have "line_key d = line_key c" using i(2) by simp
  with keys c d(1) have "d = c" by (auto simp: distinct_map inj_on_def)
  from d(4) obtain r where r: "find (\<lambda>r. row_id r = iid i) (rows s) = Some r" "row_item r = i" by (auto simp: pi_row_def)
  have "r \<in> set (rows s)" using find_SomeD [OF r(1)] by simp
  moreover have "distinct (map place (rows s))" using inv by (simp add: pi_inv_def)
  ultimately have "find (\<lambda>x. place x = place r) (rows s) = Some r" by (intro find_by_key)
  moreover have "place r = (ct_sku c, ct_location c)" using d(2,3) \<open>d = c\<close> r(2) by auto
  ultimately show ?thesis using r(2) Some by (simp add: find_place)
next
  case None
  have "row_at s (ct_sku c) (ct_location c) = None"
  proof (rule ccontr)
    assume "row_at s (ct_sku c) (ct_location c) \<noteq> None"
    then obtain r where r: "r \<in> set (rows s)" "row_sku r = ct_sku c" "row_location r = ct_location c"
      by (auto simp: row_at_def dest: find_SomeD)
    then have st: "toDomain r = Inr (row_item r)" using inv toDomain_row by (auto simp: pi_inv_def)
    have "r \<in> set (filter (\<lambda>r. list_ex (\<lambda>(sku, loc). row_sku r = sku \<and> row_location r = loc) (map (\<lambda>c. (ct_sku c, ct_location c)) cs)) (rows s))"
      using r c by (auto simp: list_ex_iff)
    moreover have "cs \<noteq> []" using c by auto
    ultimately have known: "row_item r \<in> set is"
      using load result_map_member [of toDomain _ "is" r] st by (force simp: pi_findBySkuAndLocationBatch_def pi_select_def)
    from keyed_known [OF known, of count_key] show False using None r by simp
  qed
  with None show ?thesis by simp
qed

lemma intercept_items: "intercept_count uuid now arepo tenantId actorId v w = (r, w') \<Longrightarrow> kw_items w' = kw_items w"
  by (auto simp: intercept_count_def oper_simps split: option.splits if_splits prod.splits)

lemma capacity_checks: "op_each (\<lambda>(l, a). op_lift (f l a)) xs w = (r, w') \<Longrightarrow> w' = w"
  by (induction xs) (auto simp: oper_simps split: sum.splits prod.splits)

lemma saveBatch_throws: "pi_saveBatch is s = (Inl e, s') \<Longrightarrow> s' = s"
  by (auto simp: pi_saveBatch_def oper_simps Let_def transaction_def split: if_splits prod.splits sum.splits)

lemma list_all2_fun: "list_all2 (\<lambda>x y. y = g x) xs ys \<Longrightarrow> ys = map g xs"
  by (induction rule: list_all2_induct) auto

lemma map2_fun: "map2 f xs (map g xs) = map (\<lambda>x. f x (g x)) xs"
  by (induction xs) auto

abbreviation count_start :: "inventory_item list \<Rightarrow> count_work" where
  "count_start is \<equiv> \<lparr>work_items = keyed_items count_key is, work_changed = [], totalAbsoluteVariance = 0, count_results = []\<rparr>"

lemma count_cases:
  assumes "SubmitInventoryCountUseCase item_uuid uuid now pg_inventory capacity arepo counts tenantId actorId w = (r, w')" and "counts \<noteq> []"
  shows "(\<exists>e. r = Inl e \<and> kw_items w' = kw_items w) \<or>
    (\<exists>is work. pi_findBySkuAndLocationBatch (kw_items w) (map (\<lambda>c. (ct_sku c, ct_location c)) counts) = Inr is
      \<and> op_each (count_line item_uuid now) (enumerate 0 counts) (count_start is) = (Inr (), work)
      \<and> r = Inr (count_results work) \<and> pi_saveBatch (changed_items work) (kw_items w) = (Inr (), kw_items w'))"
proof -
  let ?cap = "op_get (\<lambda>w. case capacity of None \<Rightarrow> op_return ()
         | Some validate \<Rightarrow> op_each (\<lambda>(loc, adjustments). op_lift (validate (kw_items w) loc adjustments)) (countsByLocation counts)) w"
  obtain rc wc where cap: "?cap = (rc, wc)" by fastforce
  then have wc: "wc = w" by (auto simp: oper_simps split: option.splits dest: capacity_checks)
  show ?thesis
  proof (cases rc)
    case (Inl e)
    with assms cap wc show ?thesis by (auto simp: SubmitInventoryCountUseCase_def op_seq_eval)
  next
    case (Inr u)
    show ?thesis
    proof (cases "pi_findBySkuAndLocationBatch (kw_items w) (map (\<lambda>c. (ct_sku c, ct_location c)) counts)")
      case (Inl e)
      with assms cap wc Inr show ?thesis
        by (auto simp: SubmitInventoryCountUseCase_def op_seq_eval op_bind_eval op_lift_eval op_get_eval pg_inventory_def)
    next
      case load: (Inr found)
      obtain rl work where lines: "op_each (count_line item_uuid now) (enumerate 0 counts) (count_start found) = (rl, work)" by fastforce
      obtain ri wi where i: "intercept_count uuid now arepo tenantId actorId (totalAbsoluteVariance work) w = (ri, wi)" by fastforce
      note wi = intercept_items [OF i]
      obtain rs s' where sv: "pi_saveBatch (changed_items work) (kw_items w) = (rs, s')" by fastforce
      show ?thesis
        using assms cap wc Inr load lines i wi sv saveBatch_throws [of "changed_items work" "kw_items w"]
        by (auto simp: SubmitInventoryCountUseCase_def op_seq_eval op_bind_eval op_lift_eval op_get_eval op_throw_eval op_zoom_eval
            op_modify_eval op_return_eval pg_inventory_def split: sum.splits option.splits)
    qed
  qed
qed

lemma count_throws:
  assumes "SubmitInventoryCountUseCase item_uuid uuid now pg_inventory capacity arepo counts tenantId actorId w = (Inl e, w')"
  shows "kw_items w' = kw_items w"
proof (cases "counts = []")
  case True
  with assms show ?thesis by (simp add: SubmitInventoryCountUseCase_def oper_simps)
qed (use count_cases [OF assms] in auto)

lemma count_returns:
  assumes inv: "pi_inv (kw_items w)" and new: "new_ids item_uuid (kw_items w)"
    and keys: "distinct (map line_key counts)" and normal: "\<forall>c\<in>set counts. normal_line c"
    and run: "SubmitInventoryCountUseCase item_uuid uuid now pg_inventory capacity arepo counts tenantId actorId w = (Inr results, w')"
  shows "results = map (\<lambda>c. count_result_of c (stock_at (kw_items w) (ct_sku c) (ct_location c))) counts
      \<and> (\<forall>c\<in>set counts. \<exists>r. row_at (kw_items w') (ct_sku c) (ct_location c) = Some r \<and> row_quantity r = ct_actual c
          \<and> (case row_at (kw_items w) (ct_sku c) (ct_location c) of
              None \<Rightarrow> row_allocated r = 0 \<and> row_inTransit r = 0 \<and> row_version r = 2
            | Some old \<Rightarrow> row_id r = row_id old \<and> row_allocated r = row_allocated old \<and> row_inTransit r = row_inTransit old
                \<and> row_version r = row_version old + 1))
      \<and> (\<forall>sku loc. (sku, loc) \<notin> (\<lambda>c. (ct_sku c, ct_location c)) ` set counts \<longrightarrow>
          row_at (kw_items w') sku loc = row_at (kw_items w) sku loc)"
proof (cases "counts = []")
  case True
  with run show ?thesis by (simp add: SubmitInventoryCountUseCase_def oper_simps)
next
  case False
  let ?s = "kw_items w"
  from count_cases [OF run False] obtain its work
    where load: "pi_findBySkuAndLocationBatch ?s (map (\<lambda>c. (ct_sku c, ct_location c)) counts) = Inr its"
      and lines: "op_each (count_line item_uuid now) (enumerate 0 counts) (count_start its) = (Inr (), work)"
      and results: "results = count_results work"
      and saved: "pi_saveBatch (changed_items work) ?s = (Inr (), kw_items w')" by auto
  have t0: "tracked ?s (count_start its)" and i0: "ids_from item_uuid 0 ?s (count_start its)"
    using loaded_tracked [OF inv load, of "count_start its"] loaded_ids [OF inv load, of "count_start its"] by auto
  define J where "J c = the (map_of (work_items work) (line_key c))" for c
  from count_lines_run [OF t0 i0 new lines keys] obtain qs
    where t: "tracked ?s work" and ch: "work_changed work = map line_key counts"
      and res: "count_results work = map2 count_result_of counts qs"
      and all: "list_all2 (\<lambda>c q. \<exists>u i j. starts_from u (count_start its) c i \<and> u \<in> range item_uuid \<and> counted c i j
          \<and> q = amount (on_hand i) \<and> map_of (work_items work) (line_key c) = Some j) counts qs" by auto
  have line: "q = stock_at ?s (ct_sku c) (ct_location c) \<and> isku (J c) = ct_sku c \<and> ilocationId (J c) = ct_location c
      \<and> amount (on_hand (J c)) = ct_actual c
      \<and> (case row_at ?s (ct_sku c) (ct_location c) of
          None \<Rightarrow> amount (allocated (J c)) = 0 \<and> amount (inTransit (J c)) = 0 \<and> iversion (J c) = 2 \<and> iid (J c) \<in> range item_uuid
        | Some old \<Rightarrow> iid (J c) = row_id old \<and> amount (allocated (J c)) = row_allocated old
            \<and> amount (inTransit (J c)) = row_inTransit old \<and> iversion (J c) = row_version old + 1)"
    if c: "c \<in> set counts" and q: "\<exists>u i j. starts_from u (count_start its) c i \<and> u \<in> range item_uuid \<and> counted c i j
          \<and> q = amount (on_hand i) \<and> map_of (work_items work) (line_key c) = Some j" for c q
  proof -
    from q obtain u i j where ij: "starts_from u (count_start its) c i" "u \<in> range item_uuid" "counted c i j" "q = amount (on_hand i)"
        "J c = j" by (auto simp: J_def)
    have normal_c: "Sku (ct_sku c) = Inr (ct_sku c)" using normal c by (auto simp: normal_line_def)
    show ?thesis
    proof (cases "row_at ?s (ct_sku c) (ct_location c)")
      case None
      with ij(1) have "inventory_createNew u (ct_sku c) (ct_location c) = Inr i"
        by (simp add: starts_from_def loaded_item [OF inv load keys c])
      from createNew_at [OF this normal_c] ij None show ?thesis by (simp add: counted_def stock_at_def)
    next
      case (Some old)
      with ij(1) have "i = row_item old" by (simp add: starts_from_def loaded_item [OF inv load keys c])
      moreover have "row_sku old = ct_sku c" "row_location old = ct_location c"
        using find_SomeD [OF Some [unfolded row_at_def]] by auto
      ultimately show ?thesis using ij Some by (simp add: counted_def stock_at_def row_item_def InventoryItem_def)
    qed
  qed
  have facts: "list_all2 (\<lambda>c q. c \<in> set counts \<and> q = stock_at ?s (ct_sku c) (ct_location c)) counts qs"
    by (rule list.rel_mono_strong [OF all]) (use line in blast)
  then have "qs = map (\<lambda>c. stock_at ?s (ct_sku c) (ct_location c)) counts"
    by (intro list_all2_fun) (auto elim: list_all2_mono)
  then have "results = map (\<lambda>c. count_result_of c (stock_at ?s (ct_sku c) (ct_location c))) counts"
    by (simp add: results res map2_fun)
  note report = this
  have items: "changed_items work = map J counts"
    unfolding changed_items_map [OF t] ch by (simp add: J_def)
  have of_line: "\<exists>q. \<exists>u i j. starts_from u (count_start its) c i \<and> u \<in> range item_uuid \<and> counted c i j
          \<and> q = amount (on_hand i) \<and> map_of (work_items work) (line_key c) = Some j" if mem: "c \<in> set counts" for c
  proof -
    obtain n where n: "n < length counts" "counts ! n = c" using mem by (auto simp: in_set_conv_nth)
    from list_all2_nthD [OF all n(1)] n(2) show ?thesis by blast
  qed
  have same: "place r = (isku i, ilocationId i)" if i: "i \<in> set (changed_items work)" and r: "r \<in> set (rows ?s)" "row_id r = iid i" for i r
  proof -
    obtain c where c: "c \<in> set counts" "i = J c" using i by (auto simp: items)
    obtain q where "\<exists>u i j. starts_from u (count_start its) c i \<and> u \<in> range item_uuid \<and> counted c i j
          \<and> q = amount (on_hand i) \<and> map_of (work_items work) (line_key c) = Some j" using of_line [OF c(1)] by blast
    note l = line [OF c(1) this]
    show ?thesis
    proof (cases "row_at ?s (ct_sku c) (ct_location c)")
      case None
      with l r c(2) have "row_id r \<in> range item_uuid" by simp
      moreover have "row_id r \<in> row_id ` set (rows ?s)" using r(1) by (rule imageI)
      ultimately show ?thesis using new unfolding new_ids_def by blast
    next
      case (Some old)
      have old: "old \<in> set (rows ?s)" "row_sku old = ct_sku c" "row_location old = ct_location c"
        using find_SomeD [OF Some [unfolded row_at_def]] by auto
      have "row_id old = row_id r" using l Some r(2) c(2) by simp
      with inv old(1) r(1) have "old = r" by (auto simp: pi_inv_def distinct_map inj_on_def)
      with old l c(2) show ?thesis by simp
    qed
  qed
  then have "\<forall>i\<in>set (changed_items work). \<forall>r\<in>set (rows ?s). row_id r = iid i \<longrightarrow> place r = (isku i, ilocationId i)"
    by blast
  note after = saved_at [OF inv saved changed_ids [OF t] this]
  have set: "\<exists>r. row_at (kw_items w') (ct_sku c) (ct_location c) = Some r \<and> row_quantity r = ct_actual c
          \<and> (case row_at ?s (ct_sku c) (ct_location c) of
              None \<Rightarrow> row_allocated r = 0 \<and> row_inTransit r = 0 \<and> row_version r = 2
            | Some old \<Rightarrow> row_id r = row_id old \<and> row_allocated r = row_allocated old \<and> row_inTransit r = row_inTransit old
                \<and> row_version r = row_version old + 1)" if c: "c \<in> set counts" for c
  proof -
    obtain q where "\<exists>u i j. starts_from u (count_start its) c i \<and> u \<in> range item_uuid \<and> counted c i j
          \<and> q = amount (on_hand i) \<and> map_of (work_items work) (line_key c) = Some j" using of_line [OF c] by blast
    note l = line [OF c this]
    have "J c \<in> set (changed_items work)" using c by (simp add: items)
    from after(1) [OF this] l show ?thesis by (auto split: option.splits)
  qed
  have "row_at (kw_items w') sku loc = row_at ?s sku loc" if "(sku, loc) \<notin> (\<lambda>c. (ct_sku c, ct_location c)) ` set counts" for sku loc
  proof (rule after(2))
    have "(isku (J c), ilocationId (J c)) = (ct_sku c, ct_location c)" if c: "c \<in> set counts" for c
    proof -
      obtain q where "\<exists>u i j. starts_from u (count_start its) c i \<and> u \<in> range item_uuid \<and> counted c i j
          \<and> q = amount (on_hand i) \<and> map_of (work_items work) (line_key c) = Some j" using of_line [OF c] by blast
      from line [OF c this] show ?thesis by simp
    qed
    then show "(sku, loc) \<notin> (\<lambda>i. (isku i, ilocationId i)) ` set (changed_items work)" using that by (auto simp: items)
  qed
  with report set show ?thesis by blast
qed

text \<open>
  C20. A count sets the stock. A count of different places, written as their items are (normalised), that returns
  leaves in the database, for every line, the counted quantity under one version more, with allocations and
  goods in transit as they were, a new row where there was none; it touches no other place, and
  reports for every line the quantity expected before and the difference. A count that throws changes no stock.
\<close>

theorem count_sets_stock:
  assumes inv: "pi_inv (kw_items w)" and new: "new_ids item_uuid (kw_items w)"
    and keys: "distinct (map line_key counts)" and normal: "\<forall>c\<in>set counts. normal_line c"
  shows "case SubmitInventoryCountUseCase item_uuid uuid now pg_inventory capacity arepo counts tenantId actorId w of
      (Inl e, w') \<Rightarrow> kw_items w' = kw_items w
    | (Inr results, w') \<Rightarrow>
        results = map (\<lambda>c. count_result_of c (stock_at (kw_items w) (ct_sku c) (ct_location c))) counts
      \<and> (\<forall>c\<in>set counts. \<exists>r. row_at (kw_items w') (ct_sku c) (ct_location c) = Some r \<and> row_quantity r = ct_actual c
          \<and> (case row_at (kw_items w) (ct_sku c) (ct_location c) of
              None \<Rightarrow> row_allocated r = 0 \<and> row_inTransit r = 0 \<and> row_version r = 2
            | Some old \<Rightarrow> row_id r = row_id old \<and> row_allocated r = row_allocated old \<and> row_inTransit r = row_inTransit old
                \<and> row_version r = row_version old + 1))
      \<and> (\<forall>sku loc. (sku, loc) \<notin> (\<lambda>c. (ct_sku c, ct_location c)) ` set counts \<longrightarrow>
          row_at (kw_items w') sku loc = row_at (kw_items w) sku loc)"
    (is "case ?run of (Inl e, w') \<Rightarrow> kw_items w' = kw_items w | (Inr results, w') \<Rightarrow> ?ok results w'")
proof (cases "?run")
  case (Pair r w')
  show ?thesis
  proof (cases r)
    case (Inl e)
    from count_throws [OF Pair [unfolded Inl]] show ?thesis by (simp add: Pair Inl)
  next
    case (Inr results)
    show ?thesis unfolding Pair Inr prod.case sum.case by (rule count_returns [OF inv new keys normal Pair [unfolded Inr]])
  qed
qed

definition sample_count_world :: "approval_db approval_world \<Rightarrow> (inventory_db, approval_db) count_world" where
  "sample_count_world a = \<lparr>kw_items = sample_db, kw_approvals = a, kw_events = []\<rparr>"

definition sample_uuids :: "nat \<Rightarrow> string" where
  "sample_uuids n = ''i9'' @ replicate n CHR ''x''"

definition two_counts :: "count_line list" where
  "two_counts = [\<lparr>ct_sku = ''WIDGET-1'', ct_location = ''loc-1'', ct_actual = 9\<rparr>,
     \<lparr>ct_sku = ''MUG'', ct_location = ''loc-1'', ct_actual = 4\<rparr>]"

theorem count_sets_stock_witness:
  "\<exists>w'. SubmitInventoryCountUseCase sample_uuids sample_uuids 7 pg_inventory None (None :: approval_db approval_repo option) two_counts
      None None (sample_count_world (approval_world_1 Pending_request 0)) = (Inr [count_result_of (two_counts ! 0) 12, count_result_of (two_counts ! 1) 0], w')
    \<and> stock_at (kw_items w') ''WIDGET-1'' ''loc-1'' = 9 \<and> stock_at (kw_items w') ''MUG'' ''loc-1'' = 4"
proof -
  let ?w = "sample_count_world (approval_world_1 Pending_request 0)"
  let ?run = "SubmitInventoryCountUseCase sample_uuids sample_uuids 7 pg_inventory None (None :: approval_db approval_repo option) two_counts
      None None ?w"
  have "\<not> isl (fst ?run)" by code_simp
  then obtain results w' where run: "?run = (Inr results, w')" by (metis prod.collapse sum.collapse(2))
  have inv: "pi_inv (kw_items ?w)" using sample_db_inv by (simp add: sample_count_world_def)
  have new: "new_ids sample_uuids (kw_items ?w)"
    by (auto simp: new_ids_def inj_def sample_uuids_def sample_count_world_def sample_db_def sample_row_def sample_item_def InventoryItem_def)
  have keys: "distinct (map line_key two_counts)" by (simp add: two_counts_def count_key_def)
  have normal: "\<forall>c\<in>set two_counts. normal_line c" by code_simp
  have old: "stock_at (kw_items ?w) ''WIDGET-1'' ''loc-1'' = 12" "stock_at (kw_items ?w) ''MUG'' ''loc-1'' = 0"
    by (simp_all add: stock_at_def row_at_def sample_count_world_def sample_db_def sample_row_def sample_item_def InventoryItem_def row_of_def)
  note spec = count_sets_stock [where uuid = sample_uuids and now = 7 and capacity = None and arepo = "None :: approval_db approval_repo option"
      and tenantId = None and actorId = None, OF inv new keys normal, unfolded run prod.case sum.case]
  have r: "results = [count_result_of (two_counts ! 0) 12, count_result_of (two_counts ! 1) 0]"
    using conjunct1 [OF spec] old by (simp add: two_counts_def)
  have "\<forall>c\<in>set two_counts. stock_at (kw_items w') (ct_sku c) (ct_location c) = ct_actual c"
    using conjunct1 [OF conjunct2 [OF spec]] by (auto simp: stock_at_def)
  then have "stock_at (kw_items w') ''WIDGET-1'' ''loc-1'' = 9" "stock_at (kw_items w') ''MUG'' ''loc-1'' = 4"
    by (simp_all add: two_counts_def)
  with run r show ?thesis by blast
qed

text \<open>
  Two lines that count the same stored item reconcile it twice, which raises its version by two: the store refuses
  the whole batch.
\<close>

lemma recounted_item_refused:
  "SubmitInventoryCountUseCase sample_uuids sample_uuids 7 pg_inventory None (None :: approval_db approval_repo option)
      [two_counts ! 0, two_counts ! 0] None None (sample_count_world (approval_world_1 Pending_request 0)) =
     (Inl (ConcurrencyError ''WIDGET-1'' ''loc-1''), sample_count_world (approval_world_1 Pending_request 0))"
  by code_simp

text \<open>
  A count that was held back stays held back: the workflow is consulted anew and does not look at the requests, so
  submitting the count again after its request was approved asks for approval again.
\<close>

definition approved_count_world :: "(inventory_db, approval_db) count_world" where
  "approved_count_world = sample_count_world \<lparr>ap_store = \<lparr>workflows = [two_step_flow\<lparr>wf_trigger := ''inventory.count'', wf_thresholds := []\<rparr>],
     requests = [(\<lparr>rr_id = ''q1'', rr_tenant = ''t1'', rr_workflowId = ''f1'', rr_referenceType = ''InventoryCount'',
        rr_referenceId = ''bulk'', rr_requester = ''u1'', rr_status = Approved_request, rr_currentStep = 2,
        rr_payload = [(''totalAbsoluteVariance'', Some 7), (''counts'', None)], rr_expiresAt = Some 100\<rparr>, 0)],
     decision_rows = []\<rparr>, ap_events = []\<rparr>"

lemma approved_count_held_again:
  "case SubmitInventoryCountUseCase sample_uuids sample_uuids 7 pg_inventory None (Some (pg_approvals 7)) two_counts
      (Some ''t1'') (Some ''u1'') approved_count_world of (r, w') \<Rightarrow>
     r = Inl (Error ''RequiresApproval:{}'' [S ''i9'']) \<and> kw_items w' = sample_db"
  by code_simp

end
