(* ===== verification/Lots.thy ===== *)
theory Lots
  imports Picking Counts
begin

text \<open>
  Lots and recalls: src/src/domain/entities/LotBatch.ts, LotRecallWorkflowService.ts, ProductRecallService.ts
  and the use cases of ManageFefoAndRecall.ts. \<open>iso8601\<close> is \<open>Date.toISOString\<close>.
\<close>

section \<open>Lots\<close>

datatype lot_status = ACTIVE_lot | QUARANTINED_lot | RECALLED_lot | EXPIRED_lot

record lot_batch =
  lb_id :: ident
  lb_tenant :: string
  lb_lotNumber :: string
  lb_variant :: string
  lb_status :: lot_status
  lb_manufacturedDate :: "time option"
  lb_expirationDate :: "time option"
  lb_supplier :: "string option"
  lb_quarantinedAt :: "time option"
  lb_reason :: "string option"
  lb_recalledAt :: "time option"
  lb_createdAt :: time

definition LotBatch ::
    "string \<Rightarrow> string \<Rightarrow> string \<Rightarrow> string \<Rightarrow> lot_status \<Rightarrow> time option \<Rightarrow> time option \<Rightarrow> string option \<Rightarrow> time option
     \<Rightarrow> string option \<Rightarrow> time option \<Rightarrow> time \<Rightarrow> lot_batch result" where
  "LotBatch i tenant lotNo v st made expires supplier quarantined why recalled created =
     result_bind (LotBatchId i) (\<lambda>i'. Inr \<lparr>lb_id = i', lb_tenant = tenant, lb_lotNumber = lotNo, lb_variant = v,
       lb_status = st, lb_manufacturedDate = made, lb_expirationDate = expires, lb_supplier = supplier,
       lb_quarantinedAt = quarantined, lb_reason = why, lb_recalledAt = recalled, lb_createdAt = created\<rparr>)"

definition lot_isAvailable :: "time \<Rightarrow> lot_batch \<Rightarrow> bool" where
  "lot_isAvailable now b \<longleftrightarrow> (if lb_status b \<noteq> ACTIVE_lot then False
     else case lb_expirationDate b of Some t \<Rightarrow> \<not> t \<le> now | None \<Rightarrow> True)"

definition lot_quarantine :: "time \<Rightarrow> string \<Rightarrow> (lot_batch, unit) oper" where
  "lot_quarantine now why = op_modify (\<lambda>b. b\<lparr>lb_status := QUARANTINED_lot, lb_quarantinedAt := Some now, lb_reason := Some why\<rparr>)"

definition lot_recall :: "time \<Rightarrow> string \<Rightarrow> (lot_batch, unit) oper" where
  "lot_recall now why = op_modify (\<lambda>b. b\<lparr>lb_status := RECALLED_lot, lb_recalledAt := Some now, lb_reason := Some why\<rparr>)"

definition lot_release :: "(lot_batch, unit) oper" where
  "lot_release = op_modify (\<lambda>b. b\<lparr>lb_status := ACTIVE_lot, lb_quarantinedAt := None, lb_reason := None, lb_recalledAt := None\<rparr>)"

section \<open>Tracing\<close>

record shipment_ref =
  sh_id :: string
  sh_order :: string
  sh_customer :: string
  sh_quantity :: number

record traceability_report =
  tr_lotNumber :: string
  tr_variant :: string
  tr_status :: lot_status
  tr_reason :: "string option"
  tr_layers :: nat
  tr_orders :: "(string \<times> number) list"
  tr_customers :: "string list"

definition generateTraceabilityReport :: "lot_batch \<Rightarrow> 'layer list \<Rightarrow> shipment_ref list \<Rightarrow> traceability_report" where
  "generateTraceabilityReport b costLayers shipments =
     (case fold (\<lambda>s (orders, customers). (orders @ [(sh_order s, sh_quantity s)],
          if sh_customer s \<noteq> [] then add_once (sh_customer s) customers else customers)) shipments ([], []) of
        (orders, customers) \<Rightarrow> \<lparr>tr_lotNumber = lb_lotNumber b, tr_variant = lb_variant b, tr_status = lb_status b,
          tr_reason = lb_reason b, tr_layers = length costLayers, tr_orders = orders, tr_customers = customers\<rparr>)"

record contaminated_dispatch =
  cdp_entry :: ident
  cdp_location :: ident
  cdp_quantity :: number
  cdp_reference :: "string option"
  cdp_occurredAt :: time
  cdp_actor :: ident

definition traceProductRecall :: "'s ledger_repo \<Rightarrow> 's \<Rightarrow> string \<Rightarrow> contaminated_dispatch list result" where
  "traceProductRecall lrepo s lotNo =
     (if lotNo = [] \<or> is_blank lotNo then Inl (Error ''Lot number cannot be empty.'' [])
      else Inr (map (\<lambda>e. \<lparr>cdp_entry = le_id e, cdp_location = le_location e, cdp_quantity = \<bar>le_quantity e\<bar>,
        cdp_reference = le_reference e, cdp_occurredAt = le_occurredAt e, cdp_actor = le_actor e\<rparr>)
        (filter isDeduction (findRecallEntries lrepo s lotNo))))"

definition TraceProductRecallUseCase :: "'s ledger_repo \<Rightarrow> 's \<Rightarrow> string \<Rightarrow> contaminated_dispatch list result" where
  "TraceProductRecallUseCase lrepo s lotNo = traceProductRecall lrepo s lotNo"

section \<open>Use cases\<close>

definition receipt_variant :: "product_repo \<Rightarrow> string \<Rightarrow> product_variant result" where
  "receipt_variant prepo sku = result_bind (Sku sku) (\<lambda>skuObj. case find_by_sku prepo skuObj of
     None \<Rightarrow> Inl (Error ''Product variant with SKU {} not found.'' [S sku])
   | Some p \<Rightarrow> (case findVariantBySku p skuObj of
       None \<Rightarrow> Inl (Error ''Product variant with SKU {} not found.'' [S sku]) | Some v \<Rightarrow> Inr v))"

text \<open>A product holds each of its variants in two maps; the variant is one object, changed in both.\<close>

definition UpdateVariantCostingMethodUseCase :: "string \<Rightarrow> costing_method \<Rightarrow> (catalogue, product_variant) oper" where
  "UpdateVariantCostingMethodUseCase sku m = op_bind (op_lift (Sku sku)) (\<lambda>s. op_get (\<lambda>ps. case mp_findBySku ps s of
       None \<Rightarrow> op_throw (Error ''Product with SKU {} not found.'' [S sku])
     | Some p \<Rightarrow> (case findVariantBySku p sku of
         None \<Rightarrow> op_throw (Error ''Variant with SKU {} not found.'' [S sku])
       | Some v \<Rightarrow> let v' = v\<lparr>pv_costing := m\<rparr> in
           op_seq (mp_save (p\<lparr>pr_variants := AList.update (pv_id v) v' (pr_variants p),
             pr_bySku := AList.update sku v' (pr_bySku p)\<rparr>)) (op_return v'))))"

record ('i, 'l, 'c) lot_world =
  lw_items :: 'i
  lw_ledger :: 'l
  lw_layers :: 'c

abbreviation on_lot_items :: "('i, 'r) oper \<Rightarrow> (('i, 'l, 'c) lot_world, 'r) oper" where
  "on_lot_items m \<equiv> op_zoom lw_items (\<lambda>s w. w\<lparr>lw_items := s\<rparr>) m"

abbreviation on_lot_ledger :: "('l, 'r) oper \<Rightarrow> (('i, 'l, 'c) lot_world, 'r) oper" where
  "on_lot_ledger m \<equiv> op_zoom lw_ledger (\<lambda>s w. w\<lparr>lw_ledger := s\<rparr>) m"

abbreviation on_lot_layers :: "('c, 'r) oper \<Rightarrow> (('i, 'l, 'c) lot_world, 'r) oper" where
  "on_lot_layers m \<equiv> op_zoom lw_layers (\<lambda>s w. w\<lparr>lw_layers := s\<rparr>) m"

record lot_receipt =
  lr_sku :: string
  lr_location :: string
  lr_quantity :: number
  lr_unitCost :: number
  lr_lotNumber :: string
  lr_expirationDate :: "time option"
  lr_tenant :: string
  lr_actor :: string

definition lot_entry_of ::
    "string \<Rightarrow> time \<Rightarrow> (time \<Rightarrow> string) \<Rightarrow> product_variant \<Rightarrow> lot \<Rightarrow> lot_receipt \<Rightarrow> ledger_entry result" where
  "lot_entry_of uuid now iso8601 v lt r =
     result_bind (LedgerEntryId uuid) (\<lambda>i. result_bind (TenantId (lr_tenant r)) (\<lambda>tenant.
     result_bind (LocationId (lr_location r)) (\<lambda>loc. result_bind (ActorId (lr_actor r)) (\<lambda>actor.
       LedgerEntry i tenant loc (pv_id v) (lr_quantity r) PurchaseReceipt actor now None
         [(''lotNumber'', S (lotNumber lt)), (''expirationDate'', S (iso8601 (expirationDate lt)))]))))"

text \<open>The first step, which saves the item, and the two that record the lot.\<close>

definition receive_lot_item ::
    "(nat \<Rightarrow> string) \<Rightarrow> 'i inventory_repo \<Rightarrow> lot_receipt \<Rightarrow> ('i, inventory_item) oper" where
  "receive_lot_item uuid irepo r =
     op_bind (op_get (\<lambda>s. op_lift (findBySkuAndLocation irepo s (lr_sku r) (lr_location r)))) (\<lambda>found.
     op_bind (op_lift (find_or_create uuid (lr_sku r) (lr_location r) found)) (\<lambda>item.
     op_bind (op_lift (Quantity (lr_quantity r) each)) (\<lambda>q.
       change_and_save irepo (receiveStock q) item)))"

definition record_lot ::
    "(nat \<Rightarrow> string) \<Rightarrow> time \<Rightarrow> (time \<Rightarrow> string) \<Rightarrow> 'l ledger_repo \<Rightarrow> 'c layer_repo \<Rightarrow> product_variant \<Rightarrow> lot_receipt
     \<Rightarrow> (('i, 'l, 'c) lot_world, unit) oper" where
  "record_lot uuid now iso8601 lrepo crepo v r =
     op_bind (op_lift (Lot (lr_lotNumber r) (lr_expirationDate r))) (\<lambda>lt.
     op_bind (op_lift (lot_entry_of (uuid 1) now iso8601 v lt r)) (\<lambda>e.
     op_seq (on_lot_ledger (append_entry lrepo e))
     (op_bind (op_lift (result_bind (InventoryCostLayerId (uuid 2)) (\<lambda>i.
        InventoryCostLayer i (pv_id v) (lr_quantity r) (lr_unitCost r) now None (Some lt)))) (\<lambda>l.
     on_lot_layers (saveLayer crepo l)))))"

definition ReceiveStockWithLotUseCase ::
    "(nat \<Rightarrow> string) \<Rightarrow> time \<Rightarrow> (time \<Rightarrow> string) \<Rightarrow> 'i inventory_repo \<Rightarrow> product_repo \<Rightarrow> 'l ledger_repo \<Rightarrow> 'c layer_repo
     \<Rightarrow> ('i \<Rightarrow> string \<Rightarrow> capacity_adjustment list \<Rightarrow> unit result) option \<Rightarrow> lot_receipt
     \<Rightarrow> (('i, 'l, 'c) lot_world, bool) oper" where
  "ReceiveStockWithLotUseCase uuid now iso8601 irepo prepo lrepo crepo capacity r =
     op_bind (op_lift (receipt_variant prepo (lr_sku r))) (\<lambda>v.
     op_seq (op_get (\<lambda>w. op_lift (case capacity of None \<Rightarrow> Inr () | Some validate \<Rightarrow>
        validate (lw_items w) (lr_location r) [\<lparr>ad_sku = lr_sku r, ad_mode = Relative, ad_quantity = lr_quantity r\<rparr>])))
     (op_bind (on_lot_items (receive_lot_item uuid irepo r)) (\<lambda>item.
     op_seq (record_lot uuid now iso8601 lrepo crepo v r) (op_return True))))"

section \<open>What is on hand at a place\<close>

lemma run_true: "\<not> isl (fst p) \<and> projr (fst p) \<Longrightarrow> \<exists>s'. p = (Inr True, s')"
  by (cases p; cases "fst p") auto

lemma found_stock:
  assumes "pi_inv s"
  shows "stock_at s sku loc = hand (pi.stock_before s sku loc)"
proof (cases "row_at s sku loc")
  case None
  then have "pi_findBySkuAndLocation s sku loc = Inr None" by (simp add: pi_findBySkuAndLocation_def row_at_def)
  with None show ?thesis by (simp add: stock_at_def pi.stock_before_def pg_fields)
next
  case (Some r)
  then have "r \<in> set (rows s)" unfolding row_at_def by (auto dest: find_SomeD)
  with assms have "toDomain r = Inr (row_item r)" by (intro toDomain_row) (simp add: pi_inv_def)
  with Some have "pi_findBySkuAndLocation s sku loc = Inr (Some (row_item r))"
    by (simp add: pi_findBySkuAndLocation_def row_at_def)
  with Some show ?thesis
    by (simp add: stock_at_def pi.stock_before_def pg_fields view_def row_item_def InventoryItem_def)
qed

lemma stored_stock:
  assumes inv: "pi_inv s" and row: "pi_row s k = Some i"
  shows "stock_at s (isku i) (ilocationId i) = amount (on_hand i)"
proof -
  from row obtain r where r: "find (\<lambda>r. row_id r = k) (rows s) = Some r" "row_item r = i" by (auto simp: pi_row_def)
  have mem: "r \<in> set (rows s)" using find_SomeD [OF r(1)] by simp
  have "distinct (map place (rows s))" using inv by (simp add: pi_inv_def)
  from find_by_key [OF this mem] have "row_at s (row_sku r) (row_location r) = Some r" by (simp add: find_place)
  with r(2) show ?thesis by (auto simp: stock_at_def row_item_def InventoryItem_def)
qed

text \<open>Goods that arrive with a lot are received as any others.\<close>

lemma lot_item_as_receipt:
  assumes "0 \<le> lr_quantity r"
  shows "snd (receive_lot_item uuid irepo r s) = snd (run_call uuid irepo (lr_sku r) (lr_location r) (CallReceive (lr_quantity r)) s)"
    and "isl (fst (receive_lot_item uuid irepo r s)) = isl (fst (run_call uuid irepo (lr_sku r) (lr_location r) (CallReceive (lr_quantity r)) s))"
  using assms by (auto simp: receive_lot_item_def ReceiveStockUseCase_def oper_simps Quantity_each split: sum.splits prod.splits)

lemma receive_lot_step:
  assumes inv: "pi_inv s" and ok: "Sku (lr_sku r) = Inr (lr_sku r)" "LocationId (lr_location r) = Inr (lr_location r)"
    and new: "InventoryItemId (uuid 0) = Inr (uuid 0)" "pi_row s (uuid 0) = None"
  shows "case receive_lot_item uuid pg_inventory r s of
      (Inl e, s') \<Rightarrow> s' = s \<and> lr_quantity r < 0
    | (Inr i, s') \<Rightarrow> 0 \<le> lr_quantity r \<and> pi_inv s'
        \<and> stock_at s' (lr_sku r) (lr_location r) = stock_at s (lr_sku r) (lr_location r) + lr_quantity r"
proof (cases "0 \<le> lr_quantity r")
  case True
  let ?run = "run_call uuid pg_inventory (lr_sku r) (lr_location r) (CallReceive (lr_quantity r)) s"
  obtain x s1 where run: "?run = (x, s1)" by fastforce
  note refines = pi.run_call_refines [where uuid = uuid and c = "CallReceive (lr_quantity r)", OF inv ok new, unfolded run prod.case]
  obtain dto where x: "x = Inr dto" using refines True by (cases x) (simp_all add: call_creates_def)
  from refines obtain j where j: "abs_step (Receive (q_each (lr_quantity r))) (pi.stock_before s (lr_sku r) (lr_location r)) = Some (view j)"
      "pi_inv s1" "pi_row s1 = (pi_row s)(iid j \<mapsto> norm_item j)" "isku j = lr_sku r" "ilocationId j = lr_location r"
    by (auto simp: x pi.committed_def)
  have "pi_row s1 (iid j) = Some (norm_item j)" using j(3) by simp
  from stored_stock [OF j(2) this] j(4,5) have "stock_at s1 (lr_sku r) (lr_location r) = amount (on_hand j)" by simp
  moreover have "amount (on_hand j) = hand (pi.stock_before s (lr_sku r) (lr_location r)) + lr_quantity r"
  proof -
    have "view j = (pi.stock_before s (lr_sku r) (lr_location r))\<lparr>hand := hand (pi.stock_before s (lr_sku r) (lr_location r)) + lr_quantity r\<rparr>"
      using j(1) by simp
    then have "hand (view j) = hand (pi.stock_before s (lr_sku r) (lr_location r)) + lr_quantity r" by simp
    then show ?thesis by (simp add: view_def)
  qed
  ultimately have st: "stock_at s1 (lr_sku r) (lr_location r) = stock_at s (lr_sku r) (lr_location r) + lr_quantity r"
    using found_stock [OF inv] by simp
  obtain y s2 where lot: "receive_lot_item uuid pg_inventory r s = (y, s2)" by fastforce
  have "s2 = s1 \<and> \<not> isl y" using lot_item_as_receipt [OF True, of uuid pg_inventory s, unfolded lot run] by (simp add: x)
  with st j(2) True show ?thesis by (cases y) (simp_all add: lot)
next
  case False
  obtain found where "findBySkuAndLocation pg_inventory s (lr_sku r) (lr_location r) = Inr found"
    using pi.find_total [OF inv] by blast
  with False show ?thesis
    by (auto simp: receive_lot_item_def oper_simps Quantity_def find_or_create_def split: sum.splits option.splits)
qed

text \<open>
  C19. Receiving goods with a lot updates the three records of them together: when it returns, the stock at the
  location, the ledger balance of the variant there, what the ledger says of the lot there, and the units in the
  cost layers of the variant have each grown by the quantity, and a layer carries the lot at the given cost.
\<close>

theorem lot_receipt_in_all_records:
  assumes inv: "pi_inv (lw_items w)" "table_ok (lw_layers w)"
    and ok: "Sku (lr_sku r) = Inr (lr_sku r)" "LocationId (lr_location r) = Inr (lr_location r)"
    and new: "InventoryItemId (uuid 0) = Inr (uuid 0)" "pi_row (lw_items w) (uuid 0) = None" "uuid 2 \<notin> lid ` set (lw_layers w)"
    and run: "ReceiveStockWithLotUseCase uuid now iso8601 pg_inventory prepo mem_ledger pg_layers capacity r w = (Inr x, w')"
  shows "\<exists>v lt. receipt_variant prepo (lr_sku r) = Inr v \<and> Lot (lr_lotNumber r) (lr_expirationDate r) = Inr lt
    \<and> stock_at (lw_items w') (lr_sku r) (lr_location r) = stock_at (lw_items w) (lr_sku r) (lr_location r) + lr_quantity r
    \<and> balance (lw_ledger w') (pv_id v) (lr_location r) = balance (lw_ledger w) (pv_id v) (lr_location r) + lr_quantity r
    \<and> lot_on_hand (mem_entriesFor (lw_ledger w') (pv_id v) None) (lr_lotNumber r) (lr_location r) =
        lot_on_hand (mem_entriesFor (lw_ledger w) (pv_id v) None) (lr_lotNumber r) (lr_location r) + lr_quantity r
    \<and> variant_units (lw_layers w') (pv_id v) = variant_units (lw_layers w) (pv_id v) + lr_quantity r
    \<and> (\<exists>l\<in>set (lw_layers w'). lid l = uuid 2 \<and> llot l = Some lt \<and> unitCostCents l = lr_unitCost r \<and> remainingQuantity l = lr_quantity r)
    \<and> pi_inv (lw_items w') \<and> table_ok (lw_layers w')"
proof -
  obtain v where v: "receipt_variant prepo (lr_sku r) = Inr v"
    using run by (cases "receipt_variant prepo (lr_sku r)") (auto simp: ReceiveStockWithLotUseCase_def oper_simps)
  obtain item s1 where item: "receive_lot_item uuid pg_inventory r (lw_items w) = (Inr item, s1)"
      and rest: "record_lot uuid now iso8601 mem_ledger pg_layers v r (w\<lparr>lw_items := s1\<rparr>) = (Inr (), w')"
    using run v by (auto simp: ReceiveStockWithLotUseCase_def oper_simps split: sum.splits prod.splits)
  obtain lt e l where lt: "Lot (lr_lotNumber r) (lr_expirationDate r) = Inr lt"
      and e: "lot_entry_of (uuid 1) now iso8601 v lt r = Inr e"
      and l: "InventoryCostLayer (uuid 2) (pv_id v) (lr_quantity r) (lr_unitCost r) now None (Some lt) = Inr l"
      and w': "w' = w\<lparr>lw_items := s1, lw_ledger := lw_ledger w @ [e], lw_layers := lw_layers w @ [l]\<rparr>"
  proof -
    note result = that
    obtain lt where lt: "Lot (lr_lotNumber r) (lr_expirationDate r) = Inr lt"
      using rest by (cases "Lot (lr_lotNumber r) (lr_expirationDate r)") (auto simp: record_lot_def oper_simps)
    obtain e where e: "lot_entry_of (uuid 1) now iso8601 v lt r = Inr e"
      using rest lt by (cases "lot_entry_of (uuid 1) now iso8601 v lt r") (auto simp: record_lot_def oper_simps)
    obtain l where l: "InventoryCostLayer (uuid 2) (pv_id v) (lr_quantity r) (lr_unitCost r) now None (Some lt) = Inr l"
      using rest lt e
      by (cases "InventoryCostLayer (uuid 2) (pv_id v) (lr_quantity r) (lr_unitCost r) now None (Some lt)")
         (auto simp: record_lot_def oper_simps mem_ledger_def mem_append_def InventoryCostLayerId_def make_id_def result_bind_def split: if_splits)
    have "lid l = uuid 2" using l by (auto simp: InventoryCostLayer_def split: if_splits)
    with new(3) have up: "pg_upsert l (lw_layers w) = lw_layers w @ [l]" by (simp add: pg_upsert_def)
    have "w' = w\<lparr>lw_items := s1, lw_ledger := lw_ledger w @ [e], lw_layers := lw_layers w @ [l]\<rparr>"
      using rest lt e l up
      by (auto simp: record_lot_def oper_simps mem_ledger_def mem_append_def pg_layers_def pg_saveLayer_def
          InventoryCostLayerId_def make_id_def result_bind_def split: if_splits)
    with lt e l show thesis by (rule result)
  qed
  have step: "0 \<le> lr_quantity r \<and> pi_inv s1 \<and> stock_at s1 (lr_sku r) (lr_location r) = stock_at (lw_items w) (lr_sku r) (lr_location r) + lr_quantity r"
    using receive_lot_step [where r = r and uuid = uuid, OF inv(1) ok new(1,2)] item by simp
  have lot: "lotNumber lt = lr_lotNumber r" "lr_lotNumber r \<noteq> []" using lt by (auto simp: Lot_def split: if_splits option.splits)
  have entry: "le_variant e = pv_id v" "le_location e = lr_location r" "le_quantity e = lr_quantity r"
      "map_of (le_metadata e) ''lotNumber'' = Some (S (lr_lotNumber r))"
    using e ok(2) lot(1) by (auto simp: lot_entry_of_def result_bind_Inr_iff LedgerEntry_def split: if_splits)
  have layer: "lid l = uuid 2" "lvariant l = pv_id v" "remainingQuantity l = lr_quantity r" "unitCostCents l = lr_unitCost r"
      "llot l = Some lt" "layer_ok l"
    using l by (auto simp: InventoryCostLayer_def remainingQuantity_def layer_ok_def split: if_splits)
  have grow: "units (ls @ [k]) = units ls + remainingQuantity k" for ls k by (induction ls) simp_all
  have tbl: "table_ok (lw_layers w @ [l])" "variant_units (lw_layers w @ [l]) (pv_id v) = variant_units (lw_layers w) (pv_id v) + lr_quantity r"
    using inv(2) layer new(3) by (auto simp: table_ok_def layers_ok_def grow)
  have led: "balance (lw_ledger w @ [e]) (pv_id v) (lr_location r) = balance (lw_ledger w) (pv_id v) (lr_location r) + lr_quantity r"
      "lot_on_hand (mem_entriesFor (lw_ledger w @ [e]) (pv_id v) None) (lr_lotNumber r) (lr_location r) =
        lot_on_hand (mem_entriesFor (lw_ledger w) (pv_id v) None) (lr_lotNumber r) (lr_location r) + lr_quantity r"
    using entry lot(2) by (simp_all add: lot_on_hand_def mem_entriesFor_def)
  have "l \<in> set (lw_layers w')" "lw_items w' = s1" "lw_ledger w' = lw_ledger w @ [e]" "lw_layers w' = lw_layers w @ [l]"
    by (simp_all add: w')
  note w' = this
  show ?thesis
    unfolding w'(2-4)
    by (intro exI [of _ v] exI [of _ lt] conjI v lt led tbl conjunct1 [OF step] conjunct1 [OF conjunct2 [OF step]]
        conjunct2 [OF conjunct2 [OF step]] bexI [of _ l] layer) (simp add: w')
qed

definition sample_receipt :: "string \<Rightarrow> lot_receipt" where
  "sample_receipt lotNo = \<lparr>lr_sku = ''WIDGET-1'', lr_location = ''loc-1'', lr_quantity = 6, lr_unitCost = 250,
     lr_lotNumber = lotNo, lr_expirationDate = Some 90, lr_tenant = ''t1'', lr_actor = ''a1''\<rparr>"

definition sample_lot_world :: "(inventory_db, ledger_entry list, layer_table) lot_world" where
  "sample_lot_world = \<lparr>lw_items = sample_db, lw_ledger = [], lw_layers = []\<rparr>"

theorem lot_receipt_in_all_records_witness:
  "\<exists>w'. ReceiveStockWithLotUseCase sample_uuids 3 (\<lambda>t. ''2030-01-01T00:00:00.000Z'') pg_inventory (mem_products heavy_catalogue) mem_ledger
      pg_layers None (sample_receipt ''L7'') sample_lot_world = (Inr True, w')
    \<and> stock_at (lw_items w') ''WIDGET-1'' ''loc-1'' = 18 \<and> balance (lw_ledger w') ''v1'' ''loc-1'' = 6"
proof -
  let ?run = "ReceiveStockWithLotUseCase sample_uuids 3 (\<lambda>t. ''2030-01-01T00:00:00.000Z'') pg_inventory (mem_products heavy_catalogue) mem_ledger
      pg_layers None (sample_receipt ''L7'') sample_lot_world"
  have "\<not> isl (fst ?run) \<and> projr (fst ?run)" by code_simp
  from run_true [OF this] obtain w' where run: "?run = (Inr True, w')" by blast
  have pre: "pi_inv (lw_items sample_lot_world)" "table_ok (lw_layers sample_lot_world)"
    using sample_db_inv by (simp_all add: sample_lot_world_def table_ok_def layers_ok_def)
  have "Sku (lr_sku (sample_receipt ''L7'')) = Inr (lr_sku (sample_receipt ''L7''))"
    "LocationId (lr_location (sample_receipt ''L7'')) = Inr (lr_location (sample_receipt ''L7''))"
    "InventoryItemId (sample_uuids 0) = Inr (sample_uuids 0)" "pi_row (lw_items sample_lot_world) (sample_uuids 0) = None"
    by code_simp+
  moreover have "sample_uuids 2 \<notin> lid ` set (lw_layers sample_lot_world)" by (simp add: sample_lot_world_def)
  moreover have "map_option pv_id (case receipt_variant (mem_products heavy_catalogue) ''WIDGET-1'' of Inl e \<Rightarrow> None | Inr v \<Rightarrow> Some v) = Some ''v1''"
    by code_simp
  moreover have "stock_at (lw_items sample_lot_world) ''WIDGET-1'' ''loc-1'' = 12" "balance (lw_ledger sample_lot_world) ''v1'' ''loc-1'' = 0"
    by (simp_all add: stock_at_def row_at_def sample_lot_world_def sample_db_def sample_row_def sample_item_def InventoryItem_def row_of_def)
  ultimately show ?thesis
    using lot_receipt_in_all_records [OF pre _ _ _ _ _ run] run by (auto simp: sample_receipt_def)
qed

section \<open>A receipt that stops half way\<close>

text \<open>
  The three records are written one after the other, and the lot is validated after the first. A receipt with a
  blank lot number throws when the item is already saved: the stock has grown by the quantity, while the
  ledger and the cost layers have not changed.
\<close>

theorem blank_lot_receives_stock:
  assumes "pi_inv (lw_items w)" and "Sku (lr_sku r) = Inr (lr_sku r)" and "LocationId (lr_location r) = Inr (lr_location r)"
    and "InventoryItemId (uuid 0) = Inr (uuid 0)" and "pi_row (lw_items w) (uuid 0) = None"
    and "receipt_variant prepo (lr_sku r) = Inr v" and "0 \<le> lr_quantity r" and "is_blank (lr_lotNumber r)"
  shows "\<exists>w'. ReceiveStockWithLotUseCase uuid now iso8601 pg_inventory prepo mem_ledger pg_layers None r w =
      (Inl (Error ''Lot number cannot be empty.'' []), w')
    \<and> stock_at (lw_items w') (lr_sku r) (lr_location r) = stock_at (lw_items w) (lr_sku r) (lr_location r) + lr_quantity r
    \<and> lw_ledger w' = lw_ledger w \<and> lw_layers w' = lw_layers w"
proof -
  note step = receive_lot_step [where r = r and uuid = uuid, OF assms(1-5)]
  obtain x s1 where item: "receive_lot_item uuid pg_inventory r (lw_items w) = (x, s1)" by fastforce
  with step assms(7) obtain i where x: "x = Inr i" by (cases x) auto
  have "Lot (lr_lotNumber r) (lr_expirationDate r) = Inl (Error ''Lot number cannot be empty.'' [])"
    using assms(8) by (simp add: Lot_def)
  with assms(6) item x have "ReceiveStockWithLotUseCase uuid now iso8601 pg_inventory prepo mem_ledger pg_layers None r w =
      (Inl (Error ''Lot number cannot be empty.'' []), w\<lparr>lw_items := s1\<rparr>)"
    by (simp add: ReceiveStockWithLotUseCase_def record_lot_def oper_simps)
  with step item x show ?thesis by simp
qed

theorem blank_lot_receives_stock_witness:
  "\<exists>e w'. ReceiveStockWithLotUseCase sample_uuids 3 (\<lambda>t. ''2030'') pg_inventory (mem_products heavy_catalogue) mem_ledger
      pg_layers None (sample_receipt '' '') sample_lot_world = (Inl e, w')
    \<and> stock_at (lw_items w') ''WIDGET-1'' ''loc-1'' = 18 \<and> lw_ledger w' = [] \<and> lw_layers w' = []"
proof -
  let ?r = "sample_receipt '' ''"
  have "pi_inv (lw_items sample_lot_world)" using sample_db_inv by (simp add: sample_lot_world_def)
  moreover have "Sku (lr_sku ?r) = Inr (lr_sku ?r)" "LocationId (lr_location ?r) = Inr (lr_location ?r)"
    "InventoryItemId (sample_uuids 0) = Inr (sample_uuids 0)" "pi_row (lw_items sample_lot_world) (sample_uuids 0) = None"
    "0 \<le> lr_quantity ?r" "is_blank (lr_lotNumber ?r)" by code_simp+
  moreover have "\<not> isl (receipt_variant (mem_products heavy_catalogue) (lr_sku ?r))" by code_simp
  then obtain v where "receipt_variant (mem_products heavy_catalogue) (lr_sku ?r) = Inr v" by (metis sum.collapse(2))
  moreover have "stock_at (lw_items sample_lot_world) ''WIDGET-1'' ''loc-1'' = 12"
    by (simp add: stock_at_def row_at_def sample_lot_world_def sample_db_def sample_row_def sample_item_def InventoryItem_def row_of_def)
  ultimately show ?thesis
    using blank_lot_receives_stock [of sample_lot_world ?r sample_uuids "mem_products heavy_catalogue" v 3 "\<lambda>t. ''2030''"]
    by (auto simp: sample_receipt_def sample_lot_world_def)
qed

section \<open>Tracing a recall\<close>

lemma lotBalances_no_lot: "map_of (le_metadata e) ''lotNumber'' = None \<Longrightarrow> lotBalances (es @ [e]) = lotBalances es"
  by (simp add: lotBalances_def lot_balance_step_def)

definition lotless :: "ledger_entry list \<Rightarrow> ledger_entry list shop \<Rightarrow> bool" where
  "lotless es w \<longleftrightarrow> (\<exists>new. stock w = es @ new \<and> (\<forall>e\<in>set new. le_metadata e = []))"

lemma deduction_lotless: "deduction uuid tenant loc reason actor now ref x = Inr e \<Longrightarrow> le_metadata e = []"
  by (auto simp: deduction_def result_bind_Inr_iff LedgerEntry_def split: if_splits prod.splits)

lemma deductions_lotless:
  "result_map (deduction uuid tenant loc reason actor now ref) xs = Inr es \<Longrightarrow> e \<in> set es \<Longrightarrow> le_metadata e = []"
  by (induction xs arbitrary: es) (auto split: sum.splits dest: deduction_lotless)

lemma keeps_dispatch: "keeps (lotless es) (dispatch_event x)"
  by (auto simp: keeps_def dispatch_event_def oper_simps lotless_def)

lemma keeps_validate: "keeps P (validate_items avail items)"
  unfolding validate_items_def by (intro keeps_each) (auto simp: case_prod_beta intro: keeps_intros)

lemma keeps_sell: "keeps (lotless es) (sell_items uuid now mem_ledger tenant loc reason items saleId actor)"
proof -
  have lift: "keeps (lotless es) (op_bind (op_lift r) k)" if "\<And>a. r = Inr a \<Longrightarrow> keeps (lotless es) (k a)"
    for r and k :: "'x \<Rightarrow> (ledger shop, unit) oper"
    using that by (cases r) (auto simp: keeps_def oper_simps)
  have append: "keeps (lotless es) (on_stock (appendBatch mem_ledger xs))" if "\<forall>e\<in>set xs. le_metadata e = []" for xs
    using that by (auto simp: keeps_def oper_simps mem_ledger_def mem_appendBatch_def lotless_def)
  show ?thesis
    unfolding sell_items_def Let_def
    by (intro keeps_get keeps_seq keeps_validate lift append keeps_each)
       (auto dest: deductions_lotless simp: case_prod_beta intro: keeps_dispatch)
qed

lemma sales_lotless:
  "keeps (lotless es) (decrementForSale uuid now mem_ledger tenant loc v q saleId actor)"
  "keeps (lotless es) (decrementForSaleBatch uuid now mem_ledger tenant loc items saleId actor)"
  "keeps (lotless es) (decrementForKitSale uuid now mem_ledger tenant loc k n saleId actor)"
proof -
  have lift: "keeps (lotless es) (op_bind (op_lift r) c)" if "\<And>a. r = Inr a \<Longrightarrow> keeps (lotless es) (c a)"
    for r and c :: "'x \<Rightarrow> (ledger shop, unit) oper"
    using that by (cases r) (auto simp: keeps_def oper_simps)
  have append: "keeps (lotless es) (on_stock (append_entry mem_ledger e))" if "le_metadata e = []" for e
    using that by (auto simp: keeps_def oper_simps mem_ledger_def mem_append_def lotless_def)
  show "keeps (lotless es) (decrementForSale uuid now mem_ledger tenant loc v q saleId actor)"
    unfolding decrementForSale_def assertSufficientStock_def Let_def
    by (intro keeps_get keeps_seq keeps_reject lift append keeps_dispatch) (auto dest: deduction_lotless)
  show "keeps (lotless es) (decrementForSaleBatch uuid now mem_ledger tenant loc items saleId actor)"
    unfolding decrementForSaleBatch_def by (intro keeps_if keeps_return keeps_sell)
  show "keeps (lotless es) (decrementForKitSale uuid now mem_ledger tenant loc k n saleId actor)"
    unfolding decrementForKitSale_def by (intro keeps_seq keeps_reject keeps_sell)
qed

lemma lotless_same:
  assumes "lotless (stock w) w'"
  shows "traceProductRecall mem_ledger (stock w') lotNo = traceProductRecall mem_ledger (stock w) lotNo
    \<and> lotBalances (mem_entriesFor (stock w') v None) = lotBalances (mem_entriesFor (stock w) v None)"
proof -
  obtain new where new: "stock w' = stock w @ new" "\<forall>e\<in>set new. le_metadata e = []" using assms by (auto simp: lotless_def)
  have "filter (\<lambda>e. map_of (le_metadata e) ''lotNumber'' = Some (S lotNo)) new = []"
    using new(2) by (auto simp: filter_empty_conv)
  moreover have "lotBalances (es @ filter P new) = lotBalances es" for es P
    using new(2) by (induction new arbitrary: es) (auto simp: lotBalances_def lot_balance_step_def)
  ultimately show ?thesis by (simp add: new(1) traceProductRecall_def mem_ledger_def mem_findRecallEntries_def mem_entriesFor_def)
qed

text \<open>
  Sales carry no lot. Whatever is sold, in one of the three ways to sell and whether the sale returns or throws,
  the trace of a recall and the lot balances that the picking plan starts from stay as they were: a recall never
  finds a sale, and lots that are sold out are still offered for picking.
\<close>

theorem sales_are_untraceable:
  shows "\<forall>sale\<in>{decrementForSale uuid now mem_ledger tenant loc v q saleId actor,
      decrementForSaleBatch uuid now mem_ledger tenant loc items saleId actor,
      decrementForKitSale uuid now mem_ledger tenant loc k n saleId actor}.
    traceProductRecall mem_ledger (stock (snd (sale w))) lotNo = traceProductRecall mem_ledger (stock w) lotNo
    \<and> lotBalances (mem_entriesFor (stock (snd (sale w))) v' None) = lotBalances (mem_entriesFor (stock w) v' None)"
    (is "\<forall>sale\<in>?sales. _")
proof -
  have start: "lotless (stock w) w" by (simp add: lotless_def)
  show ?thesis
  proof (rule ballI)
    fix sale assume "sale \<in> ?sales"
    then have "keeps (lotless (stock w)) sale" by (auto intro: sales_lotless)
    from lotless_same [OF keepsD_snd [OF this start]]
    show "traceProductRecall mem_ledger (stock (snd (sale w))) lotNo = traceProductRecall mem_ledger (stock w) lotNo
      \<and> lotBalances (mem_entriesFor (stock (snd (sale w))) v' None) = lotBalances (mem_entriesFor (stock w) v' None)" .
  qed
qed

theorem sales_are_untraceable_witness:
  "traceProductRecall mem_ledger (stock (snd (decrementForSale (\<lambda>n. ''e9'') 5 mem_ledger ''t1'' ''loc-1'' ''v1'' 4 ''s1'' ''a1''
      \<lparr>stock = [lot_entry ''L1'' ''loc-1'' 4], outbox = []\<rparr>))) ''L1'' = Inr []
   \<and> balance (stock (snd (decrementForSale (\<lambda>n. ''e9'') 5 mem_ledger ''t1'' ''loc-1'' ''v1'' 4 ''s1'' ''a1''
      \<lparr>stock = [lot_entry ''L1'' ''loc-1'' 4], outbox = []\<rparr>))) ''v1'' ''loc-1'' = 0"
proof -
  let ?w = "\<lparr>stock = [lot_entry ''L1'' ''loc-1'' 4], outbox = []\<rparr>"
  have "traceProductRecall mem_ledger (stock ?w) ''L1'' = Inr []" by code_simp
  moreover have "balance (stock (snd (decrementForSale (\<lambda>n. ''e9'') 5 mem_ledger ''t1'' ''loc-1'' ''v1'' 4 ''s1'' ''a1'' ?w))) ''v1'' ''loc-1'' = 0"
    by code_simp
  moreover note sales_are_untraceable [of "\<lambda>n. ''e9''" 5 "''t1''" "''loc-1''" "''v1''" 4 "''s1''" "''a1''" "[]" undefined 0 ?w "''L1''" "''v1''"]
  ultimately show ?thesis by simp
qed

text \<open>A recall names every deduction that carries the lot, and its quantities add up to what was deducted.\<close>

lemma recall_total:
  assumes "traceProductRecall mem_ledger es lotNo = Inr ds"
  shows "(\<Sum>d\<leftarrow>ds. cdp_quantity d) = - (\<Sum>e\<leftarrow>es. if map_of (le_metadata e) ''lotNumber'' = Some (S lotNo) \<and> le_quantity e < 0 then le_quantity e else 0)"
proof -
  have "ds = map (\<lambda>e. \<lparr>cdp_entry = le_id e, cdp_location = le_location e, cdp_quantity = \<bar>le_quantity e\<bar>,
        cdp_reference = le_reference e, cdp_occurredAt = le_occurredAt e, cdp_actor = le_actor e\<rparr>)
        (filter isDeduction (mem_findRecallEntries es lotNo))"
    using assms by (simp add: traceProductRecall_def mem_ledger_def split: if_splits)
  moreover have "(\<Sum>e\<leftarrow>filter isDeduction (mem_findRecallEntries xs lotNo). \<bar>le_quantity e\<bar>) =
      - (\<Sum>e\<leftarrow>xs. if map_of (le_metadata e) ''lotNumber'' = Some (S lotNo) \<and> le_quantity e < 0 then le_quantity e else 0)" for xs
    by (induction xs) (auto simp: mem_findRecallEntries_def isDeduction_def)
  ultimately show ?thesis by (simp add: o_def)
qed

end
