(* ===== verification/Barcodes.thy ===== *)
theory Barcodes
  imports Lots
begin

text \<open>
  Barcodes: src/src/domain/entities/BarcodeAssignment.ts, VariantBarcodeSet.ts, the services BarcodeRegistry.ts,
  InternalBarcodeGenerator.ts and BarcodeScanDispatcher.ts, PostgresBarcodeRepository.ts, and the use cases and
  scan handlers of ManageBarcodes.ts. \<open>sha256\<close> is the hexadecimal digest of a string, \<open>to_uuid\<close> the function of
  utils/uuid.ts, \<open>decimal\<close> how a number is printed.
\<close>

section \<open>The barcodes of a variant\<close>

datatype barcode_event = BarcodeAssigned string string time | BarcodeRevoked string string time

record barcode_assignment =
  ba_id :: ident
  ba_sku :: string
  ba_barcode :: barcode
  ba_source :: barcode_source
  ba_isPrimary :: bool
  ba_assignedAt :: time

definition cloneWithPrimary :: "bool \<Rightarrow> barcode_assignment \<Rightarrow> barcode_assignment" where
  "cloneWithPrimary p a = a\<lparr>ba_isPrimary := p\<rparr>"

record barcode_set =
  bs_sku :: string
  bs_assignments :: "(ident, barcode_assignment) js_map"
  bs_events :: "barcode_event list"

definition VariantBarcodeSet :: "string \<Rightarrow> barcode_set" where
  "VariantBarcodeSet sku = \<lparr>bs_sku = sku, bs_assignments = [], bs_events = []\<rparr>"

definition bs_assign :: "string \<Rightarrow> time \<Rightarrow> barcode \<Rightarrow> barcode_source \<Rightarrow> bool \<Rightarrow> (barcode_set, barcode_assignment) oper" where
  "bs_assign uuid now b src makePrimary = op_get (\<lambda>s0.
     op_seq (op_reject (list_ex (\<lambda>(i, a). barcode_equals (ba_barcode a) b) (bs_assignments s0))
       (Error ''Barcode {} is already assigned to this variant.'' [S (bvalue b)]))
     (op_seq (op_modify (\<lambda>s. if makePrimary
        then s\<lparr>bs_assignments := map (\<lambda>(i, a). (i, if ba_isPrimary a then cloneWithPrimary False a else a)) (bs_assignments s)\<rparr>
        else s))
     (op_get (\<lambda>s. let shouldBePrimary = makePrimary \<or> length (bs_assignments s) = 0 in
      op_bind (op_lift (BarcodeAssignmentId uuid)) (\<lambda>i.
      let a = \<lparr>ba_id = i, ba_sku = bs_sku s, ba_barcode = b, ba_source = src, ba_isPrimary = shouldBePrimary, ba_assignedAt = now\<rparr> in
      op_seq (op_modify (\<lambda>s. s\<lparr>bs_assignments := AList.update i a (bs_assignments s),
         bs_events := bs_events s @ [BarcodeAssigned (bs_sku s) (bvalue b) now]\<rparr>))
      (op_return a))))))"

definition loadAssignment :: "barcode_assignment \<Rightarrow> barcode_set \<Rightarrow> barcode_set" where
  "loadAssignment a s = s\<lparr>bs_assignments := AList.update (ba_id a) a (bs_assignments s)\<rparr>"

definition bs_revoke :: "time \<Rightarrow> ident \<Rightarrow> (barcode_set, unit) oper" where
  "bs_revoke now i = op_get (\<lambda>s. case map_of (bs_assignments s) i of
     None \<Rightarrow> op_throw (Error ''Assignment {} not found.'' [S i])
   | Some a \<Rightarrow> op_seq (op_reject (ba_isPrimary a \<and> length (bs_assignments s) > 1)
         (Error ''Cannot revoke the primary barcode while other assignments exist. Promote another barcode to primary first.'' []))
       (op_modify (\<lambda>s. s\<lparr>bs_assignments := AList.delete i (bs_assignments s),
          bs_events := bs_events s @ [BarcodeRevoked (bs_sku s) (bvalue (ba_barcode a)) now]\<rparr>)))"

definition primaryBarcode :: "barcode_set \<Rightarrow> barcode_assignment option" where
  "primaryBarcode s = find ba_isPrimary (map snd (bs_assignments s))"

definition bs_all :: "barcode_set \<Rightarrow> barcode_assignment list" where
  "bs_all s = map snd (bs_assignments s)"

definition bs_pullDomainEvents :: "(barcode_set, barcode_event list) oper" where
  "bs_pullDomainEvents = op_get (\<lambda>s. op_seq (op_modify (\<lambda>s. s\<lparr>bs_events := []\<rparr>)) (op_return (bs_events s)))"

section \<open>The tables\<close>

record 'b barcode_repo =
  findSkuByBarcodeValue :: "'b \<Rightarrow> string \<Rightarrow> string option result"
  findSetBySku :: "'b \<Rightarrow> string \<Rightarrow> barcode_set option result"
  findAllAssignments :: "'b \<Rightarrow> barcode_assignment list result"
  save_set :: "barcode_set \<Rightarrow> ('b, unit) oper"

record barcode_row =
  br_id :: ident
  br_variant :: ident
  br_value :: string
  br_symbology :: barcode_symbology
  br_source :: barcode_source
  br_primary :: bool
  br_assignedAt :: time

record barcode_db =
  bd_variants :: "(ident \<times> string) list"
  bd_rows :: "barcode_row list"

definition row_assignment :: "string \<Rightarrow> barcode_row \<Rightarrow> barcode_assignment result" where
  "row_assignment sku r = result_bind (BarcodeAssignmentId (br_id r)) (\<lambda>i.
     result_bind (Barcode (br_symbology r) (br_value r)) (\<lambda>b.
       Inr \<lparr>ba_id = i, ba_sku = sku, ba_barcode = b, ba_source = br_source r, ba_isPrimary = br_primary r,
         ba_assignedAt = br_assignedAt r\<rparr>))"

definition bc_findSkuByBarcodeValue :: "barcode_db \<Rightarrow> string \<Rightarrow> string option result" where
  "bc_findSkuByBarcodeValue s v = (case find (\<lambda>r. br_value r = v) (bd_rows s) of
     None \<Rightarrow> Inr None
   | Some r \<Rightarrow> (case map_of (bd_variants s) (br_variant r) of
       None \<Rightarrow> Inr None | Some sku \<Rightarrow> result_bind (Sku sku) (Inr \<circ> Some)))"

definition variant_of_sku :: "barcode_db \<Rightarrow> string \<Rightarrow> ident option" where
  "variant_of_sku s sku = map_option fst (find (\<lambda>(i, k). k = sku) (bd_variants s))"

definition bc_findSetBySku :: "barcode_db \<Rightarrow> string \<Rightarrow> barcode_set option result" where
  "bc_findSetBySku s sku = (case variant_of_sku s sku of
     None \<Rightarrow> Inr None
   | Some v \<Rightarrow> result_bind (result_map (row_assignment sku) (filter (\<lambda>r. br_variant r = v) (bd_rows s))) (\<lambda>as.
       Inr (Some (fold loadAssignment as (VariantBarcodeSet sku)))))"

definition barcode_row_of :: "(string \<Rightarrow> string) \<Rightarrow> ident \<Rightarrow> barcode_assignment \<Rightarrow> barcode_row" where
  "barcode_row_of to_uuid v a = \<lparr>br_id = to_uuid (ba_id a), br_variant = v, br_value = bvalue (ba_barcode a),
     br_symbology = symbology (ba_barcode a), br_source = ba_source a, br_primary = ba_isPrimary a, br_assignedAt = ba_assignedAt a\<rparr>"

definition upsert_barcode :: "barcode_row \<Rightarrow> barcode_row list \<Rightarrow> barcode_row list" where
  "upsert_barcode r rs = (if br_id r \<in> set (map br_id rs)
     then map (\<lambda>x. if br_id x = br_id r then r\<lparr>br_variant := br_variant x\<rparr> else x) rs else rs @ [r])"

definition bc_save :: "(string \<Rightarrow> string) \<Rightarrow> barcode_set \<Rightarrow> (barcode_db, unit) oper" where
  "bc_save to_uuid b = op_get (\<lambda>s. case variant_of_sku s (bs_sku b) of
     None \<Rightarrow> op_throw (Error ''ProductVariant not found for SKU: {}'' [S (bs_sku b)])
   | Some v \<Rightarrow> let new = map (barcode_row_of to_uuid v) (bs_all b);
         kept = filter (\<lambda>r. \<not> (br_variant r = v \<and> br_id r \<notin> set (map br_id new))) (bd_rows s);
         rs = fold upsert_barcode new kept in
       op_seq (op_reject (\<not> distinct (map br_id new))
         (Error ''ON CONFLICT DO UPDATE command cannot affect row a second time'' []))
       (op_seq (op_reject (\<not> distinct (map (\<lambda>r. (br_variant r, br_value r)) rs)) (Error ''Unique constraint failed'' []))
       (op_modify (\<lambda>s. s\<lparr>bd_rows := rs\<rparr>))))"

definition bc_findAllAssignments :: "barcode_db \<Rightarrow> barcode_assignment list result" where
  "bc_findAllAssignments s = result_map (\<lambda>r. result_bind (Sku (case map_of (bd_variants s) (br_variant r) of
       None \<Rightarrow> [] | Some sku \<Rightarrow> sku)) (\<lambda>sku. row_assignment sku r))
     (sort_key (\<lambda>r. - br_assignedAt r) (bd_rows s))"

definition pg_barcodes :: "(string \<Rightarrow> string) \<Rightarrow> barcode_db barcode_repo" where
  "pg_barcodes to_uuid = \<lparr>findSkuByBarcodeValue = bc_findSkuByBarcodeValue, findSetBySku = bc_findSetBySku,
     findAllAssignments = bc_findAllAssignments, save_set = bc_save to_uuid\<rparr>"

section \<open>Registry and generator\<close>

definition barcode_resolve :: "'b barcode_repo \<Rightarrow> 'b \<Rightarrow> string \<Rightarrow> string result" where
  "barcode_resolve repo s scanned = result_bind (findSkuByBarcodeValue repo s (to_upper (trim scanned))) (\<lambda>sku.
     case sku of None \<Rightarrow> Inl (Error ''No variant found for barcode: {}'' [S scanned]) | Some k \<Rightarrow> Inr k)"

definition isRegistered :: "'b barcode_repo \<Rightarrow> 'b \<Rightarrow> string \<Rightarrow> bool result" where
  "isRegistered repo s v = result_bind (findSkuByBarcodeValue repo s (to_upper (trim v))) (\<lambda>sku. Inr (sku \<noteq> None))"

definition buildValue :: "(string \<Rightarrow> string) \<Rightarrow> (nat \<Rightarrow> string) \<Rightarrow> string \<Rightarrow> string \<Rightarrow> nat \<Rightarrow> string" where
  "buildValue sha256 decimal sku tenant salt =
     ''INV-'' @ to_upper (take 4 (sha256 tenant)) @ ''-'' @ to_upper (take 8 (sha256 (sku @ decimal salt)))"

text \<open>
  The loop of \<open>generate\<close>: \<open>attempts\<close> counts the values built. It is left when a value is free, and by the throw when
  the sixth value is built.
\<close>

function generate_value :: "(nat \<Rightarrow> string) \<Rightarrow> (string \<Rightarrow> bool result) \<Rightarrow> nat \<Rightarrow> string result" where
  "generate_value build registered attempts = (let v = build attempts in
     if attempts + 1 > 5 then Inl (Error ''Could not generate a unique barcode after 5 attempts.'' [])
     else result_bind (registered v) (\<lambda>taken. if taken then generate_value build registered (attempts + 1) else Inr v))"
  by pat_completeness auto

termination by (relation "measure (\<lambda>(b, r, attempts). 6 - attempts)") auto

declare generate_value.simps [simp del]

definition generate_barcode ::
    "(string \<Rightarrow> string) \<Rightarrow> (nat \<Rightarrow> string) \<Rightarrow> 'b barcode_repo \<Rightarrow> 'b \<Rightarrow> string \<Rightarrow> string \<Rightarrow> barcode result" where
  "generate_barcode sha256 decimal repo s sku tenant =
     result_bind (generate_value (buildValue sha256 decimal sku tenant) (isRegistered repo s) 0) (Barcode CODE_128)"

section \<open>Use cases\<close>

definition load_set :: "'b barcode_repo \<Rightarrow> string \<Rightarrow> ('b, barcode_set) oper" where
  "load_set repo skuStr = op_bind (op_lift (Sku skuStr)) (\<lambda>sku.
     op_bind (op_get (\<lambda>s. op_lift (findSetBySku repo s sku))) (\<lambda>found. case found of
       None \<Rightarrow> op_throw (Error ''ProductVariant not found for SKU: {}'' [S skuStr]) | Some b \<Rightarrow> op_return b))"

definition AssignBarcodeUseCase ::
    "string \<Rightarrow> time \<Rightarrow> 'b barcode_repo \<Rightarrow> string \<Rightarrow> string \<Rightarrow> barcode_symbology \<Rightarrow> barcode_source \<Rightarrow> bool option \<Rightarrow> ('b, bool) oper" where
  "AssignBarcodeUseCase uuid now repo sku v sy src makePrimary = op_bind (load_set repo sku) (\<lambda>b0.
     op_bind (op_lift (Barcode sy v)) (\<lambda>b. case bs_assign uuid now b src (makePrimary = Some True) b0 of
       (Inl e, b1) \<Rightarrow> op_throw e | (Inr a, b1) \<Rightarrow> op_seq (save_set repo b1) (op_return True)))"

definition RevokeBarcodeUseCase :: "time \<Rightarrow> 'b barcode_repo \<Rightarrow> string \<Rightarrow> string \<Rightarrow> ('b, bool) oper" where
  "RevokeBarcodeUseCase now repo sku i = op_bind (load_set repo sku) (\<lambda>b0.
     op_bind (op_lift (BarcodeAssignmentId i)) (\<lambda>i'. case bs_revoke now i' b0 of
       (Inl e, b1) \<Rightarrow> op_throw e | (Inr _, b1) \<Rightarrow> op_seq (save_set repo b1) (op_return True)))"

definition GenerateInternalBarcodeUseCase ::
    "(string \<Rightarrow> string) \<Rightarrow> (nat \<Rightarrow> string) \<Rightarrow> string \<Rightarrow> time \<Rightarrow> 'b barcode_repo \<Rightarrow> string \<Rightarrow> string \<Rightarrow> ('b, string) oper" where
  "GenerateInternalBarcodeUseCase sha256 decimal uuid now repo skuStr tenantId = op_bind (load_set repo skuStr) (\<lambda>b0.
     op_bind (op_lift (Sku skuStr)) (\<lambda>sku.
     op_bind (op_lift (TenantId tenantId)) (\<lambda>tenant.
     op_bind (op_get (\<lambda>s. op_lift (generate_barcode sha256 decimal repo s sku tenant))) (\<lambda>b.
     case bs_assign uuid now b Internal_source False b0 of
       (Inl e, b1) \<Rightarrow> op_throw e | (Inr a, b1) \<Rightarrow> op_seq (save_set repo b1) (op_return (bvalue b))))))"

definition LookupBarcodeUseCase :: "'b barcode_repo \<Rightarrow> 'b \<Rightarrow> string \<Rightarrow> string result" where
  "LookupBarcodeUseCase repo s v = barcode_resolve repo s v"

section \<open>Scans\<close>

datatype scan_context = PointOfSale | Receiving | CycleCount | TransferOut | TransferIn

record scan_payload =
  sp_location :: "string option"
  sp_amount :: "number option"
  sp_actual :: "number option"
  sp_tenant :: "string option"

type_synonym 'w scan_handler = "string \<Rightarrow> string \<Rightarrow> scan_payload \<Rightarrow> ('w, unit) oper"

definition register_handler :: "scan_context \<Rightarrow> 'w scan_handler \<Rightarrow> (scan_context, 'w scan_handler) js_map \<Rightarrow> (scan_context, 'w scan_handler) js_map" where
  "register_handler c h m = AList.update c h m"

definition scan_dispatch ::
    "'b barcode_repo \<Rightarrow> 'b \<Rightarrow> (scan_context, 'w scan_handler) js_map \<Rightarrow> string \<Rightarrow> scan_context \<Rightarrow> scan_payload \<Rightarrow> ('w, unit) oper" where
  "scan_dispatch repo s handlers raw c p = op_bind (op_lift (barcode_resolve repo s raw)) (\<lambda>sku. case map_of handlers c of
     None \<Rightarrow> op_throw (Error ''No handler registered for scan context'' []) | Some h \<Rightarrow> h sku raw p)"

definition DispatchBarcodeScanUseCase ::
    "'b barcode_repo \<Rightarrow> 'b \<Rightarrow> (scan_context, 'w scan_handler) js_map \<Rightarrow> string \<Rightarrow> scan_context \<Rightarrow> scan_payload \<Rightarrow> ('w, bool) oper" where
  "DispatchBarcodeScanUseCase repo s handlers raw c p = op_seq (scan_dispatch repo s handlers raw c p) (op_return True)"

definition POSScanHandler :: "time \<Rightarrow> 'i inventory_repo \<Rightarrow> ('i, 'a) count_world scan_handler" where
  "POSScanHandler now irepo sku raw p =
     (if \<not> given (sp_location p) then op_throw (Error ''locationId is required for POS scan dispatch.'' [])
      else op_bind (on_counted (DispatchStockUseCase now irepo sku (the (sp_location p))
          (case sp_amount p of None \<Rightarrow> 1 | Some a \<Rightarrow> a))) (\<lambda>(dto, published).
        op_modify (\<lambda>w. w\<lparr>kw_events := kw_events w @ published\<rparr>)))"

definition ReceivingScanHandler ::
    "(nat \<Rightarrow> string) \<Rightarrow> 'i inventory_repo \<Rightarrow> (string \<Rightarrow> string \<Rightarrow> number \<Rightarrow> unit result) option \<Rightarrow> ('i, 'a) count_world scan_handler" where
  "ReceivingScanHandler uuid irepo capacity sku raw p =
     (if \<not> given (sp_location p) then op_throw (Error ''locationId is required for Receiving scan dispatch.'' [])
      else op_bind (on_counted (ReceiveStockUseCase uuid irepo capacity sku (the (sp_location p))
          (case sp_amount p of None \<Rightarrow> 1 | Some a \<Rightarrow> a))) (\<lambda>dto. op_return ()))"

definition CycleCountScanHandler ::
    "(nat \<Rightarrow> string) \<Rightarrow> (nat \<Rightarrow> string) \<Rightarrow> time \<Rightarrow> 'i inventory_repo
     \<Rightarrow> ('i \<Rightarrow> string \<Rightarrow> capacity_adjustment list \<Rightarrow> unit result) option \<Rightarrow> 'a approval_repo option \<Rightarrow> ('i, 'a) count_world scan_handler" where
  "CycleCountScanHandler item_uuid uuid now irepo capacity arepo sku raw p =
     (if \<not> given (sp_location p) then op_throw (Error ''locationId is required for CycleCount scan dispatch.'' [])
      else case sp_actual p of
        None \<Rightarrow> op_throw (Error ''actualQuantity is required for CycleCount scan dispatch.'' [])
      | Some q \<Rightarrow> op_bind (SubmitInventoryCountUseCase item_uuid uuid now irepo capacity arepo
          [\<lparr>ct_sku = sku, ct_location = the (sp_location p), ct_actual = q\<rparr>] None None) (\<lambda>results. op_return ()))"

section \<open>One primary barcode\<close>

datatype barcode_call = Assign_call string time barcode barcode_source bool | Revoke_call time ident | Pull_call

fun call_barcodes :: "barcode_call \<Rightarrow> (barcode_set, unit) oper" where
  "call_barcodes (Assign_call u t b src p) = op_bind (bs_assign u t b src p) (\<lambda>_. op_return ())"
| "call_barcodes (Revoke_call t i) = bs_revoke t i"
| "call_barcodes Pull_call = op_bind bs_pullDomainEvents (\<lambda>_. op_return ())"

definition primaries :: "(ident, barcode_assignment) js_map \<Rightarrow> nat" where
  "primaries m = length (filter (ba_isPrimary \<circ> snd) m)"

definition barcodes_ok :: "barcode_set \<Rightarrow> bool" where
  "barcodes_ok s \<longleftrightarrow> distinct (map fst (bs_assignments s))
     \<and> (\<forall>(i, a)\<in>set (bs_assignments s). ba_id a = i)
     \<and> distinct (map (bvalue \<circ> ba_barcode \<circ> snd) (bs_assignments s))
     \<and> primaries (bs_assignments s) = (if bs_assignments s = [] then 0 else 1)"

text \<open>The identifiers still to come: accepted, different from each other and from those in the set.\<close>

fun fresh_calls :: "ident set \<Rightarrow> barcode_call list \<Rightarrow> bool" where
  "fresh_calls used [] \<longleftrightarrow> True"
| "fresh_calls used (Assign_call u t b src p # cs) \<longleftrightarrow>
     u \<notin> used \<and> BarcodeAssignmentId u = Inr u \<and> fresh_calls (insert u used) cs"
| "fresh_calls used (Revoke_call t i # cs) \<longleftrightarrow> fresh_calls used cs"
| "fresh_calls used (Pull_call # cs) \<longleftrightarrow> fresh_calls used cs"

definition demoted :: "(ident, barcode_assignment) js_map \<Rightarrow> (ident, barcode_assignment) js_map" where
  "demoted m = map (\<lambda>(i, a). (i, if ba_isPrimary a then cloneWithPrimary False a else a)) m"

lemma demoted_simps [simp]:
  "map fst (demoted m) = map fst m" "map (bvalue \<circ> ba_barcode \<circ> snd) (demoted m) = map (bvalue \<circ> ba_barcode \<circ> snd) m"
  "demoted m = [] \<longleftrightarrow> m = []" "length (demoted m) = length m"
  by (auto simp: demoted_def cloneWithPrimary_def)

lemma primaries_demoted [simp]: "primaries (demoted m) = 0"
  by (auto simp: demoted_def cloneWithPrimary_def primaries_def filter_empty_conv split: if_splits)

lemma demoted_ids: "(\<forall>(i, a)\<in>set m. ba_id a = i) \<Longrightarrow> (\<forall>(i, a)\<in>set (demoted m). ba_id a = i)"
  by (auto simp: demoted_def cloneWithPrimary_def)

lemma primaries_append: "primaries (m @ [x]) = primaries m + (if ba_isPrimary (snd x) then 1 else 0)"
  by (simp add: primaries_def)

lemma assign_result:
  assumes "BarcodeAssignmentId u = Inr u" and "u \<notin> fst ` set (bs_assignments s)"
  shows "bs_assign u t b src p s = (if list_ex (\<lambda>(i, a). barcode_equals (ba_barcode a) b) (bs_assignments s)
      then (Inl (Error ''Barcode {} is already assigned to this variant.'' [S (bvalue b)]), s)
      else let m = (if p then demoted (bs_assignments s) else bs_assignments s);
             a = \<lparr>ba_id = u, ba_sku = bs_sku s, ba_barcode = b, ba_source = src,
               ba_isPrimary = p \<or> bs_assignments s = [], ba_assignedAt = t\<rparr> in
        (Inr a, s\<lparr>bs_assignments := m @ [(u, a)], bs_events := bs_events s @ [BarcodeAssigned (bs_sku s) (bvalue b) t]\<rparr>))"
proof -
  have "u \<notin> fst ` set (demoted (bs_assignments s))" using assms(2) by (simp flip: set_map)
  with assms show ?thesis
    by (simp add: bs_assign_def oper_simps Let_def update_fresh flip: demoted_def)
qed

lemma assign_ok:
  assumes ok: "barcodes_ok s" and id: "BarcodeAssignmentId u = Inr u" and new: "u \<notin> fst ` set (bs_assignments s)"
  shows "barcodes_ok (snd (bs_assign u t b src p s))"
    and "fst ` set (bs_assignments (snd (bs_assign u t b src p s))) \<subseteq> insert u (fst ` set (bs_assignments s))"
proof -
  let ?m = "if p then demoted (bs_assignments s) else bs_assignments s"
  have ids: "\<forall>(i, a)\<in>set ?m. ba_id a = i" using ok demoted_ids [of "bs_assignments s"] by (auto simp: barcodes_ok_def)
  have keys: "fst ` set ?m = fst ` set (bs_assignments s)" by (simp flip: set_map)
  have vals: "map (bvalue \<circ> ba_barcode \<circ> snd) ?m = map (bvalue \<circ> ba_barcode \<circ> snd) (bs_assignments s)" by simp
  show "barcodes_ok (snd (bs_assign u t b src p s))"
  proof (cases "list_ex (\<lambda>(i, a). barcode_equals (ba_barcode a) b) (bs_assignments s)")
    case False
    then have "bvalue b \<notin> set (map (bvalue \<circ> ba_barcode \<circ> snd) (bs_assignments s))"
      by (auto simp: list_ex_iff barcode_equals_def)
    with False ok ids new keys show ?thesis
      by (auto simp: barcodes_ok_def assign_result [OF id new] Let_def primaries_append simp flip: vals set_map)
  qed (use ok in \<open>simp add: assign_result [OF id new]\<close>)
  show "fst ` set (bs_assignments (snd (bs_assign u t b src p s))) \<subseteq> insert u (fst ` set (bs_assignments s))"
    using keys by (auto simp: assign_result [OF id new] Let_def)
qed

lemma revoke_ok:
  assumes "barcodes_ok s"
  shows "barcodes_ok (snd (bs_revoke t i s))" and "fst ` set (bs_assignments (snd (bs_revoke t i s))) \<subseteq> fst ` set (bs_assignments s)"
proof -
  let ?m = "bs_assignments s"
  have del: "AList.delete i ?m = filter (\<lambda>(j, a). j \<noteq> i) ?m" by (auto simp: AList.delete_eq intro!: filter_cong)
  show "fst ` set (bs_assignments (snd (bs_revoke t i s))) \<subseteq> fst ` set (bs_assignments s)"
    by (auto simp: bs_revoke_def oper_simps del split: option.splits)
  show "barcodes_ok (snd (bs_revoke t i s))"
  proof (cases "map_of ?m i")
    case (Some a)
    show ?thesis
    proof (cases "ba_isPrimary a \<and> length ?m > 1")
      case False
      have mem: "(i, a) \<in> set ?m" using Some by (rule map_of_SomeD)
      then obtain xs ys where m: "?m = xs @ (i, a) # ys" by (auto dest: split_list)
      then have "i \<notin> fst ` set xs" "i \<notin> fst ` set ys" using assms by (simp_all add: barcodes_ok_def)
      then have out: "filter (\<lambda>(j, a). j \<noteq> i) xs = xs" "filter (\<lambda>(j, a). j \<noteq> i) ys = ys"
        by (force intro: filter_True)+
      have "snd (bs_revoke t i s) = s\<lparr>bs_assignments := xs @ ys, bs_events := bs_events s @ [BarcodeRevoked (bs_sku s) (bvalue (ba_barcode a)) t]\<rparr>"
        using Some False by (auto simp: bs_revoke_def oper_simps del) (simp_all add: m out)
      with assms m False show ?thesis by (auto simp: barcodes_ok_def primaries_def split: if_splits)
    qed (use assms Some in \<open>simp add: bs_revoke_def oper_simps\<close>)
  qed (use assms in \<open>simp add: bs_revoke_def oper_simps\<close>)
qed

lemma history_ok:
  assumes "barcodes_ok s" and "fresh_calls used cs" and "fst ` set (bs_assignments s) \<subseteq> used"
  shows "barcodes_ok (fold (\<lambda>c s. snd (call_barcodes c s)) cs s)"
  using assms
proof (induction used cs arbitrary: s rule: fresh_calls.induct)
  case (2 used u t b src p cs)
  have new: "u \<notin> fst ` set (bs_assignments s)" and id: "BarcodeAssignmentId u = Inr u" using "2.prems" by auto
  have same: "snd (call_barcodes (Assign_call u t b src p) s) = snd (bs_assign u t b src p s)"
    by (simp add: oper_simps split: prod.splits sum.splits)
  have "fst ` set (bs_assignments (snd (bs_assign u t b src p s))) \<subseteq> insert u used"
    using assign_ok(2) [OF "2.prems"(1) id new] "2.prems"(3) by blast
  from "2.IH" [OF assign_ok(1) [OF "2.prems"(1) id new] _ this] "2.prems"(2) show ?case
    unfolding fold.simps o_apply same by simp
next
  case (3 used t i cs)
  have "fst ` set (bs_assignments (snd (bs_revoke t i s))) \<subseteq> used" using revoke_ok(2) [OF "3.prems"(1)] "3.prems"(3) by blast
  from "3.IH" [OF revoke_ok(1) [OF "3.prems"(1)] _ this] "3.prems"(2) show ?case by simp
next
  case (4 used cs)
  have "barcodes_ok (snd (call_barcodes Pull_call s))" "bs_assignments (snd (call_barcodes Pull_call s)) = bs_assignments s"
    using "4.prems"(1) by (simp_all add: bs_pullDomainEvents_def oper_simps barcodes_ok_def)
  with "4.IH" [of "snd (call_barcodes Pull_call s)"] "4.prems" show ?case by simp
qed simp

lemma one_primary:
  assumes "barcodes_ok s"
  shows "distinct (map (bvalue \<circ> ba_barcode) (bs_all s))"
    and "case primaryBarcode s of None \<Rightarrow> bs_all s = []
      | Some a \<Rightarrow> a \<in> set (bs_all s) \<and> ba_isPrimary a \<and> (\<forall>x\<in>set (bs_all s). ba_isPrimary x \<longrightarrow> x = a)"
proof -
  let ?m = "bs_assignments s"
  show "distinct (map (bvalue \<circ> ba_barcode) (bs_all s))" using assms by (simp add: barcodes_ok_def bs_all_def comp_assoc)
  have count: "length (filter ba_isPrimary (bs_all s)) = (if ?m = [] then 0 else 1)"
    using assms by (simp add: barcodes_ok_def primaries_def bs_all_def filter_map)
  show "case primaryBarcode s of None \<Rightarrow> bs_all s = []
      | Some a \<Rightarrow> a \<in> set (bs_all s) \<and> ba_isPrimary a \<and> (\<forall>x\<in>set (bs_all s). ba_isPrimary x \<longrightarrow> x = a)"
  proof (cases "primaryBarcode s")
    case None
    then have "filter ba_isPrimary (bs_all s) = []" by (auto simp: primaryBarcode_def bs_all_def find_None_iff filter_empty_conv)
    with count have "bs_assignments s = []" by (metis length_0_conv zero_neq_one)
  with None show ?thesis by (simp add: bs_all_def)
  next
    case (Some a)
    then have a: "a \<in> set (bs_all s)" "ba_isPrimary a" using find_SomeD [of ba_isPrimary "bs_all s" a] by (simp_all add: primaryBarcode_def bs_all_def)
    then have "length (filter ba_isPrimary (bs_all s)) = Suc 0" using count by (auto simp: bs_all_def)
    then obtain b where "filter ba_isPrimary (bs_all s) = [b]" by (auto simp: length_Suc_conv)
    then have "{x \<in> set (bs_all s). ba_isPrimary x} = {b}" by (metis set_filter list.set(1) list.simps(15))
    then have only: "x = b" if "x \<in> set (bs_all s)" "ba_isPrimary x" for x using that by blast
    have "a = b" using only a by blast
    then show ?thesis using a only by (simp only: Some option.case) blast
  qed
qed

text \<open>
  The barcodes of a variant. After any history of assignments (under fresh identifiers), revocations and
  collections of events on a new set, each returning or throwing, no value is assigned twice, and a set that
  is not empty has exactly one primary barcode, the one \<open>primaryBarcode\<close> returns.
\<close>

theorem barcode_primary_unique:
  assumes "fresh_calls {} cs" and "s = fold (\<lambda>c s. snd (call_barcodes c s)) cs (VariantBarcodeSet sku)"
  shows "distinct (map (bvalue \<circ> ba_barcode) (bs_all s))
    \<and> (case primaryBarcode s of None \<Rightarrow> bs_all s = []
       | Some a \<Rightarrow> a \<in> set (bs_all s) \<and> ba_isPrimary a \<and> (\<forall>x\<in>set (bs_all s). ba_isPrimary x \<longrightarrow> x = a))"
proof -
  have "barcodes_ok (VariantBarcodeSet sku)" by (simp add: barcodes_ok_def VariantBarcodeSet_def primaries_def)
  from history_ok [OF this assms(1)] have "barcodes_ok s" by (simp add: assms(2) VariantBarcodeSet_def)
  from one_primary [OF this] show ?thesis by blast
qed

definition sample_barcode :: "string \<Rightarrow> barcode" where
  "sample_barcode v = \<lparr>symbology = CODE_128, bvalue = v\<rparr>"

definition sample_calls :: "barcode_call list" where
  "sample_calls = [Assign_call ''u1'' 1 (sample_barcode ''A-1'') GS1_source False, Assign_call ''u2'' 2 (sample_barcode ''A-1'') Supplier_source True,
     Assign_call ''u3'' 3 (sample_barcode ''B-2'') Supplier_source True, Revoke_call 4 ''u3'', Revoke_call 5 ''u1'']"

theorem barcode_primary_unique_witness:
  "\<exists>s. s = fold (\<lambda>c s. snd (call_barcodes c s)) sample_calls (VariantBarcodeSet ''K-1'')
    \<and> map ba_id (bs_all s) = [''u3''] \<and> distinct (map (bvalue \<circ> ba_barcode) (bs_all s))"
proof -
  let ?s = "fold (\<lambda>c s. snd (call_barcodes c s)) sample_calls (VariantBarcodeSet ''K-1'')"
  have f: "fresh_calls {} sample_calls"
    by (simp add: sample_calls_def BarcodeAssignmentId_def make_id_def is_blank_def trim_def is_space_def)
  have ids: "map ba_id (bs_all ?s) = [''u3'']"
    by (simp add: sample_calls_def sample_barcode_def VariantBarcodeSet_def bs_assign_def bs_revoke_def oper_simps Let_def barcode_equals_def
        cloneWithPrimary_def BarcodeAssignmentId_def make_id_def is_blank_def trim_def is_space_def bs_all_def)
  show ?thesis by (intro exI [of _ ?s] conjI refl ids conjunct1 [OF barcode_primary_unique [OF f refl]])
qed

section \<open>Internal barcodes\<close>

lemma generate_value_step:
  "attempts < 5 \<Longrightarrow> generate_value build registered attempts =
     result_bind (registered (build attempts)) (\<lambda>taken. if taken then generate_value build registered (attempts + 1) else Inr (build attempts))"
  "generate_value build registered 5 = Inl (Error ''Could not generate a unique barcode after 5 attempts.'' [])"
  by (subst generate_value.simps, simp add: Let_def)+

lemma generate_value_cases:
  assumes "n \<le> 5"
  shows "(generate_value build registered n = Inl (Error ''Could not generate a unique barcode after 5 attempts.'' [])
        \<and> (\<forall>j. n \<le> j \<and> j < 5 \<longrightarrow> registered (build j) = Inr True))
    \<or> (\<exists>k. n \<le> k \<and> k < 5 \<and> (\<forall>j. n \<le> j \<and> j < k \<longrightarrow> registered (build j) = Inr True) \<and>
        ((registered (build k) = Inr False \<and> generate_value build registered n = Inr (build k))
         \<or> (\<exists>e. registered (build k) = Inl e \<and> generate_value build registered n = Inl e)))"
  using assms
proof (induction rule: inc_induct)
  case base
  have "generate_value build registered 5 = Inl (Error ''Could not generate a unique barcode after 5 attempts.'' [])"
    by (rule generate_value_step)
  then show ?case by auto
next
  case (step n)
  note run = generate_value_step(1) [OF step.hyps(2), of build registered]
  show ?case
  proof (cases "registered (build n)")
    case (Inl e)
    with run step.hyps show ?thesis by (intro disjI2 exI [of _ n]) auto
  next
    case (Inr taken)
    show ?thesis
    proof (cases taken)
      case False
      with Inr run step.hyps show ?thesis by (intro disjI2 exI [of _ n]) auto
    next
      case True
      have more: "(n \<le> j \<and> j < m) \<longrightarrow> registered (build j) = Inr True"
        if "\<forall>j. Suc n \<le> j \<and> j < m \<longrightarrow> registered (build j) = Inr True" for j m
        using that True Inr by (metis Suc_leI le_neq_implies_less)
      have same: "generate_value build registered n = generate_value build registered (Suc n)" using run Inr True by simp
      from step.IH show ?thesis unfolding same
        by (elim disjE exE conjE) (auto intro: more Suc_leD simp: more)
    qed
  qed
qed

text \<open>The stored form of a scanned value.\<close>

abbreviation canonical :: "string \<Rightarrow> string" where
  "canonical v \<equiv> to_upper (trim v)"

lemma Barcode_value: "Barcode sy v = Inr b \<Longrightarrow> bvalue b = canonical v"
  by (auto simp: Barcode_def Let_def result_bind_Inr_iff)

lemma built_barcode: "Barcode CODE_128 (buildValue sha256 decimal sku tenant k)
    = Inr \<lparr>symbology = CODE_128, bvalue = canonical (buildValue sha256 decimal sku tenant k)\<rparr>"
proof -
  have "\<not> is_blank (buildValue sha256 decimal sku tenant k)"
    by (rule not_blank [of "CHR ''I''"]) (simp_all add: buildValue_def is_space_def)
  then have "canonical (buildValue sha256 decimal sku tenant k) \<noteq> []" by (simp add: is_blank_def to_upper_def)
  then show ?thesis by (simp add: Barcode_def Let_def validate_barcode_def validateAlphanumeric_def is_blank_def)
qed


section \<open>Scans move stock\<close>

lemma scan_runs:
  assumes "barcode_resolve repo s raw = Inr sku" and "map_of handlers c = Some h"
  shows "DispatchBarcodeScanUseCase repo s handlers raw c p w = op_seq (h sku raw p) (op_return True) w"
  using assms by (simp add: DispatchBarcodeScanUseCase_def scan_dispatch_def op_seq_eval op_bind_eval op_lift_eval)

definition scan_amount :: "scan_payload \<Rightarrow> number" where
  "scan_amount p = (case sp_amount p of None \<Rightarrow> 1 | Some a \<Rightarrow> a)"

lemma pos_step:
  assumes inv: "pi_inv s" and ok: "Sku sku = Inr sku" "LocationId loc = Inr loc"
  shows "case DispatchStockUseCase now pg_inventory sku loc a s of
      (Inl e, s') \<Rightarrow> s' = s \<and> (a < 0 \<or> row_at s sku loc = None \<or> stock_at s sku loc < a)
    | (Inr d, s') \<Rightarrow> 0 \<le> a \<and> a \<le> stock_at s sku loc \<and> pi_inv s' \<and> stock_at s' sku loc = stock_at s sku loc - a"
proof -
  obtain u where u: "InventoryItemId u = Inr u" "pi_row s u = None"
  proof -
    obtain n where n: "\<forall>r\<in>set (rows s). length (row_id r) < n"
      by (metis (no_types) finite_imageI finite_set finite_nat_set_iff_bounded image_eqI)
    let ?u = "replicate (Suc n) (CHR ''x'')"
    have "\<not> is_blank ?u" by (rule not_blank [of "CHR ''x''"]) (simp_all add: is_space_def)
    then have "InventoryItemId ?u = Inr ?u" by (simp add: InventoryItemId_def make_id_def)
    moreover have "pi_row s ?u = None" using n by (auto simp: pi_row_def find_None_iff)
    ultimately show thesis by (rule that)
  qed
  obtain r s' where run: "DispatchStockUseCase now pg_inventory sku loc a s = (r, s')" by fastforce
  have call: "run_call (\<lambda>_. u) pg_inventory sku loc (CallDispatch now a) s = (map_sum id fst r, s')"
    by (cases r) (auto simp: op_bind_eval run op_return_eval)
  note refines = pi.run_call_refines [where uuid = "\<lambda>_. u" and c = "CallDispatch now a", OF inv ok u, unfolded call prod.case]
  have before: "stock_at s sku loc = hand (pi.stock_before s sku loc)" by (rule found_stock [OF inv])
  show ?thesis
  proof (cases r)
    case (Inl e)
    have "row_at s sku loc = None" if "findBySkuAndLocation pg_inventory s sku loc = Inr None"
      using that inv by (auto simp: pg_fields pi_findBySkuAndLocation_def row_at_def pi_inv_def toDomain_row result_bind_Inr_iff
          dest!: find_SomeD split: option.splits)
    with refines before show ?thesis by (auto simp: run Inl allow_if_def split: if_splits)
  next
    case (Inr d)
    from refines obtain j where j: "abs_step (Dispatch now (q_each a)) (pi.stock_before s sku loc) = Some (view j)"
        "pi_inv s'" "pi_row s' = (pi_row s)(iid j \<mapsto> norm_item j)" "isku j = sku" "ilocationId j = loc"
      by (auto simp: Inr pi.committed_def)
    have "pi_row s' (iid j) = Some (norm_item j)" using j(3) by simp
    from stored_stock [OF j(2) this] j(4,5) have at: "stock_at s' sku loc = amount (on_hand j)" by simp
    have "hand (view j) = hand (pi.stock_before s sku loc) - a" "a \<le> hand (pi.stock_before s sku loc)"
      using j(1) by (auto simp: allow_if_def split: if_splits dest: sym)
    moreover have "0 \<le> a"
    proof (rule ccontr)
      assume "\<not> 0 \<le> a"
      then have "isl (fst (DispatchStockUseCase now pg_inventory sku loc a s))"
        by (auto simp: DispatchStockUseCase_def oper_simps Quantity_def split: sum.splits prod.splits option.splits)
      then show False by (simp add: run Inr)
    qed
    ultimately show ?thesis using at before j(2) by (simp add: run Inr view_def)
  qed
qed

lemma receipt_step:
  assumes inv: "pi_inv s" and ok: "Sku sku = Inr sku" "LocationId loc = Inr loc"
    and new: "InventoryItemId (uuid 0) = Inr (uuid 0)" "pi_row s (uuid 0) = None"
  shows "case ReceiveStockUseCase uuid pg_inventory capacity sku loc a s of
      (Inl e, s') \<Rightarrow> s' = s \<and> (a < 0 \<or> (\<exists>validate. capacity = Some validate \<and> validate loc sku a = Inl e))
    | (Inr d, s') \<Rightarrow> 0 \<le> a \<and> pi_inv s' \<and> stock_at s' sku loc = stock_at s sku loc + a"
proof -
  let ?r = "\<lparr>lr_sku = sku, lr_location = loc, lr_quantity = a, lr_unitCost = 0, lr_lotNumber = [], lr_expirationDate = None, lr_tenant = [], lr_actor = []\<rparr>"
  let ?plain = "ReceiveStockUseCase uuid pg_inventory None sku loc a s"
  consider (full) validate e where "capacity = Some validate" "validate loc sku a = Inl e"
    | (fits) "ReceiveStockUseCase uuid pg_inventory capacity sku loc a s = ?plain"
    by (cases capacity) (force simp: ReceiveStockUseCase_def op_seq_eval op_lift_eval split: sum.splits)+
  then show ?thesis
  proof cases
    case full
    then show ?thesis by (simp add: ReceiveStockUseCase_def oper_simps)
  next
    case fits
    show ?thesis
    proof (cases "0 \<le> a")
      case True
      obtain x s1 where lot: "receive_lot_item uuid pg_inventory ?r s = (x, s1)" by fastforce
      obtain y s2 where plain: "?plain = (y, s2)" by fastforce
      have "s2 = s1" "isl y = isl x" using lot_item_as_receipt [of ?r uuid pg_inventory s] True plain lot by simp_all
      with receive_lot_step [where r = ?r and uuid = uuid, OF inv, unfolded lot] ok new True plain fits show ?thesis
        by (cases x; cases y) auto
    next
      case False
      then show ?thesis unfolding fits by (simp add: ReceiveStockUseCase_def oper_simps Quantity_def)
    qed
  qed
qed

text \<open>
  A scan moves the stock of the scanned item. When the scanned text is, up to case and surrounding blanks,
  a registered barcode, a scan at the till takes the amount (one by default) off the stock of its SKU at
  the location, exactly when the amount is not negative and the stock covers it; a scan at goods-in adds the
  amount, exactly when it is not negative and the capacity check passes. A refused scan changes no stock.
\<close>

theorem scan_moves_stock:
  assumes inv: "pi_inv (kw_items w)" and known: "bc_findSkuByBarcodeValue b (canonical raw) = Inr (Some sku)"
    and loc: "sp_location p = Some loc" "LocationId loc = Inr loc"
    and new: "InventoryItemId (uuid 0) = Inr (uuid 0)" "pi_row (kw_items w) (uuid 0) = None"
    and handlers: "handlers = register_handler Receiving (ReceivingScanHandler uuid pg_inventory capacity)
       (register_handler PointOfSale (POSScanHandler now pg_inventory) [])"
  shows "(case DispatchBarcodeScanUseCase (pg_barcodes to_uuid) b handlers raw PointOfSale p w of
      (Inl e, w') \<Rightarrow> w' = w \<and> (scan_amount p < 0 \<or> row_at (kw_items w) sku loc = None \<or> stock_at (kw_items w) sku loc < scan_amount p)
    | (Inr _, w') \<Rightarrow> 0 \<le> scan_amount p \<and> scan_amount p \<le> stock_at (kw_items w) sku loc
        \<and> stock_at (kw_items w') sku loc = stock_at (kw_items w) sku loc - scan_amount p)
    \<and> (case DispatchBarcodeScanUseCase (pg_barcodes to_uuid) b handlers raw Receiving p w of
      (Inl e, w') \<Rightarrow> w' = w \<and> (scan_amount p < 0 \<or> (\<exists>validate. capacity = Some validate \<and> validate loc sku (scan_amount p) = Inl e))
    | (Inr _, w') \<Rightarrow> 0 \<le> scan_amount p \<and> stock_at (kw_items w') sku loc = stock_at (kw_items w) sku loc + scan_amount p)"
    (is "?till \<and> ?goods_in")
proof -
  have resolved: "barcode_resolve (pg_barcodes to_uuid) b raw = Inr sku"
    using known by (simp add: barcode_resolve_def pg_barcodes_def)
  obtain k where "Sku k = Inr sku"
    using known by (auto simp: bc_findSkuByBarcodeValue_def result_bind_Inr_iff split: option.splits)
  then have sku: "Sku sku = Inr sku" by (auto simp: Sku_Inr_iff to_upper_def list_all_iff is_sku_char_upper)
  have given: "given (sp_location p)" "the (sp_location p) = loc"
    using loc by (auto simp: given_def LocationId_def make_id_def)
  obtain r s1 where pos: "DispatchStockUseCase now pg_inventory sku loc (scan_amount p) (kw_items w) = (r, s1)" by fastforce
  have run1: "DispatchBarcodeScanUseCase (pg_barcodes to_uuid) b handlers raw PointOfSale p w
      = op_seq (POSScanHandler now pg_inventory sku raw p) (op_return True) w"
    by (rule scan_runs [OF resolved]) (simp add: handlers register_handler_def)
  have till: ?till
    using pos_step [where now = now and a = "scan_amount p", OF inv sku loc(2), unfolded pos] given pos unfolding run1
    by (cases r) (auto simp: POSScanHandler_def oper_simps simp flip: scan_amount_def)
  obtain r2 s2 where rec: "ReceiveStockUseCase uuid pg_inventory capacity sku loc (scan_amount p) (kw_items w) = (r2, s2)" by fastforce
  have run2: "DispatchBarcodeScanUseCase (pg_barcodes to_uuid) b handlers raw Receiving p w
      = op_seq (ReceivingScanHandler uuid pg_inventory capacity sku raw p) (op_return True) w"
    by (rule scan_runs [OF resolved]) (simp add: handlers register_handler_def)
  have goods_in: ?goods_in
    using receipt_step [where uuid = uuid and capacity = capacity and a = "scan_amount p", OF inv sku loc(2) new, unfolded rec] given rec unfolding run2
    by (cases r2) (auto simp: ReceivingScanHandler_def oper_simps simp flip: scan_amount_def)
  from till goods_in show ?thesis ..
qed

definition sample_barcodes :: barcode_db where
  "sample_barcodes = \<lparr>bd_variants = [(''v1'', ''WIDGET-1''), (''v2'', ''GADGET-2'')],
     bd_rows = [\<lparr>br_id = ''a1'', br_variant = ''v1'', br_value = ''INV-9'', br_symbology = CODE_128, br_source = Internal_source,
       br_primary = True, br_assignedAt = 1\<rparr>]\<rparr>"

definition sample_payload :: scan_payload where
  "sample_payload = \<lparr>sp_location = Some ''loc-1'', sp_amount = Some 4, sp_actual = None, sp_tenant = None\<rparr>"

definition sample_handlers :: "(scan_context, (inventory_db, approval_db) count_world scan_handler) js_map" where
  "sample_handlers = register_handler Receiving (ReceivingScanHandler sample_uuids pg_inventory None)
     (register_handler PointOfSale (POSScanHandler 9 pg_inventory) [])"

definition scan_world :: "(inventory_db, approval_db) count_world" where
  "scan_world = sample_count_world (approval_world_1 Pending_request 0)"

theorem scan_moves_stock_witness:
  "\<exists>w1 w2. DispatchBarcodeScanUseCase (pg_barcodes id) sample_barcodes sample_handlers '' inv-9 '' PointOfSale sample_payload scan_world = (Inr True, w1)
    \<and> stock_at (kw_items w1) ''WIDGET-1'' ''loc-1'' = 8
    \<and> DispatchBarcodeScanUseCase (pg_barcodes id) sample_barcodes sample_handlers '' inv-9 '' Receiving sample_payload scan_world = (Inr True, w2)
    \<and> stock_at (kw_items w2) ''WIDGET-1'' ''loc-1'' = 16"
proof -
  let ?run = "\<lambda>c. DispatchBarcodeScanUseCase (pg_barcodes id) sample_barcodes sample_handlers '' inv-9 '' c sample_payload scan_world"
  have "\<not> isl (fst (?run PointOfSale)) \<and> projr (fst (?run PointOfSale))" by code_simp
  then obtain w1 where run1: "?run PointOfSale = (Inr True, w1)" using run_true by blast
  have "\<not> isl (fst (?run Receiving)) \<and> projr (fst (?run Receiving))" by code_simp
  then obtain w2 where run2: "?run Receiving = (Inr True, w2)" using run_true by blast
  have inv: "pi_inv (kw_items scan_world)" using sample_db_inv by (simp add: scan_world_def sample_count_world_def)
  have known: "bc_findSkuByBarcodeValue sample_barcodes (canonical '' inv-9 '') = Inr (Some ''WIDGET-1'')" by code_simp
  have loc: "sp_location sample_payload = Some ''loc-1''" "LocationId ''loc-1'' = Inr ''loc-1''"
    by (simp_all add: sample_payload_def LocationId_def make_id_def is_blank_def trim_def is_space_def)
  have new: "InventoryItemId (sample_uuids 0) = Inr (sample_uuids 0)" "pi_row (kw_items scan_world) (sample_uuids 0) = None"
    by (code_simp, code_simp)
  have old: "stock_at (kw_items scan_world) ''WIDGET-1'' ''loc-1'' = 12"
    by (simp add: scan_world_def stock_at_def row_at_def sample_count_world_def sample_db_def sample_row_def sample_item_def InventoryItem_def row_of_def)
  have a: "scan_amount sample_payload = 4" by (simp add: scan_amount_def sample_payload_def)
  note spec = scan_moves_stock [where to_uuid = id, OF inv known loc new sample_handlers_def, unfolded run1 run2 prod.case sum.case old a]
  from run1 run2 conjunct2 [OF conjunct2 [OF conjunct1 [OF spec]]] conjunct2 [OF conjunct2 [OF spec]] show ?thesis by auto
qed

text \<open>
  A scan in a cycle count is submitted without tenant and actor (the payload's \<open>tenantId\<close> is not passed on), so no
  approval workflow ever holds it, whatever its variance.
\<close>

lemma scanned_count_skips_approval:
  "CycleCountScanHandler item_uuid uuid now irepo capacity arepo sku raw p w
    = CycleCountScanHandler item_uuid uuid now irepo capacity None sku raw p w"
  by (simp add: CycleCountScanHandler_def SubmitInventoryCountUseCase_def intercept_count_def given_def cong: sum.case_cong option.case_cong
      split: option.splits)

lemma scanned_count_skips_approval_here:
  "fst (CycleCountScanHandler sample_uuids sample_uuids 7 pg_inventory None (Some (pg_approvals 7)) ''WIDGET-1'' ''INV-9''
      (sample_payload\<lparr>sp_actual := Some 9, sp_tenant := Some ''t1''\<rparr>) approved_count_world) = Inr ()"
  by code_simp

section \<open>Assigning a barcode and looking it up\<close>

text \<open>The tables the store keeps: unique identifiers, values in the stored form, rows of known variants.\<close>

definition stored_barcode :: "barcode_row \<Rightarrow> bool" where
  "stored_barcode r \<longleftrightarrow> BarcodeAssignmentId (br_id r) = Inr (br_id r)
     \<and> Barcode (br_symbology r) (br_value r) = Inr \<lparr>symbology = br_symbology r, bvalue = br_value r\<rparr>"

definition barcodes_stored :: "(string \<Rightarrow> string) \<Rightarrow> barcode_db \<Rightarrow> bool" where
  "barcodes_stored to_uuid s \<longleftrightarrow> distinct (map fst (bd_variants s)) \<and> distinct (map br_id (bd_rows s))
     \<and> (\<forall>r\<in>set (bd_rows s). stored_barcode r \<and> to_uuid (br_id r) = br_id r)"

lemma variant_known:
  assumes "variant_of_sku s sku = Some v" and "distinct (map fst (bd_variants s))"
  shows "map_of (bd_variants s) v = Some sku"
proof -
  from assms(1) obtain p where "find (\<lambda>(i, k). k = sku) (bd_variants s) = Some p" "fst p = v" by (auto simp: variant_of_sku_def)
  then have "(v, sku) \<in> set (bd_variants s)" using find_SomeD [of "\<lambda>(i, k). k = sku" "bd_variants s" p] by (cases p) auto
  with assms(2) show ?thesis by (rule map_of_is_SomeI)
qed

definition assignment_of_row :: "string \<Rightarrow> barcode_row \<Rightarrow> barcode_assignment" where
  "assignment_of_row sku r = \<lparr>ba_id = br_id r, ba_sku = sku, ba_barcode = \<lparr>symbology = br_symbology r, bvalue = br_value r\<rparr>,
     ba_source = br_source r, ba_isPrimary = br_primary r, ba_assignedAt = br_assignedAt r\<rparr>"

lemma rows_loaded:
  assumes "\<forall>r\<in>set rs. stored_barcode r" and "distinct (map br_id rs)"
  shows "result_map (row_assignment sku) rs = Inr (map (assignment_of_row sku) rs)"
    and "bs_assignments (fold loadAssignment (map (assignment_of_row sku) rs) (VariantBarcodeSet sku))
      = map (\<lambda>r. (br_id r, assignment_of_row sku r)) rs"
    and "bs_sku (fold loadAssignment (map (assignment_of_row sku) rs) (VariantBarcodeSet sku)) = sku"
proof -
  show "result_map (row_assignment sku) rs = Inr (map (assignment_of_row sku) rs)"
    using assms(1) by (induction rs) (simp_all add: row_assignment_def stored_barcode_def assignment_of_row_def)
  have "bs_assignments (fold loadAssignment (map (assignment_of_row sku) rs) b) = bs_assignments b @ map (\<lambda>r. (br_id r, assignment_of_row sku r)) rs
      \<and> bs_sku (fold loadAssignment (map (assignment_of_row sku) rs) b) = bs_sku b"
    if "fst ` set (bs_assignments b) \<inter> set (map br_id rs) = {}" for b
    using assms(2) that by (induction rs arbitrary: b) (auto simp: loadAssignment_def update_fresh assignment_of_row_def)
  from this [of "VariantBarcodeSet sku"]
  show "bs_assignments (fold loadAssignment (map (assignment_of_row sku) rs) (VariantBarcodeSet sku)) = map (\<lambda>r. (br_id r, assignment_of_row sku r)) rs"
    "bs_sku (fold loadAssignment (map (assignment_of_row sku) rs) (VariantBarcodeSet sku)) = sku"
    by (simp_all add: VariantBarcodeSet_def)
qed

lemma upserted_ids: "br_id r \<in> set (map br_id xs) \<Longrightarrow> map br_id (upsert_barcode r xs) = map br_id xs"
  by (auto simp: upsert_barcode_def)

lemma upserts:
  assumes "distinct (map br_id rs)" and "set (map br_id rs) \<subseteq> set (map br_id xs)"
  shows "fold upsert_barcode rs xs = map (\<lambda>x. case find (\<lambda>r. br_id r = br_id x) rs of None \<Rightarrow> x | Some r \<Rightarrow> r\<lparr>br_variant := br_variant x\<rparr>) xs"
  using assms
proof (induction rs arbitrary: xs)
  case (Cons r rs)
  have ids: "map br_id (upsert_barcode r xs) = map br_id xs" using Cons.prems by (intro upserted_ids) simp
  have "br_id r \<notin> set (map br_id rs)" using Cons.prems(1) by simp
  then have gone: "find (\<lambda>x. br_id x = br_id r) rs = None" by (metis (mono_tags) find_None_iff image_eqI list.set_map)
  let ?change = "\<lambda>x. if br_id x = br_id r then r\<lparr>br_variant := br_variant x\<rparr> else x"
  let ?later = "\<lambda>x. case find (\<lambda>r. br_id r = br_id x) rs of None \<Rightarrow> x | Some r \<Rightarrow> r\<lparr>br_variant := br_variant x\<rparr>"
  have one: "upsert_barcode r xs = map ?change xs" using Cons.prems(2) by (simp add: upsert_barcode_def)
  have rest: "fold upsert_barcode rs (upsert_barcode r xs) = map ?later (upsert_barcode r xs)"
    using Cons.prems ids by (intro Cons.IH) (simp_all del: set_map add: list.set_map [symmetric])
  have "?later (?change x) = (case find (\<lambda>r. br_id r = br_id x) (r # rs) of None \<Rightarrow> x | Some r \<Rightarrow> r\<lparr>br_variant := br_variant x\<rparr>)" for x
    using gone by auto
  then show ?case unfolding fold.simps o_apply rest unfolding one map_map by (simp only: comp_def)
qed simp

lemma saved_rows:
  assumes "bc_save to_uuid b s = (Inr (), s')" and "variant_of_sku s (bs_sku b) = Some v"
  shows "bd_variants s' = bd_variants s"
    and "bd_rows s' = fold upsert_barcode (map (barcode_row_of to_uuid v) (bs_all b))
      (filter (\<lambda>r. \<not> (br_variant r = v \<and> br_id r \<notin> set (map br_id (map (barcode_row_of to_uuid v) (bs_all b))))) (bd_rows s))"
  using assms by (simp_all add: bc_save_def Let_def oper_simps comp_def image_image split: if_splits) auto

text \<open>What the save after an assignment does to the rows: the rows of the variant may change their primary flag, and one row is added.\<close>

lemma assign_saved:
  assumes stored: "barcodes_stored to_uuid s" and sku: "Sku skuStr = Inr sku"
    and u: "BarcodeAssignmentId u = Inr u" "to_uuid u = u" "u \<notin> set (map br_id (bd_rows s))"
    and run: "AssignBarcodeUseCase u now (pg_barcodes to_uuid) skuStr v sy src mp s = (Inr x, s')"
  obtains va h new where "map_of (bd_variants s) va = Some sku" and "bd_variants s' = bd_variants s"
    and "bd_rows s' = map h (bd_rows s) @ [new]" and "br_variant new = va" and "br_value new = canonical v"
    and "\<forall>r\<in>set (bd_rows s). br_value (h r) = br_value r \<and> br_variant (h r) = br_variant r"
proof -
  obtain va where va: "variant_of_sku s sku = Some va"
    using run by (cases "variant_of_sku s sku")
      (auto simp: AssignBarcodeUseCase_def load_set_def oper_simps sku pg_barcodes_def bc_findSetBySku_def)
  let ?rs = "filter (\<lambda>r. br_variant r = va) (bd_rows s)"
  have rs: "\<forall>r\<in>set ?rs. stored_barcode r" "distinct (map br_id ?rs)"
    using stored by (auto simp: barcodes_stored_def distinct_map_filter)
  note loaded = rows_loaded [OF rs, of sku]
  define b0 where "b0 = fold loadAssignment (map (assignment_of_row sku) ?rs) (VariantBarcodeSet sku)"
  have found: "bc_findSetBySku s sku = Inr (Some b0)" using loaded(1) va by (simp add: bc_findSetBySku_def b0_def)
  obtain b where b: "Barcode sy v = Inr b"
    using run found by (cases "Barcode sy v")
      (auto simp: AssignBarcodeUseCase_def load_set_def oper_simps sku pg_barcodes_def)
  have ids: "u \<notin> fst ` set (bs_assignments b0)" using u(3) loaded(2) by (auto simp: b0_def)
  let ?ex = "list_ex (\<lambda>(i, a). barcode_equals (ba_barcode a) b) (bs_assignments b0)"
  have fresh: "\<not> ?ex"
  proof
    assume ?ex
    then show False using run found b
      by (simp add: AssignBarcodeUseCase_def load_set_def oper_simps sku pg_barcodes_def assign_result [OF u(1) ids])
  qed
  let ?p = "mp = Some True"
  let ?m = "if ?p then demoted (bs_assignments b0) else bs_assignments b0"
  define a where "a = \<lparr>ba_id = u, ba_sku = sku, ba_barcode = b, ba_source = src, ba_isPrimary = ?p \<or> bs_assignments b0 = [], ba_assignedAt = now\<rparr>"
  define b1 where "b1 = b0\<lparr>bs_assignments := ?m @ [(u, a)], bs_events := bs_events b0 @ [BarcodeAssigned sku (bvalue b) now]\<rparr>"
  have assigned: "bs_assign u now b src ?p b0 = (Inr a, b1)"
    unfolding assign_result [OF u(1) ids] Let_def a_def b1_def using fresh loaded(3) by (simp add: b0_def)
  have save: "bc_save to_uuid b1 s = (Inr (), s')"
    using run found b assigned
    by (auto simp: AssignBarcodeUseCase_def load_set_def oper_simps sku pg_barcodes_def split: prod.splits sum.splits)
  let ?g = "\<lambda>r. barcode_row_of to_uuid va (if ?p \<and> br_primary r then cloneWithPrimary False (assignment_of_row sku r) else assignment_of_row sku r)"
  let ?new = "barcode_row_of to_uuid va a"
  have m: "?m = map (\<lambda>r. (br_id r, if ?p \<and> br_primary r then cloneWithPrimary False (assignment_of_row sku r) else assignment_of_row sku r)) ?rs"
    using loaded(2) by (auto simp: b0_def demoted_def assignment_of_row_def)
  have rows: "map (barcode_row_of to_uuid va) (bs_all b1) = map ?g ?rs @ [?new]"
    unfolding bs_all_def b1_def by (simp add: m)
  have g: "br_id (?g r) = br_id r" "br_value (?g r) = br_value r" if "r \<in> set (bd_rows s)" for r
    using that stored by (auto simp: barcode_row_of_def assignment_of_row_def cloneWithPrimary_def barcodes_stored_def)
  have gids: "map br_id (map ?g ?rs) = map br_id ?rs" using g(1) by auto
  have kept: "filter (\<lambda>r. \<not> (br_variant r = va \<and> br_id r \<notin> set (map br_id (map ?g ?rs @ [?new])))) (bd_rows s) = bd_rows s"
    using gids by (intro filter_True) auto
  define h where "h x = (case find (\<lambda>r. br_id r = br_id x) (map ?g ?rs) of None \<Rightarrow> x | Some r \<Rightarrow> r\<lparr>br_variant := br_variant x\<rparr>)" for x
  have sub: "set (map br_id (map ?g ?rs)) \<subseteq> set (map br_id (bd_rows s))" unfolding gids by auto
  have up: "fold upsert_barcode (map ?g ?rs) (bd_rows s) = map h (bd_rows s)"
    unfolding h_def by (rule upserts [OF _ sub]) (unfold gids, rule rs(2))
  have "br_id (h x) = br_id x" for x
  proof (cases "find (\<lambda>r. br_id r = br_id x) (map ?g ?rs)")
    case (Some r)
    from find_SomeD [OF this] have "br_id r = br_id x" by blast
    with Some show ?thesis by (simp add: h_def)
  qed (simp add: h_def)
  then have hids: "map br_id (map h (bd_rows s)) = map br_id (bd_rows s)" by (simp only: map_map comp_def)
  have "br_id ?new = u" by (simp add: barcode_row_of_def a_def u(2))
  then have last: "upsert_barcode ?new (map h (bd_rows s)) = map h (bd_rows s) @ [?new]"
    using u(3) hids by (metis upsert_barcode_def)
  have "bs_sku b1 = sku" using loaded(3) by (simp add: b1_def b0_def)
  note after = saved_rows [OF save, unfolded this, OF va, unfolded rows kept]
  note vars = after(1)
  have "bd_rows s' = fold upsert_barcode (map ?g ?rs @ [?new]) (bd_rows s)" by (rule after(2))
  then have "bd_rows s' = map h (bd_rows s) @ [?new]" using up last by simp
  moreover have "br_value (h x) = br_value x \<and> br_variant (h x) = br_variant x" if x: "x \<in> set (bd_rows s)" for x
  proof (cases "find (\<lambda>r. br_id r = br_id x) (map ?g ?rs)")
    case (Some r)
    then obtain r0 where r0: "r0 \<in> set (bd_rows s)" "r = ?g r0" "br_id r = br_id x" using find_SomeD [OF Some] by auto
    with g(1) have "br_id r0 = br_id x" by simp
    with r0(1) x stored have "r0 = x" by (auto simp: barcodes_stored_def distinct_map inj_on_def)
    then have "h x = (?g x)\<lparr>br_variant := br_variant x\<rparr>" unfolding h_def Some option.case r0(2) by (simp only:)
    then show ?thesis using g(2) [OF x] by (simp only:) simp
  qed (simp add: h_def)
  moreover have "br_value ?new = canonical v" using Barcode_value [OF b] by (simp add: barcode_row_of_def a_def)
  moreover have "br_variant ?new = va" by (simp add: barcode_row_of_def)
  ultimately show thesis using that [OF variant_known [OF va] vars] stored by (auto simp: barcodes_stored_def)
qed

text \<open>
  C38. An assigned barcode is found again. When a barcode is assigned to a SKU and no variant carries the value
  yet, every later lookup of the value, in any case and with blanks around it, gives that SKU, and every other
  value is looked up with the result it had before.
\<close>

theorem assigned_barcode_resolves:
  assumes stored: "barcodes_stored to_uuid s" and sku: "Sku skuStr = Inr sku"
    and u: "BarcodeAssignmentId u = Inr u" "to_uuid u = u" "u \<notin> set (map br_id (bd_rows s))"
    and unused: "canonical v \<notin> set (map br_value (bd_rows s))"
    and run: "AssignBarcodeUseCase u now (pg_barcodes to_uuid) skuStr v sy src mp s = (Inr x, s')"
  shows "(\<forall>raw. canonical raw = canonical v \<longrightarrow> LookupBarcodeUseCase (pg_barcodes to_uuid) s' raw = Inr sku)
    \<and> (\<forall>raw. canonical raw \<noteq> canonical v \<longrightarrow>
        LookupBarcodeUseCase (pg_barcodes to_uuid) s' raw = LookupBarcodeUseCase (pg_barcodes to_uuid) s raw)"
proof -
  obtain va h new where saved: "map_of (bd_variants s) va = Some sku" "bd_variants s' = bd_variants s"
      "bd_rows s' = map h (bd_rows s) @ [new]" "br_variant new = va" "br_value new = canonical v"
      "\<forall>r\<in>set (bd_rows s). br_value (h r) = br_value r \<and> br_variant (h r) = br_variant r"
    by (rule assign_saved [OF stored sku u run])
  have old: "find (\<lambda>r. br_value r = w) (map h (bd_rows s)) = map_option h (find (\<lambda>r. br_value r = w) (bd_rows s))" for w
    unfolding find_map by (rule arg_cong [where f = "map_option h"], rule find_cong [OF refl]) (simp add: saved(6))
  have none: "find (\<lambda>r. br_value r = canonical v) (bd_rows s) = None" using unused by (metis (mono_tags) find_None_iff image_eqI list.set_map)
  have "Sku sku = Inr sku" using sku by (auto simp: Sku_Inr_iff to_upper_def list_all_iff is_sku_char_upper)
  then have "bc_findSkuByBarcodeValue s' (canonical v) = Inr (Some sku)"
    using none saved(1-5) by (simp add: bc_findSkuByBarcodeValue_def find_append old)
  moreover have "bc_findSkuByBarcodeValue s' w = bc_findSkuByBarcodeValue s w" if "w \<noteq> canonical v" for w
  proof (cases "find (\<lambda>r. br_value r = w) (bd_rows s)")
    case None
    with that saved(2-5) show ?thesis by (simp add: bc_findSkuByBarcodeValue_def find_append old)
  next
    case (Some r)
    then have "br_variant (h r) = br_variant r" using find_SomeD [OF Some] saved(6) by blast
    with Some saved(2,3) show ?thesis by (simp add: bc_findSkuByBarcodeValue_def find_append old)
  qed
  ultimately show ?thesis by (auto simp: LookupBarcodeUseCase_def barcode_resolve_def pg_barcodes_def)
qed

theorem assigned_barcode_resolves_witness:
  "\<exists>s'. AssignBarcodeUseCase ''u7'' 5 (pg_barcodes id) ''gadget-2'' '' gad-1'' CODE_128 Supplier_source None sample_barcodes = (Inr True, s')
    \<and> LookupBarcodeUseCase (pg_barcodes id) s' ''Gad-1 '' = Inr ''GADGET-2'' \<and> LookupBarcodeUseCase (pg_barcodes id) s' ''inv-9'' = Inr ''WIDGET-1''"
proof -
  let ?run = "AssignBarcodeUseCase ''u7'' 5 (pg_barcodes id) ''gadget-2'' '' gad-1'' CODE_128 Supplier_source None sample_barcodes"
  have "\<not> isl (fst ?run) \<and> projr (fst ?run)" by code_simp
  then obtain s' where run: "?run = (Inr True, s')" using run_true by blast
  have stored: "barcodes_stored id sample_barcodes" by code_simp
  have sku: "Sku ''gadget-2'' = Inr ''GADGET-2''" by code_simp
  have u: "BarcodeAssignmentId ''u7'' = Inr ''u7''" "id ''u7'' = ''u7''" "''u7'' \<notin> set (map br_id (bd_rows sample_barcodes))"
    by (code_simp, simp, code_simp)
  have unused: "canonical '' gad-1'' \<notin> set (map br_value (bd_rows sample_barcodes))" by code_simp
  have same: "canonical ''Gad-1 '' = canonical '' gad-1''" "canonical ''inv-9'' \<noteq> canonical '' gad-1''" by (code_simp, code_simp)
  have before: "LookupBarcodeUseCase (pg_barcodes id) sample_barcodes ''inv-9'' = Inr ''WIDGET-1''" by code_simp
  note spec = assigned_barcode_resolves [OF stored sku u unused run]
  from run same before conjunct1 [OF spec] conjunct2 [OF spec] show ?thesis by simp
qed

text \<open>
  Values are unique within a variant only: the value of one variant can be assigned to another, whose scans then go
  on finding the first.
\<close>

lemma shared_barcode_finds_the_first:
  "case AssignBarcodeUseCase ''u7'' 5 (pg_barcodes id) ''GADGET-2'' ''INV-9'' CODE_128 Supplier_source None sample_barcodes of
     (r, s') \<Rightarrow> r = Inr True \<and> LookupBarcodeUseCase (pg_barcodes id) s' ''INV-9'' = Inr ''WIDGET-1''"
  by code_simp

text \<open>A generator whose first value is taken, with a toy digest.\<close>

definition toy_digest :: "string \<Rightarrow> string" where
  "toy_digest s = s @ ''00000000''"

definition one_taken :: barcode_db where
  "one_taken = sample_barcodes\<lparr>bd_rows := map (\<lambda>r. r\<lparr>br_value := ''INV-T100-K0000000''\<rparr>) (bd_rows sample_barcodes)\<rparr>"


end
