(* ===== verification/Roles.thy ===== *)
theory Roles
  imports Warehouse
begin

text \<open>
  Roles and permissions: src/src/domain/entities/Permission.ts, src/src/domain/services/PermissionService.ts over
  IPermissionRepository, its provider PostgresPermissionRepository.ts, and
  src/src/application/useCases/ManageRoles.ts over the five tables of the Prisma schema. The statements of a method run one by
  one, not in a transaction, so what an earlier one changed stays when a later one fails. \<open>order_names\<close> and
  \<open>order_keys\<close> are the ORDER BY of the database, \<open>decimal\<close> is how a number is printed.
\<close>

section \<open>Permissions\<close>

record permission =
  pm_id :: string
  pm_resource :: string
  pm_action :: string
  pm_description :: string

definition Permission :: "string \<Rightarrow> string \<Rightarrow> string \<Rightarrow> string \<Rightarrow> permission result" where
  "Permission i resource action description =
     (if resource = [] \<or> is_blank resource then Inl (Error ''Permission resource cannot be empty.'' [])
      else if action = [] \<or> is_blank action then Inl (Error ''Permission action cannot be empty.'' [])
      else Inr \<lparr>pm_id = i, pm_resource = resource, pm_action = action, pm_description = description\<rparr>)"

definition permission_key :: "permission \<Rightarrow> string" where
  "permission_key p = pm_resource p @ '':'' @ pm_action p"

definition permission_matches :: "permission \<Rightarrow> string \<Rightarrow> string \<Rightarrow> bool" where
  "permission_matches p resource action \<longleftrightarrow> pm_resource p = resource \<and> pm_action p = action"

definition matchesKey :: "permission \<Rightarrow> string \<Rightarrow> bool" where
  "matchesKey p key \<longleftrightarrow> permission_key p = key"

section \<open>The service\<close>

record 's permission_repo =
  perms_of_user :: "'s \<Rightarrow> string \<Rightarrow> permission list result"
  perms_of_roles :: "'s \<Rightarrow> string list \<Rightarrow> permission list result"

definition getUserPermissionKeys :: "'s permission_repo \<Rightarrow> 's \<Rightarrow> string \<Rightarrow> string list result" where
  "getUserPermissionKeys repo s u = result_bind (perms_of_user repo s u) (\<lambda>ps. Inr (js_set (map permission_key ps)))"

definition hasPermission :: "'s permission_repo \<Rightarrow> 's \<Rightarrow> string \<Rightarrow> string \<Rightarrow> string \<Rightarrow> bool result" where
  "hasPermission repo s u resource action =
     result_bind (getUserPermissionKeys repo s u) (\<lambda>ks. Inr (resource @ '':'' @ action \<in> set ks))"

definition getEffectivePermissionKeys :: "'s permission_repo \<Rightarrow> 's \<Rightarrow> string list \<Rightarrow> string list result" where
  "getEffectivePermissionKeys repo s rids = (if length rids = 0 then Inr []
     else result_bind (perms_of_roles repo s rids) (\<lambda>ps. Inr (js_set (map permission_key ps))))"

text \<open>The first entry of every identifier, in order.\<close>

definition by_id :: "permission list \<Rightarrow> permission list" where
  "by_id ps = map snd (fold (\<lambda>p m. if map_of m (pm_id p) = None then AList.update (pm_id p) p m else m) ps [])"

definition getUserPermissions :: "'s permission_repo \<Rightarrow> 's \<Rightarrow> string \<Rightarrow> permission list result" where
  "getUserPermissions repo s u = result_bind (perms_of_user repo s u) (\<lambda>ps. Inr (by_id ps))"

section \<open>The tables\<close>

record role_row =
  rl_id :: string
  rl_name :: string
  rl_description :: string
  rl_isCustom :: bool
  rl_tenant :: "string option"

record role_db =
  rd_tenants :: "string list"
  rd_users :: "string list"
  rd_roles :: "role_row list"
  rd_permissions :: "permission list"
  rd_userRoles :: "(string \<times> string) list"
  rd_rolePermissions :: "(string \<times> string) list"

text \<open>The permissions a query includes with a role, by way of the mapping rows.\<close>

definition included_permissions :: "role_db \<Rightarrow> (string \<times> string) list \<Rightarrow> permission list" where
  "included_permissions s rps = List.map_filter (\<lambda>(r, pid). find (\<lambda>p. pm_id p = pid) (rd_permissions s)) rps"

definition permissions_of_role :: "role_db \<Rightarrow> string \<Rightarrow> permission list" where
  "permissions_of_role s r = included_permissions s (filter (\<lambda>(r', pid). r' = r) (rd_rolePermissions s))"

definition roles_of_user :: "role_db \<Rightarrow> string \<Rightarrow> string list" where
  "roles_of_user s u = map snd (filter (\<lambda>(u', r). u' = u) (rd_userRoles s))"

definition new_permission :: "permission \<Rightarrow> permission result" where
  "new_permission p = Permission (pm_id p) (pm_resource p) (pm_action p) (pm_description p)"

definition pp_findPermissionsByUserId :: "role_db \<Rightarrow> string \<Rightarrow> permission list result" where
  "pp_findPermissionsByUserId s u = result_map new_permission (concat (map (permissions_of_role s) (roles_of_user s u)))"

definition pp_findPermissionsByRoleIds :: "role_db \<Rightarrow> string list \<Rightarrow> permission list result" where
  "pp_findPermissionsByRoleIds s rids = (if length rids = 0 then Inr []
     else result_map new_permission (included_permissions s (filter (\<lambda>(r, pid). r \<in> set rids) (rd_rolePermissions s))))"

definition pg_permissions :: "role_db permission_repo" where
  "pg_permissions = \<lparr>perms_of_user = pp_findPermissionsByUserId, perms_of_roles = pp_findPermissionsByRoleIds\<rparr>"

section \<open>Managing roles\<close>

record role_view =
  rv_id :: string
  rv_name :: string
  rv_description :: string
  rv_isCustom :: bool
  rv_permissions :: "permission list"

definition role_view_of :: "role_db \<Rightarrow> role_row \<Rightarrow> role_view" where
  "role_view_of s r = \<lparr>rv_id = rl_id r, rv_name = rl_name r, rv_description = rl_description r, rv_isCustom = rl_isCustom r,
     rv_permissions = permissions_of_role s (rl_id r)\<rparr>"

fun underscored :: "bool \<Rightarrow> string \<Rightarrow> string" where
  "underscored inspace [] = []"
| "underscored inspace (c # cs) = (if is_space c then (if inspace then underscored True cs else CHR ''_'' # underscored True cs)
     else c # underscored False cs)"

fun comma_list :: "string list \<Rightarrow> string" where
  "comma_list [] = []"
| "comma_list [x] = x"
| "comma_list (x # y # xs) = x @ '', '' @ comma_list (y # xs)"

definition custom_role_id :: "(time \<Rightarrow> string) \<Rightarrow> time \<Rightarrow> string \<Rightarrow> string \<Rightarrow> string" where
  "custom_role_id decimal now tenant name =
     ''custom_'' @ tenant @ ''_'' @ underscored False (toLowerCase name) @ ''_'' @ decimal now"

definition foreign_key_error :: error where
  "foreign_key_error = Error ''Foreign key constraint violated'' []"

text \<open>\<open>createMany\<close> with \<open>skipDuplicates\<close>.\<close>

definition insert_missing :: "'a list \<Rightarrow> 'a list \<Rightarrow> 'a list" where
  "insert_missing new old = fold (\<lambda>x xs. if x \<in> set xs then xs else xs @ [x]) new old"

definition find_role :: "role_db \<Rightarrow> string \<Rightarrow> role_row option" where
  "find_role s rid = find (\<lambda>r. rl_id r = rid) (rd_roles s)"

definition role_not_found :: "string \<Rightarrow> error" where
  "role_not_found rid = Error ''Role '{}' not found.'' [S rid]"

definition createCustomRole ::
    "(time \<Rightarrow> string) \<Rightarrow> time \<Rightarrow> string \<Rightarrow> string \<Rightarrow> string \<Rightarrow> string list \<Rightarrow> (role_db, role_view) oper" where
  "createCustomRole decimal now tenant name description pids = op_get (\<lambda>s.
     let i = custom_role_id decimal now tenant name;
         valid = map pm_id (filter (\<lambda>p. pm_id p \<in> set pids) (rd_permissions s));
         role = \<lparr>rl_id = i, rl_name = name, rl_description = description, rl_isCustom = True, rl_tenant = Some tenant\<rparr> in
     op_seq (op_reject (length valid \<noteq> length pids)
       (Error ''Invalid permission IDs: {}'' [S (comma_list (filter (\<lambda>pid. pid \<notin> set valid) pids))]))
     (op_seq (op_reject (find_role s i \<noteq> None) (Error ''Unique constraint failed'' []))
     (op_seq (op_reject (tenant \<notin> set (rd_tenants s)) foreign_key_error)
     (op_seq (op_modify (\<lambda>s. s\<lparr>rd_roles := rd_roles s @ [role],
        rd_rolePermissions := rd_rolePermissions s @ map (\<lambda>pid. (i, pid)) pids\<rparr>))
     (op_get (\<lambda>s'. op_return (role_view_of s' role)))))))"

definition getRole :: "string \<Rightarrow> (role_db, role_view) oper" where
  "getRole rid = op_get (\<lambda>s. case find_role s rid of None \<Rightarrow> op_throw (role_not_found rid)
     | Some r \<Rightarrow> op_return (role_view_of s r))"

definition updateRolePermissions :: "string \<Rightarrow> string list \<Rightarrow> (role_db, role_view) oper" where
  "updateRolePermissions rid pids = op_get (\<lambda>s.
     op_seq (op_reject (find_role s rid = None) (role_not_found rid))
     (op_seq (op_modify (\<lambda>s. s\<lparr>rd_rolePermissions := filter (\<lambda>(r, pid). r \<noteq> rid) (rd_rolePermissions s)\<rparr>))
     (op_seq (op_reject (\<not> set pids \<subseteq> set (map pm_id (rd_permissions s))) foreign_key_error)
     (op_seq (op_modify (\<lambda>s. s\<lparr>rd_rolePermissions := insert_missing (map (\<lambda>pid. (rid, pid)) pids) (rd_rolePermissions s)\<rparr>))
     (getRole rid)))))"

definition deleteCustomRole :: "string \<Rightarrow> (role_db, bool) oper" where
  "deleteCustomRole rid = op_get (\<lambda>s. case find_role s rid of None \<Rightarrow> op_throw (role_not_found rid)
     | Some r \<Rightarrow> let n = length (filter (\<lambda>(u, r'). r' = rid) (rd_userRoles s)) in
        op_seq (op_reject (\<not> rl_isCustom r) (Error ''Cannot delete a built-in system role.'' []))
        (op_seq (op_reject (n > 0) (Error ''Cannot delete role '{}': {} user(s) are currently assigned.'' [S (rl_name r), N (of_nat n)]))
        (op_seq (op_modify (\<lambda>s. s\<lparr>rd_rolePermissions := filter (\<lambda>(r', pid). r' \<noteq> rid) (rd_rolePermissions s)\<rparr>))
        (op_seq (op_modify (\<lambda>s. s\<lparr>rd_roles := filter (\<lambda>r'. rl_id r' \<noteq> rid) (rd_roles s),
           rd_userRoles := filter (\<lambda>(u, r'). r' \<noteq> rid) (rd_userRoles s)\<rparr>))
        (op_return True)))))"

definition listRoles :: "(role_row list \<Rightarrow> role_row list) \<Rightarrow> role_db \<Rightarrow> string \<Rightarrow> role_view list" where
  "listRoles order_names s tenant =
     map (role_view_of s) (order_names (filter (\<lambda>r. \<not> rl_isCustom r \<or> rl_tenant r = Some tenant) (rd_roles s)))"

definition listPermissions :: "(permission list \<Rightarrow> permission list) \<Rightarrow> role_db \<Rightarrow> permission list" where
  "listPermissions order_keys s = order_keys (rd_permissions s)"

definition assignRolesToUser :: "string \<Rightarrow> string list \<Rightarrow> (role_db, bool) oper" where
  "assignRolesToUser u rids = op_get (\<lambda>s.
     let valid = map rl_id (filter (\<lambda>r. rl_id r \<in> set rids) (rd_roles s)) in
     op_seq (op_reject (u \<notin> set (rd_users s)) (Error ''User '{}' not found.'' [S u]))
     (op_seq (op_reject (length valid \<noteq> length rids)
       (Error ''Invalid role IDs: {}'' [S (comma_list (filter (\<lambda>i. i \<notin> set valid) rids))]))
     (op_seq (op_modify (\<lambda>s. s\<lparr>rd_userRoles := insert_missing (map (\<lambda>r. (u, r)) rids) (rd_userRoles s)\<rparr>))
     (op_return True))))"

definition removeRolesFromUser :: "string \<Rightarrow> string list \<Rightarrow> (role_db, bool) oper" where
  "removeRolesFromUser u rids = op_seq (op_modify (\<lambda>s.
       s\<lparr>rd_userRoles := filter (\<lambda>(u', r). \<not> (u' = u \<and> r \<in> set rids)) (rd_userRoles s)\<rparr>)) (op_return True)"

definition getUserEffectivePermissions :: "role_db \<Rightarrow> string \<Rightarrow> permission list" where
  "getUserEffectivePermissions s u = by_id (concat (map (permissions_of_role s) (roles_of_user s u)))"

section \<open>Histories of calls\<close>

datatype role_call =
    Create_role time string string string "string list"
  | Update_role string "string list"
  | Delete_role string
  | Assign_roles string "string list"
  | Remove_roles string "string list"

fun call_roles :: "(time \<Rightarrow> string) \<Rightarrow> role_call \<Rightarrow> (role_db, unit) oper" where
  "call_roles decimal (Create_role now tenant name description pids) =
     op_bind (createCustomRole decimal now tenant name description pids) (\<lambda>_. op_return ())"
| "call_roles decimal (Update_role rid pids) = op_bind (updateRolePermissions rid pids) (\<lambda>_. op_return ())"
| "call_roles decimal (Delete_role rid) = op_bind (deleteCustomRole rid) (\<lambda>_. op_return ())"
| "call_roles decimal (Assign_roles u rids) = op_bind (assignRolesToUser u rids) (\<lambda>_. op_return ())"
| "call_roles decimal (Remove_roles u rids) = op_bind (removeRolesFromUser u rids) (\<lambda>_. op_return ())"

lemmas role_op_defs = createCustomRole_def updateRolePermissions_def deleteCustomRole_def assignRolesToUser_def
  removeRolesFromUser_def getRole_def

definition roles_ok :: "role_db \<Rightarrow> bool" where
  "roles_ok s \<longleftrightarrow> distinct (map rl_id (rd_roles s)) \<and> distinct (map pm_id (rd_permissions s))
     \<and> (\<forall>p\<in>set (rd_permissions s). new_permission p = Inr p)
     \<and> distinct (rd_userRoles s) \<and> distinct (rd_rolePermissions s)
     \<and> (\<forall>(u, r)\<in>set (rd_userRoles s). u \<in> set (rd_users s) \<and> r \<in> rl_id ` set (rd_roles s))
     \<and> (\<forall>(r, pid)\<in>set (rd_rolePermissions s). r \<in> rl_id ` set (rd_roles s) \<and> pid \<in> pm_id ` set (rd_permissions s))"

lemma insert_missing_set [simp]: "set (insert_missing new old) = set old \<union> set new"
  unfolding insert_missing_def by (induction new arbitrary: old) auto

lemma insert_missing_distinct [simp]: "distinct old \<Longrightarrow> distinct (insert_missing new old)"
  unfolding insert_missing_def by (induction new arbitrary: old) auto

lemma as_many_distinct:
  assumes "distinct ys" and "set ys \<subseteq> set xs" and "length ys = length xs"
  shows "set ys = set xs" and "distinct xs"
proof -
  have "card (set xs) \<le> card (set ys)" using assms(1,3) by (metis card_length distinct_card)
  then show "set ys = set xs" using assms(2) by (intro card_subset_eq) (auto simp: card_mono le_antisym)
  then show "distinct xs" using assms(1,3) by (metis card_distinct distinct_card)
qed

lemma distinct_Pair [simp]: "distinct (map (Pair i) xs) = distinct xs"
  by (simp add: distinct_map inj_on_def)

lemma find_role_None: "find_role s i = None \<longleftrightarrow> i \<notin> rl_id ` set (rd_roles s)"
  by (auto simp: find_role_def find_None_iff)

text \<open>The five calls: an outcome either leaves the tables or is one of the changes below.\<close>

lemma role_call_cases:
  assumes "roles_ok s"
  shows "case c of
      Create_role now tenant name description pids \<Rightarrow> snd (call_roles decimal c s) = s
        \<or> (\<exists>r. rl_id r \<notin> rl_id ` set (rd_roles s) \<and> distinct pids \<and> set pids \<subseteq> pm_id ` set (rd_permissions s)
            \<and> snd (call_roles decimal c s) = s\<lparr>rd_roles := rd_roles s @ [r],
                rd_rolePermissions := rd_rolePermissions s @ map (\<lambda>pid. (rl_id r, pid)) pids\<rparr>)
    | Update_role rid pids \<Rightarrow> snd (call_roles decimal c s) = s
        \<or> (let kept = filter (\<lambda>(r, pid). r \<noteq> rid) (rd_rolePermissions s) in rid \<in> rl_id ` set (rd_roles s) \<and>
            (snd (call_roles decimal c s) = s\<lparr>rd_rolePermissions := kept\<rparr>
             \<or> set pids \<subseteq> pm_id ` set (rd_permissions s)
               \<and> snd (call_roles decimal c s) = s\<lparr>rd_rolePermissions := insert_missing (map (\<lambda>pid. (rid, pid)) pids) kept\<rparr>))
    | Delete_role rid \<Rightarrow> snd (call_roles decimal c s) = s
        \<or> rid \<notin> snd ` set (rd_userRoles s) \<and> snd (call_roles decimal c s)
            = s\<lparr>rd_rolePermissions := filter (\<lambda>(r, pid). r \<noteq> rid) (rd_rolePermissions s),
                rd_roles := filter (\<lambda>r. rl_id r \<noteq> rid) (rd_roles s)\<rparr>
    | Assign_roles u rids \<Rightarrow> snd (call_roles decimal c s) = s
        \<or> u \<in> set (rd_users s) \<and> set rids \<subseteq> rl_id ` set (rd_roles s)
          \<and> snd (call_roles decimal c s) = s\<lparr>rd_userRoles := insert_missing (map (\<lambda>r. (u, r)) rids) (rd_userRoles s)\<rparr>
    | Remove_roles u rids \<Rightarrow> snd (call_roles decimal c s)
          = s\<lparr>rd_userRoles := filter (\<lambda>(u', r). \<not> (u' = u \<and> r \<in> set rids)) (rd_userRoles s)\<rparr>"
proof (cases c)
  case (Create_role now tenant name description pids)
  let ?valid = "map pm_id (filter (\<lambda>p. pm_id p \<in> set pids) (rd_permissions s))"
  have "distinct ?valid" "set ?valid \<subseteq> set pids" using assms by (auto simp: roles_ok_def distinct_map_filter)
  then have "length ?valid = length pids \<Longrightarrow> distinct pids \<and> set pids \<subseteq> pm_id ` set (rd_permissions s)"
    using as_many_distinct [of ?valid pids] by auto
  moreover define r where "r = \<lparr>rl_id = custom_role_id decimal now tenant name, rl_name = name, rl_description = description,
      rl_isCustom = True, rl_tenant = Some tenant\<rparr>"
  moreover have "rl_id r = custom_role_id decimal now tenant name" by (simp add: r_def)
  ultimately show ?thesis unfolding Create_role role_call.case
    by (intro disj_imp [THEN iffD2] impI exI [of _ r])
      (auto simp: role_op_defs oper_simps Let_def find_role_None simp flip: r_def split: if_splits)
next
  case (Update_role rid pids)
  show ?thesis
    by (cases "find_role s rid"; cases "set pids \<subseteq> pm_id ` set (rd_permissions s)")
       (auto simp: Update_role role_op_defs oper_simps Let_def find_role_def split: option.splits dest!: find_SomeD)
next
  case (Delete_role rid)
  show ?thesis
  proof (cases "find_role s rid")
    case (Some r)
    have none: "filter (\<lambda>(u, r'). r' = rid) (rd_userRoles s) = [] \<Longrightarrow> filter (\<lambda>(u, r'). r' \<noteq> rid) (rd_userRoles s) = rd_userRoles s
        \<and> rid \<notin> snd ` set (rd_userRoles s)"
      by (auto simp: filter_empty_conv intro!: filter_True)
    with Some Delete_role show ?thesis by (auto simp: role_op_defs oper_simps Let_def)
  qed (simp add: Delete_role role_op_defs oper_simps)
next
  case (Assign_roles u rids)
  let ?valid = "map rl_id (filter (\<lambda>r. rl_id r \<in> set rids) (rd_roles s))"
  have "distinct ?valid" "set ?valid \<subseteq> set rids" using assms by (auto simp: roles_ok_def distinct_map_filter)
  then have "length ?valid = length rids \<Longrightarrow> set rids \<subseteq> rl_id ` set (rd_roles s)"
    using as_many_distinct [of ?valid rids] by auto
  with Assign_roles show ?thesis by (auto simp: role_op_defs oper_simps Let_def split: if_splits)
qed (simp add: role_op_defs oper_simps)

lemma keeps_roles_ok: "keeps roles_ok (call_roles decimal c)"
  unfolding keeps_def
proof (intro allI impI)
  fix s assume ok: "roles_ok s"
  note step = role_call_cases [where c = c and decimal = decimal, OF ok]
  show "roles_ok (snd (call_roles decimal c s))"
  proof (cases c)
    case (Create_role now tenant name description pids)
    from step ok show ?thesis unfolding Create_role role_call.case
      by (auto simp: roles_ok_def)
  next
    case (Update_role rid pids)
    from step ok show ?thesis unfolding Update_role role_call.case by (auto simp: roles_ok_def Let_def)
  next
    case (Delete_role rid)
    from step ok show ?thesis unfolding Delete_role role_call.case
      by (auto simp: roles_ok_def distinct_map_filter) (force+)
  next
    case (Assign_roles u rids)
    from step ok show ?thesis unfolding Assign_roles role_call.case by (auto simp: roles_ok_def)
  next
    case (Remove_roles u rids)
    from step ok show ?thesis unfolding Remove_roles role_call.case by (auto simp: roles_ok_def)
  qed
qed

section \<open>What a user may do\<close>

definition granted :: "role_db \<Rightarrow> string \<Rightarrow> permission set" where
  "granted s u = {p \<in> set (rd_permissions s). \<exists>r. (u, r) \<in> set (rd_userRoles s) \<and> (r, pm_id p) \<in> set (rd_rolePermissions s)}"

lemma set_included:
  assumes "roles_ok s" and "set rps \<subseteq> set (rd_rolePermissions s)"
  shows "set (included_permissions s rps) = {p \<in> set (rd_permissions s). \<exists>r. (r, pm_id p) \<in> set rps}"
proof -
  have found: "find (\<lambda>q. pm_id q = pm_id p) (rd_permissions s) = Some p" if "p \<in> set (rd_permissions s)" for p
    using assms(1) that by (intro find_by_key) (simp_all add: roles_ok_def)
  have "p \<in> set (included_permissions s rps) \<longleftrightarrow> (\<exists>r pid. (r, pid) \<in> set rps \<and> find (\<lambda>q. pm_id q = pid) (rd_permissions s) = Some p)" for p
    by (force simp: included_permissions_def List.map_filter_def image_iff)
  moreover have "p \<in> set (rd_permissions s) \<and> pm_id p = pid" if "find (\<lambda>q. pm_id q = pid) (rd_permissions s) = Some p" for p pid
    using find_SomeD [OF that] .
  ultimately show ?thesis using found by blast
qed

lemma user_permissions:
  assumes "roles_ok s"
  shows "set (concat (map (permissions_of_role s) (roles_of_user s u))) = granted s u"
proof -
  have "set (permissions_of_role s r) = {p \<in> set (rd_permissions s). (r, pm_id p) \<in> set (rd_rolePermissions s)}" for r
    unfolding permissions_of_role_def by (subst set_included [OF assms]) auto
  then show ?thesis by (auto simp: granted_def roles_of_user_def)
qed

lemma found_permissions:
  assumes "roles_ok s"
  shows "\<exists>ps. pp_findPermissionsByUserId s u = Inr ps \<and> set ps = granted s u"
proof -
  let ?ps = "concat (map (permissions_of_role s) (roles_of_user s u))"
  have "\<forall>p\<in>set ?ps. new_permission p = Inr p"
    unfolding user_permissions [OF assms] using assms by (auto simp: granted_def roles_ok_def)
  then have "result_map new_permission ?ps = Inr ?ps" by (induction ?ps) (auto simp: result_map_Inr_iff list_all2_same)
  with user_permissions [OF assms] show ?thesis by (auto simp: pp_findPermissionsByUserId_def)
qed

definition keyed_permissions :: "(string \<times> permission) list \<Rightarrow> bool" where
  "keyed_permissions m \<longleftrightarrow> distinct (map fst m) \<and> (\<forall>(i, p)\<in>set m. pm_id p = i)"

lemma by_id_loop:
  assumes "keyed_permissions m" and "\<forall>p\<in>snd ` set m \<union> set qs. \<forall>q\<in>snd ` set m \<union> set qs. pm_id p = pm_id q \<longrightarrow> p = q"
  shows "keyed_permissions (fold (\<lambda>p m. if map_of m (pm_id p) = None then AList.update (pm_id p) p m else m) qs m)
    \<and> snd ` set (fold (\<lambda>p m. if map_of m (pm_id p) = None then AList.update (pm_id p) p m else m) qs m) = snd ` set m \<union> set qs"
  using assms
proof (induction qs arbitrary: m)
  case (Cons q qs)
  show ?case
  proof (cases "map_of m (pm_id q)")
    case None
    then have new: "AList.update (pm_id q) q m = m @ [(pm_id q, q)]" "pm_id q \<notin> fst ` set m"
      by (simp_all add: update_fresh map_of_eq_None_iff)
    have "keyed_permissions (m @ [(pm_id q, q)])" using Cons.prems(1) new(2) by (auto simp: keyed_permissions_def)
    moreover have "\<forall>p\<in>snd ` set (m @ [(pm_id q, q)]) \<union> set qs. \<forall>q'\<in>snd ` set (m @ [(pm_id q, q)]) \<union> set qs. pm_id p = pm_id q' \<longrightarrow> p = q'"
      using Cons.prems(2) by simp
    ultimately have "keyed_permissions (fold (\<lambda>p m. if map_of m (pm_id p) = None then AList.update (pm_id p) p m else m) qs (m @ [(pm_id q, q)]))
      \<and> snd ` set (fold (\<lambda>p m. if map_of m (pm_id p) = None then AList.update (pm_id p) p m else m) qs (m @ [(pm_id q, q)]))
        = snd ` set (m @ [(pm_id q, q)]) \<union> set qs" by (rule Cons.IH)
    with None new(1) show ?thesis by simp
  next
    case (Some p)
    from map_of_SomeD [OF this] have mem: "(pm_id q, p) \<in> set m" .
    then have "p \<in> snd ` set m" "pm_id p = pm_id q" using Cons.prems(1) by (force simp: keyed_permissions_def)+
    with Cons.prems(2) have "p = q" by simp
    with mem have "q \<in> snd ` set m" by force
    moreover have "\<forall>p\<in>snd ` set m \<union> set qs. \<forall>q\<in>snd ` set m \<union> set qs. pm_id p = pm_id q \<longrightarrow> p = q"
      using Cons.prems(2) by simp
    ultimately show ?thesis using Some Cons.IH [OF Cons.prems(1)] by (simp add: insert_absorb)
  qed
qed simp

lemma by_id_set:
  assumes "\<forall>p\<in>set ps. \<forall>q\<in>set ps. pm_id p = pm_id q \<longrightarrow> p = q"
  shows "set (by_id ps) = set ps" and "distinct (map pm_id (by_id ps))"
proof -
  let ?m = "fold (\<lambda>p m. if map_of m (pm_id p) = None then AList.update (pm_id p) p m else m) ps []"
  have loop: "keyed_permissions ?m \<and> snd ` set ?m = set ps"
    using by_id_loop [of "[]" ps] assms by (simp add: keyed_permissions_def)
  then show "set (by_id ps) = set ps" by (simp add: by_id_def)
  have "map pm_id (map snd m) = map fst m" if "\<forall>(i, p)\<in>set m. pm_id p = i" for m using that by (induction m) auto
  moreover have "\<forall>(i, p)\<in>set ?m. pm_id p = i" and dist: "distinct (map fst ?m)"
    using loop unfolding keyed_permissions_def by (blast+)
  ultimately have "map pm_id (map snd ?m) = map fst ?m" by blast
  with dist show "distinct (map pm_id (by_id ps))" unfolding by_id_def by (simp only:)
qed

lemma append_colon: "CHR '':'' \<notin> set a \<Longrightarrow> CHR '':'' \<notin> set b \<Longrightarrow> a @ '':'' @ x = b @ '':'' @ y \<longleftrightarrow> a = b \<and> x = y"
proof (induction a arbitrary: b)
  case Nil
  then show ?case by (cases b) auto
next
  case (Cons c a)
  then show ?case by (cases b) auto
qed

text \<open>
  The tables of roles stay consistent: after any history of calls that create, change, delete, assign and
  remove roles, each returning or throwing, on tables that were consistent, identifiers are unique, no mapping
  is stored twice, and every mapping names a user, a role and a permission that exist.
\<close>

theorem role_tables_consistent:
  assumes "roles_ok s"
  shows "roles_ok (fold (\<lambda>c s. snd (call_roles decimal c s)) cs s)"
  by (rule keeps_fold [OF keeps_roles_ok assms])

text \<open>
  C22. Who may do what: \<open>hasPermission\<close> says yes exactly if the user holds a role that is mapped to a permission with that
  resource and that action (no resource having a colon in its name), and the list of effective permissions holds
  exactly the permissions of the user's roles, each once.
\<close>

theorem permission_granted_iff:
  assumes "roles_ok s" and "CHR '':'' \<notin> set resource" and "\<forall>p\<in>set (rd_permissions s). CHR '':'' \<notin> set (pm_resource p)"
  shows "hasPermission pg_permissions s u resource action = Inr (\<exists>r p. (u, r) \<in> set (rd_userRoles s)
        \<and> (r, pm_id p) \<in> set (rd_rolePermissions s) \<and> p \<in> set (rd_permissions s)
        \<and> pm_resource p = resource \<and> pm_action p = action)
    \<and> set (getUserEffectivePermissions s u) = granted s u \<and> distinct (map pm_id (getUserEffectivePermissions s u))"
proof -
  obtain ps where ps: "pp_findPermissionsByUserId s u = Inr ps" "set ps = granted s u" using found_permissions [OF assms(1)] by blast
  have "resource @ '':'' @ action \<in> permission_key ` granted s u \<longleftrightarrow> (\<exists>p\<in>granted s u. pm_resource p = resource \<and> pm_action p = action)"
    using assms(2,3) append_colon by (fastforce simp: permission_key_def granted_def)
  also have "\<dots> \<longleftrightarrow> (\<exists>r p. (u, r) \<in> set (rd_userRoles s) \<and> (r, pm_id p) \<in> set (rd_rolePermissions s)
      \<and> p \<in> set (rd_permissions s) \<and> pm_resource p = resource \<and> pm_action p = action)"
    by (auto simp: granted_def)
  finally have key: "resource @ '':'' @ action \<in> permission_key ` granted s u \<longleftrightarrow> \<dots>" .
  have "set (js_set (map permission_key ps)) = permission_key ` granted s u" using ps(2) by (simp add: js_set_def)
  then have has: "hasPermission pg_permissions s u resource action = Inr (resource @ '':'' @ action \<in> permission_key ` granted s u)"
    using ps(1) by (simp add: hasPermission_def getUserPermissionKeys_def pg_permissions_def)
  have "\<forall>p\<in>granted s u. \<forall>q\<in>granted s u. pm_id p = pm_id q \<longrightarrow> p = q"
    using assms(1) by (auto simp: granted_def roles_ok_def distinct_map inj_on_def)
  then have "set (getUserEffectivePermissions s u) = granted s u \<and> distinct (map pm_id (getUserEffectivePermissions s u))"
    using by_id_set [of "concat (map (permissions_of_role s) (roles_of_user s u))", unfolded user_permissions [OF assms(1)]]
    by (simp only: getUserEffectivePermissions_def simp_thms)
  with has key show ?thesis by (simp only: simp_thms)
qed

text \<open>
  No call gives a user a permission behind the scenes: a permission that a user has after a call and had not
  before comes from assigning that user a role that has it, or from putting it on a role the user holds.
  Creating, deleting and removing roles gives nobody anything, and deleting a role takes nothing from anybody.
\<close>

theorem permissions_gained:
  assumes "roles_ok s" and "p \<in> granted (snd (call_roles decimal c s)) u" and "p \<notin> granted s u"
  shows "(\<exists>rids r. c = Assign_roles u rids \<and> r \<in> set rids \<and> (r, pm_id p) \<in> set (rd_rolePermissions s))
    \<or> (\<exists>rid pids. c = Update_role rid pids \<and> (u, rid) \<in> set (rd_userRoles s) \<and> pm_id p \<in> set pids)"
proof -
  note step = role_call_cases [where c = c and decimal = decimal, OF assms(1)]
  have held: "r \<in> rl_id ` set (rd_roles s)" if "(v, r) \<in> set (rd_userRoles s)" for v r
    using assms(1) that by (auto simp: roles_ok_def)
  show ?thesis
  proof (cases c)
    case (Create_role now tenant name description pids)
    from step assms(2,3) held show ?thesis unfolding Create_role role_call.case by (auto simp: granted_def)
  next
    case (Update_role rid pids)
    from step assms(2,3) show ?thesis unfolding Update_role role_call.case by (auto simp: granted_def Let_def)
  next
    case (Delete_role rid)
    from step assms(2,3) show ?thesis unfolding Delete_role role_call.case by (auto simp: granted_def)
  next
    case (Assign_roles v rids)
    from step assms(2,3) show ?thesis unfolding Assign_roles role_call.case by (auto simp: granted_def)
  next
    case (Remove_roles v rids)
    from step assms(2,3) show ?thesis unfolding Remove_roles role_call.case by (auto simp: granted_def)
  qed
qed

text \<open>
  A refused change strips the role. Changing the permissions of a role to a list that names a permission that
  does not exist throws (the foreign key refuses the row), but the mappings of the role were deleted by the statement
  before: the role is left without any permission, and a user who holds only this role may do nothing.
\<close>

theorem refused_update_strips_role:
  assumes "roles_ok s" and "find_role s rid \<noteq> None" and "\<not> set pids \<subseteq> pm_id ` set (rd_permissions s)"
  shows "\<exists>s'. updateRolePermissions rid pids s = (Inl foreign_key_error, s') \<and> permissions_of_role s' rid = []
    \<and> (\<forall>u. set (roles_of_user s u) \<subseteq> {rid} \<longrightarrow> hasPermission pg_permissions s' u resource action = Inr False)"
proof -
  define s' where "s' = s\<lparr>rd_rolePermissions := filter (\<lambda>(r, pid). r \<noteq> rid) (rd_rolePermissions s)\<rparr>"
  obtain r where "find_role s rid = Some r" using assms(2) by blast
  then have run: "updateRolePermissions rid pids s = (Inl foreign_key_error, s')"
    using assms(3) by (simp add: updateRolePermissions_def oper_simps s'_def)
  have "snd (call_roles decimal (Update_role rid pids) s) = s'" for decimal
    by (simp add: run oper_simps)
  then have ok: "roles_ok s'" using keepsD_snd [OF keeps_roles_ok assms(1)] by metis
  have none: "filter (\<lambda>(r, pid). r = rid) (rd_rolePermissions s') = []" by (auto simp: s'_def filter_empty_conv)
  have "permissions_of_role s' rid = []"
    unfolding permissions_of_role_def none by (simp add: included_permissions_def)
  moreover have "hasPermission pg_permissions s' u resource action = Inr False" if "set (roles_of_user s u) \<subseteq> {rid}" for u
  proof -
    have "granted s' u = {}" using that by (force simp: granted_def roles_of_user_def s'_def)
    with found_permissions [OF ok, of u] show ?thesis
      by (auto simp: hasPermission_def getUserPermissionKeys_def pg_permissions_def js_set_def)
  qed
  ultimately show ?thesis using run by blast
qed

text \<open>The number of distinct rows is compared with the number of the identifiers given: a repeated one is refused, and the error names none.\<close>

lemma repeated_role_refused:
  assumes "roles_ok s" and "u \<in> set (rd_users s)" and "r \<in> rl_id ` set (rd_roles s)"
  shows "assignRolesToUser u [r, r] s = (Inl (Error ''Invalid role IDs: {}'' [S []]), s)"
proof -
  have set: "set (map rl_id (filter (\<lambda>x. rl_id x \<in> set [r, r]) (rd_roles s))) = {r}" using assms(3) by auto
  moreover have "distinct (map rl_id (filter (\<lambda>x. rl_id x \<in> set [r, r]) (rd_roles s)))"
    using assms(1) by (simp add: roles_ok_def distinct_map_filter)
  ultimately have "length (map rl_id (filter (\<lambda>x. rl_id x \<in> set [r, r]) (rd_roles s))) = 1"
    by (metis distinct_card card.empty card_insert_disjoint empty_iff finite.emptyI One_nat_def)
  then show ?thesis using assms(2) set by (simp add: assignRolesToUser_def oper_simps)
qed

section \<open>Instances\<close>

definition sample_roles :: role_db where
  "sample_roles = \<lparr>rd_tenants = [''t1''], rd_users = [''ann'', ''bob''],
     rd_roles = [\<lparr>rl_id = ''clerk'', rl_name = ''Clerk'', rl_description = [], rl_isCustom = False, rl_tenant = None\<rparr>,
       \<lparr>rl_id = ''lead'', rl_name = ''Lead'', rl_description = [], rl_isCustom = True, rl_tenant = Some ''t1''\<rparr>],
     rd_permissions = [\<lparr>pm_id = ''p1'', pm_resource = ''inventory'', pm_action = ''read'', pm_description = []\<rparr>,
       \<lparr>pm_id = ''p2'', pm_resource = ''inventory'', pm_action = ''write'', pm_description = []\<rparr>],
     rd_userRoles = [(''ann'', ''clerk'')], rd_rolePermissions = [(''clerk'', ''p1''), (''lead'', ''p1''), (''lead'', ''p2'')]\<rparr>"

lemma sample_roles_ok: "roles_ok sample_roles"
  by (simp add: roles_ok_def sample_roles_def new_permission_def Permission_def is_blank_def trim_def is_space_def)

theorem role_tables_consistent_witness:
  "roles_ok (fold (\<lambda>c s. snd (call_roles (\<lambda>t. ''0'') c s))
     [Assign_roles ''bob'' [''lead''], Delete_role ''lead'', Update_role ''clerk'' [''p2''], Remove_roles ''ann'' [''clerk'']] sample_roles)"
  by (rule role_tables_consistent [OF sample_roles_ok])

theorem permission_granted_iff_witness:
  "hasPermission pg_permissions sample_roles ''ann'' ''inventory'' ''read'' = Inr True
    \<and> hasPermission pg_permissions sample_roles ''ann'' ''inventory'' ''write'' = Inr False"
proof -
  have no_colon: "CHR '':'' \<notin> set ''inventory''" "\<forall>p\<in>set (rd_permissions sample_roles). CHR '':'' \<notin> set (pm_resource p)"
    by (simp_all add: sample_roles_def)
  note spec = conjunct1 [OF permission_granted_iff [OF sample_roles_ok no_colon]]
  let ?p = "rd_permissions sample_roles ! 0"
  have "(''ann'', ''clerk'') \<in> set (rd_userRoles sample_roles) \<and> (''clerk'', pm_id ?p) \<in> set (rd_rolePermissions sample_roles)
      \<and> ?p \<in> set (rd_permissions sample_roles) \<and> pm_resource ?p = ''inventory'' \<and> pm_action ?p = ''read''"
    by (simp add: sample_roles_def)
  then show ?thesis unfolding spec sum.inject eq_True by (intro conjI) (blast, auto simp: sample_roles_def)
qed

theorem permissions_gained_witness:
  "\<exists>p. p \<in> granted (snd (call_roles (\<lambda>t. ''0'') (Assign_roles ''bob'' [''lead'']) sample_roles)) ''bob'' \<and> p \<notin> granted sample_roles ''bob''
    \<and> (''lead'', pm_id p) \<in> set (rd_rolePermissions sample_roles)"
proof -
  define p where "p = rd_permissions sample_roles ! 1"
  have new: "p \<in> granted (snd (call_roles (\<lambda>t. ''0'') (Assign_roles ''bob'' [''lead'']) sample_roles)) ''bob''"
    by (simp add: p_def sample_roles_def granted_def assignRolesToUser_def oper_simps insert_missing_def Let_def)
  have old: "p \<notin> granted sample_roles ''bob''" by (simp add: p_def sample_roles_def granted_def)
  from permissions_gained [OF sample_roles_ok new old] new old show ?thesis by auto
qed

theorem refused_update_strips_role_witness:
  "\<exists>s'. updateRolePermissions ''clerk'' [''p1'', ''p9''] sample_roles = (Inl foreign_key_error, s')
    \<and> hasPermission pg_permissions sample_roles ''ann'' ''inventory'' ''read'' = Inr True
    \<and> hasPermission pg_permissions s' ''ann'' ''inventory'' ''read'' = Inr False"
proof -
  have known: "find_role sample_roles ''clerk'' \<noteq> None" "\<not> set [''p1'', ''p9''] \<subseteq> pm_id ` set (rd_permissions sample_roles)"
    by (simp_all add: sample_roles_def find_role_def)
  have only: "set (roles_of_user sample_roles ''ann'') \<subseteq> {''clerk''}" by (simp add: sample_roles_def roles_of_user_def)
  have before: "hasPermission pg_permissions sample_roles ''ann'' ''inventory'' ''read'' = Inr True" by code_simp
  from refused_update_strips_role [OF sample_roles_ok known, of "''inventory''" "''read''"] only before show ?thesis by blast
qed

end
