(* ===== verification/BatchIssue.thy ===== *)
theory BatchIssue
  imports CostLayers
begin

text \<open>
  What a batch issue does to the stored layers: \<open>consumeFifoLayersBatch\<close> of
  src/src/domain/services/CostLayerService.ts on the table of layers, for items of different variants. The items are
  loaded once and drawn from in memory, then every layer is saved; the result is that of the single issues, all or none.
\<close>

abbreviation fifo_layers :: "layer_table \<Rightarrow> ident \<Rightarrow> cost_layer list" where
  "fifo_layers tbl v \<equiv> pg_getActiveLayers tbl v ReceivedAsc"

definition drawn :: "layer_table \<Rightarrow> issue_item \<Rightarrow> cost_layer list" where
  "drawn tbl i = snd (draw_down (it_quantity i) (fifo_layers tbl (it_variant i)))"

abbreviation demand_of :: "issue_item list \<Rightarrow> ident \<Rightarrow> number" where
  "demand_of items v \<equiv> \<Sum>i\<leftarrow>items. if it_variant i = v then it_quantity i else 0"

definition coverable :: "layer_table \<Rightarrow> issue_item \<Rightarrow> bool" where
  "coverable tbl i \<longleftrightarrow> it_quantity i \<le> variant_units tbl (it_variant i)"

lemma drawn_facts:
  assumes "table_ok tbl" and "0 \<le> it_quantity i"
  shows "layers_ok (drawn tbl i)" and "list_all2 same_layer (fifo_layers tbl (it_variant i)) (drawn tbl i)"
    and "coverable tbl i \<Longrightarrow> units (drawn tbl i) = variant_units tbl (it_variant i) - it_quantity i"
    and "coverable tbl i \<Longrightarrow> \<exists>b. draw_down (it_quantity i) (fifo_layers tbl (it_variant i)) = (Inr b, drawn tbl i)
      \<and> totalCostCents b = valuation (fifo_layers tbl (it_variant i)) - valuation (drawn tbl i)"
    and "\<not> coverable tbl i \<Longrightarrow> \<exists>e. draw_down (it_quantity i) (fifo_layers tbl (it_variant i)) = (Inl e, drawn tbl i)"
proof -
  let ?act = "fifo_layers tbl (it_variant i)"
  obtain r where run: "draw_down (it_quantity i) ?act = (r, drawn tbl i)"
    by (metis drawn_def prod.collapse)
  note facts = draw_down_eval [OF active_ok [OF assms(1)] assms(2) run]
  have un: "units ?act = variant_units tbl (it_variant i)" by (rule pg_units [OF assms(1)])
  show "layers_ok (drawn tbl i)" "list_all2 same_layer ?act (drawn tbl i)" by (rule facts)+
  show "coverable tbl i \<Longrightarrow> units (drawn tbl i) = variant_units tbl (it_variant i) - it_quantity i"
    using facts(4) un by (simp add: coverable_def min_def)
  show "\<not> coverable tbl i \<Longrightarrow> \<exists>e. draw_down (it_quantity i) ?act = (Inl e, drawn tbl i)"
    using facts(3) un run by (auto simp: coverable_def isl_def)
  show "\<exists>b. draw_down (it_quantity i) ?act = (Inr b, drawn tbl i) \<and> totalCostCents b = valuation ?act - valuation (drawn tbl i)"
    if "coverable tbl i"
  proof (cases r)
    case (Inl e)
    with facts(3) un that show ?thesis by (simp add: coverable_def)
  next
    case (Inr b)
    with facts(5) [OF Inr] run show ?thesis by auto
  qed
qed

lemma same_ids: "list_all2 same_layer ls ls' \<Longrightarrow> map lid ls' = map lid ls"
  by (induction rule: list_all2_induct) (auto dest: same_layerD)

lemma same_variants: "list_all2 same_layer ls ls' \<Longrightarrow> map lvariant ls' = map lvariant ls"
  by (induction rule: list_all2_induct) (auto dest: same_layerD)

lemma fifo_ids: "table_ok tbl \<Longrightarrow> distinct (map lid (fifo_layers tbl v))"
  by (simp add: pg_getActiveLayers_def table_ok_def distinct_map_filter)

lemma find_lid: "l \<in> set ls \<Longrightarrow> distinct (map lid ls) \<Longrightarrow> find (\<lambda>c. lid c = lid l) ls = Some l"
  by (induction ls) auto

lemma write_back_all:
  assumes "distinct (map lid ls)" and "list_all2 same_layer ls ls'"
  shows "write_back ls ls' = ls'"
proof -
  have d: "distinct (map lid ls')" using assms same_ids by metis
  have "write_back ls ls' ! n = ls' ! n" if "n < length ls" for n
  proof -
    have n: "n < length ls'" and "same_layer (ls ! n) (ls' ! n)"
      using that assms(2) by (auto simp: list_all2_conv_all_nth)
    then have same: "lid (ls ! n) = lid (ls' ! n)" by (simp add: same_layerD(1))
    have "find (\<lambda>c. lid c = lid (ls ! n)) ls' = Some (ls' ! n)"
      using find_lid [OF nth_mem [OF n] d] same by simp
    with that show ?thesis by (simp add: write_back_def)
  qed
  with assms(2) show ?thesis by (intro nth_equalityI) (auto simp: write_back_def list_all2_lengthD)
qed

lemma issue_one_step:
  assumes tbl: "table_ok tbl" and q: "0 \<le> it_quantity i"
    and act: "lookup_or [] (loaded w) (it_variant i) = fifo_layers tbl (it_variant i)"
  shows "if coverable tbl i
    then \<exists>bs. issue_one FIFO i w = (Inr (), w\<lparr>loaded := AList.update (it_variant i) (drawn tbl i) (loaded w), breakdowns := bs,
       batch_totalCostCents := batch_totalCostCents w + (valuation (fifo_layers tbl (it_variant i)) - valuation (drawn tbl i)),
       layersToSave := layersToSave w @ map lid (drawn tbl i)\<rparr>)
    else \<exists>e w'. issue_one FIFO i w = (Inl e, w')"
proof -
  note facts = drawn_facts [OF tbl q]
  have fifo: "fifo_order (fifo_layers tbl v) = fifo_layers tbl v" for v
    by (simp add: pg_getActiveLayers_def ordered_rows_fixed)
  have wb: "write_back (fifo_layers tbl (it_variant i)) (drawn tbl i) = drawn tbl i"
    by (rule write_back_all [OF fifo_ids [OF tbl] facts(2)])
  show ?thesis
  proof (cases "coverable tbl i")
    case True
    with facts(4) obtain b where run: "draw_down (it_quantity i) (fifo_layers tbl (it_variant i)) = (Inr b, drawn tbl i)"
      and cost: "totalCostCents b = valuation (fifo_layers tbl (it_variant i)) - valuation (drawn tbl i)" by blast
    from True show ?thesis
      by (auto simp: issue_one_def oper_simps act fifo_consumeLayers_def fifo run wb cost Let_def)
  next
    case False
    with facts(5) obtain e where "draw_down (it_quantity i) (fifo_layers tbl (it_variant i)) = (Inl e, drawn tbl i)" by blast
    with False show ?thesis by (auto simp: issue_one_def oper_simps act fifo_consumeLayers_def fifo Let_def)
  qed
qed

lemma issue_each:
  assumes tbl: "table_ok tbl" and "distinct (map it_variant items)" and "\<forall>i\<in>set items. 0 \<le> it_quantity i"
    and "\<forall>i\<in>set items. lookup_or [] (loaded w) (it_variant i) = fifo_layers tbl (it_variant i)"
  shows "if \<forall>i\<in>set items. coverable tbl i
    then \<exists>bs. op_each (issue_one FIFO) items w = (Inr (), w\<lparr>loaded := fold (\<lambda>i. AList.update (it_variant i) (drawn tbl i)) items (loaded w),
       breakdowns := bs,
       batch_totalCostCents := batch_totalCostCents w + (\<Sum>i\<leftarrow>items. valuation (fifo_layers tbl (it_variant i)) - valuation (drawn tbl i)),
       layersToSave := layersToSave w @ concat (map (\<lambda>i. map lid (drawn tbl i)) items)\<rparr>)
    else \<exists>e w'. op_each (issue_one FIFO) items w = (Inl e, w')"
  using assms(2-)
proof (induction items arbitrary: w)
  case Nil
  show ?case by (auto simp: oper_simps intro!: exI [of _ "breakdowns w"])
next
  case (Cons i items)
  from Cons.prems have "0 \<le> it_quantity i" "lookup_or [] (loaded w) (it_variant i) = fifo_layers tbl (it_variant i)" by auto
  note step = issue_one_step [OF tbl this]
  show ?case
  proof (cases "coverable tbl i")
    case True
    with step obtain bs where step: "issue_one FIFO i w = (Inr (), w\<lparr>loaded := AList.update (it_variant i) (drawn tbl i) (loaded w),
       breakdowns := bs,
       batch_totalCostCents := batch_totalCostCents w + (valuation (fifo_layers tbl (it_variant i)) - valuation (drawn tbl i)),
       layersToSave := layersToSave w @ map lid (drawn tbl i)\<rparr>)" (is "_ = (_, ?w)") by auto
    have "\<forall>j\<in>set items. lookup_or [] (loaded ?w) (it_variant j) = fifo_layers tbl (it_variant j)"
      using Cons.prems by (auto simp: image_iff)
    from Cons.IH [OF _ _ this] Cons.prems True step show ?thesis by (auto simp: oper_simps add.assoc split: if_splits)
  next
    case False
    with step show ?thesis by (auto simp: oper_simps)
  qed
qed

section \<open>What is saved\<close>

definition loaded_ok :: "layer_table \<Rightarrow> (ident, cost_layer list) js_map \<Rightarrow> bool" where
  "loaded_ok tbl m \<longleftrightarrow> distinct (map fst m) \<and> (\<forall>(v, ls)\<in>set m. list_all2 same_layer (fifo_layers tbl v) ls)"

lemma loaded_ok_update:
  assumes "loaded_ok tbl m" and "list_all2 same_layer (fifo_layers tbl v) ls"
  shows "loaded_ok tbl (AList.update v ls m)"
proof -
  have "set (AList.update v ls m) \<subseteq> insert (v, ls) (set m)" by (induction m) auto
  with assms show ?thesis by (auto simp: loaded_ok_def AList.distinct_update)
qed

lemma loaded_ok_drawn:
  assumes "table_ok tbl" and "\<forall>i\<in>set items. 0 \<le> it_quantity i" and "loaded_ok tbl m"
  shows "loaded_ok tbl (fold (\<lambda>i. AList.update (it_variant i) (drawn tbl i)) items m)"
  using assms(2,3) by (induction items arbitrary: m) (auto intro: loaded_ok_update drawn_facts(2) [OF assms(1)])

lemma update_lookup:
  "distinct (map it_variant items) \<Longrightarrow> i \<in> set items \<Longrightarrow>
    map_of (fold (\<lambda>i. AList.update (it_variant i) (drawn tbl i)) items m) (it_variant i) = Some (drawn tbl i)"
proof (induction items arbitrary: m)
  case (Cons j items)
  have other: "map_of (fold (\<lambda>i. AList.update (it_variant i) (drawn tbl i)) items m) v = map_of m v"
    if "v \<notin> it_variant ` set items" for v m
    using that by (induction items arbitrary: m) auto
  from Cons show ?case by (cases "i = j") (auto simp: other)
qed simp

lemma find_loaded:
  assumes tbl: "table_ok tbl" and ok: "loaded_ok tbl m" and mem: "map_of m v = Some ls" "l \<in> set ls"
  shows "find (\<lambda>c. lid c = lid l) (concat (map snd m)) = Some l"
proof -
  let ?all = "concat (map snd m)"
  have origin: "\<exists>k\<in>set tbl. lid k = lid c \<and> lvariant k = u" if "(u, cs) \<in> set m" "c \<in> set cs" for u cs c
  proof -
    from ok that(1) have "list_all2 same_layer (fifo_layers tbl u) cs" by (auto simp: loaded_ok_def)
    with that(2) obtain k where "k \<in> set (fifo_layers tbl u)" "same_layer k c"
      by (metis list_all2_conv_all_nth in_set_conv_nth)
    then show ?thesis by (intro bexI [of _ k]) (auto simp: pg_getActiveLayers_def same_layerD(1))
  qed
  have unique: "c = l" if c: "c \<in> set ?all" "lid c = lid l" for c
  proof -
    from c(1) obtain u cs where u: "(u, cs) \<in> set m" "c \<in> set cs" by auto
    from origin [OF u] origin [OF map_of_SomeD [OF mem(1)] mem(2)] c(2) obtain k k' where
      "k \<in> set tbl" "k' \<in> set tbl" "lid k = lid k'" "lvariant k = u" "lvariant k' = v" by auto
    with tbl have "u = v" by (metis distinct_map inj_onD table_ok_def)
    with u(1) mem(1) ok have cs: "cs = ls" by (simp add: loaded_ok_def)
    have "map lid ls = map lid (fifo_layers tbl v)" using ok map_of_SomeD [OF mem(1)] same_ids by (auto simp: loaded_ok_def)
    then have "distinct (map lid ls)" using fifo_ids [OF tbl] by metis
    with u(2) cs mem(2) c(2) show ?thesis by (auto simp: distinct_map inj_on_def)
  qed
  have in_all: "l \<in> set ?all" using map_of_SomeD [OF mem(1)] mem(2) by force
  then obtain c where found: "find (\<lambda>c. lid c = lid l) ?all = Some c"
    by (cases "find (\<lambda>c. lid c = lid l) ?all") (auto simp: find_None_iff)
  from find_SomeD [OF found] unique found show ?thesis by auto
qed

lemma objects_drawn:
  assumes tbl: "table_ok tbl" and "distinct (map it_variant items)" and "\<forall>i\<in>set items. 0 \<le> it_quantity i"
    and ok: "loaded_ok tbl m"
    and w: "loaded w = fold (\<lambda>i. AList.update (it_variant i) (drawn tbl i)) items m"
      "layersToSave w = concat (map (\<lambda>i. map lid (drawn tbl i)) items)"
  shows "objects_to_save w = concat (map (drawn tbl) items)"
proof -
  have ok': "loaded_ok tbl (loaded w)" unfolding w(1) by (rule loaded_ok_drawn [OF tbl assms(3) ok])
  have found: "find (\<lambda>l. lid l = lid c) (concat (map snd (loaded w))) = Some c" if "i \<in> set items" "c \<in> set (drawn tbl i)" for i c
    using find_loaded [OF tbl ok' _ that(2)] update_lookup [OF assms(2) that(1)] unfolding w(1) by blast
  have "List.map_filter (\<lambda>k. find (\<lambda>l. lid l = k) (concat (map snd (loaded w)))) (map lid cs) = cs"
    if "\<forall>c\<in>set cs. find (\<lambda>l. lid l = lid c) (concat (map snd (loaded w))) = Some c" for cs
    using that by (induction cs) (auto simp: List.map_filter_def)
  moreover have "layersToSave w = map lid (concat (map (drawn tbl) items))" unfolding w(2) by (induction items) simp_all
  ultimately show ?thesis unfolding objects_to_save_def using found by auto
qed

section \<open>The table after the save\<close>

lemma upserts_one:
  assumes tbl: "table_ok tbl" and q: "0 \<le> it_quantity i"
  defines "t \<equiv> fold pg_upsert (drawn tbl i) tbl"
  shows "table_ok t" and "map lid t = map lid tbl"
    and "layer_sum Q f t = layer_sum Q f tbl
      - (if Q (it_variant i) then (\<Sum>l\<leftarrow>fifo_layers tbl (it_variant i). f l) - (\<Sum>l\<leftarrow>drawn tbl i. f l) else 0)"
    and "u \<noteq> it_variant i \<Longrightarrow> fifo_layers t u = fifo_layers tbl u"
proof -
  note facts = drawn_facts [OF tbl q]
  have sub: "set (fifo_layers tbl (it_variant i)) \<subseteq> set tbl" "\<forall>l\<in>set (fifo_layers tbl (it_variant i)). lvariant l = it_variant i"
    by (auto simp: pg_getActiveLayers_def)
  note up = pg_upserts [OF tbl sub(1) fifo_ids [OF tbl] facts(2,1) sub(2), folded t_def]
  show "table_ok t" "map lid t = map lid tbl" using up [of remainingQuantity "\<lambda>_. True"] by blast+
  show "layer_sum Q f t = layer_sum Q f tbl
      - (if Q (it_variant i) then (\<Sum>l\<leftarrow>fifo_layers tbl (it_variant i). f l) - (\<Sum>l\<leftarrow>drawn tbl i. f l) else 0)"
    using up [of f Q] by blast
  show "u \<noteq> it_variant i \<Longrightarrow> fifo_layers t u = fifo_layers tbl u"
    using up [of remainingQuantity "\<lambda>_. True"] by (simp add: pg_getActiveLayers_def)
qed

lemma upserts_drawn:
  assumes "table_ok tbl" and "distinct (map it_variant items)" and "\<forall>i\<in>set items. 0 \<le> it_quantity i"
  shows "table_ok (fold pg_upsert (concat (map (drawn tbl) items)) tbl)
    \<and> map lid (fold pg_upsert (concat (map (drawn tbl) items)) tbl) = map lid tbl
    \<and> layer_sum Q f (fold pg_upsert (concat (map (drawn tbl) items)) tbl) = layer_sum Q f tbl
      - (\<Sum>i\<leftarrow>items. if Q (it_variant i) then (\<Sum>l\<leftarrow>fifo_layers tbl (it_variant i). f l) - (\<Sum>l\<leftarrow>drawn tbl i. f l) else 0)"
  using assms
proof (induction items arbitrary: tbl)
  case (Cons i items)
  let ?t = "fold pg_upsert (drawn tbl i) tbl"
  have q: "0 \<le> it_quantity i" using Cons.prems by simp
  note one = upserts_one [OF Cons.prems(1) q]
  have same: "fifo_layers ?t (it_variant j) = fifo_layers tbl (it_variant j)" if "j \<in> set items" for j
    using Cons.prems(2) that by (intro one(4)) (auto simp: image_iff)
  then have same': "drawn ?t j = drawn tbl j" if "j \<in> set items" for j using that by (simp add: drawn_def)
  have later: "concat (map (drawn ?t) items) = concat (map (drawn tbl) items)" using same' by (simp cong: map_cong)
  have sums: "(\<Sum>j\<leftarrow>items. if Q (it_variant j) then (\<Sum>l\<leftarrow>fifo_layers ?t (it_variant j). f l) - (\<Sum>l\<leftarrow>drawn ?t j. f l) else 0)
      = (\<Sum>j\<leftarrow>items. if Q (it_variant j) then (\<Sum>l\<leftarrow>fifo_layers tbl (it_variant j). f l) - (\<Sum>l\<leftarrow>drawn tbl j. f l) else 0)"
    by (intro arg_cong [of _ _ sum_list] map_cong refl) (simp add: same same')
  have "distinct (map it_variant items)" "\<forall>i\<in>set items. 0 \<le> it_quantity i" using Cons.prems by auto
  from Cons.IH [OF one(1) this, unfolded later sums] one(2) one(3) [of f Q] show ?case by auto
qed simp

lemma valuation_active: "table_ok tbl \<Longrightarrow> valuation (fifo_layers tbl v) = layer_sum (\<lambda>w. w = v) remainingCostCents tbl"
proof -
  have "valuation (fifo_layers tbl v) = (\<Sum>l\<leftarrow>filter (\<lambda>l. lvariant l = v \<and> is_active l) tbl. remainingCostCents l)"
    unfolding valuation_def pg_getActiveLayers_def by (rule sum_list_mset_cong) simp
  moreover have "(\<Sum>l\<leftarrow>filter (\<lambda>l. lvariant l = v \<and> is_active l) tbl. remainingCostCents l) = layer_sum (\<lambda>w. w = v) remainingCostCents tbl"
    if "layers_ok tbl" using that
    by (induction tbl) (auto simp: is_active_def remainingCostCents_def remainingQuantity_def layer_ok_def)
  ultimately show "table_ok tbl \<Longrightarrow> ?thesis" by (simp add: table_ok_def)
qed

section \<open>The batch\<close>

lemma fold_update_map:
  "distinct (map fst m) \<Longrightarrow> map_of (fold (\<lambda>(v, ls) l. AList.update v ls l) m l) = map_of l ++ map_of m"
proof (induction m arbitrary: l)
  case (Cons x m)
  obtain v ls where x: "x = (v, ls)" by (cases x)
  have "v \<notin> dom (map_of m)" using Cons.prems by (simp add: x dom_map_of_conv_image_fst)
  with Cons show ?case by (simp add: x map_add_upd_left flip: fun_upd_def)
qed simp

lemma fold_update_distinct:
  "distinct (map fst l) \<Longrightarrow> distinct (map fst (fold (\<lambda>(v, ls) l. AList.update v ls l) m l))"
  by (induction m arbitrary: l) (auto simp: AList.distinct_update)

lemma batch_map:
  assumes "vs \<noteq> []"
  shows "distinct (map fst (pg_getActiveLayersBatch tbl vs ord))"
    and "map_of (pg_getActiveLayersBatch tbl vs ord) v = (if v \<in> set vs then Some (pg_getActiveLayers tbl v ord) else None)"
proof -
  have init: "distinct (map fst (fold (\<lambda>v m. AList.update v [] m) vs m))" if "distinct (map fst m)" for m :: "(ident, cost_layer list) js_map"
    using that by (induction vs arbitrary: m) (auto simp: AList.distinct_update)
  have "distinct (map fst (fold push_row rows m))" if "distinct (map fst m)" for rows m
    using that by (induction rows arbitrary: m) (auto simp: push_row_def AList.distinct_update split: option.splits)
  with init [of "[]"] assms show "distinct (map fst (pg_getActiveLayersBatch tbl vs ord))" by (simp add: pg_getActiveLayersBatch_def)
  show "map_of (pg_getActiveLayersBatch tbl vs ord) v = (if v \<in> set vs then Some (pg_getActiveLayers tbl v ord) else None)"
    using pg_batch_lookup [of v vs tbl ord] assms
    by (auto simp: pg_getActiveLayersBatch_def fold_push_rows fold_init_rows lookup_or_def)
qed

lemma one_group: "items \<noteq> [] \<Longrightarrow> group_by (method_for [] FIFO) items = [(FIFO, items)]"
proof -
  have "fold (\<lambda>x g. AList.update (method_for [] FIFO x) (lookup_or [] g (method_for [] FIFO x) @ [x]) g) ys [(FIFO, xs)]
      = [(FIFO, xs @ ys)]" for xs ys
    by (induction ys arbitrary: xs) (simp_all add: method_for_def lookup_or_def)
  then show "items \<noteq> [] \<Longrightarrow> ?thesis" by (cases items) (simp_all add: group_by_def method_for_def lookup_or_def)
qed

lemma drawn_ids_distinct:
  assumes "table_ok tbl" and "distinct (map it_variant items)" and "\<forall>i\<in>set items. 0 \<le> it_quantity i"
  shows "distinct (map lid (concat (map (drawn tbl) items)))"
  using assms(2,3)
proof (induction items)
  case (Cons i items)
  have ids: "map lid (drawn tbl j) = map lid (fifo_layers tbl (it_variant j))" if "0 \<le> it_quantity j" for j
    by (rule same_ids [OF drawn_facts(2) [OF assms(1) that]])
  have apart: False if "j \<in> set items" "l \<in> set (drawn tbl i)" "k \<in> set (drawn tbl j)" "lid l = lid k" for j l k
  proof -
    have "lid l \<in> lid ` set (fifo_layers tbl (it_variant i))" "lid k \<in> lid ` set (fifo_layers tbl (it_variant j))"
      using ids [of i] ids [of j] that Cons.prems by (metis image_eqI list.set_map list.set_intros)+
    with that(4) obtain a b where "a \<in> set tbl" "b \<in> set tbl" "lid a = lid b" "lvariant a = it_variant i" "lvariant b = it_variant j"
      by (auto simp: pg_getActiveLayers_def)
    with assms(1) have "it_variant i = it_variant j" by (metis distinct_map inj_onD table_ok_def)
    with Cons.prems(1) that(1) show False by force
  qed
  have "distinct (map lid (drawn tbl i))" using ids [of i] fifo_ids [OF assms(1)] Cons.prems by simp
  with Cons apart show ?case by fastforce
qed simp

lemma loaded_batch:
  fixes tbl :: layer_table
  assumes "items \<noteq> []"
  defines "m \<equiv> fold (\<lambda>(v, ls) l. AList.update v ls l) (pg_getActiveLayersBatch tbl (map it_variant items) ReceivedAsc) []"
  shows "loaded_ok tbl m" and "\<forall>i\<in>set items. lookup_or [] m (it_variant i) = fifo_layers tbl (it_variant i)"
proof -
  have ne: "map it_variant items \<noteq> []" using assms(1) by simp
  have m: "map_of m v = (if v \<in> it_variant ` set items then Some (fifo_layers tbl v) else None)" for v
    unfolding m_def using fold_update_map [OF batch_map(1) [OF ne]] batch_map(2) [OF ne] by simp
  have d: "distinct (map fst m)" unfolding m_def by (rule fold_update_distinct) simp
  have "list_all2 same_layer (fifo_layers tbl v) ls" if "(v, ls) \<in> set m" for v ls
    using map_of_is_SomeI [OF d that] m [of v] by (auto simp: list_all2_refl split: if_splits)
  with d show "loaded_ok tbl m" by (auto simp: loaded_ok_def)
  show "\<forall>i\<in>set items. lookup_or [] m (it_variant i) = fifo_layers tbl (it_variant i)" using m by (simp add: lookup_or_def)
qed

lemma sum_demand: "(\<Sum>i\<leftarrow>items. if it_variant i = v then f i else 0) = demand_of items v"
  if "\<forall>i\<in>set items. f i = it_quantity i"
  using that by (induction items) auto

lemma batch_issue:
  assumes tbl: "table_ok tbl" and d: "distinct (map it_variant items)" and q: "\<forall>i\<in>set items. 0 \<le> it_quantity i"
  shows "if \<forall>i\<in>set items. it_quantity i \<le> variant_units tbl (it_variant i)
    then \<exists>bs cost tbl'. consumeFifoLayersBatch pg_layers items tbl = (Inr (bs, cost), tbl') \<and> table_ok tbl' \<and> map lid tbl' = map lid tbl
      \<and> (\<forall>v. variant_units tbl' v = variant_units tbl v - demand_of items v)
      \<and> valuation tbl' = valuation tbl - cost
      \<and> cost = (\<Sum>i\<leftarrow>items. valuation (fifo_layers tbl (it_variant i)) - valuation (drawn tbl i))
    else \<exists>e. consumeFifoLayersBatch pg_layers items tbl = (Inl e, tbl)"
proof (cases "items = []")
  case True
  have "objects_to_save \<lparr>loaded = [], breakdowns = [], batch_totalCostCents = 0, layersToSave = []\<rparr> = []"
    by (simp add: objects_to_save_def List.map_filter_def)
  with True tbl show ?thesis
    by (simp add: consumeFifoLayersBatch_def consumeLayersBatch_def group_by_def oper_simps pg_layers_def pg_saveBatch_def)
next
  case False
  define w0 :: issue_batch where "w0 = \<lparr>loaded = [], breakdowns = [], batch_totalCostCents = 0, layersToSave = []\<rparr>"
  define m where "m = fold (\<lambda>(v, ls) l. AList.update v ls l) (pg_getActiveLayersBatch tbl (map it_variant items) ReceivedAsc) []"
  note m = loaded_batch [OF False, of tbl, folded m_def]
  have group: "op_each (issue_group pg_layers tbl) (group_by (method_for [] FIFO) items) w0
      = op_each (issue_one FIFO) items (w0\<lparr>loaded := m\<rparr>)"
    by (simp add: one_group [OF False] issue_group_def oper_simps m_def w0_def order_of_def pg_layers_def split: sum.split prod.split)
  note each = issue_each [OF tbl d q, of "w0\<lparr>loaded := m\<rparr>", simplified, OF m(2)]
  show ?thesis
  proof (cases "\<forall>i\<in>set items. coverable tbl i")
    case True
    define cost where "cost = (\<Sum>i\<leftarrow>items. valuation (fifo_layers tbl (it_variant i)) - valuation (drawn tbl i))"
    from True each obtain w bs where run: "op_each (issue_one FIFO) items (w0\<lparr>loaded := m\<rparr>) = (Inr (), w)"
      and w: "loaded w = fold (\<lambda>i. AList.update (it_variant i) (drawn tbl i)) items m" "batch_totalCostCents w = cost"
        "layersToSave w = concat (map (\<lambda>i. map lid (drawn tbl i)) items)"
      by (auto simp: w0_def cost_def)
    define tbl' where "tbl' = fold pg_upsert (concat (map (drawn tbl) items)) tbl"
    have saved: "pg_saveBatch (objects_to_save w) tbl = (Inr (), tbl')"
      using drawn_ids_distinct [OF tbl d q]
      by (cases "concat (map (drawn tbl) items) = []")
         (simp_all add: objects_drawn [OF tbl d q m(1) w(1,3)] pg_saveBatch_def oper_simps tbl'_def del: concat_eq_Nil_conv)
    have run': "consumeFifoLayersBatch pg_layers items tbl = (Inr (breakdowns w, cost), tbl')"
      using group run saved w(2) by (simp add: consumeFifoLayersBatch_def consumeLayersBatch_def oper_simps w0_def pg_layers_def)
    note up = upserts_drawn [OF tbl d q, folded tbl'_def]
    have taken: "\<forall>i\<in>set items. (\<Sum>l\<leftarrow>fifo_layers tbl (it_variant i). remainingQuantity l) - (\<Sum>l\<leftarrow>drawn tbl i. remainingQuantity l)
        = it_quantity i"
      using drawn_facts(3) [OF tbl] q True pg_units [OF tbl] by (simp add: units_def)
    have "variant_units tbl' v = variant_units tbl v - demand_of items v" for v
      using up [of remainingQuantity "\<lambda>w. w = v"] sum_demand [OF taken] by (simp add: units_def)
    moreover have "valuation tbl' = valuation tbl - cost"
      using up [of remainingCostCents "\<lambda>_. True"] by (simp add: valuation_def cost_def)
    moreover have "table_ok tbl'" "map lid tbl' = map lid tbl" using up [of remainingCostCents "\<lambda>_. True"] by blast+
    ultimately show ?thesis using True run' cost_def by (auto simp: coverable_def)
  next
    case False
    with each obtain e w where "op_each (issue_one FIFO) items (w0\<lparr>loaded := m\<rparr>) = (Inl e, w)" by auto
    with group have "consumeFifoLayersBatch pg_layers items tbl = (Inl e, tbl)"
      by (simp add: consumeFifoLayersBatch_def consumeLayersBatch_def oper_simps w0_def)
    with False show ?thesis by (auto simp: coverable_def)
  qed
qed



section \<open>A single issue\<close>

lemma fifo_issue:
  fixes v :: ident and q :: number
  assumes tbl: "table_ok tbl" and q: "0 \<le> q"
  defines "i \<equiv> \<lparr>it_variant = v, it_quantity = q\<rparr>"
  shows "if q \<le> variant_units tbl v
    then \<exists>b. consumeFifoLayers pg_layers v q tbl = (Inr b, fold pg_upsert (drawn tbl i) tbl)
      \<and> totalCostCents b = valuation (fifo_layers tbl v) - valuation (drawn tbl i)
    else \<exists>e. consumeFifoLayers pg_layers v q tbl = (Inl e, tbl)"
proof -
  note facts = drawn_facts [OF tbl, of i, unfolded i_def issue_item.select_convs, OF q, folded i_def]
  have cov: "coverable tbl i \<longleftrightarrow> q \<le> variant_units tbl v" by (simp add: coverable_def i_def)
  have fifo: "fifo_order (fifo_layers tbl v) = fifo_layers tbl v" by (simp add: pg_getActiveLayers_def ordered_rows_fixed)
  have run: "consumeFifoLayers pg_layers v q tbl = (case draw_down q (fifo_layers tbl v) of
      (Inl e, ls) \<Rightarrow> (Inl e, tbl) | (Inr b, ls) \<Rightarrow> op_seq (if 0 < length ls then pg_saveBatch ls else op_return ()) (op_return b) tbl)"
    by (simp add: consumeFifoLayers_def svc_consumeLayers_def consume_with_def oper_simps order_of_def fifo_consumeLayers_def fifo
        pg_layers_def split: prod.split sum.split)
  show ?thesis
  proof (cases "coverable tbl i")
    case True
    with facts(4) obtain b where b: "draw_down q (fifo_layers tbl v) = (Inr b, drawn tbl i)"
      "totalCostCents b = valuation (fifo_layers tbl v) - valuation (drawn tbl i)" by blast
    have "distinct (map lid (drawn tbl i))" using same_ids [OF facts(2)] fifo_ids [OF tbl] by metis
    then have "consumeFifoLayers pg_layers v q tbl = (Inr b, fold pg_upsert (drawn tbl i) tbl)"
      by (simp add: run b(1) oper_simps pg_saveBatch_def)
    with True b(2) cov show ?thesis by auto
  next
    case False
    with facts(5) obtain e where "draw_down q (fifo_layers tbl v) = (Inl e, drawn tbl i)" by blast
    with False cov run show ?thesis by simp
  qed
qed

lemma fifo_issue_nothing:
  assumes "q \<le> 0" and "consumeFifoLayers pg_layers v q tbl = (Inr b, tbl')"
  shows "totalCostCents b = 0"
  using assms by (auto simp: consumeFifoLayers_def svc_consumeLayers_def consume_with_def oper_simps order_of_def
      fifo_consumeLayers_def draw_down_def Let_def split: prod.splits sum.splits if_splits)

end
