(* ===== verification/Kitting.thy ===== *)
theory Kitting
  imports BatchIssue StockPosting Accounting
begin

text \<open>
  Kits in stock: the use cases of src/src/application/useCases/ManageKits.ts over IKitRepository.ts and its provider
  src/src/infrastructure/persistence/PostgresKitRepository.ts. Assembling and disassembling kits moves the ledger, the
  cost layers and the journal, one after the other. \<open>uuid n\<close> is the n-th random identifier of a call, \<open>show_number\<close>
  is how a number is printed, \<open>digest\<close> the hash behind \<open>toUuid\<close>.
\<close>

section \<open>The tables of kits\<close>

record 's kit_repo =
  saveKit :: "kit \<Rightarrow> ('s, unit) oper"
  findKit :: "'s \<Rightarrow> ident \<Rightarrow> kit option result"
  findKits :: "'s \<Rightarrow> ident list \<Rightarrow> kit list result"
  findKitBySku :: "'s \<Rightarrow> string \<Rightarrow> kit option result"
  findKitsBySku :: "'s \<Rightarrow> string list \<Rightarrow> kit list result"
  deleteKit :: "ident \<Rightarrow> ('s, unit) oper"

definition add_components :: "(string \<times> number) list \<Rightarrow> (kit, unit) oper" where
  "add_components = op_each (\<lambda>(v, q). op_bind (op_lift (ProductVariantId v)) (\<lambda>v'. addComponent v' q))"

definition built_kit :: "string \<Rightarrow> string \<Rightarrow> string \<Rightarrow> (string \<times> number) list \<Rightarrow> kit result" where
  "built_kit i sku name comps = result_bind (KitId i) (\<lambda>i'. result_bind (Sku sku) (\<lambda>s.
     case add_components comps (Kit i' s name) of (Inl e, k) \<Rightarrow> Inl e | (Inr _, k) \<Rightarrow> Inr k))"

record kit_row =
  kr_id :: string
  kr_sku :: string
  kr_name :: string

record component_row =
  cr_kit :: string
  cr_variant :: string
  cr_quantity :: number

record kit_db =
  kit_rows :: "kit_row list"
  component_rows :: "component_row list"

definition kit_of_row :: "kit_db \<Rightarrow> kit_row \<Rightarrow> kit result" where
  "kit_of_row s r = built_kit (kr_id r) (kr_sku r) (kr_name r)
     (map (\<lambda>c. (cr_variant c, cr_quantity c)) (filter (\<lambda>c. cr_kit c = kr_id r) (component_rows s)))"

text \<open>The upsert, the delete and the insert of a save are one transaction.\<close>

definition pk_save :: "(string \<Rightarrow> string) \<Rightarrow> kit \<Rightarrow> (kit_db, unit) oper" where
  "pk_save digest k = op_get (\<lambda>s.
     let dbId = toUuid digest (kit_id k);
         row = \<lparr>kr_id = dbId, kr_sku = kit_sku k, kr_name = kit_name k\<rparr>;
         comps = map (\<lambda>(v, q). \<lparr>cr_kit = dbId, cr_variant = toUuid digest v, cr_quantity = q\<rparr>) (kit_components k) in
     op_seq (op_reject (list_ex (\<lambda>r. kr_id r \<noteq> dbId \<and> kr_sku r = kit_sku k) (kit_rows s))
       (Error ''Unique constraint failed on the fields: (`sku`)'' []))
     (op_seq (op_reject (\<not> list_all (\<lambda>c. fits_int (cr_quantity c)) comps) (Error ''Invalid value for argument quantity'' []))
     (op_seq (op_reject (\<not> distinct (map cr_variant comps)) (Error ''Unique constraint failed on the fields: (`kit_id`,`variant_id`)'' []))
     (op_modify (\<lambda>s. s\<lparr>kit_rows := (if list_ex (\<lambda>r. kr_id r = dbId) (kit_rows s)
           then map (\<lambda>r. if kr_id r = dbId then row else r) (kit_rows s) else kit_rows s @ [row]),
        component_rows := filter (\<lambda>c. cr_kit c \<noteq> dbId) (component_rows s) @ comps\<rparr>)))))"

definition optional_kit :: "kit_db \<Rightarrow> kit_row option \<Rightarrow> kit option result" where
  "optional_kit s found = (case found of None \<Rightarrow> Inr None | Some r \<Rightarrow> result_bind (kit_of_row s r) (\<lambda>k. Inr (Some k)))"

definition pk_findById :: "(string \<Rightarrow> string) \<Rightarrow> kit_db \<Rightarrow> ident \<Rightarrow> kit option result" where
  "pk_findById digest s i = optional_kit s (find (\<lambda>r. kr_id r = toUuid digest i) (kit_rows s))"

definition pk_findByIds :: "(string \<Rightarrow> string) \<Rightarrow> kit_db \<Rightarrow> ident list \<Rightarrow> kit list result" where
  "pk_findByIds digest s is = (if length is = 0 then Inr []
     else result_map (kit_of_row s) (filter (\<lambda>r. kr_id r \<in> set (map (toUuid digest) is)) (kit_rows s)))"

definition pk_findBySku :: "kit_db \<Rightarrow> string \<Rightarrow> kit option result" where
  "pk_findBySku s sku = optional_kit s (find (\<lambda>r. kr_sku r = sku) (kit_rows s))"

definition pk_findBySkus :: "kit_db \<Rightarrow> string list \<Rightarrow> kit list result" where
  "pk_findBySkus s skus = (if length skus = 0 then Inr []
     else result_map (kit_of_row s) (filter (\<lambda>r. kr_sku r \<in> set skus) (kit_rows s)))"

definition pk_delete :: "(string \<Rightarrow> string) \<Rightarrow> ident \<Rightarrow> (kit_db, unit) oper" where
  "pk_delete digest i = op_get (\<lambda>s. let dbId = toUuid digest i in
     op_seq (op_reject (\<not> list_ex (\<lambda>r. kr_id r = dbId) (kit_rows s)) (Error ''Record to delete does not exist.'' []))
     (op_modify (\<lambda>s. s\<lparr>kit_rows := filter (\<lambda>r. kr_id r \<noteq> dbId) (kit_rows s),
        component_rows := filter (\<lambda>c. cr_kit c \<noteq> dbId) (component_rows s)\<rparr>)))"

definition pg_kits :: "(string \<Rightarrow> string) \<Rightarrow> kit_db kit_repo" where
  "pg_kits digest = \<lparr>saveKit = pk_save digest, findKit = pk_findById digest, findKits = pk_findByIds digest,
     findKitBySku = pk_findBySku, findKitsBySku = pk_findBySkus, deleteKit = pk_delete digest\<rparr>"

section \<open>Kits as definitions\<close>

record sell_kit_input =
  sk_tenant :: string
  sk_location :: string
  sk_kit :: string
  sk_sku :: string
  sk_name :: string
  sk_quantity :: number
  sk_reference :: string
  sk_actor :: string
  sk_components :: "(string \<times> number) list"

definition SellKitUseCase ::
    "(nat \<Rightarrow> string) \<Rightarrow> time \<Rightarrow> 's ledger_repo \<Rightarrow> sell_kit_input \<Rightarrow> ('s shop, bool) oper" where
  "SellKitUseCase uuid now repo inp =
     op_bind (op_lift (built_kit (sk_kit inp) (sk_sku inp) (sk_name inp) (sk_components inp))) (\<lambda>k.
     op_bind (op_lift (TenantId (sk_tenant inp))) (\<lambda>tenant.
     op_bind (op_lift (LocationId (sk_location inp))) (\<lambda>loc.
     op_bind (op_lift (ActorId (sk_actor inp))) (\<lambda>actor.
     op_seq (decrementForKitSale uuid now repo tenant loc k (sk_quantity inp) (sk_reference inp) actor)
     (op_return True)))))"

definition CreateKitUseCase ::
    "'s kit_repo \<Rightarrow> string \<Rightarrow> string \<Rightarrow> string \<Rightarrow> (string \<times> number) list \<Rightarrow> ('s, bool) oper" where
  "CreateKitUseCase repo i sku name comps = op_bind (op_lift (built_kit i sku name comps)) (\<lambda>k.
     op_seq (saveKit repo k) (op_return True))"

text \<open>Loading a kit, changing it and saving it.\<close>

definition change_kit :: "'s kit_repo \<Rightarrow> string \<Rightarrow> (kit, unit) oper \<Rightarrow> ('s, bool) oper" where
  "change_kit repo i f = op_bind (op_lift (KitId i)) (\<lambda>i'.
     op_bind (op_get (\<lambda>s. op_lift (findKit repo s i'))) (\<lambda>found. case found of
       None \<Rightarrow> op_throw (Error ''Kit with ID '{}' not found.'' [S i])
     | Some k \<Rightarrow> (case f k of
         (Inl e, k') \<Rightarrow> op_throw e
       | (Inr _, k') \<Rightarrow> op_seq (saveKit repo k') (op_return True))))"

definition AddKitComponentUseCase :: "'s kit_repo \<Rightarrow> string \<Rightarrow> string \<Rightarrow> number \<Rightarrow> ('s, bool) oper" where
  "AddKitComponentUseCase repo i v q =
     op_seq (op_reject (q \<le> 0) (InvalidOperationError ''Quantity must be greater than zero.'' []))
     (change_kit repo i (op_bind (op_lift (ProductVariantId v)) (\<lambda>v'. addComponent v' q)))"

definition RemoveKitComponentUseCase :: "'s kit_repo \<Rightarrow> string \<Rightarrow> string \<Rightarrow> ('s, bool) oper" where
  "RemoveKitComponentUseCase repo i v =
     op_seq (op_reject (i = []) (Error ''KitId cannot be empty.'' []))
     (op_seq (op_reject (v = []) (Error ''ProductVariantId cannot be empty.'' []))
     (change_kit repo i (op_bind (op_lift (ProductVariantId v)) removeComponent)))"

section \<open>Assembling\<close>

record ('k, 'l, 'c, 'j) kit_world =
  kw_kits :: 'k
  kw_ledger :: 'l
  kw_layers :: 'c
  kw_books :: 'j

abbreviation on_kit_ledger :: "('l, 'a) oper \<Rightarrow> (('k, 'l, 'c, 'j) kit_world, 'a) oper" where
  "on_kit_ledger m \<equiv> op_zoom kw_ledger (\<lambda>s w. w\<lparr>kw_ledger := s\<rparr>) m"

abbreviation on_kit_layers :: "('c, 'a) oper \<Rightarrow> (('k, 'l, 'c, 'j) kit_world, 'a) oper" where
  "on_kit_layers m \<equiv> op_zoom kw_layers (\<lambda>s w. w\<lparr>kw_layers := s\<rparr>) m"

abbreviation on_kit_books :: "('j, 'a) oper \<Rightarrow> (('k, 'l, 'c, 'j) kit_world, 'a) oper" where
  "on_kit_books m \<equiv> op_zoom kw_books (\<lambda>s w. w\<lparr>kw_books := s\<rparr>) m"

record kit_order =
  ko_tenant :: string
  ko_location :: string
  ko_kitSku :: string
  ko_quantity :: number
  ko_actor :: string
  ko_reference :: string

record kit_context =
  kc_tenant :: ident
  kc_location :: ident
  kc_actor :: ident
  kc_kit :: kit
  kc_variant :: product_variant

definition resolve_kit :: "'k kit_repo \<Rightarrow> product_repo \<Rightarrow> 'k \<Rightarrow> kit_order \<Rightarrow> kit_context result" where
  "resolve_kit krepo prepo s inp =
     result_bind (TenantId (ko_tenant inp)) (\<lambda>tenant. result_bind (LocationId (ko_location inp)) (\<lambda>loc.
     result_bind (ActorId (ko_actor inp)) (\<lambda>actor. result_bind (Sku (ko_kitSku inp)) (\<lambda>sku.
     result_bind (findKitBySku krepo s sku) (\<lambda>found. case found of
       None \<Rightarrow> Inl (Error ''Kit with SKU {} not found.'' [S (ko_kitSku inp)])
     | Some k \<Rightarrow> (case find_by_sku prepo sku of
         None \<Rightarrow> Inl (Error ''Product variant for Kit SKU {} not found.'' [S (ko_kitSku inp)])
       | Some p \<Rightarrow> (case findVariantBySku p sku of
           None \<Rightarrow> Inl (Error ''Variant for Kit SKU {} not found.'' [S (ko_kitSku inp)])
         | Some v \<Rightarrow> Inr \<lparr>kc_tenant = tenant, kc_location = loc, kc_actor = actor, kc_kit = k, kc_variant = v\<rparr>)))))))"

definition kit_needs :: "kit_context \<Rightarrow> kit_order \<Rightarrow> (ident \<times> number) list" where
  "kit_needs ctx inp = map (\<lambda>(v, q). (v, q * ko_quantity inp)) (kit_components (kc_kit ctx))"

definition check_components :: "(ident, number) js_map \<Rightarrow> (ident \<times> number) list \<Rightarrow> ('w, unit) oper" where
  "check_components avail = op_each (\<lambda>(v, needed). op_reject (lookup_or 0 avail v < needed)
     (Error ''Insufficient stock for component variant ID {}. Needed: {}, Available: {}''
       [S v, N needed, N (lookup_or 0 avail v)]))"

definition kit_entry ::
    "(nat \<Rightarrow> string) \<Rightarrow> time \<Rightarrow> kit_context \<Rightarrow> kit_order \<Rightarrow> reason_code \<Rightarrow> nat \<times> ident \<times> number \<Rightarrow> ledger_entry result" where
  "kit_entry uuid now ctx inp reason = (\<lambda>(n, v, q). result_bind (LedgerEntryId (uuid n)) (\<lambda>i.
     LedgerEntry i (kc_tenant ctx) (kc_location ctx) v q reason (kc_actor ctx) now (Some (ko_reference inp)) []))"

definition new_layer :: "string \<Rightarrow> time \<Rightarrow> ident \<Rightarrow> number \<Rightarrow> number \<Rightarrow> cost_layer result" where
  "new_layer uuid now v q cost = result_bind (InventoryCostLayerId uuid) (\<lambda>i. InventoryCostLayer i v q cost now None None)"

definition process_cost_layers ::
    "(nat \<Rightarrow> string) \<Rightarrow> time \<Rightarrow> 'l ledger_repo \<Rightarrow> 'c layer_repo \<Rightarrow> kit_context \<Rightarrow> kit_order
     \<Rightarrow> (('k, 'l, 'c, 'j) kit_world, number) oper" where
  "process_cost_layers uuid now lrepo crepo ctx inp =
     (let needs = kit_needs ctx inp; m = length needs; kitVariant = pv_id (kc_variant ctx) in
     op_bind (on_kit_layers (consumeFifoLayersBatch crepo (map (\<lambda>(v, q). \<lparr>it_variant = v, it_quantity = q\<rparr>) needs))) (\<lambda>(bs, total').
     op_bind (op_lift (result_map (kit_entry uuid now ctx inp KitAssembly) (enumerate 0 (map (\<lambda>(v, q). (v, - q)) needs)))) (\<lambda>es.
     op_bind (op_lift (new_layer (uuid m) now kitVariant (ko_quantity inp) (js_round (total' / ko_quantity inp)))) (\<lambda>l.
     op_seq (on_kit_layers (saveLayer crepo l))
     (op_bind (op_lift (kit_entry uuid now ctx inp KitAssembly (m + 1, kitVariant, ko_quantity inp))) (\<lambda>e.
     op_seq (on_kit_ledger (appendBatch lrepo (es @ [e]))) (op_return total')))))))"

definition kit_journal_entry ::
    "string \<Rightarrow> time \<Rightarrow> ident \<Rightarrow> string \<Rightarrow> string \<Rightarrow> (string \<times> string) \<Rightarrow> (string \<times> string) \<Rightarrow> number \<Rightarrow> journal_entry result" where
  "kit_journal_entry uuid now tenant description ref debit credit cost =
     result_bind (JournalEntryId uuid) (\<lambda>i.
       case op_seq (addLine (fromCode (fst debit)) cost Debit (snd debit)) (addLine (fromCode (fst credit)) cost Credit (snd credit))
              (JournalEntry i tenant now description Accrual (Some ref)) of
         (Inl e, je) \<Rightarrow> Inl e | (Inr _, je) \<Rightarrow> Inr je)"

definition generate_journal_entry ::
    "string \<Rightarrow> time \<Rightarrow> (number \<Rightarrow> string) \<Rightarrow> 'j journal_repo \<Rightarrow> kit_context \<Rightarrow> kit_order \<Rightarrow> number
     \<Rightarrow> (('k, 'l, 'c, 'j) kit_world, unit) oper" where
  "generate_journal_entry uuid now show_number jrepo ctx inp cost =
     op_bind (op_lift (kit_journal_entry uuid now (kc_tenant ctx)
       (''Assemble '' @ show_number (ko_quantity inp) @ '' units of Kit '' @ ko_kitSku inp) (ko_reference inp)
       (''1200'', ''Debit Kit Inventory for '' @ ko_kitSku inp @ '' assembly'')
       (''1210'', ''Credit Component Inventory for '' @ ko_kitSku inp @ '' assembly'') cost)) (\<lambda>je.
     on_kit_books (saveEntry jrepo je))"

definition AssembleKitUseCase ::
    "(nat \<Rightarrow> string) \<Rightarrow> time \<Rightarrow> (number \<Rightarrow> string) \<Rightarrow> 'k kit_repo \<Rightarrow> product_repo \<Rightarrow> 'l ledger_repo \<Rightarrow> 'c layer_repo
     \<Rightarrow> 'j journal_repo \<Rightarrow> kit_order \<Rightarrow> (('k, 'l, 'c, 'j) kit_world, bool) oper" where
  "AssembleKitUseCase uuid now show_number krepo prepo lrepo crepo jrepo inp =
     op_bind (op_get (\<lambda>w. op_lift (resolve_kit krepo prepo (kw_kits w) inp))) (\<lambda>ctx.
     op_seq (op_get (\<lambda>w. check_components
       (currentQuantities lrepo (kw_ledger w) (map fst (kit_components (kc_kit ctx))) (kc_location ctx)) (kit_needs ctx inp)))
     (op_bind (process_cost_layers uuid now lrepo crepo ctx inp) (\<lambda>cost.
     op_seq (generate_journal_entry (uuid (length (kit_needs ctx inp) + 2)) now show_number jrepo ctx inp cost)
     (op_return True))))"

section \<open>Disassembling\<close>

text \<open>The price of one unit of a component: the average of its layers, or a default where it has none.\<close>

definition component_unit_cost :: "cost_layer list \<Rightarrow> ident \<Rightarrow> number" where
  "component_unit_cost activeLayers v = (case calculateWeightedAverageCostSync activeLayers 1 v of
     Inr b \<Rightarrow> totalCostCents b
   | Inl e \<Rightarrow> if length activeLayers > 0 then unitCostCents (activeLayers ! 0) else 1000)"

definition allocated_unit_cost :: "number \<Rightarrow> number \<Rightarrow> number" where
  "allocated_unit_cost scaleFactor avg = (if scaleFactor > 0 then js_round (avg * scaleFactor) else 0)"

definition restore_component ::
    "(nat \<Rightarrow> string) \<Rightarrow> time \<Rightarrow> kit_context \<Rightarrow> kit_order \<Rightarrow> number \<Rightarrow> nat \<times> ident \<times> number \<times> number
     \<Rightarrow> (cost_layer \<times> ledger_entry) result" where
  "restore_component uuid now ctx inp scaleFactor = (\<lambda>(n, v, q, avg).
     result_bind (new_layer (uuid (2 * n + 1)) now v q (allocated_unit_cost scaleFactor avg)) (\<lambda>l.
     result_bind (kit_entry uuid now ctx inp KitDisassembly (2 * n + 2, v, q)) (\<lambda>e. Inr (l, e))))"

definition estimates :: "(ident, cost_layer list) js_map \<Rightarrow> (ident \<times> number) list \<Rightarrow> (ident \<times> number \<times> number) list" where
  "estimates active needs = map (\<lambda>(v, q). (v, q, component_unit_cost (lookup_or [] active v) v)) needs"

definition scale_factor :: "number \<Rightarrow> (ident \<times> number \<times> number) list \<Rightarrow> number" where
  "scale_factor cost parts = (let estimated = fold (\<lambda>(v, q, avg) sum. sum + q * avg) parts 0
     in if estimated > 0 then cost / estimated else 0)"

definition restore_components ::
    "(nat \<Rightarrow> string) \<Rightarrow> time \<Rightarrow> 'l ledger_repo \<Rightarrow> 'c layer_repo \<Rightarrow> kit_context \<Rightarrow> kit_order \<Rightarrow> number
     \<Rightarrow> (('k, 'l, 'c, 'j) kit_world, unit) oper" where
  "restore_components uuid now lrepo crepo ctx inp cost =
     op_bind (op_lift (kit_entry uuid now ctx inp KitDisassembly (0, pv_id (kc_variant ctx), - ko_quantity inp))) (\<lambda>ke. op_get (\<lambda>w.
     let needs = kit_needs ctx inp;
         parts = estimates (getActiveLayersBatch crepo (kw_layers w) (map fst needs) ReceivedAsc) needs in
     op_bind (op_lift (result_map (restore_component uuid now ctx inp (scale_factor cost parts)) (enumerate 0 parts))) (\<lambda>restored.
     op_seq (on_kit_layers (saveLayerBatch crepo (map fst restored)))
     (on_kit_ledger (appendBatch lrepo (ke # map snd restored))))))"

definition DisassembleKitUseCase ::
    "(nat \<Rightarrow> string) \<Rightarrow> time \<Rightarrow> (number \<Rightarrow> string) \<Rightarrow> 'k kit_repo \<Rightarrow> product_repo \<Rightarrow> 'l ledger_repo \<Rightarrow> 'c layer_repo
     \<Rightarrow> 'j journal_repo \<Rightarrow> kit_order \<Rightarrow> (('k, 'l, 'c, 'j) kit_world, bool) oper" where
  "DisassembleKitUseCase uuid now show_number krepo prepo lrepo crepo jrepo inp =
     op_bind (op_get (\<lambda>w. op_lift (resolve_kit krepo prepo (kw_kits w) inp))) (\<lambda>ctx.
     op_seq (op_get (\<lambda>w. let avail = currentQuantity lrepo (kw_ledger w) (pv_id (kc_variant ctx)) (kc_location ctx) in
       op_reject (avail < ko_quantity inp) (Error ''Insufficient stock for Kit variant {}. Needed: {}, Available: {}''
         [S (ko_kitSku inp), N (ko_quantity inp), N avail])))
     (op_bind (on_kit_layers (consumeFifoLayers crepo (pv_id (kc_variant ctx)) (ko_quantity inp))) (\<lambda>b.
     op_seq (restore_components uuid now lrepo crepo ctx inp (totalCostCents b))
     (op_bind (op_lift (kit_journal_entry (uuid (2 * length (kit_needs ctx inp) + 1)) now (kc_tenant ctx)
       (''Disassemble '' @ show_number (ko_quantity inp) @ '' units of Kit '' @ ko_kitSku inp) (ko_reference inp)
       (''1210'', ''Debit Component Inventory for '' @ ko_kitSku inp @ '' disassembly'')
       (''1200'', ''Credit Kit Inventory for '' @ ko_kitSku inp @ '' disassembly'') (totalCostCents b))) (\<lambda>je.
     op_seq (on_kit_books (saveEntry jrepo je)) (op_return True))))))"

lemmas kit_run_defs = process_cost_layers_def restore_components_def AssembleKitUseCase_def DisassembleKitUseCase_def
  generate_journal_entry_def

section \<open>Kits that are loaded are well formed\<close>

lemma add_components_ok: "keeps kit_ok (add_components comps)"
  unfolding add_components_def using addComponent_ok by (auto intro!: keeps_intros split: prod.split)

lemma built_kit_ok:
  assumes "built_kit i sku name comps = Inr k"
  shows "kit_ok k"
proof -
  obtain i' s where "(case add_components comps (Kit i' s name) of (Inl e, k) \<Rightarrow> Inl e | (Inr _, k) \<Rightarrow> Inr k) = Inr k"
    using assms by (auto simp: built_kit_def result_bind_Inr_iff)
  then obtain r where run: "add_components comps (Kit i' s name) = (r, k)" by (auto split: prod.splits sum.splits)
  have "kit_ok (Kit i' s name)" by (simp add: kit_ok_def Kit_def)
  from keepsD [OF add_components_ok this run] show ?thesis .
qed

lemma resolve_kitE:
  assumes "resolve_kit krepo prepo s inp = Inr ctx"
  obtains tenant loc actor sku k p v where "LocationId (ko_location inp) = Inr loc" and "Sku (ko_kitSku inp) = Inr sku"
    and "findKitBySku krepo s sku = Inr (Some k)" and "find_by_sku prepo sku = Some p" and "findVariantBySku p sku = Some v"
    and "ctx = \<lparr>kc_tenant = tenant, kc_location = loc, kc_actor = actor, kc_kit = k, kc_variant = v\<rparr>"
proof -
  obtain tenant loc actor sku found where steps: "TenantId (ko_tenant inp) = Inr tenant" "LocationId (ko_location inp) = Inr loc"
      "ActorId (ko_actor inp) = Inr actor" "Sku (ko_kitSku inp) = Inr sku" "findKitBySku krepo s sku = Inr found"
    using assms by (auto simp: resolve_kit_def result_bind_Inr_iff)
  obtain k p v where "found = Some k" "find_by_sku prepo sku = Some p" "findVariantBySku p sku = Some v"
    using assms steps by (cases found; cases "find_by_sku prepo sku"; cases "findVariantBySku (the (find_by_sku prepo sku)) sku")
      (simp_all add: resolve_kit_def)
  note found = this
  have "ctx = \<lparr>kc_tenant = tenant, kc_location = loc, kc_actor = actor, kc_kit = k, kc_variant = v\<rparr>"
    using steps found assms by (simp add: resolve_kit_def)
  from that [OF steps(2,4) _ found(2,3) this] steps(5) found(1) show ?thesis by simp
qed

lemma resolved_kit_ok:
  assumes "resolve_kit (pg_kits digest) prepo s inp = Inr ctx"
  shows "kit_ok (kc_kit ctx)"
proof -
  from assms obtain sku k where "pk_findBySku s sku = Inr (Some k)" and k: "kc_kit ctx = k"
    by (rule resolve_kitE) (simp add: pg_kits_def)
  then obtain r where "kit_of_row s r = Inr k"
    by (cases "find (\<lambda>r. kr_sku r = sku) (kit_rows s)") (auto simp: pk_findBySku_def optional_kit_def result_bind_Inr_iff)
  with k show ?thesis by (auto simp: kit_of_row_def intro: built_kit_ok)
qed

lemma resolved_location: "resolve_kit krepo prepo s inp = Inr ctx \<Longrightarrow> kc_location ctx = ko_location inp"
  by (erule resolve_kitE) (auto simp: LocationId_def make_id_def split: if_splits)

section \<open>What a kit moves\<close>

text \<open>The change of a balance or of the units in layers when \<open>n\<close> kits are assembled.\<close>

definition kit_gain :: "kit_context \<Rightarrow> number \<Rightarrow> ident \<Rightarrow> number" where
  "kit_gain ctx n v = (if v = pv_id (kc_variant ctx) then n else 0) - lookup_or 0 (kit_components (kc_kit ctx)) v * n"

lemma sum_lookup:
  fixes n :: number
  shows "distinct (map fst xs) \<Longrightarrow> (\<Sum>(u, q)\<leftarrow>xs. if u = v then q * n else 0) = lookup_or 0 xs v * n"
proof (induction xs)
  case (Cons x xs)
  obtain u q where x: "x = (u, q)" by (cases x)
  have "lookup_or 0 xs u = 0" using Cons.prems by (auto simp: x lookup_or_def dest: map_of_SomeD split: option.splits) force
  with Cons show ?case by (auto simp: x lookup_or_def mult_zero_left)
qed simp

lemma needs_sum:
  assumes "kit_ok (kc_kit ctx)"
  shows "(\<Sum>(u, q)\<leftarrow>kit_needs ctx inp. if u = v then q else 0) = lookup_or 0 (kit_components (kc_kit ctx)) v * ko_quantity inp"
proof -
  have "(\<Sum>(u, q)\<leftarrow>kit_needs ctx inp. if u = v then q else 0)
      = (\<Sum>(u, q)\<leftarrow>kit_components (kc_kit ctx). if u = v then q * ko_quantity inp else 0)"
    unfolding kit_needs_def map_map by (intro arg_cong [of _ _ sum_list] map_cong refl) auto
  also have "\<dots> = lookup_or 0 (kit_components (kc_kit ctx)) v * ko_quantity inp"
    using assms by (intro sum_lookup) (simp add: kit_ok_def)
  finally show ?thesis .
qed

lemma kit_entry_values:
  assumes "kit_entry uuid now ctx inp reason (n, v, q) = Inr e"
  shows "le_variant e = v" and "le_location e = kc_location ctx" and "le_quantity e = q"
  using assms by (auto simp: kit_entry_def LedgerEntry_def result_bind_Inr_iff split: if_splits)

lemma kit_entries_balance:
  "result_map (kit_entry uuid now ctx inp reason) (enumerate n xs) = Inr es \<Longrightarrow>
    balance es v loc = (if loc = kc_location ctx then (\<Sum>(u, q)\<leftarrow>xs. if u = v then q else 0) else 0)"
proof (induction xs arbitrary: n es)
  case (Cons x xs)
  obtain u q where x: "x = (u, q)" by (cases x)
  from Cons.prems obtain e es' where e: "kit_entry uuid now ctx inp reason (n, u, q) = Inr e"
    and es': "result_map (kit_entry uuid now ctx inp reason) (enumerate (Suc n) xs) = Inr es'" and es: "es = e # es'"
    by (auto simp: x split: sum.splits)
  from Cons.IH [OF es'] kit_entry_values [OF e] show ?case by (auto simp: es x)
qed simp

lemma new_layer_values:
  assumes "new_layer i now v q cost = Inr l"
  shows "lid l = i" and "lvariant l = v" and "remainingQuantity l = q" and "remainingCostCents l = q * cost" and "layer_ok l" and "0 < q"
  using assms by (auto simp: new_layer_def InventoryCostLayer_def InventoryCostLayerId_def make_id_def result_bind_Inr_iff
      remainingQuantity_def remainingCostCents_def layer_ok_def split: if_splits)

lemma append_layer:
  assumes "table_ok tbl" and "layer_ok l" and "lid l \<notin> lid ` set tbl"
  shows "pg_upsert l tbl = tbl @ [l]" and "table_ok (tbl @ [l])"
    and "variant_units (tbl @ [l]) v = variant_units tbl v + (if lvariant l = v then remainingQuantity l else 0)"
    and "valuation (tbl @ [l]) = valuation tbl + remainingCostCents l"
  using assms by (auto simp: pg_upsert_def table_ok_def layers_ok_def units_def valuation_def)

lemma rounded_value:
  fixes n :: number
  assumes "0 < n"
  shows "\<bar>n * js_round (c / n) - c\<bar> \<le> n / 2"
proof -
  have "\<bar>js_round (c / n) - c / n\<bar> \<le> 1 / 2" using js_round_bounds [of "c / n"] unfolding abs_le_iff by linarith
  then have "n * \<bar>js_round (c / n) - c / n\<bar> \<le> n * (1 / 2)" using assms by (intro mult_left_mono) simp_all
  moreover have "n * \<bar>js_round (c / n) - c / n\<bar> = \<bar>n * (js_round (c / n) - c / n)\<bar>" using assms by (simp only: abs_mult abs_of_pos)
  moreover have "n * (js_round (c / n) - c / n) = n * js_round (c / n) - c" using assms by (simp add: right_diff_distrib)
  ultimately show ?thesis by simp
qed

section \<open>Assembly\<close>

type_synonym kit_store = "(kit_db, ledger, layer_table, journal_db) kit_world"

abbreviation fresh_ids :: "(nat \<Rightarrow> string) \<Rightarrow> layer_table \<Rightarrow> bool" where
  "fresh_ids uuid tbl \<equiv> range uuid \<inter> lid ` set tbl = {}"

lemma needs_items:
  assumes "kit_ok (kc_kit ctx)" and "0 < ko_quantity inp"
  defines "items \<equiv> map (\<lambda>(v, q). \<lparr>it_variant = v, it_quantity = q\<rparr>) (kit_needs ctx inp)"
  shows "distinct (map it_variant items)" and "\<forall>i\<in>set items. 0 \<le> it_quantity i"
    and "demand_of items v = lookup_or 0 (kit_components (kc_kit ctx)) v * ko_quantity inp"
proof -
  have "map it_variant items = map fst (kit_components (kc_kit ctx))"
    by (auto simp: items_def kit_needs_def)
  then show "distinct (map it_variant items)" using assms(1) by (simp add: kit_ok_def)
  have "1 \<le> q" if "(u, q) \<in> set (kit_components (kc_kit ctx))" for u q using that assms(1) by (auto simp: kit_ok_def)
  then have "0 \<le> q * ko_quantity inp" if "(u, q) \<in> set (kit_components (kc_kit ctx))" for u q
    using that assms(2) by (intro mult_nonneg_nonneg) force+
  then show "\<forall>i\<in>set items. 0 \<le> it_quantity i" by (auto simp: items_def kit_needs_def)
  have "demand_of items v = (\<Sum>(u, q)\<leftarrow>kit_needs ctx inp. if u = v then q else 0)"
    unfolding items_def map_map by (intro arg_cong [of _ _ sum_list] map_cong refl) auto
  then show "demand_of items v = lookup_or 0 (kit_components (kc_kit ctx)) v * ko_quantity inp"
    using needs_sum [OF assms(1)] by simp
qed

definition assembled :: "kit_context \<Rightarrow> kit_order \<Rightarrow> kit_store \<Rightarrow> kit_store \<Rightarrow> bool" where
  "assembled ctx inp w w' \<longleftrightarrow> kw_kits w' = kw_kits w
     \<and> (\<forall>v loc. balance (kw_ledger w') v loc = balance (kw_ledger w) v loc
          + (if loc = kc_location ctx then kit_gain ctx (ko_quantity inp) v else 0))
     \<and> (\<forall>v. variant_units (kw_layers w') v = variant_units (kw_layers w) v + kit_gain ctx (ko_quantity inp) v)"

lemma valuation_nonneg: "layers_ok ls \<Longrightarrow> 0 \<le> valuation ls"
  by (induction ls) (auto simp: remainingCostCents_def layer_ok_def remainingQuantity_def)

lemma valuation_free: "\<forall>l\<in>set ls. unitCostCents l = 0 \<Longrightarrow> valuation ls = 0"
  by (induction ls) (auto simp: remainingCostCents_def)

lemma negated_sum:
  fixes xs :: "(ident \<times> number) list"
  shows "(\<Sum>(u, q)\<leftarrow>map (\<lambda>(v, q). (v, - q)) xs. if u = v then q else 0) = - (\<Sum>(u, q)\<leftarrow>xs. if u = v then q else 0)"
  by (induction xs) auto

lemma process_run:
  fixes w :: kit_store
  assumes tbl: "table_ok (kw_layers w)" and fresh: "fresh_ids uuid (kw_layers w)" and ok: "kit_ok (kc_kit ctx)"
    and run: "process_cost_layers uuid now mem_ledger pg_layers ctx inp w = (Inr cost, w')"
  shows "assembled ctx inp w w'" and "kw_books w' = kw_books w" and "table_ok (kw_layers w')"
    and "lid ` set (kw_layers w') \<subseteq> lid ` set (kw_layers w) \<union> range uuid"
    and "\<bar>valuation (kw_layers w') - valuation (kw_layers w)\<bar> \<le> ko_quantity inp / 2"
    and "0 < ko_quantity inp" 
    and "cost \<le> (\<Sum>(v, q)\<leftarrow>kit_needs ctx inp. valuation (fifo_layers (kw_layers w) v))"
proof -
  let ?n = "ko_quantity inp" and ?kv = "pv_id (kc_variant ctx)" and ?m = "length (kit_needs ctx inp)"
  let ?items = "map (\<lambda>(v, q). \<lparr>it_variant = v, it_quantity = q\<rparr>) (kit_needs ctx inp)"
  let ?out = "map (\<lambda>(v, q). (v, - q)) (kit_needs ctx inp)"
  obtain bs c tbl1 where batch: "consumeFifoLayersBatch pg_layers ?items (kw_layers w) = (Inr (bs, c), tbl1)"
    using run by (auto simp: process_cost_layers_def oper_simps Let_def split: prod.splits sum.splits)
  obtain es where es: "result_map (kit_entry uuid now ctx inp KitAssembly) (enumerate 0 ?out) = Inr es"
    using run batch by (auto simp: process_cost_layers_def oper_simps Let_def split: prod.splits sum.splits)
  obtain l where l: "new_layer (uuid ?m) now ?kv ?n (js_round (c / ?n)) = Inr l"
    using run batch es by (auto simp: process_cost_layers_def oper_simps Let_def split: prod.splits sum.splits)
  obtain e where e: "kit_entry uuid now ctx inp KitAssembly (?m + 1, ?kv, ?n) = Inr e"
    using run batch es l
    by (auto simp: process_cost_layers_def oper_simps Let_def pg_layers_def pg_saveLayer_def split: prod.splits sum.splits)
  note layer = new_layer_values [OF l]
  show n: "0 < ?n" by (rule layer(6))
  note items = needs_items [OF ok n]
  note issue = batch_issue [OF tbl items(1,2), unfolded batch]
  from issue have tbl1: "table_ok tbl1" "map lid tbl1 = map lid (kw_layers w)" "valuation tbl1 = valuation (kw_layers w) - c"
      and units1: "\<And>v. variant_units tbl1 v = variant_units (kw_layers w) v - demand_of ?items v"
    by (auto split: if_splits)
  have "lid ` set tbl1 = lid ` set (kw_layers w)" using tbl1(2) by (metis list.set_map)
  with fresh layer(1) have "lid l \<notin> lid ` set tbl1" by auto
  note add = append_layer [OF tbl1(1) layer(5) this]
  have w': "w' = w\<lparr>kw_layers := tbl1 @ [l], kw_ledger := kw_ledger w @ es @ [e]\<rparr>" and cost: "cost = c"
    using run batch es l e add(1)
    by (simp_all add: process_cost_layers_def oper_simps Let_def pg_layers_def pg_saveLayer_def mem_ledger_def mem_appendBatch_def)
  have neg: "(\<Sum>(u, q)\<leftarrow>?out. if u = v then q else 0) = - (\<Sum>(u, q)\<leftarrow>kit_needs ctx inp. if u = v then q else 0)" for v
    by (rule negated_sum)
  have led: "balance (kw_ledger w') v loc = balance (kw_ledger w) v loc + (if loc = kc_location ctx then kit_gain ctx ?n v else 0)" for v loc
    using kit_entries_balance [OF es] kit_entry_values [OF e] neg [of v] needs_sum [OF ok]
    by (simp add: w' kit_gain_def)
  have units: "variant_units (kw_layers w') v = variant_units (kw_layers w) v + kit_gain ctx ?n v" for v
    using add(3) [of v] units1 [of v] items(3) [of v] layer(2,3) by (simp add: w' kit_gain_def)
  show "assembled ctx inp w w'" using led units by (simp add: assembled_def w')
  show "kw_books w' = kw_books w" by (simp add: w')
  show "table_ok (kw_layers w')" using add(2) by (simp add: w')
  have "lid ` set tbl1 = lid ` set (kw_layers w)" using tbl1(2) by (metis list.set_map)
  then show "lid ` set (kw_layers w') \<subseteq> lid ` set (kw_layers w) \<union> range uuid" using layer(1) by (auto simp: w')
  have "valuation (kw_layers w') - valuation (kw_layers w) = ?n * js_round (c / ?n) - c"
    using add(4) tbl1(3) layer(4) by (simp add: w')
  with rounded_value [OF n, of c] show "\<bar>valuation (kw_layers w') - valuation (kw_layers w)\<bar> \<le> ?n / 2" by simp
  have "c = (\<Sum>i\<leftarrow>?items. valuation (fifo_layers (kw_layers w) (it_variant i)) - valuation (drawn (kw_layers w) i))"
    using issue by (auto split: if_splits)
  also have "\<dots> \<le> (\<Sum>i\<leftarrow>?items. valuation (fifo_layers (kw_layers w) (it_variant i)))"
  proof (rule sum_list_mono)
    fix i assume "i \<in> set ?items"
    with items(2) have "0 \<le> valuation (drawn (kw_layers w) i)" by (intro valuation_nonneg drawn_facts(1) [OF tbl]) blast
    then show "valuation (fifo_layers (kw_layers w) (it_variant i)) - valuation (drawn (kw_layers w) i)
        \<le> valuation (fifo_layers (kw_layers w) (it_variant i))" by simp
  qed
  also have "\<dots> = (\<Sum>(v, q)\<leftarrow>kit_needs ctx inp. valuation (fifo_layers (kw_layers w) v))"
    unfolding map_map by (intro arg_cong [of _ _ sum_list] map_cong refl) auto
  finally show "cost \<le> (\<Sum>(v, q)\<leftarrow>kit_needs ctx inp. valuation (fifo_layers (kw_layers w) v))" by (simp add: cost)
qed

lemma component_check: "check_components avail needs w = (r, w') \<Longrightarrow> w' = w"
  unfolding check_components_def by (induction needs) (auto simp: oper_simps split: if_splits prod.splits)

text \<open>A call that got past its checks went through the layers and the ledger; what is left is the journal.\<close>

lemma assembly_stages:
  fixes w :: kit_store
  assumes run: "AssembleKitUseCase uuid now show_number (pg_kits digest) prepo mem_ledger pg_layers (pg_journal digest) inp w = (r, w')"
  obtains (refused) e where "r = Inl e" and "w' = w"
  | (failed) ctx e where "resolve_kit (pg_kits digest) prepo (kw_kits w) inp = Inr ctx"
      and "process_cost_layers uuid now mem_ledger pg_layers ctx inp w = (Inl e, w')" and "r = Inl e"
  | (processed) ctx cost w1 where "resolve_kit (pg_kits digest) prepo (kw_kits w) inp = Inr ctx"
      and "process_cost_layers uuid now mem_ledger pg_layers ctx inp w = (Inr cost, w1)"
      and "op_seq (generate_journal_entry (uuid (length (kit_needs ctx inp) + 2)) now show_number (pg_journal digest) ctx inp cost)
        (op_return True) w1 = (r, w')"
proof (cases "resolve_kit (pg_kits digest) prepo (kw_kits w) inp")
  case (Inl e)
  with run have "r = Inl e" "w' = w" by (auto simp: AssembleKitUseCase_def oper_simps)
  then show ?thesis by (rule refused)
next
  case (Inr ctx)
  obtain c w0 where check: "check_components (currentQuantities mem_ledger (kw_ledger w) (map fst (kit_components (kc_kit ctx)))
      (kc_location ctx)) (kit_needs ctx inp) w = (c, w0)" by fastforce
  note same = component_check [OF check]
  show ?thesis
  proof (cases c)
    case (Inl e)
    with run Inr check same have "r = Inl e" "w' = w" by (auto simp: AssembleKitUseCase_def oper_simps)
    then show ?thesis by (rule refused)
  next
    case (Inr u)
    obtain p w1 where process: "process_cost_layers uuid now mem_ledger pg_layers ctx inp w = (p, w1)" by fastforce
    have rest: "(case p of Inl e \<Rightarrow> (Inl e, w1) | Inr cost \<Rightarrow> op_seq (generate_journal_entry (uuid (length (kit_needs ctx inp) + 2)) now
        show_number (pg_journal digest) ctx inp cost) (op_return True) w1) = (r, w')"
      using run \<open>resolve_kit _ _ _ _ = Inr ctx\<close> check Inr same process
      by (cases p) (simp_all add: AssembleKitUseCase_def oper_simps)
    show ?thesis
    proof (cases p)
      case (Inl e)
      with rest process failed \<open>resolve_kit _ _ _ _ = Inr ctx\<close> show ?thesis by simp
    next
      case (Inr cost)
      with rest process processed \<open>resolve_kit _ _ _ _ = Inr ctx\<close> show ?thesis by simp
    qed
  qed
qed

lemma journal_keeps:
  fixes w :: kit_store
  assumes "op_seq (generate_journal_entry i now show_number jrepo ctx inp cost) (op_return True) w = (r, w')"
  shows "kw_kits w' = kw_kits w \<and> kw_ledger w' = kw_ledger w \<and> kw_layers w' = kw_layers w"
  using assms by (auto simp: generate_journal_entry_def oper_simps split: sum.splits prod.splits)

lemma worthless_journal:
  assumes "cost \<le> 0"
  shows "\<exists>e. op_seq (generate_journal_entry i now show_number jrepo ctx inp cost) (op_return True) w = (Inl e, w)"
  using assms by (cases "JournalEntryId i") (simp_all add: generate_journal_entry_def kit_journal_entry_def oper_simps addLine_def JournalLine_def)

text \<open>
  C9. Assembling kits moves stock from the components to the kit: when it returns, the balance of the kit at the
  location has grown by the number of kits and that of every component has fallen by its quantity times that number, other balances
  are as before, the units in the cost layers of every variant have moved by the same amounts, and the value of all layers is off
  by rounding only, half a cent for each kit at most.
\<close>

theorem assembly_moves_stock:
  fixes w :: kit_store
  assumes "table_ok (kw_layers w)" and "fresh_ids uuid (kw_layers w)"
    and run: "AssembleKitUseCase uuid now show_number (pg_kits digest) prepo mem_ledger pg_layers (pg_journal digest) inp w = (Inr b, w')"
  shows "\<exists>ctx. resolve_kit (pg_kits digest) prepo (kw_kits w) inp = Inr ctx \<and> assembled ctx inp w w' \<and> table_ok (kw_layers w')
    \<and> \<bar>valuation (kw_layers w') - valuation (kw_layers w)\<bar> \<le> ko_quantity inp / 2"
  using run
proof (cases rule: assembly_stages)
  case (processed ctx cost w1)
  note effect = process_run [OF assms(1,2) resolved_kit_ok [OF processed(1)] processed(2)]
  from journal_keeps [OF processed(3)] effect processed(1) show ?thesis by (auto simp: assembled_def)
qed simp_all

text \<open>
  C40. Kits whose components are worth nothing are assembled by a call that throws. If no layer of a component has a
  cost and the call got so far as to write to the ledger, then it throws, because no journal line may be zero, after the
  components have left the stock and the kits are in it; nothing is taken back and the books say nothing.
\<close>

theorem worthless_kit_half_assembled:
  fixes w :: kit_store
  assumes "table_ok (kw_layers w)" and "fresh_ids uuid (kw_layers w)"
    and kit: "resolve_kit (pg_kits digest) prepo (kw_kits w) inp = Inr ctx"
    and free: "\<forall>l\<in>set (kw_layers w). lvariant l \<in> fst ` set (kit_components (kc_kit ctx)) \<longrightarrow> unitCostCents l = 0"
    and run: "AssembleKitUseCase uuid now show_number (pg_kits digest) prepo mem_ledger pg_layers (pg_journal digest) inp w = (r, w')"
    and reached: "kw_ledger w' \<noteq> kw_ledger w"
  shows "\<exists>e. r = Inl e \<and> assembled ctx inp w w' \<and> kw_books w' = kw_books w"
  using run
proof (cases rule: assembly_stages)
  case (refused e)
  with reached show ?thesis by simp
next
  case (failed ctx e)
  have "kw_ledger w' = kw_ledger w"
    using failed(2) by (auto simp: process_cost_layers_def oper_simps Let_def mem_ledger_def mem_appendBatch_def split: prod.splits sum.splits)
  with reached show ?thesis by simp
next
  case (processed ctx' cost w1)
  with kit have ctx: "ctx' = ctx" by simp
  note effect = process_run [OF assms(1,2) resolved_kit_ok [OF kit] processed(2) [unfolded ctx]]
  have "valuation (fifo_layers (kw_layers w) v) = 0" if "(v, q) \<in> set (kit_needs ctx inp)" for v q
  proof (rule valuation_free)
    have "v \<in> fst ` set (kit_components (kc_kit ctx))" using that by (force simp: kit_needs_def)
    with free show "\<forall>l\<in>set (fifo_layers (kw_layers w) v). unitCostCents l = 0" by (auto simp: pg_getActiveLayers_def)
  qed
  then have "(\<Sum>(v, q)\<leftarrow>kit_needs ctx inp. valuation (fifo_layers (kw_layers w) v)) = 0"
    by (intro sum_list_nonneg_eq_0_iff [THEN iffD2]) auto
  with effect(7) have "cost \<le> 0" by simp
  then obtain e where "r = Inl e" "w' = w1" using worthless_journal processed(3) by (metis prod.inject)
  with effect show ?thesis by blast
qed

section \<open>Disassembly\<close>

lemma append_layers:
  assumes "table_ok tbl" and "distinct (map lid ls)" and "\<forall>l\<in>set ls. layer_ok l \<and> lid l \<notin> lid ` set tbl"
  shows "fold pg_upsert ls tbl = tbl @ ls \<and> table_ok (tbl @ ls)"
  using assms
proof (induction ls arbitrary: tbl)
  case (Cons l ls)
  have l: "layer_ok l" "lid l \<notin> lid ` set tbl" using Cons.prems by auto
  have rest: "distinct (map lid ls)" "\<forall>k\<in>set ls. layer_ok k \<and> lid k \<notin> lid ` set (tbl @ [l])"
    using Cons.prems by (auto simp: image_iff)
  note one = append_layer [OF Cons.prems(1) l]
  from Cons.IH [OF one(2) rest] one(1) show ?case by simp
qed simp

lemma restored_values:
  "result_map (restore_component uuid now ctx inp scale) (enumerate n parts) = Inr rs \<Longrightarrow>
    variant_units (map fst rs) v = (\<Sum>(u, q, a)\<leftarrow>parts. if u = v then q else 0)
    \<and> valuation (map fst rs) = (\<Sum>(u, q, a)\<leftarrow>parts. q * allocated_unit_cost scale a)
    \<and> balance (map snd rs) v loc = (if loc = kc_location ctx then (\<Sum>(u, q, a)\<leftarrow>parts. if u = v then q else 0) else 0)
    \<and> (\<forall>l\<in>set (map fst rs). layer_ok l \<and> lid l \<in> range uuid)"
proof (induction parts arbitrary: n rs)
  case (Cons x parts)
  obtain u q a where x: "x = (u, q, a)" by (cases x)
  from Cons.prems obtain l e rs' where l: "new_layer (uuid (2 * n + 1)) now u q (allocated_unit_cost scale a) = Inr l"
    and e: "kit_entry uuid now ctx inp KitDisassembly (2 * n + 2, u, q) = Inr e" and rs: "rs = (l, e) # rs'"
    and rest: "result_map (restore_component uuid now ctx inp scale) (enumerate (Suc n) parts) = Inr rs'"
    by (auto simp: x restore_component_def result_bind_Inr_iff split: sum.splits)
  from Cons.IH [OF rest] new_layer_values [OF l] kit_entry_values [OF e] show ?case by (auto simp: rs x)
qed simp

lemma drawn_costs:
  assumes "table_ok tbl" and "0 \<le> it_quantity i"
  shows "unitCostCents ` set (fold pg_upsert (drawn tbl i) tbl) \<subseteq> unitCostCents ` set tbl"
proof -
  have "unitCostCents ` set (pg_upsert l t) \<subseteq> unitCostCents ` set t \<union> {unitCostCents l}" for l t
    by (auto simp: pg_upsert_def)
  note one = this
  have "unitCostCents ` set (fold pg_upsert ls t) \<subseteq> unitCostCents ` set t \<union> unitCostCents ` set ls" for ls t
  proof (induction ls arbitrary: t)
    case (Cons l ls)
    from Cons.IH [of "pg_upsert l t"] one [of l t] show ?case unfolding fold_simps o_apply by auto
  qed simp
  moreover have "map unitCostCents ls' = map unitCostCents ls" if "list_all2 same_layer ls ls'" for ls ls'
    using that by (induction rule: list_all2_induct) (auto simp: same_layer_def)
  with drawn_facts(2) [OF assms] have "unitCostCents ` set (drawn tbl i) = unitCostCents ` set (fifo_layers tbl (it_variant i))"
    by (metis list.set_map)
  moreover have "set (fifo_layers tbl (it_variant i)) \<subseteq> set tbl" by (auto simp: pg_getActiveLayers_def)
  ultimately show ?thesis by blast
qed

lemma unit_cost_positive:
  assumes "layers_ok ls" and "\<forall>l\<in>set ls. 1 \<le> unitCostCents l"
  shows "1 \<le> component_unit_cost ls v"
proof -
  have worth: "units ls \<le> valuation ls" using assms
  proof (induction ls)
    case (Cons l ls)
    have "remainingQuantity l * 1 \<le> remainingQuantity l * unitCostCents l"
      using Cons.prems by (intro mult_left_mono) (auto simp: remaining_nonneg)
    with Cons show ?case by (auto simp: remainingCostCents_def)
  qed simp
  show ?thesis
  proof (cases "units ls = 0")
    case True
    with assms show ?thesis by (simp add: component_unit_cost_def calculateWeightedAverageCostSync_def sum_layers_eq)
  next
    case False
    with units_nonneg [OF assms(1)] worth have "1 \<le> valuation ls / units ls" by (simp add: le_divide_eq)
    then have "js_round 1 \<le> js_round (valuation ls / units ls)" by (rule js_round_mono)
    moreover have "js_round 1 = 1" by (simp add: js_round_def floor_rat_numeral)
    ultimately show ?thesis using False by (simp add: component_unit_cost_def calculateWeightedAverageCostSync_def sum_layers_eq Let_def)
  qed
qed

lemma abs_triangle_sum:
  fixes x y X Y :: number
  shows "\<bar>(x + X) - (y + Y)\<bar> \<le> \<bar>x - y\<bar> + \<bar>X - Y\<bar>"
  using abs_triangle_ineq [of "x - y" "X - Y"] by (simp add: algebra_simps)

lemma allocation_rounds:
  fixes cost :: number
  assumes "0 < cost" and "\<forall>(v, q, a)\<in>set parts. 0 \<le> q \<and> 0 \<le> a" and "0 < (\<Sum>(v, q, a)\<leftarrow>parts. q * a)"
  shows "\<bar>(\<Sum>(v, q, a)\<leftarrow>parts. q * allocated_unit_cost (scale_factor cost parts) a) - cost\<bar> \<le> (\<Sum>(v, q, a)\<leftarrow>parts. q) / 2"
proof -
  let ?est = "\<Sum>(v, q, a)\<leftarrow>parts. q * a"
  have "fold (\<lambda>(v, q, a) sum. sum + q * a) parts s = s + ?est" for s
    by (induction parts arbitrary: s) (auto simp: add.assoc)
  with assms(3) have scale: "scale_factor cost parts = cost / ?est" by (simp add: scale_factor_def)
  define k where "k = cost / ?est"
  have k: "0 < k" using assms(1,3) by (simp add: k_def)
  have "\<bar>(\<Sum>(v, q, a)\<leftarrow>ps. q * allocated_unit_cost k a) - k * (\<Sum>(v, q, a)\<leftarrow>ps. q * a)\<bar> \<le> (\<Sum>(v, q, a)\<leftarrow>ps. q) / 2"
    if "\<forall>(v, q, a)\<in>set ps. 0 \<le> q" for ps :: "(ident \<times> number \<times> number) list"
    using that
  proof (induction ps)
    case (Cons x ps)
    obtain v q a where x: "x = (v, q, a)" by (cases x)
    have "\<bar>js_round (a * k) - a * k\<bar> \<le> 1 / 2" using js_round_bounds [of "a * k"] unfolding abs_le_iff by linarith
    moreover have "0 \<le> q" using Cons.prems by (simp add: x)
    ultimately have "q * \<bar>js_round (a * k) - a * k\<bar> \<le> q * (1 / 2)" by (intro mult_left_mono)
    moreover have "q * \<bar>js_round (a * k) - a * k\<bar> = \<bar>q * (js_round (a * k) - a * k)\<bar>" using \<open>0 \<le> q\<close> by (simp only: abs_mult abs_of_nonneg)
    ultimately have "\<bar>q * js_round (a * k) - k * (q * a)\<bar> \<le> q / 2" by (simp add: algebra_simps)
    moreover have "\<bar>(\<Sum>(v, q, a)\<leftarrow>ps. q * allocated_unit_cost k a) - k * (\<Sum>(v, q, a)\<leftarrow>ps. q * a)\<bar> \<le> (\<Sum>(v, q, a)\<leftarrow>ps. q) / 2"
      using Cons by simp
    ultimately show ?case using k abs_triangle_sum [of "q * js_round (a * k)" "k * (q * a)"]
      by (simp only: x list.map sum_list.Cons prod.case allocated_unit_cost_def if_True distrib_left add_divide_distrib)
  qed simp
  moreover have "k * ?est = cost" using assms(3) by (simp add: k_def)
  ultimately show ?thesis using assms(2) unfolding scale k_def [symmetric] by fastforce
qed

lemma parts_of_needs: "(\<Sum>(u, q, a)\<leftarrow>estimates active needs. f u q) = (\<Sum>(u, q)\<leftarrow>needs. f u q)"
  unfolding estimates_def map_map by (intro arg_cong [of _ _ sum_list] map_cong refl) auto

lemma disassembly_run:
  fixes w :: kit_store
  assumes tbl: "table_ok (kw_layers w)" and fresh: "fresh_ids uuid (kw_layers w)"
    and run: "DisassembleKitUseCase uuid now show_number (pg_kits digest) prepo mem_ledger pg_layers (pg_journal digest) inp w = (Inr b, w')"
  obtains ctx t cost parts where "resolve_kit (pg_kits digest) prepo (kw_kits w) inp = Inr ctx" and "assembled ctx inp w' w"
    and "table_ok (kw_layers w')" and "0 < ko_quantity inp" and "0 < cost"
    and "table_ok t" and "unitCostCents ` set t \<subseteq> unitCostCents ` set (kw_layers w)"
    and "parts = estimates (pg_getActiveLayersBatch t (map fst (kit_needs ctx inp)) ReceivedAsc) (kit_needs ctx inp)"
    and "valuation (kw_layers w') = valuation (kw_layers w) - cost + (\<Sum>(v, q, a)\<leftarrow>parts. q * allocated_unit_cost (scale_factor cost parts) a)"
proof -
  let ?n = "ko_quantity inp"
  obtain ctx where ctx: "resolve_kit (pg_kits digest) prepo (kw_kits w) inp = Inr ctx"
    using run by (cases "resolve_kit (pg_kits digest) prepo (kw_kits w) inp") (auto simp: DisassembleKitUseCase_def oper_simps)
  let ?kv = "pv_id (kc_variant ctx)"
  obtain br t where issue: "consumeFifoLayers pg_layers ?kv ?n (kw_layers w) = (Inr br, t)"
    using run ctx by (auto simp: DisassembleKitUseCase_def oper_simps Let_def split: prod.splits sum.splits if_splits)
  let ?cost = "totalCostCents br"
  obtain w2 je where restore: "restore_components uuid now mem_ledger pg_layers ctx inp ?cost (w\<lparr>kw_layers := t\<rparr>) = (Inr (), w2)"
    and je: "kit_journal_entry (uuid (2 * length (kit_needs ctx inp) + 1)) now (kc_tenant ctx)
       (''Disassemble '' @ show_number (ko_quantity inp) @ '' units of Kit '' @ ko_kitSku inp) (ko_reference inp)
       (''1210'', ''Debit Component Inventory for '' @ ko_kitSku inp @ '' disassembly'')
       (''1200'', ''Credit Kit Inventory for '' @ ko_kitSku inp @ '' disassembly'') ?cost = Inr je"
    and same: "kw_kits w' = kw_kits w2" "kw_ledger w' = kw_ledger w2" "kw_layers w' = kw_layers w2"
    using run ctx issue by (auto simp: DisassembleKitUseCase_def oper_simps Let_def split: prod.splits sum.splits if_splits)
  have "0 < ?cost"
    using je by (cases "?cost \<le> 0") (auto simp: kit_journal_entry_def oper_simps addLine_def JournalLine_def result_bind_Inr_iff)
  with fifo_issue_nothing [OF _ issue] have n: "0 < ?n" by (cases "?n \<le> 0") auto
  define i where "i = \<lparr>it_variant = ?kv, it_quantity = ?n\<rparr>"
  have q: "0 \<le> it_quantity i" using n by (simp add: i_def)
  from fifo_issue [OF tbl, of ?n ?kv] n issue have cov: "coverable (kw_layers w) i" and t: "t = fold pg_upsert (drawn (kw_layers w) i) (kw_layers w)"
    and cost: "?cost = valuation (fifo_layers (kw_layers w) ?kv) - valuation (drawn (kw_layers w) i)"
    by (auto simp: i_def coverable_def split: if_splits)
  note up = upserts_one [OF tbl q, folded t]
  have t_units: "variant_units t v = variant_units (kw_layers w) v - (if v = ?kv then ?n else 0)" for v
    using up(3) [of remainingQuantity "\<lambda>w. w = v"] drawn_facts(3) [OF tbl q cov] pg_units [OF tbl]
    by (auto simp: units_def i_def)
  have t_value: "valuation t = valuation (kw_layers w) - ?cost"
    using up(3) [of remainingCostCents "\<lambda>_. True"] cost by (simp add: valuation_def i_def)
  define parts where "parts = estimates (pg_getActiveLayersBatch t (map fst (kit_needs ctx inp)) ReceivedAsc) (kit_needs ctx inp)"
  obtain ke rs where ke: "kit_entry uuid now ctx inp KitDisassembly (0, ?kv, - ?n) = Inr ke"
    and rs: "result_map (restore_component uuid now ctx inp (scale_factor ?cost parts)) (enumerate 0 parts) = Inr rs"
    and w2: "w2 = w\<lparr>kw_layers := fold pg_upsert (map fst rs) t, kw_ledger := kw_ledger w @ ke # map snd rs\<rparr>"
    and d: "distinct (map lid (map fst rs))"
    using restore by (auto simp: restore_components_def oper_simps Let_def parts_def pg_layers_def pg_saveBatch_def mem_ledger_def
        mem_appendBatch_def split: prod.splits sum.splits if_splits)
  note restored = restored_values [OF rs]
  have "lid ` set t = lid ` set (kw_layers w)" using up(2) by (metis list.set_map)
  with restored fresh have new: "\<forall>l\<in>set (map fst rs). layer_ok l \<and> lid l \<notin> lid ` set t" by blast
  note add = append_layers [OF up(1) d new]
  have needs: "(\<Sum>(u, q, a)\<leftarrow>parts. if u = v then q else 0) = lookup_or 0 (kit_components (kc_kit ctx)) v * ?n" for v
    unfolding parts_def parts_of_needs [where f = "\<lambda>u q. if u = v then q else 0"] by (rule needs_sum [OF resolved_kit_ok [OF ctx]])
  have led: "balance (kw_ledger w) v loc = balance (kw_ledger w') v loc + (if loc = kc_location ctx then kit_gain ctx ?n v else 0)" for v loc
    using restored [of v loc] kit_entry_values [OF ke] needs [of v] by (simp add: same w2 kit_gain_def)
  have un: "variant_units (kw_layers w) v = variant_units (kw_layers w') v + kit_gain ctx ?n v" for v
    using restored [of v] t_units [of v] needs [of v] add(1) by (simp add: same w2 kit_gain_def units_def)
  have worth: "valuation (kw_layers w') = valuation (kw_layers w) - ?cost + (\<Sum>(v, q, a)\<leftarrow>parts. q * allocated_unit_cost (scale_factor ?cost parts) a)"
    using restored t_value add(1) by (simp add: same w2 valuation_def)
  show thesis
  proof (rule that [OF ctx _ _ n \<open>0 < ?cost\<close> up(1) _ parts_def worth])
    show "assembled ctx inp w' w" using led un by (simp add: assembled_def same w2)
    show "table_ok (kw_layers w')" using add by (simp add: same w2)
    show "unitCostCents ` set t \<subseteq> unitCostCents ` set (kw_layers w)" unfolding t by (rule drawn_costs [OF tbl q])
  qed
qed

text \<open>
  C10. Assembling kits and taking them apart again restores the stock: when both calls return, for the same kit, location and
  number of kits, every balance of the ledger and the units in the cost layers of every variant are what they were
  at the start.
\<close>

theorem assemble_then_disassemble:
  fixes w :: kit_store
  assumes tbl: "table_ok (kw_layers w)" and fresh: "fresh_ids uuid (kw_layers w)" "fresh_ids uuid' (kw_layers w)" "range uuid \<inter> range uuid' = {}"
    and same: "ko_kitSku inp' = ko_kitSku inp" "ko_location inp' = ko_location inp" "ko_quantity inp' = ko_quantity inp"
    and assemble: "AssembleKitUseCase uuid now show_number (pg_kits digest) prepo mem_ledger pg_layers (pg_journal digest) inp w = (Inr b, w1)"
    and disassemble: "DisassembleKitUseCase uuid' now' show_number (pg_kits digest) prepo mem_ledger pg_layers (pg_journal digest) inp' w1 = (Inr b', w2)"
  shows "balance (kw_ledger w2) v loc = balance (kw_ledger w) v loc \<and> variant_units (kw_layers w2) v = variant_units (kw_layers w) v"
proof -
  obtain ctx where ctx: "resolve_kit (pg_kits digest) prepo (kw_kits w) inp = Inr ctx" and there: "assembled ctx inp w w1"
    and ok: "table_ok (kw_layers w1)" and ids: "lid ` set (kw_layers w1) \<subseteq> lid ` set (kw_layers w) \<union> range uuid"
    using assemble
  proof (cases rule: assembly_stages)
    case (processed ctx cost wp)
    note effect = process_run [OF tbl fresh(1) resolved_kit_ok [OF processed(1)] processed(2)]
    from journal_keeps [OF processed(3)] effect processed(1) that show ?thesis by (auto simp: assembled_def)
  qed simp_all
  have "fresh_ids uuid' (kw_layers w1)" using ids fresh by blast
  then obtain ctx' where ctx': "resolve_kit (pg_kits digest) prepo (kw_kits w1) inp' = Inr ctx'" and back': "assembled ctx' inp' w2 w1"
    by (rule disassembly_run [OF ok _ disassemble])
  have "kw_kits w1 = kw_kits w" using there by (simp add: assembled_def)
  with ctx' same have "kc_location ctx' = kc_location ctx \<and> kc_kit ctx' = kc_kit ctx \<and> kc_variant ctx' = kc_variant ctx"
    using ctx by (elim resolve_kitE) auto
  then have gain: "kit_gain ctx' = kit_gain ctx" "kc_location ctx' = kc_location ctx" by (simp_all add: kit_gain_def fun_eq_iff)
  let ?g = "if loc = kc_location ctx then kit_gain ctx (ko_quantity inp) v else 0"
  have "balance (kw_ledger w1) v loc = balance (kw_ledger w) v loc + ?g" using there unfolding assembled_def by blast
  moreover have "balance (kw_ledger w1) v loc = balance (kw_ledger w2) v loc + ?g"
    using back' unfolding assembled_def gain same by blast
  moreover have "variant_units (kw_layers w1) v = variant_units (kw_layers w) v + kit_gain ctx (ko_quantity inp) v"
    using there unfolding assembled_def by blast
  moreover have "variant_units (kw_layers w1) v = variant_units (kw_layers w2) v + kit_gain ctx (ko_quantity inp) v"
    using back' unfolding assembled_def gain same by blast
  ultimately show ?thesis by simp
qed

text \<open>
  Taking kits apart keeps the value of the stock up to rounding: if every layer costs at least one cent a unit and the
  kit has a component, the value of all layers after the call differs from that before by at most half a cent for
  every unit of a component that is restored.
\<close>

theorem disassembly_keeps_value:
  fixes w :: kit_store
  assumes tbl: "table_ok (kw_layers w)" and fresh: "fresh_ids uuid (kw_layers w)"
    and priced: "\<forall>l\<in>set (kw_layers w). 1 \<le> unitCostCents l"
    and kit: "resolve_kit (pg_kits digest) prepo (kw_kits w) inp = Inr ctx" "kit_components (kc_kit ctx) \<noteq> []"
    and run: "DisassembleKitUseCase uuid now show_number (pg_kits digest) prepo mem_ledger pg_layers (pg_journal digest) inp w = (Inr b, w')"
  shows "\<bar>valuation (kw_layers w') - valuation (kw_layers w)\<bar> \<le> (\<Sum>(v, q)\<leftarrow>kit_components (kc_kit ctx). q * ko_quantity inp) / 2"
proof -
  obtain ctx' t cost parts where "resolve_kit (pg_kits digest) prepo (kw_kits w) inp = Inr ctx'" and n: "0 < ko_quantity inp" and cost: "0 < cost" and t: "table_ok t" "unitCostCents ` set t \<subseteq> unitCostCents ` set (kw_layers w)"
    and parts: "parts = estimates (pg_getActiveLayersBatch t (map fst (kit_needs ctx' inp)) ReceivedAsc) (kit_needs ctx' inp)"
    and worth: "valuation (kw_layers w') = valuation (kw_layers w) - cost + (\<Sum>(v, q, a)\<leftarrow>parts. q * allocated_unit_cost (scale_factor cost parts) a)"
    by (rule disassembly_run [OF tbl fresh run])
  then have "ctx' = ctx" using kit(1) by simp
  note parts = parts [unfolded this]
  have comps: "1 \<le> q" if "(v, q) \<in> set (kit_components (kc_kit ctx))" for v q
    using resolved_kit_ok [OF kit(1)] that by (auto simp: kit_ok_def)
  have part: "0 < q \<and> 1 \<le> a" if mem: "(v, q, a) \<in> set parts" for v q a
  proof -
    from mem have needed: "(v, q) \<in> set (kit_needs ctx inp)"
      and a: "a = component_unit_cost (lookup_or [] (pg_getActiveLayersBatch t (map fst (kit_needs ctx inp)) ReceivedAsc) v) v"
      by (auto simp: parts estimates_def)
    from needed have "v \<in> set (map fst (kit_needs ctx inp))" by force
    then have "a = component_unit_cost (fifo_layers t v) v" using a by (simp add: pg_batch_lookup)
    moreover have "\<forall>l\<in>set (fifo_layers t v). 1 \<le> unitCostCents l"
      using t(2) priced by (fastforce simp: pg_getActiveLayers_def)
    ultimately have "1 \<le> a" using unit_cost_positive active_ok [OF t(1)] by blast
    moreover have "0 < q" using needed comps n by (force simp: kit_needs_def intro: mult_pos_pos)
    ultimately show ?thesis by blast
  qed
  obtain x parts' where first: "parts = x # parts'"
    using kit(2) by (cases parts) (auto simp: parts estimates_def kit_needs_def)
  obtain v q a where x: "x = (v, q, a)" by (cases x)
  have "0 < q * a" using part [of v q a] by (auto simp: first x intro!: mult_pos_pos)
  moreover have "0 \<le> (\<Sum>(v, q, a)\<leftarrow>parts'. q * a)"
    using part by (intro sum_list_nonneg) (fastforce simp: first intro: mult_nonneg_nonneg)
  ultimately have "0 < (\<Sum>(v, q, a)\<leftarrow>parts. q * a)" by (simp add: first x)
  moreover have "\<forall>(v, q, a)\<in>set parts. 0 \<le> q \<and> 0 \<le> a" using part by fastforce
  ultimately have "\<bar>(\<Sum>(v, q, a)\<leftarrow>parts. q * allocated_unit_cost (scale_factor cost parts) a) - cost\<bar> \<le> (\<Sum>(v, q, a)\<leftarrow>parts. q) / 2"
    by (intro allocation_rounds cost)
  moreover have "(\<Sum>(v, q, a)\<leftarrow>parts. q) = (\<Sum>(v, q)\<leftarrow>kit_components (kc_kit ctx). q * ko_quantity inp)"
    unfolding parts parts_of_needs [where f = "\<lambda>u q. q"] kit_needs_def map_map
    by (intro arg_cong [of _ _ sum_list] map_cong refl) auto
  ultimately show ?thesis by (simp add: worth)
qed

section \<open>Instances\<close>

definition sample_kit_world :: "number \<Rightarrow> kit_store" where
  "sample_kit_world cost = \<lparr>
     kw_kits = \<lparr>kit_rows = [\<lparr>kr_id = ''k1'', kr_sku = ''SET-1'', kr_name = ''Tea set''\<rparr>],
       component_rows = [\<lparr>cr_kit = ''k1'', cr_variant = ''mug'', cr_quantity = 2\<rparr>, \<lparr>cr_kit = ''k1'', cr_variant = ''tray'', cr_quantity = 1\<rparr>]\<rparr>,
     kw_ledger = [sample_entry ''mug'' 10, sample_entry ''tray'' 3],
     kw_layers = [\<lparr>lid = ''l1'', lvariant = ''mug'', initialQuantity = 10, unitCostCents = cost, receivedAt = 1, lserial = None,
         llot = None, consumedQuantity = 0\<rparr>,
       \<lparr>lid = ''l2'', lvariant = ''tray'', initialQuantity = 3, unitCostCents = cost, receivedAt = 1, lserial = None,
         llot = None, consumedQuantity = 0\<rparr>],
     kw_books = \<lparr>entry_rows = [], line_rows = []\<rparr>\<rparr>"

definition sample_kit_order :: kit_order where
  "sample_kit_order = \<lparr>ko_tenant = ''t1'', ko_location = ''loc-1'', ko_kitSku = ''SET-1'', ko_quantity = 2, ko_actor = ''ann'',
     ko_reference = ''wo-1''\<rparr>"

definition sample_kit_products :: product_repo where
  "sample_kit_products = mem_products [(''p1'', let v = ProductVariant ''set'' ''p1'' ''SET-1'' [] TrackQuantity in
     \<lparr>pr_id = ''p1'', pr_name = ''Tea set'', pr_variants = [(''set'', v)], pr_bySku = [(''SET-1'', v)]\<rparr>)]"

abbreviation sample_assembly :: "number \<Rightarrow> bool result \<times> kit_store" where
  "sample_assembly cost \<equiv> AssembleKitUseCase sample_uuid 5 (\<lambda>n. ''2'') (pg_kits (\<lambda>s. replicate 64 (CHR ''a''))) sample_kit_products mem_ledger pg_layers
     (pg_journal (\<lambda>s. replicate 64 (CHR ''a''))) sample_kit_order (sample_kit_world cost)"

lemma sample_kit_table: "table_ok (kw_layers (sample_kit_world 7))" "table_ok (kw_layers (sample_kit_world 0))"
  "fresh_ids sample_uuid (kw_layers (sample_kit_world c))" "fresh_ids (\<lambda>n. CHR ''w'' # sample_uuid n) (kw_layers (sample_kit_world c))"
  "range sample_uuid \<inter> range (\<lambda>n. CHR ''w'' # sample_uuid n) = {}"
  by (auto simp: sample_kit_world_def table_ok_def layer_ok_def sample_uuid_def)

lemma sample_assembly_runs: "fst (sample_assembly 7) = Inr True"
  by code_simp

lemma sample_disassembly_runs:
  "fst (DisassembleKitUseCase (\<lambda>n. CHR ''w'' # sample_uuid n) 6 (\<lambda>n. ''2'') (pg_kits (\<lambda>s. replicate 64 (CHR ''a''))) sample_kit_products
     mem_ledger pg_layers (pg_journal (\<lambda>s. replicate 64 (CHR ''a''))) sample_kit_order (snd (sample_assembly 7))) = Inr True"
  by code_simp

lemma sample_kit_resolved:
  "case resolve_kit (pg_kits (\<lambda>s. replicate 64 (CHR ''a''))) sample_kit_products (kw_kits (sample_kit_world c)) sample_kit_order of
     Inl e \<Rightarrow> False | Inr ctx \<Rightarrow> kit_components (kc_kit ctx) = [(''mug'', 2), (''tray'', 1)] \<and> pv_id (kc_variant ctx) = ''set'' \<and> kc_location ctx = ''loc-1''"
  unfolding sample_kit_world_def kit_world.select_convs by code_simp

theorem assembly_moves_stock_witness:
  "\<exists>w'. sample_assembly 7 = (Inr True, w') \<and> balance (kw_ledger w') ''mug'' ''loc-1'' = 6 \<and> balance (kw_ledger w') ''set'' ''loc-1'' = 2"
proof -
  have run: "sample_assembly 7 = (Inr True, snd (sample_assembly 7))" using sample_assembly_runs by (metis prod.collapse)
  from assembly_moves_stock [OF sample_kit_table(1,3) run] obtain ctx where
    ctx: "resolve_kit (pg_kits (\<lambda>s. replicate 64 (CHR ''a''))) sample_kit_products (kw_kits (sample_kit_world 7)) sample_kit_order = Inr ctx"
    and there: "assembled ctx sample_kit_order (sample_kit_world 7) (snd (sample_assembly 7))" by blast
  have before: "balance (kw_ledger (sample_kit_world 7)) ''mug'' ''loc-1'' = 10" "balance (kw_ledger (sample_kit_world 7)) ''set'' ''loc-1'' = 0"
    by (simp_all add: sample_kit_world_def sample_entry_def)
  have "kit_gain ctx 2 ''mug'' = - 4" "kit_gain ctx 2 ''set'' = 2" "kc_location ctx = ''loc-1''"
    using sample_kit_resolved [of 7] ctx by (simp_all add: kit_gain_def lookup_or_def)
  then have "balance (kw_ledger (snd (sample_assembly 7))) ''mug'' ''loc-1'' = 6 \<and> balance (kw_ledger (snd (sample_assembly 7))) ''set'' ''loc-1'' = 2"
    using there before unfolding assembled_def by (simp add: sample_kit_order_def)
  with run show ?thesis by blast
qed

theorem worthless_kit_half_assembled_witness:
  "\<exists>e w'. sample_assembly 0 = (Inl e, w') \<and> kw_books w' = kw_books (sample_kit_world 0)
    \<and> variant_units (kw_layers w') ''mug'' = 6 \<and> variant_units (kw_layers w') ''set'' = 2"
proof -
  obtain r w' where run: "sample_assembly 0 = (r, w')" by fastforce
  have "length (kw_ledger (snd (sample_assembly 0))) = 5" by code_simp
  moreover have "length (kw_ledger (sample_kit_world 0)) = 2" by (simp add: sample_kit_world_def)
  ultimately have reached: "kw_ledger w' \<noteq> kw_ledger (sample_kit_world 0)" using run by auto
  obtain ctx where ctx: "resolve_kit (pg_kits (\<lambda>s. replicate 64 (CHR ''a''))) sample_kit_products (kw_kits (sample_kit_world 0)) sample_kit_order = Inr ctx"
    and comps: "kit_components (kc_kit ctx) = [(''mug'', 2), (''tray'', 1)]" "pv_id (kc_variant ctx) = ''set''"
    using sample_kit_resolved [of 0] by (auto split: sum.splits)
  have "\<forall>l\<in>set (kw_layers (sample_kit_world 0)). lvariant l \<in> fst ` set (kit_components (kc_kit ctx)) \<longrightarrow> unitCostCents l = 0"
    by (simp add: sample_kit_world_def)
  from worthless_kit_half_assembled [OF sample_kit_table(2,3) ctx this run reached]
  obtain e where out: "r = Inl e" "assembled ctx sample_kit_order (sample_kit_world 0) w'" "kw_books w' = kw_books (sample_kit_world 0)" by blast
  have before: "variant_units (kw_layers (sample_kit_world 0)) ''mug'' = 10" "variant_units (kw_layers (sample_kit_world 0)) ''set'' = 0"
    by (simp_all add: sample_kit_world_def remainingQuantity_def)
  have "kit_gain ctx 2 ''mug'' = - 4" "kit_gain ctx 2 ''set'' = 2" using comps by (simp_all add: kit_gain_def lookup_or_def)
  then have "variant_units (kw_layers w') ''mug'' = 6 \<and> variant_units (kw_layers w') ''set'' = 2"
    using out(2) before unfolding assembled_def by (simp add: sample_kit_order_def)
  with run out show ?thesis by blast
qed

theorem assemble_then_disassemble_witness:
  "balance (kw_ledger (snd (DisassembleKitUseCase (\<lambda>n. CHR ''w'' # sample_uuid n) 6 (\<lambda>n. ''2'') (pg_kits (\<lambda>s. replicate 64 (CHR ''a'')))
     sample_kit_products mem_ledger pg_layers (pg_journal (\<lambda>s. replicate 64 (CHR ''a''))) sample_kit_order (snd (sample_assembly 7)))))
     ''mug'' ''loc-1'' = 10" (is "balance (kw_ledger (snd ?back)) _ _ = _")
proof -
  have run: "sample_assembly 7 = (Inr True, snd (sample_assembly 7))" using sample_assembly_runs by (metis prod.collapse)
  have back': "?back = (Inr True, snd ?back)" using sample_disassembly_runs by (metis prod.collapse)
  from assemble_then_disassemble [OF sample_kit_table(1,3,4,5) refl refl refl run back', of "''mug''" "''loc-1''"]
  show ?thesis by (simp add: sample_kit_world_def sample_entry_def)
qed

definition assembled_kit_world :: kit_store where
  "assembled_kit_world = (sample_kit_world 7)\<lparr>kw_ledger := [sample_entry ''set'' 2],
     kw_layers := [\<lparr>lid = ''l3'', lvariant = ''set'', initialQuantity = 2, unitCostCents = 22, receivedAt = 2, lserial = None,
       llot = None, consumedQuantity = 0\<rparr>]\<rparr>"

theorem disassembly_keeps_value_witness:
  "\<exists>w'. DisassembleKitUseCase sample_uuid 6 (\<lambda>n. ''2'') (pg_kits (\<lambda>s. replicate 64 (CHR ''a''))) sample_kit_products
      mem_ledger pg_layers (pg_journal (\<lambda>s. replicate 64 (CHR ''a''))) sample_kit_order assembled_kit_world = (Inr True, w')
    \<and> \<bar>valuation (kw_layers w') - 44\<bar> \<le> 3" (is "\<exists>w'. ?run = _ \<and> _")
proof -
  have "fst ?run = Inr True" by code_simp
  then have run: "?run = (Inr True, snd ?run)" by (metis prod.collapse)
  have ok: "table_ok (kw_layers assembled_kit_world)" "fresh_ids sample_uuid (kw_layers assembled_kit_world)"
      "\<forall>l\<in>set (kw_layers assembled_kit_world). 1 \<le> unitCostCents l"
    by (auto simp: assembled_kit_world_def table_ok_def layer_ok_def sample_uuid_def)
  obtain ctx where ctx: "resolve_kit (pg_kits (\<lambda>s. replicate 64 (CHR ''a''))) sample_kit_products (kw_kits assembled_kit_world) sample_kit_order = Inr ctx"
    and comps: "kit_components (kc_kit ctx) = [(''mug'', 2), (''tray'', 1)]"
    using sample_kit_resolved [of 7] by (auto simp: assembled_kit_world_def split: sum.splits)
  then have "kit_components (kc_kit ctx) \<noteq> []" by simp
  from disassembly_keeps_value [OF ok ctx this run] run comps show ?thesis
    by (intro exI [of _ "snd ?run"] conjI) (simp_all add: assembled_kit_world_def sample_kit_order_def remainingCostCents_def remainingQuantity_def)
qed

end
