(* ===== verification/Routing.thy ===== *)
theory Routing
  imports Warehouse Identifiers "HOL-Library.Word"
begin

text \<open>
  Routing an order to warehouses: src/src/domain/shipping/services/OrderRoutingEngine.ts with the strategies of
  RoutingStrategy.ts, and src/src/application/useCases/RouteOrder.ts. \<open>distance\<close> is \<open>GeoLocation.distanceTo\<close>, a formula
  of trigonometric functions; \<open>show_number\<close> is how a number is printed in the key of a cached rate; the carriers are
  a collaborator. The recursion over the candidates is the recursion over the list of those that are left.
\<close>

section \<open>Places, allocations, plans\<close>

record candidate =
  ca_location :: string
  ca_available :: number
  ca_geo :: geo_location

record allocation =
  al_location :: string
  al_quantity :: number

record fulfillment_plan =
  fp_allocations :: "allocation list"
  fp_cost :: number
  fp_distance :: number
  fp_splits :: number
  fp_score :: number

section \<open>Strategies\<close>

definition MinimizeSplits_score :: "fulfillment_plan \<Rightarrow> number" where
  "MinimizeSplits_score p = fp_splits p * 1000000 + fp_cost p + fp_distance p * (1 / 10)"

definition MinimizeCost_score :: "fulfillment_plan \<Rightarrow> number" where
  "MinimizeCost_score p = fp_splits p * 500 + fp_cost p + fp_distance p * (1 / 10)"

definition MinimizeDistance_score :: "fulfillment_plan \<Rightarrow> number" where
  "MinimizeDistance_score p = fp_splits p * 1000 + fp_cost p * (1 / 10) + fp_distance p * 10"

section \<open>The engine\<close>

definition active_candidates :: "candidate list \<Rightarrow> candidate list \<times> number" where
  "active_candidates cs = fold (\<lambda>c (active, available). if ca_available c > 0
     then (active @ [c], available + ca_available c) else (active, available)) cs ([], 0)"

fun allocate_from :: "candidate list \<Rightarrow> number \<Rightarrow> allocation list \<Rightarrow> allocation list list" where
  "allocate_from [] remaining current = (if remaining = 0 then [current] else [])"
| "allocate_from (c # cs) remaining current =
     (if remaining = 0 then [current]
      else let allocQty = min remaining (ca_available c) in
        (if allocQty > 0
         then allocate_from cs (remaining - allocQty) (current @ [\<lparr>al_location = ca_location c, al_quantity = allocQty\<rparr>])
         else []) @ allocate_from cs remaining current)"

definition generatePlans :: "candidate list \<Rightarrow> number \<Rightarrow> allocation list list" where
  "generatePlans cs q = allocate_from cs q []"

definition cache_key :: "(number \<Rightarrow> string) \<Rightarrow> allocation \<Rightarrow> string" where
  "cache_key show_number a = al_location a @ ''_'' @ show_number (al_quantity a)"

definition unique_rate_requests :: "(number \<Rightarrow> string) \<Rightarrow> allocation list list \<Rightarrow> (string, allocation) js_map" where
  "unique_rate_requests show_number plans = fold (fold (\<lambda>a m. if map_of m (cache_key show_number a) = None
     then AList.update (cache_key show_number a) a m else m)) plans []"

definition rate_cache ::
    "(string \<Rightarrow> string \<Rightarrow> number \<Rightarrow> number result) \<Rightarrow> string \<Rightarrow> (string, allocation) js_map \<Rightarrow> (string, number) js_map result" where
  "rate_cache rateCalculator sku requests = result_fold (\<lambda>(key, a) cache.
     result_bind (rateCalculator (al_location a) sku (al_quantity a)) (\<lambda>rate. Inr (AList.update key rate cache))) requests []"

definition distance_cache :: "(geo_location \<Rightarrow> geo_location \<Rightarrow> number) \<Rightarrow> geo_location \<Rightarrow> candidate list \<Rightarrow> (string, number) js_map" where
  "distance_cache distance dest cs = fold (\<lambda>c m. AList.update (ca_location c) (distance (ca_geo c) dest) m) cs []"

definition plan_of ::
    "(number \<Rightarrow> string) \<Rightarrow> (string, number) js_map \<Rightarrow> (string, number) js_map \<Rightarrow> (fulfillment_plan \<Rightarrow> number)
     \<Rightarrow> allocation list \<Rightarrow> fulfillment_plan" where
  "plan_of show_number distances rates strategy as =
     (let (totalDistance, totalCost) = fold (\<lambda>a (d, c). (d + lookup_or 0 distances (al_location a),
            c + lookup_or 0 rates (cache_key show_number a))) as (0, 0);
          p = \<lparr>fp_allocations = as, fp_cost = totalCost, fp_distance = totalDistance,
            fp_splits = of_nat (length as) - 1, fp_score = 0\<rparr>
      in p\<lparr>fp_score := strategy p\<rparr>)"

definition routeOrder ::
    "(number \<Rightarrow> string) \<Rightarrow> (geo_location \<Rightarrow> geo_location \<Rightarrow> number) \<Rightarrow> string \<Rightarrow> number \<Rightarrow> geo_location \<Rightarrow> candidate list
     \<Rightarrow> (fulfillment_plan \<Rightarrow> number) \<Rightarrow> (string \<Rightarrow> string \<Rightarrow> number \<Rightarrow> number result) \<Rightarrow> fulfillment_plan result" where
  "routeOrder show_number distance sku q dest cs strategy rateCalculator =
     (let (active, totalAvailable) = active_candidates cs in
      if totalAvailable < q
      then Inl (Error ''Insufficient total stock for SKU {}. Requested: {}, Available: {}'' [S sku, N q, N totalAvailable])
      else let rawPlans = generatePlans active q in
      if length rawPlans = 0
      then Inl (Error ''Could not find any valid allocation combinations for quantity {}'' [N q])
      else result_bind (rate_cache rateCalculator sku (unique_rate_requests show_number rawPlans)) (\<lambda>rates.
        Inr (sort_key fp_score (map (plan_of show_number (distance_cache distance dest active) rates strategy) rawPlans) ! 0)))"

section \<open>The use case\<close>

fun js_includes :: "string \<Rightarrow> string \<Rightarrow> bool" where
  "js_includes [] needle = (needle = [])"
| "js_includes (c # cs) needle = (take (length needle) (c # cs) = needle \<or> js_includes cs needle)"

text \<open>The left shift works on 32 bits and is signed; the subtraction is on numbers.\<close>

definition shift_left_5 :: "int \<Rightarrow> int" where
  "shift_left_5 h = sint (push_bit 5 (word_of_int h :: 32 word))"

definition address_hash :: "string \<Rightarrow> int" where
  "address_hash address = fold (\<lambda>c h. of_char c + (shift_left_5 h - h)) address 0"

definition geocodeAddress :: "string \<Rightarrow> geo_location result" where
  "geocodeAddress address = (let normalized = toLowerCase address in
     if js_includes normalized ''new york'' \<or> js_includes normalized ''ny'' \<or> js_includes normalized ''10001''
     then GeoLocation (407128 / 10000) (- 740060 / 10000)
     else if js_includes normalized ''los angeles'' \<or> js_includes normalized ''ca'' \<or> js_includes normalized ''90210''
     then GeoLocation (340522 / 10000) (- 1182437 / 10000)
     else if js_includes normalized ''chicago'' \<or> js_includes normalized ''il'' \<or> js_includes normalized ''60601''
     then GeoLocation (418781 / 10000) (- 876298 / 10000)
     else if js_includes normalized ''dallas'' \<or> js_includes normalized ''tx'' \<or> js_includes normalized ''75001''
     then GeoLocation (327767 / 10000) (- 967970 / 10000)
     else let hash = address_hash address
       in GeoLocation (25 + of_int (\<bar>hash\<bar> mod 24)) (- 125 + of_int (\<bar>hash\<bar> mod 58)))"

definition getWarehouseGeoLocation :: "string \<Rightarrow> geo_location result" where
  "getWarehouseGeoLocation location = (let loc = to_upper location in
     if js_includes loc ''EAST'' \<or> js_includes loc ''WH1'' \<or> js_includes loc ''NY'' then GeoLocation (407306 / 10000) (- 739352 / 10000)
     else if js_includes loc ''WEST'' \<or> js_includes loc ''WH2'' \<or> js_includes loc ''LA'' then GeoLocation (340522 / 10000) (- 1182437 / 10000)
     else if js_includes loc ''CENTRAL'' \<or> js_includes loc ''WH3'' \<or> js_includes loc ''CH'' then GeoLocation (418781 / 10000) (- 876298 / 10000)
     else GeoLocation (398283 / 10000) (- 985795 / 10000))"

record carrier_quote =
  cq_rateCents :: "number option"
  cq_cost :: number

definition quoted_price :: "carrier_quote \<Rightarrow> number" where
  "quoted_price r = (case cq_rateCents r of Some x \<Rightarrow> if x = 0 then cq_cost r else x | None \<Rightarrow> cq_cost r)"

definition shipping_rate ::
    "(string \<Rightarrow> number \<Rightarrow> string \<Rightarrow> string \<Rightarrow> carrier_quote list option result) \<Rightarrow> string \<Rightarrow> string \<Rightarrow> string \<Rightarrow> number \<Rightarrow> number result" where
  "shipping_rate getRates destination location sku q = (case getRates sku q destination location of
       Inl e \<Rightarrow> Inr 999999
     | Inr None \<Rightarrow> Inr 999999
     | Inr (Some []) \<Rightarrow> Inr 999999
     | Inr (Some (r # rs)) \<Rightarrow> Inr (fold min (map quoted_price rs) (quoted_price r)))"

datatype strategy_name = MINIMIZE_COST | MINIMIZE_SPLITS | MINIMIZE_DISTANCE

definition strategy_of :: "strategy_name option \<Rightarrow> fulfillment_plan \<Rightarrow> number" where
  "strategy_of name = (if name = Some MINIMIZE_SPLITS then MinimizeSplits_score
     else if name = Some MINIMIZE_DISTANCE then MinimizeDistance_score else MinimizeCost_score)"

definition candidate_of :: "inventory_item \<Rightarrow> candidate result" where
  "candidate_of i = result_bind (getWarehouseGeoLocation (ilocationId i)) (\<lambda>g.
     Inr \<lparr>ca_location = ilocationId i, ca_available = max 0 (amount (on_hand i) - amount (allocated i)), ca_geo = g\<rparr>)"

definition RouteOrder ::
    "(number \<Rightarrow> string) \<Rightarrow> (geo_location \<Rightarrow> geo_location \<Rightarrow> number) \<Rightarrow> (string \<Rightarrow> number \<Rightarrow> string \<Rightarrow> string \<Rightarrow> carrier_quote list option result)
     \<Rightarrow> 's inventory_repo \<Rightarrow> 's \<Rightarrow> string \<Rightarrow> number \<Rightarrow> string \<Rightarrow> strategy_name option \<Rightarrow> fulfillment_plan result" where
  "RouteOrder show_number distance getRates irepo s sku q destination name =
     (if sku = [] \<or> q = 0 \<or> destination = []
      then Inl (Error ''Missing required routing parameters: sku, quantity, and destinationAddress.'' [])
      else result_bind (geocodeAddress destination) (\<lambda>dest. result_bind (findItemsOfSku irepo s sku) (\<lambda>items.
        result_bind (result_map candidate_of items) (\<lambda>cs.
          routeOrder show_number distance sku q dest (sort_key (\<lambda>c. distance (ca_geo c) dest) cs) (strategy_of name)
            (shipping_rate getRates destination)))))"

section \<open>The plans that are generated\<close>

abbreviation total_quantity :: "allocation list \<Rightarrow> number" where
  "total_quantity as \<equiv> \<Sum>a\<leftarrow>as. al_quantity a"

abbreviation stock_of_candidates :: "candidate list \<Rightarrow> number" where
  "stock_of_candidates cs \<equiv> \<Sum>c\<leftarrow>cs. ca_available c"

lemma active_candidates_eq:
  "active_candidates cs = (filter (\<lambda>c. ca_available c > 0) cs, stock_of_candidates (filter (\<lambda>c. ca_available c > 0) cs))"
proof -
  have "fold (\<lambda>c (active, available). if ca_available c > 0 then (active @ [c], available + ca_available c) else (active, available)) cs (xs, n)
      = (xs @ filter (\<lambda>c. ca_available c > 0) cs, n + stock_of_candidates (filter (\<lambda>c. ca_available c > 0) cs))" for xs n
    by (induction cs arbitrary: xs n) (simp_all add: add.assoc)
  from this [of "[]" 0] show ?thesis by (simp add: active_candidates_def)
qed

definition serves :: "candidate list \<Rightarrow> allocation list \<Rightarrow> bool" where
  "serves cs as \<longleftrightarrow> distinct (map al_location as)
     \<and> (\<forall>a\<in>set as. 0 < al_quantity a \<and> (\<exists>c\<in>set cs. ca_location c = al_location a \<and> al_quantity a \<le> ca_available c))"

lemma allocate_from_sound:
  assumes "distinct (map ca_location cs)" and "0 \<le> remaining" and "p \<in> set (allocate_from cs remaining current)"
  shows "\<exists>as. p = current @ as \<and> serves cs as \<and> total_quantity as = remaining \<and> length as \<le> length cs"
  using assms
proof (induction cs arbitrary: remaining current)
  case Nil
  then show ?case by (auto simp: serves_def split: if_splits)
next
  case (Cons c cs)
  have skip: ?case if "p \<in> set (allocate_from cs remaining current)"
  proof -
    from Cons.IH [OF _ Cons.prems(2) that] Cons.prems(1) obtain as where
      "p = current @ as" "serves cs as" "total_quantity as = remaining" "length as \<le> length cs" by auto
    then show ?thesis by (auto simp: serves_def)
  qed
  show ?case
  proof (cases "remaining = 0")
    case True
    with Cons.prems show ?thesis by (auto simp: serves_def)
  next
    case False
    define q where "q = min remaining (ca_available c)"
    have "p \<in> set (allocate_from cs remaining current) \<or>
        0 < q \<and> p \<in> set (allocate_from cs (remaining - q) (current @ [\<lparr>al_location = ca_location c, al_quantity = q\<rparr>]))"
      using Cons.prems(3) False by (auto simp: Let_def q_def split: if_splits)
    then show ?thesis
    proof
      assume taken: "0 < q \<and> p \<in> set (allocate_from cs (remaining - q) (current @ [\<lparr>al_location = ca_location c, al_quantity = q\<rparr>]))"
      have "0 \<le> remaining - q" by (simp add: q_def)
      from Cons.IH [OF _ this conjunct2 [OF taken]] Cons.prems(1) obtain as where as:
        "p = (current @ [\<lparr>al_location = ca_location c, al_quantity = q\<rparr>]) @ as" "serves cs as" "total_quantity as = remaining - q"
        "length as \<le> length cs" by auto
      have "ca_location c \<notin> al_location ` set as"
      proof
        assume "ca_location c \<in> al_location ` set as"
        then obtain d where "d \<in> set cs" "ca_location d = ca_location c" using as(2) by (auto simp: serves_def)
        then have "ca_location c \<in> ca_location ` set cs" by (metis image_eqI)
        with Cons.prems(1) show False by simp
      qed
      with as taken show ?thesis
        by (intro exI [of _ "\<lparr>al_location = ca_location c, al_quantity = q\<rparr> # as"]) (auto simp: serves_def q_def)
    qed (rule skip)
  qed
qed

lemma allocate_from_complete:
  assumes "xs \<in> set (subseqs cs)" and "0 < remaining" and "remaining \<le> stock_of_candidates xs" and "\<forall>c\<in>set cs. 0 < ca_available c"
  shows "\<exists>p\<in>set (allocate_from cs remaining current). length p \<le> length current + length xs"
  using assms
proof (induction cs arbitrary: xs remaining current)
  case Nil
  then show ?case by simp
next
  case (Cons c cs)
  from Cons.prems(1) consider "xs \<in> set (subseqs cs)" | ys where "xs = c # ys" "ys \<in> set (subseqs cs)"
    by (auto simp: Let_def)
  then show ?case
  proof cases
    case 1
    from Cons.IH [OF 1 Cons.prems(2,3)] Cons.prems(4) obtain p where
      "p \<in> set (allocate_from cs remaining current)" "length p \<le> length current + length xs" by auto
    then show ?thesis using Cons.prems(2) by (intro bexI [of _ p]) (auto simp: Let_def)
  next
    case (2 ys)
    define q where "q = min remaining (ca_available c)"
    let ?cur = "current @ [\<lparr>al_location = ca_location c, al_quantity = q\<rparr>]"
    have q: "0 < q" using Cons.prems(2,4) by (simp add: q_def)
    have sub: "set (allocate_from cs (remaining - q) ?cur) \<subseteq> set (allocate_from (c # cs) remaining current)"
      using q Cons.prems(2) by (auto simp: Let_def q_def)
    show ?thesis
    proof (cases "remaining \<le> ca_available c")
      case True
      then have "?cur \<in> set (allocate_from cs (remaining - q) ?cur)" by (cases cs) (simp_all add: q_def)
      with sub show ?thesis by (intro bexI [of _ ?cur]) (auto simp: 2)
    next
      case False
      then have "0 < remaining - q" "remaining - q \<le> stock_of_candidates ys" using Cons.prems(3) by (simp_all add: q_def 2)
      from Cons.IH [OF 2(2) this, of ?cur] Cons.prems(4) obtain p where
        "p \<in> set (allocate_from cs (remaining - q) ?cur)" "length p \<le> length ?cur + length ys" by auto
      with sub show ?thesis by (intro bexI [of _ p]) (auto simp: 2)
    qed
  qed
qed

lemma filter_sub: "filter P xs \<in> set (subseqs xs)"
  by (induction xs) (auto simp: Let_def)

lemma generatePlans_nonempty:
  assumes "0 < q" and "\<forall>c\<in>set cs. 0 < ca_available c"
  shows "generatePlans cs q \<noteq> [] \<longleftrightarrow> q \<le> stock_of_candidates cs"
proof
  assume "q \<le> stock_of_candidates cs"
  from allocate_from_complete [OF _ assms(1) this assms(2), of "[]"] filter_sub [of "\<lambda>_. True" cs]
  show "generatePlans cs q \<noteq> []" by (auto simp: generatePlans_def)
next
  have bound: "allocate_from cs remaining current = []" if "stock_of_candidates cs < remaining" "\<forall>c\<in>set cs. 0 < ca_available c" for cs remaining current
    using that
  proof (induction cs arbitrary: remaining current)
    case (Cons c cs)
    have "0 \<le> stock_of_candidates cs" using Cons.prems(2) by (intro sum_list_nonneg) (force simp: less_imp_le)
    then have "min remaining (ca_available c) = ca_available c" "remaining \<noteq> 0" using Cons.prems by auto
    moreover have "stock_of_candidates cs < remaining - ca_available c" "stock_of_candidates cs < remaining" using Cons.prems by auto
    moreover have "\<forall>c\<in>set cs. 0 < ca_available c" using Cons.prems by simp
    ultimately show ?case using Cons.IH by (simp add: Let_def)
  qed simp
  show "q \<le> stock_of_candidates cs" if "generatePlans cs q \<noteq> []"
    using bound [OF _ assms(2), of q "[]"] that by (auto simp: generatePlans_def not_le [symmetric])
qed

section \<open>The caches\<close>

definition printable :: "(number \<Rightarrow> string) \<Rightarrow> bool" where
  "printable show_number \<longleftrightarrow> inj show_number \<and> (\<forall>n. CHR ''_'' \<notin> set (show_number n))"

lemma append_first_sep: "c \<notin> set x \<Longrightarrow> c \<notin> set y \<Longrightarrow> x @ c # a = y @ c # b \<longleftrightarrow> x = y \<and> a = b"
proof (induction x arbitrary: y)
  case Nil
  then show ?case by (cases y) auto
next
  case (Cons d x)
  then show ?case by (cases y) auto
qed

lemma append_last_sep:
  assumes "c \<notin> set x" and "c \<notin> set y"
  shows "a @ c # x = b @ c # y \<longleftrightarrow> a = b \<and> x = y"
proof -
  have "a @ c # x = b @ c # y \<longleftrightarrow> rev (a @ c # x) = rev (b @ c # y)" by (simp only: rev_is_rev_conv)
  also have "\<dots> \<longleftrightarrow> rev x = rev y \<and> rev a = rev b" using append_first_sep [of c "rev x" "rev y"] assms by simp
  finally show ?thesis by auto
qed

lemma cache_key_inj: "printable show_number \<Longrightarrow> cache_key show_number a = cache_key show_number b \<longleftrightarrow> a = b"
  by (auto simp: cache_key_def printable_def append_last_sep inj_eq)

lemma rate_requests_lookup:
  assumes "printable show_number"
  shows "a \<in> \<Union> (set ` set plans) \<Longrightarrow> map_of (unique_rate_requests show_number plans) (cache_key show_number a) = Some a"
    and "(k, b) \<in> set (unique_rate_requests show_number plans) \<Longrightarrow> k = cache_key show_number b \<and> distinct (map fst (unique_rate_requests show_number plans))"
proof -
  let ?add = "\<lambda>a m. if map_of m (cache_key show_number a) = None then AList.update (cache_key show_number a) a m else m"
  have chain: "(A \<union> U) \<union> B \<subseteq> R" if "A \<union> B \<subseteq> C" "U \<union> C \<subseteq> R" for A B C U R :: "allocation set"
    using that by blast
  define keyed where "keyed m \<longleftrightarrow> distinct (map fst m) \<and> (\<forall>(k, b)\<in>set m. k = cache_key show_number b)" for m :: "(string, allocation) js_map"
  have one: "keyed (?add a m) \<and> a \<in> snd ` set (?add a m) \<and> snd ` set m \<subseteq> snd ` set (?add a m)" if m: "keyed m" for a m
  proof (cases "map_of m (cache_key show_number a)")
    case None
    then have "AList.update (cache_key show_number a) a m = m @ [(cache_key show_number a, a)]" "cache_key show_number a \<notin> fst ` set m"
      by (simp_all add: update_fresh map_of_eq_None_iff)
    with None m show ?thesis by (auto simp: keyed_def)
  next
    case (Some b)
    from map_of_SomeD [OF Some] m have "cache_key show_number a = cache_key show_number b" by (auto simp: keyed_def)
    then have "b = a" by (simp add: cache_key_inj [OF assms])
    with map_of_SomeD [OF Some] m Some show ?thesis by force
  qed
  have inner: "keyed (fold ?add as m) \<and> set as \<union> snd ` set m \<subseteq> snd ` set (fold ?add as m)" if "keyed m" for as m
    using that
  proof (induction as arbitrary: m)
    case (Cons a as)
    note i = one [OF Cons.prems, of a]
    note rest = Cons.IH [OF conjunct1 [OF i]]
    have "{a} \<union> snd ` set m \<subseteq> snd ` set (?add a m)" using i by blast
    from chain [OF this conjunct2 [OF rest]] show ?case unfolding fold_simps o_apply list.set
      by (intro conjI conjunct1 [OF rest]) simp
  qed simp
  have outer: "keyed (fold (fold ?add) ps m) \<and> \<Union> (set ` set ps) \<union> snd ` set m \<subseteq> snd ` set (fold (fold ?add) ps m)" if "keyed m" for ps m
    using that
  proof (induction ps arbitrary: m)
    case (Cons p ps)
    note i = inner [OF Cons.prems, of p]
    note rest = Cons.IH [OF conjunct1 [OF i]]
    show ?case unfolding fold_simps o_apply list.set image_insert Union_insert
      by (intro conjI conjunct1 [OF rest] chain [OF conjunct2 [OF i] conjunct2 [OF rest]])
  qed simp
  have all: "keyed (unique_rate_requests show_number plans)" "\<Union> (set ` set plans) \<subseteq> snd ` set (unique_rate_requests show_number plans)"
    using outer [of "[]" plans] by (auto simp: unique_rate_requests_def keyed_def)
  show "a \<in> \<Union> (set ` set plans) \<Longrightarrow> map_of (unique_rate_requests show_number plans) (cache_key show_number a) = Some a"
  proof -
    assume "a \<in> \<Union> (set ` set plans)"
    with all(2) have "a \<in> snd ` set (unique_rate_requests show_number plans)" by (rule subsetD)
    then obtain k where mem: "(k, a) \<in> set (unique_rate_requests show_number plans)" by (metis imageE prod.collapse)
    then have "k = cache_key show_number a" "distinct (map fst (unique_rate_requests show_number plans))" using all(1) by (auto simp: keyed_def)
    with map_of_is_SomeI [OF _ mem] show ?thesis by simp
  qed
  show "(k, b) \<in> set (unique_rate_requests show_number plans) \<Longrightarrow> k = cache_key show_number b \<and> distinct (map fst (unique_rate_requests show_number plans))"
    using all(1) by (auto simp: keyed_def)
qed

lemma rate_fold:
  "result_fold (\<lambda>(key, a) cache. result_bind (rate (al_location a) sku (al_quantity a)) (\<lambda>x. Inr (AList.update key x cache))) reqs m = Inr c \<Longrightarrow>
    distinct (map fst reqs) \<Longrightarrow>
    (\<forall>k. k \<notin> fst ` set reqs \<longrightarrow> map_of c k = map_of m k) \<and> (\<forall>(k, a)\<in>set reqs. map_of c k = Some (projr (rate (al_location a) sku (al_quantity a))))"
proof (induction reqs arbitrary: m)
  case (Cons x reqs)
  obtain k a where x: "x = (k, a)" by (cases x)
  from Cons.prems(1) obtain y where y: "rate (al_location a) sku (al_quantity a) = Inr y"
    and rest: "result_fold (\<lambda>(key, a) cache. result_bind (rate (al_location a) sku (al_quantity a)) (\<lambda>x. Inr (AList.update key x cache))) reqs (AList.update k y m) = Inr c"
    by (cases "rate (al_location a) sku (al_quantity a)") (auto simp: x)
  from Cons.IH [OF rest] Cons.prems(2) y show ?case by (auto simp: x)
qed simp

lemma rate_cache_lookup:
  assumes "printable show_number" and "rate_cache rate sku (unique_rate_requests show_number plans) = Inr rates" and "a \<in> \<Union> (set ` set plans)"
  shows "lookup_or 0 rates (cache_key show_number a) = projr (rate (al_location a) sku (al_quantity a))"
proof -
  have mem: "(cache_key show_number a, a) \<in> set (unique_rate_requests show_number plans)"
    by (rule map_of_SomeD [OF rate_requests_lookup(1) [OF assms(1,3)]])
  note read = rate_fold [of rate sku "unique_rate_requests show_number plans" "[]" rates, OF assms(2) [unfolded rate_cache_def]]
  from read rate_requests_lookup(2) [OF assms(1) mem] mem
  show ?thesis by (auto simp: lookup_or_def)
qed

lemma rate_cache_total:
  assumes "\<forall>l x. \<exists>r. rate l sku x = Inr r"
  shows "\<exists>rates. rate_cache rate sku reqs = Inr rates"
proof -
  have "\<exists>c. result_fold (\<lambda>(key, a) cache. result_bind (rate (al_location a) sku (al_quantity a)) (\<lambda>x. Inr (AList.update key x cache))) reqs m = Inr c" for m
  proof (induction reqs arbitrary: m)
    case (Cons x reqs)
    obtain k a where "x = (k, a)" by (cases x)
    moreover obtain y where "rate (al_location a) sku (al_quantity a) = Inr y" using assms by blast
    ultimately show ?case using Cons.IH by simp
  qed simp
  then show ?thesis by (simp add: rate_cache_def)
qed

lemma distance_lookup:
  assumes "distinct (map ca_location cs)" and "c \<in> set cs"
  shows "lookup_or 0 (distance_cache distance dest cs) (ca_location c) = distance (ca_geo c) dest"
proof -
  have other: "map_of (fold (\<lambda>c m. AList.update (ca_location c) (distance (ca_geo c) dest) m) ds m) k = map_of m k"
    if "k \<notin> ca_location ` set ds" for k m ds
    using that by (induction ds arbitrary: m) auto
  have "map_of (fold (\<lambda>c m. AList.update (ca_location c) (distance (ca_geo c) dest) m) cs m) (ca_location c) = Some (distance (ca_geo c) dest)" for m
    using assms
  proof (induction cs arbitrary: m)
    case (Cons d cs)
    show ?case
    proof (cases "c = d")
      case True
      with Cons.prems(1) have "ca_location c \<notin> ca_location ` set cs" by auto
      with True show ?thesis by (simp add: other)
    qed (use Cons in simp)
  qed simp
  then show ?thesis by (simp add: distance_cache_def lookup_or_def)
qed

lemma plan_of_values:
  "fp_allocations (plan_of sh ds rates strategy as) = as"
  "fp_splits (plan_of sh ds rates strategy as) = of_nat (length as) - 1"
  "fp_cost (plan_of sh ds rates strategy as) = (\<Sum>a\<leftarrow>as. lookup_or 0 rates (cache_key sh a))"
  "fp_distance (plan_of sh ds rates strategy as) = (\<Sum>a\<leftarrow>as. lookup_or 0 ds (al_location a))"
  "fp_score (plan_of sh ds rates strategy as) = strategy ((plan_of sh ds rates strategy as)\<lparr>fp_score := 0\<rparr>)"
proof -
  have sums: "fold (\<lambda>a (d, c). (d + lookup_or 0 ds (al_location a), c + lookup_or 0 rates (cache_key sh a))) as (x, y)
      = (x + (\<Sum>a\<leftarrow>as. lookup_or 0 ds (al_location a)), y + (\<Sum>a\<leftarrow>as. lookup_or 0 rates (cache_key sh a)))" for x y
    by (induction as arbitrary: x y) (simp_all add: add.assoc)
  show "fp_allocations (plan_of sh ds rates strategy as) = as"
    "fp_splits (plan_of sh ds rates strategy as) = of_nat (length as) - 1"
    "fp_cost (plan_of sh ds rates strategy as) = (\<Sum>a\<leftarrow>as. lookup_or 0 rates (cache_key sh a))"
    "fp_distance (plan_of sh ds rates strategy as) = (\<Sum>a\<leftarrow>as. lookup_or 0 ds (al_location a))"
    "fp_score (plan_of sh ds rates strategy as) = strategy ((plan_of sh ds rates strategy as)\<lparr>fp_score := 0\<rparr>)"
    by (simp_all add: plan_of_def sums Let_def)
qed

section \<open>What the engine returns\<close>

abbreviation in_stock_candidates :: "candidate list \<Rightarrow> candidate list" where
  "in_stock_candidates cs \<equiv> filter (\<lambda>c. ca_available c > 0) cs"

lemma sort_key_least:
  assumes "xs \<noteq> []"
  shows "sort_key f xs ! 0 \<in> set xs" and "x \<in> set xs \<Longrightarrow> f (sort_key f xs ! 0) \<le> f x"
proof -
  obtain y ys where s: "sort_key f xs = y # ys" using assms by (cases "sort_key f xs") (auto dest: arg_cong [where f = set])
  then show "sort_key f xs ! 0 \<in> set xs" by (metis list.set_intros(1) nth_Cons_0 set_sort)
  show "f (sort_key f xs ! 0) \<le> f x" if "x \<in> set xs"
  proof -
    from that have "x \<in> set (y # ys)" using s by (metis set_sort)
    moreover have "sorted (map f (y # ys))" using sorted_sort_key [of f xs] s by simp
    ultimately show ?thesis using s by auto
  qed
qed

lemma routeOrder_returns:
  assumes q: "0 < q" and d: "distinct (map ca_location cs)" and sh: "printable sh"
    and run: "routeOrder sh distance sku q dest cs strategy rate = Inr p"
  obtains as where "serves cs as" and "total_quantity as = q" and "fp_allocations p = as" and "fp_splits p = of_nat (length as) - 1"
    and "fp_cost p = (\<Sum>a\<leftarrow>as. projr (rate (al_location a) sku (al_quantity a)))"
    and "length as \<le> length cs"
    and "\<And>as'. as' \<in> set (generatePlans (in_stock_candidates cs) q) \<Longrightarrow> \<exists>p'. fp_allocations p' = as' \<and> fp_splits p' = of_nat (length as') - 1
      \<and> fp_cost p' = (\<Sum>a\<leftarrow>as'. projr (rate (al_location a) sku (al_quantity a)))
      \<and> fp_distance p' = (\<Sum>a\<leftarrow>as'. lookup_or 0 (distance_cache distance dest (in_stock_candidates cs)) (al_location a))
      \<and> strategy (p\<lparr>fp_score := 0\<rparr>) \<le> strategy (p'\<lparr>fp_score := 0\<rparr>)"
    and "fp_distance p = (\<Sum>a\<leftarrow>as. lookup_or 0 (distance_cache distance dest (in_stock_candidates cs)) (al_location a))"
proof -
  let ?act = "in_stock_candidates cs"
  let ?plans = "generatePlans ?act q"
  have ne: "?plans \<noteq> []" using run by (auto simp: routeOrder_def active_candidates_eq Let_def split: if_splits)
  obtain rates where rates: "rate_cache rate sku (unique_rate_requests sh ?plans) = Inr rates"
    and p: "p = sort_key fp_score (map (plan_of sh (distance_cache distance dest ?act) rates strategy) ?plans) ! 0"
    using run by (auto simp: routeOrder_def active_candidates_eq Let_def result_bind_Inr_iff split: if_splits)
  let ?plan = "plan_of sh (distance_cache distance dest ?act) rates strategy"
  have ne': "map ?plan ?plans \<noteq> []" using ne by simp
  from sort_key_least(1) [OF ne', of fp_score] obtain as where as: "as \<in> set ?plans" "p = ?plan as" by (auto simp: p)
  have cost: "fp_cost (?plan as') = (\<Sum>a\<leftarrow>as'. projr (rate (al_location a) sku (al_quantity a)))" if "as' \<in> set ?plans" for as'
    unfolding plan_of_values using that
    by (intro arg_cong [of _ _ sum_list] map_cong refl rate_cache_lookup [OF sh rates]) auto
  have "distinct (map ca_location ?act)" using d by (simp add: distinct_map_filter)
  from allocate_from_sound [OF this less_imp_le [OF q] as(1) [unfolded generatePlans_def]]
  have sound: "serves ?act as" "total_quantity as = q" "length as \<le> length ?act" by auto
  show thesis
  proof (rule that [OF _ sound(2)])
    show "serves cs as" using sound(1) by (fastforce simp: serves_def)
    show "fp_allocations p = as" "fp_splits p = of_nat (length as) - 1"
      "fp_distance p = (\<Sum>a\<leftarrow>as. lookup_or 0 (distance_cache distance dest ?act) (al_location a))"
      by (simp_all add: as(2) plan_of_values)
    show "fp_cost p = (\<Sum>a\<leftarrow>as. projr (rate (al_location a) sku (al_quantity a)))" using cost [OF as(1)] by (simp add: as(2))
    show "length as \<le> length cs" using sound(3) length_filter_le [of "\<lambda>c. ca_available c > 0" cs] by (rule le_trans)
    fix as' assume as': "as' \<in> set ?plans"
    then have "fp_score p \<le> fp_score (?plan as')" unfolding p by (intro sort_key_least(2) [OF ne']) simp
    then have "strategy (p\<lparr>fp_score := 0\<rparr>) \<le> strategy ((?plan as')\<lparr>fp_score := 0\<rparr>)"
      by (simp only: as(2) plan_of_values(5) [of sh _ rates strategy])
    with cost [OF as'] show "\<exists>p'. fp_allocations p' = as' \<and> fp_splits p' = of_nat (length as') - 1
      \<and> fp_cost p' = (\<Sum>a\<leftarrow>as'. projr (rate (al_location a) sku (al_quantity a)))
      \<and> fp_distance p' = (\<Sum>a\<leftarrow>as'. lookup_or 0 (distance_cache distance dest ?act) (al_location a))
      \<and> strategy (p\<lparr>fp_score := 0\<rparr>) \<le> strategy (p'\<lparr>fp_score := 0\<rparr>)"
      by (intro exI [of _ "?plan as'"] conjI plan_of_values(1,2,4)) simp_all
  qed
qed

lemma served_from:
  assumes d: "distinct (map ca_location cs)" and as: "serves cs as"
  defines "used \<equiv> filter (\<lambda>c. ca_location c \<in> al_location ` set as) (in_stock_candidates cs)"
  shows "total_quantity as \<le> stock_of_candidates used" and "length used \<le> length as"
proof -
  have da: "distinct as" "inj_on al_location (set as)" using as by (simp_all add: serves_def distinct_map)
  have du: "distinct (map ca_location used)" using d by (simp add: used_def distinct_map_filter)
  then have du': "distinct used" by (simp add: distinct_map)
  have "sum al_quantity (set as) \<le> sum ca_available (set used)"
  proof (rule sum_le_included [where i = "\<lambda>c. inv_into (set as) al_location (ca_location c)"])
    show "\<forall>c\<in>set used. 0 \<le> ca_available c" by (auto simp: used_def)
    show "\<forall>a\<in>set as. \<exists>c\<in>set used. inv_into (set as) al_location (ca_location c) = a \<and> al_quantity a \<le> ca_available c"
    proof
      fix a assume a: "a \<in> set as"
      with as obtain c where c: "c \<in> set cs" "ca_location c = al_location a" "al_quantity a \<le> ca_available c" "0 < al_quantity a"
        by (auto simp: serves_def)
      then have "c \<in> set used" using a by (auto simp: used_def)
      moreover have "inv_into (set as) al_location (ca_location c) = a" using c(2) a da(2) by (simp add: inv_into_f_f)
      ultimately show "\<exists>c\<in>set used. inv_into (set as) al_location (ca_location c) = a \<and> al_quantity a \<le> ca_available c" using c(3) by blast
    qed
  qed simp_all
  then show "total_quantity as \<le> stock_of_candidates used" using da(1) du' by (simp add: sum_list_distinct_conv_sum_set)
  have "length used = card (set (map ca_location used))" using distinct_card [OF du] by simp
  also have "\<dots> \<le> card (set (map al_location as))" by (intro card_mono) (auto simp: used_def)
  also have "\<dots> \<le> length as" using card_length [of "map al_location as"] by simp
  finally show "length used \<le> length as" .
qed

lemma legs_bound:
  fixes f :: "allocation \<Rightarrow> number"
  shows "\<forall>a\<in>set xs. 0 \<le> f a \<and> f a \<le> B \<Longrightarrow> 0 \<le> (\<Sum>a\<leftarrow>xs. f a) \<and> (\<Sum>a\<leftarrow>xs. f a) \<le> B * of_nat (length xs)"
  by (induction xs) (auto simp: algebra_simps)

text \<open>
  C32. Splitting as little as possible is possible: with the strategy that minimises splits, if no leg costs more than \<open>B\<close> in cents and
  tenths of kilometres together and all legs stay below the penalty of a split, the plan that is chosen uses no more
  locations than any way at all to serve the order from the stock of the candidates.
\<close>

theorem splits_are_minimal:
  assumes q: "0 < q" and d: "distinct (map ca_location cs)" and sh: "printable sh"
    and leg: "\<forall>c\<in>set cs. \<forall>x. 0 \<le> projr (rate (ca_location c) sku x) + distance (ca_geo c) dest / 10
        \<and> projr (rate (ca_location c) sku x) + distance (ca_geo c) dest / 10 \<le> B"
    and small: "B * of_nat (length cs) < 1000000"
    and run: "routeOrder sh distance sku q dest cs MinimizeSplits_score rate = Inr p"
    and other: "serves cs as" "total_quantity as = q"
  shows "length (fp_allocations p) \<le> length as"
proof (rule ccontr)
  let ?act = "in_stock_candidates cs"
  let ?leg = "\<lambda>a. projr (rate (al_location a) sku (al_quantity a)) + lookup_or 0 (distance_cache distance dest ?act) (al_location a) / 10"
  assume "\<not> length (fp_allocations p) \<le> length as"
  then have more: "length as < length (fp_allocations p)" by simp
  obtain best where best: "serves cs best" "total_quantity best = q" "fp_allocations p = best" "fp_splits p = of_nat (length best) - 1"
      "fp_cost p = (\<Sum>a\<leftarrow>best. projr (rate (al_location a) sku (al_quantity a)))" "length best \<le> length cs"
      "fp_distance p = (\<Sum>a\<leftarrow>best. lookup_or 0 (distance_cache distance dest ?act) (al_location a))"
    and least: "\<And>as'. as' \<in> set (generatePlans ?act q) \<Longrightarrow> \<exists>p'. fp_allocations p' = as' \<and> fp_splits p' = of_nat (length as') - 1
      \<and> fp_cost p' = (\<Sum>a\<leftarrow>as'. projr (rate (al_location a) sku (al_quantity a)))
      \<and> fp_distance p' = (\<Sum>a\<leftarrow>as'. lookup_or 0 (distance_cache distance dest ?act) (al_location a))
      \<and> MinimizeSplits_score (p\<lparr>fp_score := 0\<rparr>) \<le> MinimizeSplits_score (p'\<lparr>fp_score := 0\<rparr>)"
    by (rule routeOrder_returns [OF q d sh run]) blast
  have dact: "distinct (map ca_location ?act)" using d by (simp add: distinct_map_filter)
  define used where "used = filter (\<lambda>c. ca_location c \<in> al_location ` set as) ?act"
  note from_stock = served_from [OF d other(1), folded used_def]
  have "used \<in> set (subseqs ?act)" unfolding used_def by (rule filter_sub)
  from allocate_from_complete [OF this q, of "[]"] from_stock(1) other(2)
  obtain quick where quick: "quick \<in> set (generatePlans ?act q)" "length quick \<le> length used" by (auto simp: generatePlans_def)
  have legs: "0 \<le> (\<Sum>a\<leftarrow>xs. ?leg a) \<and> (\<Sum>a\<leftarrow>xs. ?leg a) < 1000000" if xs: "serves cs xs" "length xs \<le> length cs" for xs
  proof -
    have one: "0 \<le> ?leg a \<and> ?leg a \<le> B" if "a \<in> set xs" for a
    proof -
      from that xs(1) obtain c where c: "c \<in> set cs" "ca_location c = al_location a" "0 < ca_available c" by (fastforce simp: serves_def)
      then have "lookup_or 0 (distance_cache distance dest ?act) (al_location a) = distance (ca_geo c) dest"
        using distance_lookup [OF dact, of c] by simp
      with leg c(1,2) show ?thesis by auto
    qed
    then have sums: "0 \<le> (\<Sum>a\<leftarrow>xs. ?leg a) \<and> (\<Sum>a\<leftarrow>xs. ?leg a) \<le> B * of_nat (length xs)" by (intro legs_bound) blast
    have "B * of_nat (length xs) < 1000000"
    proof (cases "0 \<le> B")
      case True
      with xs(2) have "B * of_nat (length xs) \<le> B * of_nat (length cs)" by (intro mult_left_mono) simp_all
      with small show ?thesis by simp
    next
      case False
      then have "B * of_nat (length xs) \<le> 0" by (simp add: mult_nonpos_nonneg)
      then show ?thesis by simp
    qed
    with sums show ?thesis by simp
  qed
  have score: "MinimizeSplits_score (p'\<lparr>fp_score := 0\<rparr>) = (of_nat (length xs) - 1) * 1000000 + (\<Sum>a\<leftarrow>xs. ?leg a)"
    if "fp_splits p' = of_nat (length xs) - 1" "fp_cost p' = (\<Sum>a\<leftarrow>xs. projr (rate (al_location a) sku (al_quantity a)))"
      "fp_distance p' = (\<Sum>a\<leftarrow>xs. lookup_or 0 (distance_cache distance dest ?act) (al_location a))" for p' xs
  proof -
    have "(\<Sum>a\<leftarrow>xs. ?leg a) = (\<Sum>a\<leftarrow>xs. projr (rate (al_location a) sku (al_quantity a)))
        + (\<Sum>a\<leftarrow>xs. lookup_or 0 (distance_cache distance dest ?act) (al_location a)) / 10"
      by (induction xs) (simp_all add: add_divide_distrib)
    with that show ?thesis by (simp add: MinimizeSplits_score_def)
  qed
  have "serves ?act quick" "length quick \<le> length ?act"
    using allocate_from_sound [OF dact less_imp_le [OF q] quick(1) [unfolded generatePlans_def]] by auto
  then have "serves cs quick" "length quick \<le> length cs" by (auto simp: serves_def intro: le_trans [OF _ length_filter_le])
  from legs [OF this] have fast: "(\<Sum>a\<leftarrow>quick. ?leg a) < 1000000" by simp
  from least [OF quick(1)] obtain p' where "fp_splits p' = of_nat (length quick) - 1"
    "fp_cost p' = (\<Sum>a\<leftarrow>quick. projr (rate (al_location a) sku (al_quantity a)))"
    "fp_distance p' = (\<Sum>a\<leftarrow>quick. lookup_or 0 (distance_cache distance dest ?act) (al_location a))"
    and le: "MinimizeSplits_score (p\<lparr>fp_score := 0\<rparr>) \<le> MinimizeSplits_score (p'\<lparr>fp_score := 0\<rparr>)" by blast
  note score [OF this(1-3)]
  moreover note score [OF best(4,5,7)]
  moreover have "0 \<le> (\<Sum>a\<leftarrow>best. ?leg a)" using legs [OF best(1,6)] by simp
  ultimately have "of_nat (length best) * 1000000 < (of_nat (length quick) + 1) * (1000000 :: number)" using le fast by (simp add: algebra_simps)
  then have "of_nat (length best) < (of_nat (length quick + 1) :: number)" by simp
  then have "length best < length quick + 1" by (simp only: of_nat_less_iff)
  with more quick(2) from_stock(2) best(3) show False by simp
qed

section \<open>The use case\<close>

text \<open>Every address and every warehouse is given a place on the globe.\<close>

lemma geocoded: "\<exists>g. geocodeAddress address = Inr g" and placed: "\<exists>g. getWarehouseGeoLocation loc = Inr g"
proof -
  have place: "0 \<le> a \<Longrightarrow> a \<le> 24 \<Longrightarrow> 0 \<le> b \<Longrightarrow> b \<le> 58 \<Longrightarrow> \<exists>g. GeoLocation (25 + a) (- 125 + b) = Inr g" for a b :: number
    by (simp add: GeoLocation_def)
  have "\<exists>g. GeoLocation (25 + of_int (h mod 24)) (- 125 + of_int (h mod 58)) = Inr g" for h :: int
  proof (rule place)
    have "h mod 24 \<le> 24" "h mod 58 \<le> 58" by (simp_all add: less_imp_le)
    then show "(of_int (h mod 24) :: number) \<le> 24" "(of_int (h mod 58) :: number) \<le> 58" by linarith+
  qed simp_all
  then show "\<exists>g. geocodeAddress address = Inr g" unfolding geocodeAddress_def Let_def by (simp add: GeoLocation_def)
  show "\<exists>g. getWarehouseGeoLocation loc = Inr g" by (simp add: getWarehouseGeoLocation_def Let_def GeoLocation_def)
qed

lemma shipping_rate_returns: "\<exists>r. shipping_rate getRates destination l sku x = Inr r"
  by (auto simp: shipping_rate_def split: sum.split option.split list.split)

text \<open>The word Chicago contains the letters that stand for California, and they are looked for first.\<close>

lemma chicago_is_in_california: "geocodeAddress ''Chicago'' = geocodeAddress ''Los Angeles''"
  by code_simp

abbreviation rows_of_sku :: "inventory_db \<Rightarrow> string \<Rightarrow> inventory_row list" where
  "rows_of_sku s sku \<equiv> filter (\<lambda>r. row_sku r = sku) (rows s)"

definition spare :: "inventory_row \<Rightarrow> number" where
  "spare r = max 0 (row_quantity r - row_allocated r)"

lemma candidates_of_store:
  assumes "pi_inv s"
  obtains items cs where "pi_findBySku s sku = Inr items" and "result_map candidate_of items = Inr cs"
    and "map (\<lambda>c. (ca_location c, ca_available c)) cs = map (\<lambda>r. (row_location r, spare r)) (rows_of_sku s sku)"
proof -
  have "result_map toDomain rs = Inr (map row_item rs)" if "set rs \<subseteq> set (rows s)" for rs
    using that assms by (induction rs) (auto simp: pi_inv_def toDomain_row)
  then have found: "pi_findBySku s sku = Inr (map row_item (rows_of_sku s sku))" by (simp add: pi_findBySku_def pi_select_def)
  have one: "\<exists>c. candidate_of (row_item r) = Inr c \<and> ca_location c = row_location r \<and> ca_available c = spare r" for r
    using placed [of "row_location r"] by (auto simp: candidate_of_def spare_def row_item_def InventoryItem_def)
  have "\<exists>cs. result_map candidate_of (map row_item rs) = Inr cs
      \<and> map (\<lambda>c. (ca_location c, ca_available c)) cs = map (\<lambda>r. (row_location r, spare r)) rs" for rs
  proof (induction rs)
    case (Cons r rs)
    with one [of r] show ?case by force
  qed simp
  with found that show ?thesis by blast
qed

text \<open>
  An order is routed exactly if the stock suffices: for a positive quantity the use case returns a plan if what is on hand and not
  allocated of the SKU at all locations together covers it, and throws otherwise. A plan takes exactly the quantity,
  from different locations, and from none more than its stored item has to spare.
\<close>

theorem order_routed_iff_stock:
  assumes inv: "pi_inv s" and input: "sku \<noteq> []" "0 < q" "destination \<noteq> []" and sh: "printable sh"
  shows "case RouteOrder sh distance getRates pg_inventory s sku q destination name of
      Inl e \<Rightarrow> (\<Sum>r\<leftarrow>rows_of_sku s sku. spare r) < q
    | Inr p \<Rightarrow> q \<le> (\<Sum>r\<leftarrow>rows_of_sku s sku. spare r) \<and> total_quantity (fp_allocations p) = q
        \<and> distinct (map al_location (fp_allocations p))
        \<and> (\<forall>a\<in>set (fp_allocations p). 0 < al_quantity a
            \<and> (\<exists>r\<in>set (rows s). row_sku r = sku \<and> row_location r = al_location a \<and> al_quantity a \<le> row_quantity r - row_allocated r))"
proof -
  obtain dest where dest: "geocodeAddress destination = Inr dest" using geocoded by blast
  obtain items cs where cs: "pi_findBySku s sku = Inr items" "result_map candidate_of items = Inr cs"
    and vals: "map (\<lambda>c. (ca_location c, ca_available c)) cs = map (\<lambda>r. (row_location r, spare r)) (rows_of_sku s sku)"
    by (rule candidates_of_store [OF inv])
  define near where "near = sort_key (\<lambda>c. distance (ca_geo c) dest) cs"
  let ?rate = "shipping_rate getRates destination"
  let ?engine = "routeOrder sh distance sku q dest near (strategy_of name) ?rate"
  have run: "RouteOrder sh distance getRates pg_inventory s sku q destination name = ?engine"
    using input dest cs by (simp add: RouteOrder_def pg_inventory_def near_def)
  have locs: "map ca_location cs = map row_location (rows_of_sku s sku)" "map ca_available cs = map spare (rows_of_sku s sku)"
    using arg_cong [OF vals, of "map fst"] arg_cong [OF vals, of "map snd"] by (simp_all add: comp_def)
  have "distinct (map row_location (rows_of_sku s sku))"
    using inv by (auto simp: pi_inv_def distinct_map inj_on_def)
  then have d: "distinct (map ca_location near)" unfolding near_def using locs(1) by (metis mset_map mset_sort mset_eq_imp_distinct_iff)
  have pos: "(\<Sum>c\<leftarrow>xs. ca_available c) = stock_of_candidates (in_stock_candidates xs)" if "\<forall>c\<in>set xs. 0 \<le> ca_available c" for xs
    using that by (induction xs) auto
  have "\<forall>c\<in>set cs. 0 \<le> ca_available c"
  proof
    fix c assume "c \<in> set cs"
    then have "ca_available c \<in> set (map ca_available cs)" by simp
    then show "0 \<le> ca_available c" unfolding locs(2) by (auto simp: spare_def)
  qed
  then have "stock_of_candidates (in_stock_candidates near) = (\<Sum>c\<leftarrow>cs. ca_available c)"
    using pos [of near] by (simp add: near_def)
  then have total: "stock_of_candidates (in_stock_candidates near) = (\<Sum>r\<leftarrow>rows_of_sku s sku. spare r)" by (simp add: locs(2))
  have origin: "\<exists>r\<in>set (rows s). row_sku r = sku \<and> row_location r = ca_location c \<and> spare r = ca_available c" if "c \<in> set near" for c
  proof -
    from that have "(ca_location c, ca_available c) \<in> set (map (\<lambda>c. (ca_location c, ca_available c)) cs)" by (force simp: near_def)
    then show ?thesis unfolding vals by auto
  qed
  show ?thesis unfolding run
  proof (cases ?engine)
    case (Inl e)
    have "stock_of_candidates (in_stock_candidates near) < q"
    proof (rule ccontr)
      assume enough: "\<not> stock_of_candidates (in_stock_candidates near) < q"
      then have "generatePlans (in_stock_candidates near) q \<noteq> []" using generatePlans_nonempty [OF input(2)] by simp
      moreover obtain rates where "rate_cache ?rate sku (unique_rate_requests sh (generatePlans (in_stock_candidates near) q)) = Inr rates"
        using rate_cache_total [of ?rate sku] shipping_rate_returns by blast
      ultimately show False using Inl enough by (simp add: routeOrder_def active_candidates_eq Let_def)
    qed
    with total Inl show "case ?engine of Inl e \<Rightarrow> (\<Sum>r\<leftarrow>rows_of_sku s sku. spare r) < q
    | Inr p \<Rightarrow> q \<le> (\<Sum>r\<leftarrow>rows_of_sku s sku. spare r) \<and> total_quantity (fp_allocations p) = q
        \<and> distinct (map al_location (fp_allocations p))
        \<and> (\<forall>a\<in>set (fp_allocations p). 0 < al_quantity a
            \<and> (\<exists>r\<in>set (rows s). row_sku r = sku \<and> row_location r = al_location a \<and> al_quantity a \<le> row_quantity r - row_allocated r))" by simp
  next
    case (Inr p)
    have enough: "q \<le> stock_of_candidates (in_stock_candidates near)"
      using Inr by (auto simp: routeOrder_def active_candidates_eq Let_def split: if_splits)
    obtain as where as: "serves near as" "total_quantity as = q" "fp_allocations p = as"
      by (rule routeOrder_returns [OF input(2) d sh Inr]) blast
    have "\<exists>r\<in>set (rows s). row_sku r = sku \<and> row_location r = al_location a \<and> al_quantity a \<le> row_quantity r - row_allocated r"
      if a: "a \<in> set as" for a
    proof -
      from a as(1) obtain c where c: "c \<in> set near" "ca_location c = al_location a" "al_quantity a \<le> ca_available c" "0 < al_quantity a"
        by (auto simp: serves_def)
      with origin [OF c(1)] show ?thesis by (auto simp: spare_def max_def split: if_splits)
    qed
    with as enough total Inr show "case ?engine of Inl e \<Rightarrow> (\<Sum>r\<leftarrow>rows_of_sku s sku. spare r) < q
    | Inr p \<Rightarrow> q \<le> (\<Sum>r\<leftarrow>rows_of_sku s sku. spare r) \<and> total_quantity (fp_allocations p) = q
        \<and> distinct (map al_location (fp_allocations p))
        \<and> (\<forall>a\<in>set (fp_allocations p). 0 < al_quantity a
            \<and> (\<exists>r\<in>set (rows s). row_sku r = sku \<and> row_location r = al_location a \<and> al_quantity a \<le> row_quantity r - row_allocated r))"
      by (simp add: serves_def)
  qed
qed

section \<open>Instances\<close>

definition sample_candidates :: "candidate list" where
  "sample_candidates = [\<lparr>ca_location = ''EAST'', ca_available = 4, ca_geo = \<lparr>latitude = 40, longitude = - 73\<rparr>\<rparr>,
     \<lparr>ca_location = ''WEST'', ca_available = 9, ca_geo = \<lparr>latitude = 34, longitude = - 118\<rparr>\<rparr>]"

text \<open>A printing of numbers that the theorems allow: the digits of a fraction in unary.\<close>

definition unary :: "number \<Rightarrow> string" where
  "unary x = (case quotient_of x of (a, b) \<Rightarrow> (if a < 0 then ''-'' else []) @ replicate (nat \<bar>a\<bar>) (CHR ''1'') @ ''/'' @ replicate (nat b) (CHR ''1''))"

lemma unary_printable: "printable unary"
proof -
  have "x = y" if eq: "unary x = unary y" for x y
  proof -
    obtain a b where x: "quotient_of x = (a, b)" by fastforce
    obtain a' b' where y: "quotient_of y = (a', b')" by fastforce
    let ?l = "\<lambda>a. (if a < 0 then ''-'' else []) @ replicate (nat \<bar>a\<bar>) (CHR ''1'')"
    have eq': "?l a @ CHR ''/'' # replicate (nat b) (CHR ''1'') = ?l a' @ CHR ''/'' # replicate (nat b') (CHR ''1'')"
      using eq by (simp add: unary_def x y)
    have none: "CHR ''/'' \<notin> set (replicate n (CHR ''1''))" for n by simp
    have "?l a = ?l a' \<and> replicate (nat b) (CHR ''1'') = replicate (nat b') (CHR ''1'')"
      using eq' unfolding append_last_sep [OF none none] .
    note parts = conjunct1 [OF this] conjunct2 [OF this]
    have "b = b'" using parts(2) quotient_of_denom_pos [OF x] quotient_of_denom_pos [OF y] by (metis eq_nat_nat_iff length_replicate less_imp_le)
    moreover have "a = a'"
    proof (cases "a < 0 \<longleftrightarrow> a' < 0")
      case True
      with parts(1) have "replicate (nat \<bar>a\<bar>) (CHR ''1'') = replicate (nat \<bar>a'\<bar>) (CHR ''1'')" by (auto split: if_splits)
      then have "nat \<bar>a\<bar> = nat \<bar>a'\<bar>" by (metis length_replicate)
      with True show ?thesis by arith
    next
      case False
      have "CHR ''-'' \<in> set (?l u) \<longleftrightarrow> u < 0" for u :: int by simp
      with parts(1) False show ?thesis by metis
    qed
    ultimately show ?thesis using x y by (metis quotient_of_inject)
  qed
  moreover have "CHR ''_'' \<notin> set (unary n)" for n by (auto simp: unary_def split: prod.splits)
  ultimately show ?thesis by (auto simp: printable_def inj_def)
qed

lemma engine_runs:
  assumes "0 < q" and "q \<le> stock_of_candidates (in_stock_candidates cs)" and "\<forall>l x. \<exists>r. rate l sku x = Inr r"
  shows "\<exists>p. routeOrder sh distance sku q dest cs strategy rate = Inr p"
proof -
  have "generatePlans (in_stock_candidates cs) q \<noteq> []" using generatePlans_nonempty [OF assms(1), of "in_stock_candidates cs"] assms(2) by simp
  moreover obtain rates where "rate_cache rate sku (unique_rate_requests sh (generatePlans (in_stock_candidates cs) q)) = Inr rates"
    using rate_cache_total [of rate sku, OF assms(3)] by blast
  ultimately show ?thesis using assms(2) by (simp add: routeOrder_def active_candidates_eq Let_def)
qed

theorem splits_are_minimal_witness:
  "\<exists>p. routeOrder unary (\<lambda>a b. \<bar>latitude a - latitude b\<bar>) ''MUG'' 6 \<lparr>latitude = 41, longitude = - 87\<rparr> sample_candidates MinimizeSplits_score (\<lambda>l sku x. Inr 700) = Inr p
    \<and> length (fp_allocations p) \<le> 1"
proof -
  obtain p where run: "routeOrder unary (\<lambda>a b. \<bar>latitude a - latitude b\<bar>) ''MUG'' 6 \<lparr>latitude = 41, longitude = - 87\<rparr> sample_candidates MinimizeSplits_score (\<lambda>l sku x. Inr 700) = Inr p"
  proof -
    have "\<exists>p. routeOrder unary (\<lambda>a b. \<bar>latitude a - latitude b\<bar>) ''MUG'' 6 \<lparr>latitude = 41, longitude = - 87\<rparr> sample_candidates MinimizeSplits_score (\<lambda>l sku x. Inr 700) = Inr p"
      by (rule engine_runs) (simp_all add: sample_candidates_def)
    with that show ?thesis by blast
  qed
  have "distinct (map ca_location sample_candidates)" by (simp add: sample_candidates_def)
  moreover have "\<forall>c\<in>set sample_candidates. \<forall>x. 0 \<le> projr ((\<lambda>l sku x. Inr 700) (ca_location c) ''MUG'' x :: number result) + \<bar>latitude (ca_geo c) - latitude \<lparr>latitude = 41, longitude = - 87\<rparr>\<bar> / 10
      \<and> projr ((\<lambda>l sku x. Inr 700) (ca_location c) ''MUG'' x :: number result) + \<bar>latitude (ca_geo c) - latitude \<lparr>latitude = 41, longitude = - 87\<rparr>\<bar> / 10 \<le> 800"
    by (simp add: sample_candidates_def)
  moreover have "800 * of_nat (length sample_candidates) < (1000000 :: number)" by (simp add: sample_candidates_def)
  moreover have "serves sample_candidates [\<lparr>al_location = ''WEST'', al_quantity = 6\<rparr>]" by (simp add: serves_def sample_candidates_def)
  ultimately have "length (fp_allocations p) \<le> length [\<lparr>al_location = ''WEST'', al_quantity = 6\<rparr>]"
    by (intro splits_are_minimal [where B = 800, OF _ _ unary_printable _ _ run]) simp_all
  with run show ?thesis by auto
qed

definition sample_stock :: inventory_db where
  "sample_stock = \<lparr>rows = [
     \<lparr>row_id = ''i1'', row_sku = ''MUG'', row_location = ''EAST'', row_quantity = 5, row_allocated = 1, row_inTransit = 0, row_version = 1\<rparr>,
     \<lparr>row_id = ''i2'', row_sku = ''MUG'', row_location = ''WEST'', row_quantity = 9, row_allocated = 0, row_inTransit = 0, row_version = 1\<rparr>],
   outbox_events = []\<rparr>"

lemma sample_stock_ok: "pi_inv sample_stock"
proof -
  have "Sku ''MUG'' = Inr ''MUG''" "LocationId ''EAST'' = Inr ''EAST''" "LocationId ''WEST'' = Inr ''WEST''"
    "InventoryItemId ''i1'' = Inr ''i1''" "InventoryItemId ''i2'' = Inr ''i2''" by code_simp+
  then show ?thesis by (simp add: pi_inv_def sample_stock_def storable_def row_item_def InventoryItem_def item_ok_def)
qed

theorem order_routed_iff_stock_witness:
  "\<exists>p. RouteOrder unary (\<lambda>a b. 0) (\<lambda>sku q a l. Inr None) pg_inventory sample_stock ''MUG'' 11 ''Dallas'' None = Inr p
    \<and> total_quantity (fp_allocations p) = 11"
proof -
  have "(\<Sum>r\<leftarrow>rows_of_sku sample_stock ''MUG''. spare r) = 13" by (simp add: sample_stock_def spare_def)
  with order_routed_iff_stock [OF sample_stock_ok, of "''MUG''" 11 "''Dallas''" unary "\<lambda>a b. 0" "\<lambda>sku q a l. Inr None" None] unary_printable
  show ?thesis by (auto split: sum.splits)
qed

end
