(* ===== verification/Valuation.thy ===== *)
theory Valuation
  imports Kitting InventoryStore ItemWork
begin

text \<open>
  Reports on the stock: src/src/application/useCases/GetStockValuationReport.ts, which values what is on hand by the
  cost layers, and GetStockLevels.ts. \<open>iso8601\<close> is \<open>Date.toISOString\<close>.
\<close>

section \<open>Stock levels\<close>

definition GetStockLevelsUseCase :: "'s inventory_repo \<Rightarrow> 's \<Rightarrow> item_dto list result" where
  "GetStockLevelsUseCase repo s = result_bind (findAllItems repo s) (\<lambda>is. Inr (map toDTO is))"

definition GetStockLevelsBySkuUseCase :: "'s inventory_repo \<Rightarrow> 's \<Rightarrow> string \<Rightarrow> item_dto list result" where
  "GetStockLevelsBySkuUseCase repo s sku = result_bind (findItemsOfSku repo s sku) (\<lambda>is. Inr (map toDTO is))"

definition GetStockLevelBySkuAndLocationUseCase ::
    "'s inventory_repo \<Rightarrow> 's \<Rightarrow> string \<Rightarrow> string \<Rightarrow> item_dto option result" where
  "GetStockLevelBySkuAndLocationUseCase repo s sku loc =
     result_bind (findBySkuAndLocation repo s sku loc) (\<lambda>found. Inr (map_option toDTO found))"

section \<open>The valuation report\<close>

record valuation_line =
  vl_sku :: string
  vl_variant :: ident
  vl_location :: string
  vl_quantity :: number
  vl_unitCost :: number
  vl_total :: number
  vl_method :: costing_method

record valuation_report =
  vr_tenant :: string
  vr_location :: "string option"
  vr_method :: costing_method
  vr_generatedAt :: string
  vr_total :: number
  vr_lines :: "valuation_line list"

definition sku_to_variant :: "string list \<Rightarrow> product list \<Rightarrow> (string, ident) js_map" where
  "sku_to_variant skus ps = fold (\<lambda>p. fold (\<lambda>v m. if pv_sku v \<in> set skus
     then AList.update (pv_sku v) (pv_id v) m else m) (variants p)) ps []"

definition counted_variant :: "(string, ident) js_map \<Rightarrow> inventory_item \<Rightarrow> ident option" where
  "counted_variant ids i = (if amount (on_hand i) \<le> 0 then None
     else case map_of ids (isku i) of None \<Rightarrow> None | Some v \<Rightarrow> if v = [] then None else Some v)"

definition variant_quantities :: "(string, ident) js_map \<Rightarrow> inventory_item list \<Rightarrow> (ident, number) js_map" where
  "variant_quantities ids items = fold (\<lambda>i m. case counted_variant ids i of None \<Rightarrow> m
     | Some v \<Rightarrow> AList.update v (lookup_or 0 m v + amount (on_hand i)) m) items []"

definition valuation_request :: "(ident, number) js_map \<Rightarrow> issue_item list result" where
  "valuation_request m = result_map (\<lambda>(v, q). result_bind (ProductVariantId v) (\<lambda>v'.
     Inr \<lparr>it_variant = v', it_quantity = q\<rparr>)) m"

definition cost_map :: "issue_item list \<Rightarrow> cost_breakdown option list \<Rightarrow> (ident, cost_breakdown option) js_map" where
  "cost_map request results = fold (\<lambda>(i, b) m. AList.update (it_variant i) b m) (zip request results) []"

definition variant_unit_cost :: "(ident, number) js_map \<Rightarrow> (ident, cost_breakdown option) js_map \<Rightarrow> ident \<Rightarrow> number" where
  "variant_unit_cost quantities costs v =
     (let known = lookup_or 0 quantities v; totalVariantQty = (if known = 0 then 1 else known)
      in case lookup_or None costs v of None \<Rightarrow> 0
         | Some b \<Rightarrow> if totalCostCents b > 0 then js_round (totalCostCents b / totalVariantQty) else 0)"

definition valuation_line_of ::
    "costing_method \<Rightarrow> (ident, number) js_map \<Rightarrow> (ident, cost_breakdown option) js_map \<Rightarrow> ident \<Rightarrow> inventory_item \<Rightarrow> valuation_line" where
  "valuation_line_of m quantities costs v i =
     (let qtyOnHand = amount (on_hand i); unitCost = variant_unit_cost quantities costs v
      in \<lparr>vl_sku = isku i, vl_variant = v, vl_location = ilocationId i, vl_quantity = qtyOnHand, vl_unitCost = unitCost,
          vl_total = js_round (unitCost * qtyOnHand), vl_method = m\<rparr>)"

definition filtered_items :: "'s inventory_repo \<Rightarrow> 's \<Rightarrow> string option \<Rightarrow> inventory_item list result" where
  "filtered_items repo s location = (case location of Some loc \<Rightarrow> if loc = [] then findAllItems repo s else findItemsAt repo s loc
     | None \<Rightarrow> findAllItems repo s)"

definition GetStockValuationReport ::
    "(time \<Rightarrow> string) \<Rightarrow> time \<Rightarrow> 'i inventory_repo \<Rightarrow> 'i \<Rightarrow> 'c layer_repo \<Rightarrow> 'c \<Rightarrow> product_repo
     \<Rightarrow> string \<Rightarrow> string option \<Rightarrow> costing_method \<Rightarrow> valuation_report result" where
  "GetStockValuationReport iso8601 now irepo si crepo sc prepo tenant location m =
     result_bind (filtered_items irepo si location) (\<lambda>items.
     let uniqueSkus = js_set (map isku items) in
     result_bind (result_map Sku uniqueSkus) (\<lambda>skus.
     let ids = sku_to_variant uniqueSkus (find_by_skus prepo skus);
         quantities = variant_quantities ids items in
     result_bind (valuation_request quantities) (\<lambda>request.
     let costs = cost_map request (calculateCostBatch crepo sc request m []);
         ls = List.map_filter (\<lambda>i. map_option (\<lambda>v. valuation_line_of m quantities costs v i) (counted_variant ids i)) items
     in Inr \<lparr>vr_tenant = tenant, vr_location = location, vr_method = m, vr_generatedAt = iso8601 now,
          vr_total = fold (\<lambda>l t. t + vl_total l) ls 0, vr_lines = ls\<rparr>)))"

section \<open>Sums over the variants\<close>

lemma sum_add_update:
  fixes g :: "ident \<Rightarrow> number"
  shows "distinct (map fst m) \<Longrightarrow> (\<Sum>(v, q)\<leftarrow>AList.update k (lookup_or 0 m k + x) m. g v * q) = (\<Sum>(v, q)\<leftarrow>m. g v * q) + g k * x"
proof (induction m)
  case (Cons e m)
  obtain v q where e: "e = (v, q)" by (cases e)
  show ?case
  proof (cases "v = k")
    case True
    then show ?thesis by (simp add: e lookup_or_def distrib_left)
  next
    case False
    with Cons show ?thesis by (simp add: e lookup_or_def)
  qed
qed (simp add: lookup_or_def)

lemma quantities_sound:
  "distinct (map fst (variant_quantities ids items)) \<and> (\<forall>(v, q)\<in>set (variant_quantities ids items). 0 < q)
    \<and> (\<forall>i\<in>set items. \<forall>v. counted_variant ids i = Some v \<longrightarrow> v \<in> fst ` set (variant_quantities ids items))
    \<and> (\<forall>g. (\<Sum>(v, q)\<leftarrow>variant_quantities ids items. g v * q)
        = (\<Sum>i\<leftarrow>items. case counted_variant ids i of None \<Rightarrow> 0 | Some v \<Rightarrow> g v * amount (on_hand i)))"
proof -
  let ?f = "\<lambda>i m. case counted_variant ids i of None \<Rightarrow> m | Some v \<Rightarrow> AList.update v (lookup_or 0 m v + amount (on_hand i)) m"
  have "distinct (map fst (fold ?f items m)) \<and> (\<forall>(v, q)\<in>set (fold ?f items m). 0 < q)
    \<and> fst ` set m \<subseteq> fst ` set (fold ?f items m)
    \<and> (\<forall>i\<in>set items. \<forall>v. counted_variant ids i = Some v \<longrightarrow> v \<in> fst ` set (fold ?f items m))
    \<and> (\<forall>g. (\<Sum>(v, q)\<leftarrow>fold ?f items m. g v * q)
        = (\<Sum>(v, q)\<leftarrow>m. g v * q) + (\<Sum>i\<leftarrow>items. case counted_variant ids i of None \<Rightarrow> 0 | Some v \<Rightarrow> g v * amount (on_hand i)))"
    if "distinct (map fst m)" "\<forall>(v, q)\<in>set m. 0 < q" for m :: "(ident, number) js_map"
    using that
  proof (induction items arbitrary: m)
    case (Cons i items)
    show ?case
    proof (cases "counted_variant ids i")
      case None
      with Cons.IH [OF Cons.prems] show ?thesis by simp
    next
      case (Some v)
      let ?m = "AList.update v (lookup_or 0 m v + amount (on_hand i)) m"
      have pos: "0 < amount (on_hand i)" using Some by (auto simp: counted_variant_def split: if_splits)
      have old: "0 \<le> lookup_or 0 m v" using Cons.prems(2) by (auto simp: lookup_or_def dest!: map_of_SomeD split: option.splits)
      have d: "distinct (map fst ?m)" using Cons.prems(1) by (simp add: AList.distinct_update)
      have p: "\<forall>(v, q)\<in>set ?m. 0 < q" using Cons.prems pos old set_update_items [OF Cons.prems(1), of v] by auto
      have keys: "fst ` set ?m = insert v (fst ` set m)" by (simp add: dom_update)
      note ih = Cons.IH [OF d p]
      from ih Some keys sum_add_update [OF Cons.prems(1), of _ v "amount (on_hand i)"] show ?thesis by auto
    qed
  qed simp
  from this [of "[]"] show ?thesis by (simp add: variant_quantities_def)
qed

section \<open>The cost of a variant\<close>

lemma valuation_empty: "layers_ok ls \<Longrightarrow> units ls = 0 \<Longrightarrow> valuation ls = 0"
proof (induction ls)
  case (Cons l ls)
  then have ok: "layer_ok l" "layers_ok ls" by auto
  then have "0 \<le> remainingQuantity l" "0 \<le> units ls" by (auto simp: remaining_nonneg units_nonneg)
  with Cons.prems(2) have "remainingQuantity l = 0" "units ls = 0" by auto
  with Cons.IH ok show ?case by (simp add: remainingCostCents_def)
qed simp

lemma whole_stock_quote:
  assumes "table_ok tbl" and "variant_units tbl v = q"
  shows "\<exists>b. svc_calculateCost pg_layers tbl v q FIFO = Inr b \<and> totalCostCents b = valuation (fifo_layers tbl v)"
proof -
  let ?i = "\<lparr>it_variant = v, it_quantity = q\<rparr>"
  have "units (fifo_layers tbl v) = q" using assms by (simp add: pg_units)
  with units_nonneg [OF active_ok [OF assms(1)]] have q: "0 \<le> q" by metis
  note facts = drawn_facts [OF assms(1), of ?i]
  have cov: "coverable tbl ?i" using assms(2) by (simp add: coverable_def)
  from facts(1,3) cov q assms(2) have "valuation (drawn tbl ?i) = 0" by (intro valuation_empty) simp_all
  with facts(4) cov q obtain b where "draw_down q (fifo_layers tbl v) = (Inr b, drawn tbl ?i)"
    and "totalCostCents b = valuation (fifo_layers tbl v)" by auto
  then show ?thesis
    by (simp add: svc_calculateCost_def pg_layers_def order_of_def fifo_calculateCost_def price_eq_draw_down
      pg_getActiveLayers_def ordered_rows_fixed)
qed

lemma valuation_request_eq:
  "valuation_request m = Inr req \<Longrightarrow> req = map (\<lambda>(v, q). \<lparr>it_variant = v, it_quantity = q\<rparr>) m"
proof (induction m arbitrary: req)
  case (Cons e m)
  then show ?case
    by (cases e) (auto simp: valuation_request_def ProductVariantId_def make_id_def split: sum.splits if_splits)
qed (simp add: valuation_request_def)

lemma cost_map_at:
  assumes "distinct (map it_variant req)" and "length results = length req" and "k < length req"
  shows "lookup_or None (cost_map req results) (it_variant (req ! k)) = results ! k"
proof -
  have other: "map_of (fold (\<lambda>(i, b) m. AList.update (it_variant i) b m) xs m) v = map_of m v"
    if "v \<notin> it_variant ` fst ` set xs" for v and xs :: "(issue_item \<times> cost_breakdown option) list" and m
    using that by (induction xs arbitrary: m) auto
  have hit: "map_of (fold (\<lambda>(i, b) m. AList.update (it_variant i) b m) xs m) (it_variant i) = Some b"
    if "(i, b) \<in> set xs" "distinct (map (it_variant \<circ> fst) xs)"
    for i b and xs :: "(issue_item \<times> cost_breakdown option) list" and m
    using that
  proof (induction xs arbitrary: m)
    case (Cons x xs)
    show ?case
    proof (cases "x = (i, b)")
      case True
      with Cons.prems(2) other [of "it_variant i" xs] show ?thesis by (simp add: image_image)
    next
      case False
      with Cons show ?thesis by (cases x) auto
    qed
  qed simp
  have "(req ! k, results ! k) \<in> set (zip req results)" using assms(2,3) by (auto simp: set_zip)
  moreover have "map (it_variant \<circ> fst) (zip req results) = map it_variant req"
    using assms(2) by (simp flip: map_map)
  ultimately show ?thesis using hit assms(1) by (simp add: cost_map_def lookup_or_def)
qed

lemma length_calculateCostBatch: "length (calculateCostBatch repo s items m ms) = length items"
proof -
  have one: "length (quote_group repo s g rs) = length rs" for g rs
    by (cases g) (simp only: quote_group_def Let_def prod.case length_fold_index_update)
  have "length (fold (quote_group repo s) gs rs) = length rs" for gs rs
    by (induction gs arbitrary: rs) (simp_all add: one)
  then show ?thesis by (simp add: calculateCostBatch_def Let_def)
qed

lemma variant_cost:
  assumes "table_ok tbl" and "distinct (map fst m)" and "valuation_request m = Inr req"
    and "(v, q) \<in> set m" and "variant_units tbl v = q"
  shows "\<exists>b. lookup_or None (cost_map req (calculateCostBatch pg_layers tbl req FIFO [])) v = Some b
    \<and> totalCostCents b = valuation (fifo_layers tbl v)"
proof -
  note req = valuation_request_eq [OF assms(3)]
  from assms(4) obtain k where k: "k < length m" "m ! k = (v, q)" by (metis in_set_conv_nth)
  then have at: "k < length req" "req ! k = \<lparr>it_variant = v, it_quantity = q\<rparr>" by (simp_all add: req)
  have keys: "map it_variant req = map fst m" by (simp add: req comp_def case_prod_beta)
  from batch_quote_is_single_quotes [OF at(1), of "[]" FIFO tbl] whole_stock_quote [OF assms(1,5)] at(2)
  obtain b where "calculateCostBatch pg_layers tbl req FIFO [] ! k = Some b" "totalCostCents b = valuation (fifo_layers tbl v)"
    by (auto simp: method_for_def lookup_or_def)
  with cost_map_at [of req "calculateCostBatch pg_layers tbl req FIFO []" k] at keys assms(2)
  show ?thesis by (simp add: length_calculateCostBatch)
qed

lemma unit_cost_rounded:
  assumes "table_ok tbl" and "distinct (map fst m)" and "valuation_request m = Inr req"
    and "(v, q) \<in> set m" and "variant_units tbl v = q" and "0 < q"
  shows "\<bar>variant_unit_cost m (cost_map req (calculateCostBatch pg_layers tbl req FIFO [])) v * q
    - valuation (fifo_layers tbl v)\<bar> \<le> q / 2"
proof -
  from variant_cost [OF assms(1-5)] obtain b where
    b: "lookup_or None (cost_map req (calculateCostBatch pg_layers tbl req FIFO [])) v = Some b"
      "totalCostCents b = valuation (fifo_layers tbl v)" by blast
  have m: "lookup_or 0 m v = q" using assms(2,4) by (simp add: lookup_or_def)
  have "0 \<le> valuation (fifo_layers tbl v)" by (rule valuation_nonneg [OF active_ok [OF assms(1)]])
  with rounded_value [OF assms(6), of "valuation (fifo_layers tbl v)"] assms(6) b m
  show ?thesis by (auto simp: variant_unit_cost_def Let_def mult.commute)
qed

text \<open>
  With more on hand than its layers hold, a variant is quoted as an error, which the batch quote turns into null,
  and the whole of its stock is then valued at nothing.
\<close>

lemma unlayered_stock_is_worthless:
  assumes "table_ok tbl" and "distinct (map fst m)" and "valuation_request m = Inr req"
    and "(v, q) \<in> set m" and "variant_units tbl v < q"
  shows "variant_unit_cost m (cost_map req (calculateCostBatch pg_layers tbl req FIFO [])) v = 0"
proof -
  note req = valuation_request_eq [OF assms(3)]
  from assms(4) obtain k where k: "k < length m" "m ! k = (v, q)" by (metis in_set_conv_nth)
  then have at: "k < length req" "req ! k = \<lparr>it_variant = v, it_quantity = q\<rparr>" by (simp_all add: req)
  have keys: "map it_variant req = map fst m" by (simp add: req comp_def case_prod_beta)
  have "0 \<le> q" using units_nonneg [OF active_ok [OF assms(1)], of v ReceivedAsc] assms(5) pg_units [OF assms(1)] by auto
  with drawn_facts(5) [OF assms(1), of "\<lparr>it_variant = v, it_quantity = q\<rparr>"] assms(5)
  obtain e where "svc_calculateCost pg_layers tbl v q FIFO = Inl e"
    by (auto simp: coverable_def svc_calculateCost_def pg_layers_def order_of_def fifo_calculateCost_def price_eq_draw_down
      pg_getActiveLayers_def ordered_rows_fixed)
  with batch_quote_is_single_quotes [OF at(1), of "[]" FIFO tbl] at(2)
  have "calculateCostBatch pg_layers tbl req FIFO [] ! k = None" by (simp add: method_for_def lookup_or_def)
  with cost_map_at [of req "calculateCostBatch pg_layers tbl req FIFO []" k] at keys assms(2)
  show ?thesis by (simp add: variant_unit_cost_def length_calculateCostBatch)
qed

lemma unit_cost_integer: "is_integer (variant_unit_cost m costs v)"
  by (simp add: variant_unit_cost_def Let_def split: option.split)

section \<open>Totals\<close>

lemma report_total:
  assumes "\<forall>i\<in>set items. is_integer (amount (on_hand i))"
  shows "fold (\<lambda>l t. t + vl_total l) (List.map_filter (\<lambda>i. map_option (\<lambda>v. valuation_line_of m qs costs v i)
      (counted_variant ids i)) items) 0
    = (\<Sum>(v, q)\<leftarrow>variant_quantities ids items. variant_unit_cost qs costs v * q)"
proof -
  let ?ls = "List.map_filter (\<lambda>i. map_option (\<lambda>v. valuation_line_of m qs costs v i) (counted_variant ids i))"
  have fold: "fold (\<lambda>l t. t + vl_total l) ls t = t + (\<Sum>l\<leftarrow>ls. vl_total l)" for ls t
    by (induction ls arbitrary: t) (simp_all add: add.assoc)
  have "(\<Sum>l\<leftarrow>?ls items. vl_total l)
      = (\<Sum>i\<leftarrow>items. case counted_variant ids i of None \<Rightarrow> 0 | Some v \<Rightarrow> variant_unit_cost qs costs v * amount (on_hand i))"
    using assms
  proof (induction items)
    case (Cons i items)
    then show ?case
      by (cases "counted_variant ids i")
        (simp_all add: map_filter_simps valuation_line_of_def Let_def js_round_of_integer is_integer_mult unit_cost_integer)
  qed (simp add: map_filter_simps)
  also have "\<dots> = (\<Sum>(v, q)\<leftarrow>variant_quantities ids items. variant_unit_cost qs costs v * q)"
    using quantities_sound [of ids items] by (elim conjE allE [of _ "variant_unit_cost qs costs"]) simp
  finally show ?thesis by (simp add: fold)
qed

lemma sum_within:
  fixes f h :: "ident \<times> number \<Rightarrow> number"
  shows "\<forall>x\<in>set xs. \<bar>f x - h x\<bar> \<le> e x \<Longrightarrow> \<bar>(\<Sum>x\<leftarrow>xs. f x) - (\<Sum>x\<leftarrow>xs. h x)\<bar> \<le> (\<Sum>x\<leftarrow>xs. e x)"
  by (induction xs) (auto simp: abs_le_iff)


definition mug_stock :: item_map where
  "mug_stock = [(''i1'', InventoryItem ''i1'' ''MUG'' ''loc-1'' (q_each 11) (q_each 0) (q_each 0) 1)]"

definition mug_catalogue :: catalogue where
  "mug_catalogue = [(''p1'', Product ''p1'' ''Mug'' (Some [(''v'', ProductVariant ''v'' ''p1'' ''MUG'' [] TrackQuantity)]))]"


end
