(* ===== verification/Slotting.thy ===== *)
theory Slotting
  imports Prelude
begin

text \<open>
  Slotting of the warehouse: src/src/application/services/SlottingOptimizerService.ts. The optimiser is a remote
  service: its answer is an argument, \<open>None\<close> where the call fails, times out or is answered with an error status; then the
  service computes the recommendations itself. Array indices are integers, as \<open>right\<close> may fall to \<open>-1\<close>.
\<close>

section \<open>Places and velocities\<close>

record location_coordinate =
  lc_id :: string
  grid_x :: number
  grid_y :: number
  grid_z :: "number option"

record item_location =
  sl_sku :: string
  sl_location :: string

record dispatch_record =
  di_sku :: string
  di_location :: string
  di_quantity :: number
  di_date :: string

record slotting_recommendation =
  sr_sku :: string
  currentLocationId :: string
  currentDistance :: number
  currentVelocity :: number
  recommendedLocationId :: string
  recommendedDistance :: number
  potentialSwapSku :: "string option"
  estimatedSavings :: number

record slot =
  so_sku :: string
  so_location :: string
  so_velocity :: number
  so_distance :: number

definition location_distance :: "location_coordinate \<Rightarrow> number" where
  "location_distance l = \<bar>grid_x l\<bar> + \<bar>grid_y l\<bar> + 2 * \<bar>case grid_z l of None \<Rightarrow> 0 | Some z \<Rightarrow> z\<bar>"

definition distance_map :: "location_coordinate list \<Rightarrow> (string, number) js_map" where
  "distance_map locations = fold (\<lambda>l. AList.update (lc_id l) (location_distance l)) locations []"

definition velocity_key :: "string \<Rightarrow> string \<Rightarrow> string" where
  "velocity_key sku location = sku @ '':'' @ location"

definition velocity_map :: "dispatch_record list \<Rightarrow> (string, number) js_map" where
  "velocity_map dispatches = fold (\<lambda>d m. let key = velocity_key (di_sku d) (di_location d)
     in AList.update key (lookup_or 0 m key + \<bar>di_quantity d\<bar>) m) dispatches []"

definition slot_of :: "(string, number) js_map \<Rightarrow> (string, number) js_map \<Rightarrow> item_location \<Rightarrow> slot" where
  "slot_of distances velocities place = \<lparr>so_sku = sl_sku place, so_location = sl_location place,
     so_velocity = lookup_or 0 velocities (velocity_key (sl_sku place) (sl_location place)),
     so_distance = (let d = lookup_or 0 distances (sl_location place) in if d = 0 then 99 else d)\<rparr>"

definition slots_of :: "location_coordinate list \<Rightarrow> item_location list \<Rightarrow> dispatch_record list \<Rightarrow> slot list" where
  "slots_of locations inventory dispatches =
     sort_key (\<lambda>s. - so_velocity s) (map (slot_of (distance_map locations) (velocity_map dispatches)) inventory)"

section \<open>The two searches\<close>

fun suffix_min :: "number list \<Rightarrow> number list" where
  "suffix_min [] = []"
| "suffix_min [d] = [d]"
| "suffix_min (d # ds) = (let rest = suffix_min ds in min d (hd rest) # rest)"

function first_slower :: "slot list \<Rightarrow> number \<Rightarrow> int \<Rightarrow> int \<Rightarrow> int \<Rightarrow> int" where
  "first_slower items v left right firstJ =
     (if left \<le> right
      then let mid = (left + right) div 2
           in if so_velocity (items ! nat mid) < v then first_slower items v left (mid - 1) mid
              else first_slower items v (mid + 1) right firstJ
      else firstJ)"
  by pat_completeness auto
termination by (relation "measure (\<lambda>(items, v, left, right, firstJ). nat (right - left + 1))") auto

function last_nearer :: "number list \<Rightarrow> number \<Rightarrow> int \<Rightarrow> int \<Rightarrow> int \<Rightarrow> int" where
  "last_nearer minDist d l r bestJ =
     (if l \<le> r
      then let mid = (l + r) div 2
           in if minDist ! nat mid < d then last_nearer minDist d (mid + 1) r mid
              else last_nearer minDist d l (mid - 1) bestJ
      else bestJ)"
  by pat_completeness auto
termination by (relation "measure (\<lambda>(minDist, d, l, r, bestJ). nat (r - l + 1))") auto

definition swap_recommendation :: "slot \<Rightarrow> slot \<Rightarrow> slotting_recommendation" where
  "swap_recommendation i j = \<lparr>sr_sku = so_sku i, currentLocationId = so_location i, currentDistance = so_distance i,
     currentVelocity = so_velocity i, recommendedLocationId = so_location j, recommendedDistance = so_distance j,
     potentialSwapSku = Some (so_sku j), estimatedSavings = so_velocity i * (so_distance i - so_distance j) * 2\<rparr>"

definition slot_suggestion :: "slot list \<Rightarrow> number list \<Rightarrow> nat \<Rightarrow> slotting_recommendation option" where
  "slot_suggestion items minDist i =
     (let n = int (length items); item = items ! i;
          firstJ = first_slower items (so_velocity item) (int i + 1) (n - 1) (- 1)
      in if firstJ = - 1 then None
         else if minDist ! nat firstJ \<ge> so_distance item then None
         else let bestJ = last_nearer minDist (so_distance item) firstJ (n - 1) (- 1)
              in if bestJ \<noteq> - 1 then Some (swap_recommendation item (items ! nat bestJ)) else None)"

definition fallbackLocalHeuristic ::
    "location_coordinate list \<Rightarrow> item_location list \<Rightarrow> dispatch_record list \<Rightarrow> slotting_recommendation list" where
  "fallbackLocalHeuristic locations inventory dispatches =
     (let items = slots_of locations inventory dispatches
      in if items = [] then []
         else List.map_filter (slot_suggestion items (suffix_min (map so_distance items))) [0..<length items])"

definition getSlottingOptimization ::
    "slotting_recommendation list option \<Rightarrow> location_coordinate list \<Rightarrow> item_location list \<Rightarrow> dispatch_record list
     \<Rightarrow> slotting_recommendation list" where
  "getSlottingOptimization sidecar locations inventory dispatches =
     (case sidecar of Some recommendations \<Rightarrow> recommendations
      | None \<Rightarrow> fallbackLocalHeuristic locations inventory dispatches)"

section \<open>The searches find what a scan finds\<close>

declare first_slower.simps [simp del] last_nearer.simps [simp del]

lemma first_slower_spec:
  assumes "\<And>a b. lo \<le> a \<Longrightarrow> a \<le> b \<Longrightarrow> b < n \<Longrightarrow> so_velocity (items ! nat a) < v \<Longrightarrow> so_velocity (items ! nat b) < v"
    and "lo \<le> left" and "right < n" and "left \<le> right + 1"
    and "\<And>k. lo \<le> k \<Longrightarrow> k < left \<Longrightarrow> \<not> so_velocity (items ! nat k) < v"
    and "firstJ = - 1 \<and> right = n - 1 \<or> firstJ = right + 1 \<and> firstJ < n \<and> so_velocity (items ! nat firstJ) < v"
  shows "first_slower items v left right firstJ = - 1 \<and> (\<forall>k. lo \<le> k \<and> k < n \<longrightarrow> \<not> so_velocity (items ! nat k) < v)
    \<or> lo \<le> first_slower items v left right firstJ \<and> first_slower items v left right firstJ < n
      \<and> so_velocity (items ! nat (first_slower items v left right firstJ)) < v
      \<and> (\<forall>k. lo \<le> k \<and> k < first_slower items v left right firstJ \<longrightarrow> \<not> so_velocity (items ! nat k) < v)"
  using assms
proof (induction items v left right firstJ rule: first_slower.induct)
  case (1 items v left right firstJ)
  note prems = "1.prems"
  let ?mid = "(left + right) div 2"
  show ?case
  proof (cases "left \<le> right")
    case False
    with prems(4) have "left = right + 1" by simp
    with prems(2,3,5,6) show ?thesis by (subst (1 2 3 4 5) first_slower.simps) auto
  next
    case True
    then have mid: "left \<le> ?mid" "?mid \<le> right" by auto
    show ?thesis
    proof (cases "so_velocity (items ! nat ?mid) < v")
      case slow: True
      with True have step: "first_slower items v left right firstJ = first_slower items v left (?mid - 1) ?mid"
        by (subst first_slower.simps) (simp add: Let_def)
      show ?thesis unfolding step
        by (rule "1.IH"(1) [OF True refl slow prems(1) prems(2)]) (use prems(3,5) mid slow in auto)
    next
      case fast: False
      with True have step: "first_slower items v left right firstJ = first_slower items v (?mid + 1) right firstJ"
        by (subst first_slower.simps) (simp add: Let_def)
      have below: "\<not> so_velocity (items ! nat k) < v" if "lo \<le> k" "k < ?mid + 1" for k
        using prems(1) [of k ?mid] that mid prems(3) fast by auto
      show ?thesis unfolding step
        by (rule "1.IH"(2) [OF True refl fast prems(1)]) (use prems(2,3,6) mid below in auto)
    qed
  qed
qed

lemma last_nearer_spec:
  assumes "\<And>a b. lo \<le> a \<Longrightarrow> a \<le> b \<Longrightarrow> b < n \<Longrightarrow> minDist ! nat b < d \<Longrightarrow> minDist ! nat a < d"
    and "lo \<le> l" and "r < n" and "l \<le> r + 1"
    and "\<And>k. r < k \<Longrightarrow> k < n \<Longrightarrow> \<not> minDist ! nat k < d"
    and "bestJ = - 1 \<and> l = lo \<or> bestJ = l - 1 \<and> lo \<le> bestJ \<and> minDist ! nat bestJ < d"
  shows "last_nearer minDist d l r bestJ = - 1 \<and> (\<forall>k. lo \<le> k \<and> k < n \<longrightarrow> \<not> minDist ! nat k < d)
    \<or> lo \<le> last_nearer minDist d l r bestJ \<and> last_nearer minDist d l r bestJ < n
      \<and> minDist ! nat (last_nearer minDist d l r bestJ) < d
      \<and> (\<forall>k. last_nearer minDist d l r bestJ < k \<and> k < n \<longrightarrow> \<not> minDist ! nat k < d)"
  using assms
proof (induction minDist d l r bestJ rule: last_nearer.induct)
  case (1 minDist d l r bestJ)
  note prems = "1.prems"
  let ?mid = "(l + r) div 2"
  show ?case
  proof (cases "l \<le> r")
    case False
    with prems(4) have "l = r + 1" by simp
    with prems(2,3,5,6) show ?thesis by (subst (1 2 3 4 5) last_nearer.simps) auto
  next
    case True
    then have mid: "l \<le> ?mid" "?mid \<le> r" by auto
    show ?thesis
    proof (cases "minDist ! nat ?mid < d")
      case near: True
      with True have step: "last_nearer minDist d l r bestJ = last_nearer minDist d (?mid + 1) r ?mid"
        by (subst last_nearer.simps) (simp add: Let_def)
      show ?thesis unfolding step
        by (rule "1.IH"(1) [OF True refl near prems(1)]) (use prems(2,3,5) mid near in auto)
    next
      case far: False
      with True have step: "last_nearer minDist d l r bestJ = last_nearer minDist d l (?mid - 1) bestJ"
        by (subst last_nearer.simps) (simp add: Let_def)
      have above: "\<not> minDist ! nat k < d" if "?mid - 1 < k" "k < n" for k
        using prems(1) [of ?mid k] that mid prems(2) far by auto
      show ?thesis unfolding step
        by (rule "1.IH"(2) [OF True refl far prems(1) prems(2)]) (use prems(3,6) mid above in auto)
    qed
  qed
qed

lemma length_suffix_min [simp]: "length (suffix_min ds) = length ds"
  by (induction ds rule: suffix_min.induct) (simp_all add: Let_def)

lemma suffix_min_less:
  "i < length ds \<Longrightarrow> suffix_min ds ! i < d \<longleftrightarrow> (\<exists>j. i \<le> j \<and> j < length ds \<and> ds ! j < d)"
proof (induction ds arbitrary: i rule: suffix_min.induct)
  case (3 x y zs)
  let ?ds = "y # zs"
  have hd: "hd (suffix_min ?ds) = suffix_min ?ds ! 0" by (intro hd_conv_nth) (metis length_suffix_min length_0_conv list.distinct(1))
  have up: "(\<exists>j. i \<le> j \<and> j < length (x # ?ds) \<and> (x # ?ds) ! j < d)
      \<longleftrightarrow> (i = 0 \<and> x < d) \<or> (\<exists>j. i - 1 \<le> j \<and> j < length ?ds \<and> ?ds ! j < d)" (is "?l = ?r")
  proof
    assume ?l
    then obtain j where j: "i \<le> j" "j < length (x # ?ds)" "(x # ?ds) ! j < d" by blast
    then show ?r by (cases j) auto
  next
    assume ?r
    then show ?l
    proof
      assume "i = 0 \<and> x < d"
      then show ?thesis by (intro exI [of _ 0]) simp
    next
      assume "\<exists>j. i - 1 \<le> j \<and> j < length ?ds \<and> ?ds ! j < d"
      then obtain j where "i - 1 \<le> j \<and> j < length ?ds \<and> ?ds ! j < d" by blast
      then show ?thesis by (intro exI [of _ "Suc j"]) auto
    qed
  qed
  show ?case
  proof (cases i)
    case 0
    then show ?thesis using up "3.IH" [of 0] hd by (simp add: Let_def min_less_iff_disj del: suffix_min.simps(3))
        (simp add: suffix_min.simps(3) [of x y zs] Let_def min_less_iff_disj)
  next
    case (Suc k)
    with "3.prems" up "3.IH" [of k] show ?thesis by (simp add: suffix_min.simps(3) [of x y zs] Let_def del: suffix_min.simps(3))
  qed
qed auto

lemma last_filter_upt:
  assumes "b < n" and "Q b" and "\<And>k. b < k \<Longrightarrow> k < n \<Longrightarrow> \<not> Q k"
  shows "filter Q [0..<n] \<noteq> [] \<and> last (filter Q [0..<n]) = b"
proof -
  have "[0..<n] = [0..<b] @ b # [Suc b..<n]"
    using assms(1) by (metis less_imp_add_positive upt_add_eq_append upt_conv_Cons zero_le)
  moreover have "filter Q [Suc b..<n] = []" using assms(3) by (auto simp: filter_empty_conv)
  ultimately show ?thesis using assms(2) by simp
qed

text \<open>What the two searches replace: for each item, the scan of all the others.\<close>

definition exhaustive_suggestion :: "slot list \<Rightarrow> nat \<Rightarrow> slotting_recommendation option" where
  "exhaustive_suggestion items i =
     (let js = filter (\<lambda>j. so_velocity (items ! j) < so_velocity (items ! i) \<and> so_distance (items ! j) < so_distance (items ! i))
        [0..<length items]
      in if js = [] then None else Some (swap_recommendation (items ! i) (items ! last js)))"

lemma slot_suggestion_exhaustive:
  assumes sorted: "sorted (map (\<lambda>s. - so_velocity s) items)" and i: "i < length items"
  shows "slot_suggestion items (suffix_min (map so_distance items)) i = exhaustive_suggestion items i"
proof -
  let ?n = "int (length items)" and ?min = "suffix_min (map so_distance items)"
  let ?v = "so_velocity (items ! i)" and ?d = "so_distance (items ! i)"
  let ?Q = "\<lambda>j. so_velocity (items ! j) < ?v \<and> so_distance (items ! j) < ?d"
  let ?f = "first_slower items ?v (int i + 1) (?n - 1) (- 1)"
  have falls: "so_velocity (items ! b) \<le> so_velocity (items ! a)" if "a \<le> b" "b < length items" for a b
    using sorted_nth_mono [OF sorted, of a b] that by simp
  have near: "?min ! j < ?d \<longleftrightarrow> (\<exists>k. j \<le> k \<and> k < length items \<and> so_distance (items ! k) < ?d)" if "j < length items" for j
    using suffix_min_less [of j "map so_distance items" ?d] that by (metis length_map nth_map)
  have slower: "i < j" if "j < length items" "so_velocity (items ! j) < ?v" for j
    using falls [of j i] that i by (metis leD leI)
  have "?f = - 1 \<and> (\<forall>k. int i + 1 \<le> k \<and> k < ?n \<longrightarrow> \<not> so_velocity (items ! nat k) < ?v)
    \<or> int i + 1 \<le> ?f \<and> ?f < ?n \<and> so_velocity (items ! nat ?f) < ?v
      \<and> (\<forall>k. int i + 1 \<le> k \<and> k < ?f \<longrightarrow> \<not> so_velocity (items ! nat k) < ?v)"
  proof (rule first_slower_spec)
    fix a b assume "int i + 1 \<le> a" "a \<le> b" "b < ?n" "so_velocity (items ! nat a) < ?v"
    then show "so_velocity (items ! nat b) < ?v" using falls [of "nat a" "nat b"] by fastforce
  qed (use i in auto)
  then show ?thesis
  proof
    assume none: "?f = - 1 \<and> (\<forall>k. int i + 1 \<le> k \<and> k < ?n \<longrightarrow> \<not> so_velocity (items ! nat k) < ?v)"
    have "\<not> ?Q j" if "j < length items" for j
      using none [THEN conjunct2, rule_format, of "int j"] slower [OF that] that by auto
    then show ?thesis using none by (simp add: slot_suggestion_def exhaustive_suggestion_def Let_def filter_empty_conv)
  next
    assume first: "int i + 1 \<le> ?f \<and> ?f < ?n \<and> so_velocity (items ! nat ?f) < ?v
      \<and> (\<forall>k. int i + 1 \<le> k \<and> k < ?f \<longrightarrow> \<not> so_velocity (items ! nat k) < ?v)"
    then have f: "0 \<le> ?f" "nat ?f < length items" "?f \<noteq> - 1" by auto
    have after: "so_velocity (items ! j) < ?v \<longleftrightarrow> nat ?f \<le> j" if "j < length items" for j
    proof
      assume "so_velocity (items ! j) < ?v"
      with first [THEN conjunct2, THEN conjunct2, THEN conjunct2, rule_format, of "int j"] slower [OF that] f
      show "nat ?f \<le> j" by (cases "int j < ?f") auto
    next
      assume "nat ?f \<le> j"
      with falls [OF this that] first show "so_velocity (items ! j) < ?v" by auto
    qed
    show ?thesis
    proof (cases "?min ! nat ?f < ?d")
      case False
      then have "\<not> ?Q j" if "j < length items" for j using near [OF f(2)] after [OF that] that by blast
      then show ?thesis using f False by (simp add: slot_suggestion_def exhaustive_suggestion_def Let_def filter_empty_conv)
    next
      case True
      let ?b = "last_nearer ?min ?d ?f (?n - 1) (- 1)"
      have "?b = - 1 \<and> (\<forall>k. ?f \<le> k \<and> k < ?n \<longrightarrow> \<not> ?min ! nat k < ?d)
        \<or> ?f \<le> ?b \<and> ?b < ?n \<and> ?min ! nat ?b < ?d \<and> (\<forall>k. ?b < k \<and> k < ?n \<longrightarrow> \<not> ?min ! nat k < ?d)"
      proof (rule last_nearer_spec)
        fix a b assume ab: "?f \<le> a" "a \<le> b" "b < ?n" "?min ! nat b < ?d"
        then have "nat a < length items" "nat b < length items" "nat a \<le> nat b" using f by auto
        with ab(4) near show "?min ! nat a < ?d" by (meson le_trans)
      qed (use first in auto)
      with True f first have b: "?f \<le> ?b" "?b < ?n" "?min ! nat ?b < ?d" "\<forall>k. ?b < k \<and> k < ?n \<longrightarrow> \<not> ?min ! nat k < ?d" by auto
      then have nb: "nat ?b < length items" "nat ?f \<le> nat ?b" using f by auto
      have beyond: "\<not> so_distance (items ! k) < ?d" if "nat ?b < k" "k < length items" for k
        using b(4) [rule_format, of "int k"] that near [OF that(2)] b(1) f by fastforce
      obtain k where k: "nat ?b \<le> k" "k < length items" "so_distance (items ! k) < ?d" using near [OF nb(1)] b(3) by blast
      with beyond have "k = nat ?b" by (metis le_neq_implies_less)
      with k have here: "?Q (nat ?b)" using after [OF nb(1)] nb by simp
      have "filter ?Q [0..<length items] \<noteq> [] \<and> last (filter ?Q [0..<length items]) = nat ?b"
        by (rule last_filter_upt) (use nb here beyond in auto)
      with f True b(1) show ?thesis by (simp add: slot_suggestion_def exhaustive_suggestion_def Let_def not_le)
    qed
  qed
qed

lemma slots_sorted: "sorted (map (\<lambda>s. - so_velocity s) (slots_of locations inventory dispatches))"
  by (simp add: slots_of_def)

lemma map_filter_cong: "(\<And>x. x \<in> set xs \<Longrightarrow> f x = g x) \<Longrightarrow> List.map_filter f xs = List.map_filter g xs"
  by (simp add: map_filter_def cong: filter_cong map_cong)

text \<open>
  C28. The two binary searches over the sorted items and the suffix minima recommend, for every item, exactly what the
  scan of all the items would: the last one, in the order of falling velocity, that moves less and lies nearer.
\<close>

theorem slotting_equals_exhaustive:
  "getSlottingOptimization None locations inventory dispatches =
     (let items = slots_of locations inventory dispatches in List.map_filter (exhaustive_suggestion items) [0..<length items])"
proof -
  let ?items = "slots_of locations inventory dispatches"
  have "List.map_filter (slot_suggestion ?items (suffix_min (map so_distance ?items))) [0..<length ?items]
      = List.map_filter (exhaustive_suggestion ?items) [0..<length ?items]"
    by (rule map_filter_cong) (simp add: slot_suggestion_exhaustive slots_sorted)
  then show ?thesis by (simp add: getSlottingOptimization_def fallbackLocalHeuristic_def Let_def map_filter_simps)
qed

text \<open>A place at the origin of the grid counts as one at distance 99, as far as an unknown one.\<close>

lemma origin_is_remote:
  "so_distance (slot_of (distance_map [\<lparr>lc_id = l, grid_x = 0, grid_y = 0, grid_z = None\<rparr>]) velocities
     \<lparr>sl_sku = s, sl_location = l\<rparr>) = 99"
  by (simp add: slot_of_def distance_map_def location_distance_def lookup_or_def)

text \<open>
  The savings of a recommendation are those of the item that moves forward; the trips of the item it changes places with
  grow, so that what the swap saves is less, but still positive.
\<close>

lemma swap_saves:
  assumes "exhaustive_suggestion items i = Some r" and "\<forall>s\<in>set items. 0 \<le> so_velocity s" and "i < length items"
  shows "\<exists>j<length items. potentialSwapSku r = Some (so_sku (items ! j))
    \<and> 0 < 2 * (so_velocity (items ! i) - so_velocity (items ! j)) * (currentDistance r - recommendedDistance r)
    \<and> 2 * (so_velocity (items ! i) - so_velocity (items ! j)) * (currentDistance r - recommendedDistance r) \<le> estimatedSavings r"
proof -
  let ?js = "filter (\<lambda>j. so_velocity (items ! j) < so_velocity (items ! i) \<and> so_distance (items ! j) < so_distance (items ! i)) [0..<length items]"
  from assms(1) have js: "?js \<noteq> []" and r: "r = swap_recommendation (items ! i) (items ! last ?js)"
    by (simp_all add: exhaustive_suggestion_def Let_def split: if_splits)
  from last_in_set [OF js] have j: "last ?js < length items" "so_velocity (items ! last ?js) < so_velocity (items ! i)"
      "so_distance (items ! last ?js) < so_distance (items ! i)" by auto
  have "0 \<le> so_velocity (items ! last ?js) * (so_distance (items ! i) - so_distance (items ! last ?js))"
    using assms(2) j by (intro mult_nonneg_nonneg) auto
  moreover have "0 < (so_velocity (items ! i) - so_velocity (items ! last ?js)) * (so_distance (items ! i) - so_distance (items ! last ?js))"
    using j by (intro mult_pos_pos) auto
  ultimately show ?thesis using j(1) by (intro exI [of _ "last ?js"]) (auto simp: r swap_recommendation_def algebra_simps)
qed

end
