(* ===== verification/Forecasting.thy ===== *)
theory Forecasting
  imports Replenishment InventoryStore
begin

text \<open>
  Demand planning: src/src/domain/services/DemandForecaster.ts with DemandForecast.ts and
  src/src/infrastructure/persistence/PostgresDemandForecastRepository.ts. A forecast horizon is a whole number of days.
  \<open>Infinity\<close> days of cover is \<open>None\<close>.
\<close>

section \<open>Forecasts and their table\<close>

record demand_forecast =
  df_id :: ident
  df_sku :: string
  df_location :: ident
  df_quantity :: number
  df_start :: time
  df_end :: time
  df_confidence :: number
  df_createdAt :: time

definition DemandForecast ::
    "ident \<Rightarrow> string \<Rightarrow> ident \<Rightarrow> number \<Rightarrow> time \<Rightarrow> time \<Rightarrow> number \<Rightarrow> time \<Rightarrow> demand_forecast result" where
  "DemandForecast i sku loc q start finish confidence created =
     (if q < 0 then Inl (Error ''Forecasted quantity cannot be negative.'' [])
      else if confidence < 0 \<or> confidence > 1 then Inl (Error ''Confidence level must be between 0 and 1.'' [])
      else if start \<ge> finish then Inl (Error ''Period start must be before period end.'' [])
      else Inr \<lparr>df_id = i, df_sku = sku, df_location = loc, df_quantity = q, df_start = start, df_end = finish,
        df_confidence = confidence, df_createdAt = created\<rparr>)"

record 'f forecast_repo =
  save_forecast :: "demand_forecast \<Rightarrow> ('f, unit) oper"
  forecasts_at :: "'f \<Rightarrow> string \<Rightarrow> demand_forecast list result"

type_synonym forecast_table = "demand_forecast list"

definition pf_save :: "demand_forecast \<Rightarrow> (forecast_table, unit) oper" where
  "pf_save f = op_modify (\<lambda>table. if df_id f \<in> df_id ` set table
     then map (\<lambda>r. if df_id r = df_id f then r\<lparr>df_quantity := df_quantity f, df_start := df_start f, df_end := df_end f,
       df_confidence := df_confidence f\<rparr> else r) table
     else table @ [f])"

definition pf_findAllForLocation :: "forecast_table \<Rightarrow> string \<Rightarrow> demand_forecast list result" where
  "pf_findAllForLocation table loc = result_map (\<lambda>r.
     result_bind (DemandForecastId (df_id r)) (\<lambda>i. result_bind (Sku (df_sku r)) (\<lambda>sku.
     result_bind (LocationId (df_location r)) (\<lambda>l.
       DemandForecast i sku l (df_quantity r) (df_start r) (df_end r) (df_confidence r) (df_createdAt r)))))
     (filter (\<lambda>r. df_location r = loc) table)"

definition pg_forecasts :: "forecast_table forecast_repo" where
  "pg_forecasts = \<lparr>save_forecast = pf_save, forecasts_at = pf_findAllForLocation\<rparr>"

section \<open>Sales velocity\<close>

record sales_velocity =
  ve_sku :: string
  ve_location :: string
  ve_stock :: number
  averageDailySales7d :: number
  averageDailySales30d :: number
  averageDailySales90d :: number
  daysOfCover :: "number option"
  runOutDate :: "time option"

definition day :: time where
  "day = 24 * 60 * 60 * 1000"

definition toFixed3 :: "number \<Rightarrow> number" where
  "toFixed3 x = (if x < 0 then - js_floor (- x * 1000 + 1 / 2) / 1000 else js_floor (x * 1000 + 1 / 2) / 1000)"

definition count_sale :: "time \<Rightarrow> ledger_entry \<Rightarrow> number \<times> number \<times> number \<Rightarrow> number \<times> number \<times> number" where
  "count_sale now e = (\<lambda>(sum7d, sum30d, sum90d).
     if le_quantity e < 0 \<and> (le_reason e = Sale \<or> le_reason e = KitSale)
     then let t = le_occurredAt e; absQty = \<bar>le_quantity e\<bar> in
       if t \<ge> now - 90 * day
       then if t \<ge> now - 30 * day
         then if t \<ge> now - 7 * day then (sum7d + absQty, sum30d + absQty, sum90d + absQty)
           else (sum7d, sum30d + absQty, sum90d + absQty)
         else (sum7d, sum30d, sum90d + absQty)
       else (sum7d, sum30d, sum90d)
     else (sum7d, sum30d, sum90d))"

definition velocity_variant :: "product_repo \<Rightarrow> string \<Rightarrow> product_variant option \<Rightarrow> product_variant result" where
  "velocity_variant prepo sku preFetchedVariant = (case preFetchedVariant of Some v \<Rightarrow> Inr v
     | None \<Rightarrow> (case find_by_sku prepo sku of None \<Rightarrow> Inl (Error ''Product not found for SKU: {}'' [S sku])
       | Some p \<Rightarrow> (case findVariantBySku p sku of None \<Rightarrow> Inl (Error ''Variant not found for SKU: {}'' [S sku])
         | Some v \<Rightarrow> Inr v)))"

definition velocity_of :: "time \<Rightarrow> string \<Rightarrow> string \<Rightarrow> number \<Rightarrow> ledger_entry list \<Rightarrow> sales_velocity" where
  "velocity_of now sku loc onHand entries =
     (let (sum7d, sum30d, sum90d) = fold (count_sale now) entries (0, 0, 0);
          ads30d = toFixed3 (sum30d / 30); cover = js_ceil (onHand / ads30d)
      in \<lparr>ve_sku = sku, ve_location = loc, ve_stock = onHand, averageDailySales7d = toFixed3 (sum7d / 7),
          averageDailySales30d = ads30d, averageDailySales90d = toFixed3 (sum90d / 90),
          daysOfCover = (if ads30d > 0 then Some cover else None),
          runOutDate = (if ads30d > 0 then Some (now + \<lfloor>cover\<rfloor> * day) else None)\<rparr>)"

definition calculateSalesVelocity ::
    "time \<Rightarrow> product_repo \<Rightarrow> 'i inventory_repo \<Rightarrow> 'i \<Rightarrow> 'l ledger_repo \<Rightarrow> 'l \<Rightarrow> string \<Rightarrow> string
     \<Rightarrow> number option \<Rightarrow> product_variant option \<Rightarrow> ledger_entry list option \<Rightarrow> sales_velocity result" where
  "calculateSalesVelocity now prepo irepo si lrepo sl sku loc preFetchedStock preFetchedVariant preFetchedEntries =
     result_bind (velocity_variant prepo sku preFetchedVariant) (\<lambda>variant.
     let entries = (case preFetchedEntries of Some es \<Rightarrow> es | None \<Rightarrow> entriesFor lrepo sl (pv_id variant) (Some loc)) in
     result_bind (case preFetchedStock of Some q \<Rightarrow> Inr q
       | None \<Rightarrow> result_bind (findBySkuAndLocation irepo si sku loc) (\<lambda>found.
           Inr (case found of None \<Rightarrow> 0 | Some i \<Rightarrow> amount (on_hand i)))) (\<lambda>currentStock.
     Inr (velocity_of now sku loc currentStock entries)))"

section \<open>Forecasts\<close>

definition generateDemandForecast ::
    "(nat \<Rightarrow> string) \<Rightarrow> time \<Rightarrow> product_repo \<Rightarrow> 'i inventory_repo \<Rightarrow> 'i \<Rightarrow> 'l ledger_repo \<Rightarrow> 'l \<Rightarrow> 'f forecast_repo
     \<Rightarrow> string \<Rightarrow> string \<Rightarrow> int \<Rightarrow> number \<Rightarrow> ('f, demand_forecast) oper" where
  "generateDemandForecast uuid now prepo irepo si lrepo sl frepo sku loc forecastDays trendMultiplier =
     op_bind (op_lift (calculateSalesVelocity now prepo irepo si lrepo sl sku loc None None None)) (\<lambda>velocity.
     let forecastedQuantity = js_ceil (averageDailySales30d velocity * of_int forecastDays * trendMultiplier);
         confidenceLevel = (if averageDailySales30d velocity > 0 then 85 / 100 else 50 / 100)
     in op_bind (op_lift (DemandForecastId (uuid 0))) (\<lambda>i.
        op_bind (op_lift (DemandForecast i sku loc forecastedQuantity now (now + forecastDays * day) confidenceLevel now)) (\<lambda>f.
        op_seq (save_forecast frepo f) (op_return f))))"

section \<open>The planning report\<close>

record planning_item =
  pl_velocity :: sales_velocity
  pl_reorderPoint :: number
  pl_reorderQuantity :: number
  pl_safetyStock :: number
  forecastedDemand30d :: number
  confidenceLevel :: number
  actionRequired :: bool
  recommendedOrderQuantity :: number

definition policy_map :: "replenishment_rule list \<Rightarrow> (string, replenishment_rule) js_map" where
  "policy_map policies = fold (\<lambda>p. AList.update (rr_sku p) p) policies []"

definition active_forecasts :: "time \<Rightarrow> demand_forecast list \<Rightarrow> (string, demand_forecast) js_map" where
  "active_forecasts now forecasts = fold (\<lambda>f m. if df_end f \<ge> now \<and> df_start f \<le> now + 30 * day
     then AList.update (df_sku f) f m else m) forecasts []"

definition planning_of ::
    "(string, replenishment_rule) js_map \<Rightarrow> (string, demand_forecast) js_map \<Rightarrow> inventory_item \<Rightarrow> sales_velocity
     \<Rightarrow> planning_item" where
  "planning_of policies active i velocity =
     (let policy = map_of policies (isku i); forecast = map_of active (isku i);
          reorderPoint = (case policy of None \<Rightarrow> 10 | Some p \<Rightarrow> rr_reorderPoint p);
          reorderQuantity = (case policy of None \<Rightarrow> 20 | Some p \<Rightarrow> rr_reorderQuantity p);
          required = amount (on_hand i) \<le> reorderPoint
      in \<lparr>pl_velocity = velocity, pl_reorderPoint = reorderPoint, pl_reorderQuantity = reorderQuantity,
          pl_safetyStock = (case policy of None \<Rightarrow> 5 | Some p \<Rightarrow> rr_safetyStock p),
          forecastedDemand30d = (case forecast of Some f \<Rightarrow> df_quantity f | None \<Rightarrow> js_ceil (averageDailySales30d velocity * 30)),
          confidenceLevel = (case forecast of Some f \<Rightarrow> df_confidence f
            | None \<Rightarrow> if averageDailySales30d velocity > 0 then 70 / 100 else 50 / 100),
          actionRequired = required, recommendedOrderQuantity = (if required then reorderQuantity else 0)\<rparr>)"

definition planning_item_of ::
    "time \<Rightarrow> product_repo \<Rightarrow> 'i inventory_repo \<Rightarrow> 'i \<Rightarrow> 'l ledger_repo \<Rightarrow> 'l \<Rightarrow> string \<Rightarrow> (string, product_variant) js_map
     \<Rightarrow> (ident, ledger_entry list) js_map \<Rightarrow> (string, replenishment_rule) js_map \<Rightarrow> (string, demand_forecast) js_map
     \<Rightarrow> inventory_item \<Rightarrow> planning_item result" where
  "planning_item_of now prepo irepo si lrepo sl loc known batch policies active i =
     result_bind (Sku (isku i)) (\<lambda>sku.
     let variant = map_of known (isku i);
         entries = (case variant of None \<Rightarrow> [] | Some v \<Rightarrow> lookup_or [] batch (pv_id v)) in
     result_bind (calculateSalesVelocity now prepo irepo si lrepo sl sku loc (Some (amount (on_hand i))) variant (Some entries))
       (\<lambda>velocity. Inr (planning_of policies active i velocity)))"

definition getDemandPlanningReport ::
    "time \<Rightarrow> product_repo \<Rightarrow> 'i inventory_repo \<Rightarrow> 'i \<Rightarrow> 'l ledger_repo \<Rightarrow> 'l \<Rightarrow> 'u rule_repo \<Rightarrow> 'u \<Rightarrow> 'f forecast_repo \<Rightarrow> 'f
     \<Rightarrow> string \<Rightarrow> planning_item list result" where
  "getDemandPlanningReport now prepo irepo si lrepo sl urepo su frepo sf loc =
     result_bind (findItemsAt irepo si loc) (\<lambda>items.
     result_bind (forecasts_at frepo sf loc) (\<lambda>forecasts.
     result_bind (find_rules_at urepo su loc) (\<lambda>policies.
     let uniqueSkus = js_set (map isku items) in
     result_bind (result_map Sku uniqueSkus) (\<lambda>skus.
     let known = variantMap uniqueSkus (find_by_skus prepo skus);
         batch = entriesForBatch lrepo sl (map (pv_id \<circ> snd) known) (Some loc)
     in result_map (planning_item_of now prepo irepo si lrepo sl loc known batch (policy_map policies)
          (active_forecasts now forecasts)) items))))"

section \<open>The windows\<close>

definition sales_since :: "time \<Rightarrow> ledger_entry list \<Rightarrow> number" where
  "sales_since t es = (\<Sum>e\<leftarrow>es. if le_quantity e < 0 \<and> (le_reason e = Sale \<or> le_reason e = KitSale) \<and> t \<le> le_occurredAt e
     then - le_quantity e else 0)"

lemma sales_since_simps [simp]:
  "sales_since t [] = 0"
  "sales_since t (e # es) = (if le_quantity e < 0 \<and> (le_reason e = Sale \<or> le_reason e = KitSale) \<and> t \<le> le_occurredAt e
     then - le_quantity e else 0) + sales_since t es"
  by (simp_all add: sales_since_def)

lemma count_sale_step:
  "count_sale now e (a, b, c) = (a + sales_since (now - 7 * day) [e], b + sales_since (now - 30 * day) [e],
     c + sales_since (now - 90 * day) [e])"
proof -
  have "now - 90 * day \<le> now - 30 * day" "now - 30 * day \<le> now - 7 * day" by (simp_all add: day_def)
  then show ?thesis by (auto simp: count_sale_def Let_def)
qed

lemma counted_sales:
  "fold (count_sale now) es (a, b, c) = (a + sales_since (now - 7 * day) es, b + sales_since (now - 30 * day) es,
     c + sales_since (now - 90 * day) es)"
proof (induction es arbitrary: a b c)
  case (Cons e es)
  show ?case by (simp only: fold_simps count_sale_step Cons.IH) simp
qed simp

lemma sales_nonneg: "0 \<le> sales_since t es"
  by (induction es) auto

lemma sales_mono: "t \<le> t' \<Longrightarrow> sales_since t' es \<le> sales_since t es"
  by (induction es) auto

lemma sales_integer: "\<forall>e\<in>set es. is_integer (le_quantity e) \<Longrightarrow> is_integer (sales_since t es)"
  by (induction es) (auto simp del: is_integer_minus simp: is_integer_add)

lemma toFixed3_bounds: "0 \<le> x \<Longrightarrow> \<bar>toFixed3 x - x\<bar> \<le> 1 / 2000"
proof -
  assume "0 \<le> x"
  then have "toFixed3 x = of_int \<lfloor>x * 1000 + 1 / 2\<rfloor> / 1000" by (simp add: toFixed3_def js_floor_def)
  moreover have "of_int \<lfloor>x * 1000 + 1 / 2\<rfloor> \<le> x * 1000 + 1 / 2" "x * 1000 + 1 / 2 < of_int \<lfloor>x * 1000 + 1 / 2\<rfloor> + 1"
    by linarith+
  ultimately show ?thesis unfolding abs_le_iff by (intro conjI) linarith+
qed

lemma toFixed3_zero: "0 \<le> x \<Longrightarrow> 0 < toFixed3 x \<longleftrightarrow> 1 / 2000 \<le> x"
  by (simp add: toFixed3_def js_floor_def) linarith

lemma no_recent_sale:
  assumes "\<forall>e\<in>set es. is_integer (le_quantity e)"
  shows "0 < toFixed3 (sales_since t es / 30) \<longleftrightarrow> sales_since t es \<noteq> 0"
proof -
  obtain k where k: "sales_since t es = of_int k"
    using sales_integer [OF assms] by (metis is_integer_def)
  with sales_nonneg [of t es] have "0 \<le> k" by simp
  then have "k = 0 \<or> 1 \<le> k" by auto
  then have "1 / 2000 \<le> sales_since t es / 30 \<longleftrightarrow> sales_since t es \<noteq> 0" using k by auto
  with toFixed3_zero [of "sales_since t es / 30"] sales_nonneg show ?thesis by simp
qed

lemma cover_least:
  fixes a :: number
  assumes "0 < a"
  shows "q \<le> js_ceil (q / a) * a" "(js_ceil (q / a) - 1) * a < q"
  using js_ceil_bounds [of "q / a"] assms by (simp_all add: field_simps)

lemma velocity_windows:
  assumes "\<forall>e\<in>set es. is_integer (le_quantity e)"
  shows "\<bar>7 * averageDailySales7d (velocity_of now sku loc q es) - sales_since (now - 7 * day) es\<bar> \<le> 7 / 2000"
    and "\<bar>30 * averageDailySales30d (velocity_of now sku loc q es) - sales_since (now - 30 * day) es\<bar> \<le> 30 / 2000"
    and "\<bar>90 * averageDailySales90d (velocity_of now sku loc q es) - sales_since (now - 90 * day) es\<bar> \<le> 90 / 2000"
    and "daysOfCover (velocity_of now sku loc q es) = None \<longleftrightarrow> sales_since (now - 30 * day) es = 0"
    and "daysOfCover (velocity_of now sku loc q es) = Some d \<Longrightarrow>
      q \<le> d * averageDailySales30d (velocity_of now sku loc q es)
      \<and> (d - 1) * averageDailySales30d (velocity_of now sku loc q es) < q"
proof -
  have scaled: "\<bar>k * toFixed3 (sales_since t es / k) - sales_since t es\<bar> \<le> k / 2000" if "0 < k" for k t
  proof -
    have "\<bar>toFixed3 (sales_since t es / k) - sales_since t es / k\<bar> \<le> 1 / 2000"
      using that sales_nonneg by (intro toFixed3_bounds) simp
    then have "k * \<bar>toFixed3 (sales_since t es / k) - sales_since t es / k\<bar> \<le> k * (1 / 2000)"
      using that by (intro mult_left_mono) simp_all
    moreover have "k * \<bar>toFixed3 (sales_since t es / k) - sales_since t es / k\<bar> = \<bar>k * (toFixed3 (sales_since t es / k) - sales_since t es / k)\<bar>"
      using that by (simp only: abs_mult abs_of_pos)
    moreover have "k * (toFixed3 (sales_since t es / k) - sales_since t es / k) = k * toFixed3 (sales_since t es / k) - sales_since t es"
      using that by (simp add: right_diff_distrib)
    ultimately show ?thesis by simp
  qed
  show "\<bar>7 * averageDailySales7d (velocity_of now sku loc q es) - sales_since (now - 7 * day) es\<bar> \<le> 7 / 2000"
    "\<bar>30 * averageDailySales30d (velocity_of now sku loc q es) - sales_since (now - 30 * day) es\<bar> \<le> 30 / 2000"
    "\<bar>90 * averageDailySales90d (velocity_of now sku loc q es) - sales_since (now - 90 * day) es\<bar> \<le> 90 / 2000"
    using scaled [of 7] scaled [of 30] scaled [of 90] by (simp_all only: velocity_of_def counted_sales Let_def prod.case) simp_all
  show "daysOfCover (velocity_of now sku loc q es) = None \<longleftrightarrow> sales_since (now - 30 * day) es = 0"
    using no_recent_sale [OF assms, of "now - 30 * day"] by (auto simp: velocity_of_def counted_sales Let_def)
  show "daysOfCover (velocity_of now sku loc q es) = Some d \<Longrightarrow>
      q \<le> d * averageDailySales30d (velocity_of now sku loc q es)
      \<and> (d - 1) * averageDailySales30d (velocity_of now sku loc q es) < q"
    using cover_least [of "toFixed3 (sales_since (now - 30 * day) es / 30)" q]
    by (auto simp: velocity_of_def counted_sales Let_def split: if_splits)
qed

section \<open>What the report pre-fetches\<close>

definition skus_unique :: "catalogue \<Rightarrow> bool" where
  "skus_unique ps \<longleftrightarrow> (\<forall>p\<in>snd ` set ps. \<forall>x\<in>set (variants p). findVariantBySku p (pv_sku x) = Some x
     \<and> (\<forall>q\<in>snd ` set ps. \<forall>y\<in>set (variants q). pv_sku y = pv_sku x \<longrightarrow> y = x))"

lemma findBySkus_complete:
  assumes "p \<in> snd ` set ps" and "x \<in> set (variants p)" and "pv_sku x \<in> set skus"
  shows "p \<in> set (mp_findBySkus ps skus)"
proof -
  let ?one = "\<lambda>sku. fold (\<lambda>p results. if list_ex (\<lambda>v. pv_sku v = sku) (variants p) \<and> p \<notin> set results then results @ [p] else results)"
  have grow: "set rs \<subseteq> set (?one sku qs rs)" for sku qs rs
  proof (induction qs arbitrary: rs)
    case (Cons a qs)
    show ?case using Cons [of "rs @ [a]"] Cons [of rs] by auto
  qed simp
  have hit: "p \<in> set (?one (pv_sku x) qs rs)" if "p \<in> set qs" for qs rs
    using that
  proof (induction qs arbitrary: rs)
    case (Cons a qs)
    show ?case
    proof (cases "a = p")
      case True
      have "list_ex (\<lambda>v. pv_sku v = pv_sku x) (variants p)" using assms(2) by (auto simp: list_ex_iff)
      then show ?thesis using True grow [of rs "pv_sku x" qs] grow [of "rs @ [p]" "pv_sku x" qs] by auto
    next
      case False
      with Cons show ?thesis by simp
    qed
  qed simp
  have more: "set rs \<subseteq> set (fold (\<lambda>sku. ?one sku (map snd ps)) ss rs)" for ss rs
  proof (induction ss arbitrary: rs)
    case (Cons s ss)
    show ?case using Cons [of "?one s (map snd ps) rs"] grow [of rs s "map snd ps"] by auto
  qed simp
  obtain s1 s2 where "skus = s1 @ pv_sku x # s2" using assms(3) by (metis split_list)
  moreover have "p \<in> set (map snd ps)" using assms(1) by simp
  ultimately show ?thesis unfolding mp_findBySkus_def using hit more by (simp add: subset_iff)
qed

lemma variantMap_complete:
  assumes "p \<in> set ps" and "x \<in> set (variants p)" and "pv_sku x \<in> set skus"
  shows "map_of (variantMap skus ps) (pv_sku x) \<noteq> None"
proof -
  let ?f = "fold (\<lambda>v m. if pv_sku v \<in> set skus then AList.update (pv_sku v) v m else m)"
  have keep: "map_of m k \<noteq> None \<Longrightarrow> map_of (?f vs m) k \<noteq> None" for vs k and m :: "(string, product_variant) js_map"
    by (induction vs arbitrary: m) auto
  have "x \<in> set vs \<Longrightarrow> map_of (?f vs m) (pv_sku x) \<noteq> None" for vs and m :: "(string, product_variant) js_map"
  proof (induction vs arbitrary: m)
    case (Cons v vs)
    show ?case
    proof (cases "v = x")
      case True
      then show ?thesis using assms(3) keep [of "AList.update (pv_sku x) x m" "pv_sku x" vs] by simp
    next
      case False
      with Cons show ?thesis by simp
    qed
  qed simp
  from this [of "concat (map variants ps)" "[]"] assms show ?thesis by (auto simp: variantMap_def)
qed

lemma prefetched_variant:
  assumes unique: "skus_unique ps" and s: "s \<in> set skus"
  shows "velocity_variant (mem_products ps) s (map_of (variantMap skus (mp_findBySkus ps skus)) s) = velocity_variant (mem_products ps) s None"
proof (cases "map_of (variantMap skus (mp_findBySkus ps skus)) s")
  case None
  then show ?thesis by simp
next
  case (Some x)
  from variantMap_member [OF this] findBySkus_member [of ps skus]
  obtain p where x: "p \<in> snd ` set ps" "x \<in> set (variants p)" "pv_sku x = s" by blast
  have "mp_findBySku ps s \<noteq> None"
    using x by (auto simp: mp_findBySku_def find_None_iff list_ex_iff)
  then obtain q where q: "mp_findBySku ps s = Some q" by blast
  then have "q \<in> set (map snd ps)" "list_ex (\<lambda>v. pv_sku v = s) (variants q)"
    using find_SomeD [of "\<lambda>p. list_ex (\<lambda>v. pv_sku v = s) (variants p)" "map snd ps" q] by (auto simp: mp_findBySku_def)
  then obtain y where y: "q \<in> snd ` set ps" "y \<in> set (variants q)" "pv_sku y = s" by (auto simp: list_ex_iff)
  with unique x have "y = x" "findVariantBySku q s = Some y" unfolding skus_unique_def by blast+
  with q Some show ?thesis by (simp add: velocity_variant_def mem_products_def)
qed

lemma uncatalogued_variant:
  assumes "velocity_variant (mem_products ps) s None = Inr x" and "skus_unique ps" and "s \<in> set skus"
  shows "map_of (variantMap skus (mp_findBySkus ps skus)) s \<noteq> None"
proof -
  obtain p where p: "mp_findBySku ps s = Some p"
    using assms(1) by (cases "mp_findBySku ps s") (simp_all add: velocity_variant_def mem_products_def)
  then have "p \<in> set (map snd ps)" "list_ex (\<lambda>v. pv_sku v = s) (variants p)"
    using find_SomeD [of "\<lambda>p. list_ex (\<lambda>v. pv_sku v = s) (variants p)" "map snd ps" p] by (auto simp: mp_findBySku_def)
  then obtain y where y: "p \<in> snd ` set ps" "y \<in> set (variants p)" "pv_sku y = s" by (auto simp: list_ex_iff)
  with findBySkus_complete [OF y(1,2), of skus] variantMap_complete [of p "mp_findBySkus ps skus" y skus] assms(3)
  show ?thesis by simp
qed

section \<open>Stored items\<close>

lemma located_items:
  assumes "mi_inv m" and "findItemsAt mem_inventory m loc = Inr items"
  shows "items = map norm_item (filter (\<lambda>i. ilocationId i = loc) (map snd m))"
proof -
  have clones: "result_map cloneItem xs = Inr (map norm_item xs)" if "\<forall>x\<in>set xs. storable x" for xs
    using that by (induction xs) (simp_all add: rebuild_storable)
  have "\<forall>x\<in>set (filter (\<lambda>i. ilocationId i = loc) (map snd m)). storable x" using mi_inv_item [OF assms(1)] by auto
  with clones assms(2) show ?thesis by (simp add: mem_inventory_def mi_findByLocation_def mi_select_def)
qed

lemma single_item_found:
  assumes "mi_inv m" and "distinct (map (\<lambda>i. (isku i, ilocationId i)) (map snd m))" and "x \<in> snd ` set m"
  shows "findBySkuAndLocation mem_inventory m (isku x) (ilocationId x) = Inr (Some (norm_item x))"
proof -
  let ?P = "\<lambda>i. isku i = isku x \<and> ilocationId i = ilocationId x"
  have x: "x \<in> set (map snd m)" using assms(3) by simp
  have "find ?P (map snd m) \<noteq> None" using assms(3) by (auto simp: find_None_iff)
  then obtain y where y: "find ?P (map snd m) = Some y" by blast
  then have "y \<in> set (map snd m)" "?P y" using find_SomeD [of ?P "map snd m" y] by blast+
  with inj_onD [OF conjunct2 [OF assms(2) [unfolded distinct_map]], of y x] x have "y = x" by simp
  with y rebuild_storable mi_inv_item [OF assms(1,3)]
  show ?thesis by (simp add: mem_inventory_def mi_findBySkuAndLocation_def)
qed

section \<open>Properties\<close>

text \<open>
  C27. The planning report, which fetches the variants and the ledger entries of all items at once, gives every item of
  the location the velocity that is computed for its SKU alone: over the in-memory stores, with one item per SKU
  and location and one variant per SKU.
\<close>

theorem report_agrees_with_single:
  assumes m: "mi_inv m" and d: "distinct (map (\<lambda>i. (isku i, ilocationId i)) (map snd m))" and ps: "skus_unique ps"
    and run: "getDemandPlanningReport now (mem_products ps) mem_inventory m mem_ledger es urepo su frepo sf loc = Inr rs"
    and items: "findItemsAt mem_inventory m loc = Inr items"
  shows "list_all2 (\<lambda>i r. calculateSalesVelocity now (mem_products ps) mem_inventory m mem_ledger es (isku i) loc None None None
    = Inr (pl_velocity r)) items rs"
proof -
  note items_eq = located_items [OF m items]
  let ?skus = "js_set (map isku items)"
  obtain forecasts policies skus where parts: "result_map Sku ?skus = Inr skus"
    and rs: "let known = variantMap ?skus (mp_findBySkus ps skus) in
      result_map (planning_item_of now (mem_products ps) mem_inventory m mem_ledger es loc known
        (mem_entriesForBatch es (map (pv_id \<circ> snd) known) (Some loc)) (policy_map policies) (active_forecasts now forecasts)) items = Inr rs"
    using run items by (auto simp: getDemandPlanningReport_def result_bind_Inr_iff Let_def mem_products_def mem_ledger_def)
  have stored: "\<exists>x\<in>snd ` set m. i = norm_item x \<and> ilocationId x = loc \<and> Sku (isku i) = Inr (isku i)" if "i \<in> set items" for i
  proof -
    from that obtain x where x: "x \<in> snd ` set m" "ilocationId x = loc" "i = norm_item x" by (auto simp: items_eq)
    with mi_inv_item [OF m x(1)] show ?thesis by (intro bexI [of _ x]) (simp_all add: storable_def)
  qed
  have same: "skus = ?skus"
  proof -
    have "result_map Sku xs = Inr xs" if "\<forall>s\<in>set xs. Sku s = Inr s" for xs using that by (induction xs) auto
    moreover have "\<forall>s\<in>set ?skus. Sku s = Inr s" using stored by (auto simp: js_set_def)
    ultimately show ?thesis using parts by simp
  qed
  let ?known = "variantMap ?skus (mp_findBySkus ps ?skus)"
  have one: "calculateSalesVelocity now (mem_products ps) mem_inventory m mem_ledger es (isku i) loc None None None = Inr (pl_velocity r)"
    if i: "i \<in> set items" and r: "planning_item_of now (mem_products ps) mem_inventory m mem_ledger es loc ?known
      (mem_entriesForBatch es (map (pv_id \<circ> snd) ?known) (Some loc)) (policy_map policies) (active_forecasts now forecasts) i = Inr r" for i r
  proof -
    obtain x where x: "x \<in> snd ` set m" "i = norm_item x" "ilocationId x = loc" "Sku (isku i) = Inr (isku i)" using stored [OF i] by blast
    have mem: "isku i \<in> set ?skus" using i by (simp add: js_set_def)
    note variant = prefetched_variant [OF ps mem]
    obtain v where v: "velocity_variant (mem_products ps) (isku i) (map_of ?known (isku i)) = Inr v"
      using r x(4) by (auto simp: planning_item_of_def calculateSalesVelocity_def result_bind_Inr_iff Let_def)
    with uncatalogued_variant [OF _ ps mem] variant have "map_of ?known (isku i) = Some v"
      by (cases "map_of ?known (isku i)") (simp_all add: velocity_variant_def)
    then have entries: "lookup_or [] (mem_entriesForBatch es (map (pv_id \<circ> snd) ?known) (Some loc)) (pv_id v) = mem_entriesFor es (pv_id v) (Some loc)"
      by (intro conjunct1 [OF conjunct2 [OF ledger_batch_queries]]) (force dest: map_of_SomeD)
    have "findBySkuAndLocation mem_inventory m (isku i) loc = Inr (Some i)"
      using single_item_found [OF m d x(1)] x(2,3) by simp
    with r v variant \<open>map_of ?known (isku i) = Some v\<close> entries x(4) show ?thesis
      by (auto simp: planning_item_of_def calculateSalesVelocity_def result_bind_Inr_iff Let_def planning_of_def mem_ledger_def)
  qed
  from rs same have "list_all2 (\<lambda>i r. planning_item_of now (mem_products ps) mem_inventory m mem_ledger es loc ?known
      (mem_entriesForBatch es (map (pv_id \<circ> snd) ?known) (Some loc)) (policy_map policies) (active_forecasts now forecasts) i = Inr r) items rs"
    by (simp add: result_map_Inr_iff Let_def)
  then show ?thesis by (rule list.rel_mono_strong) (use one in blast)
qed

text \<open>
  The sales velocity of a SKU counts exactly its sales: seven, thirty and ninety times the daily averages are the units
  sold at the location in the last seven, thirty and ninety days, up to the rounding to three decimals; the days of cover
  are infinite exactly when nothing was sold in thirty days, and else the least number of days whose average sales use
  up the stock.
\<close>

theorem velocity_counts_sales:
  assumes "calculateSalesVelocity now prepo irepo si mem_ledger es sku loc None None None = Inr ve"
    and "\<forall>e\<in>set es. is_integer (le_quantity e)"
  shows "\<exists>v. velocity_variant prepo sku None = Inr v \<and> (let mine = mem_entriesFor es (pv_id v) (Some loc) in
    \<bar>7 * averageDailySales7d ve - sales_since (now - 7 * day) mine\<bar> \<le> 7 / 2000
    \<and> \<bar>30 * averageDailySales30d ve - sales_since (now - 30 * day) mine\<bar> \<le> 30 / 2000
    \<and> \<bar>90 * averageDailySales90d ve - sales_since (now - 90 * day) mine\<bar> \<le> 90 / 2000
    \<and> (daysOfCover ve = None \<longleftrightarrow> sales_since (now - 30 * day) mine = 0)
    \<and> (\<forall>d. daysOfCover ve = Some d \<longrightarrow> ve_stock ve \<le> d * averageDailySales30d ve \<and> (d - 1) * averageDailySales30d ve < ve_stock ve))"
proof -
  obtain v q where v: "velocity_variant prepo sku None = Inr v" and ve: "ve = velocity_of now sku loc q (mem_entriesFor es (pv_id v) (Some loc))"
    using assms(1) by (auto simp: calculateSalesVelocity_def result_bind_Inr_iff Let_def mem_ledger_def)
  have whole: "\<forall>e\<in>set (mem_entriesFor es (pv_id v) (Some loc)). is_integer (le_quantity e)"
    using assms(2) by (simp add: mem_entriesFor_def)
  have q: "ve_stock ve = q" by (simp add: ve velocity_of_def Let_def split: prod.splits)
  show ?thesis
    unfolding Let_def
    by (intro exI [of _ v] conjI v allI impI; (unfold q)?; unfold ve; (rule velocity_windows [OF whole])?)
      (use velocity_windows(5) [OF whole] in blast)+
qed

section \<open>Concrete runs\<close>

definition shelf :: item_map where
  "shelf = [(''i1'', InventoryItem ''i1'' ''MUG'' ''loc-1'' (q_each 11) (q_each 0) (q_each 0) 1)]"

definition mugs :: catalogue where
  "mugs = [(''p1'', Product ''p1'' ''Mug'' (Some [(''v'', ProductVariant ''v'' ''p1'' ''MUG'' [] TrackQuantity)]))]"

definition mug_sales :: ledger where
  "mug_sales = [(sample_entry ''v'' 20)\<lparr>le_location := ''loc-1'', le_reason := PurchaseReceipt, le_occurredAt := 0\<rparr>,
     (sample_entry ''v'' (- 6))\<lparr>le_location := ''loc-1'', le_reason := Sale, le_occurredAt := 30 * day\<rparr>]"

abbreviation mug_report :: "planning_item list result" where
  "mug_report \<equiv> getDemandPlanningReport (31 * day) (mem_products mugs) mem_inventory shelf mem_ledger mug_sales mem_rules []
     pg_forecasts [] ''loc-1''"

lemma shelf_ok: "mi_inv shelf"
  by (simp add: mi_inv_def shelf_def storable_def InventoryItem_def item_ok_def LocationId_def InventoryItemId_def
      make_id_def) code_simp

lemma mugs_ok: "skus_unique mugs"
  by (simp add: skus_unique_def mugs_def variants_def Product_def findVariantBySku_def ProductVariant_def)

theorem report_agrees_with_single_witness:
  "\<exists>r. mug_report = Inr [r] \<and> calculateSalesVelocity (31 * day) (mem_products mugs) mem_inventory shelf mem_ledger mug_sales
     ''MUG'' ''loc-1'' None None None = Inr (pl_velocity r) \<and> daysOfCover (pl_velocity r) = Some 55"
proof -
  have "case mug_report of Inl e \<Rightarrow> False | Inr rs \<Rightarrow> map (daysOfCover \<circ> pl_velocity) rs = [Some 55]" by code_simp
  then obtain r where r: "mug_report = Inr [r]" "daysOfCover (pl_velocity r) = Some 55"
    by (auto split: sum.splits)
  have "distinct (map (\<lambda>i. (isku i, ilocationId i)) (map snd shelf))" by (simp add: shelf_def)
  moreover have "findItemsAt mem_inventory shelf ''loc-1'' = Inr (map snd shelf)" by code_simp
  ultimately have "list_all2 (\<lambda>i r. calculateSalesVelocity (31 * day) (mem_products mugs) mem_inventory shelf mem_ledger mug_sales (isku i)
      ''loc-1'' None None None = Inr (pl_velocity r)) (map snd shelf) [r]"
    by (intro report_agrees_with_single [OF shelf_ok _ mugs_ok r(1)])
  with r show ?thesis by (simp add: shelf_def InventoryItem_def)
qed

theorem velocity_counts_sales_witness:
  "\<exists>ve. calculateSalesVelocity (31 * day) (mem_products mugs) mem_inventory shelf mem_ledger mug_sales ''MUG'' ''loc-1'' None None None
     = Inr ve \<and> \<bar>7 * averageDailySales7d ve - 6\<bar> \<le> 7 / 2000"
proof -
  let ?run = "calculateSalesVelocity (31 * day) (mem_products mugs) mem_inventory shelf mem_ledger mug_sales ''MUG'' ''loc-1'' None None None"
  have "isl ?run = False" by code_simp
  then obtain ve where ve: "?run = Inr ve" by (cases ?run) auto
  have "\<forall>e\<in>set mug_sales. is_integer (le_quantity e)" by code_simp
  from velocity_counts_sales [OF ve this] obtain v where v: "velocity_variant (mem_products mugs) ''MUG'' None = Inr v"
    and b: "\<bar>7 * averageDailySales7d ve - sales_since (31 * day - 7 * day) (mem_entriesFor mug_sales (pv_id v) (Some ''loc-1''))\<bar> \<le> 7 / 2000"
    by (auto simp: Let_def)
  have "map_sum id pv_id (velocity_variant (mem_products mugs) ''MUG'' None) = Inr ''v''" by code_simp
  with v have "pv_id v = ''v''" by simp
  moreover have "sales_since (31 * day - 7 * day) (mem_entriesFor mug_sales ''v'' (Some ''loc-1'')) = 6" by code_simp
  ultimately show ?thesis using ve b by simp
qed

section \<open>A SKU that is not in the catalogue\<close>

text \<open>One item whose SKU no product has makes the report of its whole location throw.\<close>

lemma uncatalogued_item_breaks_report:
  assumes m: "mi_inv m" and items: "findItemsAt mem_inventory m loc = Inr items" and i: "i \<in> set items" "mp_findBySku ps (isku i) = None"
  shows "\<exists>e. getDemandPlanningReport now (mem_products ps) mem_inventory m mem_ledger es urepo su frepo sf loc = Inl e"
proof (cases "getDemandPlanningReport now (mem_products ps) mem_inventory m mem_ledger es urepo su frepo sf loc")
  case (Inr rs)
  let ?skus = "js_set (map isku items)"
  obtain forecasts policies skus where rs: "let known = variantMap ?skus (mp_findBySkus ps skus) in
      result_map (planning_item_of now (mem_products ps) mem_inventory m mem_ledger es loc known
        (mem_entriesForBatch es (map (pv_id \<circ> snd) known) (Some loc)) (policy_map policies) (active_forecasts now forecasts)) items = Inr rs"
    using Inr items by (auto simp: getDemandPlanningReport_def result_bind_Inr_iff Let_def mem_products_def mem_ledger_def)
  have "map_of (variantMap ?skus (mp_findBySkus ps skus)) (isku i) = None"
  proof (rule ccontr)
    assume "map_of (variantMap ?skus (mp_findBySkus ps skus)) (isku i) \<noteq> None"
    then obtain x where x: "map_of (variantMap ?skus (mp_findBySkus ps skus)) (isku i) = Some x" by blast
    from variantMap_member [OF x] findBySkus_member [of ps skus]
    obtain p where "p \<in> snd ` set ps" "x \<in> set (variants p)" "pv_sku x = isku i" by blast
    with i(2) show False by (auto simp: mp_findBySku_def find_None_iff list_ex_iff)
  qed
  moreover obtain x where "i = norm_item x" "storable x"
    using i(1) mi_inv_item [OF m] by (auto simp: located_items [OF m items])
  then have "Sku (isku i) = Inr (isku i)" by (simp add: storable_def)
  moreover obtain r where "planning_item_of now (mem_products ps) mem_inventory m mem_ledger es loc (variantMap ?skus (mp_findBySkus ps skus))
      (mem_entriesForBatch es (map (pv_id \<circ> snd) (variantMap ?skus (mp_findBySkus ps skus))) (Some loc)) (policy_map policies)
      (active_forecasts now forecasts) i = Inr r"
    using result_map_member [OF rs [unfolded Let_def] i(1)] by blast
  ultimately show ?thesis
    using i(2) by (auto simp: planning_item_of_def calculateSalesVelocity_def result_bind_Inr_iff velocity_variant_def mem_products_def)
qed blast

section \<open>A generated forecast is the one the report uses\<close>

lemma generated_forecast_used:
  assumes "generateDemandForecast uuid now prepo irepo si lrepo sl pg_forecasts sku loc days trend table = (Inr f, table')"
    and "uuid 0 \<notin> df_id ` set table"
  shows "table' = table @ [f]" and "df_sku f = sku" and "df_location f = loc" and "df_start f = now" and "now < df_end f"
    and "map_of (active_forecasts now (fs @ [f])) sku = Some f"
proof -
  have f: "table' = table @ [f] \<and> df_sku f = sku \<and> df_location f = loc \<and> df_start f = now \<and> now < df_end f"
    using assms(1,2)
    by (auto simp: generateDemandForecast_def oper_simps pg_forecasts_def pf_save_def DemandForecast_def DemandForecastId_def
        make_id_def Let_def split: sum.splits if_splits)
  then show "table' = table @ [f]" "df_sku f = sku" "df_location f = loc" "df_start f = now" "now < df_end f" by blast+
  have "0 \<le> day" by (simp add: day_def)
  then have "now \<le> now + 30 * day" by simp
  with f show "map_of (active_forecasts now (fs @ [f])) sku = Some f" by (simp add: active_forecasts_def)
qed

end
