(* ===== verification/Billing.thy ===== *)
theory Billing
  imports Prelude
begin

text \<open>
  Metering of the tenants: src/src/domain/billing/BillingServices.ts and BillingEntities.ts, and the rate limit of
  src/src/infrastructure/graphql/billingResolvers.ts with the memory it keeps per tenant. The time of the limiter is
  counted in seconds, as a number.
\<close>

section \<open>The token bucket\<close>

datatype tier_name = FREE | PRO | ENTERPRISE

record billing_tier =
  tierName :: tier_name
  maxRequestsPerMinute :: number
  maxActiveSkus :: number
  includedApiRequestsPerMonth :: number
  baseMonthlyPriceCents :: number

record rate_decision =
  isAllowed :: bool
  newTokens :: number
  newLastRefillTime :: number

definition allowRequest :: "billing_tier \<Rightarrow> number \<Rightarrow> number \<Rightarrow> number \<Rightarrow> rate_decision" where
  "allowRequest tier currentTokens lastRefillTime currentTime =
     (let capacity = maxRequestsPerMinute tier; refillRate = capacity / 60;
          elapsed = max 0 (currentTime - lastRefillTime);
          refilled = min capacity (currentTokens + elapsed * refillRate)
      in if refilled \<ge> 1 then \<lparr>isAllowed = True, newTokens = refilled - 1, newLastRefillTime = currentTime\<rparr>
         else \<lparr>isAllowed = False, newTokens = refilled, newLastRefillTime = currentTime\<rparr>)"

record bucket =
  tokens :: number
  lastRefill :: number

type_synonym token_memory = "(string, bucket) js_map"

definition MAX_MEMORY_TOKENS :: nat where
  "MAX_MEMORY_TOKENS = 10000"

definition free_tier :: billing_tier where
  "free_tier = \<lparr>tierName = FREE, maxRequestsPerMinute = 60, maxActiveSkus = 100, includedApiRequestsPerMonth = 1000,
     baseMonthlyPriceCents = 0\<rparr>"

definition make_room :: "string \<Rightarrow> token_memory \<Rightarrow> token_memory" where
  "make_room tenant m =
     (if map_of m tenant \<noteq> None then AList.delete tenant m
      else if length m \<ge> MAX_MEMORY_TOKENS
      then (case m of [] \<Rightarrow> m | (oldestKey, b) # rest \<Rightarrow> if oldestKey \<noteq> [] then rest else m)
      else m)"

definition checkRateLimit :: "number \<Rightarrow> string \<Rightarrow> token_memory \<Rightarrow> bool \<times> token_memory" where
  "checkRateLimit now tenant m =
     (let state = (case map_of m tenant of Some b \<Rightarrow> b | None \<Rightarrow> \<lparr>tokens = 60, lastRefill = now\<rparr>);
          decision = allowRequest free_tier (tokens state) (lastRefill state) now
      in (isAllowed decision, AList.update tenant \<lparr>tokens = newTokens decision, lastRefill = newLastRefillTime decision\<rparr>
            (make_room tenant m)))"

section \<open>Metering and overages\<close>

record usage_record =
  us_tenant :: string
  us_cycle :: string
  apiRequestsCount :: number
  storageBytesUsed :: number
  activeSkusCount :: number

datatype billing_event_type = API_OVERAGE | STORAGE_OVERAGE | NEW_SKU_TIER

record billing_event =
  be_id :: string
  be_tenant :: string
  be_type :: billing_event_type
  be_quantity :: number
  be_occurredAt :: time

definition incrementApiUsage :: "(usage_record, unit) oper" where
  "incrementApiUsage = op_modify (\<lambda>r. r\<lparr>apiRequestsCount := apiRequestsCount r + 1\<rparr>)"

definition recordStorageUsage :: "number \<Rightarrow> (usage_record, unit) oper" where
  "recordStorageUsage bytes = op_modify (\<lambda>r. if bytes > storageBytesUsed r then r\<lparr>storageBytesUsed := bytes\<rparr> else r)"

definition updateActiveSkus :: "number \<Rightarrow> (usage_record, unit) oper" where
  "updateActiveSkus skuCount = op_modify (\<lambda>r. r\<lparr>activeSkusCount := skuCount\<rparr>)"

definition evaluateOverages :: "(nat \<Rightarrow> string) \<Rightarrow> usage_record \<Rightarrow> billing_tier \<Rightarrow> time \<Rightarrow> billing_event list" where
  "evaluateOverages uuid r tier now =
     (let api = (if apiRequestsCount r > includedApiRequestsPerMonth tier
            then [\<lparr>be_id = uuid 0, be_tenant = us_tenant r, be_type = API_OVERAGE,
              be_quantity = apiRequestsCount r - includedApiRequestsPerMonth tier, be_occurredAt = now\<rparr>] else [])
      in api @ (if activeSkusCount r > maxActiveSkus tier
            then [\<lparr>be_id = uuid (length api), be_tenant = us_tenant r, be_type = NEW_SKU_TIER,
              be_quantity = activeSkusCount r - maxActiveSkus tier, be_occurredAt = now\<rparr>] else []))"

section \<open>What a tenant is allowed\<close>

text \<open>The calls of a run, at their times.\<close>

fun check_calls :: "(number \<times> string) list \<Rightarrow> token_memory \<Rightarrow> bool list \<times> token_memory" where
  "check_calls [] m = ([], m)"
| "check_calls ((now, tenant) # calls) m =
     (let (b, m1) = checkRateLimit now tenant m; (bs, m2) = check_calls calls m1 in (b # bs, m2))"

definition allowed_of :: "string \<Rightarrow> (number \<times> string) list \<Rightarrow> bool list \<Rightarrow> nat" where
  "allowed_of t calls bs = length (filter (\<lambda>((now, tenant), b). tenant = t \<and> b) (zip calls bs))"

text \<open>The tokens a tenant could use at a time.\<close>

definition budget :: "token_memory \<Rightarrow> string \<Rightarrow> number \<Rightarrow> number" where
  "budget m t now = (case map_of m t of None \<Rightarrow> 60 | Some b \<Rightarrow> min 60 (tokens b + max 0 (now - lastRefill b)))"

lemma allowRequest_free:
  "allowRequest free_tier k l now = (let r = min 60 (k + max 0 (now - l)) in
     if r \<ge> 1 then \<lparr>isAllowed = True, newTokens = r - 1, newLastRefillTime = now\<rparr>
     else \<lparr>isAllowed = False, newTokens = r, newLastRefillTime = now\<rparr>)"
  by (simp add: allowRequest_def free_tier_def Let_def)

lemma map_of_delete: "map_of (AList.delete k m) k' = (if k' = k then None else map_of m k')"
  by (simp add: AList.delete_conv')

lemma keys_delete: "fst ` set (AList.delete k m) = fst ` set m - {k}"
  by (induction m) auto

lemma make_room_others:
  assumes "map_of m tenant \<noteq> None \<or> length m < MAX_MEMORY_TOKENS" and "k \<noteq> tenant"
  shows "map_of (make_room tenant m) k = map_of m k"
  using assms by (auto simp: make_room_def map_of_delete)

lemma check_step:
  assumes "checkRateLimit now tenant m = (b, m')" and "map_of m tenant \<noteq> None \<or> length m < MAX_MEMORY_TOKENS"
  shows "k \<noteq> tenant \<Longrightarrow> map_of m' k = map_of m k"
    and "map_of m' tenant = Some \<lparr>tokens = budget m tenant now - (if b then 1 else 0), lastRefill = now\<rparr>"
    and "b \<longleftrightarrow> 1 \<le> budget m tenant now"
proof -
  have budget: "budget m tenant now = min 60 (tokens s + max 0 (now - lastRefill s))"
    if "s = (case map_of m tenant of Some b \<Rightarrow> b | None \<Rightarrow> \<lparr>tokens = 60, lastRefill = now\<rparr>)" for s
    using that by (cases "map_of m tenant") (simp_all add: budget_def)
  note run = assms(1) [unfolded checkRateLimit_def allowRequest_free Let_def, symmetric]
  from run show "k \<noteq> tenant \<Longrightarrow> map_of m' k = map_of m k" using make_room_others [OF assms(2)] by simp
  from run budget [OF refl]
  show "map_of m' tenant = Some \<lparr>tokens = budget m tenant now - (if b then 1 else 0), lastRefill = now\<rparr>"
    and "b \<longleftrightarrow> 1 \<le> budget m tenant now" by (simp_all split: if_splits)
qed

lemma check_keys:
  assumes "checkRateLimit now tenant m = (b, m')" and "map_of m tenant \<noteq> None \<or> length m < MAX_MEMORY_TOKENS"
    and "distinct (map fst m)"
  shows "distinct (map fst m')" and "fst ` set m' = insert tenant (fst ` set m)"
proof -
  have d: "distinct (map fst (make_room tenant m))" using assms(2,3) by (auto simp: make_room_def distinct_delete)
  moreover have "fst ` set (make_room tenant m) = (if map_of m tenant \<noteq> None then fst ` set m - {tenant} else fst ` set m)"
    using assms(2) by (auto simp: make_room_def keys_delete)
  moreover obtain v where "m' = AList.update tenant v (make_room tenant m)"
    using assms(1) by (auto simp: checkRateLimit_def Let_def)
  ultimately show "distinct (map fst m')" "fst ` set m' = insert tenant (fst ` set m)"
    by (simp_all only: AList.distinct_update dom_update) auto
qed

lemma allowed_simps:
  "allowed_of t [] bs = 0"
  "allowed_of t ((now, tenant) # calls) (b # bs) = (if tenant = t \<and> b then 1 else 0) + allowed_of t calls bs"
  by (simp_all add: allowed_of_def)

lemma budget_nonneg: "(\<And>b. map_of m t = Some b \<Longrightarrow> 0 \<le> tokens b) \<Longrightarrow> 0 \<le> budget m t now"
  by (cases "map_of m t") (simp_all add: budget_def)

lemma budget_grows: "now \<le> later \<Longrightarrow> budget m t later \<le> budget m t now + (later - now)"
  by (cases "map_of m t") (auto simp: budget_def min_def max_def)

lemma budget_after:
  assumes "checkRateLimit now tenant m = (b, m')" and "map_of m tenant \<noteq> None \<or> length m < MAX_MEMORY_TOKENS" and "now \<le> later"
  shows "budget m' t later \<le> budget m t now - (if tenant = t \<and> b then 1 else 0) + (later - now)"
proof (cases "tenant = t")
  case True
  with check_step(2) [OF assms(1,2)] assms(3) show ?thesis by (auto simp: budget_def [of m'])
next
  case False
  then have "map_of m' t = map_of m t" using check_step(1) [OF assms(1,2)] by simp
  then have "budget m' t later = budget m t later" by (simp add: budget_def)
  with budget_grows [OF assms(3)] False show ?thesis by simp
qed

lemma allowed_within_budget:
  assumes "check_calls calls m = (bs, m')" and "distinct (map fst m)"
    and "card (fst ` set m \<union> snd ` set calls) \<le> MAX_MEMORY_TOKENS" and "sorted (map fst calls)"
    and "\<And>b. map_of m t = Some b \<Longrightarrow> 0 \<le> tokens b" and "calls \<noteq> []"
  shows "of_nat (allowed_of t calls bs) \<le> budget m t (fst (hd calls)) + (fst (last calls) - fst (hd calls))"
  using assms
proof (induction calls arbitrary: m bs m')
  case (Cons call calls)
  obtain now tenant where call: "call = (now, tenant)" by fastforce
  obtain b m1 where step: "checkRateLimit now tenant m = (b, m1)" by fastforce
  obtain bs' m2 where rest: "check_calls calls m1 = (bs', m2)" by fastforce
  have bs: "bs = b # bs'" using Cons.prems(1) call step rest by simp
  let ?keys = "fst ` set m \<union> snd ` set (call # calls)"
  have room: "map_of m tenant \<noteq> None \<or> length m < MAX_MEMORY_TOKENS"
  proof (rule disjCI)
    assume "\<not> length m < MAX_MEMORY_TOKENS"
    moreover have "card (fst ` set m) = length m" using distinct_card [OF Cons.prems(2)] by simp
    ultimately have le: "card ?keys \<le> card (fst ` set m)" using Cons.prems(3) by linarith
    have fin: "finite ?keys" by simp
    have sub: "fst ` set m \<subseteq> ?keys" by blast
    have "tenant \<in> ?keys" by (simp add: call)
    then have "tenant \<in> fst ` set m" by (subst card_seteq [OF fin sub le])
    then show "map_of m tenant \<noteq> None" by (simp add: map_of_eq_None_iff)
  qed
  note keys = check_keys [OF step room Cons.prems(2)]
  note at = check_step [OF step room]
  have pos: "0 \<le> budget m t now" by (rule budget_nonneg) (rule Cons.prems(5))
  have fuel: "\<And>b'. map_of m1 t = Some b' \<Longrightarrow> 0 \<le> tokens b'"
    using at Cons.prems(5) pos by (cases "t = tenant") auto
  show ?case
  proof (cases calls)
    case Nil
    with at(3) pos show ?thesis by (auto simp: call bs allowed_simps)
  next
    case (Cons c2 more)
    let ?later = "fst (hd calls)"
    have order: "now \<le> ?later" using Cons.prems(4) call Cons by simp
    have "fst ` set m1 \<union> snd ` set calls = ?keys" by (auto simp: keys(2) call)
    then have "(of_nat (allowed_of t calls bs') :: number) \<le> budget m1 t ?later + (fst (last calls) - ?later)"
      using Cons.IH [OF rest keys(1) _ _ fuel] Cons.prems(3,4) Cons call by simp
    moreover note budget_after [OF step room order, of t]
    moreover have ends: "fst (last (call # calls)) = fst (last calls)" "fst (hd (call # calls)) = now" using Cons by (simp_all add: call)
    moreover have "(of_nat (allowed_of t (call # calls) bs) :: number) = (if tenant = t \<and> b then 1 else 0) + of_nat (allowed_of t calls bs')"
      by (simp add: call bs allowed_simps)
    ultimately show ?thesis unfolding ends by linarith
  qed
qed simp

text \<open>
  C25. The rate limit holds in every window: however the requests of the tenants interleave, a tenant is let through at most
  60 times and once more for each second that has passed, as long as the memory has room for all the tenants.
\<close>

theorem rate_limit_bound:
  assumes "check_calls calls m = (bs, m')" and "distinct (map fst m)"
    and "card (fst ` set m \<union> snd ` set calls) \<le> MAX_MEMORY_TOKENS" and "sorted (map fst calls)"
    and "\<And>b. map_of m t = Some b \<Longrightarrow> 0 \<le> tokens b" and "calls \<noteq> []"
  shows "of_nat (allowed_of t calls bs) \<le> 60 + (fst (last calls) - fst (hd calls))"
proof -
  have "budget m t (fst (hd calls)) \<le> 60" by (simp add: budget_def split: option.split)
  with allowed_within_budget [OF assms(1-4) _ assms(6), of t] assms(5) show ?thesis by fastforce
qed

theorem rate_limit_bound_witness:
  "allowed_of ''t'' (replicate 70 (5, ''t'')) (fst (check_calls (replicate 70 (5, ''t'')) [])) \<le> 60"
proof -
  let ?calls = "replicate 70 (5 :: number, ''t'')"
  obtain bs m' where run: "check_calls ?calls [] = (bs, m')" by fastforce
  have "(of_nat (allowed_of ''t'' ?calls bs) :: number) \<le> 60 + (fst (last ?calls) - fst (hd ?calls))"
    by (rule rate_limit_bound [OF run]) (simp_all add: MAX_MEMORY_TOKENS_def)
  then have "(of_nat (allowed_of ''t'' ?calls bs) :: number) \<le> of_nat 60" by simp
  then show ?thesis by (simp only: run fst_conv of_nat_le_iff)
qed

section \<open>The memory\<close>

text \<open>The memory stays within its limit, as long as no tenant is the empty string.\<close>

lemma memory_step:
  assumes "checkRateLimit now tenant m = (b, m')" and "distinct (map fst m)" and "length m \<le> MAX_MEMORY_TOKENS"
    and "[] \<notin> fst ` set m" and "tenant \<noteq> []"
  shows "distinct (map fst m')" and "length m' \<le> MAX_MEMORY_TOKENS" and "[] \<notin> fst ` set m'"
proof -
  have room: "distinct (map fst (make_room tenant m)) \<and> length (make_room tenant m) < MAX_MEMORY_TOKENS
      \<and> fst ` set (make_room tenant m) \<subseteq> fst ` set m"
  proof (cases "map_of m tenant")
    case None
    with assms(2-4) show ?thesis by (cases m) (auto simp: make_room_def MAX_MEMORY_TOKENS_def)
  next
    case (Some x)
    then have "length (AList.delete tenant m) < length m"
      by (induction m) (auto simp: length_delete_le less_Suc_eq_le split: if_splits)
    with Some assms(2,3) show ?thesis by (auto simp: make_room_def distinct_delete keys_delete)
  qed
  have "length (AList.update k v xs) \<le> Suc (length xs)" for k v and xs :: token_memory
    by (induction xs) auto
  then have grown: "length (AList.update k v (make_room tenant m)) \<le> MAX_MEMORY_TOKENS" for k v
    using room by (meson Suc_leI le_trans not_less_eq_eq)
  moreover obtain v where "m' = AList.update tenant v (make_room tenant m)"
    using assms(1) by (auto simp: checkRateLimit_def Let_def)
  ultimately show "distinct (map fst m')" "length m' \<le> MAX_MEMORY_TOKENS" "[] \<notin> fst ` set m'"
    using room assms(4,5) by (auto simp: AList.distinct_update dom_update simp del: AList.update.simps)
qed

lemma memory_bounded:
  "check_calls calls m = (bs, m') \<Longrightarrow> distinct (map fst m) \<Longrightarrow> length m \<le> MAX_MEMORY_TOKENS \<Longrightarrow> [] \<notin> fst ` set m
   \<Longrightarrow> [] \<notin> snd ` set calls \<Longrightarrow> length m' \<le> MAX_MEMORY_TOKENS"
proof (induction calls arbitrary: m bs m')
  case (Cons call calls)
  obtain now tenant where call: "call = (now, tenant)" by fastforce
  obtain b m1 where step: "checkRateLimit now tenant m = (b, m1)" by fastforce
  obtain bs' m2 where rest: "check_calls calls m1 = (bs', m2)" by fastforce
  with Cons.prems(1) call step have "m' = m2" by simp
  have "tenant \<noteq> []" using Cons.prems(5) call by auto
  note next_ok = memory_step [OF step Cons.prems(2-4) this]
  show ?case unfolding \<open>m' = m2\<close> using Cons.IH [OF rest next_ok] Cons.prems(5) by simp
qed simp

text \<open>When the oldest tenant is the empty string, nothing is evicted any more.\<close>

lemma empty_tenant_stops_eviction:
  assumes "map_of m tenant = None" and "m = ([], b) # rest"
  shows "length (snd (checkRateLimit now tenant m)) = Suc (length m)"
proof -
  have "length (AList.update k v xs) = Suc (length xs)" if "map_of xs k = None" for k v and xs :: token_memory
    using that by (induction xs) (auto split: if_splits)
  with assms show ?thesis by (simp add: checkRateLimit_def make_room_def Let_def)
qed

section \<open>Overages\<close>

lemma overages:
  "(\<exists>e\<in>set (evaluateOverages uuid r tier now). be_type e = API_OVERAGE) \<longleftrightarrow> includedApiRequestsPerMonth tier < apiRequestsCount r"
  "(\<exists>e\<in>set (evaluateOverages uuid r tier now). be_type e = NEW_SKU_TIER) \<longleftrightarrow> maxActiveSkus tier < activeSkusCount r"
  "e \<in> set (evaluateOverages uuid r tier now) \<Longrightarrow> 0 < be_quantity e \<and> be_tenant e = us_tenant r"
  by (auto simp: evaluateOverages_def Let_def split: if_splits)

text \<open>No usage raises an event for storage, although its type is declared.\<close>

lemma storage_is_never_billed: "e \<in> set (evaluateOverages uuid r tier now) \<Longrightarrow> be_type e \<noteq> STORAGE_OVERAGE"
  by (auto simp: evaluateOverages_def Let_def split: if_splits)

end
