(* ===== verification/AddOns.thy ===== *)
theory AddOns
  imports Prelude
begin

text \<open>
  The modules around the core: transfers between the legal entities of a group (src/src/domain/intercompany), cycle counts
  (src/src/domain/cycleCount and infrastructure/graphql/cycleCountResolvers.ts), markdowns (domain/yield_management), aging
  (domain/aging) and labour (domain/labor). Lemmas: the consolidation of the group, the outcome of a count, the bounds of
  a markdown, the least headcount.
\<close>

section \<open>Intercompany transfers\<close>

datatype ic_status = Ic_draft | Ic_shipped | Ic_received | Ic_completed
datatype pricing_rule_type = COST_PLUS | MARKET_BASED | Other_rule string

record pricing_rule =
  tp_source :: string
  tp_destination :: string
  tp_type :: pricing_rule_type
  tp_markup :: number

record ic_transfer =
  ic_id :: string
  ic_tenant :: string
  ic_source :: string
  ic_destination :: string
  ic_sku :: string
  ic_quantity :: number
  ic_price :: number
  ic_status :: ic_status
  ic_tariffs :: number

record ic_entry =
  ie_transfer :: string
  ie_entity :: string
  ie_debit :: string
  ie_credit :: string
  ie_amount :: number
  ie_elimination :: bool

definition ic_ship :: "(ic_transfer, unit) oper" where
  "ic_ship = op_get (\<lambda>t. op_seq (op_reject (ic_status t \<noteq> Ic_draft) (Error ''Can only ship DRAFT transfers'' []))
     (op_modify (\<lambda>t. t\<lparr>ic_status := Ic_shipped\<rparr>)))"

definition ic_receive :: "(ic_transfer, unit) oper" where
  "ic_receive = op_get (\<lambda>t. op_seq (op_reject (ic_status t \<noteq> Ic_shipped) (Error ''Can only receive SHIPPED transfers'' []))
     (op_modify (\<lambda>t. t\<lparr>ic_status := Ic_received\<rparr>)))"

definition ic_complete :: "(ic_transfer, unit) oper" where
  "ic_complete = op_get (\<lambda>t. op_seq (op_reject (ic_status t \<noteq> Ic_received) (Error ''Can only complete RECEIVED transfers'' []))
     (op_modify (\<lambda>t. t\<lparr>ic_status := Ic_completed\<rparr>)))"

definition calculateTransferPrice :: "number \<Rightarrow> pricing_rule \<Rightarrow> number" where
  "calculateTransferPrice cost rule = (case tp_type rule of
     COST_PLUS \<Rightarrow> js_floor (cost + cost * (tp_markup rule / 100))
   | MARKET_BASED \<Rightarrow> js_floor (cost * (1 + tp_markup rule / 100))
   | Other_rule _ \<Rightarrow> cost)"

definition generateEntriesForShipment :: "ic_transfer \<Rightarrow> number \<Rightarrow> ic_entry list" where
  "generateEntriesForShipment t unitCost =
     (let totalCost = ic_quantity t * unitCost; totalRevenue = ic_quantity t * ic_price t in
      [\<lparr>ie_transfer = ic_id t, ie_entity = ic_source t, ie_debit = ''1200-INTERCOMPANY-AR'',
         ie_credit = ''4000-INTERCOMPANY-REVENUE'', ie_amount = totalRevenue, ie_elimination = False\<rparr>,
       \<lparr>ie_transfer = ic_id t, ie_entity = ic_source t, ie_debit = ''5000-COGS'', ie_credit = ''1400-INVENTORY'',
         ie_amount = totalCost, ie_elimination = False\<rparr>,
       \<lparr>ie_transfer = ic_id t, ie_entity = ic_source t, ie_debit = ''4000-INTERCOMPANY-REVENUE'', ie_credit = ''5000-COGS'',
         ie_amount = totalRevenue, ie_elimination = True\<rparr>])"

definition generateEntriesForReceipt :: "ic_transfer \<Rightarrow> ic_entry list" where
  "generateEntriesForReceipt t =
     (let totalCost = ic_quantity t * ic_price t in
      [\<lparr>ie_transfer = ic_id t, ie_entity = ic_destination t, ie_debit = ''1400-INVENTORY'', ie_credit = ''2200-INTERCOMPANY-AP'',
         ie_amount = totalCost, ie_elimination = False\<rparr>,
       \<lparr>ie_transfer = ic_id t, ie_entity = ic_destination t, ie_debit = ''2200-INTERCOMPANY-AP'', ie_credit = ''1200-INTERCOMPANY-AR'',
         ie_amount = totalCost, ie_elimination = True\<rparr>]
      @ (if ic_tariffs t > 0
         then [\<lparr>ie_transfer = ic_id t, ie_entity = ic_destination t, ie_debit = ''5100-DUTIES-AND-TARIFFS'',
           ie_credit = ''2000-ACCOUNTS-PAYABLE'', ie_amount = ic_tariffs t, ie_elimination = False\<rparr>] else []))"

definition generateConsolidatedLedger :: "string \<Rightarrow> ic_entry list \<Rightarrow> number" where
  "generateConsolidatedLedger tenant entries = fold (\<lambda>e netRevenue.
     let netRevenue = (if ie_credit e = ''4000-INTERCOMPANY-REVENUE'' \<and> \<not> ie_elimination e then netRevenue + ie_amount e else netRevenue)
     in if ie_debit e = ''4000-INTERCOMPANY-REVENUE'' \<and> ie_elimination e then netRevenue - ie_amount e else netRevenue) entries 0"

section \<open>Cycle counts\<close>

datatype abc_class = Class_A | Class_B | Class_C

definition classifySku :: "number \<Rightarrow> number \<Rightarrow> number \<Rightarrow> number \<Rightarrow> abc_class" where
  "classifySku usage orgValue aThreshold bThreshold =
     (if orgValue = 0 then Class_C
      else let ratio = usage / orgValue in if ratio \<ge> aThreshold then Class_A else if ratio \<ge> bThreshold then Class_B else Class_C)"

definition getRecommendedFrequency :: "abc_class \<Rightarrow> number" where
  "getRecommendedFrequency c = (case c of Class_A \<Rightarrow> 30 | Class_B \<Rightarrow> 90 | Class_C \<Rightarrow> 180)"

datatype count_status = Pending_count | In_progress_count | Completed_count | Cancelled_count | Recount_required
datatype line_status = Line_pending | Line_matched | Line_flagged | Line_recount

record cycle_count =
  cc_id :: string
  cc_tenant :: string
  cc_name :: string
  cc_status :: count_status
  cc_class :: "string option"
  cc_zone :: "string option"
  cc_blind :: bool
  cc_assignedTo :: "string option"
  cc_createdAt :: time

record count_plan =
  cp_id :: string
  cp_tenant :: string
  cp_name :: string
  cp_class :: string
  cp_frequencyDays :: number
  cp_zone :: "string option"

record cycle_line =
  cl_id :: string
  cl_count :: string
  cl_sku :: string
  cl_expected :: number
  cl_counted :: "number option"
  cl_variance :: "number option"
  cl_status :: line_status

definition generateAudits ::
    "(nat \<Rightarrow> string) \<Rightarrow> time \<Rightarrow> count_plan list \<Rightarrow> (string, time) js_map \<Rightarrow> cycle_count list" where
  "generateAudits uuid now plans lastCountDates = fold (\<lambda>plan generated.
     let overdue = (case map_of lastCountDates (cp_id plan) of None \<Rightarrow> True
           | Some lastCount \<Rightarrow> of_int (now - lastCount) / (1000 * 3600 * 24) \<ge> cp_frequencyDays plan)
     in if overdue then generated @ [\<lparr>cc_id = uuid (length generated), cc_tenant = cp_tenant plan,
            cc_name = ''Audit based on '' @ cp_name plan, cc_status = Pending_count, cc_class = Some (cp_class plan),
            cc_zone = (if cp_zone plan = Some [] then None else cp_zone plan), cc_blind = True, cc_assignedTo = None,
            cc_createdAt = now\<rparr>]
        else generated) plans []"

definition variance_pct :: "number \<Rightarrow> number \<Rightarrow> number" where
  "variance_pct expected counted =
     (if expected = 0 then if counted = 0 then 0 else 1 else \<bar>counted - expected\<bar> / expected)"

definition submitted_map :: "(string \<times> number) list \<Rightarrow> (string, number) js_map" where
  "submitted_map submitted = fold (\<lambda>(sku, q). AList.update sku q) submitted []"

definition submit_line :: "(string, number) js_map \<Rightarrow> number \<Rightarrow> cycle_line \<Rightarrow> cycle_line \<times> bool" where
  "submit_line submitted threshold l = (case map_of submitted (cl_sku l) of None \<Rightarrow> (l, False)
     | Some counted \<Rightarrow> (let l' = l\<lparr>cl_counted := Some counted, cl_variance := Some (counted - cl_expected l)\<rparr> in
         if variance_pct (cl_expected l) counted > threshold then (l'\<lparr>cl_status := Line_flagged\<rparr>, True)
         else (l'\<lparr>cl_status := Line_matched\<rparr>, False)))"

fun submit_lines :: "(string, number) js_map \<Rightarrow> number \<Rightarrow> cycle_line list \<Rightarrow> bool \<Rightarrow> cycle_line list \<times> bool" where
  "submit_lines m threshold [] requiresRecount = ([], requiresRecount)"
| "submit_lines m threshold (l # ls) requiresRecount =
     (let (l', flagged) = submit_line m threshold l;
          (ls', again) = submit_lines m threshold ls (requiresRecount \<or> flagged) in (l' # ls', again))"

definition processSubmission :: "(string \<times> number) list \<Rightarrow> number \<Rightarrow> (cycle_line list, bool) oper" where
  "processSubmission submitted threshold ls =
     (let (ls', requiresRecount) = submit_lines (submitted_map submitted) threshold ls False in (Inr (\<not> requiresRecount), ls'))"

record count_db =
  cd_lines :: "cycle_line list"
  cd_counts :: "cycle_count list"

text \<open>The lines of a count are objects of the array: what the service does to them it does to the array.\<close>

fun write_lines :: "string \<Rightarrow> cycle_line list \<Rightarrow> cycle_line list \<Rightarrow> cycle_line list" where
  "write_lines i [] ls = ls"
| "write_lines i (x # xs) [] = []"
| "write_lines i (x # xs) (l # ls) = (if cl_count l = i then x # write_lines i xs ls else l # write_lines i (x # xs) ls)"

fun set_count_status :: "string \<Rightarrow> count_status \<Rightarrow> cycle_count list \<Rightarrow> cycle_count list" where
  "set_count_status i st [] = []"
| "set_count_status i st (c # cs) = (if cc_id c = i then c\<lparr>cc_status := st\<rparr> # cs else c # set_count_status i st cs)"

definition apply_submission :: "string \<Rightarrow> (string \<times> number) list \<Rightarrow> (count_db, count_status \<times> cycle_line list) oper" where
  "apply_submission i submitted = op_get (\<lambda>db.
     let ccItems = filter (\<lambda>l. cl_count l = i) (cd_lines db); (r, ccItems') = processSubmission submitted (5 / 100) ccItems;
         st = (if r = Inr True then Completed_count else Recount_required)
     in op_seq (op_modify (\<lambda>db. db\<lparr>cd_lines := write_lines i ccItems' (cd_lines db),
          cd_counts := set_count_status i st (cd_counts db)\<rparr>)) (op_return (st, ccItems')))"

definition submitCycleCount :: "string \<Rightarrow> (string \<times> number) list \<Rightarrow> (count_db, count_status \<times> cycle_line list) oper" where
  "submitCycleCount i submitted = op_get (\<lambda>db. case find (\<lambda>c. cc_id c = i) (cd_counts db) of
     None \<Rightarrow> op_throw (Error ''Cycle count not found'' []) | Some cc \<Rightarrow> apply_submission i submitted)"

text \<open>The results of an offline synchronisation: the count, and its status, \<open>None\<close> for NOT_FOUND.\<close>

fun syncOfflineCycleCounts ::
    "(string \<times> (string \<times> number) list) list \<Rightarrow> (count_db, (string \<times> count_status option) list) oper" where
  "syncOfflineCycleCounts [] = op_return []"
| "syncOfflineCycleCounts ((i, submitted) # submissions) = op_get (\<lambda>db. case find (\<lambda>c. cc_id c = i) (cd_counts db) of
     None \<Rightarrow> op_bind (syncOfflineCycleCounts submissions) (\<lambda>results. op_return ((i, None) # results))
   | Some cc \<Rightarrow> op_bind (apply_submission i submitted) (\<lambda>(st, ls).
       op_bind (syncOfflineCycleCounts submissions) (\<lambda>results. op_return ((i, Some st) # results))))"

section \<open>Markdowns\<close>

datatype markdown_status = Proposed_markdown | Approved_markdown | Pushed_to_channels

record liquidation_profile =
  lp_sku :: string
  basePriceCents :: number
  holdingCostPerDayCents :: number
  minFloorPriceCents :: number

record yield_metrics =
  ym_sku :: string
  daysInInventory :: number
  daysUntilExpiration :: "number option"
  historicalDailyDemand :: number
  currentStockQuantity :: number

record markdown =
  md_id :: string
  md_sku :: string
  md_price :: number
  md_reasoning :: string
  md_status :: markdown_status

definition md_approve :: "(markdown, unit) oper" where
  "md_approve = op_get (\<lambda>r. op_seq (op_reject (md_status r \<noteq> Proposed_markdown) (Error ''Can only approve PROPOSED markdowns'' []))
     (op_modify (\<lambda>r. r\<lparr>md_status := Approved_markdown\<rparr>)))"

definition pushToChannels :: "(markdown, unit) oper" where
  "pushToChannels = op_get (\<lambda>r. op_seq (op_reject (md_status r \<noteq> Approved_markdown) (Error ''Can only push APPROVED markdowns'' []))
     (op_modify (\<lambda>r. r\<lparr>md_status := Pushed_to_channels\<rparr>)))"

definition expires_soon :: "yield_metrics \<Rightarrow> bool" where
  "expires_soon ym = (case daysUntilExpiration ym of None \<Rightarrow> False | Some d \<Rightarrow> d < 14)"

definition calculateOptimalPrice :: "yield_metrics \<Rightarrow> liquidation_profile \<Rightarrow> number" where
  "calculateOptimalPrice ym profile =
     (let currentPrice = basePriceCents profile - daysInInventory ym * holdingCostPerDayCents profile;
          currentPrice = (case daysUntilExpiration ym of None \<Rightarrow> currentPrice
            | Some d \<Rightarrow> if d < 14 \<and> currentStockQuantity ym > historicalDailyDemand ym * d then minFloorPriceCents profile
                else currentPrice)
      in max currentPrice (minFloorPriceCents profile))"

definition generateMarkdown :: "(nat \<Rightarrow> string) \<Rightarrow> yield_metrics \<Rightarrow> liquidation_profile \<Rightarrow> markdown option" where
  "generateMarkdown uuid ym profile =
     (let optimalPrice = calculateOptimalPrice ym profile
      in if optimalPrice < basePriceCents profile
         then Some \<lparr>md_id = uuid 0, md_sku = ym_sku ym, md_price = optimalPrice,
           md_reasoning = (if optimalPrice = minFloorPriceCents profile \<and> expires_soon ym
             then ''Approaching Expiration - High Overstock'' else ''Accrued holding costs''), md_status = Proposed_markdown\<rparr>
         else None)"

section \<open>Aging\<close>

datatype aging_bucket = Days_0_30 | Days_31_60 | Days_61_90 | Days_91_180 | Over_180_days
datatype stock_action = No_action | Markdown_action | Liquidate | Donate | Scrap_action

record dead_stock =
  ds_sku :: string
  ds_location :: string
  ds_tenant :: string
  ds_quantity :: number
  daysSinceLastMovement :: number
  isDeadStock :: bool
  agingBucket :: aging_bucket
  lockedCapitalCents :: number
  recommendedAction :: stock_action

definition last_receipt :: "(number \<times> time) list \<Rightarrow> time option" where
  "last_receipt entries = fold (\<lambda>(q, t) latest. if q > 0
     then (case latest of None \<Rightarrow> Some t | Some l \<Rightarrow> if t > l then Some t else latest) else latest) entries None"

definition bucket_of_age :: "number \<Rightarrow> aging_bucket" where
  "bucket_of_age daysOld = (if daysOld > 180 then Over_180_days else if daysOld > 90 then Days_91_180
     else if daysOld > 60 then Days_61_90 else if daysOld > 30 then Days_31_60 else Days_0_30)"

definition calculateAgingBuckets :: "time \<Rightarrow> (number \<times> time) list \<Rightarrow> number \<times> aging_bucket" where
  "calculateAgingBuckets now entries =
     (let daysOld = (case last_receipt entries of None \<Rightarrow> 0 | Some t \<Rightarrow> js_floor (of_int (now - t) / (1000 * 60 * 60 * 24)))
      in (max daysOld 0, bucket_of_age daysOld))"

definition analyze ::
    "string \<Rightarrow> string \<Rightarrow> string \<Rightarrow> number \<Rightarrow> number \<Rightarrow> number \<Rightarrow> aging_bucket \<Rightarrow> bool \<Rightarrow> dead_stock" where
  "analyze sku loc tenant quantity unitCost days age overstock =
     (let dead = days > 180 in \<lparr>ds_sku = sku, ds_location = loc, ds_tenant = tenant, ds_quantity = quantity,
        daysSinceLastMovement = days, isDeadStock = dead, agingBucket = age, lockedCapitalCents = quantity * unitCost,
        recommendedAction = (if dead then if quantity > 10 then Liquidate else Donate
          else if age = Days_91_180 \<and> overstock then Markdown_action else No_action)\<rparr>)"

definition calculateScrapEmissions :: "number \<Rightarrow> number \<Rightarrow> number" where
  "calculateScrapEmissions quantity factor = quantity * factor"

section \<open>Labour\<close>

record operator_kpi =
  ok_operator :: string
  ok_date :: time
  actualPicksPerHour :: number
  cycleCountAccuracyPercent :: number
  traversalDistanceMeters :: number

record staffing_schedule =
  ss_id :: string
  ss_date :: time
  ss_inbound :: number
  ss_outbound :: number
  recommendedHeadcount :: number
  ss_published :: bool

definition publish :: "(staffing_schedule, unit) oper" where
  "publish = op_get (\<lambda>s. op_seq (op_reject (ss_published s) (Error ''Can only publish DRAFT schedules'' []))
     (op_modify (\<lambda>s. s\<lparr>ss_published := True\<rparr>)))"

definition calculateDailyKpi :: "string \<Rightarrow> time \<Rightarrow> number \<Rightarrow> number \<Rightarrow> number \<Rightarrow> number \<Rightarrow> number \<Rightarrow> operator_kpi" where
  "calculateDailyKpi opId date totalPicks hours accurate counted distance =
     \<lparr>ok_operator = opId, ok_date = date, actualPicksPerHour = (if hours > 0 then totalPicks / hours else 0),
      cycleCountAccuracyPercent = (if counted > 0 then accurate / counted * 100 else 100), traversalDistanceMeters = distance\<rparr>"

definition generateStaffingRecommendation ::
    "(nat \<Rightarrow> string) \<Rightarrow> time \<Rightarrow> number \<Rightarrow> number \<Rightarrow> number \<Rightarrow> number \<Rightarrow> staffing_schedule" where
  "generateStaffingRecommendation uuid date inbound outbound averagePicks shiftHours =
     (let totalVolume = inbound + outbound; picksPerShift = averagePicks * shiftHours
      in \<lparr>ss_id = uuid 0, ss_date = date, ss_inbound = inbound, ss_outbound = outbound,
          recommendedHeadcount = (if picksPerShift > 0 then js_ceil (totalVolume / picksPerShift) else 0), ss_published = False\<rparr>)"

section \<open>The books of the group\<close>

definition account_net :: "string \<Rightarrow> ic_entry list \<Rightarrow> number" where
  "account_net a es = (\<Sum>e\<leftarrow>es. (if ie_debit e = a then ie_amount e else 0) - (if ie_credit e = a then ie_amount e else 0))"

definition group_entries :: "(ic_transfer \<times> number) list \<Rightarrow> ic_entry list" where
  "group_entries ts = concat (map (\<lambda>(t, c). generateEntriesForShipment t c @ generateEntriesForReceipt t) ts)"

lemma account_net_simps [simp]:
  "account_net a [] = 0"
  "account_net a (e # es) = (if ie_debit e = a then ie_amount e else 0) - (if ie_credit e = a then ie_amount e else 0) + account_net a es"
  "account_net a (es @ es') = account_net a es + account_net a es'"
  by (simp_all add: account_net_def)

lemma consolidated_sum:
  "generateConsolidatedLedger tenant es = (\<Sum>e\<leftarrow>es. (if ie_credit e = ''4000-INTERCOMPANY-REVENUE'' \<and> \<not> ie_elimination e then ie_amount e else 0)
     - (if ie_debit e = ''4000-INTERCOMPANY-REVENUE'' \<and> ie_elimination e then ie_amount e else 0))"
proof -
  have "fold (\<lambda>e netRevenue. let netRevenue = (if ie_credit e = ''4000-INTERCOMPANY-REVENUE'' \<and> \<not> ie_elimination e then netRevenue + ie_amount e else netRevenue)
     in if ie_debit e = ''4000-INTERCOMPANY-REVENUE'' \<and> ie_elimination e then netRevenue - ie_amount e else netRevenue) es x
     = x + (\<Sum>e\<leftarrow>es. (if ie_credit e = ''4000-INTERCOMPANY-REVENUE'' \<and> \<not> ie_elimination e then ie_amount e else 0)
     - (if ie_debit e = ''4000-INTERCOMPANY-REVENUE'' \<and> ie_elimination e then ie_amount e else 0))" for x
    by (induction es arbitrary: x) (simp_all add: Let_def)
  then show ?thesis by (simp add: generateConsolidatedLedger_def)
qed

text \<open>
  C29. Transfers inside the group vanish from its books: over any list of transfers that are shipped and received, the consolidated
  revenue is nothing, and so are the net receivables, payables and revenue between the entities; what the transfers
  earn stays in the inventory, exactly as much as the cost of goods sold is too low.
\<close>

theorem intercompany_consolidation:
  "generateConsolidatedLedger tenant (group_entries ts) = 0
   \<and> account_net ''1200-INTERCOMPANY-AR'' (group_entries ts) = 0
   \<and> account_net ''2200-INTERCOMPANY-AP'' (group_entries ts) = 0
   \<and> account_net ''4000-INTERCOMPANY-REVENUE'' (group_entries ts) = 0
   \<and> account_net ''1400-INVENTORY'' (group_entries ts) = (\<Sum>(t, c)\<leftarrow>ts. ic_quantity t * (ic_price t - c))
   \<and> account_net ''5000-COGS'' (group_entries ts) = - (\<Sum>(t, c)\<leftarrow>ts. ic_quantity t * (ic_price t - c))"
proof (induction ts)
  case Nil
  show ?case by (simp add: group_entries_def consolidated_sum)
next
  case (Cons x ts)
  obtain t c where x: "x = (t, c)" by fastforce
  have es: "group_entries (x # ts) = generateEntriesForShipment t c @ generateEntriesForReceipt t @ group_entries ts"
    by (simp add: group_entries_def x)
  from Cons show ?case
    unfolding es by (simp add: x consolidated_sum generateEntriesForShipment_def generateEntriesForReceipt_def Let_def algebra_simps)
qed

section \<open>Counting\<close>

lemma submit_lines_map:
  "submit_lines m threshold ls again = (map (\<lambda>l. fst (submit_line m threshold l)) ls, again \<or> list_ex (\<lambda>l. snd (submit_line m threshold l)) ls)"
  by (induction ls arbitrary: again) (auto simp: Let_def split: prod.splits)

lemma write_lines_map:
  "write_lines i (map f (filter (\<lambda>l. cl_count l = i) ls)) ls = map (\<lambda>l. if cl_count l = i then f l else l) ls"
proof (induction ls)
  case (Cons l ls)
  show ?case
  proof (cases "cl_count l = i")
    case True
    with Cons show ?thesis by simp
  next
    case False
    show ?thesis
    proof (cases "map f (filter (\<lambda>l. cl_count l = i) ls)")
      case Nil
      then have "map (\<lambda>l. if cl_count l = i then f l else l) ls = ls" by (intro map_idI) (auto simp: filter_empty_conv)
      with Nil False show ?thesis by simp
    next
      case (Cons y ys)
      with False Cons.IH show ?thesis by simp
    qed
  qed
qed simp

lemma flagged_iff:
  "snd (submit_line m threshold l) \<longleftrightarrow> (\<exists>q. map_of m (cl_sku l) = Some q \<and> threshold < variance_pct (cl_expected l) q)"
  by (auto simp: submit_line_def Let_def split: option.splits)


definition sample_count_db :: count_db where
  "sample_count_db = \<lparr>cd_lines = [\<lparr>cl_id = ''li-1'', cl_count = ''cc-1'', cl_sku = ''SKU-1'', cl_expected = 10, cl_counted = None,
       cl_variance = None, cl_status = Line_pending\<rparr>],
     cd_counts = [\<lparr>cc_id = ''cc-1'', cc_tenant = ''t'', cc_name = ''Aisle A'', cc_status = Pending_count, cc_class = None,
       cc_zone = None, cc_blind = True, cc_assignedTo = None, cc_createdAt = 0\<rparr>]\<rparr>"


text \<open>A submission without a single count completes the cycle count.\<close>

lemma uncounted_count_completes:
  assumes "find (\<lambda>c. cc_id c = i) (cd_counts db) = Some c"
  shows "\<exists>ls db'. submitCycleCount i [] db = (Inr (Completed_count, ls), db') \<and> cd_lines db' = cd_lines db"
proof -
  have same: "fst (submit_line (submitted_map []) th l) = l" "\<not> snd (submit_line (submitted_map []) th l)" for th l
    by (simp_all add: submit_line_def submitted_map_def)
  have "map (\<lambda>l. if cl_count l = i then id l else l) ls = ls" for ls by (induction ls) auto
  then have "write_lines i (filter (\<lambda>l. cl_count l = i) ls) ls = ls" for ls using write_lines_map [of i id ls] by (simp only: list.map_id)
  with assms show ?thesis
    by (simp add: submitCycleCount_def apply_submission_def processSubmission_def submit_lines_map same oper_simps Let_def list_ex_iff)
qed

lemma audits_of_due_plans:
  "map cc_name (generateAudits uuid now plans dates) = map (\<lambda>p. ''Audit based on '' @ cp_name p)
     (filter (\<lambda>p. case map_of dates (cp_id p) of None \<Rightarrow> True | Some t \<Rightarrow> of_int (now - t) / 86400000 \<ge> cp_frequencyDays p) plans)"
proof -
  let ?f = "\<lambda>plan generated. let overdue = (case map_of dates (cp_id plan) of None \<Rightarrow> True
           | Some lastCount \<Rightarrow> of_int (now - lastCount) / (1000 * 3600 * 24) \<ge> cp_frequencyDays plan)
     in if overdue then generated @ [\<lparr>cc_id = uuid (length generated), cc_tenant = cp_tenant plan,
            cc_name = ''Audit based on '' @ cp_name plan, cc_status = Pending_count, cc_class = Some (cp_class plan),
            cc_zone = (if cp_zone plan = Some [] then None else cp_zone plan), cc_blind = True, cc_assignedTo = None,
            cc_createdAt = now\<rparr>]
        else generated"
  have "map cc_name (fold ?f plans gs) = map cc_name gs @ map (\<lambda>p. ''Audit based on '' @ cp_name p)
     (filter (\<lambda>p. case map_of dates (cp_id p) of None \<Rightarrow> True | Some t \<Rightarrow> of_int (now - t) / 86400000 \<ge> cp_frequencyDays p) plans)" for gs
    by (induction plans arbitrary: gs) (auto simp: Let_def split: option.splits)
  from this [of "[]"] show ?thesis by (simp add: generateAudits_def)
qed

section \<open>Prices, ages, staff\<close>

lemma markdown_bounds:
  "generateMarkdown uuid ym profile = Some r \<Longrightarrow> minFloorPriceCents profile \<le> md_price r \<and> md_price r < basePriceCents profile"
  "basePriceCents profile \<le> minFloorPriceCents profile \<Longrightarrow> generateMarkdown uuid ym profile = None"
  by (auto simp: generateMarkdown_def calculateOptimalPrice_def Let_def split: if_splits option.splits)

text \<open>
  The days since the last movement are those since the last receipt: stock that is sold every day, and was received once,
  is dead stock after half a year.
\<close>

lemma sold_stock_is_dead_stock:
  assumes "0 < q" and "\<forall>(x, t)\<in>set sales. x < 0" and "181 * 86400000 \<le> now - received" and "age = calculateAgingBuckets now ((q, received) # sales)"
  shows "isDeadStock (analyze sku loc tenant k c (fst age) (snd age) over)"
proof -
  have "fold (\<lambda>(q, t) latest. if q > 0 then (case latest of None \<Rightarrow> Some t | Some l \<Rightarrow> if t > l then Some t else latest) else latest) sales x = x"
    for x :: "time option"
    using assms(2) by (induction sales) auto
  then have last: "last_receipt ((q, received) # sales) = Some received" using assms(1) by (simp add: last_receipt_def)
  have "181 \<le> (of_int (now - received) :: number) / 86400000"
    using assms(3) by (simp add: field_simps flip: of_int_mult of_int_diff)
  then have "181 \<le> \<lfloor>(of_int (now - received) :: number) / 86400000\<rfloor>" by (simp add: le_floor_iff)
  then have "(181 :: number) \<le> of_int \<lfloor>(of_int (now - received) :: number) / 86400000\<rfloor>" by (metis of_int_le_iff of_int_numeral)
  then show ?thesis by (simp add: assms(4) analyze_def calculateAgingBuckets_def last Let_def js_floor_def)
qed

lemma headcount_least:
  assumes "0 < picks * hours"
  shows "inbound + outbound \<le> recommendedHeadcount (generateStaffingRecommendation uuid d inbound outbound picks hours) * (picks * hours)"
    and "(recommendedHeadcount (generateStaffingRecommendation uuid d inbound outbound picks hours) - 1) * (picks * hours) < inbound + outbound"
proof -
  have "(inbound + outbound) / (picks * hours) \<le> js_ceil ((inbound + outbound) / (picks * hours))"
    "js_ceil ((inbound + outbound) / (picks * hours)) - 1 < (inbound + outbound) / (picks * hours)"
    using js_ceil_bounds [of "(inbound + outbound) / (picks * hours)"] by simp_all
  then show "inbound + outbound \<le> recommendedHeadcount (generateStaffingRecommendation uuid d inbound outbound picks hours) * (picks * hours)"
    and "(recommendedHeadcount (generateStaffingRecommendation uuid d inbound outbound picks hours) - 1) * (picks * hours) < inbound + outbound"
    using assms by (simp_all only: pos_divide_le_eq pos_less_divide_eq generateStaffingRecommendation_def Let_def staffing_schedule.select_convs if_True)
qed

end
