(* ===== verification/Portal.thy ===== *)
theory Portal
  imports Prelude
begin

text \<open>
  The supplier portal (src/src/domain/supplierPortal and infrastructure/graphql/supplierPortalResolvers.ts), notifications
  (domain/notification), vision inspections (domain/vision) and inbound scans (domain/receiving/InboundScan.ts).
\<close>

section \<open>Supplier portal\<close>

datatype portal_status = ISSUED | ACKNOWLEDGED | SHIPPED | RECEIVED_po

fun portal_status_name :: "portal_status \<Rightarrow> string" where
  "portal_status_name ISSUED = ''ISSUED''"
| "portal_status_name ACKNOWLEDGED = ''ACKNOWLEDGED''"
| "portal_status_name SHIPPED = ''SHIPPED''"
| "portal_status_name RECEIVED_po = ''RECEIVED''"

record portal_order =
  po_id :: string
  po_tenant :: string
  po_supplier :: string
  po_status :: portal_status
  po_expected :: "time option"
  po_acknowledged :: "time option"
  po_issuedAt :: time

record asn_line =
  an_id :: string
  an_asn :: string
  an_sku :: string
  shippedQuantity :: number
  an_lot :: "string option"

datatype asn_status = SUBMITTED | RECEIVED_asn | DISCREPANCY

record shipping_notice =
  as_id :: string
  as_po :: string
  as_supplier :: string
  as_tracking :: string
  as_estimated :: time
  as_status :: asn_status
  as_items :: "asn_line list"
  as_createdAt :: time

definition validateAndSubmitASN :: "shipping_notice \<Rightarrow> (portal_order, shipping_notice) oper" where
  "validateAndSubmitASN asn = op_get (\<lambda>po.
     op_seq (op_reject (po_status po \<noteq> ISSUED \<and> po_status po \<noteq> ACKNOWLEDGED)
       (Error ''Cannot submit ASN for PO in status {}'' [S (portal_status_name (po_status po))]))
     (op_seq (op_reject (po_supplier po \<noteq> as_supplier asn) (Error ''ASN supplier does not match PO supplier'' []))
     (op_seq (op_reject (as_items asn = []) (Error ''ASN must contain at least one line item'' []))
     (op_seq (op_modify (\<lambda>po. po\<lparr>po_status := SHIPPED\<rparr>)) (op_return asn)))))"

record otif_result =
  onTime :: bool
  inFull :: bool
  otifSuccess :: bool
  defectRatePercentage :: number

definition calculateOTIF :: "shipping_notice \<Rightarrow> time \<Rightarrow> (string, number) js_map \<Rightarrow> otif_result" where
  "calculateOTIF asn actualReceiptDate actualQuantities =
     (let isOnTime = actualReceiptDate \<le> as_estimated asn;
          (isInFull, defectCount) = fold (\<lambda>item (full, n). if lookup_or 0 actualQuantities (an_sku item) < shippedQuantity item
            then (False, n + 1) else (full, n)) (as_items asn) (True, 0);
          totalItems = of_nat (length (as_items asn))
      in \<lparr>onTime = isOnTime, inFull = isInFull, otifSuccess = (isOnTime \<and> isInFull),
          defectRatePercentage = (if totalItems > 0 then defectCount / totalItems * 100 else 0)\<rparr>)"

record supplier_auth =
  au_supplier :: string
  au_tenant :: string

record portal =
  pt_orders :: "portal_order list"
  pt_notices :: "shipping_notice list"

definition getSupplierAuth :: "(string option \<times> string option) option \<Rightarrow> supplier_auth result" where
  "getSupplierAuth auth = (case auth of
     None \<Rightarrow> Inl (Error ''Authentication required: Access token is missing or invalid.'' [])
   | Some (supplier, tenant) \<Rightarrow> (case (supplier, tenant) of
       (Some s, Some t) \<Rightarrow> if s = [] \<or> t = []
         then Inl (Error ''Unauthorized: Supplier identification or tenant missing from context.'' [])
         else Inr \<lparr>au_supplier = s, au_tenant = t\<rparr>
     | _ \<Rightarrow> Inl (Error ''Unauthorized: Supplier identification or tenant missing from context.'' [])))"

definition owns :: "supplier_auth \<Rightarrow> portal_order \<Rightarrow> bool" where
  "owns a po \<longleftrightarrow> po_supplier po = au_supplier a \<and> po_tenant po = au_tenant a"

definition getSupplierPOs :: "(string option \<times> string option) option \<Rightarrow> portal \<Rightarrow> portal_order list result" where
  "getSupplierPOs auth db = result_bind (getSupplierAuth auth) (\<lambda>a. Inr (filter (owns a) (pt_orders db)))"

text \<open>\<open>find\<close> returns the object of the array: what is done to it is done in place, on the first that is found.\<close>

fun first_order :: "(portal_order \<Rightarrow> bool) \<Rightarrow> (portal_order, 'a) oper \<Rightarrow> portal_order list \<Rightarrow> ('a result \<times> portal_order list) option" where
  "first_order P f [] = None"
| "first_order P f (p # ps) = (if P p then (let (r, p') = f p in Some (r, p' # ps))
     else map_option (\<lambda>(r, ps'). (r, p # ps')) (first_order P f ps))"

definition on_own_order :: "supplier_auth \<Rightarrow> string \<Rightarrow> (portal_order, 'a) oper \<Rightarrow> (portal, 'a) oper" where
  "on_own_order a i f db = (case first_order (\<lambda>p. po_id p = i \<and> owns a p) f (pt_orders db) of
     None \<Rightarrow> (Inl (Error ''PO not found or access denied'' []), db)
   | Some (r, orders) \<Rightarrow> (r, db\<lparr>pt_orders := orders\<rparr>))"

definition acknowledgePO ::
    "time \<Rightarrow> (string option \<times> string option) option \<Rightarrow> string \<Rightarrow> time \<Rightarrow> (portal, portal_order) oper" where
  "acknowledgePO now auth i expected = op_bind (op_lift (getSupplierAuth auth)) (\<lambda>a.
     on_own_order a i (op_seq (op_modify (\<lambda>po. po\<lparr>po_status := ACKNOWLEDGED, po_expected := Some expected, po_acknowledged := Some now\<rparr>))
       (op_get op_return)))"

record asn_input =
  in_po :: string
  in_tracking :: string
  in_estimated :: time
  in_items :: "(string \<times> number \<times> string option) list"

definition asn_of :: "(nat \<Rightarrow> string) \<Rightarrow> time \<Rightarrow> supplier_auth \<Rightarrow> asn_input \<Rightarrow> shipping_notice" where
  "asn_of show_index now a inp = \<lparr>as_id = ''new-asn-id'', as_po = in_po inp, as_supplier = au_supplier a,
     as_tracking = in_tracking inp, as_estimated = in_estimated inp, as_status = SUBMITTED,
     as_items = map (\<lambda>((sku, q, lot), idx). \<lparr>an_id = ''item-'' @ show_index idx, an_asn = ''new-asn-id'', an_sku = sku,
       shippedQuantity = q, an_lot = lot\<rparr>) (zip (in_items inp) [0..<length (in_items inp)]),
     as_createdAt = now\<rparr>"

definition submitASN ::
    "(nat \<Rightarrow> string) \<Rightarrow> time \<Rightarrow> (string option \<times> string option) option \<Rightarrow> asn_input \<Rightarrow> (portal, shipping_notice) oper" where
  "submitASN show_index now auth inp = op_bind (op_lift (getSupplierAuth auth)) (\<lambda>a.
     op_bind (on_own_order a (in_po inp) (validateAndSubmitASN (asn_of show_index now a inp))) (\<lambda>asn.
       op_seq (op_modify (\<lambda>db. db\<lparr>pt_notices := pt_notices db @ [asn]\<rparr>)) (op_return asn)))"

section \<open>Notifications\<close>

datatype notification_category = INVENTORY_LEVEL | SYSTEM_ANOMALY | WEBHOOK_FAILURE | APPROVAL_REQUIRED
datatype notification_severity = INFO | WARNING | CRITICAL
datatype notification_status = UNREAD | READ | SNOOZED | ESCALATED
datatype notification_channel = IN_APP | EMAIL | SMS | WEBHOOK

record notification =
  no_id :: string
  no_tenant :: string
  no_user :: string
  no_category :: notification_category
  no_severity :: notification_severity
  no_message :: string
  no_metadata :: "(string, arg) js_map"
  no_status :: notification_status
  no_createdAt :: time
  no_snoozedUntil :: "time option"

definition Notification ::
    "string \<Rightarrow> string \<Rightarrow> string \<Rightarrow> notification_category \<Rightarrow> notification_severity \<Rightarrow> string \<Rightarrow> (string, arg) js_map \<Rightarrow> time
     \<Rightarrow> notification" where
  "Notification i tenant user category severity message metadata now = \<lparr>no_id = i, no_tenant = tenant, no_user = user,
     no_category = category, no_severity = severity, no_message = message, no_metadata = metadata, no_status = UNREAD,
     no_createdAt = now, no_snoozedUntil = None\<rparr>"

definition note_escalate :: "notification \<Rightarrow> notification" where
  "note_escalate n = n\<lparr>no_status := ESCALATED, no_severity := CRITICAL\<rparr>"

record notification_preference =
  np_channels :: "notification_channel list"
  np_isMuted :: bool

datatype outbox_message = SEND_EMAIL string string | SEND_SMS string string

record dispatcher =
  outboxEvents :: "outbox_message list"
  inAppNotifications :: "notification list"

definition dispatch_to ::
    "(nat \<Rightarrow> string) \<Rightarrow> time \<Rightarrow> string \<Rightarrow> notification_category \<Rightarrow> notification_severity \<Rightarrow> string \<Rightarrow> (string, arg) js_map
     \<Rightarrow> (string, notification_preference) js_map \<Rightarrow> string \<Rightarrow> dispatcher \<Rightarrow> dispatcher" where
  "dispatch_to uuid now tenant category severity message metadata preferences userId d =
     (let pref = map_of preferences userId;
          channels = (case pref of None \<Rightarrow> [IN_APP] | Some p \<Rightarrow> np_channels p)
      in if (case pref of None \<Rightarrow> False | Some p \<Rightarrow> np_isMuted p) \<and> severity \<noteq> CRITICAL then d
         else \<lparr>outboxEvents = outboxEvents d @ (if EMAIL \<in> set channels then [SEND_EMAIL userId message] else [])
                @ (if SMS \<in> set channels then [SEND_SMS userId message] else []),
           inAppNotifications = inAppNotifications d @ (if IN_APP \<in> set channels
             then [Notification (uuid (length (inAppNotifications d))) tenant userId category severity message metadata now] else [])\<rparr>)"

definition dispatch_all ::
    "(nat \<Rightarrow> string) \<Rightarrow> time \<Rightarrow> string \<Rightarrow> string list \<Rightarrow> notification_category \<Rightarrow> notification_severity \<Rightarrow> string
     \<Rightarrow> (string, arg) js_map \<Rightarrow> (string, notification_preference) js_map \<Rightarrow> (dispatcher, unit) oper" where
  "dispatch_all uuid now tenant targetUsers category severity message metadata preferences =
     op_modify (fold (dispatch_to uuid now tenant category severity message metadata preferences) targetUsers)"

type_synonym inbox = "notification list"

fun change_notification :: "string \<Rightarrow> string \<Rightarrow> (notification \<Rightarrow> notification) \<Rightarrow> inbox \<Rightarrow> (notification \<times> inbox) option" where
  "change_notification i user f [] = None"
| "change_notification i user f (n # ns) = (if no_id n = i \<and> no_user n = user then Some (f n, f n # ns)
     else map_option (\<lambda>(x, ns'). (x, n # ns')) (change_notification i user f ns))"

definition markAsRead :: "string \<Rightarrow> string \<Rightarrow> (inbox, bool) oper" where
  "markAsRead i user ns = (case change_notification i user (\<lambda>n. n\<lparr>no_status := READ\<rparr>) ns of
     None \<Rightarrow> (Inr False, ns) | Some (x, ns') \<Rightarrow> (Inr True, ns'))"

text \<open>\<open>until\<close> is the current time with the hours of the local clock advanced.\<close>

definition snooze :: "string \<Rightarrow> string \<Rightarrow> time \<Rightarrow> (inbox, bool) oper" where
  "snooze i user until ns = (case change_notification i user (\<lambda>n. n\<lparr>no_status := SNOOZED, no_snoozedUntil := Some until\<rparr>) ns of
     None \<Rightarrow> (Inr False, ns) | Some (x, ns') \<Rightarrow> (Inr True, ns'))"

definition escalate_to :: "string \<Rightarrow> time \<Rightarrow> string \<Rightarrow> string \<Rightarrow> string \<Rightarrow> (inbox, notification option) oper" where
  "escalate_to newId now i user manager ns = (case change_notification i user note_escalate ns of
     None \<Rightarrow> (Inr None, ns)
   | Some (n, ns') \<Rightarrow> (let e = Notification newId (no_tenant n) manager (no_category n) CRITICAL
         (''[ESCALATED from '' @ user @ ''] '' @ no_message n) (no_metadata n) now in (Inr (Some e), ns' @ [e])))"

definition getUnreadCount :: "string \<Rightarrow> inbox \<Rightarrow> nat" where
  "getUnreadCount user ns = fold (\<lambda>n count. if no_user n = user \<and> no_status n = UNREAD then count + 1 else count) ns 0"

section \<open>Inspections and scans\<close>

datatype inspection_status = Pending_inspection | Analyzed | Flagged | Passed

definition passInspection :: "(inspection_status, unit) oper" where
  "passInspection = op_get (\<lambda>s. op_seq (op_reject (s \<noteq> Pending_inspection \<and> s \<noteq> Analyzed) (Error ''Invalid status transition to PASSED'' []))
     (op_modify (\<lambda>s. Passed)))"

definition flagInspection :: "(inspection_status, unit) oper" where
  "flagInspection = op_get (\<lambda>s. op_seq (op_reject (s \<noteq> Pending_inspection \<and> s \<noteq> Analyzed) (Error ''Invalid status transition to FLAGGED'' []))
     (op_modify (\<lambda>s. Flagged)))"

definition processInspection :: "number \<Rightarrow> number \<Rightarrow> (inspection_status, unit) oper" where
  "processInspection damageScore damageThreshold =
     (if damageScore \<ge> damageThreshold then flagInspection else passInspection)"

datatype scan_status = Pending_scan | Approved_scan | Rejected_scan

fun scan_status_name :: "scan_status \<Rightarrow> string" where
  "scan_status_name Pending_scan = ''PENDING''"
| "scan_status_name Approved_scan = ''APPROVED''"
| "scan_status_name Rejected_scan = ''REJECTED''"

definition scan_approve :: "(scan_status, unit) oper" where
  "scan_approve = op_get (\<lambda>s. op_seq (op_reject (s \<noteq> Pending_scan) (Error ''Cannot approve scan in status {}'' [S (scan_status_name s)]))
     (op_modify (\<lambda>s. Approved_scan)))"

definition scan_reject :: "(scan_status, unit) oper" where
  "scan_reject = op_get (\<lambda>s. op_seq (op_reject (s \<noteq> Pending_scan) (Error ''Cannot reject scan in status {}'' [S (scan_status_name s)]))
     (op_modify (\<lambda>s. Rejected_scan)))"

section \<open>A supplier sees and changes only its own orders\<close>

datatype portal_call = CallAcknowledge string time | CallSubmit asn_input

definition portal_exec ::
    "(nat \<Rightarrow> string) \<Rightarrow> time \<Rightarrow> (string option \<times> string option) option \<Rightarrow> portal_call \<Rightarrow> (portal, unit) oper" where
  "portal_exec show_index now auth c = (case c of
     CallAcknowledge i t \<Rightarrow> op_bind (acknowledgePO now auth i t) (\<lambda>_. op_return ())
   | CallSubmit inp \<Rightarrow> op_bind (submitASN show_index now auth inp) (\<lambda>_. op_return ()))"

lemma first_order_foreign:
  "first_order P f ps = Some (r, ps') \<Longrightarrow> (\<And>p. P p \<Longrightarrow> \<not> Q p) \<Longrightarrow> (\<And>p r p'. P p \<Longrightarrow> f p = (r, p') \<Longrightarrow> \<not> Q p') \<Longrightarrow> filter Q ps' = filter Q ps"
proof (induction ps arbitrary: ps')
  case (Cons p ps)
  then show ?case by (cases "P p") (auto split: prod.splits)
qed simp

lemma first_order_member:
  "first_order P f ps = Some (r, ps') \<Longrightarrow> \<exists>p\<in>set ps. P p \<and> fst (f p) = r"
proof (induction ps arbitrary: ps')
  case (Cons p ps)
  then show ?case by (cases "P p") (auto split: prod.splits)
qed simp

lemma own_order_cases:
  assumes "on_own_order a i f db = (r, db')" and "\<And>p r p'. owns a p \<Longrightarrow> f p = (r, p') \<Longrightarrow> owns a p'"
  shows "filter (\<lambda>p. \<not> owns a p) (pt_orders db') = filter (\<lambda>p. \<not> owns a p) (pt_orders db)" and "pt_notices db' = pt_notices db"
    and "r = Inr x \<Longrightarrow> \<exists>p\<in>set (pt_orders db). owns a p \<and> po_id p = i \<and> fst (f p) = Inr x"
proof -
  let ?P = "\<lambda>p. po_id p = i \<and> owns a p"
  have all: "filter (\<lambda>p. \<not> owns a p) (pt_orders db') = filter (\<lambda>p. \<not> owns a p) (pt_orders db) \<and> pt_notices db' = pt_notices db
    \<and> (r = Inr x \<longrightarrow> (\<exists>p\<in>set (pt_orders db). owns a p \<and> po_id p = i \<and> fst (f p) = Inr x))"
  proof (cases "first_order ?P f (pt_orders db)")
    case None
    with assms(1) show ?thesis by (simp add: on_own_order_def) blast
  next
    case (Some q)
    obtain r' orders where q: "q = (r', orders)" by fastforce
    with Some assms(1) have out: "r' = r" "db' = db\<lparr>pt_orders := orders\<rparr>" by (simp_all add: on_own_order_def)
    have found: "first_order ?P f (pt_orders db) = Some (r, orders)" using Some q out(1) by simp
    have "filter (\<lambda>p. \<not> owns a p) orders = filter (\<lambda>p. \<not> owns a p) (pt_orders db)"
      by (rule first_order_foreign [OF found]) (use assms(2) in blast)+
    with first_order_member [OF found] out(2) show ?thesis by auto
  qed
  then show "filter (\<lambda>p. \<not> owns a p) (pt_orders db') = filter (\<lambda>p. \<not> owns a p) (pt_orders db)" "pt_notices db' = pt_notices db"
    "r = Inr x \<Longrightarrow> \<exists>p\<in>set (pt_orders db). owns a p \<and> po_id p = i \<and> fst (f p) = Inr x" by blast+
qed

text \<open>
  C26. Tenants and suppliers are isolated: whatever a supplier acknowledges or ships, also when it throws, the orders that are
  not its own are untouched, every notice it files is in its own name and for an order of its own, and without a complete
  identification nothing happens at all.
\<close>

theorem suppliers_isolated:
  assumes "portal_exec show_index now auth c db = (r, db')"
  shows "(case getSupplierAuth auth of
      Inl e \<Rightarrow> r = Inl e \<and> db' = db
    | Inr a \<Rightarrow> filter (\<lambda>p. \<not> owns a p) (pt_orders db') = filter (\<lambda>p. \<not> owns a p) (pt_orders db)
        \<and> (\<exists>ns. pt_notices db' = pt_notices db @ ns \<and> (\<forall>n\<in>set ns. as_supplier n = au_supplier a
            \<and> (\<exists>p\<in>set (pt_orders db). owns a p \<and> po_id p = as_po n))))"
proof (cases "getSupplierAuth auth")
  case (Inl e)
  with assms show ?thesis
    by (cases c) (auto simp: portal_exec_def acknowledgePO_def submitASN_def oper_simps)
next
  case (Inr a)
  show ?thesis
  proof (cases c)
    case (CallAcknowledge i t)
    obtain x where run: "on_own_order a i (op_seq (op_modify (\<lambda>po. po\<lparr>po_status := ACKNOWLEDGED, po_expected := Some t, po_acknowledged := Some now\<rparr>))
       (op_get op_return)) db = (x, db')"
      using assms Inr CallAcknowledge by (auto simp: portal_exec_def acknowledgePO_def oper_simps split: prod.splits sum.splits)
    from own_order_cases(1,2) [OF run] Inr show ?thesis by (simp add: oper_simps owns_def)
  next
    case (CallSubmit inp)
    let ?asn = "asn_of show_index now a inp"
    obtain x db1 where run: "on_own_order a (in_po inp) (validateAndSubmitASN ?asn) db = (x, db1)" by fastforce
    have keep: "owns a p'" if "owns a p" "validateAndSubmitASN ?asn p = (r, p')" for p r p'
      using that by (auto simp: validateAndSubmitASN_def oper_simps owns_def split: if_splits)
    have own: "filter (\<lambda>p. \<not> owns a p) (pt_orders db1) = filter (\<lambda>p. \<not> owns a p) (pt_orders db)" "pt_notices db1 = pt_notices db"
      "\<And>n. x = Inr n \<Longrightarrow> \<exists>p\<in>set (pt_orders db). owns a p \<and> po_id p = in_po inp \<and> fst (validateAndSubmitASN ?asn p) = Inr n"
      by (rule own_order_cases [OF run]; use keep in blast)+
    show ?thesis
    proof (cases x)
      case (Inl e)
      with assms Inr CallSubmit run own(1,2) show ?thesis
        by (auto simp: portal_exec_def submitASN_def oper_simps)
    next
      case asn: (Inr n)
      from own(3) [OF asn] obtain p where p: "p \<in> set (pt_orders db)" "owns a p" "po_id p = in_po inp"
        and "fst (validateAndSubmitASN ?asn p) = Inr n" by blast
      then have n: "n = ?asn" by (auto simp: validateAndSubmitASN_def oper_simps split: if_splits)
      have db': "db' = db1\<lparr>pt_notices := pt_notices db1 @ [n]\<rparr>"
        using assms Inr CallSubmit run asn by (auto simp: portal_exec_def submitASN_def oper_simps)
      have "as_supplier ?asn = au_supplier a" "as_po ?asn = in_po inp" by (simp_all add: asn_of_def)
      then show ?thesis using Inr own(1,2) p by (auto simp: db' n)
    qed
  qed
qed

definition sample_portal :: portal where
  "sample_portal = \<lparr>pt_orders = [\<lparr>po_id = ''po-1'', po_tenant = ''t'', po_supplier = ''s'', po_status = ISSUED, po_expected = None,
     po_acknowledged = None, po_issuedAt = 0\<rparr>], pt_notices = []\<rparr>"

definition sample_asn :: asn_input where
  "sample_asn = \<lparr>in_po = ''po-1'', in_tracking = ''tr'', in_estimated = 9, in_items = [(''MUG'', 4, None)]\<rparr>"

theorem suppliers_isolated_witness:
  "let db' = snd (portal_exec (\<lambda>n. ''0'') 5 (Some (Some ''other'', Some ''t'')) (CallSubmit sample_asn) sample_portal)
   in filter (\<lambda>p. po_supplier p \<noteq> ''other'') (pt_orders db') = pt_orders sample_portal"
proof -
  let ?run = "portal_exec (\<lambda>n. ''0'') 5 (Some (Some ''other'', Some ''t'')) (CallSubmit sample_asn) sample_portal"
  obtain r db' where run: "?run = (r, db')" by fastforce
  have auth: "getSupplierAuth (Some (Some ''other'', Some ''t'')) = Inr \<lparr>au_supplier = ''other'', au_tenant = ''t''\<rparr>"
    by (simp add: getSupplierAuth_def)
  let ?foreign = "\<lambda>p. \<not> owns \<lparr>au_supplier = ''other'', au_tenant = ''t''\<rparr> p"
  have same: "filter ?foreign (pt_orders db') = filter ?foreign (pt_orders sample_portal)"
    using suppliers_isolated [OF run] unfolding auth by simp
  have other: "(po_supplier p \<noteq> ''other'') = (?foreign p \<and> po_supplier p \<noteq> ''other'')" for p by (auto simp: owns_def)
  have "filter (\<lambda>p. po_supplier p \<noteq> ''other'') (pt_orders db') = filter (\<lambda>p. po_supplier p \<noteq> ''other'') (filter ?foreign (pt_orders db'))"
    unfolding filter_filter by (rule filter_cong [OF refl]) (use other in blast)
  then show ?thesis unfolding run same by (simp add: sample_portal_def owns_def)
qed

section \<open>Orders that are shipped twice\<close>

text \<open>An acknowledgement asks for no status: it reopens an order that was shipped, and a second notice is accepted.\<close>

lemma acknowledged_again_ships_twice:
  "map as_po (pt_notices (snd (op_each (portal_exec (\<lambda>n. ''0'') 5 (Some (Some ''s'', Some ''t'')))
     [CallSubmit sample_asn, CallAcknowledge ''po-1'' 9, CallSubmit sample_asn] sample_portal))) = [''po-1'', ''po-1'']"
  by code_simp

lemma otif_success:
  "otifSuccess (calculateOTIF asn t received) \<longleftrightarrow> t \<le> as_estimated asn
     \<and> (\<forall>l\<in>set (as_items asn). shippedQuantity l \<le> lookup_or 0 received (an_sku l))"
proof -
  have "fst (fold (\<lambda>item (full, n). if lookup_or 0 received (an_sku item) < shippedQuantity item then (False, n + 1) else (full, n)) ls (b, k))
      \<longleftrightarrow> b \<and> (\<forall>l\<in>set ls. shippedQuantity l \<le> lookup_or 0 received (an_sku l))" for ls b and k :: number
    by (induction ls arbitrary: b k) (auto simp: not_less)
  note full = this [of "as_items asn" True 0]
  obtain b k where run: "fold (\<lambda>item (full, n). if lookup_or 0 received (an_sku item) < shippedQuantity item then (False, n + 1) else (full, n))
      (as_items asn) (True, 0 :: number) = (b, k)" by fastforce
  with full show ?thesis by (simp add: calculateOTIF_def Let_def)
qed

section \<open>Notifications\<close>

lemma muted_users_hear_only_critical:
  assumes "map_of preferences user = Some p" and "np_isMuted p" and "severity \<noteq> CRITICAL"
    and "dispatch_all uuid now tenant users category severity message metadata preferences d = (Inr (), d')"
  shows "filter (\<lambda>n. no_user n = user) (inAppNotifications d') = filter (\<lambda>n. no_user n = user) (inAppNotifications d)"
proof -
  have one: "filter (\<lambda>n. no_user n = user) (inAppNotifications (dispatch_to uuid now tenant category severity message metadata preferences u d))
      = filter (\<lambda>n. no_user n = user) (inAppNotifications d)" for u d
    using assms(1-3) by (cases "u = user") (auto simp: dispatch_to_def Let_def Notification_def)
  have "filter (\<lambda>n. no_user n = user) (inAppNotifications (fold (dispatch_to uuid now tenant category severity message metadata preferences) us d))
      = filter (\<lambda>n. no_user n = user) (inAppNotifications d)" for us d
    by (induction us arbitrary: d) (simp_all add: one)
  with assms(4) show ?thesis by (auto simp: dispatch_all_def oper_simps)
qed

lemma unread_count: "getUnreadCount user ns = length (filter (\<lambda>n. no_user n = user \<and> no_status n = UNREAD) ns)"
proof -
  have "fold (\<lambda>n count. if no_user n = user \<and> no_status n = UNREAD then count + 1 else count) ns k
      = k + length (filter (\<lambda>n. no_user n = user \<and> no_status n = UNREAD) ns)" for k
    by (induction ns arbitrary: k) auto
  then show ?thesis by (simp add: getUnreadCount_def)
qed

end
