(* ===== verification/Audits.thy ===== *)
theory Audits
  imports Ledger Warehouse Identifiers
begin

text \<open>
  The audits: src/src/application/services/AuditProcessorService.ts over PrismaAuditDataProvider.ts, the discrepancies it raises
  (AuditDiscrepancy.ts) and their in-memory store. The remote stock levels are an argument: what the shop answers to a batch
  of item ids, \<open>None\<close> where the request fails. A description is its text with its arguments.
\<close>

section \<open>Discrepancies\<close>

record discrepancy =
  ad_id :: ident
  ad_tenant :: string
  ad_type :: string
  ad_reference :: string
  ad_externalRef :: "string option"
  ad_description :: "string \<times> arg list"
  ad_status :: string
  ad_occurredAt :: time
  ad_resolvedAt :: "time option"
  ad_notes :: "string option"

definition AuditDiscrepancy ::
    "string \<Rightarrow> string \<Rightarrow> string \<Rightarrow> string \<Rightarrow> string option \<Rightarrow> string \<times> arg list \<Rightarrow> string \<Rightarrow> time \<Rightarrow> time option \<Rightarrow> string option
     \<Rightarrow> discrepancy result" where
  "AuditDiscrepancy i tenant kind ref ext descr status occurred resolved nt =
     result_bind (AuditDiscrepancyId i) (\<lambda>i'. Inr \<lparr>ad_id = i', ad_tenant = tenant, ad_type = kind, ad_reference = ref,
       ad_externalRef = ext, ad_description = descr, ad_status = status, ad_occurredAt = occurred, ad_resolvedAt = resolved,
       ad_notes = nt\<rparr>)"

definition ad_resolve :: "time \<Rightarrow> string \<Rightarrow> (discrepancy, unit) oper" where
  "ad_resolve now nt = op_modify (\<lambda>d. d\<lparr>ad_status := ''RESOLVED'', ad_resolvedAt := Some now, ad_notes := Some nt\<rparr>)"

type_synonym discrepancy_map = "(ident, discrepancy) js_map"

definition md_saveDiscrepancy :: "discrepancy \<Rightarrow> (discrepancy_map, unit) oper" where
  "md_saveDiscrepancy d = op_modify (AList.update (ad_id d) d)"

definition md_findDiscrepancy :: "discrepancy_map \<Rightarrow> string \<Rightarrow> discrepancy option" where
  "md_findDiscrepancy m i = map_of m i"

definition md_findAllDiscrepancies :: "discrepancy_map \<Rightarrow> string \<Rightarrow> string option \<Rightarrow> discrepancy list" where
  "md_findAllDiscrepancies m tenant status = sort_key (\<lambda>d. - ad_occurredAt d)
     (filter (\<lambda>d. ad_tenant d = tenant \<and> (case status of None \<Rightarrow> True | Some st \<Rightarrow> st = [] \<or> ad_status d = st)) (map snd m))"

definition md_findOpenDiscrepancy :: "discrepancy_map \<Rightarrow> string \<Rightarrow> string \<Rightarrow> string \<Rightarrow> discrepancy option" where
  "md_findOpenDiscrepancy m tenant kind ref = find (\<lambda>d. ad_tenant d = tenant \<and> ad_type d = kind \<and> ad_reference d = ref
     \<and> ad_status d = ''OPEN'') (map snd m)"

section \<open>The tables the audit reads\<close>

record shop_connection =
  sc_id :: string
  sc_tenant :: string
  sc_platform :: string
  sc_isActive :: bool
  sc_token :: "string option"
  sc_domain :: string

record external_mapping =
  em_tenant :: string
  em_type :: string
  em_integration :: string
  em_internal :: string
  em_external :: string
  em_secondary :: "string option"

record journal_row =
  jr_id :: string
  jr_tenant :: string
  jr_description :: "string option"
  jr_createdAt :: time

datatype sync_event = ShopifySyncRequested string string string string time

record audit_db =
  au_connections :: "shop_connection list"
  au_mappings :: "external_mapping list"
  au_variants :: "(string \<times> string) list"
  au_ledger :: ledger
  au_journals :: "journal_row list"
  au_quickbooks :: "string list"
  au_xero :: "string list"
  au_netsuite :: "string list"
  au_discrepancies :: "discrepancy list"
  au_outbox :: "sync_event list"

definition findActiveIntegrationConnections :: "string \<Rightarrow> audit_db \<Rightarrow> shop_connection list" where
  "findActiveIntegrationConnections tenant db = filter (\<lambda>c. sc_tenant c = tenant \<and> sc_isActive c) (au_connections db)"

definition findExternalMappings :: "string \<Rightarrow> string \<Rightarrow> audit_db \<Rightarrow> external_mapping list" where
  "findExternalMappings tenant kind db = filter (\<lambda>m. em_tenant m = tenant \<and> em_type m = kind) (au_mappings db)"

definition findProductVariants :: "string list \<Rightarrow> audit_db \<Rightarrow> (string \<times> string) list" where
  "findProductVariants is db = filter (\<lambda>(i, sku). i \<in> set is) (au_variants db)"

definition ledger_rows :: "string \<Rightarrow> string list \<Rightarrow> string list \<Rightarrow> audit_db \<Rightarrow> ledger" where
  "ledger_rows tenant vs ls db = filter (\<lambda>e. le_tenant e = tenant \<and> le_variant e \<in> set vs \<and> le_location e \<in> set ls) (au_ledger db)"

definition getLedgerSums :: "string \<Rightarrow> string list \<Rightarrow> string list \<Rightarrow> audit_db \<Rightarrow> (string \<times> string \<times> number) list" where
  "getLedgerSums tenant vs ls db = (let found = ledger_rows tenant vs ls db in
     map (\<lambda>(v, l). (v, l, balance found v l)) (js_set (map (\<lambda>e. (le_variant e, le_location e)) found)))"

definition findOpenAuditDiscrepancies :: "string \<Rightarrow> string \<Rightarrow> audit_db \<Rightarrow> discrepancy list" where
  "findOpenAuditDiscrepancies tenant kind db = filter (\<lambda>d. ad_tenant d = tenant \<and> ad_type d = kind \<and> ad_status d = ''OPEN'')
     (au_discrepancies db)"

definition createAuditDiscrepancies :: "discrepancy list \<Rightarrow> audit_db \<Rightarrow> audit_db" where
  "createAuditDiscrepancies ds db = db\<lparr>au_discrepancies := au_discrepancies db @ ds\<rparr>"

definition findRecentJournalEntries :: "string \<Rightarrow> time \<Rightarrow> audit_db \<Rightarrow> journal_row list" where
  "findRecentJournalEntries tenant since db = filter (\<lambda>j. jr_tenant j = tenant \<and> jr_createdAt j \<ge> since) (au_journals db)"

section \<open>The levels of the shop\<close>

type_synonym shop_node = "string \<times> (string \<times> number) list"

type_synonym shop_answers = "shop_connection \<Rightarrow> string list \<Rightarrow> shop_node list option"

function chunks :: "nat \<Rightarrow> 'a list \<Rightarrow> 'a list list" where
  "chunks n xs = (if xs = [] \<or> n = 0 then [] else take n xs # chunks n (drop n xs))"
  by pat_completeness auto
termination by (relation "measure (\<lambda>(n, xs). length xs)") auto

definition is_infix :: "string \<Rightarrow> string \<Rightarrow> bool" where
  "is_infix w s \<longleftrightarrow> list_ex (\<lambda>k. take (length w) (drop k s) = w) [0..<Suc (length s)]"

definition isMock :: "shop_connection \<Rightarrow> bool" where
  "isMock c \<longleftrightarrow> sc_token c = None \<or> sc_token c = Some [] \<or> sc_token c = Some ''mock-token'' \<or> is_infix ''mock'' (sc_domain c)"

definition externalItemIds :: "external_mapping list \<Rightarrow> string list" where
  "externalItemIds ms = js_set (List.map_filter (\<lambda>m. if em_secondary m = Some [] then None else em_secondary m) ms)"

definition shopifyStockMap :: "shop_answers \<Rightarrow> shop_connection \<Rightarrow> string list \<Rightarrow> (string, (string, number) js_map) js_map" where
  "shopifyStockMap answers c is = (if isMock c then [] else fold (\<lambda>batch m. case answers c batch of None \<Rightarrow> m
     | Some nodes \<Rightarrow> fold (\<lambda>(i, edges) m. if i = [] then m
         else AList.update i (fold (\<lambda>(l, q). AList.update l q) edges []) m) nodes m) (chunks 50 is) [])"

section \<open>The stock audit\<close>

definition ledgerSumMap :: "(string \<times> string \<times> number) list \<Rightarrow> (string, number) js_map" where
  "ledgerSumMap totals = fold (\<lambda>(v, l, q). AList.update (v @ ''_'' @ l) q) totals []"

definition endsWith :: "string \<Rightarrow> string \<Rightarrow> bool" where
  "endsWith s w \<longleftrightarrow> length w \<le> length s \<and> drop (length s - length w) s = w"

definition shopify_quantity ::
    "shop_connection \<Rightarrow> (string, (string, number) js_map) js_map \<Rightarrow> string \<Rightarrow> string \<Rightarrow> string \<Rightarrow> number \<Rightarrow> number" where
  "shopify_quantity c levels item sku extLoc localQty =
     (if isMock c then if endsWith sku ''-DIFF'' then localQty + 10 else localQty
      else case map_of levels item of None \<Rightarrow> localQty
        | Some ls \<Rightarrow> (case map_of ls extLoc of None \<Rightarrow> localQty | Some q \<Rightarrow> q))"

definition mismatch_reference :: "string \<Rightarrow> string \<Rightarrow> string" where
  "mismatch_reference sku loc = sku @ '':'' @ loc"

definition new_discrepancy :: "ident \<Rightarrow> time \<Rightarrow> string \<Rightarrow> string \<Rightarrow> string \<Rightarrow> string option \<Rightarrow> string \<times> arg list \<Rightarrow> discrepancy" where
  "new_discrepancy i now tenant kind ref ext descr = \<lparr>ad_id = i, ad_tenant = tenant, ad_type = kind, ad_reference = ref,
     ad_externalRef = ext, ad_description = descr, ad_status = ''OPEN'', ad_occurredAt = now, ad_resolvedAt = None, ad_notes = None\<rparr>"

text \<open>The mismatches of a connection: item, SKU, location, local and remote quantity.\<close>

definition mismatches ::
    "shop_connection \<Rightarrow> external_mapping list \<Rightarrow> external_mapping list \<Rightarrow> (string, string) js_map \<Rightarrow> (string, number) js_map
     \<Rightarrow> (string, (string, number) js_map) js_map \<Rightarrow> (string \<times> string \<times> string \<times> number \<times> number) list" where
  "mismatches c varMaps locMaps skuOf totals levels = concat (map (\<lambda>vm.
     case em_secondary vm of None \<Rightarrow> []
     | Some item \<Rightarrow> (if item = [] then [] else case map_of skuOf (em_internal vm) of None \<Rightarrow> []
         | Some sku \<Rightarrow> List.map_filter (\<lambda>lm.
             let localQty = lookup_or 0 totals (em_internal vm @ ''_'' @ em_internal lm);
                 shopifyQty = shopify_quantity c levels item sku (em_external lm) localQty
             in if localQty \<noteq> shopifyQty then Some (item, sku, em_internal lm, localQty, shopifyQty) else None) locMaps)) varMaps)"

definition connection_mismatches :: "shop_answers \<Rightarrow> string \<Rightarrow> audit_db \<Rightarrow> shop_connection
    \<Rightarrow> (string \<times> string \<times> string \<times> number \<times> number) list" where
  "connection_mismatches answers tenant db c =
     (let varMaps = filter (\<lambda>m. em_integration m = sc_id c) (findExternalMappings tenant ''VARIANT'' db);
          locMaps = filter (\<lambda>m. em_integration m = sc_id c) (findExternalMappings tenant ''LOCATION'' db);
          variantIds = map em_internal varMaps; locationIds = map em_internal locMaps;
          skuOf = fold (\<lambda>(i, sku). AList.update i sku) (findProductVariants variantIds db) []
      in mismatches c varMaps locMaps skuOf (ledgerSumMap (getLedgerSums tenant variantIds locationIds db))
           (shopifyStockMap answers c (externalItemIds varMaps)))"

definition audit_connection ::
    "(nat \<Rightarrow> string) \<Rightarrow> time \<Rightarrow> shop_answers \<Rightarrow> string \<Rightarrow> shop_connection \<Rightarrow> nat \<times> audit_db \<Rightarrow> nat \<times> audit_db" where
  "audit_connection uuid now answers tenant c = (\<lambda>(n, db).
     let openSet = set (map ad_reference (findOpenAuditDiscrepancies tenant ''SHOPIFY_STOCK_MISMATCH'' db));
         fresh = filter (\<lambda>(item, sku, loc, q, r). mismatch_reference sku loc \<notin> openSet) (connection_mismatches answers tenant db c);
         ds = map (\<lambda>((item, sku, loc, q, r), k). new_discrepancy (uuid (n + k)) now tenant ''SHOPIFY_STOCK_MISMATCH''
             (mismatch_reference sku loc) (Some item)
             (''Shopify stock mismatch for SKU {} at location {}. Local: {}, Shopify: {}'', [S sku, S loc, N q, N r]))
           (zip fresh [0..<length fresh])
     in (n + length ds, if ds = [] then db else createAuditDiscrepancies ds db))"

section \<open>The accounting audit\<close>

definition on_platform :: "string \<Rightarrow> string \<Rightarrow> string \<Rightarrow> audit_db \<Rightarrow> bool" where
  "on_platform a b tenant db \<longleftrightarrow> list_ex (\<lambda>c. sc_platform c = a \<or> sc_platform c = b) (findActiveIntegrationConnections tenant db)"

definition accounting_on :: "string \<Rightarrow> audit_db \<Rightarrow> bool" where
  "accounting_on tenant db \<longleftrightarrow> on_platform ''QUICKBOOKS'' ''QuickBooks'' tenant db \<or> on_platform ''XERO'' ''Xero'' tenant db
     \<or> on_platform ''NETSUITE'' ''NetSuite'' tenant db"

definition mapped_journals :: "string \<Rightarrow> audit_db \<Rightarrow> string set" where
  "mapped_journals tenant db = (if on_platform ''QUICKBOOKS'' ''QuickBooks'' tenant db then set (au_quickbooks db) else {})
     \<union> (if on_platform ''XERO'' ''Xero'' tenant db then set (au_xero db) else {})
     \<union> (if on_platform ''NETSUITE'' ''NetSuite'' tenant db then set (au_netsuite db) else {})"

definition recent_journals :: "string \<Rightarrow> time \<Rightarrow> audit_db \<Rightarrow> journal_row list" where
  "recent_journals tenant now db = findRecentJournalEntries tenant (now - 7 * 24 * 60 * 60 * 1000) db"

definition unmapped_journals :: "string \<Rightarrow> time \<Rightarrow> audit_db \<Rightarrow> journal_row list" where
  "unmapped_journals tenant now db = filter (\<lambda>j. jr_id j \<notin> mapped_journals tenant db) (recent_journals tenant now db)"

definition open_journals :: "string \<Rightarrow> time \<Rightarrow> audit_db \<Rightarrow> string set" where
  "open_journals tenant now db = set (map ad_reference (findOpenAuditDiscrepancies tenant ''ACCOUNTING_JOURNAL_MISSING'' db))
     \<inter> set (map jr_id (recent_journals tenant now db))"

definition journal_discrepancy :: "ident \<Rightarrow> time \<Rightarrow> string \<Rightarrow> journal_row \<Rightarrow> discrepancy" where
  "journal_discrepancy i now tenant j = new_discrepancy i now tenant ''ACCOUNTING_JOURNAL_MISSING'' (jr_id j) None
     (''Journal entry {} ({}) is not mapped to any external accounting transaction.'',
      [S (jr_id j), S (case jr_description j of None \<Rightarrow> ''No description'' | Some t \<Rightarrow> if t = [] then ''No description'' else t)])"

definition audit_journals :: "(nat \<Rightarrow> string) \<Rightarrow> time \<Rightarrow> string \<Rightarrow> nat \<times> audit_db \<Rightarrow> nat \<times> audit_db" where
  "audit_journals uuid now tenant = (\<lambda>(n, db).
     if accounting_on tenant db
     then let fresh = filter (\<lambda>j. jr_id j \<notin> open_journals tenant now db) (unmapped_journals tenant now db);
              ds = map (\<lambda>(j, k). journal_discrepancy (uuid (n + k)) now tenant j) (zip fresh [0..<length fresh])
          in (length ds, if ds = [] then db else createAuditDiscrepancies ds db)
     else (0, db))"

definition runAudit ::
    "(nat \<Rightarrow> string) \<Rightarrow> time \<Rightarrow> shop_answers \<Rightarrow> string \<Rightarrow> audit_db \<Rightarrow> (nat \<times> nat) \<times> audit_db" where
  "runAudit uuid now answers tenant db =
     (let shops = filter (\<lambda>c. sc_platform c = ''Shopify'' \<and> sc_isActive c) (findActiveIntegrationConnections tenant db);
          (shopifyCount, db1) = fold (audit_connection uuid now answers tenant) shops (0, db);
          (accountingCount, db2) = audit_journals uuid now tenant (shopifyCount, db1)
      in ((shopifyCount, accountingCount), db2))"

definition resolved_row :: "time \<Rightarrow> string \<Rightarrow> discrepancy \<Rightarrow> discrepancy" where
  "resolved_row now nt d = d\<lparr>ad_status := ''RESOLVED'', ad_resolvedAt := Some now, ad_notes := Some nt\<rparr>"

definition resolveDiscrepancy :: "time \<Rightarrow> string \<Rightarrow> ident \<Rightarrow> string \<Rightarrow> audit_db \<Rightarrow> bool \<times> audit_db" where
  "resolveDiscrepancy now tenant i nt db =
     (case find (\<lambda>d. ad_id d = i \<and> ad_tenant d = tenant) (au_discrepancies db) of
        None \<Rightarrow> (False, db)
      | Some d \<Rightarrow> if ad_status d = ''RESOLVED'' then (False, db)
          else let parts = js_split (CHR '':'') (ad_reference d);
                   event = (if ad_type d = ''SHOPIFY_STOCK_MISMATCH''
                     then [ShopifySyncRequested tenant (parts ! 0) (if length parts > 1 then parts ! 1 else [])
                       (case ad_externalRef d of None \<Rightarrow> [] | Some x \<Rightarrow> x) now] else [])
               in (True, db\<lparr>au_discrepancies := map (\<lambda>x. if ad_id x = i then resolved_row now nt x else x) (au_discrepancies db), au_outbox := au_outbox db @ event\<rparr>))"

declare chunks.simps [simp del]

section \<open>An audit only adds discrepancies\<close>

definition open_refs :: "string \<Rightarrow> string \<Rightarrow> audit_db \<Rightarrow> string set" where
  "open_refs tenant kind db = ad_reference ` set (findOpenAuditDiscrepancies tenant kind db)"

lemma open_refs_append:
  "open_refs tenant kind (db\<lparr>au_discrepancies := au_discrepancies db @ ds\<rparr>) = open_refs tenant kind db
     \<union> {ad_reference d |d. d \<in> set ds \<and> ad_tenant d = tenant \<and> ad_type d = kind \<and> ad_status d = ''OPEN''}"
  by (auto simp: open_refs_def findOpenAuditDiscrepancies_def)

lemma mismatches_untouched [simp]:
  "connection_mismatches answers tenant (db\<lparr>au_discrepancies := ds\<rparr>) c = connection_mismatches answers tenant db c"
  "findActiveIntegrationConnections tenant (db\<lparr>au_discrepancies := ds\<rparr>) = findActiveIntegrationConnections tenant db"
  "findRecentJournalEntries tenant t (db\<lparr>au_discrepancies := ds\<rparr>) = findRecentJournalEntries tenant t db"
  by (simp_all add: connection_mismatches_def findExternalMappings_def findProductVariants_def getLedgerSums_def ledger_rows_def
      findActiveIntegrationConnections_def findRecentJournalEntries_def)

lemma zip_covers: "x \<in> set xs \<Longrightarrow> \<exists>k. (x, k) \<in> set (zip xs [0..<length xs])"
  by (metis (no_types, lifting) in_set_impl_in_set_zip1 length_upt diff_zero)

lemma audit_connection_cases:
  assumes "audit_connection uuid now answers tenant c (n, db) = (n', db')"
  shows "\<exists>ds. db' = db\<lparr>au_discrepancies := au_discrepancies db @ ds\<rparr> \<and> n' = n + length ds
    \<and> (ds = [] \<longleftrightarrow> (\<forall>(item, sku, loc, q, r)\<in>set (connection_mismatches answers tenant db c).
        mismatch_reference sku loc \<in> open_refs tenant ''SHOPIFY_STOCK_MISMATCH'' db))
    \<and> (\<forall>(item, sku, loc, q, r)\<in>set (connection_mismatches answers tenant db c).
        mismatch_reference sku loc \<in> open_refs tenant ''SHOPIFY_STOCK_MISMATCH'' db')"
proof -
  let ?open = "open_refs tenant ''SHOPIFY_STOCK_MISMATCH'' db"
  let ?fresh = "filter (\<lambda>(item, sku, loc, q, r). mismatch_reference sku loc \<notin> ?open) (connection_mismatches answers tenant db c)"
  let ?new = "\<lambda>((item, sku, loc, q, r), k). new_discrepancy (uuid (n + k)) now tenant ''SHOPIFY_STOCK_MISMATCH''
             (mismatch_reference sku loc) (Some item)
             (''Shopify stock mismatch for SKU {} at location {}. Local: {}, Shopify: {}'', [S sku, S loc, N q, N r])"
  let ?ds = "map ?new (zip ?fresh [0..<length ?fresh])"
  have out: "n' = n + length ?ds" "db' = db\<lparr>au_discrepancies := au_discrepancies db @ ?ds\<rparr>"
    using assms by (simp_all add: audit_connection_def Let_def open_refs_def createAuditDiscrepancies_def split: if_splits)
  have empty: "?ds = [] \<longleftrightarrow> (\<forall>(item, sku, loc, q, r)\<in>set (connection_mismatches answers tenant db c). mismatch_reference sku loc \<in> ?open)"
    by (auto simp: filter_empty_conv zip_eq_Nil_iff)
  have covered: "mismatch_reference sku loc \<in> open_refs tenant ''SHOPIFY_STOCK_MISMATCH'' db'"
    if m: "(item, sku, loc, q, r) \<in> set (connection_mismatches answers tenant db c)" for item sku loc q r
  proof (cases "mismatch_reference sku loc \<in> ?open")
    case True
    then show ?thesis unfolding out(2) open_refs_append by blast
  next
    case False
    with m have "(item, sku, loc, q, r) \<in> set ?fresh" by simp
    from zip_covers [OF this] obtain k where "((item, sku, loc, q, r), k) \<in> set (zip ?fresh [0..<length ?fresh])" by blast
    then have "?new ((item, sku, loc, q, r), k) \<in> set ?ds" by (metis (no_types, lifting) image_eqI list.set_map)
    then have "\<exists>d\<in>set ?ds. ad_reference d = mismatch_reference sku loc \<and> ad_tenant d = tenant \<and> ad_type d = ''SHOPIFY_STOCK_MISMATCH''
        \<and> ad_status d = ''OPEN''" by (rule rev_bexI) (simp add: new_discrepancy_def)
    then show ?thesis unfolding out(2) open_refs_append by force
  qed
  show ?thesis by (intro exI [of _ ?ds] conjI out empty) (use covered in blast)
qed

lemma audit_connections_cases:
  assumes "fold (audit_connection uuid now answers tenant) cs (n, db) = (n', db')"
  shows "\<exists>ds. db' = db\<lparr>au_discrepancies := au_discrepancies db @ ds\<rparr>
    \<and> (\<forall>c\<in>set cs. \<forall>(item, sku, loc, q, r)\<in>set (connection_mismatches answers tenant db c).
        mismatch_reference sku loc \<in> open_refs tenant ''SHOPIFY_STOCK_MISMATCH'' db')"
  using assms
proof (induction cs arbitrary: n db)
  case Nil
  then show ?case by (intro exI [of _ "[]"]) simp
next
  case (Cons c cs)
  obtain n1 db1 where step: "audit_connection uuid now answers tenant c (n, db) = (n1, db1)" by fastforce
  with Cons.prems have "fold (audit_connection uuid now answers tenant) cs (n1, db1) = (n', db')" by simp
  from Cons.IH [OF this] obtain ds' where rest: "db' = db1\<lparr>au_discrepancies := au_discrepancies db1 @ ds'\<rparr>"
    "\<forall>c\<in>set cs. \<forall>(item, sku, loc, q, r)\<in>set (connection_mismatches answers tenant db1 c).
        mismatch_reference sku loc \<in> open_refs tenant ''SHOPIFY_STOCK_MISMATCH'' db'" by blast
  from audit_connection_cases [OF step] obtain ds where first: "db1 = db\<lparr>au_discrepancies := au_discrepancies db @ ds\<rparr>"
    "\<forall>(item, sku, loc, q, r)\<in>set (connection_mismatches answers tenant db c).
        mismatch_reference sku loc \<in> open_refs tenant ''SHOPIFY_STOCK_MISMATCH'' db1" by blast
  have "open_refs tenant ''SHOPIFY_STOCK_MISMATCH'' db1 \<subseteq> open_refs tenant ''SHOPIFY_STOCK_MISMATCH'' db'"
    unfolding rest(1) open_refs_append by blast
  with rest first show ?case by (intro exI [of _ "ds @ ds'"]) fastforce
qed

lemma audit_connections_quiet:
  assumes "\<forall>c\<in>set cs. \<forall>(item, sku, loc, q, r)\<in>set (connection_mismatches answers tenant db c).
        mismatch_reference sku loc \<in> open_refs tenant ''SHOPIFY_STOCK_MISMATCH'' db"
  shows "fold (audit_connection uuid now answers tenant) cs (n, db) = (n, db)"
  using assms
proof (induction cs)
  case (Cons c cs)
  obtain n1 db1 where step: "audit_connection uuid now answers tenant c (n, db) = (n1, db1)" by fastforce
  from audit_connection_cases [OF step] Cons.prems have "n1 = n" "db1 = db" by auto
  with step Cons show ?case by simp
qed simp

lemma unmapped_untouched [simp]:
  "unmapped_journals tenant now (db\<lparr>au_discrepancies := ds\<rparr>) = unmapped_journals tenant now db"
  "accounting_on tenant (db\<lparr>au_discrepancies := ds\<rparr>) = accounting_on tenant db"
  by (simp_all add: unmapped_journals_def recent_journals_def mapped_journals_def accounting_on_def on_platform_def)

lemma unmapped_later: "now \<le> now' \<Longrightarrow> set (unmapped_journals tenant now' db) \<subseteq> set (unmapped_journals tenant now db)"
  by (auto simp: unmapped_journals_def recent_journals_def findRecentJournalEntries_def)

lemma journal_values [simp]:
  "ad_reference (journal_discrepancy i now tenant j) = jr_id j" "ad_tenant (journal_discrepancy i now tenant j) = tenant"
  "ad_type (journal_discrepancy i now tenant j) = ''ACCOUNTING_JOURNAL_MISSING''" "ad_status (journal_discrepancy i now tenant j) = ''OPEN''"
  by (simp_all add: journal_discrepancy_def new_discrepancy_def)

lemma open_unmapped:
  "j \<in> set (unmapped_journals tenant now db) \<Longrightarrow>
    jr_id j \<in> open_journals tenant now db \<longleftrightarrow> jr_id j \<in> open_refs tenant ''ACCOUNTING_JOURNAL_MISSING'' db"
  by (auto simp: open_journals_def open_refs_def unmapped_journals_def)

lemma audit_journals_cases:
  assumes "audit_journals uuid now tenant (n, db) = (k, db')"
  shows "\<exists>ds. db' = db\<lparr>au_discrepancies := au_discrepancies db @ ds\<rparr> \<and> k = length ds
    \<and> (accounting_on tenant db \<longrightarrow> (\<forall>j\<in>set (unmapped_journals tenant now db).
        jr_id j \<in> open_refs tenant ''ACCOUNTING_JOURNAL_MISSING'' db'))
    \<and> ((accounting_on tenant db \<longrightarrow> (\<forall>j\<in>set (unmapped_journals tenant now db). jr_id j \<in> open_refs tenant ''ACCOUNTING_JOURNAL_MISSING'' db))
        \<longrightarrow> ds = [])"
proof (cases "accounting_on tenant db")
  case False
  with assms show ?thesis by (intro exI [of _ "[]"]) (simp add: audit_journals_def)
next
  case True
  let ?fresh = "filter (\<lambda>j. jr_id j \<notin> open_journals tenant now db) (unmapped_journals tenant now db)"
  let ?ds = "map (\<lambda>(j, k). journal_discrepancy (uuid (n + k)) now tenant j) (zip ?fresh [0..<length ?fresh])"
  have out: "db' = db\<lparr>au_discrepancies := au_discrepancies db @ ?ds\<rparr>" "k = length ?ds"
    using assms True by (auto simp: audit_journals_def Let_def createAuditDiscrepancies_def split: if_splits)
  have covered: "jr_id j \<in> open_refs tenant ''ACCOUNTING_JOURNAL_MISSING'' db'" if j: "j \<in> set (unmapped_journals tenant now db)" for j
  proof (cases "jr_id j \<in> open_refs tenant ''ACCOUNTING_JOURNAL_MISSING'' db")
    case True
    then show ?thesis unfolding out(1) open_refs_append by blast
  next
    case False
    with j open_unmapped [OF j] have "j \<in> set ?fresh" by simp
    from zip_covers [OF this] obtain i where "(j, i) \<in> set (zip ?fresh [0..<length ?fresh])" by blast
    then have "journal_discrepancy (uuid (n + i)) now tenant j \<in> set ?ds" by force
    then have "\<exists>d\<in>set ?ds. ad_reference d = jr_id j \<and> ad_tenant d = tenant \<and> ad_type d = ''ACCOUNTING_JOURNAL_MISSING''
        \<and> ad_status d = ''OPEN''" by (rule rev_bexI) simp
    then show ?thesis unfolding out(1) open_refs_append by force
  qed
  have quiet: "?ds = []" if "\<forall>j\<in>set (unmapped_journals tenant now db). jr_id j \<in> open_refs tenant ''ACCOUNTING_JOURNAL_MISSING'' db"
    using that open_unmapped by (simp add: filter_empty_conv)
  show ?thesis by (intro exI [of _ ?ds] conjI out) (use covered quiet True in blast)+
qed

section \<open>What a mismatch is\<close>

lemma key_inj:
  assumes "CHR ''_'' \<notin> set v" and "CHR ''_'' \<notin> set w" and "v @ ''_'' @ l = w @ ''_'' @ k"
  shows "v = w \<and> l = k"
  using assms
proof (induction v arbitrary: w)
  case Nil
  then show ?case by (cases w) auto
next
  case (Cons x v)
  then obtain y w' where w: "w = y # w'" by (cases w) auto
  with Cons.prems have "v @ ''_'' @ l = w' @ ''_'' @ k" "x = y" by auto
  with Cons.IH [of w'] Cons.prems w show ?case by auto
qed

lemma ledger_sum_lookup:
  assumes "\<forall>p\<in>set ps. CHR ''_'' \<notin> set (fst p)" and "CHR ''_'' \<notin> set v"
  shows "map_of (fold (\<lambda>(v, l, q). AList.update (v @ ''_'' @ l) q) (map (\<lambda>(v, l). (v, l, f v l)) ps) m) (v @ ''_'' @ l)
    = (if (v, l) \<in> set ps then Some (f v l) else map_of m (v @ ''_'' @ l))"
  using assms
proof (induction ps arbitrary: m)
  case (Cons p ps)
  obtain w k where p: "p = (w, k)" by fastforce
  have "v @ ''_'' @ l = w @ ''_'' @ k \<longleftrightarrow> (v, l) = (w, k)"
    using key_inj [of v w l k] Cons.prems p by auto
  with Cons p show ?case by auto
qed simp

lemma balance_absent: "\<forall>e\<in>set es. (le_variant e, le_location e) \<noteq> (v, l) \<Longrightarrow> balance es v l = 0"
  by (induction es) (auto simp: balance_def)

lemma balance_rows:
  "v \<in> set vs \<Longrightarrow> l \<in> set ls \<Longrightarrow> balance (ledger_rows tenant vs ls db) v l = balance (filter (\<lambda>e. le_tenant e = tenant) (au_ledger db)) v l"
proof -
  assume "v \<in> set vs" "l \<in> set ls"
  then have "filter (\<lambda>e. le_variant e = v \<and> le_location e = l) (filter (\<lambda>e. le_tenant e = tenant \<and> le_variant e \<in> set vs \<and> le_location e \<in> set ls) es)
      = filter (\<lambda>e. le_variant e = v \<and> le_location e = l) (filter (\<lambda>e. le_tenant e = tenant) es)" for es
    unfolding filter_filter by (intro filter_cong) auto
  from this [of "au_ledger db"] show ?thesis by (simp only: balance_def ledger_rows_def)
qed

text \<open>The quantity the audit compares with is the balance of the tenant's ledger.\<close>

lemma local_quantity:
  assumes "\<forall>e\<in>set (au_ledger db). CHR ''_'' \<notin> set (le_variant e)" and "CHR ''_'' \<notin> set v" and "v \<in> set vs" and "l \<in> set ls"
  shows "lookup_or 0 (ledgerSumMap (getLedgerSums tenant vs ls db)) (v @ ''_'' @ l)
    = balance (filter (\<lambda>e. le_tenant e = tenant) (au_ledger db)) v l"
proof -
  let ?rows = "ledger_rows tenant vs ls db" and ?ps = "js_set (map (\<lambda>e. (le_variant e, le_location e)) (ledger_rows tenant vs ls db))"
  have pairs: "set ?ps = (\<lambda>e. (le_variant e, le_location e)) ` set ?rows" by (simp add: js_set_def)
  have clean: "\<forall>p\<in>set ?ps. CHR ''_'' \<notin> set (fst p)" unfolding pairs using assms(1) by (auto simp: ledger_rows_def)
  have "map_of (ledgerSumMap (getLedgerSums tenant vs ls db)) (v @ ''_'' @ l) = (if (v, l) \<in> set ?ps then Some (balance ?rows v l) else None)"
    using ledger_sum_lookup [OF clean assms(2), of "balance ?rows" "[]" l] by (simp only: ledgerSumMap_def getLedgerSums_def Let_def map_of.simps)
  moreover have "balance ?rows v l = 0" if "(v, l) \<notin> set ?ps"
    using that by (intro balance_absent) (auto simp: pairs image_iff)
  ultimately have "lookup_or 0 (ledgerSumMap (getLedgerSums tenant vs ls db)) (v @ ''_'' @ l) = balance ?rows v l"
    by (simp add: lookup_or_def)
  then show ?thesis by (simp add: balance_rows assms(3,4))
qed

lemma map_filter_member: "x \<in> set xs \<Longrightarrow> f x = Some y \<Longrightarrow> y \<in> set (List.map_filter f xs)"
  by (force simp: map_filter_def)

lemma concat_member: "x \<in> set (f v) \<Longrightarrow> v \<in> set vs \<Longrightarrow> x \<in> set (concat (map f vs))"
  by auto

lemma mismatches_member:
  assumes "vm \<in> set vms" and "lm \<in> set lms" and "em_secondary vm = Some item" and "item \<noteq> []"
    and "map_of skuMap (em_internal vm) = Some sku" and "lookup_or 0 totals (em_internal vm @ ''_'' @ em_internal lm) = q"
    and "shopify_quantity c levels item sku (em_external lm) q = r" and "q \<noteq> r"
  shows "(item, sku, em_internal lm, q, r) \<in> set (mismatches c vms lms skuMap totals levels)"
proof -
  have "(item, sku, em_internal lm, q, r) \<in> set (List.map_filter (\<lambda>lm.
             let localQty = lookup_or 0 totals (em_internal vm @ ''_'' @ em_internal lm);
                 shopifyQty = shopify_quantity c levels item sku (em_external lm) localQty
             in if localQty \<noteq> shopifyQty then Some (item, sku, em_internal lm, localQty, shopifyQty) else None) lms)"
    using assms(2,6-8) by (intro map_filter_member [of lm]) (simp_all only: Let_def if_True not_False_eq_True simp_thms)
  then show ?thesis
    unfolding mismatches_def by (intro concat_member [OF _ assms(1)]) (simp only: assms(3-5) option.case if_False)
qed

lemma mismatch_found:
  assumes clean: "\<forall>e\<in>set (au_ledger db). CHR ''_'' \<notin> set (le_variant e)" "CHR ''_'' \<notin> set (em_internal vm)"
    and maps: "vm \<in> set (findExternalMappings tenant ''VARIANT'' db)" "em_integration vm = sc_id c"
      "lm \<in> set (findExternalMappings tenant ''LOCATION'' db)" "em_integration lm = sc_id c"
    and item: "em_secondary vm = Some item" "item \<noteq> []"
    and variant: "distinct (map fst (au_variants db))" "(em_internal vm, sku) \<in> set (au_variants db)"
    and q: "q = balance (filter (\<lambda>e. le_tenant e = tenant) (au_ledger db)) (em_internal vm) (em_internal lm)"
    and level: "\<not> isMock c" "map_of (shopifyStockMap answers c (externalItemIds (filter (\<lambda>m. em_integration m = sc_id c)
        (findExternalMappings tenant ''VARIANT'' db)))) item = Some ls" "map_of ls (em_external lm) = Some r" and differ: "q \<noteq> r"
  shows "(item, sku, em_internal lm, q, r) \<in> set (connection_mismatches answers tenant db c)"
proof -
  let ?vms = "filter (\<lambda>m. em_integration m = sc_id c) (findExternalMappings tenant ''VARIANT'' db)"
  let ?lms = "filter (\<lambda>m. em_integration m = sc_id c) (findExternalMappings tenant ''LOCATION'' db)"
  let ?vs = "map em_internal ?vms" and ?ls = "map em_internal ?lms"
  have mem: "vm \<in> set ?vms" "lm \<in> set ?lms" using maps by auto
  have sku: "map_of (fold (\<lambda>(i, sku). AList.update i sku) (findProductVariants ?vs db) []) (em_internal vm) = Some sku"
  proof -
    have other: "map_of (fold (\<lambda>(i, sku). AList.update i sku) xs m) i = map_of m i" if "i \<notin> fst ` set xs" for xs i and m :: "(string, string) js_map"
      using that by (induction xs arbitrary: m) auto
    have hit: "(i, s) \<in> set xs \<Longrightarrow> distinct (map fst xs) \<Longrightarrow> map_of (fold (\<lambda>(i, sku). AList.update i sku) xs m) i = Some s"
      for i s :: string and xs m
    proof (induction xs arbitrary: m)
      case (Cons x xs)
      show ?case
      proof (cases "x = (i, s)")
        case True
        with Cons.prems(2) other [of i xs] show ?thesis by simp
      next
        case False
        with Cons show ?thesis by (cases x) auto
      qed
    qed simp
    have "(em_internal vm, sku) \<in> set (findProductVariants ?vs db)" using variant(2) mem(1) by (auto simp: findProductVariants_def)
    moreover have "distinct (map fst (findProductVariants ?vs db))" using variant(1) by (simp add: findProductVariants_def distinct_map_filter)
    ultimately show ?thesis by (rule hit)
  qed
  have "lookup_or 0 (ledgerSumMap (getLedgerSums tenant ?vs ?ls db)) (em_internal vm @ ''_'' @ em_internal lm) = q"
    unfolding q by (rule local_quantity [OF clean]) (use mem in auto)
  from mismatches_member [OF mem item sku this _ differ, of c] level show ?thesis
    unfolding connection_mismatches_def Let_def by (simp add: shopify_quantity_def)
qed

section \<open>Properties\<close>


definition sample_audit :: audit_db where
  "sample_audit = \<lparr>au_connections = [\<lparr>sc_id = ''c1'', sc_tenant = ''t'', sc_platform = ''Shopify'', sc_isActive = True,
       sc_token = Some ''key'', sc_domain = ''shop.example''\<rparr>],
     au_mappings = [\<lparr>em_tenant = ''t'', em_type = ''VARIANT'', em_integration = ''c1'', em_internal = ''v'', em_external = ''x'',
         em_secondary = Some ''inv-1''\<rparr>,
       \<lparr>em_tenant = ''t'', em_type = ''LOCATION'', em_integration = ''c1'', em_internal = ''loc-1'', em_external = ''L'', em_secondary = None\<rparr>],
     au_variants = [(''v'', ''MUG'')], au_ledger = [(sample_entry ''v'' 5)\<lparr>le_tenant := ''t'', le_location := ''loc-1''\<rparr>],
     au_journals = [], au_quickbooks = [], au_xero = [], au_netsuite = [], au_discrepancies = [], au_outbox = []\<rparr>"

abbreviation shop_says :: "number \<Rightarrow> shop_answers" where
  "shop_says q \<equiv> \<lambda>c is. Some [(''inv-1'', [(''L'', q)])]"


section \<open>Resolving\<close>

lemma resolved_row_values [simp]: "ad_id (resolved_row now nt d) = ad_id d" "ad_status (resolved_row now nt d) = ''RESOLVED''"
  by (simp_all add: resolved_row_def)

text \<open>Resolving a stock mismatch asks the shop for the SKU and the location of the reference, if neither has a colon.\<close>

lemma resolve_syncs_mismatch:
  assumes "find (\<lambda>d. ad_id d = i \<and> ad_tenant d = tenant) (au_discrepancies db) = Some d" and "ad_status d = ''OPEN''"
    and "ad_type d = ''SHOPIFY_STOCK_MISMATCH''" and "ad_reference d = mismatch_reference sku loc" and "ad_externalRef d = Some item"
    and "CHR '':'' \<notin> set sku" and "CHR '':'' \<notin> set loc"
  shows "fst (resolveDiscrepancy now tenant i nt db)"
    and "au_outbox (snd (resolveDiscrepancy now tenant i nt db)) = au_outbox db @ [ShopifySyncRequested tenant sku loc item now]"
    and "\<forall>x\<in>set (au_discrepancies (snd (resolveDiscrepancy now tenant i nt db))). ad_id x = i \<longrightarrow> ad_status x = ''RESOLVED''"
proof -
  have "js_split (CHR '':'') (mismatch_reference sku loc) = [sku, loc]"
    using split_join [of "[sku, loc]" "CHR '':''"] assms(6,7) by (simp add: mismatch_reference_def)
  then have out: "resolveDiscrepancy now tenant i nt db = (True, db\<lparr>au_discrepancies := map (\<lambda>x. if ad_id x = i
      then resolved_row now nt x else x) (au_discrepancies db),
      au_outbox := au_outbox db @ [ShopifySyncRequested tenant sku loc item now]\<rparr>)"
    using assms by (simp add: resolveDiscrepancy_def Let_def)
  show "fst (resolveDiscrepancy now tenant i nt db)"
    and "au_outbox (snd (resolveDiscrepancy now tenant i nt db)) = au_outbox db @ [ShopifySyncRequested tenant sku loc item now]"
    by (simp_all add: out)
  have marked: "\<forall>y\<in>set (map (\<lambda>x. if ad_id x = i then resolved_row now nt x else x) xs).
      ad_id y = i \<longrightarrow> ad_status y = ''RESOLVED''" for xs :: "discrepancy list"
    by (induction xs) simp_all
  have marks: "au_discrepancies (snd (resolveDiscrepancy now tenant i nt db))
      = map (\<lambda>x. if ad_id x = i then resolved_row now nt x else x) (au_discrepancies db)"
    by (simp add: out)
  show "\<forall>x\<in>set (au_discrepancies (snd (resolveDiscrepancy now tenant i nt db))). ad_id x = i \<longrightarrow> ad_status x = ''RESOLVED''"
    unfolding marks by (rule marked)
qed

text \<open>A variant that a connection maps twice has its mismatch raised twice in one audit: the set of the open ones is read once.\<close>

lemma double_mapping_raises_twice:
  "map ad_reference (au_discrepancies (snd (runAudit (\<lambda>n. ''d1'') 9 (shop_says 7) ''t''
      (sample_audit\<lparr>au_mappings := hd (au_mappings sample_audit) # au_mappings sample_audit\<rparr>)))) = [''MUG:loc-1'', ''MUG:loc-1'']"
  by code_simp

end
