(* ===== verification/Spec2Isabelle.thy ===== *)
theory Spec2Isabelle
  imports Prelude Identifiers Quantities UnitConversion Inventory Costing CostLayers Ledger
    SerializedItems Products InventoryStore StockPosting Transfers Replication Approval Accounting ItemWork PurchaseOrders
    Replenishment Returns ReturnFlow Warehouse Picking Onboarding Counts Lots Barcodes Roles
    BatchIssue Kitting Routing Valuation Slotting Forecasting Billing AddOns Portal Audits
begin

text \<open>
  Verification of an inventory management service: the TypeScript domain layer under src/src, with
  its in-memory and SQL stores.

  The program. A tenant keeps stock of products in units of measure. Two records of the stock live
  side by side. The aggregate InventoryItem holds, for one SKU at one location, what is on hand,
  allocated and in transit, under a version counter; its stores refuse a save whose version is not the
  stored one plus one. The stock ledger is an append-only list of signed entries per variant and
  location; its balance is a sum. Sales, kit sales, serialized units, transfers and the postings of
  other use cases write to one or both. Issues are priced from cost layers by a costing method.
  Approval workflows hold back domain actions until their steps are approved. Counters of stock that
  is sold on disconnected nodes are merged as a PN-counter.

  The theories, in the order of import, with the code they translate:
  \<^item> \<open>Prelude\<close>: numbers, errors, the operations \<open>('s, 'a) oper\<close>, maps, and the lemmas all share.
  \<^item> \<open>Identifiers\<close>, \<open>Quantities\<close>, \<open>UnitConversion\<close>: src/src/domain/valueObjects, StandardUnits.ts,
    ProductUomConfiguration.ts, UomConverter.ts. Lemmas: validation, exact round trips between units,
    the rounding error of a converted cost.
  \<^item> \<open>Inventory\<close>: InventoryItem.ts. An abstract specification of the aggregate (\<open>stock_view\<close> and its calls),
    the refinement of it by the methods, non-negativity, balance and version counting.
  \<^item> \<open>Costing\<close>: InventoryCostLayer.ts and the five strategies of src/src/domain/strategies. The locale
    \<open>costing_strategy\<close> states what a strategy promises (a quote equals the charge, an issue is served
    exactly if it is covered, units and value are conserved); it is interpreted on FIFO, LIFO, FEFO and
    weighted average.
  \<^item> \<open>CostLayers\<close>: CostLayerService.ts over \<open>layer_repository\<close>, interpreted on
    PostgresInventoryCostLayerRepository.ts: stored issues, batch quotes and batch issues.
  \<^item> \<open>Ledger\<close>: LedgerEntry.ts, Kit.ts, InventoryService.ts over \<open>ledger_repository\<close>, interpreted on
    InMemoryLedgerRepository.ts: sales are all or nothing and do not oversell.
  \<^item> \<open>SerializedItems\<close>: SerializedItem.ts, SerializedInventoryService.ts over \<open>serialized_inventory\<close>, the
    two contracts \<open>serial_repository\<close> and \<open>ledger_repository\<close> together, interpreted on the in-memory stores.
  \<^item> \<open>Products\<close>: Product.ts, ProductVariant.ts, VariantAttributeSet.ts, InMemoryProductRepository.ts.
  \<^item> \<open>InventoryStore\<close>: InMemoryInventoryRepository.ts, PostgresInventoryRepository.ts and the use cases
    ReceiveStock.ts, DispatchStock.ts, ManageAllocations.ts, over \<open>inventory_repository\<close>, interpreted on
    both stores: every use case refines the abstract specification of the aggregate on the stored
    item, and optimistic locking loses no update.
  \<^item> \<open>StockPosting\<close>: ledgerEntryUtils.ts. \<open>Transfers\<close>: StockTransfer.ts, its store and
    ManageStockTransfers.ts: the life cycle of a transfer and the conservation of stock.
  \<^item> \<open>Replication\<close>: CRDTStockResolver.ts over \<open>replicated_state\<close>: convergence, and no update is lost.
  \<^item> \<open>Approval\<close>: ApprovalRequest.ts, ApprovalWorkflow.ts, ApprovalWorkflowService.ts over
    \<open>approval_repository\<close>, interpreted on PostgresApprovalWorkflowRepository.ts.
  \<^item> \<open>Accounting\<close>: Money.ts, Account.ts, JournalEntry.ts, the posting rules and the journal service: every
    entry that is built is balanced, and the books stay so.
  \<^item> \<open>ItemWork\<close>: the pattern the batch use cases share (load items, change copies, save the changed ones in one
    batch) and what it does to the sums over the stored rows.
  \<^item> \<open>PurchaseOrders\<close>, \<open>Replenishment\<close>: PurchaseOrder.ts, ManagePurchaseOrders.ts, the rules and their
    evaluation: the life cycle of an order, the stock it brings, and that no item is ordered twice.
  \<^item> \<open>Returns\<close>, \<open>ReturnFlow\<close>: ReturnMerchandiseAuthorization.ts, QuarantineItem.ts and ManageReturns.ts: the life
    cycles, and the stock moved by a return and by the release of a quarantined unit.
  \<^item> \<open>Warehouse\<close>, \<open>Picking\<close>: locations, the capacity check, putaway plans, first-expired picking, routes,
    cross-docking.
  \<^item> \<open>Onboarding\<close>, \<open>Counts\<close>: opening balances and inventory counts. \<open>Lots\<close>: lot batches, receipts with a lot,
    recalls. \<open>Barcodes\<close>: VariantBarcodeSet.ts, its table, the generator, the registry and the scan handlers.
    \<open>Roles\<close>: Permission.ts, PermissionService.ts, PostgresPermissionRepository.ts, ManageRoles.ts.
  \<^item> \<open>BatchIssue\<close>, \<open>Kitting\<close>: the batch issue of cost layers, ManageKits.ts, PostgresKitRepository.ts: what an
    assembly and a disassembly move and what they are worth.
  \<^item> \<open>Routing\<close>: OrderRoutingEngine.ts, RoutingStrategy.ts, RouteOrder.ts: which orders can be routed, and the fewest
    shipments. \<open>Valuation\<close>: GetStockLevels.ts, GetStockValuationReport.ts.
  \<^item> \<open>Slotting\<close>: SlottingOptimizerService.ts: its binary searches recommend what an exhaustive search does.
    \<open>Forecasting\<close>: DemandForecaster.ts, DemandForecast.ts and their table: sales velocities, and the report that
    agrees with the single queries.
  \<^item> \<open>Billing\<close>: src/src/domain/billing and billingResolvers.ts: the token bucket of a tenant under the eviction of
    the oldest. \<open>AddOns\<close>: intercompany transfers, cycle counts, markdowns, aging, labour. \<open>Portal\<close>: the supplier
    portal, whose suppliers are isolated from one another, notifications, inspections and inbound scans.
  \<^item> \<open>Audits\<close>: AuditProcessorService.ts, PrismaAuditDataProvider.ts, AuditDiscrepancy.ts: an audit finds every
    mismatch and does not repeat itself.

  How the code is read. A method that may throw and that changes its object is an \<open>oper\<close>: a function
  from the state to a result (\<open>Inl\<close> the error thrown, \<open>Inr\<close> the value returned) and the state as the call
  leaves it, also when it throws. A constructor that validates is a function into \<open>result\<close>. An error is
  its class with the arguments of its message. A collaborator of a service is a record of operations,
  and its contract a locale. An awaited call runs to its end; where interleavings matter, the loads and
  saves of two callers are written as an explicit sequence of calls. Objects that the in-memory stores
  share with their callers are written back by an explicit write-through; stores that clone do not have
  it. A database transaction that throws leaves the tables as they were. Random identifiers and the
  clock are arguments. Locale-dependent collation is an argument.

  Idealisations. A JavaScript number is a rational: rounding of floating point, overflow, NaN and
  infinities are not modelled. Strings are ASCII; a Date is its integer time value. The order of the
  rows of a query without a complete ORDER BY is the order of the table. A Map or a Record is an
  association list in the order of insertion (integer-like keys of a Record are not reordered). No model
  uses fuel: the loops of the code that are modelled run over a list, except the retry loop of the barcode
  generator, a \<open>function\<close> whose termination proof counts the attempts that are left.

  Not modelled, with the reason in the manifest: the GraphQL layer other than the resolvers named above, the subgraphs
  and the gateway, tenant databases, messaging and workers, HTTP and file helpers, integrations with remote
  services, anomaly detection and the reorder-point forecaster (square roots over floating point), and the stores
  whose SQL only maps rows. The distance formula of GeoLocation.ts (trigonometry) is an argument of the routing, and so
  are the remote answers that the slotting and the audits ask for.
\<close>

end
